(* ===== verification/Prelude.thy ===== *)
theory Prelude
  imports Main "HOL-Library.Word" "HOL-Library.Char_ord" "HOL-Library.List_Lexorder"
begin

text \<open>
  Shared vocabulary of the development.

  \<^item> \<open>smap\<close>: a \<open>std::map\<close> as the list of its entries in key order. Lookup is
    \<open>map_of\<close>, iteration is the list itself, so loops of the source over a map are
    recursions over that list and run in the order the C++ container gives. On strings the
    order is the one of \<open>std::string::operator<\<close>: lexicographic on unsigned bytes, which is
    the order of \<open>List_Lexorder\<close> over \<open>Char_ord\<close>.
  \<^item> \<open>expected\<close>: \<open>std::expected<T, std::string>\<close> as a sum, with the message on
    the left.
  \<^item> \<open>ptr\<close>: the identity of a shared object.
  \<^item> \<open>keyed_registry\<close>: the contract the registries of the repository share (plugins,
    functions, events): the first registration of a name wins, and a removal forgets exactly
    that name.
\<close>

type_synonym u8 = "8 word"
type_synonym u16 = "16 word"
type_synonym u32 = "32 word"
type_synonym u64 = "64 word"
type_synonym ptr = nat
type_synonym 'a expected = "string + 'a"

text \<open>Facts that unfold the primitive operations of an ordered map.\<close>

named_theorems smap_simps
named_theorems smap_intros

section \<open>Ordered maps\<close>

type_synonym ('k, 'v) smap = "('k \<times> 'v) list"

definition smap_ok :: "('k::linorder, 'v) smap \<Rightarrow> bool" where
  "smap_ok m \<longleftrightarrow> sorted_wrt (<) (map fst m)"

fun smap_put :: "'k::linorder \<Rightarrow> 'v \<Rightarrow> ('k, 'v) smap \<Rightarrow> ('k, 'v) smap" where
  "smap_put k v [] = [(k, v)]"
| "smap_put k v (e # m) =
     (if k < fst e then (k, v) # e # m
      else if k = fst e then (k, v) # m
      else e # smap_put k v m)"

definition smap_del :: "'k \<Rightarrow> ('k, 'v) smap \<Rightarrow> ('k, 'v) smap" where
  "smap_del k m = filter (\<lambda>e. fst e \<noteq> k) m"

text \<open>\<open>try_emplace\<close> and \<open>emplace\<close>: an existing entry is kept.\<close>

definition smap_emplace :: "'k::linorder \<Rightarrow> 'v \<Rightarrow> ('k, 'v) smap \<Rightarrow> ('k, 'v) smap" where
  "smap_emplace k v m = (case map_of m k of Some _ \<Rightarrow> m | None \<Rightarrow> smap_put k v m)"

lemma smap_ok_Nil [simp, smap_intros]: "smap_ok []"
  by (simp add: smap_ok_def)

lemma smap_ok_Cons:
  "smap_ok (e # m) \<longleftrightarrow> (\<forall>k \<in> fst ` set m. fst e < k) \<and> smap_ok m"
  by (auto simp: smap_ok_def)

lemma smap_ok_distinct: "smap_ok m \<Longrightarrow> distinct (map fst m)"
  by (induction m) (auto simp: smap_ok_Cons)

lemma map_of_put [simp, smap_simps]:
  "map_of (smap_put k v m) = (map_of m)(k \<mapsto> v)"
  by (induction m) (auto simp: fun_eq_iff)

lemma keys_put [simp, smap_simps]:
  "fst ` set (smap_put k v m) = insert k (fst ` set m)"
  by (induction m) auto

lemma smap_ok_put [simp, smap_intros]: "smap_ok m \<Longrightarrow> smap_ok (smap_put k v m)"
proof (induction m)
  case Nil
  show ?case by (simp add: smap_ok_def)
next
  case (Cons e m)
  then show ?case
    by (auto simp: smap_ok_Cons)
qed

lemma map_of_del [simp, smap_simps]: "map_of (smap_del k m) = (map_of m)(k := None)"
  by (induction m) (auto simp: smap_del_def fun_eq_iff)

lemma keys_del [simp, smap_simps]: "fst ` set (smap_del k m) = fst ` set m - {k}"
  by (auto simp: smap_del_def)

lemma smap_ok_del [simp, smap_intros]: "smap_ok m \<Longrightarrow> smap_ok (smap_del k m)"
  by (induction m) (auto simp: smap_ok_Cons smap_del_def)

lemma map_of_emplace [smap_simps]:
  "map_of (smap_emplace k v m) = (if map_of m k = None then (map_of m)(k \<mapsto> v) else map_of m)"
  by (auto simp: smap_emplace_def split: option.splits)

lemma smap_ok_emplace [simp, smap_intros]: "smap_ok m \<Longrightarrow> smap_ok (smap_emplace k v m)"
  by (simp add: smap_emplace_def split: option.splits)

lemma smap_mem_iff:
  "smap_ok m \<Longrightarrow> (k, v) \<in> set m \<longleftrightarrow> map_of m k = Some v"
  by (metis map_of_SomeD map_of_is_SomeI smap_ok_distinct)

lemma smap_key_iff: "k \<in> fst ` set m \<longleftrightarrow> map_of m k \<noteq> None"
  by (metis map_of_eq_None_iff)

text \<open>Two well-formed maps with the same lookups are the same list.\<close>

lemma smap_ext:
  assumes "smap_ok m" and "smap_ok n" and "map_of m = map_of n"
  shows "m = n"
  using assms
proof (induction m arbitrary: n)
  case Nil
  then show ?case by (cases n) (auto simp: fun_eq_iff split: if_splits)
next
  case (Cons e m)
  obtain k v where e: "e = (k, v)" by (cases e)
  have km: "map_of m k = None"
    using Cons.prems(1) by (force simp: smap_ok_Cons e map_of_eq_None_iff)
  from Cons.prems(3) have look: "map_of n k = Some v"
    by (metis e map_of_Cons_code(2))
  then obtain f n' where n: "n = f # n'" by (cases n) auto
  obtain k' v' where f: "f = (k', v')" by (cases f)
  have kn': "map_of n' k' = None"
    using Cons.prems(2) by (force simp: smap_ok_Cons n f map_of_eq_None_iff)
  have "k' = k"
  proof (rule ccontr)
    assume ne: "k' \<noteq> k"
    from look ne have "k \<in> fst ` set n'"
      by (simp add: n f smap_key_iff)
    then have "k' < k" using Cons.prems(2) by (auto simp: smap_ok_Cons n f)
    moreover have "map_of (e # m) k' = Some v'"
      using fun_cong [OF Cons.prems(3), of k'] by (simp add: n f)
    then have "k' \<in> fst ` set m" using ne by (simp add: e smap_key_iff)
    then have "k < k'" using Cons.prems(1) by (auto simp: smap_ok_Cons e)
    ultimately show False by simp
  qed
  moreover from this have "v' = v" using look by (simp add: n f)
  moreover have "map_of m = map_of n'"
  proof
    fix x
    show "map_of m x = map_of n' x"
      using fun_cong [OF Cons.prems(3), of x] km kn' \<open>k' = k\<close>
      by (cases "x = k") (auto simp: n f e)
  qed
  ultimately show ?case
    using Cons.IH [of n'] Cons.prems by (simp add: n f e smap_ok_Cons)
qed

lemma smap_del_put_fresh:
  "smap_ok m \<Longrightarrow> map_of m k = None \<Longrightarrow> smap_del k (smap_put k v m) = m"
  by (rule smap_ext) (auto simp: fun_eq_iff)

lemma smap_del_absent: "map_of m k = None \<Longrightarrow> smap_del k m = m"
  unfolding smap_del_def map_of_eq_None_iff
  by (rule filter_True) auto

lemma smap_put_same: "smap_ok m \<Longrightarrow> map_of m k = Some v \<Longrightarrow> smap_put k v m = m"
  by (rule smap_ext) (auto simp: fun_eq_iff)

section \<open>The contract of a name registry\<close>

text \<open>
  \<open>add\<close> returns the registry after a registration attempt (what it reports differs from
  one registry to another), \<open>valid\<close> is the name check the registry makes. Only the first
  registration of a valid, free name is stored.
\<close>

locale keyed_registry =
  fixes inv :: "'r \<Rightarrow> bool"
    and valid :: "string \<Rightarrow> 'v \<Rightarrow> bool"
    and find :: "'r \<Rightarrow> string \<Rightarrow> 'v option"
    and add :: "string \<Rightarrow> 'v \<Rightarrow> 'r \<Rightarrow> 'r"
    and remove :: "string \<Rightarrow> 'r \<Rightarrow> 'r"
  assumes find_add_free:
      "inv r \<Longrightarrow> valid k v \<Longrightarrow> find r k = None \<Longrightarrow> find (add k v r) = (find r)(k \<mapsto> v)"
    and find_add_other:
      "inv r \<Longrightarrow> \<not> valid k v \<or> find r k \<noteq> None \<Longrightarrow> find (add k v r) = find r"
    and find_remove: "inv r \<Longrightarrow> find (remove k r) = (find r)(k := None)"
    and inv_add: "inv r \<Longrightarrow> inv (add k v r)"
    and inv_remove: "inv r \<Longrightarrow> inv (remove k r)"
begin

lemma add_keeps: "inv r \<Longrightarrow> find r k = Some v \<Longrightarrow> find (add k' v' r) k = Some v"
  by (cases "valid k' v' \<and> find r k' = None") (auto simp: find_add_free find_add_other)

lemma inv_adds: "inv r \<Longrightarrow> inv (fold (\<lambda>(k, v). add k v) xs r)"
  by (induction xs arbitrary: r) (auto simp: inv_add split: prod.splits)

text \<open>After any sequence of registrations a name is bound to its first valid one.\<close>

lemma first_registration_wins:
  assumes "inv r"
  shows "find (fold (\<lambda>(k, v). add k v) xs r) k =
    (case find r k of Some v \<Rightarrow> Some v
     | None \<Rightarrow> map_of (filter (\<lambda>(k, v). valid k v) xs) k)"
  using assms
proof (induction xs arbitrary: r)
  case Nil
  then show ?case by (simp split: option.splits)
next
  case (Cons x xs)
  obtain k' v' where x: "x = (k', v')" by (cases x)
  have "inv (add k' v' r)" using Cons.prems by (rule inv_add)
  from Cons.IH [OF this] Cons.prems show ?case
    by (cases "valid k' v' \<and> find r k' = None")
      (auto simp: x find_add_free find_add_other split: option.splits)
qed

text \<open>A name that was removed can be registered again, and then holds the new value.\<close>

lemma reregister:
  "inv r \<Longrightarrow> valid k v \<Longrightarrow> find (add k v (remove k r)) k = Some v"
  by (simp add: find_add_free find_remove inv_remove)

lemma remove_other: "inv r \<Longrightarrow> k \<noteq> k' \<Longrightarrow> find (remove k r) k' = find r k'"
  by (simp add: find_remove)

end

section \<open>Numbers as text\<close>

text \<open>\<open>std::to_string\<close> of an unsigned number.\<close>

fun dec :: "nat \<Rightarrow> string" where
  "dec n = (if n < 10 then [char_of (48 + n)] else dec (n div 10) @ [char_of (48 + n mod 10)])"

declare dec.simps [simp del]

section \<open>Characters\<close>

text \<open>\<open>std::isxdigit\<close> and \<open>std::tolower\<close> in the C locale.\<close>

definition is_xdigit :: "char \<Rightarrow> bool" where
  "is_xdigit c \<longleftrightarrow> (CHR ''0'' \<le> c \<and> c \<le> CHR ''9'') \<or> (CHR ''a'' \<le> c \<and> c \<le> CHR ''f'') \<or> (CHR ''A'' \<le> c \<and> c \<le> CHR ''F'')"

definition to_lower :: "char \<Rightarrow> char" where
  "to_lower c = (if CHR ''A'' \<le> c \<and> c \<le> CHR ''Z'' then char_of (of_char c + 32 :: nat) else c)"

section \<open>Lists and words\<close>

lemma sorted_wrt_less_snd_distinct: "sorted_wrt (<) (xs :: 'a::linorder list) \<Longrightarrow> distinct xs"
  by (induction xs) auto

lemma unat_of_nat_small: "n < 2 ^ LENGTH('a) \<Longrightarrow> unat (of_nat n :: 'a::len word) = n"
  by (simp add: unat_of_nat take_bit_nat_eq_self)

lemma unat_Suc_u32: "unat (x :: u32) < 4294967295 \<Longrightarrow> unat (x + 1) = Suc (unat x)"
  by (simp add: unat_word_ariths)

lemma unat_pred_u32: "0 < (x :: u32) \<Longrightarrow> unat (x - 1) = unat x - 1"
  by (simp add: unat_minus_one word_gt_0)

lemma unat_max_u32: "unat (- 1 :: u32) = 4294967295"
  by (simp add: unat_eq_nat_uint uint_word_ariths)

lemma drop_take_append_exact:
  "length a = n \<Longrightarrow> drop n (a @ b) = b" "length a = n \<Longrightarrow> take n (a @ b) = a"
  by auto

end
