(* ===== verification/Function_Registry.thy ===== *)
theory Function_Registry
  imports Prelude
begin

text \<open>
  Function values, schemas and the function registry of the service framework
  (\<open>service_manager/function/definition.hpp\<close>, \<open>function/registry.hpp\<close> and
  \<open>function/registry.cpp\<close>).

  A \<open>double\<close> is its 64-bit pattern. The payload of a JSON object or array belongs to
  Boost and is the type parameter \<open>'j\<close>. A handler gets the world \<open>'w\<close> it may change and
  returns a result or the text of the exception it throws. The registry mutex serialises every
  operation, so each is one function of the registry; \<open>call\<close> copies the schema and handler
  under the lock and runs the handler outside it, which changes no registry state.
\<close>

section \<open>Values and schemas\<close>

datatype function_value_type = Boolean | Number | String | Object | Array | RawBuffer

record raw_buffer =
  data_ptr :: nat
  data_size :: nat
  is_const :: bool

datatype 'j function_value =
    VBool bool
  | VNumber u64
  | VString string
  | VObject 'j
  | VArray 'j
  | VRawBuffer raw_buffer

fun get_function_value_type :: "'j function_value \<Rightarrow> function_value_type" where
  "get_function_value_type (VBool _) = Boolean"
| "get_function_value_type (VNumber _) = Number"
| "get_function_value_type (VString _) = String"
| "get_function_value_type (VObject _) = Object"
| "get_function_value_type (VArray _) = Array"
| "get_function_value_type (VRawBuffer _) = RawBuffer"

text \<open>The enumerator's name, as the describe macro of the enum prints it.\<close>

fun value_type_str :: "function_value_type \<Rightarrow> string" where
  "value_type_str Boolean = ''Boolean''"
| "value_type_str Number = ''Number''"
| "value_type_str String = ''String''"
| "value_type_str Object = ''Object''"
| "value_type_str Array = ''Array''"
| "value_type_str RawBuffer = ''RawBuffer''"

type_synonym 'j param_map = "(string, 'j function_value) smap"

record 'j param_schema =
  p_name :: string
  p_description :: string
  p_type :: function_value_type
  p_default :: "'j function_value option"

definition is_compatible_value :: "'j param_schema \<Rightarrow> 'j function_value \<Rightarrow> bool" where
  "is_compatible_value p v \<longleftrightarrow> get_function_value_type v = p_type p"

definition is_required :: "'j param_schema \<Rightarrow> bool" where
  "is_required p \<longleftrightarrow> p_default p = None"

record return_schema =
  ret_type :: function_value_type
  ret_description :: string

record 'j function_schema =
  fs_name :: string
  fs_description :: string
  fs_parameters :: "'j param_schema list"
  fs_require_scheduler :: bool
  fs_default_timeout_ms :: "u32 option"
  fs_return :: "return_schema option"

record 'j function_result =
  success :: bool
  error_message :: string
  data :: "'j function_value option"

definition has_data :: "'j function_result \<Rightarrow> bool" where
  "has_data r \<longleftrightarrow> data r \<noteq> None"

definition error_result :: "string \<Rightarrow> 'j function_result" where
  "error_result msg = \<lparr>success = False, error_message = msg, data = None\<rparr>"

text \<open>A handler: the result, or the exception's text, and the world after it.\<close>

type_synonym ('j, 'w) handler = "'j param_map \<Rightarrow> 'w \<Rightarrow> (string + 'j function_result) \<times> 'w"

type_synonym ('j, 'w) function_registry = "(string, 'j function_schema \<times> ('j, 'w) handler) smap"

section \<open>Registration\<close>

definition fr_add ::
  "'j function_schema \<Rightarrow> ('j, 'w) handler option \<Rightarrow> ('j, 'w) function_registry
    \<Rightarrow> bool \<times> ('j, 'w) function_registry" where
  "fr_add sch h r =
     (if fs_name sch = [] then (False, r)
      else case h of
        None \<Rightarrow> (False, r)
      | Some f \<Rightarrow>
          (if map_of r (fs_name sch) \<noteq> None then (False, r)
           else (True, smap_put (fs_name sch) (sch, f) r)))"

definition fr_remove :: "string \<Rightarrow> ('j, 'w) function_registry \<Rightarrow> bool \<times> ('j, 'w) function_registry" where
  "fr_remove name r =
     (if map_of r name = None then (False, r) else (True, smap_del name r))"

definition fr_remove_all :: "('j, 'w) function_registry \<Rightarrow> bool \<times> ('j, 'w) function_registry" where
  "fr_remove_all r = (True, [])"

definition fr_get_schema :: "('j, 'w) function_registry \<Rightarrow> string \<Rightarrow> 'j function_schema option" where
  "fr_get_schema r name = map_option fst (map_of r name)"

definition fr_get_schemas :: "('j, 'w) function_registry \<Rightarrow> 'j function_schema list" where
  "fr_get_schemas r = map (\<lambda>e. fst (snd e)) r"

definition fr_get_names :: "('j, 'w) function_registry \<Rightarrow> string list" where
  "fr_get_names r = map fst r"

definition fr_has :: "('j, 'w) function_registry \<Rightarrow> string \<Rightarrow> bool" where
  "fr_has r name \<longleftrightarrow> map_of r name \<noteq> None"

definition fr_get_count :: "('j, 'w) function_registry \<Rightarrow> nat" where
  "fr_get_count r = length r"

section \<open>Validation\<close>

text \<open>The first loop of \<open>validate_parameters\<close>: required parameters, types, defaults.\<close>

fun fill_parameters :: "'j param_schema list \<Rightarrow> 'j param_map \<Rightarrow> 'j param_map expected" where
  "fill_parameters [] ps = Inr ps"
| "fill_parameters (p # params) ps =
     (case map_of ps (p_name p) of
        None \<Rightarrow>
          (if is_required p then Inl (''Missing required parameter: `'' @ p_name p @ ''`'')
           else case p_default p of
             None \<Rightarrow> Inl (''Optional parameter `'' @ p_name p @ ''` has no default value'')
           | Some d \<Rightarrow> fill_parameters params (smap_put (p_name p) d ps))
      | Some v \<Rightarrow>
          (if \<not> is_compatible_value p v
           then Inl (''Invalid type for parameter `'' @ p_name p @ ''`: expected `'' @
                  value_type_str (p_type p) @ ''`, but got `'' @
                  value_type_str (get_function_value_type v) @ ''`'')
           else fill_parameters params ps))"

text \<open>The second loop: the first argument, in key order, that no parameter names.\<close>

fun check_unknown :: "'j param_schema list \<Rightarrow> 'j param_map \<Rightarrow> unit expected" where
  "check_unknown params [] = Inr ()"
| "check_unknown params (a # as) =
     (if fst a \<in> p_name ` set params then check_unknown params as
      else Inl (''Unknown parameter: `'' @ fst a @ ''`''))"

definition validate_parameters :: "'j function_schema \<Rightarrow> 'j param_map \<Rightarrow> 'j param_map expected" where
  "validate_parameters sch ps =
     (case fill_parameters (fs_parameters sch) ps of
        Inl e \<Rightarrow> Inl e
      | Inr ps' \<Rightarrow>
          (case check_unknown (fs_parameters sch) ps' of Inl e \<Rightarrow> Inl e | Inr _ \<Rightarrow> Inr ps'))"

definition validate_return_value :: "'j function_schema \<Rightarrow> 'j function_result \<Rightarrow> unit expected" where
  "validate_return_value sch r =
     (if \<not> success r then Inr ()
      else case fs_return sch of
        None \<Rightarrow>
          (if has_data r
           then Inl (''Function `'' @ fs_name sch @ ''` returned data but schema declares no return value'')
           else Inr ())
      | Some rs \<Rightarrow>
          (case data r of
             None \<Rightarrow> Inl (''Function `'' @ fs_name sch @
               ''` returned no data but schema declares return type `'' @ value_type_str (ret_type rs) @ ''`'')
           | Some d \<Rightarrow>
               (if get_function_value_type d \<noteq> ret_type rs
                then Inl (''Function `'' @ fs_name sch @ ''` returned invalid data type: expected `'' @
                       value_type_str (ret_type rs) @ ''`, but got `'' @
                       value_type_str (get_function_value_type d) @ ''`'')
                else Inr ())))"

section \<open>Calling\<close>

definition fr_call ::
  "string \<Rightarrow> 'j param_map \<Rightarrow> ('j, 'w) function_registry \<Rightarrow> 'w \<Rightarrow> (string + 'j function_result) \<times> 'w" where
  "fr_call name ps r w =
     (case map_of r name of
        None \<Rightarrow> (Inr (error_result (''Function not found: '' @ name)), w)
      | Some (sch, h) \<Rightarrow>
          (case validate_parameters sch ps of
             Inl e \<Rightarrow> (Inr (error_result e), w)
           | Inr ps' \<Rightarrow>
               (case h ps' w of
                  (Inl ex, w') \<Rightarrow> (Inl ex, w')
                | (Inr res, w') \<Rightarrow>
                    (case validate_return_value sch res of
                       Inl e \<Rightarrow> (Inr (error_result e), w')
                     | Inr _ \<Rightarrow> (Inr res, w')))))"

section \<open>The registry implements the name-registry contract\<close>

definition fr_ok :: "('j, 'w) function_registry \<Rightarrow> bool" where
  "fr_ok r \<longleftrightarrow> smap_ok r \<and> (\<forall>(k, sch, _) \<in> set r. fs_name sch = k \<and> k \<noteq> [])"

definition fr_find :: "('j, 'w) function_registry \<Rightarrow> string \<Rightarrow> ('j function_schema \<times> ('j, 'w) handler option) option" where
  "fr_find r k = map_option (\<lambda>(s, h). (s, Some h)) (map_of r k)"

definition fr_valid :: "string \<Rightarrow> 'j function_schema \<times> ('j, 'w) handler option \<Rightarrow> bool" where
  "fr_valid k v \<longleftrightarrow> fs_name (fst v) = k \<and> k \<noteq> [] \<and> snd v \<noteq> None"

lemma set_smap_put: "e \<in> set (smap_put k v m) \<Longrightarrow> e = (k, v) \<or> e \<in> set m"
  by (induction m) (auto split: if_splits)

lemma fr_ok_add: "fr_ok r \<Longrightarrow> fr_ok (snd (fr_add sch h r))"
  by (auto simp: fr_ok_def fr_add_def split: option.splits dest!: set_smap_put)

lemma fr_ok_remove: "fr_ok r \<Longrightarrow> fr_ok (snd (fr_remove k r))"
  by (auto simp: fr_ok_def fr_remove_def smap_del_def dest: smap_ok_del [of r k, unfolded smap_del_def])

interpretation fr: keyed_registry fr_ok fr_valid fr_find
  "\<lambda>k v r. if fs_name (fst v) = k then snd (fr_add (fst v) (snd v) r) else r"
  "\<lambda>k r. snd (fr_remove k r)"
proof unfold_locales
  fix r :: "('j, 'w) function_registry" and k v
  assume "fr_ok r"
  show "fr_valid k v \<Longrightarrow> fr_find r k = None \<Longrightarrow>
    fr_find (if fs_name (fst v) = k then snd (fr_add (fst v) (snd v) r) else r) = (fr_find r)(k \<mapsto> v)"
    by (cases v) (auto simp: fr_find_def fr_valid_def fr_add_def fun_eq_iff)
  show "\<not> fr_valid k v \<or> fr_find r k \<noteq> None \<Longrightarrow>
    fr_find (if fs_name (fst v) = k then snd (fr_add (fst v) (snd v) r) else r) = fr_find r"
    by (cases v) (auto simp: fr_find_def fr_valid_def fr_add_def split: option.splits)
  show "fr_find (snd (fr_remove k r)) = (fr_find r)(k := None)"
    by (auto simp: fr_find_def fr_remove_def fun_eq_iff)
  show "fr_ok (if fs_name (fst v) = k then snd (fr_add (fst v) (snd v) r) else r)"
    using \<open>fr_ok r\<close> by (auto intro: fr_ok_add)
  show "fr_ok (snd (fr_remove k r))"
    using \<open>fr_ok r\<close> by (rule fr_ok_remove)
qed

section \<open>What validation accepts\<close>

text \<open>
  The specification of a valid call: every parameter has an argument of its type or a default,
  and every argument belongs to a parameter. The handler then sees the given arguments and the
  defaults of the others.
\<close>

definition arg_ok :: "'j param_map \<Rightarrow> 'j param_schema \<Rightarrow> bool" where
  "arg_ok ps p \<longleftrightarrow>
     (case map_of ps (p_name p) of Some v \<Rightarrow> is_compatible_value p v | None \<Rightarrow> p_default p \<noteq> None)"

definition args_ok :: "'j function_schema \<Rightarrow> 'j param_map \<Rightarrow> bool" where
  "args_ok sch ps \<longleftrightarrow>
     (\<forall>p \<in> set (fs_parameters sch). arg_ok ps p) \<and> fst ` set ps \<subseteq> p_name ` set (fs_parameters sch)"

definition fill_one :: "'j param_schema \<Rightarrow> 'j param_map \<Rightarrow> 'j param_map" where
  "fill_one p ps = (case map_of ps (p_name p) of Some _ \<Rightarrow> ps | None \<Rightarrow> smap_put (p_name p) (the (p_default p)) ps)"

definition filled_args :: "'j function_schema \<Rightarrow> 'j param_map \<Rightarrow> 'j param_map" where
  "filled_args sch ps = fold fill_one (fs_parameters sch) ps"

lemma arg_ok_fill_other: "p_name p \<noteq> p_name q \<Longrightarrow> arg_ok (fill_one q ps) p = arg_ok ps p"
  by (simp add: arg_ok_def fill_one_def split: option.splits)

lemma fill_parameters_step:
  "fill_parameters (p # params) ps =
     (if arg_ok ps p then fill_parameters params (fill_one p ps)
      else Inl (projl (fill_parameters (p # params) ps)))"
  by (auto simp: arg_ok_def fill_one_def is_required_def split: option.splits)

lemma fill_parameters_Inr_iff:
  "distinct (map p_name params) \<Longrightarrow>
   fill_parameters params ps = Inr ps' \<longleftrightarrow>
     (\<forall>p \<in> set params. arg_ok ps p) \<and> ps' = fold fill_one params ps"
proof (induction params arbitrary: ps)
  case Nil
  then show ?case by auto
next
  case (Cons p params)
  have other: "\<forall>q \<in> set params. arg_ok (fill_one p ps) q = arg_ok ps q"
    using Cons.prems by (auto intro!: arg_ok_fill_other) (metis image_eqI)
  show ?case
  proof (cases "arg_ok ps p")
    case True
    then show ?thesis
      using Cons other by (subst fill_parameters_step) auto
  next
    case False
    then show ?thesis by (subst fill_parameters_step) auto
  qed
qed

lemma check_unknown_Inr_iff:
  "check_unknown params as = Inr u \<longleftrightarrow> fst ` set as \<subseteq> p_name ` set params"
  by (induction as) auto

lemma keys_fill: "fst ` set (fold fill_one params ps) = fst ` set ps \<union> p_name ` set params"
proof (induction params arbitrary: ps)
  case Nil
  then show ?case by simp
next
  case (Cons p params)
  have "fst ` set (fill_one p ps) = insert (p_name p) (fst ` set ps)"
    by (auto simp: fill_one_def insert_absorb smap_key_iff split: option.splits)
  with Cons show ?case by auto
qed

lemma validate_parameters_iff:
  assumes "distinct (map p_name (fs_parameters sch))"
  shows "validate_parameters sch ps = Inr ps' \<longleftrightarrow> args_ok sch ps \<and> ps' = filled_args sch ps"
proof (cases "fill_parameters (fs_parameters sch) ps")
  case (Inl e)
  then have "\<not> (\<forall>p \<in> set (fs_parameters sch). arg_ok ps p)"
    using fill_parameters_Inr_iff [OF assms, of ps] by (metis Inl_Inr_False)
  with Inl show ?thesis by (auto simp: validate_parameters_def args_ok_def)
next
  case (Inr q)
  then have q: "\<forall>p \<in> set (fs_parameters sch). arg_ok ps p" "q = filled_args sch ps"
    using fill_parameters_Inr_iff [OF assms, of ps] by (auto simp: filled_args_def)
  have keys: "fst ` set q = fst ` set ps \<union> p_name ` set (fs_parameters sch)"
    by (simp add: q(2) filled_args_def keys_fill)
  show ?thesis
  proof (cases "check_unknown (fs_parameters sch) q")
    case l: (Inl e)
    then have "\<not> fst ` set q \<subseteq> p_name ` set (fs_parameters sch)"
      using check_unknown_Inr_iff [of "fs_parameters sch" q] by (metis Inl_Inr_False)
    with l Inr keys show ?thesis by (auto simp: validate_parameters_def args_ok_def)
  next
    case r: (Inr u)
    then have "fst ` set q \<subseteq> p_name ` set (fs_parameters sch)"
      by (simp add: check_unknown_Inr_iff)
    with r Inr keys q show ?thesis by (auto simp: validate_parameters_def args_ok_def)
  qed
qed

lemma validate_parameters_Inl:
  assumes "distinct (map p_name (fs_parameters sch))" and "\<not> args_ok sch ps"
  obtains e where "validate_parameters sch ps = Inl e"
  using validate_parameters_iff [OF assms(1)] assms(2)
  by (cases "validate_parameters sch ps") auto

section \<open>Properties\<close>

text \<open>C13: a call whose arguments violate the schema fails with an error and without running the
  handler (the world is untouched); a call whose arguments satisfy it runs the handler once, on
  exactly the given arguments completed by the schema's defaults, and hands back its result or,
  where the result breaks the return schema, an error.\<close>

theorem fr_call_correct:
  assumes "map_of r name = Some (sch, h)" and "distinct (map p_name (fs_parameters sch))"
  shows "if args_ok sch ps
    then fr_call name ps r w =
      (case h (filled_args sch ps) w of
         (Inl ex, w') \<Rightarrow> (Inl ex, w')
       | (Inr res, w') \<Rightarrow>
           (case validate_return_value sch res of
              Inl e \<Rightarrow> (Inr (error_result e), w') | Inr _ \<Rightarrow> (Inr res, w')))
    else \<exists>e. fr_call name ps r w = (Inr (error_result e), w)"
proof (cases "args_ok sch ps")
  case True
  then have "validate_parameters sch ps = Inr (filled_args sch ps)"
    by (simp add: validate_parameters_iff [OF assms(2)])
  with True assms(1) show ?thesis by (simp add: fr_call_def)
next
  case False
  then obtain e where "validate_parameters sch ps = Inl e"
    using validate_parameters_Inl [OF assms(2)] by blast
  with False assms(1) show ?thesis by (auto simp: fr_call_def)
qed

definition demo_schema :: "nat function_schema" where
  "demo_schema = \<lparr>fs_name = ''add'', fs_description = [],
     fs_parameters = [\<lparr>p_name = ''a'', p_description = [], p_type = Number, p_default = None\<rparr>,
       \<lparr>p_name = ''b'', p_description = [], p_type = Number, p_default = Some (VNumber 7)\<rparr>],
     fs_require_scheduler = False, fs_default_timeout_ms = None,
     fs_return = Some \<lparr>ret_type = Number, ret_description = []\<rparr>\<rparr>"

definition demo_handler :: "(nat, nat) handler" where
  "demo_handler ps w =
     (Inr \<lparr>success = True, error_message = [], data = map_of ps ''b''\<rparr>, Suc w)"

theorem fr_call_correct_witness:
  "fr_call ''add'' [(''a'', VNumber 1)] [(''add'', demo_schema, demo_handler)] 0 =
     (Inr \<lparr>success = True, error_message = [], data = Some (VNumber 7)\<rparr>, 1) \<and>
   (\<exists>e. fr_call ''add'' [(''b'', VNumber 1)] [(''add'', demo_schema, demo_handler)] 0 =
     (Inr (error_result e), 0))"
proof -
  have m: "map_of [(''add'', demo_schema, demo_handler)] ''add'' = Some (demo_schema, demo_handler)"
    by simp
  have d: "distinct (map p_name (fs_parameters demo_schema))"
    by (simp add: demo_schema_def)
  have ok: "args_ok demo_schema [(''a'', VNumber 1)]"
    by (simp add: args_ok_def arg_ok_def is_compatible_value_def demo_schema_def)
  have no: "\<not> args_ok demo_schema [(''b'', VNumber 1)]"
    by (simp add: args_ok_def arg_ok_def is_compatible_value_def demo_schema_def)
  show ?thesis
    using fr_call_correct [OF m d, of "[(''a'', VNumber 1)]" 0] ok
      fr_call_correct [OF m d, of "[(''b'', VNumber 1)]" 0] no
    by (simp add: filled_args_def fill_one_def demo_schema_def demo_handler_def
        validate_return_value_def)
qed

text \<open>C38: a call that reports success returned data exactly as the function's return schema
  declares: none where it declares none, a value of the declared type otherwise.\<close>

theorem fr_call_return_contract:
  assumes "fr_call name ps r w = (Inr res, w')" and "success res"
    and "map_of r name = Some (sch, h)"
  shows "case fs_return sch of
      None \<Rightarrow> data res = None
    | Some rs \<Rightarrow> (\<exists>d. data res = Some d \<and> get_function_value_type d = ret_type rs)"
  using assms
  by (auto simp: fr_call_def validate_return_value_def error_result_def has_data_def
      split: sum.splits prod.splits option.splits if_splits)

theorem fr_call_return_contract_witness:
  "\<exists>res w'. fr_call ''add'' [(''a'', VNumber 1)] [(''add'', demo_schema, demo_handler)] 0 = (Inr res, w') \<and>
     success res \<and> (\<exists>d. data res = Some d \<and> get_function_value_type d = Number)"
proof -
  have "fr_call ''add'' [(''a'', VNumber 1)] [(''add'', demo_schema, demo_handler)] 0 =
     (Inr \<lparr>success = True, error_message = [], data = Some (VNumber 7)\<rparr>, 1)"
    by (simp add: fr_call_def validate_parameters_def validate_return_value_def demo_schema_def
        demo_handler_def is_required_def is_compatible_value_def has_data_def)
  from fr_call_return_contract [OF this] this show ?thesis by (auto simp: demo_schema_def)
qed

text \<open>whatever is registered, in whatever order, a function name stays bound to the first
  registration that names it and carries a handler; later ones are refused and change nothing.\<close>

theorem fr_first_registration:
  assumes "fr_ok r"
  shows "fr_find (fold (\<lambda>(sch, h). snd \<circ> fr_add sch h) regs r) k =
    (case fr_find r k of Some v \<Rightarrow> Some v
     | None \<Rightarrow> map_of (filter (\<lambda>(k, v). fr_valid k v) (map (\<lambda>v. (fs_name (fst v), v)) regs)) k)"
proof -
  have "fold (\<lambda>(sch, h). snd \<circ> fr_add sch h) regs r =
    fold (\<lambda>(k, v) r. if fs_name (fst v) = k then snd (fr_add (fst v) (snd v) r) else r)
      (map (\<lambda>v. (fs_name (fst v), v)) regs) r"
    by (simp add: fold_map comp_def split_def)
  then show ?thesis
    using fr.first_registration_wins [OF assms, of "map (\<lambda>v. (fs_name (fst v), v)) regs" k]
    by simp
qed

theorem fr_first_registration_witness:
  "fr_find (fold (\<lambda>(sch, h). snd \<circ> fr_add sch h)
     [(demo_schema, None), (demo_schema, Some demo_handler)] []) ''add'' =
     Some (demo_schema, Some demo_handler)"
  using fr_first_registration [of "[]" "[(demo_schema, None), (demo_schema, Some demo_handler)]" "''add''"]
  by (simp add: fr_ok_def fr_find_def fr_valid_def demo_schema_def)

end
