(* ===== verification/State_Machine.thy ===== *)
theory State_Machine
  imports Prelude
begin

text \<open>
  The generic state machine of \<open>brookesia_lib_utils\<close> (\<open>state_base.hpp\<close>,
  \<open>state_machine.hpp\<close>, \<open>state_machine.cpp\<close>).

  A machine is the record \<open>machine\<close> of the class's members. What it calls outside itself
  is the record \<open>sm_env\<close>: the virtual \<open>on_enter\<close> and \<open>on_exit\<close> of the states, the
  task scheduler, and the callback; each takes and returns the environment \<open>'e\<close>, so hooks may
  answer differently every time. An operation maps \<open>(m, e)\<close> to its result and the new pair.
  \<open>dispatch\<close> and \<open>post\<close> hand a task to the scheduler's serial group; the task that
  \<open>trigger_action\<close> queues is \<open>run_trigger\<close>, a step of its own.
\<close>

section \<open>Data\<close>

type_synonym task_id = nat
type_synonym sched = ptr

record state_base =
  st_name :: string
  timeout_ms :: u32
  timeout_action :: string
  update_interval_ms :: u32

definition mk_state :: "string \<Rightarrow> state_base" where
  "mk_state n = \<lparr>st_name = n, timeout_ms = 0, timeout_action = [], update_interval_ms = 0\<rparr>"

definition set_timeout :: "u32 \<Rightarrow> string \<Rightarrow> state_base \<Rightarrow> state_base" where
  "set_timeout ms action s = s\<lparr>timeout_ms := ms, timeout_action := action\<rparr>"

definition set_update_interval :: "u32 \<Rightarrow> state_base \<Rightarrow> state_base" where
  "set_update_interval ms s = s\<lparr>update_interval_ms := ms\<rparr>"

text \<open>The closures the machine gives to the scheduler.\<close>

datatype sm_task = Trigger string | Timeout string | Update string

record 'e sm_env =
  on_enter :: "string \<Rightarrow> string \<Rightarrow> string \<Rightarrow> 'e \<Rightarrow> bool \<times> 'e"
  on_exit :: "string \<Rightarrow> string \<Rightarrow> string \<Rightarrow> 'e \<Rightarrow> bool \<times> 'e"
  finish_callback :: "string \<Rightarrow> string \<Rightarrow> string \<Rightarrow> 'e \<Rightarrow> 'e"
  sch_is_running :: "sched \<Rightarrow> 'e \<Rightarrow> bool"
  sch_start :: "sched \<Rightarrow> 'e \<Rightarrow> bool \<times> 'e"
  sch_configure_group :: "sched \<Rightarrow> string \<Rightarrow> 'e \<Rightarrow> bool \<times> 'e"
  sch_post :: "sched \<Rightarrow> sm_task \<Rightarrow> string \<Rightarrow> 'e \<Rightarrow> bool \<times> 'e"
  sch_dispatch :: "sched \<Rightarrow> sm_task \<Rightarrow> string \<Rightarrow> 'e \<Rightarrow> bool \<times> 'e"
  sch_post_periodic :: "sched \<Rightarrow> sm_task \<Rightarrow> u32 \<Rightarrow> string \<Rightarrow> 'e \<Rightarrow> task_id \<times> 'e"
  sch_post_delayed :: "sched \<Rightarrow> sm_task \<Rightarrow> u32 \<Rightarrow> string \<Rightarrow> 'e \<Rightarrow> task_id \<times> 'e"
  sch_cancel :: "sched \<Rightarrow> task_id \<Rightarrow> 'e \<Rightarrow> 'e"

record machine =
  sm_states :: "state_base list"
  transitions :: "(string, (string, string) smap) smap"
  current_state :: string
  has_callback :: bool
  task_scheduler :: "sched option"
  task_group_name :: string
  timeout_task_id :: task_id
  update_task_id :: task_id
  transition_count :: u32

definition new_machine :: machine where
  "new_machine = \<lparr>sm_states = [], transitions = [], current_state = [], has_callback = False,
     task_scheduler = None, task_group_name = [], timeout_task_id = 0, update_task_id = 0,
     transition_count = 0\<rparr>"

record sm_config =
  cfg_scheduler :: "sched option"
  cfg_group :: string
  cfg_initial :: string

section \<open>Queries\<close>

definition sm_is_running :: "machine \<Rightarrow> bool" where
  "sm_is_running m \<longleftrightarrow> task_scheduler m \<noteq> None"

definition has_transition_running :: "machine \<Rightarrow> bool" where
  "has_transition_running m \<longleftrightarrow> transition_count m > 0"

definition has_state_updating :: "machine \<Rightarrow> bool" where
  "has_state_updating m \<longleftrightarrow> update_task_id m \<noteq> 0"

definition find_state :: "machine \<Rightarrow> string \<Rightarrow> state_base option" where
  "find_state m n = find (\<lambda>s. st_name s = n) (sm_states m)"

section \<open>Building the machine\<close>

definition add_state :: "state_base option \<Rightarrow> machine \<Rightarrow> bool \<times> machine" where
  "add_state so m =
     (case so of
        None \<Rightarrow> (False, m)
      | Some s \<Rightarrow>
          (if find_state m (st_name s) \<noteq> None then (False, m)
           else (True, m\<lparr>sm_states := sm_states m @ [s]\<rparr>)))"

text \<open>\<open>transitions_[from]\<close> creates the inner map, also when the call then fails.\<close>

definition add_transition :: "string \<Rightarrow> string \<Rightarrow> string \<Rightarrow> machine \<Rightarrow> bool \<times> machine" where
  "add_transition src act dst m =
     (let inner = (case map_of (transitions m) src of Some t \<Rightarrow> t | None \<Rightarrow> []);
          m1 = m\<lparr>transitions := smap_put src inner (transitions m)\<rparr>
      in if map_of inner act \<noteq> None then (False, m1)
         else (True, m1\<lparr>transitions := smap_put src (smap_put act dst inner) (transitions m1)\<rparr>))"

definition register_transition_finish_callback :: "bool \<Rightarrow> machine \<Rightarrow> machine" where
  "register_transition_finish_callback present m = m\<lparr>has_callback := present\<rparr>"

section \<open>Tasks of a state\<close>

definition cancel_current_tasks :: "'e sm_env \<Rightarrow> machine \<times> 'e \<Rightarrow> machine \<times> 'e" where
  "cancel_current_tasks env = (\<lambda>(m, e).
     let m' = m\<lparr>timeout_task_id := 0, update_task_id := 0\<rparr> in
     case task_scheduler m of
       None \<Rightarrow> (m', e)
     | Some s \<Rightarrow>
         let e1 = (if timeout_task_id m \<noteq> 0 then sch_cancel env s (timeout_task_id m) e else e);
             e2 = (if update_task_id m \<noteq> 0 then sch_cancel env s (update_task_id m) e1 else e1)
         in (m', e2))"

definition setup_state_tasks :: "'e sm_env \<Rightarrow> string \<Rightarrow> machine \<times> 'e \<Rightarrow> bool \<times> machine \<times> 'e" where
  "setup_state_tasks env n = (\<lambda>(m, e).
     case task_scheduler m of
       None \<Rightarrow> (True, m, e)
     | Some s \<Rightarrow>
         (case find_state m n of
            None \<Rightarrow> (False, m, e)
          | Some st \<Rightarrow>
              let (m1, e1) =
                (if update_interval_ms st > 0
                 then let (tid, e') = sch_post_periodic env s (Update n) (update_interval_ms st) (task_group_name m) e
                      in (m\<lparr>update_task_id := tid\<rparr>, e')
                 else (m, e));
                  (m2, e2) =
                (if timeout_ms st > 0 \<and> timeout_action st \<noteq> []
                 then let (tid, e') = sch_post_delayed env s (Timeout (timeout_action st)) (timeout_ms st) (task_group_name m1) e1
                      in (m1\<lparr>timeout_task_id := tid\<rparr>, e')
                 else (m1, e1))
              in (True, m2, e2)))"

section \<open>Entering and leaving states\<close>

definition enter_initial_state :: "'e sm_env \<Rightarrow> string \<Rightarrow> machine \<times> 'e \<Rightarrow> bool \<times> machine \<times> 'e" where
  "enter_initial_state env n = (\<lambda>(m, e).
     let (m1, e1) = cancel_current_tasks env (m, e) in
     case find_state m1 n of
       None \<Rightarrow> (False, m1, e1)
     | Some _ \<Rightarrow>
         let (ok, e2) = on_enter env n [] [] e1 in
         if \<not> ok then (False, m1, e2)
         else setup_state_tasks env n (m1\<lparr>current_state := n\<rparr>, e2))"

definition transition_to :: "'e sm_env \<Rightarrow> string \<Rightarrow> string \<Rightarrow> machine \<times> 'e \<Rightarrow> bool \<times> machine \<times> 'e" where
  "transition_to env next action = (\<lambda>(m, e).
     if current_state m = next then (True, m, e)
     else if find_state m (current_state m) = None then (False, m, e)
     else if find_state m next = None then (False, m, e)
     else
       let prev = current_state m;
           (left, e1) = on_exit env prev next action e
       in if \<not> left then (False, m, e1)
          else
            let (m2, e2) = cancel_current_tasks env (m, e1);
                (entered, e3) = on_enter env next prev action e2
            in if \<not> entered
               then
                 let (_, e4) = on_enter env prev [] [] e3;
                     m4 = m2\<lparr>current_state := prev\<rparr>;
                     (_, m5, e5) = setup_state_tasks env prev (m4, e4)
                 in (False, m5, e5)
               else setup_state_tasks env next (m2\<lparr>current_state := next\<rparr>, e3))"

section \<open>Lifecycle and triggers\<close>

definition sm_stop :: "'e sm_env \<Rightarrow> machine \<times> 'e \<Rightarrow> machine \<times> 'e" where
  "sm_stop env = (\<lambda>(m, e).
     if \<not> sm_is_running m then (m, e)
     else let (m1, e1) = cancel_current_tasks env (m, e)
          in (m1\<lparr>task_scheduler := None, current_state := [], transition_count := 0\<rparr>, e1))"

definition sm_start :: "'e sm_env \<Rightarrow> sm_config \<Rightarrow> machine \<times> 'e \<Rightarrow> bool \<times> machine \<times> 'e" where
  "sm_start env cfg = (\<lambda>(m, e).
     case cfg_scheduler cfg of
       None \<Rightarrow> (False, m, e)
     | Some s \<Rightarrow>
         if sm_is_running m then (True, m, e)
         else
           let (up, e1) = (if sch_is_running env s e then (True, e) else sch_start env s e) in
           if \<not> up then (False, m, e1)
           else if find_state m (cfg_initial cfg) = None then (False, sm_stop env (m, e1))
           else
             let m1 = m\<lparr>task_scheduler := Some s, task_group_name := cfg_group cfg\<rparr>;
                 (ok, e2) = sch_configure_group env s (cfg_group cfg) e1
             in if \<not> ok then (False, sm_stop env (m1, e2))
                else
                  let (entered, m3, e3) = enter_initial_state env (cfg_initial cfg) (m1, e2)
                  in if \<not> entered then (False, sm_stop env (m3, e3)) else (True, m3, e3))"

text \<open>The destructor stops a running machine.\<close>

definition sm_destroy :: "'e sm_env \<Rightarrow> machine \<times> 'e \<Rightarrow> machine \<times> 'e" where
  "sm_destroy env me = (if sm_is_running (fst me) then sm_stop env me else me)"

definition trigger_action :: "'e sm_env \<Rightarrow> string \<Rightarrow> bool \<Rightarrow> machine \<times> 'e \<Rightarrow> bool \<times> machine \<times> 'e" where
  "trigger_action env action use_dispatch = (\<lambda>(m, e).
     case task_scheduler m of
       None \<Rightarrow> (False, m, e)
     | Some s \<Rightarrow>
         let m1 = m\<lparr>transition_count := transition_count m + 1\<rparr>;
             (ok, e1) = (if use_dispatch then sch_dispatch env s (Trigger action) (task_group_name m) e
                         else sch_post env s (Trigger action) (task_group_name m) e)
         in (ok, m1, e1))"

text \<open>The guard of the queued task: one less pending transition, never below zero.\<close>

definition finish_one :: "machine \<Rightarrow> machine" where
  "finish_one m = (if transition_count m > 0 then m\<lparr>transition_count := transition_count m - 1\<rparr> else m)"

definition run_trigger :: "'e sm_env \<Rightarrow> string \<Rightarrow> machine \<times> 'e \<Rightarrow> machine \<times> 'e" where
  "run_trigger env action = (\<lambda>(m, e).
     if \<not> sm_is_running m then (m, e)
     else if current_state m = [] then (finish_one m, e)
     else case map_of (transitions m) (current_state m) of
       None \<Rightarrow> (finish_one m, e)
     | Some acts \<Rightarrow>
         (case map_of acts action of
            None \<Rightarrow> (finish_one m, e)
          | Some next \<Rightarrow>
              let (ok, m1, e1) = transition_to env next action (m, e)
              in if \<not> ok then (finish_one m1, e1)
                 else (finish_one m1,
                       if has_callback m1
                       then finish_callback env (current_state m) action (current_state m1) e1
                       else e1)))"

definition force_transition_to :: "'e sm_env \<Rightarrow> string \<Rightarrow> machine \<times> 'e \<Rightarrow> bool \<times> machine \<times> 'e" where
  "force_transition_to env target me =
     (let (m1, e1) = cancel_current_tasks env me in (True, m1\<lparr>current_state := target\<rparr>, e1))"

text \<open>
  \<open>wait_all_transitions\<close>: \<open>busy k\<close> is what the \<open>k\<close>-th poll sees. The counters are
  32 bits wide and wrap; \<open>None\<close> is "does not return".
\<close>

partial_function (option) wait_loop :: "(nat \<Rightarrow> bool) \<Rightarrow> u32 \<Rightarrow> u32 \<Rightarrow> nat \<Rightarrow> bool option" where
  "wait_loop busy timeout elapsed k =
     (if \<not> busy k then Some True
      else if elapsed \<ge> timeout then Some False
      else wait_loop busy timeout (elapsed + 10) (Suc k))"

definition wait_all_transitions :: "machine \<Rightarrow> (nat \<Rightarrow> bool) \<Rightarrow> u32 \<Rightarrow> bool option" where
  "wait_all_transitions m busy timeout =
     (if \<not> sm_is_running m then Some False else wait_loop busy timeout 0 0)"

section \<open>What each operation keeps\<close>

text \<open>
  The well-formedness of a machine: state names are unique, the current state is empty or
  registered, and a machine that is not running holds no timer and counts no transition.
\<close>

definition sm_inv :: "machine \<Rightarrow> bool" where
  "sm_inv m \<longleftrightarrow> distinct (map st_name (sm_states m)) \<and> smap_ok (transitions m) \<and>
     (current_state m = [] \<or> find_state m (current_state m) \<noteq> None) \<and>
     (\<not> sm_is_running m \<longrightarrow>
        timeout_task_id m = 0 \<and> update_task_id m = 0 \<and> transition_count m = 0)"

text \<open>The members an operation of a running machine leaves alone.\<close>

definition same_shape :: "machine \<Rightarrow> machine \<Rightarrow> bool" where
  "same_shape m m' \<longleftrightarrow> sm_states m' = sm_states m \<and> transitions m' = transitions m \<and>
     task_scheduler m' = task_scheduler m \<and> has_callback m' = has_callback m \<and>
     transition_count m' = transition_count m"

named_theorems sm_defs
declare sm_is_running_def [sm_defs] find_state_def [sm_defs]

lemma same_shape_refl [simp]: "same_shape m m"
  by (simp add: same_shape_def)

lemma same_shape_trans: "same_shape a b \<Longrightarrow> same_shape b c \<Longrightarrow> same_shape a c"
  by (simp add: same_shape_def)

lemma same_shape_find: "same_shape m m' \<Longrightarrow> find_state m' n = find_state m n"
  by (simp add: same_shape_def find_state_def)

lemma same_shape_running: "same_shape m m' \<Longrightarrow> sm_is_running m' = sm_is_running m"
  by (simp add: same_shape_def sm_is_running_def)

named_theorems sm_frame

lemma fst_cancel [sm_frame]:
  "fst (cancel_current_tasks env p) = (fst p)\<lparr>timeout_task_id := 0, update_task_id := 0\<rparr>"
  by (cases p) (simp add: cancel_current_tasks_def Let_def split: option.splits)

lemma setup_state_tasks_None:
  "task_scheduler (fst p) = None \<Longrightarrow> setup_state_tasks env n p = (True, fst p, snd p)"
  by (cases p) (simp add: setup_state_tasks_def)

lemma fst_setup [sm_frame]:
  "fst (setup_state_tasks env n p) \<longleftrightarrow> \<not> sm_is_running (fst p) \<or> find_state (fst p) n \<noteq> None"
  by (cases p) (simp add: setup_state_tasks_def sm_is_running_def split_def Let_def split: option.splits)

lemma setup_frame [sm_frame]:
  "sm_states (fst (snd (setup_state_tasks env n p))) = sm_states (fst p)"
  "transitions (fst (snd (setup_state_tasks env n p))) = transitions (fst p)"
  "current_state (fst (snd (setup_state_tasks env n p))) = current_state (fst p)"
  "has_callback (fst (snd (setup_state_tasks env n p))) = has_callback (fst p)"
  "task_scheduler (fst (snd (setup_state_tasks env n p))) = task_scheduler (fst p)"
  "transition_count (fst (snd (setup_state_tasks env n p))) = transition_count (fst p)"
  by (cases p; simp add: setup_state_tasks_def split_def Let_def split: option.splits)+

lemma same_shape_setup [sm_frame]: "same_shape m (fst (snd (setup_state_tasks env n p))) \<longleftrightarrow> same_shape m (fst p)"
  by (simp add: same_shape_def sm_frame)

text \<open>The outcome of \<open>transition_to\<close>: only the state and the two timer ids can change.\<close>

lemma transition_to_shape [sm_frame]: "same_shape (fst p) (fst (snd (transition_to env next a p)))"
  by (cases p)
    (simp add: transition_to_def split_def Let_def sm_frame, simp add: same_shape_def)

lemma transition_to_current [sm_frame]:
  "current_state (fst (snd (transition_to env next a p))) =
     (if fst (transition_to env next a p) then next else current_state (fst p))"
  by (cases p)
    (simp add: transition_to_def split_def Let_def sm_frame, simp add: find_state_def sm_is_running_def)

lemma transition_to_guards:
  assumes "fst (transition_to env next a p)" and "current_state (fst p) \<noteq> next"
  shows "find_state (fst p) (current_state (fst p)) \<noteq> None" and "find_state (fst p) next \<noteq> None"
    and "fst (on_exit env (current_state (fst p)) next a (snd p))"
  using assms
  by (cases p; simp add: transition_to_def split_def Let_def split: if_splits)+

lemma transition_to_stopped:
  assumes "\<not> sm_is_running (fst p)" and "timeout_task_id (fst p) = 0" and "update_task_id (fst p) = 0"
  shows "timeout_task_id (fst (snd (transition_to env next a p))) = 0"
    and "update_task_id (fst (snd (transition_to env next a p))) = 0"
  using assms
  by (cases p; simp add: transition_to_def split_def Let_def sm_frame setup_state_tasks_None sm_is_running_def)+

lemma transition_to_fields [sm_frame]:
  "sm_states (fst (snd (transition_to env next a p))) = sm_states (fst p)"
  "transitions (fst (snd (transition_to env next a p))) = transitions (fst p)"
  "has_callback (fst (snd (transition_to env next a p))) = has_callback (fst p)"
  "task_scheduler (fst (snd (transition_to env next a p))) = task_scheduler (fst p)"
  "transition_count (fst (snd (transition_to env next a p))) = transition_count (fst p)"
  by (insert transition_to_shape, unfold same_shape_def, blast+)

lemma finish_one_fields [sm_frame]:
  "sm_states (finish_one m) = sm_states m" "transitions (finish_one m) = transitions m"
  "current_state (finish_one m) = current_state m" "has_callback (finish_one m) = has_callback m"
  "task_scheduler (finish_one m) = task_scheduler m"
  "timeout_task_id (finish_one m) = timeout_task_id m" "update_task_id (finish_one m) = update_task_id m"
  by (simp_all add: finish_one_def)

lemma sm_inv_transition_to:
  assumes "sm_inv (fst p)"
  shows "sm_inv (fst (snd (transition_to env next a p)))"
proof (cases "fst (transition_to env next a p) \<and> current_state (fst p) \<noteq> next")
  case True
  then have "find_state (fst p) next \<noteq> None"
    by (auto dest: transition_to_guards(2))
  with assms True show ?thesis
    by (auto simp: sm_inv_def sm_frame sm_is_running_def find_state_def transition_to_stopped)
next
  case False
  then have "current_state (fst (snd (transition_to env next a p))) = current_state (fst p)"
    by (auto simp: sm_frame)
  with assms show ?thesis
    by (auto simp: sm_inv_def sm_frame sm_is_running_def find_state_def transition_to_stopped)
qed

lemma sm_inv_finish_one: "sm_inv m \<Longrightarrow> sm_inv (finish_one m)"
  by (auto simp: sm_inv_def sm_frame sm_is_running_def find_state_def finish_one_def)

lemma sm_inv_run_trigger: "sm_inv (fst p) \<Longrightarrow> sm_inv (fst (run_trigger env a p))"
  by (cases p)
    (auto simp: run_trigger_def split_def Let_def sm_inv_finish_one sm_inv_transition_to
       split: option.splits)

lemma sm_inv_stop: "sm_inv (fst p) \<Longrightarrow> sm_inv (fst (sm_stop env p))"
  by (cases p) (auto simp: sm_stop_def split_def Let_def sm_frame sm_inv_def sm_is_running_def find_state_def)

lemma sm_stop_running [simp]: "\<not> sm_is_running (fst (sm_stop env p))"
  by (cases p) (auto simp: sm_stop_def split_def Let_def sm_is_running_def)

lemma sm_inv_enter_initial:
  assumes "sm_inv (fst p)" and "sm_is_running (fst p)"
  shows "sm_inv (fst (snd (enter_initial_state env n p)))"
  using assms
  by (cases p)
    (auto simp: enter_initial_state_def split_def Let_def sm_frame sm_inv_def find_state_def
      sm_is_running_def split: option.splits)

lemma enter_initial_fields [sm_frame]:
  "sm_states (fst (snd (enter_initial_state env n p))) = sm_states (fst p)"
  "transitions (fst (snd (enter_initial_state env n p))) = transitions (fst p)"
  "task_scheduler (fst (snd (enter_initial_state env n p))) = task_scheduler (fst p)"
  "transition_count (fst (snd (enter_initial_state env n p))) = transition_count (fst p)"
  by (cases p; simp add: enter_initial_state_def split_def Let_def sm_frame split: option.splits)+

lemma enter_initial_current:
  "fst (enter_initial_state env n p) \<Longrightarrow> current_state (fst (snd (enter_initial_state env n p))) = n"
  by (cases p)
    (auto simp: enter_initial_state_def split_def Let_def sm_frame split: option.splits if_splits)

lemma sm_inv_start: "sm_inv (fst p) \<Longrightarrow> sm_inv (fst (snd (sm_start env cfg p)))"
proof (cases p)
  fix m e assume p: "p = (m, e)" and inv: "sm_inv (fst p)"
  then have i: "sm_inv m" by simp
  have i1: "\<not> sm_is_running m \<Longrightarrow> sm_inv (m\<lparr>task_scheduler := Some s, task_group_name := g\<rparr>)" for s g
    using i by (auto simp: sm_inv_def find_state_def sm_is_running_def)
  have r1: "sm_is_running (m\<lparr>task_scheduler := Some s, task_group_name := g\<rparr>)" for s g
    by (simp add: sm_is_running_def)
  have i2: "\<not> sm_is_running m \<Longrightarrow> sm_inv (fst (snd (enter_initial_state env n
      (m\<lparr>task_scheduler := Some s, task_group_name := g\<rparr>, e'))))" for s g n e'
    by (rule sm_inv_enter_initial) (simp_all add: i1 r1)
  show ?thesis
    by (cases "cfg_scheduler cfg")
      (simp_all add: p sm_start_def split_def Let_def sm_inv_stop i i1 i2)
qed

lemma sm_inv_trigger: "sm_inv (fst p) \<Longrightarrow> sm_inv (fst (snd (trigger_action env a d p)))"
  by (cases p)
    (auto simp: trigger_action_def split_def Let_def sm_inv_def find_state_def sm_is_running_def
      split: option.splits)

lemma sm_inv_force:
  assumes "sm_inv (fst p)" and "target = [] \<or> find_state (fst p) target \<noteq> None"
  shows "sm_inv (fst (snd (force_transition_to env target p)))"
  using assms by (auto simp: force_transition_to_def split_def Let_def sm_frame sm_inv_def find_state_def sm_is_running_def)

lemma sm_inv_add_state: "sm_inv m \<Longrightarrow> sm_inv (snd (add_state so m))"
  by (auto simp: add_state_def sm_inv_def find_state_def sm_is_running_def find_None_iff find_Some_iff
      split: option.splits)

lemma sm_inv_add_transition: "sm_inv m \<Longrightarrow> sm_inv (snd (add_transition s a t m))"
  by (auto simp: add_transition_def Let_def sm_inv_def find_state_def sm_is_running_def)

section \<open>The machine and its queue as a transition system\<close>

text \<open>
  A configuration is the machine, the environment and the triggers queued in the machine's
  serial group. The steps are the public operations, in any order, and the execution of the
  first queued trigger. A post that the scheduler refuses is a step too. Forcing a state is
  allowed to registered states and to the empty name, which is how the repository uses it.
\<close>

type_synonym 'e conf = "machine \<times> 'e \<times> string list"

inductive sm_step :: "'e sm_env \<Rightarrow> 'e conf \<Rightarrow> 'e conf \<Rightarrow> bool" for env where
  st_add_state: "add_state so m = (r, m') \<Longrightarrow> sm_step env (m, e, q) (m', e, q)"
| st_add_transition: "add_transition s a t m = (r, m') \<Longrightarrow> sm_step env (m, e, q) (m', e, q)"
| st_start: "sm_start env cfg (m, e) = (r, m', e') \<Longrightarrow> sm_step env (m, e, q) (m', e', q)"
| st_stop: "sm_stop env (m, e) = (m', e') \<Longrightarrow> sm_step env (m, e, q) (m', e', q)"
| st_trigger: "trigger_action env a d (m, e) = (True, m', e') \<Longrightarrow> sm_step env (m, e, q) (m', e', q @ [a])"
| st_trigger_refused: "trigger_action env a d (m, e) = (False, m', e') \<Longrightarrow> sm_step env (m, e, q) (m', e', q)"
| st_run: "run_trigger env a (m, e) = (m', e') \<Longrightarrow> sm_step env (m, e, a # q) (m', e', q)"
| st_force: "target = [] \<or> find_state m target \<noteq> None \<Longrightarrow>
     force_transition_to env target (m, e) = (r, m', e') \<Longrightarrow> sm_step env (m, e, q) (m', e', q)"

lemma sm_step_inv: "sm_step env c c' \<Longrightarrow> sm_inv (fst c) \<Longrightarrow> sm_inv (fst c')"
proof (induction rule: sm_step.induct)
  case (st_add_state so m r m' e q)
  then show ?case using sm_inv_add_state [of m so] by simp
next
  case (st_add_transition s a t m r m' e q)
  then show ?case using sm_inv_add_transition [of m s a t] by simp
next
  case (st_start cfg m e r m' e' q)
  then show ?case using sm_inv_start [of "(m, e)" env cfg] by simp
next
  case (st_stop m e m' e' q)
  then show ?case using sm_inv_stop [of "(m, e)" env] by simp
next
  case (st_trigger a d m e m' e' q)
  then show ?case using sm_inv_trigger [of "(m, e)" env a d] by simp
next
  case (st_trigger_refused a d m e m' e' q)
  then show ?case using sm_inv_trigger [of "(m, e)" env a d] by simp
next
  case (st_run a m e m' e' q)
  then show ?case using sm_inv_run_trigger [of "(m, e)" env a] by simp
next
  case (st_force target m e r m' e' q)
  then show ?case using sm_inv_force [of "(m, e)" target env] by simp
qed

lemma sm_inv_new: "sm_inv new_machine"
  by (simp add: sm_inv_def new_machine_def)


text \<open>The abstract machine: the transition table as a partial function.\<close>

definition sm_delta :: "machine \<Rightarrow> string \<Rightarrow> string \<Rightarrow> string option" where
  "sm_delta m s a = (case map_of (transitions m) s of None \<Rightarrow> None | Some t \<Rightarrow> map_of t a)"

text \<open>a queued trigger refines the transition table. It changes the current state only along
  the table's edge for that state and action, between registered states, and only after the old
  state's exit hook agreed; in every other case (stopped, unknown action, exit or entry denied)
  the state it leaves is the state it found.\<close>

theorem run_trigger_refines:
  assumes "run_trigger env a (m, e) = (m', e')" and "current_state m' \<noteq> current_state m"
  shows "sm_is_running m \<and> sm_delta m (current_state m) a = Some (current_state m') \<and>
    find_state m (current_state m) \<noteq> None \<and> find_state m (current_state m') \<noteq> None \<and>
    fst (on_exit env (current_state m) (current_state m') a e)"
proof -
  obtain nxt acts where n: "sm_is_running m" "current_state m \<noteq> []"
      "map_of (transitions m) (current_state m) = Some acts" "map_of acts a = Some nxt"
      "fst (transition_to env nxt a (m, e))" "m' = finish_one (fst (snd (transition_to env nxt a (m, e))))"
    using assms
    by (auto simp: run_trigger_def split_def Let_def sm_frame split: option.splits if_splits)
  then have c: "current_state m' = nxt" by (simp add: sm_frame)
  show ?thesis
    using transition_to_guards [OF n(5)] assms(2) n c by (simp add: sm_delta_def)
qed

text \<open>A machine of three states for the closed examples; its hooks keep a log and \<open>allow\<close> says
  which states may be entered. The scheduler numbers its timers and keeps the live ones.\<close>

type_synonym demo_world = "nat \<times> nat list \<times> string list"

definition demo_env :: "(string \<Rightarrow> bool) \<Rightarrow> bool \<Rightarrow> demo_world sm_env" where
  "demo_env allow accept =
    \<lparr>on_enter = (\<lambda>n _ _ (k, ts, log). (allow n, k, ts, n # log)),
     on_exit = (\<lambda>_ _ _ w. (True, w)),
     finish_callback = (\<lambda>_ _ _ w. w),
     sch_is_running = (\<lambda>_ _. True), sch_start = (\<lambda>_ w. (True, w)),
     sch_configure_group = (\<lambda>_ _ w. (True, w)),
     sch_post = (\<lambda>_ _ _ w. (accept, w)), sch_dispatch = (\<lambda>_ _ _ w. (accept, w)),
     sch_post_periodic = (\<lambda>_ _ _ _ (k, ts, log). (Suc k, Suc k, Suc k # ts, log)),
     sch_post_delayed = (\<lambda>_ _ _ _ (k, ts, log). (Suc k, Suc k, Suc k # ts, log)),
     sch_cancel = (\<lambda>_ t (k, ts, log). (k, removeAll t ts, log))\<rparr>"

definition demo_machine :: machine where
  "demo_machine = snd (add_transition ''b'' ''go'' ''c'' (snd (add_transition ''a'' ''go'' ''b''
     (snd (add_state (Some (mk_state ''c'')) (snd (add_state (Some (set_timeout 5 ''go'' (mk_state ''b'')))
       (snd (add_state (Some (mk_state ''a'')) new_machine)))))))))"

definition demo_config :: sm_config where
  "demo_config = \<lparr>cfg_scheduler = Some 1, cfg_group = ''g'', cfg_initial = ''a''\<rparr>"

lemmas demo_simps =
  demo_machine_def demo_env_def demo_config_def new_machine_def mk_state_def set_timeout_def add_state_def
  add_transition_def find_state_def sm_start_def sm_stop_def sm_is_running_def enter_initial_state_def
  cancel_current_tasks_def setup_state_tasks_def trigger_action_def run_trigger_def transition_to_def
  finish_one_def Let_def

lemma demo_machine_reachable: "(sm_step env)\<^sup>*\<^sup>* (new_machine, e, q) (demo_machine, e, q)"
proof -
  have s: "sm_step env (m, e, q) (snd (add_state so m), e, q)" for so m
    by (rule st_add_state [where r = "fst (add_state so m)"]) simp
  have t: "sm_step env (m, e, q) (snd (add_transition x y z m), e, q)" for x y z m
    by (rule st_add_transition [where r = "fst (add_transition x y z m)"]) simp
  let ?a = "snd (add_state (Some (mk_state ''a'')) new_machine)"
  let ?b = "snd (add_state (Some (set_timeout 5 ''go'' (mk_state ''b''))) ?a)"
  let ?c = "snd (add_state (Some (mk_state ''c'')) ?b)"
  let ?t = "snd (add_transition ''a'' ''go'' ''b'' ?c)"
  have "(sm_step env)\<^sup>*\<^sup>* (new_machine, e, q) (?a, e, q)" by (rule r_into_rtranclp, rule s)
  also have "sm_step env \<dots> (?b, e, q)" by (rule s)
  also have "sm_step env \<dots> (?c, e, q)" by (rule s)
  also have "sm_step env \<dots> (?t, e, q)" by (rule t)
  also have "sm_step env \<dots> (demo_machine, e, q)" unfolding demo_machine_def by (rule t)
  finally show ?thesis .
qed

lemma demo_started:
  "(sm_step (demo_env (\<lambda>_. True) True))\<^sup>*\<^sup>* (new_machine, (0, [], []), [])
     (fst (snd (sm_start (demo_env (\<lambda>_. True) True) demo_config (demo_machine, (0, [], [])))),
      snd (snd (sm_start (demo_env (\<lambda>_. True) True) demo_config (demo_machine, (0, [], [])))), [])"
  by (rule rtranclp.rtrancl_into_rtrancl [OF demo_machine_reachable],
      rule st_start [where cfg = demo_config and r = "fst (sm_start (demo_env (\<lambda>_. True) True) demo_config (demo_machine, (0, [], [])))"])
    simp


theorem run_trigger_refines_witness:
  "(let m = demo_machine\<lparr>current_state := ''a'', task_scheduler := Some 1\<rparr>;
        m' = fst (run_trigger (demo_env (\<lambda>_. True) True) ''go'' (m, (0, [], []))) in
    current_state m' = ''b'' \<and> sm_delta m ''a'' ''go'' = Some ''b'')"
proof -
  let ?m = "demo_machine\<lparr>current_state := ''a'', task_scheduler := Some 1\<rparr>"
  let ?r = "run_trigger (demo_env (\<lambda>_. True) True) ''go'' (?m, (0, [], []))"
  have c: "current_state (fst ?r) = ''b''"
    by (simp add: demo_simps)
  have "sm_delta ?m (current_state ?m) ''go'' = Some (current_state (fst ?r))"
    using run_trigger_refines [of "demo_env (\<lambda>_. True) True" "''go''" ?m "(0, [], [])" "fst ?r" "snd ?r"] c
    by simp
  with c show ?thesis by (simp add: Let_def)
qed

section \<open>Waiting for the queue\<close>

lemma wait_loop_bounded:
  assumes "unat T \<le> 4294967290" and "k \<le> (unat T + 9) div 10"
  shows "wait_loop busy T (of_nat (10 * k)) k = Some (\<exists>j. k \<le> j \<and> j \<le> (unat T + 9) div 10 \<and> \<not> busy j)"
  using assms(2)
proof (induction "(unat T + 9) div 10 - k" arbitrary: k)
  case 0
  then have k: "k = (unat T + 9) div 10" by simp
  have "unat (of_nat (10 * k) :: u32) = 10 * k"
    using div_le_mono [of "unat T + 9" 4294967299 10] assms(1) k by (intro unat_of_nat_small) simp
  moreover have "unat T \<le> 10 * k" using k by simp
  ultimately have "T \<le> of_nat (10 * k)" by (simp add: word_le_nat_alt)
  then show ?case
    using k by (subst wait_loop.simps) auto
next
  case (Suc d)
  then have lt: "Suc k \<le> (unat T + 9) div 10" by simp
  then have "10 * k < unat T" by simp
  moreover from this assms(1) have "unat (of_nat (10 * k) :: u32) = 10 * k"
    by (intro unat_of_nat_small) simp
  ultimately have n: "\<not> T \<le> of_nat (10 * k)" by (simp add: word_le_nat_alt)
  have e: "(of_nat (10 * k) :: u32) + 10 = of_nat (10 * Suc k)" by simp
  have ih: "wait_loop busy T (of_nat (10 * Suc k)) (Suc k) =
    Some (\<exists>j. Suc k \<le> j \<and> j \<le> (unat T + 9) div 10 \<and> \<not> busy j)"
    using Suc.hyps(2) by (intro Suc.hyps(1) [OF _ lt]) simp
  have s: "(\<exists>j. k \<le> j \<and> j \<le> (unat T + 9) div 10 \<and> \<not> busy j) =
    (if \<not> busy k then True else \<exists>j. Suc k \<le> j \<and> j \<le> (unat T + 9) div 10 \<and> \<not> busy j)"
  proof -
    have "k \<le> j \<longleftrightarrow> j = k \<or> Suc k \<le> j" for j by auto
    moreover have "k \<le> (unat T + 9) div 10" using lt by simp
    ultimately show ?thesis by auto
  qed
  show ?case
    unfolding s by (subst wait_loop.simps, cases "busy k") (simp_all only: n e ih if_False if_True not_True_eq_False not_False_eq_True)
qed

lemma wait_loop_even_aux:
  "wait_loop busy T el k = Some r \<Longrightarrow> T = - 1 \<longrightarrow> even (unat el) \<longrightarrow> (\<exists>j. \<not> busy j) \<and> r"
proof (erule wait_loop.raw_induct [where P = "\<lambda>b T el k r. T = - 1 \<longrightarrow> even (unat el) \<longrightarrow> (\<exists>j. \<not> b j) \<and> r", rotated 1], goal_cases)
  case (1 f b T el k r)
  have "\<not> - 1 \<le> el" if "even (unat el)"
  proof
    assume "- 1 \<le> el"
    then have "el = - 1" by (simp add: word_order.extremum_unique)
    then have "unat el = 4294967295" by (simp add: unat_max_u32)
    with that show False by simp
  qed
  moreover have "even (unat (el + 10))" if "even (unat el)"
    using that by (simp add: unat_word_ariths dvd_mod)
  ultimately show ?case
    using 1(1) [of b T "el + 10" "Suc k" r] 1(2) by (auto split: if_splits)
qed

text \<open>waiting for all transitions on a running machine returns for every timeout up to
  4294967290 ms, and it returns true exactly when one of the polls made at 0, 10, 20, ... ms up to
  the first one at or after the timeout sees no pending transition.\<close>

theorem wait_all_transitions_returns:
  assumes "sm_is_running m" and "unat T \<le> 4294967290"
  shows "wait_all_transitions m busy T = Some (\<exists>j \<le> (unat T + 9) div 10. \<not> busy j)"
  using wait_loop_bounded [OF assms(2), of 0 busy] assms(1)
  by (simp add: wait_all_transitions_def)

theorem wait_all_transitions_returns_witness:
  "wait_all_transitions (demo_machine\<lparr>task_scheduler := Some 1\<rparr>) (\<lambda>k. k < 3) 25 = Some True \<and>
   wait_all_transitions (demo_machine\<lparr>task_scheduler := Some 1\<rparr>) (\<lambda>k. k < 4) 25 = Some False"
  using wait_all_transitions_returns [of "demo_machine\<lparr>task_scheduler := Some 1\<rparr>" 25 "\<lambda>k. k < 3"]
    wait_all_transitions_returns [of "demo_machine\<lparr>task_scheduler := Some 1\<rparr>" 25 "\<lambda>k. k < 4"]
  by (auto simp: sm_is_running_def)

lemma wait_forever: "wait_loop (\<lambda>_. True) (- 1) 0 0 = None"
  using wait_loop_even_aux [of "\<lambda>_. True" "- 1" 0 0] by (cases "wait_loop (\<lambda>_. True) (- 1 :: u32) 0 0") auto

text \<open>with the reserved timeout \<open>UINT32_MAX\<close> the wait is indefinite: it never returns
  while transitions stay pending, even though the 32-bit counter of elapsed milliseconds wraps.\<close>

theorem wait_all_transitions_indefinite:
  "wait_all_transitions (m\<lparr>task_scheduler := Some s\<rparr>) (\<lambda>_. True) (- 1) = None"
  by (simp add: wait_all_transitions_def sm_is_running_def wait_forever)

section \<open>Timers of the scheduler\<close>

text \<open>
  What the machine relies on in the scheduler's timers: \<open>live e\<close> is the set of ids posted and
  not cancelled; a post gives a fresh non-zero id, a cancel forgets one, nothing else touches them.
\<close>

definition timer_env :: "'e sm_env \<Rightarrow> ('e \<Rightarrow> task_id set) \<Rightarrow> bool" where
  "timer_env env live \<longleftrightarrow>
     (\<forall>n p a e. live (snd (on_enter env n p a e)) = live e) \<and>
     (\<forall>n p a e. live (snd (on_exit env n p a e)) = live e) \<and>
     (\<forall>n p a e. live (finish_callback env n p a e) = live e) \<and>
     (\<forall>s e. live (snd (sch_start env s e)) = live e) \<and>
     (\<forall>s g e. live (snd (sch_configure_group env s g e)) = live e) \<and>
     (\<forall>s t g e. live (snd (sch_post env s t g e)) = live e) \<and>
     (\<forall>s t g e. live (snd (sch_dispatch env s t g e)) = live e) \<and>
     (\<forall>s t i g e. fst (sch_post_periodic env s t i g e) \<notin> insert 0 (live e) \<and>
        live (snd (sch_post_periodic env s t i g e)) = insert (fst (sch_post_periodic env s t i g e)) (live e)) \<and>
     (\<forall>s t i g e. fst (sch_post_delayed env s t i g e) \<notin> insert 0 (live e) \<and>
        live (snd (sch_post_delayed env s t i g e)) = insert (fst (sch_post_delayed env s t i g e)) (live e)) \<and>
     (\<forall>s t e. live (sch_cancel env s t e) = live e - {t})"

lemma timer_env_simps:
  assumes "timer_env env live"
  shows "live (snd (on_enter env n p a e)) = live e" "live (snd (on_exit env n p a e)) = live e"
    "live (finish_callback env n p a e) = live e" "live (snd (sch_start env s e)) = live e"
    "live (snd (sch_configure_group env s g e)) = live e" "live (snd (sch_post env s t g e)) = live e"
    "live (snd (sch_dispatch env s t g e)) = live e"
    "fst (sch_post_periodic env s t i g e) \<noteq> 0" "fst (sch_post_delayed env s t i g e) \<noteq> 0"
    "live (snd (sch_post_periodic env s t i g e)) = insert (fst (sch_post_periodic env s t i g e)) (live e)"
    "live (snd (sch_post_delayed env s t i g e)) = insert (fst (sch_post_delayed env s t i g e)) (live e)"
    "live (sch_cancel env s tid e) = live e - {tid}"
  using assms by (simp_all add: timer_env_def)

text \<open>The timers the machine holds.\<close>

definition held :: "machine \<Rightarrow> task_id set" where
  "held m = {timeout_task_id m, update_task_id m} - {0}"

lemma held_cancelled [simp]: "held (m\<lparr>timeout_task_id := 0, update_task_id := 0\<rparr>) = {}"
  by (simp add: held_def)

definition timers_match :: "('e \<Rightarrow> task_id set) \<Rightarrow> machine \<times> 'e \<Rightarrow> bool" where
  "timers_match live p \<longleftrightarrow> live (snd p) = held (fst p) \<and> (held (fst p) \<noteq> {} \<longrightarrow> sm_is_running (fst p))"

lemma timers_cancel:
  assumes "timer_env env live" and "timers_match live p"
  shows "live (snd (cancel_current_tasks env p)) = {}"
proof (cases "task_scheduler (fst p)")
  case None
  with assms show ?thesis
    by (cases p) (auto simp: cancel_current_tasks_def timers_match_def sm_is_running_def)
next
  case (Some s)
  with assms show ?thesis
    by (cases p) (auto simp: cancel_current_tasks_def timers_match_def timer_env_def held_def Let_def)
qed

lemma timers_setup:
  assumes "timer_env env live" and "live (snd p) = {}"
    and "timeout_task_id (fst p) = 0" and "update_task_id (fst p) = 0"
  shows "timers_match live (snd (setup_state_tasks env n p))"
proof (cases p)
  case (Pair m e)
  show ?thesis
  proof (cases "task_scheduler m")
    case None
    with assms Pair show ?thesis
      by (simp add: setup_state_tasks_def timers_match_def held_def)
  next
    case (Some s)
    with assms Pair show ?thesis
      by (cases "find_state m n")
        (auto simp: setup_state_tasks_def timers_match_def held_def timer_env_simps [OF assms(1)] split_def Let_def
          sm_is_running_def)
  qed
qed

lemma timers_transition:
  assumes "timer_env env live" and "timers_match live p"
  shows "timers_match live (snd (transition_to env n a p))"
proof -
  note te = timer_env_simps [OF assms(1)]
  have c: "live (snd (cancel_current_tasks env (fst p, e))) = {}" if "live e = live (snd p)" for e
    using timers_cancel [OF assms(1), of "(fst p, e)"] assms(2) that by (simp add: timers_match_def)
  have s: "timers_match live (snd (setup_state_tasks env x (m, e)))"
    if "live e = {}" "timeout_task_id m = 0" "update_task_id m = 0" for x m e
    using timers_setup [OF assms(1), of "(m, e)"] that by simp
  show ?thesis
    using assms(2) c s
    by (cases p) (simp add: transition_to_def split_def Let_def te sm_frame, simp add: timers_match_def te)
qed

lemma timers_finish_one: "timers_match live (finish_one m, e) = timers_match live (m, e)"
  by (simp add: timers_match_def held_def finish_one_fields sm_is_running_def)

lemma timers_run_trigger:
  assumes "timer_env env live" and "timers_match live p"
  shows "timers_match live (run_trigger env a p)"
proof -
  have t: "timers_match live (snd (transition_to env n a p))" for n
    by (rule timers_transition [OF assms])
  have t1: "timers_match live (fst (snd (transition_to env n a p)), snd (snd (transition_to env n a p)))" for n
    using t by simp
  have cb: "timers_match live (m, finish_callback env x y z e) = timers_match live (m, e)" for m x y z e
    by (simp add: timers_match_def timer_env_simps [OF assms(1)])
  show ?thesis
    using assms(2) t1
    by (cases p) (simp add: run_trigger_def split_def Let_def timers_finish_one cb split: option.splits)
qed

lemma timers_stop:
  assumes "timer_env env live" and "timers_match live p"
  shows "live (snd (sm_stop env p)) = {}" and "timers_match live (sm_stop env p)"
proof -
  have c: "live (snd (cancel_current_tasks env p)) = {}"
    by (rule timers_cancel [OF assms])
  show l: "live (snd (sm_stop env p)) = {}"
    using c assms(2)
    by (cases p) (auto simp: sm_stop_def split_def Let_def timers_match_def)
  show "timers_match live (sm_stop env p)"
    using l assms(2)
    by (cases p) (auto simp: sm_stop_def split_def Let_def timers_match_def held_def sm_frame)
qed

lemma timers_enter:
  assumes "timer_env env live" and "timers_match live p" and "sm_is_running (fst p)"
  shows "timers_match live (snd (enter_initial_state env n p))"
proof -
  note te = timer_env_simps [OF assms(1)]
  have c: "live (snd (cancel_current_tasks env p)) = {}"
    by (rule timers_cancel [OF assms(1,2)])
  have s: "timers_match live (snd (setup_state_tasks env x (m, e)))"
    if "live e = {}" "timeout_task_id m = 0" "update_task_id m = 0" for x m e
    using timers_setup [OF assms(1), of "(m, e)"] that by simp
  show ?thesis
    using c s
    by (cases p)
      (simp add: enter_initial_state_def split_def Let_def te sm_frame split: option.splits,
       simp add: timers_match_def te sm_frame)
qed

lemma timers_start:
  assumes te: "timer_env env live" and p: "timers_match live p"
  shows "timers_match live (snd (sm_start env cfg p))"
proof (cases p)
  case (Pair m e)
  note te' = timer_env_simps [OF te]
  have m1: "timers_match live (m\<lparr>task_scheduler := Some s, task_group_name := g\<rparr>, e')"
    if "live e' = live e" for s g e'
    using p Pair that by (auto simp: timers_match_def held_def sm_is_running_def)
  have en: "timers_match live (snd (enter_initial_state env n (m\<lparr>task_scheduler := Some s, task_group_name := g\<rparr>, e')))"
    if "live e' = live e" for s g n e'
    by (rule timers_enter [OF te m1 [OF that]]) (simp add: sm_is_running_def)
  have en1: "timers_match live (fst (snd (enter_initial_state env n (m\<lparr>task_scheduler := Some s, task_group_name := g\<rparr>, e'))),
      snd (snd (enter_initial_state env n (m\<lparr>task_scheduler := Some s, task_group_name := g\<rparr>, e'))))"
    if "live e' = live e" for s g n e'
    using en [OF that] by simp
  have s0: "timers_match live (m, e')" if "live e' = live e" for e'
    using p Pair that by (simp add: timers_match_def)
  show ?thesis
    using s0 by (cases "cfg_scheduler cfg")
      (simp_all add: Pair sm_start_def split_def Let_def te' timers_stop(2) [OF te] m1 en en1)
qed

lemma add_frame [sm_frame]:
  "timeout_task_id (snd (add_state so m)) = timeout_task_id m" "update_task_id (snd (add_state so m)) = update_task_id m"
  "task_scheduler (snd (add_state so m)) = task_scheduler m" "transition_count (snd (add_state so m)) = transition_count m"
  "timeout_task_id (snd (add_transition s a t m)) = timeout_task_id m"
  "update_task_id (snd (add_transition s a t m)) = update_task_id m"
  "task_scheduler (snd (add_transition s a t m)) = task_scheduler m"
  "transition_count (snd (add_transition s a t m)) = transition_count m"
  by (simp_all add: add_state_def add_transition_def Let_def split: option.splits)

lemma trigger_frame:
  "fst (snd (trigger_action env a d p)) =
     (if sm_is_running (fst p) then (fst p)\<lparr>transition_count := transition_count (fst p) + 1\<rparr> else fst p)"
  "fst (trigger_action env a d p) \<Longrightarrow> sm_is_running (fst p)"
  "timer_env env live \<Longrightarrow> live (snd (snd (trigger_action env a d p))) = live (snd p)"
  by (cases p; simp add: trigger_action_def split_def Let_def sm_is_running_def timer_env_simps split: option.splits)+

lemma timers_trigger:
  "timer_env env live \<Longrightarrow> timers_match live p \<Longrightarrow> timers_match live (snd (trigger_action env a d p))"
  using trigger_frame(1) [of env a d p] trigger_frame(3) [of env live a d p]
  by (cases "sm_is_running (fst p)") (simp_all add: timers_match_def held_def sm_is_running_def)

lemma timers_step:
  assumes te: "timer_env env live"
  shows "sm_step env c c' \<Longrightarrow> timers_match live (fst c, fst (snd c)) \<Longrightarrow>
    timers_match live (fst c', fst (snd c'))"
proof (induction rule: sm_step.induct)
  case (st_add_state so m r m' e q)
  then show ?case
    using add_frame(1-4) [of so m] by (simp add: timers_match_def held_def sm_is_running_def)
next
  case (st_add_transition s a t m r m' e q)
  then show ?case
    using add_frame(5-8) [of s a t m] by (simp add: timers_match_def held_def sm_is_running_def)
next
  case (st_start cfg m e r m' e' q)
  then show ?case using timers_start [OF te, of "(m, e)" cfg] by simp
next
  case (st_stop m e m' e' q)
  then show ?case using timers_stop(2) [OF te, of "(m, e)"] by simp
next
  case (st_trigger a d m e m' e' q)
  then show ?case using timers_trigger [OF te, of "(m, e)" a d] by simp
next
  case (st_trigger_refused a d m e m' e' q)
  then show ?case using timers_trigger [OF te, of "(m, e)" a d] by simp
next
  case (st_run a m e m' e' q)
  then show ?case using timers_run_trigger [OF te, of "(m, e)" a] by simp
next
  case (st_force target m e r m' e' q)
  then show ?case
    using timers_cancel [OF te, of "(m, e)"]
    by (auto simp: force_transition_to_def timers_match_def held_def sm_is_running_def Let_def split_def sm_frame)
qed


definition demo_live :: "demo_world \<Rightarrow> task_id set" where
  "demo_live = (\<lambda>(k, ts, log). {t \<in> set ts. 0 < t \<and> t \<le> k})"

lemma demo_timer_env: "timer_env (demo_env allow accept) demo_live"
  by (auto simp: timer_env_def demo_env_def demo_live_def)


section \<open>The counter of pending transitions\<close>

text \<open>Steps of a client whose posts are accepted and that stops or restarts the machine only while
  no trigger is queued.\<close>

inductive sm_tidy :: "'e sm_env \<Rightarrow> 'e conf \<Rightarrow> 'e conf \<Rightarrow> bool" for env where
  td_add_state: "add_state so m = (r, m') \<Longrightarrow> sm_tidy env (m, e, q) (m', e, q)"
| td_add_transition: "add_transition s a t m = (r, m') \<Longrightarrow> sm_tidy env (m, e, q) (m', e, q)"
| td_start: "sm_start env cfg (m, e) = (r, m', e') \<Longrightarrow> sm_tidy env (m, e, []) (m', e', [])"
| td_stop: "sm_stop env (m, e) = (m', e') \<Longrightarrow> sm_tidy env (m, e, []) (m', e', [])"
| td_trigger: "trigger_action env a d (m, e) = (True, m', e') \<Longrightarrow> length q < 2 ^ 32 - 1 \<Longrightarrow>
     sm_tidy env (m, e, q) (m', e', q @ [a])"
| td_run: "run_trigger env a (m, e) = (m', e') \<Longrightarrow> sm_tidy env (m, e, a # q) (m', e', q)"
| td_force: "force_transition_to env target (m, e) = (r, m', e') \<Longrightarrow> sm_tidy env (m, e, q) (m', e', q)"

definition count_ok :: "'e conf \<Rightarrow> bool" where
  "count_ok c \<longleftrightarrow> unat (transition_count (fst c)) = length (snd (snd c)) \<and>
     (\<not> sm_is_running (fst c) \<longrightarrow> snd (snd c) = [])"

lemma run_trigger_count:
  "sm_is_running (fst p) \<Longrightarrow> transition_count (fst (run_trigger env a p)) =
     (if transition_count (fst p) > 0 then transition_count (fst p) - 1 else transition_count (fst p))"
  "task_scheduler (fst (run_trigger env a p)) = task_scheduler (fst p)"
  by (cases p; simp add: run_trigger_def split_def Let_def sm_frame finish_one_def split: option.splits)+

lemma sm_stop_count:
  "transition_count (fst p) = 0 \<Longrightarrow> transition_count (fst (sm_stop env p)) = 0"
  by (cases p) (simp add: sm_stop_def split_def Let_def)

lemma sm_start_count:
  assumes "transition_count (fst p) = 0"
  shows "transition_count (fst (snd (sm_start env cfg p))) = 0"
  using assms by (cases p) (simp add: sm_start_def split_def Let_def sm_frame sm_stop_count split: option.splits)

lemma count_ok_step: "sm_tidy env c c' \<Longrightarrow> count_ok c \<Longrightarrow> count_ok c'"
proof (induction rule: sm_tidy.induct)
  case (td_add_state so m r m' e q)
  then show ?case
    using add_frame(1-4) [of so m] by (simp add: count_ok_def sm_is_running_def)
next
  case (td_add_transition s a t m r m' e q)
  then show ?case
    using add_frame(5-8) [of s a t m] by (simp add: count_ok_def sm_is_running_def)
next
  case (td_start cfg m e r m' e')
  then have "transition_count m = 0" by (simp add: count_ok_def unat_eq_0)
  then show ?case using sm_start_count [of "(m, e)" env cfg] td_start by (simp add: count_ok_def)
next
  case (td_stop m e m' e')
  then show ?case
    using sm_stop_count [of "(m, e)" env] sm_stop_running [of env "(m, e)"]
    by (simp add: count_ok_def unat_eq_0)
next
  case (td_trigger a d m e m' e' q)
  then have "unat (transition_count m + 1) = Suc (length q)"
    using unat_Suc_u32 [of "transition_count m"] by (simp add: count_ok_def)
  then show ?case using td_trigger trigger_frame(1) [where p = "(m, e)" and env = env and a = a and d = d]
      trigger_frame(2) [where p = "(m, e)" and env = env and a = a and d = d]
    by (simp add: count_ok_def sm_is_running_def split: if_splits)
next
  case (td_run a m e m' e' q)
  then have r: "sm_is_running m" "transition_count m > 0"
    by (auto simp: count_ok_def word_gt_0 unat_gt_0)
  then have "unat (transition_count m - 1) = length q"
    using td_run by (simp add: count_ok_def unat_pred_u32)
  then show ?case
    using td_run r run_trigger_count(1) [of "(m, e)" env a] run_trigger_count(2) [of env a "(m, e)"] by (simp add: count_ok_def sm_is_running_def)
next
  case (td_force target m e r m' e' q)
  then show ?case
    by (auto simp: force_transition_to_def count_ok_def sm_is_running_def Let_def split_def sm_frame)
qed

text \<open>as long as the scheduler accepts the posts and the machine is stopped or restarted only
  with an empty queue, the 32-bit counter is the number of queued triggers, so a machine reports
  pending transitions exactly when some trigger is still queued.\<close>

theorem pending_counter_exact:
  assumes "(sm_tidy env)\<^sup>*\<^sup>* (new_machine, e0, []) (m, e, q)"
  shows "unat (transition_count m) = length q \<and> (has_transition_running m \<longleftrightarrow> q \<noteq> [])"
proof -
  have "count_ok (m, e, q)"
    using assms
    by (induction rule: rtranclp_induct)
      (auto simp: count_ok_def new_machine_def sm_is_running_def dest: count_ok_step)
  then have "unat (transition_count m) = length q" by (simp add: count_ok_def)
  moreover from this have "transition_count m > 0 \<longleftrightarrow> q \<noteq> []"
    by (auto simp: word_gt_0 unat_eq_0 simp flip: unat_gt_0)
  ultimately show ?thesis by (simp add: has_transition_running_def)
qed

theorem pending_counter_exact_witness:
  "let m = snd (add_state (Some (mk_state ''a'')) new_machine);
       p = snd (sm_start (demo_env (\<lambda>_. True) True) demo_config (m, (0, [], [])));
       t = snd (trigger_action (demo_env (\<lambda>_. True) True) ''go'' False p)
   in has_transition_running (fst t)"
proof -
  let ?env = "demo_env (\<lambda>_. True) True"
  let ?m = "snd (add_state (Some (mk_state ''a'')) new_machine)"
  let ?s = "sm_start ?env demo_config (?m, (0, [], []))"
  let ?t = "trigger_action ?env ''go'' False (snd ?s)"
  have "sm_tidy ?env (new_machine, (0, [], []), []) (?m, (0, [], []), [])"
    by (rule td_add_state [where r = "fst (add_state (Some (mk_state ''a'')) new_machine)"]) simp
  moreover have "sm_tidy ?env (?m, (0, [], []), []) (fst (snd ?s), snd (snd ?s), [])"
    by (rule td_start [where r = "fst ?s"]) simp
  moreover have "fst ?t" by (simp add: demo_simps)
  then have "sm_tidy ?env (fst (snd ?s), snd (snd ?s), []) (fst (snd ?t), snd (snd ?t), [] @ [''go''])"
    by (intro td_trigger) (simp_all add: prod_eq_iff)
  ultimately have "(sm_tidy ?env)\<^sup>*\<^sup>* (new_machine, (0, [], []), []) (fst (snd ?t), snd (snd ?t), [] @ [''go''])"
    by (meson converse_rtranclp_into_rtranclp rtranclp.rtrancl_refl)
  from pending_counter_exact [OF this] show ?thesis by (simp add: Let_def)
qed

text \<open>A post that the scheduler refuses leaks its pending transition: \<open>trigger_action\<close>
  reports failure, but the counter it raised is never lowered, so with nothing queued the machine
  still reports a running transition and every bounded wait times out.\<close>

theorem refused_post_leaks:
  "\<exists>e m. (sm_step (demo_env (\<lambda>_. True) False))\<^sup>*\<^sup>* (new_machine, (0, [], []), []) (m, e, []) \<and>
     has_transition_running m \<and>
     wait_all_transitions m (\<lambda>_. has_transition_running m) 1000 = Some False"
proof -
  let ?env = "demo_env (\<lambda>_. True) False"
  let ?s = "sm_start ?env demo_config (demo_machine, (0, [], []))"
  let ?t = "trigger_action ?env ''go'' False (snd ?s)"
  have "(sm_step ?env)\<^sup>*\<^sup>* (new_machine, (0, [], []), []) (demo_machine, (0, [], []), [])"
    by (rule demo_machine_reachable)
  also have "sm_step ?env \<dots> (fst (snd ?s), snd (snd ?s), [])"
    by (rule st_start [where cfg = demo_config and r = "fst ?s"]) simp
  also have "\<not> fst ?t" by (simp add: demo_simps)
  then have "sm_step ?env (fst (snd ?s), snd (snd ?s), []) (fst (snd ?t), snd (snd ?t), [])"
    by (intro st_trigger_refused) (simp_all add: prod_eq_iff)
  finally have r: "(sm_step ?env)\<^sup>*\<^sup>* (new_machine, (0, [], []), []) (fst (snd ?t), snd (snd ?t), [])" .
  have h: "has_transition_running (fst (snd ?t))" "sm_is_running (fst (snd ?t))"
    by (simp_all add: demo_simps has_transition_running_def)
  then have "wait_all_transitions (fst (snd ?t)) (\<lambda>_. True) 1000 = Some False"
    using wait_loop_bounded [of 1000 0 "\<lambda>_. True"] by (simp add: wait_all_transitions_def)
  moreover have "(\<lambda>_::nat. has_transition_running (fst (snd ?t))) = (\<lambda>_. True)"
    using h(1) by simp
  ultimately show ?thesis
    by (intro exI [of _ "snd (snd ?t)"] exI [of _ "fst (snd ?t)"]) (simp only: r h simp_thms)
qed

text \<open>when the next state refuses entry, the transition fails and the machine is back in the
  state it left: that state's entry hook runs again, its timers are set up afresh and everything
  else is unchanged.\<close>

theorem transition_rollback:
  assumes "current_state m \<noteq> nxt" and "find_state m (current_state m) \<noteq> None" and "find_state m nxt \<noteq> None"
    and "on_exit env (current_state m) nxt a e = (True, e1)"
    and "cancel_current_tasks env (m, e1) = (m2, e2)"
    and "on_enter env nxt (current_state m) a e2 = (False, e3)"
  shows "transition_to env nxt a (m, e) =
     (False, snd (setup_state_tasks env (current_state m) (m2, snd (on_enter env (current_state m) [] [] e3)))) \<and>
     current_state (fst (snd (transition_to env nxt a (m, e)))) = current_state m \<and>
     same_shape m (fst (snd (transition_to env nxt a (m, e))))"
proof -
  have "m2 = m\<lparr>timeout_task_id := 0, update_task_id := 0\<rparr>"
    using fst_cancel [of env "(m, e1)"] assms(5) by simp
  then have t: "transition_to env nxt a (m, e) =
     (False, snd (setup_state_tasks env (current_state m) (m2, snd (on_enter env (current_state m) [] [] e3))))"
    using assms by (auto simp: transition_to_def split_def Let_def)
  show ?thesis
    using transition_to_shape [of "(m, e)" env nxt a] transition_to_current [of env nxt a "(m, e)"] t
    by simp
qed

theorem transition_rollback_witness:
  "(let m = demo_machine\<lparr>current_state := ''b'', task_scheduler := Some 1\<rparr>;
        r = transition_to (demo_env (\<lambda>n. n \<noteq> ''c'') True) ''c'' ''go'' (m, (0, [], [])) in
    \<not> fst r \<and> current_state (fst (snd r)) = ''b'' \<and> timeout_task_id (fst (snd r)) = 1)"
proof -
  let ?m = "demo_machine\<lparr>current_state := ''b'', task_scheduler := Some 1\<rparr>"
  let ?env = "demo_env (\<lambda>n. n \<noteq> ''c'') True"
  have "transition_to ?env ''c'' ''go'' (?m, (0, [], [])) =
      (False, snd (setup_state_tasks ?env ''b'' (?m, (0, [], [''b'', ''c''])))) \<and>
      current_state (fst (snd (transition_to ?env ''c'' ''go'' (?m, (0, [], []))))) = ''b''"
    using transition_rollback [of ?m "''c''" ?env "''go''" "(0, [], [])" "(0, [], [])" ?m "(0, [], [])"
        "(0, [], [''c''])"]
    by (simp add: demo_simps)
  then show ?thesis by (simp add: Let_def demo_simps)
qed

end
