(* ===== verification/Table_Machine.thy ===== *)
theory Table_Machine
  imports State_Machine
begin

text \<open>
  Machines that a service builds from a fixed list of states and a fixed list of edges, stopping
  at the first call that fails. The locale \<open>table_machine\<close> is what such lists owe the generic
  machine: distinct state names, one edge per state and action, edges between listed states. It
  then gives the built machine and its transition function. The Wi-Fi and the HTTP service
  interpret it.
\<close>

type_synonym edge = "string \<times> string \<times> string"

fun add_states :: "state_base list \<Rightarrow> machine \<Rightarrow> bool \<times> machine" where
  "add_states [] m = (True, m)"
| "add_states (s # ss) m =
     (case add_state (Some s) m of (ok, m') \<Rightarrow> if ok then add_states ss m' else (False, m'))"

fun add_edges :: "edge list \<Rightarrow> machine \<Rightarrow> bool \<times> machine" where
  "add_edges [] m = (True, m)"
| "add_edges ((src, act, dst) # es) m =
     (case add_transition src act dst m of (ok, m') \<Rightarrow> if ok then add_edges es m' else (False, m'))"

lemma add_edges_append:
  "add_edges (xs @ ys) m = (case add_edges xs m of (ok, m') \<Rightarrow> if ok then add_edges ys m' else (False, m'))"
  by (induction xs m rule: add_edges.induct) (auto split: prod.splits)

lemma sm_delta_add:
  "sm_delta (snd (add_transition s a t m)) s' a' =
     (if s' = s \<and> a' = a \<and> sm_delta m s a = None then Some t else sm_delta m s' a')"
  by (auto simp: sm_delta_def add_transition_def Let_def split: option.splits)

lemma fst_add_transition: "fst (add_transition s a t m) \<longleftrightarrow> sm_delta m s a = None"
  by (auto simp: sm_delta_def add_transition_def Let_def split: option.splits)

lemma add_transition_other [simp]:
  "sm_states (snd (add_transition s a t m)) = sm_states m"
  "current_state (snd (add_transition s a t m)) = current_state m"
  by (simp_all add: add_transition_def Let_def split: option.splits)

definition edge_map :: "edge list \<Rightarrow> (string \<times> string) \<rightharpoonup> string" where
  "edge_map es = map_of (map (\<lambda>(s, a, t). ((s, a), t)) es)"

lemma edge_map_simps [simp]:
  "edge_map [] = Map.empty"
  "edge_map ((s, a, t) # es) = (edge_map es)((s, a) \<mapsto> t)"
  by (simp_all add: edge_map_def)

lemma add_edges_spec:
  assumes "distinct (map (\<lambda>(s, a, t). (s, a)) es)"
    and "\<forall>(s, a, t) \<in> set es. sm_delta m s a = None"
  shows "fst (add_edges es m) \<and>
    sm_delta (snd (add_edges es m)) s' a' =
      (case edge_map es (s', a') of Some t \<Rightarrow> Some t | None \<Rightarrow> sm_delta m s' a') \<and>
    sm_states (snd (add_edges es m)) = sm_states m \<and>
    current_state (snd (add_edges es m)) = current_state m"
  using assms
proof (induction es m rule: add_edges.induct)
  case (1 m)
  then show ?case by simp
next
  case (2 src act dst es m)
  define m' where "m' = snd (add_transition src act dst m)"
  have t: "add_transition src act dst m = (True, m')"
    using "2.prems"(2) fst_add_transition [of src act dst m] by (simp add: m'_def prod_eq_iff)
  have d: "sm_delta m' s a = (if s = src \<and> a = act then Some dst else sm_delta m s a)" for s a
    using "2.prems"(2) sm_delta_add [of src act dst m s a] by (simp add: m'_def)
  have fresh: "\<forall>(s, a, t) \<in> set es. sm_delta m' s a = None"
    using "2.prems" by (auto simp: d image_iff)
  have "edge_map es (src, act) = None"
    using "2.prems"(1) by (auto simp: edge_map_def map_of_eq_None_iff image_iff split: prod.splits)
  moreover have "sm_states m' = sm_states m" "current_state m' = current_state m"
    by (simp_all add: m'_def)
  ultimately show ?case
    using "2.IH" [OF t [symmetric] TrueI] "2.prems"(1) fresh
    by (auto simp: t d split: option.splits)
qed

lemma add_states_spec:
  "distinct (map st_name (sm_states m @ ss)) \<Longrightarrow>
   add_states ss m = (True, m\<lparr>sm_states := sm_states m @ ss\<rparr>)"
proof (induction ss arbitrary: m)
  case Nil
  then show ?case by simp
next
  case (Cons s ss)
  then have "st_name s \<notin> st_name ` set (sm_states m)" by simp
  then have "find_state m (st_name s) = None"
    by (simp add: find_state_def find_None_iff image_iff) (metis)
  then have "add_state (Some s) m = (True, m\<lparr>sm_states := sm_states m @ [s]\<rparr>)"
    by (simp add: add_state_def)
  moreover have "distinct (map st_name (sm_states (m\<lparr>sm_states := sm_states m @ [s]\<rparr>) @ ss))"
    using Cons.prems by simp
  note Cons.IH [OF this]
  ultimately show ?case by simp
qed

lemma find_state_iff: "find_state m n \<noteq> None \<longleftrightarrow> n \<in> st_name ` set (sm_states m)"
  by (auto simp: find_state_def find_None_iff image_iff)

lemma sm_inv_add_edges: "sm_inv m \<Longrightarrow> sm_inv (snd (add_edges es m))"
proof (induction es m rule: add_edges.induct)
  case (2 src act dst es m)
  obtain b m' where m': "add_transition src act dst m = (b, m')" by fastforce
  then have "sm_inv m'" using sm_inv_add_transition [OF "2.prems", of src act dst] by simp
  then show ?case using "2.IH" [OF m' [symmetric]] by (simp add: m')
qed simp

text \<open>A running machine is armed when the timeout its current state asks for is posted.\<close>

definition armed :: "machine \<Rightarrow> bool" where
  "armed m \<longleftrightarrow> (\<forall>st. find_state m (current_state m) = Some st \<longrightarrow> timeout_ms st > 0 \<longrightarrow>
     timeout_action st \<noteq> [] \<longrightarrow> timeout_task_id m \<noteq> 0)"

definition posts_nonzero :: "'e sm_env \<Rightarrow> bool" where
  "posts_nonzero env \<longleftrightarrow> (\<forall>s t i g e. fst (sch_post_delayed env s t i g e) \<noteq> 0)"

lemma armed_setup:
  assumes "sm_is_running (fst p)" and "posts_nonzero env" and "current_state (fst p) = n"
  shows "armed (fst (snd (setup_state_tasks env n p)))"
proof -
  have "timeout_task_id (fst (snd (setup_state_tasks env n p))) \<noteq> 0"
    if "find_state (fst p) n = Some st" "timeout_ms st > 0" "timeout_action st \<noteq> []" for st
    using that assms
    by (cases p) (auto simp: setup_state_tasks_def sm_is_running_def posts_nonzero_def split_def Let_def)
  then show ?thesis
    using assms(3) by (auto simp: armed_def sm_frame find_state_def)
qed

lemma armed_transition_to:
  assumes "sm_is_running (fst p)" and "posts_nonzero env" and "armed (fst p)"
  shows "armed (fst (snd (transition_to env n a p)))"
proof -
  have "armed (fst (snd (setup_state_tasks env x (m, e))))"
    if "current_state m = x" "task_scheduler m = task_scheduler (fst p)" for m x e
    using armed_setup [of "(m, e)" env x] assms(1,2) that by (simp add: sm_is_running_def)
  then show ?thesis
    using assms(3)
    by (cases p) (simp add: transition_to_def split_def Let_def sm_frame)
qed

lemma armed_finish_one: "armed (finish_one m) = armed m"
  by (simp add: armed_def finish_one_fields find_state_def)

lemma armed_run_trigger:
  assumes "sm_is_running (fst p)" and "posts_nonzero env" and "armed (fst p)"
  shows "armed (fst (run_trigger env a p))"
  using assms armed_transition_to [OF assms]
  by (cases p) (simp add: run_trigger_def split_def Let_def armed_finish_one split: option.splits)

lemma run_trigger_fields:
  "sm_states (fst (run_trigger env a p)) = sm_states (fst p)"
  "transitions (fst (run_trigger env a p)) = transitions (fst p)"
  "task_scheduler (fst (run_trigger env a p)) = task_scheduler (fst p)"
  by (cases p; simp add: run_trigger_def split_def Let_def sm_frame split: option.splits)+

lemma trigger_action_fields:
  "sm_states (fst (snd (trigger_action env a d p))) = sm_states (fst p)"
  "transitions (fst (snd (trigger_action env a d p))) = transitions (fst p)"
  "task_scheduler (fst (snd (trigger_action env a d p))) = task_scheduler (fst p)"
  "current_state (fst (snd (trigger_action env a d p))) = current_state (fst p)"
  "armed (fst (snd (trigger_action env a d p))) = armed (fst p)"
  by (simp_all add: trigger_frame armed_def find_state_def)

lemma armed_start:
  assumes "\<not> sm_is_running (fst p)" and "posts_nonzero env" and "fst (sm_start env cfg p)"
  shows "armed (fst (snd (sm_start env cfg p)))" and "sm_is_running (fst (snd (sm_start env cfg p)))"
    and "current_state (fst (snd (sm_start env cfg p))) = cfg_initial cfg"
    and "sm_states (fst (snd (sm_start env cfg p))) = sm_states (fst p)"
    and "transitions (fst (snd (sm_start env cfg p))) = transitions (fst p)"
    and "find_state (fst p) (cfg_initial cfg) \<noteq> None"
proof -
  obtain m e where p: "p = (m, e)" by (cases p)
  define m1 where "m1 s = m\<lparr>task_scheduler := Some s, task_group_name := cfg_group cfg\<rparr>" for s
  obtain s e' where
    en: "fst (enter_initial_state env (cfg_initial cfg) (m1 s, e'))"
    and r: "snd (sm_start env cfg p) = snd (enter_initial_state env (cfg_initial cfg) (m1 s, e'))"
    and f: "find_state m (cfg_initial cfg) \<noteq> None"
    using assms(1,3)
    by (auto simp: p sm_start_def split_def Let_def m1_def split: option.splits if_splits)
  show "armed (fst (snd (sm_start env cfg p)))"
  proof -
    have "armed (fst (snd (setup_state_tasks env x (m', e''))))"
      if "current_state m' = x" "task_scheduler m' = Some s" for m' x e''
      using armed_setup [of "(m', e'')" env x] assms(2) that by (simp add: sm_is_running_def)
    then show ?thesis
      using en unfolding r
      by (auto simp: enter_initial_state_def split_def Let_def sm_frame m1_def split: option.splits if_splits)
  qed
  show "sm_is_running (fst (snd (sm_start env cfg p)))"
    "sm_states (fst (snd (sm_start env cfg p))) = sm_states (fst p)"
    "transitions (fst (snd (sm_start env cfg p))) = transitions (fst p)"
    unfolding r by (simp_all add: sm_frame m1_def sm_is_running_def p)
  show "current_state (fst (snd (sm_start env cfg p))) = cfg_initial cfg"
    unfolding r by (rule enter_initial_current [OF en])
  show "find_state (fst p) (cfg_initial cfg) \<noteq> None" using f p by simp
qed

section \<open>The contract of a table\<close>

locale table_machine =
  fixes sts :: "state_base list" and es :: "edge list"
  assumes names: "distinct (map st_name sts)"
    and keys: "distinct (map (\<lambda>(s, a, t). (s, a)) es)"
    and ends: "\<forall>(s, a, t) \<in> set es. s \<in> st_name ` set sts \<and> t \<in> st_name ` set sts"
begin

definition built :: machine where
  "built = snd (add_edges es (new_machine\<lparr>sm_states := sts\<rparr>))"

lemma states_ok: "add_states sts new_machine = (True, new_machine\<lparr>sm_states := sts\<rparr>)"
  using add_states_spec [of new_machine sts] names by (simp add: new_machine_def)

lemma edges_ok: "add_edges es (new_machine\<lparr>sm_states := sts\<rparr>) = (True, built)"
  using add_edges_spec [OF keys, of "new_machine\<lparr>sm_states := sts\<rparr>"]
  by (simp add: built_def prod_eq_iff sm_delta_def new_machine_def split_def)

lemma built_states: "sm_states built = sts"
  using add_edges_spec [OF keys, of "new_machine\<lparr>sm_states := sts\<rparr>"]
  by (simp add: built_def sm_delta_def new_machine_def split_def)

lemma built_delta: "sm_delta built s a = edge_map es (s, a)"
  using add_edges_spec [OF keys, of "new_machine\<lparr>sm_states := sts\<rparr>" s a]
  by (simp add: built_def sm_delta_def new_machine_def split_def split: option.splits)

lemma add_edges_scheduler: "task_scheduler (snd (add_edges es' m)) = task_scheduler m"
proof (induction es' m rule: add_edges.induct)
  case (2 src act dst es' m)
  obtain b m' where t: "add_transition src act dst m = (b, m')" by fastforce
  have "task_scheduler m' = task_scheduler m"
    using add_frame(7) [of src act dst m] by (simp add: t)
  then show ?case using "2.IH" [OF t [symmetric]] by (simp add: t)
qed simp

lemma built_not_running: "\<not> sm_is_running built"
  by (simp add: built_def sm_is_running_def add_edges_scheduler new_machine_def)

lemma built_inv: "sm_inv built"
  unfolding built_def
  by (rule sm_inv_add_edges) (use names in \<open>simp add: sm_inv_def new_machine_def sm_is_running_def\<close>)

lemma edge_ends:
  assumes "edge_map es (s, a) = Some t"
  shows "s \<in> st_name ` set sts" and "t \<in> st_name ` set sts"
  using ends map_of_SomeD [OF assms [unfolded edge_map_def]] by auto

text \<open>A queued trigger of a running machine with this table whose hooks agree follows the table.\<close>

lemma run_follows:
  assumes "map st_name (sm_states m) = map st_name sts" and "transitions m = transitions built"
    and "sm_is_running m"
    and "current_state m \<in> st_name ` set sts" and "current_state m \<noteq> []"
    and "\<And>n p x e. fst (on_exit env n p x e)" and "\<And>n p x e. fst (on_enter env n p x e)"
  shows "current_state (fst (run_trigger env a (m, e))) =
    (case edge_map es (current_state m, a) of None \<Rightarrow> current_state m | Some t \<Rightarrow> t)"
proof (cases "edge_map es (current_state m, a)")
  case None
  then have "sm_delta m (current_state m) a = None"
    using built_delta assms(2) by (simp add: sm_delta_def)
  then show ?thesis
    using None assms(3,5)
    by (auto simp: run_trigger_def sm_delta_def finish_one_fields split: option.splits)
next
  case (Some t)
  then have d: "sm_delta m (current_state m) a = Some t"
    using built_delta assms(2) by (simp add: sm_delta_def)
  have f: "find_state m (current_state m) \<noteq> None" "find_state m t \<noteq> None"
    using assms(4) edge_ends [OF Some] arg_cong [OF assms(1), of set]
    by (simp_all add: find_state_iff del: not_None_eq)
  have "fst (transition_to env t a (m, e))"
    using f assms(6,7) by (auto simp: transition_to_def split_def Let_def sm_frame find_state_def)
  then have "current_state (fst (snd (transition_to env t a (m, e)))) = t"
    by (simp add: sm_frame)
  then show ?thesis
    using d Some assms(3,5) \<open>fst (transition_to env t a (m, e))\<close>
    by (auto simp: run_trigger_def sm_delta_def split_def Let_def finish_one_fields split: option.splits)
qed

end

end
