(* ===== verification/Wifi_State_Machine.thy ===== *)
theory Wifi_State_Machine
  imports Table_Machine
begin

text \<open>
  The general state machine of the Wi-Fi service (\<open>service_wifi/src/state_machine.cpp\<close> and its
  header): six actions of a Wi-Fi controller, each run by a transient state that a result or a
  timeout of the hardware ends.

  The class owns at most one generic machine (\<open>None\<close> before \<open>init\<close>). Its vector
  \<open>state_classes_\<close> shares the state objects with that machine, in the same order, so setting
  a timeout through it updates the machine's list. A call through the null machine is the value
  \<open>None\<close> of the operation. The action handler is a parameter; the timeouts of the
  transient states come from the build configuration and are a record.
\<close>

section \<open>States, actions and events\<close>

datatype wifi_state =
  Idle | Initing | Inited | Deiniting | Starting | Started | Stopping | Connecting | Connected
| Disconnecting | MaxState

datatype wifi_action = Init | Deinit | Start | Stop | Connect | Disconnect | MaxAction

datatype wifi_event =
  EvDeinited | EvInited | EvStopped | EvStarted | EvDisconnected | EvConnected | MaxEvent

datatype wifi_extra = Success | Failure | Timeout | MaxExtra

fun wstate_str :: "wifi_state \<Rightarrow> string" where
  "wstate_str Idle = ''Idle''"
| "wstate_str Initing = ''Initing''"
| "wstate_str Inited = ''Inited''"
| "wstate_str Deiniting = ''Deiniting''"
| "wstate_str Starting = ''Starting''"
| "wstate_str Started = ''Started''"
| "wstate_str Stopping = ''Stopping''"
| "wstate_str Connecting = ''Connecting''"
| "wstate_str Connected = ''Connected''"
| "wstate_str Disconnecting = ''Disconnecting''"
| "wstate_str MaxState = ''Max''"

fun waction_str :: "wifi_action \<Rightarrow> string" where
  "waction_str Init = ''Init''"
| "waction_str Deinit = ''Deinit''"
| "waction_str Start = ''Start''"
| "waction_str Stop = ''Stop''"
| "waction_str Connect = ''Connect''"
| "waction_str Disconnect = ''Disconnect''"
| "waction_str MaxAction = ''Max''"

fun wextra_str :: "wifi_extra \<Rightarrow> string" where
  "wextra_str Success = ''Success''"
| "wextra_str Failure = ''Failure''"
| "wextra_str Timeout = ''Timeout''"
| "wextra_str MaxExtra = ''Max''"

text \<open>The enumerators below \<open>Max\<close>, in their order.\<close>

definition wifi_states :: "wifi_state list" where
  "wifi_states = [Idle, Initing, Inited, Deiniting, Starting, Started, Stopping, Connecting,
     Connected, Disconnecting]"

fun wstate_num :: "wifi_state \<Rightarrow> nat" where
  "wstate_num Idle = 0"
| "wstate_num Initing = 1"
| "wstate_num Inited = 2"
| "wstate_num Deiniting = 3"
| "wstate_num Starting = 4"
| "wstate_num Started = 5"
| "wstate_num Stopping = 6"
| "wstate_num Connecting = 7"
| "wstate_num Connected = 8"
| "wstate_num Disconnecting = 9"
| "wstate_num MaxState = 10"

definition wstate_of :: "string \<Rightarrow> wifi_state option" where
  "wstate_of n = find (\<lambda>s. wstate_str s = n) (wifi_states @ [MaxState])"

section \<open>The state objects\<close>

definition is_transient :: "wifi_state \<Rightarrow> bool" where
  "is_transient s \<longleftrightarrow> s = Initing \<or> s = Deiniting \<or> s = Starting \<or> s = Stopping \<or>
     s = Connecting \<or> s = Disconnecting"

fun transient_action :: "wifi_state \<Rightarrow> wifi_action" where
  "transient_action Initing = Init"
| "transient_action Deiniting = Deinit"
| "transient_action Starting = Start"
| "transient_action Stopping = Stop"
| "transient_action Connecting = Connect"
| "transient_action Disconnecting = Disconnect"
| "transient_action _ = MaxAction"

fun transient_event :: "wifi_state \<Rightarrow> wifi_event" where
  "transient_event Initing = EvInited"
| "transient_event Deiniting = EvDeinited"
| "transient_event Starting = EvStarted"
| "transient_event Stopping = EvStopped"
| "transient_event Connecting = EvConnected"
| "transient_event Disconnecting = EvDisconnected"
| "transient_event _ = MaxEvent"

type_synonym 'e action_handler = "wifi_action \<Rightarrow> 'e \<Rightarrow> bool \<times> 'e"

text \<open>Entering a transient state runs its action; a failing handler does not refuse the entry.\<close>

definition wifi_on_enter ::
  "'e action_handler option \<Rightarrow> wifi_state \<Rightarrow> string \<Rightarrow> string \<Rightarrow> 'e \<Rightarrow> bool \<times> 'e" where
  "wifi_on_enter h s from_state action e =
     (if from_state = wstate_str s \<or> from_state = [] \<or> action = [] then (True, e)
      else if \<not> is_transient s then (True, e)
      else if transient_action s = MaxAction then (False, e)
      else case h of
        None \<Rightarrow> (False, e)
      | Some f \<Rightarrow> (True, snd (f (transient_action s) e)))"

text \<open>The environment of the generic machine: this class's states over a scheduler.\<close>

definition wifi_env :: "'e action_handler option \<Rightarrow> 'e sm_env \<Rightarrow> 'e sm_env" where
  "wifi_env h sched = sched\<lparr>
     on_enter := (\<lambda>n from_state action e.
       case wstate_of n of None \<Rightarrow> (True, e) | Some s \<Rightarrow> wifi_on_enter h s from_state action e),
     on_exit := (\<lambda>_ _ _ e. (True, e))\<rparr>"

section \<open>Building the table\<close>

abbreviation wedge :: "wifi_state \<Rightarrow> string \<Rightarrow> wifi_state \<Rightarrow> edge" where
  "wedge s a t \<equiv> (wstate_str s, a, wstate_str t)"

definition wifi_edges_init :: "edge list" where
  "wifi_edges_init =
    [wedge Idle (waction_str Init) Initing,
     wedge Initing (wextra_str Success) Inited,
     wedge Initing (wextra_str Failure) Idle,
     wedge Initing (wextra_str Timeout) Deiniting,
     wedge Inited (waction_str Start) Starting,
     wedge Inited (waction_str Deinit) Deiniting,
     wedge Deiniting (wextra_str Success) Idle,
     wedge Deiniting (wextra_str Failure) Idle,
     wedge Deiniting (wextra_str Timeout) Idle,
     wedge Starting (wextra_str Success) Started,
     wedge Starting (wextra_str Failure) Inited,
     wedge Starting (wextra_str Timeout) Stopping]"

definition wifi_edges_connect :: "edge list" where
  "wifi_edges_connect =
    [wedge Started (waction_str Connect) Connecting,
     wedge Started (waction_str Stop) Stopping,
     wedge Connecting (wextra_str Success) Connected,
     wedge Connecting (wextra_str Failure) Started,
     wedge Connecting (wextra_str Timeout) Disconnecting,
     wedge Connected (waction_str Disconnect) Disconnecting,
     wedge Connected (waction_str Stop) Stopping,
     wedge Disconnecting (wextra_str Success) Started,
     wedge Disconnecting (wextra_str Failure) Started,
     wedge Disconnecting (wextra_str Timeout) Started,
     wedge Stopping (wextra_str Success) Inited,
     wedge Stopping (wextra_str Failure) Inited,
     wedge Stopping (wextra_str Timeout) Inited]"

definition wifi_edges_self :: "edge list" where
  "wifi_edges_self =
    [wedge Idle (waction_str Deinit) Idle,
     wedge Inited (waction_str Init) Inited,
     wedge Started (waction_str Start) Started,
     wedge Started (waction_str Disconnect) Started,
     wedge Connected (waction_str Start) Connected,
     wedge Connected (waction_str Connect) Connected,
     wedge Initing (waction_str Init) Initing,
     wedge Deiniting (waction_str Deinit) Deiniting,
     wedge Starting (waction_str Start) Starting,
     wedge Stopping (waction_str Stop) Stopping,
     wedge Connecting (waction_str Start) Connecting,
     wedge Connecting (waction_str Connect) Connecting,
     wedge Disconnecting (waction_str Start) Disconnecting,
     wedge Disconnecting (waction_str Disconnect) Disconnecting]"

definition wifi_edges :: "edge list" where
  "wifi_edges = wifi_edges_init @ wifi_edges_connect @ wifi_edges_self"

definition wifi_init :: "machine option \<Rightarrow> bool \<times> machine option" where
  "wifi_init om =
     (case om of
        Some m \<Rightarrow> (True, Some m)
      | None \<Rightarrow>
          (case add_states (map (\<lambda>s. mk_state (wstate_str s)) wifi_states) new_machine of
             (ok, m1) \<Rightarrow>
               if \<not> ok then (False, None)
               else case add_edges wifi_edges m1 of
                 (ok2, m2) \<Rightarrow> if \<not> ok2 then (False, None) else (True, Some m2)))"

section \<open>Lifecycle\<close>

definition wifi_is_running :: "machine option \<Rightarrow> bool" where
  "wifi_is_running om = (case om of None \<Rightarrow> False | Some m \<Rightarrow> sm_is_running m)"

definition wifi_force_transition_to ::
  "'e sm_env \<Rightarrow> wifi_state \<Rightarrow> machine option \<times> 'e \<Rightarrow> (bool \<times> machine option \<times> 'e) option" where
  "wifi_force_transition_to env s = (\<lambda>(om, e).
     case om of
       None \<Rightarrow> None
     | Some m \<Rightarrow>
         (case force_transition_to env (if s = MaxState then [] else wstate_str s) (m, e) of
            (ok, m', e') \<Rightarrow> Some (ok, Some m', e')))"

definition wifi_stop :: "'e sm_env \<Rightarrow> machine option \<times> 'e \<Rightarrow> machine option \<times> 'e" where
  "wifi_stop env = (\<lambda>(om, e).
     if \<not> wifi_is_running om then (om, e)
     else case wifi_force_transition_to env Idle (om, e) of
       Some (_, Some m, e1) \<Rightarrow> (case sm_stop env (m, e1) of (m2, e2) \<Rightarrow> (Some m2, e2))
     | _ \<Rightarrow> (om, e))"

definition wifi_deinit :: "'e sm_env \<Rightarrow> machine option \<times> 'e \<Rightarrow> machine option \<times> 'e" where
  "wifi_deinit env = (\<lambda>(om, e).
     case om of
       None \<Rightarrow> (None, e)
     | Some m \<Rightarrow> (None, snd (if wifi_is_running om then wifi_stop env (om, e) else (om, e))))"

record wifi_timeouts =
  inited_timeout_ms :: u32
  deinited_timeout_ms :: u32
  started_timeout_ms :: u32
  stopped_timeout_ms :: u32
  connected_timeout_ms :: u32
  disconnected_timeout_ms :: u32

definition set_class_timeout :: "wifi_state \<Rightarrow> u32 \<Rightarrow> machine \<Rightarrow> machine" where
  "set_class_timeout s ms m = m\<lparr>sm_states :=
     (sm_states m)[wstate_num s := set_timeout ms (wextra_str Timeout) (sm_states m ! wstate_num s)]\<rparr>"

definition set_timeouts :: "wifi_timeouts \<Rightarrow> machine \<Rightarrow> machine" where
  "set_timeouts tmo m =
     set_class_timeout Disconnecting (disconnected_timeout_ms tmo)
      (set_class_timeout Connecting (connected_timeout_ms tmo)
       (set_class_timeout Stopping (stopped_timeout_ms tmo)
        (set_class_timeout Starting (started_timeout_ms tmo)
         (set_class_timeout Deiniting (deinited_timeout_ms tmo)
          (set_class_timeout Initing (inited_timeout_ms tmo) m)))))"

definition wifi_start ::
  "'e sm_env \<Rightarrow> wifi_timeouts \<Rightarrow> sched option \<Rightarrow> string \<Rightarrow> machine option \<times> 'e
    \<Rightarrow> (bool \<times> machine option \<times> 'e) option" where
  "wifi_start env tmo sched grp = (\<lambda>(om, e).
     if wifi_is_running om then Some (True, om, e)
     else case om of
       None \<Rightarrow> None
     | Some m \<Rightarrow>
         (case sm_start env \<lparr>cfg_scheduler = sched, cfg_group = grp, cfg_initial = wstate_str Idle\<rparr>
                 (set_timeouts tmo m, e) of
            (ok, m1, e1) \<Rightarrow>
              if \<not> ok then (case wifi_stop env (Some m1, e1) of (om2, e2) \<Rightarrow> Some (False, om2, e2))
              else Some (True, Some m1, e1)))"

section \<open>Triggers and queries\<close>

definition wifi_trigger_general_action ::
  "'e sm_env \<Rightarrow> wifi_action \<Rightarrow> machine option \<times> 'e \<Rightarrow> (bool \<times> machine option \<times> 'e) option" where
  "wifi_trigger_general_action env a = (\<lambda>(om, e).
     case om of
       None \<Rightarrow> None
     | Some m \<Rightarrow>
         (case trigger_action env (waction_str a) False (m, e) of (ok, m', e') \<Rightarrow> Some (ok, Some m', e')))"

definition wifi_trigger_extra_action ::
  "'e sm_env \<Rightarrow> wifi_extra \<Rightarrow> machine option \<times> 'e \<Rightarrow> (bool \<times> machine option \<times> 'e) option" where
  "wifi_trigger_extra_action env a = (\<lambda>(om, e).
     case om of
       None \<Rightarrow> None
     | Some m \<Rightarrow>
         (case trigger_action env (wextra_str a) False (m, e) of (ok, m', e') \<Rightarrow> Some (ok, Some m', e')))"

definition wifi_current_state :: "machine \<Rightarrow> wifi_state" where
  "wifi_current_state m = (case wstate_of (current_state m) of Some s \<Rightarrow> s | None \<Rightarrow> MaxState)"

definition wifi_is_transient_state :: "machine \<Rightarrow> bool" where
  "wifi_is_transient_state m \<longleftrightarrow>
     (let s = wifi_current_state m in
      s = Initing \<or> s = Deiniting \<or> s = Starting \<or> s = Stopping \<or> s = Connecting \<or> s = Disconnecting)"

definition wifi_is_action_running :: "machine \<Rightarrow> bool" where
  "wifi_is_action_running m \<longleftrightarrow> wifi_is_transient_state m \<or> has_transition_running m"

fun action_target_transient :: "wifi_action \<Rightarrow> wifi_state" where
  "action_target_transient Init = Initing"
| "action_target_transient Deinit = Deiniting"
| "action_target_transient Start = Starting"
| "action_target_transient Stop = Stopping"
| "action_target_transient Connect = Connecting"
| "action_target_transient Disconnect = Disconnecting"
| "action_target_transient MaxAction = MaxState"

fun action_target_stable :: "wifi_action \<Rightarrow> wifi_state" where
  "action_target_stable Init = Inited"
| "action_target_stable Deinit = Idle"
| "action_target_stable Start = Started"
| "action_target_stable Stop = Inited"
| "action_target_stable Connect = Connected"
| "action_target_stable Disconnect = Started"
| "action_target_stable MaxAction = MaxState"

fun event_target_state :: "wifi_event \<Rightarrow> wifi_state" where
  "event_target_state EvInited = Inited"
| "event_target_state EvDeinited = Idle"
| "event_target_state EvStarted = Started"
| "event_target_state EvStopped = Inited"
| "event_target_state EvConnected = Connected"
| "event_target_state EvDisconnected = Started"
| "event_target_state MaxEvent = MaxState"

section \<open>The table is a table machine\<close>

abbreviation wifi_state_objects :: "state_base list" where
  "wifi_state_objects \<equiv> map (\<lambda>s. mk_state (wstate_str s)) wifi_states"

lemmas wifi_edges_defs = wifi_edges_def wifi_edges_init_def wifi_edges_connect_def wifi_edges_self_def

interpretation wifi: table_machine wifi_state_objects wifi_edges
proof unfold_locales
  show "distinct (map st_name wifi_state_objects)"
    by (simp add: wifi_states_def mk_state_def)
  show "distinct (map (\<lambda>(s, a, t). (s, a)) wifi_edges)"
    by (simp add: wifi_edges_defs)
  show "\<forall>(s, a, t) \<in> set wifi_edges. s \<in> st_name ` set wifi_state_objects \<and> t \<in> st_name ` set wifi_state_objects"
    by (simp add: wifi_edges_defs wifi_states_def mk_state_def)
qed

lemma wifi_init_built: "wifi_init None = (True, Some wifi.built)"
  by (simp add: wifi_init_def wifi.states_ok wifi.edges_ok)

text \<open>
  The lifecycle the table implements. A general action leads to its transient state where it
  makes progress, and nowhere where it is already done or under way; a transient state ends in the
  action's stable state on success and falls back otherwise.
\<close>

fun wifi_action_next :: "wifi_state \<Rightarrow> wifi_action \<Rightarrow> wifi_state option" where
  "wifi_action_next Idle a = (case a of Init \<Rightarrow> Some Initing | Deinit \<Rightarrow> Some Idle | _ \<Rightarrow> None)"
| "wifi_action_next Inited a =
     (case a of Start \<Rightarrow> Some Starting | Deinit \<Rightarrow> Some Deiniting | Init \<Rightarrow> Some Inited | _ \<Rightarrow> None)"
| "wifi_action_next Started a =
     (case a of Connect \<Rightarrow> Some Connecting | Stop \<Rightarrow> Some Stopping | Start \<Rightarrow> Some Started
      | Disconnect \<Rightarrow> Some Started | _ \<Rightarrow> None)"
| "wifi_action_next Connected a =
     (case a of Disconnect \<Rightarrow> Some Disconnecting | Stop \<Rightarrow> Some Stopping | Start \<Rightarrow> Some Connected
      | Connect \<Rightarrow> Some Connected | _ \<Rightarrow> None)"
| "wifi_action_next s a =
     (if is_transient s \<and> (a = transient_action s \<or> a = Start \<and> (s = Connecting \<or> s = Disconnecting))
      then Some s else None)"

fun wifi_fallback :: "wifi_state \<Rightarrow> wifi_state" where
  "wifi_fallback Initing = Idle"
| "wifi_fallback Starting = Inited"
| "wifi_fallback Connecting = Started"
| "wifi_fallback s = action_target_stable (transient_action s)"

fun wifi_undo :: "wifi_state \<Rightarrow> wifi_state" where
  "wifi_undo Initing = Deiniting"
| "wifi_undo Starting = Stopping"
| "wifi_undo Connecting = Disconnecting"
| "wifi_undo s = action_target_stable (transient_action s)"

fun wifi_extra_next :: "wifi_state \<Rightarrow> wifi_extra \<Rightarrow> wifi_state option" where
  "wifi_extra_next s x =
     (if \<not> is_transient s then None
      else case x of
        Success \<Rightarrow> Some (action_target_stable (transient_action s))
      | Failure \<Rightarrow> Some (wifi_fallback s)
      | Timeout \<Rightarrow> Some (wifi_undo s)
      | MaxExtra \<Rightarrow> None)"

lemma wifi_edges_action:
  "edge_map wifi_edges (wstate_str s, waction_str a) = map_option wstate_str (wifi_action_next s a)"
  by (cases s; cases a) (simp_all add: wifi_edges_defs edge_map_def is_transient_def)

lemma wifi_edges_extra:
  "edge_map wifi_edges (wstate_str s, wextra_str x) = map_option wstate_str (wifi_extra_next s x)"
  by (cases s; cases x) (simp_all add: wifi_edges_defs edge_map_def is_transient_def)

text \<open>initialising the Wi-Fi state machine succeeds, and the machine it builds is well formed
  and moves exactly as the lifecycle says, for every state, action and result.\<close>

theorem wifi_init_lifecycle:
  "\<exists>m. wifi_init None = (True, Some m) \<and> sm_inv m \<and>
     (\<forall>s a. sm_delta m (wstate_str s) (waction_str a) = map_option wstate_str (wifi_action_next s a)) \<and>
     (\<forall>s x. sm_delta m (wstate_str s) (wextra_str x) = map_option wstate_str (wifi_extra_next s x))"
  using wifi_init_built wifi.built_inv
  by (intro exI [of _ wifi.built]) (simp add: wifi.built_delta wifi_edges_action wifi_edges_extra)

lemma wstate_str_inj: "wstate_str x = wstate_str y \<longleftrightarrow> x = y"
  by (cases x; cases y) simp_all

lemma wifi_targets_spec:
  assumes "wifi_action_next s a = Some t" and "t \<noteq> s"
  shows "t = action_target_transient a \<and> is_transient t \<and> transient_action t = a \<and>
    wifi_extra_next t Success = Some (action_target_stable a) \<and>
    event_target_state (transient_event t) = action_target_stable a \<and>
    \<not> is_transient (action_target_stable a)"
    and "\<exists>u. wifi_extra_next t Timeout = Some u \<and>
       (is_transient u \<longrightarrow> (\<exists>v. wifi_extra_next u Timeout = Some v \<and> \<not> is_transient v))"
  using assms by (cases s; cases a; auto simp: is_transient_def split: if_splits)+

text \<open>the table and the class's target functions agree. An action that changes the state
  leads to its transient state, which runs that very action; success there ends in the action's
  stable state, which is also the target of the event awaited; and a timeout, followed at most
  once by another, ends in a stable state.\<close>

theorem wifi_targets_agree:
  assumes "edge_map wifi_edges (wstate_str s, waction_str a) = Some (wstate_str t)" and "t \<noteq> s"
  shows "t = action_target_transient a \<and> is_transient t \<and> transient_action t = a \<and>
    edge_map wifi_edges (wstate_str t, wextra_str Success) = Some (wstate_str (action_target_stable a)) \<and>
    event_target_state (transient_event t) = action_target_stable a \<and>
    \<not> is_transient (action_target_stable a) \<and>
    (\<exists>u. edge_map wifi_edges (wstate_str t, wextra_str Timeout) = Some (wstate_str u) \<and>
       (is_transient u \<longrightarrow>
         (\<exists>v. edge_map wifi_edges (wstate_str u, wextra_str Timeout) = Some (wstate_str v) \<and> \<not> is_transient v)))"
proof -
  have n: "wifi_action_next s a = Some t"
    using assms(1) unfolding wifi_edges_action by (simp add: wstate_str_inj)
  have e: "edge_map wifi_edges (wstate_str x, wextra_str y) = Some (wstate_str z) \<longleftrightarrow>
      wifi_extra_next x y = Some z" for x y z
    unfolding wifi_edges_extra by (cases "wifi_extra_next x y") (simp_all add: wstate_str_inj)
  show ?thesis
    unfolding e using wifi_targets_spec [OF n assms(2)] by blast
qed

theorem wifi_targets_agree_witness:
  "edge_map wifi_edges (''Connecting'', ''Success'') = Some ''Connected''"
  using wifi_targets_agree [of Started Connect Connecting]
  by (simp add: wifi_edges_defs edge_map_def)

section \<open>The running service\<close>

text \<open>A running machine takes triggers of the service, of the hardware and of its timers, and runs
  the queued ones.\<close>

inductive wifi_live :: "'e sm_env \<Rightarrow> machine \<times> 'e \<Rightarrow> machine \<times> 'e \<Rightarrow> bool" for env p0 where
  live_start: "wifi_live env p0 p0"
| live_run: "wifi_live env p0 p \<Longrightarrow> wifi_live env p0 (run_trigger env a p)"
| live_post: "wifi_live env p0 p \<Longrightarrow> wifi_live env p0 (snd (trigger_action env a d p))"

lemma wifi_env_hooks:
  "fst (on_exit (wifi_env h sched) n p x e)" "fst (on_enter (wifi_env (Some f) sched) n p x e)"
  "sch_post_delayed (wifi_env h sched) = sch_post_delayed sched"
  by (auto simp: wifi_env_def wifi_on_enter_def is_transient_def split: option.splits)

lemma wifi_env_nonzero: "posts_nonzero (wifi_env h sched) = posts_nonzero sched"
  by (simp add: posts_nonzero_def wifi_env_hooks)

definition timeouts_set :: "wifi_timeouts \<Rightarrow> bool" where
  "timeouts_set t \<longleftrightarrow> inited_timeout_ms t > 0 \<and> deinited_timeout_ms t > 0 \<and> started_timeout_ms t > 0 \<and>
     stopped_timeout_ms t > 0 \<and> connected_timeout_ms t > 0 \<and> disconnected_timeout_ms t > 0"

lemma set_timeouts_states:
  assumes "sm_states m = wifi_state_objects"
  shows "map st_name (sm_states (set_timeouts tmo m)) = map st_name wifi_state_objects"
    and "transitions (set_timeouts tmo m) = transitions m"
    and "sm_is_running (set_timeouts tmo m) = sm_is_running m"
    and "timeouts_set tmo \<Longrightarrow> is_transient s \<Longrightarrow>
      \<exists>st. find_state (set_timeouts tmo m) (wstate_str s) = Some st \<and> timeout_ms st > 0 \<and>
        timeout_action st = ''Timeout''"
proof -
  let ?o = "\<lambda>s t. \<lparr>st_name = wstate_str s, timeout_ms = t, timeout_action = ''Timeout'', update_interval_ms = 0\<rparr>"
  have l: "sm_states (set_timeouts tmo m) =
    [mk_state ''Idle'', ?o Initing (inited_timeout_ms tmo), mk_state ''Inited'',
     ?o Deiniting (deinited_timeout_ms tmo), ?o Starting (started_timeout_ms tmo), mk_state ''Started'',
     ?o Stopping (stopped_timeout_ms tmo), ?o Connecting (connected_timeout_ms tmo),
     mk_state ''Connected'', ?o Disconnecting (disconnected_timeout_ms tmo)]"
    by (simp add: set_timeouts_def set_class_timeout_def assms wifi_states_def mk_state_def set_timeout_def)
  show "map st_name (sm_states (set_timeouts tmo m)) = map st_name wifi_state_objects"
    unfolding l by (simp add: wifi_states_def mk_state_def)
  show "transitions (set_timeouts tmo m) = transitions m" "sm_is_running (set_timeouts tmo m) = sm_is_running m"
    by (simp_all add: set_timeouts_def set_class_timeout_def sm_is_running_def)
  show "\<exists>st. find_state (set_timeouts tmo m) (wstate_str s) = Some st \<and> timeout_ms st > 0 \<and>
      timeout_action st = ''Timeout''" if "timeouts_set tmo" "is_transient s"
    using that by (cases s) (simp_all add: find_state_def l mk_state_def is_transient_def timeouts_set_def)
qed

definition wifi_ok :: "wifi_timeouts \<Rightarrow> machine \<Rightarrow> bool" where
  "wifi_ok tmo m \<longleftrightarrow> sm_states m = sm_states (set_timeouts tmo wifi.built) \<and>
     transitions m = transitions wifi.built \<and> sm_is_running m \<and> armed m \<and>
     current_state m \<in> wstate_str ` set wifi_states"

lemma wifi_start_ok:
  assumes "wifi_init None = (True, Some m0)" and "posts_nonzero sched"
    and "wifi_start (wifi_env h sched) tmo sc grp (Some m0, e) = Some (True, Some m, e')"
    and "\<not> sm_is_running m0"
  shows "wifi_ok tmo m"
proof -
  have m0: "m0 = wifi.built" using assms(1) wifi_init_built by simp
  let ?cfg = "\<lparr>cfg_scheduler = sc, cfg_group = grp, cfg_initial = wstate_str Idle\<rparr>"
  let ?r = "sm_start (wifi_env h sched) ?cfg (set_timeouts tmo m0, e)"
  have s: "sm_states m0 = wifi_state_objects" by (simp add: m0 wifi.built_states)
  have r: "fst ?r" "m = fst (snd ?r)"
    using assms(3,4) by (auto simp: wifi_start_def wifi_is_running_def split: prod.splits if_splits)
  have nr: "\<not> sm_is_running (fst (set_timeouts tmo m0, e))"
    using set_timeouts_states(3) [OF s] assms(4) by simp
  have nz: "posts_nonzero (wifi_env h sched)" using assms(2) by (simp add: wifi_env_nonzero)
  note st = armed_start [OF nr nz r(1), folded r(2)]
  show ?thesis
    using st set_timeouts_states(2) [OF s] m0
    by (simp add: wifi_ok_def wifi_states_def)
qed

lemma wifi_name_image: "wstate_str ` set wifi_states = st_name ` set wifi_state_objects"
  by (simp add: mk_state_def image_image)

lemma wifi_ok_run:
  assumes "wifi_ok tmo (fst p)" and "posts_nonzero sched"
  shows "wifi_ok tmo (fst (run_trigger (wifi_env (Some f) sched) a p)) \<and>
    current_state (fst (run_trigger (wifi_env (Some f) sched) a p)) =
      (case edge_map wifi_edges (current_state (fst p), a) of None \<Rightarrow> current_state (fst p) | Some t \<Rightarrow> t)"
proof -
  obtain m e where p: "p = (m, e)" by (cases p)
  let ?env = "wifi_env (Some f) sched"
  have ok: "sm_states m = sm_states (set_timeouts tmo wifi.built)" "transitions m = transitions wifi.built"
    "sm_is_running m" "armed m" "current_state m \<in> wstate_str ` set wifi_states"
    using assms(1) by (simp_all add: wifi_ok_def p)
  have ne: "current_state m \<noteq> []"
    using ok(5) by (auto simp: wifi_states_def)
  have names: "map st_name (sm_states m) = map st_name wifi_state_objects"
    unfolding ok(1) by (rule set_timeouts_states(1) [OF wifi.built_states])
  have c: "current_state (fst (run_trigger ?env a (m, e))) =
      (case edge_map wifi_edges (current_state m, a) of None \<Rightarrow> current_state m | Some t \<Rightarrow> t)"
    by (rule wifi.run_follows [OF names ok(2,3) _ ne])
      (use ok(5) in \<open>simp_all only: wifi_name_image wifi_env_hooks\<close>)
  then have "current_state (fst (run_trigger ?env a (m, e))) \<in> wstate_str ` set wifi_states"
    using ok(5) wifi.edge_ends(2) wifi_name_image by (auto split: option.splits)
  moreover have "armed (fst (run_trigger ?env a (m, e)))"
    using armed_run_trigger [of "(m, e)" ?env a] ok assms(2) by (simp add: wifi_env_nonzero)
  ultimately show ?thesis
    using ok c run_trigger_fields [of ?env a "(m, e)"]
    unfolding p fst_conv by (simp add: wifi_ok_def sm_is_running_def)
qed

lemma wifi_live_ok:
  assumes "wifi_live (wifi_env (Some f) sched) p0 p" and "wifi_ok tmo (fst p0)" and "posts_nonzero sched"
  shows "wifi_ok tmo (fst p)"
  using assms(1)
proof induction
  case live_start
  show ?case by (rule assms(2))
next
  case (live_run p a)
  then show ?case using wifi_ok_run [OF _ assms(3)] by blast
next
  case (live_post p a d)
  then show ?case
    using trigger_action_fields [of "wifi_env (Some f) sched" a d p]
    by (simp add: wifi_ok_def sm_is_running_def)
qed


definition demo_timeouts :: wifi_timeouts where
  "demo_timeouts = \<lparr>inited_timeout_ms = 1, deinited_timeout_ms = 2, started_timeout_ms = 3,
     stopped_timeout_ms = 4, connected_timeout_ms = 5, disconnected_timeout_ms = 6\<rparr>"

definition demo_handler :: "demo_world action_handler" where
  "demo_handler a w = (False, w)"

lemma set_timeouts_idle:
  "sm_states m = wifi_state_objects \<Longrightarrow> find_state (set_timeouts tmo m) ''Idle'' = Some (mk_state ''Idle'')"
  by (simp add: find_state_def set_timeouts_def set_class_timeout_def wifi_states_def mk_state_def set_timeout_def)

lemma wstate_of_idle: "wstate_of ''Idle'' = Some Idle"
  by (simp add: wstate_of_def wifi_states_def)


end
