(* ===== verification/Http_State_Machine.thy ===== *)
theory Http_State_Machine
  imports Table_Machine
begin

text \<open>
  The state machine of the HTTP service (\<open>service_http/src/state_machine.cpp\<close>): a service
  lifecycle whose actions are the names of the target states, with a state that polls until the
  time is synchronised. The class owns at most one generic machine, a checker and a callback; a
  call through the null machine is the value \<open>None\<close> of the operation. The polling interval
  comes from the build configuration and is an argument of \<open>http_init\<close>.
\<close>

datatype http_state =
  Idle | Initing | Inited | TimeSyncing | Starting | Started | Stopping | Stopped | Deiniting | MaxState

fun hstate_str :: "http_state \<Rightarrow> string" where
  "hstate_str Idle = ''Idle''"
| "hstate_str Initing = ''Initing''"
| "hstate_str Inited = ''Inited''"
| "hstate_str TimeSyncing = ''TimeSyncing''"
| "hstate_str Starting = ''Starting''"
| "hstate_str Started = ''Started''"
| "hstate_str Stopping = ''Stopping''"
| "hstate_str Stopped = ''Stopped''"
| "hstate_str Deiniting = ''Deiniting''"
| "hstate_str MaxState = ''Max''"

definition http_states :: "http_state list" where
  "http_states = [Idle, Initing, Inited, TimeSyncing, Starting, Started, Stopping, Stopped, Deiniting]"

definition hstate_of :: "string \<Rightarrow> http_state option" where
  "hstate_of n = find (\<lambda>s. hstate_str s = n) (http_states @ [MaxState])"

record 'e http_sm =
  hs_machine :: "machine option"
  time_sync_checker :: "('e \<Rightarrow> bool \<times> 'e) option"
  state_changed_callback :: "(http_state \<Rightarrow> 'e \<Rightarrow> 'e) option"

section \<open>Building\<close>

definition http_state_object :: "u32 \<Rightarrow> http_state \<Rightarrow> state_base" where
  "http_state_object poll_ms s =
     (if s = TimeSyncing then set_update_interval poll_ms (mk_state (hstate_str s)) else mk_state (hstate_str s))"

abbreviation hedge :: "http_state \<Rightarrow> http_state \<Rightarrow> edge" where
  "hedge s t \<equiv> (hstate_str s, hstate_str t, hstate_str t)"

definition http_edges :: "edge list" where
  "http_edges =
    [hedge Idle Inited,
     hedge Inited Started,
     hedge Inited TimeSyncing,
     hedge TimeSyncing Started,
     hedge Started Stopping,
     hedge Stopping Stopped,
     hedge Stopped Started,
     hedge Stopped Idle,
     hedge Inited Idle]"

definition http_init :: "u32 \<Rightarrow> 'e http_sm \<Rightarrow> bool \<times> 'e http_sm" where
  "http_init poll_ms h =
     (case hs_machine h of
        Some _ \<Rightarrow> (True, h)
      | None \<Rightarrow>
          (case add_states (map (http_state_object poll_ms) http_states) new_machine of
             (ok, m1) \<Rightarrow>
               if \<not> ok then (False, h)
               else case add_edges http_edges m1 of
                 (ok2, m2) \<Rightarrow> if \<not> ok2 then (False, h) else (True, h\<lparr>hs_machine := Some m2\<rparr>)))"

section \<open>Lifecycle\<close>

definition http_is_running :: "'e http_sm \<Rightarrow> bool" where
  "http_is_running h = (case hs_machine h of None \<Rightarrow> False | Some m \<Rightarrow> sm_is_running m)"

definition http_stop :: "'e sm_env \<Rightarrow> 'e http_sm \<times> 'e \<Rightarrow> 'e http_sm \<times> 'e" where
  "http_stop env = (\<lambda>(h, e).
     case hs_machine h of
       None \<Rightarrow> (h, e)
     | Some m \<Rightarrow>
         if \<not> sm_is_running m then (h, e)
         else case sm_stop env (m, e) of (m', e') \<Rightarrow> (h\<lparr>hs_machine := Some m'\<rparr>, e'))"

definition http_deinit :: "'e sm_env \<Rightarrow> 'e http_sm \<times> 'e \<Rightarrow> 'e http_sm \<times> 'e" where
  "http_deinit env = (\<lambda>(h, e).
     case (if http_is_running h then http_stop env (h, e) else (h, e)) of
       (h', e') \<Rightarrow> (h'\<lparr>hs_machine := None\<rparr>, e'))"

definition http_start ::
  "'e sm_env \<Rightarrow> sched option \<Rightarrow> string \<Rightarrow> 'e http_sm \<times> 'e \<Rightarrow> (bool \<times> 'e http_sm \<times> 'e) option" where
  "http_start env sched grp = (\<lambda>(h, e).
     if http_is_running h then Some (True, h, e)
     else case hs_machine h of
       None \<Rightarrow> None
     | Some m \<Rightarrow>
         (case sm_start env \<lparr>cfg_scheduler = sched, cfg_group = grp, cfg_initial = hstate_str Inited\<rparr> (m, e) of
            (ok, m', e') \<Rightarrow> Some (ok, h\<lparr>hs_machine := Some m'\<rparr>, e')))"

definition set_time_sync_checker :: "('e \<Rightarrow> bool \<times> 'e) option \<Rightarrow> 'e http_sm \<Rightarrow> 'e http_sm" where
  "set_time_sync_checker c h = h\<lparr>time_sync_checker := c\<rparr>"

definition set_state_changed_callback :: "(http_state \<Rightarrow> 'e \<Rightarrow> 'e) option \<Rightarrow> 'e http_sm \<Rightarrow> 'e http_sm" where
  "set_state_changed_callback c h = h\<lparr>state_changed_callback := c\<rparr>"

section \<open>Triggers\<close>

definition trigger_state ::
  "'e sm_env \<Rightarrow> http_state \<Rightarrow> 'e http_sm \<times> 'e \<Rightarrow> (bool \<times> 'e http_sm \<times> 'e) option" where
  "trigger_state env s = (\<lambda>(h, e).
     if s = MaxState then Some (False, h, e)
     else case hs_machine h of
       None \<Rightarrow> None
     | Some m \<Rightarrow>
         (case trigger_action env (hstate_str s) False (m, e) of
            (ok, m', e') \<Rightarrow> Some (ok, h\<lparr>hs_machine := Some m'\<rparr>, e')))"

definition http_current_state :: "'e http_sm \<Rightarrow> http_state" where
  "http_current_state h =
     (case hs_machine h of
        None \<Rightarrow> MaxState
      | Some m \<Rightarrow>
          if \<not> sm_is_running m then MaxState
          else case hstate_of (current_state m) of Some s \<Rightarrow> s | None \<Rightarrow> MaxState)"

definition check_if_time_synced :: "'e http_sm \<Rightarrow> 'e \<Rightarrow> bool \<times> 'e" where
  "check_if_time_synced h e = (case time_sync_checker h of None \<Rightarrow> (False, e) | Some c \<Rightarrow> c e)"

definition complete_time_sync ::
  "'e sm_env \<Rightarrow> 'e http_sm \<times> 'e \<Rightarrow> (bool \<times> 'e http_sm \<times> 'e) option" where
  "complete_time_sync env = (\<lambda>(h, e).
     case hs_machine h of
       None \<Rightarrow> None
     | Some m \<Rightarrow>
         (case trigger_action env (hstate_str Started) True (m, e) of
            (ok, m', e') \<Rightarrow>
              let h' = h\<lparr>hs_machine := Some m'\<rparr> in
              if \<not> ok then Some (False, h', e')
              else Some (True, h', case state_changed_callback h of None \<Rightarrow> e' | Some c \<Rightarrow> c Started e')))"

text \<open>The periodic update of a state object.\<close>

definition http_on_update ::
  "'e sm_env \<Rightarrow> http_state \<Rightarrow> 'e http_sm \<times> 'e \<Rightarrow> ('e http_sm \<times> 'e) option" where
  "http_on_update env s = (\<lambda>(h, e).
     if s \<noteq> TimeSyncing then Some (h, e)
     else case check_if_time_synced h e of
       (synced, e1) \<Rightarrow>
         if \<not> synced then Some (h, e1)
         else map_option snd (complete_time_sync env (h, e1)))"

section \<open>The table\<close>

abbreviation http_state_objects :: "u32 \<Rightarrow> state_base list" where
  "http_state_objects poll \<equiv> map (http_state_object poll) http_states"

lemma st_name_http [simp]: "st_name (http_state_object poll s) = hstate_str s"
  by (simp add: http_state_object_def mk_state_def set_update_interval_def)

interpretation http: table_machine "http_state_objects poll" http_edges for poll
proof unfold_locales
  show "distinct (map st_name (http_state_objects poll))"
    by (simp add: http_states_def)
  show "distinct (map (\<lambda>(s, a, t). (s, a)) http_edges)"
    by (simp add: http_edges_def)
  show "\<forall>(s, a, t) \<in> set http_edges. s \<in> st_name ` set (http_state_objects poll) \<and>
      t \<in> st_name ` set (http_state_objects poll)"
    by (simp add: http_edges_def http_states_def)
qed

lemma http_init_built:
  "http_init poll h = (True, case hs_machine h of None \<Rightarrow> h\<lparr>hs_machine := Some (http.built poll)\<rparr> | Some _ \<Rightarrow> h)"
  by (simp add: http_init_def http.states_ok http.edges_ok split: option.splits)

text \<open>The lifecycle: which state can follow which.\<close>

fun http_next :: "http_state \<Rightarrow> http_state list" where
  "http_next Idle = [Inited]"
| "http_next Inited = [Started, TimeSyncing, Idle]"
| "http_next TimeSyncing = [Started]"
| "http_next Started = [Stopping]"
| "http_next Stopping = [Stopped]"
| "http_next Stopped = [Started, Idle]"
| "http_next _ = []"

lemma http_edges_next:
  "edge_map http_edges (hstate_str s, hstate_str t) = (if t \<in> set (http_next s) then Some (hstate_str t) else None)"
  by (cases s; cases t) (simp_all add: http_edges_def edge_map_def)

text \<open>initialising the HTTP state machine succeeds and gives a well-formed machine in which
  triggering the name of a state leads to that state exactly along the lifecycle, only the
  time-synchronisation state is polled, and no edge stops the service out of it.\<close>

theorem http_init_lifecycle:
  "\<exists>m. http_init poll \<lparr>hs_machine = None, time_sync_checker = c, state_changed_callback = f\<rparr> =
       (True, \<lparr>hs_machine = Some m, time_sync_checker = c, state_changed_callback = f\<rparr>) \<and>
     sm_inv m \<and>
     (\<forall>s t. sm_delta m (hstate_str s) (hstate_str t) =
        (if t \<in> set (http_next s) then Some (hstate_str t) else None)) \<and>
     map (\<lambda>st. (st_name st, update_interval_ms st)) (sm_states m) =
       map (\<lambda>s. (hstate_str s, if s = TimeSyncing then poll else 0)) http_states \<and>
     sm_delta m ''TimeSyncing'' ''Stopping'' = None"
proof -
  have "map (\<lambda>st. (st_name st, update_interval_ms st)) (sm_states (http.built poll)) =
      map (\<lambda>s. (hstate_str s, if s = TimeSyncing then poll else 0)) http_states"
    unfolding http.built_states
    by (simp add: http_states_def http_state_object_def mk_state_def set_update_interval_def)
  moreover have "sm_delta (http.built poll) ''TimeSyncing'' ''Stopping'' = None"
    using http_edges_next [of TimeSyncing Stopping] by (simp add: http.built_delta)
  ultimately show ?thesis
    using http_init_built [of poll "\<lparr>hs_machine = None, time_sync_checker = c, state_changed_callback = f\<rparr>"]
      http.built_inv http.built_delta http_edges_next
    by (intro exI [of _ "http.built poll"]) simp
qed

text \<open>the update of the time-synchronisation state does nothing until the checker reports
  that the time is synchronised; then it tells the callback once and queues the trigger that, when
  it runs with agreeing hooks, puts the machine into \<open>Started\<close>.\<close>

theorem time_sync_completes:
  assumes "http_init poll h0 = (True, h1)" and "hs_machine h0 = None" and "hs_machine h1 = Some m0"
    and "sm_states m = sm_states m0" and "transitions m = transitions m0"
    and "sm_is_running m" and "current_state m = hstate_str TimeSyncing"
    and "hs_machine h = Some m" and "time_sync_checker h = Some (\<lambda>e. (synced e, e))"
    and "state_changed_callback h = Some cb"
    and "\<And>s t g e. sch_dispatch env s t g e = (True, e)"
    and "\<And>n p x e. fst (on_exit env n p x e)" and "\<And>n p x e. fst (on_enter env n p x e)"
  shows "(if synced e
     then \<exists>h' m'. http_on_update env TimeSyncing (h, e) = Some (h', cb Started e) \<and> hs_machine h' = Some m' \<and>
       has_transition_running m' = (transition_count m + 1 > 0) \<and>
       current_state (fst (run_trigger env (hstate_str Started) (m', cb Started e))) = hstate_str Started
     else http_on_update env TimeSyncing (h, e) = Some (h, e))"
proof (cases "synced e")
  case False
  with assms(9) show ?thesis by (simp add: http_on_update_def check_if_time_synced_def)
next
  case True
  have m0: "m0 = http.built poll"
    using http_init_built [of poll h0] assms(1,2,3) by simp
  define m' where "m' = m\<lparr>transition_count := transition_count m + 1\<rparr>"
  have t: "trigger_action env (hstate_str Started) True (m, e) = (True, m', e)"
    using assms(6,11) by (auto simp: trigger_action_def m'_def sm_is_running_def)
  have u: "http_on_update env TimeSyncing (h, e) = Some (h\<lparr>hs_machine := Some m'\<rparr>, cb Started e)"
    using True assms(8,9,10) t
    by (simp add: http_on_update_def check_if_time_synced_def complete_time_sync_def)
  have "current_state (fst (run_trigger env (hstate_str Started) (m', cb Started e))) =
      (case edge_map http_edges (current_state m', hstate_str Started) of None \<Rightarrow> current_state m' | Some t \<Rightarrow> t)"
  proof (rule http.run_follows [where poll = poll])
    show "map st_name (sm_states m') = map st_name (http_state_objects poll)"
    proof -
      have "sm_states m' = sm_states m" by (simp add: m'_def)
      then show ?thesis using assms(4) http.built_states [of poll] by (simp only: m0)
    qed
    show "transitions m' = transitions (http.built poll)" using assms(5) by (simp add: m'_def m0)
    show "sm_is_running m'" using assms(6) by (simp add: m'_def sm_is_running_def)
    show "current_state m' \<in> st_name ` set (http_state_objects poll)" "current_state m' \<noteq> []"
      using assms(7) by (simp_all add: m'_def http_states_def)
  qed (use assms(12,13) in simp_all)
  then have "current_state (fst (run_trigger env (hstate_str Started) (m', cb Started e))) = hstate_str Started"
    using http_edges_next [of TimeSyncing Started] assms(7) by (simp add: m'_def)
  with u True show ?thesis
    by (auto simp: m'_def has_transition_running_def)
qed

definition demo_sync :: "bool \<Rightarrow> demo_world http_sm" where
  "demo_sync b = \<lparr>hs_machine = map_option (\<lambda>m. m\<lparr>task_scheduler := Some 1, current_state := ''TimeSyncing''\<rparr>)
       (hs_machine (snd (http_init 100 (\<lparr>hs_machine = None, time_sync_checker = None, state_changed_callback = None\<rparr> :: demo_world http_sm)))),
     time_sync_checker = Some (\<lambda>e. (b, e)), state_changed_callback = Some (\<lambda>s (k, ts, log). (k, ts, hstate_str s # log))\<rparr>"

theorem time_sync_completes_witness:
  "(\<exists>h' m'. http_on_update (demo_env (\<lambda>_. True) True) TimeSyncing (demo_sync True, (0, [], [])) =
       Some (h', (0, [], [''Started''])) \<and> hs_machine h' = Some m' \<and>
     current_state (fst (run_trigger (demo_env (\<lambda>_. True) True) ''Started'' (m', (0, [], [''Started''])))) = ''Started'') \<and>
   http_on_update (demo_env (\<lambda>_. True) True) TimeSyncing (demo_sync False, (0, [], [])) = Some (demo_sync False, (0, [], []))"
proof -
  let ?h0 = "\<lparr>hs_machine = None, time_sync_checker = None, state_changed_callback = None\<rparr> :: demo_world http_sm"
  let ?env = "demo_env (\<lambda>_. True) True"
  have i: "http_init 100 ?h0 = (True, ?h0\<lparr>hs_machine := Some (http.built 100)\<rparr>)"
    using http_init_built [of 100 ?h0] by simp
  let ?m = "(http.built 100)\<lparr>task_scheduler := Some 1, current_state := ''TimeSyncing''\<rparr>"
  have h: "hs_machine (demo_sync b) = Some ?m" "time_sync_checker (demo_sync b) = Some (\<lambda>e. (b, e))"
      "state_changed_callback (demo_sync b) = Some (\<lambda>s (k, ts, log). (k, ts, hstate_str s # log))" for b
    by (simp_all add: demo_sync_def i)
  have d: "sch_dispatch ?env s t g e = (True, e)" "fst (on_exit ?env n p x e)" "fst (on_enter ?env n p x e)"
    for s t g e n p x
    by (cases e, simp_all add: demo_env_def split: prod.splits)
  have m: "sm_states ?m = sm_states (http.built 100)" "transitions ?m = transitions (http.built 100)"
    "sm_is_running ?m" "current_state ?m = hstate_str TimeSyncing"
    by (simp_all add: sm_is_running_def)
  have h1: "hs_machine (?h0\<lparr>hs_machine := Some (http.built 100)\<rparr>) = Some (http.built 100)" and h0: "hs_machine ?h0 = None"
    by simp_all
  show ?thesis
    using time_sync_completes [where synced = "\<lambda>_. True" and e = "(0, [], [])" and h = "demo_sync True", OF i h0 h1 m h d]
      time_sync_completes [where synced = "\<lambda>_. False" and e = "(0, [], [])" and h = "demo_sync False", OF i h0 h1 m h d]
    by auto
qed

end
