(* ===== verification/Plugin_Registry.thy ===== *)
theory Plugin_Registry
  imports Prelude
begin

text \<open>
  The plugin registry of \<open>brookesia_lib_utils\<close> (\<open>plugin.hpp\<close>): named factories, each with
  at most one cached instance. An instance is a pointer, a factory reads and changes the world
  \<open>'w\<close> and may answer null. The recursive mutex serialises the operations.
\<close>

record 'w plugin_info =
  factory :: "('w \<Rightarrow> ptr option \<times> 'w) option"
  instance_ptr :: "ptr option"

type_synonym 'w plugins = "(string, 'w plugin_info) smap"

definition pl_get_instance :: "string \<Rightarrow> 'w plugins \<times> 'w \<Rightarrow> ptr option \<times> 'w plugins \<times> 'w" where
  "pl_get_instance n = (\<lambda>(ps, w).
     case map_of ps n of
       None \<Rightarrow> (None, ps, w)
     | Some pl \<Rightarrow>
         (case instance_ptr pl of
            Some p \<Rightarrow> (Some p, ps, w)
          | None \<Rightarrow>
              (case factory pl of
                 None \<Rightarrow> (None, ps, w)
               | Some f \<Rightarrow>
                   (case f w of (r, w') \<Rightarrow> (r, smap_put n (pl\<lparr>instance_ptr := r\<rparr>) ps, w')))))"

fun pl_get_all_from ::
  "string list \<Rightarrow> 'w plugins \<times> 'w \<Rightarrow> (string \<times> ptr option) list \<times> 'w plugins \<times> 'w" where
  "pl_get_all_from [] s = ([], s)"
| "pl_get_all_from (n # ns) s =
     (case pl_get_instance n s of (r, s1) \<Rightarrow>
        (case pl_get_all_from ns s1 of (rs, s2) \<Rightarrow> ((n, r) # rs, s2)))"

definition pl_get_all_instances ::
  "'w plugins \<times> 'w \<Rightarrow> (string \<times> ptr option) list \<times> 'w plugins \<times> 'w" where
  "pl_get_all_instances s = pl_get_all_from (map fst (fst s)) s"

definition pl_count :: "'w plugins \<Rightarrow> nat" where
  "pl_count ps = length ps"

definition pl_has :: "string \<Rightarrow> 'w plugins \<Rightarrow> bool" where
  "pl_has n ps \<longleftrightarrow> map_of ps n \<noteq> None"

definition pl_release_instance :: "string \<Rightarrow> 'w plugins \<Rightarrow> 'w plugins" where
  "pl_release_instance n ps =
     (case map_of ps n of
        None \<Rightarrow> ps
      | Some pl \<Rightarrow> if instance_ptr pl = None then ps else smap_put n (pl\<lparr>instance_ptr := None\<rparr>) ps)"

definition pl_release_all_instances :: "'w plugins \<Rightarrow> 'w plugins" where
  "pl_release_all_instances ps = map (\<lambda>(n, pl). (n, pl\<lparr>instance_ptr := None\<rparr>)) ps"

definition pl_remove_plugin :: "string \<Rightarrow> 'w plugins \<Rightarrow> 'w plugins" where
  "pl_remove_plugin n ps = smap_del n ps"

definition pl_remove_all_plugins :: "'w plugins \<Rightarrow> 'w plugins" where
  "pl_remove_all_plugins ps = []"

definition pl_register ::
  "string \<Rightarrow> ('w \<Rightarrow> ptr option \<times> 'w) option \<Rightarrow> 'w plugins \<Rightarrow> 'w plugins" where
  "pl_register n f ps = smap_emplace n \<lparr>factory = f, instance_ptr = None\<rparr> ps"

section \<open>The name-registry contract\<close>

interpretation pl: keyed_registry smap_ok "\<lambda>_ _. True" "\<lambda>ps n. map_option factory (map_of ps n)"
  pl_register pl_remove_plugin
  by unfold_locales
    (auto simp: pl_register_def pl_remove_plugin_def map_of_emplace fun_eq_iff split: option.splits)

text \<open>Of all registrations of a plugin name, whatever else is registered in between, the
  factory of the first one stays.\<close>

theorem plugin_first_registration:
  assumes "smap_ok ps"
  shows "map_option factory (map_of (fold (\<lambda>(n, f). pl_register n f) rs ps) n) =
    (case map_of ps n of Some pl \<Rightarrow> Some (factory pl) | None \<Rightarrow> map_of rs n)"
  using pl.first_registration_wins [OF assms, of rs n] by (simp split: option.splits)

theorem plugin_first_registration_witness:
  "map_option factory (map_of (fold (\<lambda>(n, f). pl_register n f)
     [(''a'', Some (\<lambda>w. (Some 1, w))), (''b'', None), (''a'', None)] []) ''a'') = Some (Some (\<lambda>w::nat. (Some 1, w)))"
  using plugin_first_registration [of "[]" "[(''a'', Some (\<lambda>w::nat. (Some 1, w))), (''b'', None), (''a'', None)]" "''a''"]
  by simp

section \<open>Instances\<close>

definition cached :: "'w plugins \<Rightarrow> string \<Rightarrow> ptr option" where
  "cached ps n = (case map_of ps n of None \<Rightarrow> None | Some pl \<Rightarrow> instance_ptr pl)"

lemma get_instance_cached:
  "cached ps n = Some p \<Longrightarrow> pl_get_instance n (ps, w) = (Some p, ps, w)"
  by (auto simp: cached_def pl_get_instance_def split: option.splits)

lemma get_instance_caches:
  "fst (pl_get_instance n s) = Some p \<Longrightarrow> cached (fst (snd (pl_get_instance n s))) n = Some p"
  by (cases s) (auto simp: cached_def pl_get_instance_def split: option.splits prod.splits)

lemma get_instance_keeps:
  "cached (fst s) n = Some p \<Longrightarrow> cached (fst (snd (pl_get_instance n' s))) n = Some p"
  by (cases s) (auto simp: cached_def pl_get_instance_def split: option.splits prod.splits)

lemma get_instance_ok: "smap_ok (fst s) \<Longrightarrow> smap_ok (fst (snd (pl_get_instance n s)))"
  by (cases s) (auto simp: pl_get_instance_def split: option.splits prod.splits)

lemma get_instance_keys:
  "smap_ok (fst s) \<Longrightarrow> fst ` set (fst (snd (pl_get_instance n s))) = fst ` set (fst s)"
  by (cases s) (auto simp: pl_get_instance_def insert_absorb smap_key_iff split: option.splits prod.splits)

lemma get_all_keeps: "cached (fst s) n = Some p \<Longrightarrow> cached (fst (snd (pl_get_all_from ns s))) n = Some p"
  by (induction ns arbitrary: s) (simp_all add: split_def get_instance_keeps)

lemma get_all_ok: "smap_ok (fst s) \<Longrightarrow> smap_ok (fst (snd (pl_get_all_from ns s)))"
  by (induction ns arbitrary: s) (simp_all add: split_def get_instance_ok)

lemma get_all_keys:
  "smap_ok (fst s) \<Longrightarrow> fst ` set (fst (snd (pl_get_all_from ns s))) = fst ` set (fst s)"
proof (induction ns arbitrary: s)
  case (Cons n ns)
  let ?s = "snd (pl_get_instance n s)"
  show ?case
    using Cons.IH [of ?s] get_instance_ok [OF Cons.prems, of n] get_instance_keys [OF Cons.prems, of n]
    by (simp add: split_def)
qed simp

lemma get_all_names: "map fst (fst (pl_get_all_from ns s)) = ns"
  by (induction ns arbitrary: s) (simp_all add: split_def)

text \<open>The instances handed out are the cached ones.\<close>

lemma get_all_cached:
  "(n, Some p) \<in> set (fst (pl_get_all_from ns s)) \<Longrightarrow> cached (fst (snd (pl_get_all_from ns s))) n = Some p"
proof (induction ns arbitrary: s)
  case (Cons m ns)
  obtain r s1 where g: "pl_get_instance m s = (r, s1)" by (cases "pl_get_instance m s")
  obtain rs s2 where a: "pl_get_all_from ns s1 = (rs, s2)" by (cases "pl_get_all_from ns s1")
  show ?case
  proof (cases "(n, Some p) \<in> set rs")
    case True
    then show ?thesis using Cons.IH [of s1] by (simp add: g a)
  next
    case False
    then have "n = m" "r = Some p" using Cons.prems by (simp_all add: g a)
    then have "cached (fst s1) n = Some p" using get_instance_caches [of m s p] by (simp add: g)
    then show ?thesis using get_all_keeps [of s1 n p ns] by (simp add: g a)
  qed
qed simp

text \<open>Operations between two lookups that neither release nor remove the plugin.\<close>

inductive pl_use :: "'w plugins \<times> 'w \<Rightarrow> 'w plugins \<times> 'w \<Rightarrow> bool" where
  use_get: "pl_get_instance n s = (r, s') \<Longrightarrow> pl_use s s'"
| use_all: "pl_get_all_instances s = (r, s') \<Longrightarrow> pl_use s s'"
| use_register: "pl_use (ps, w) (pl_register n f ps, w)"
| use_world: "pl_use (ps, w) (ps, w')"

lemma register_keeps: "cached ps n = Some p \<Longrightarrow> cached (pl_register m f ps) n = Some p"
  by (auto simp: cached_def pl_register_def smap_emplace_def split: option.splits)

lemma use_keeps: "pl_use\<^sup>*\<^sup>* s s' \<Longrightarrow> cached (fst s) n = Some p \<Longrightarrow> cached (fst s') n = Some p"
proof (induction rule: rtranclp_induct)
  case (step s1 s2)
  then have c: "cached (fst s1) n = Some p" by blast
  from step.hyps(2) show ?case
  proof cases
    case (use_get m r)
    then show ?thesis using get_instance_keeps [OF c, of m] by simp
  next
    case (use_all r)
    then show ?thesis using get_all_keeps [OF c, of "map fst (fst s1)"] by (simp add: pl_get_all_instances_def)
  next
    case (use_register ps w m f)
    then show ?thesis using register_keeps c by simp
  next
    case (use_world ps w w')
    then show ?thesis using c by simp
  qed
qed

text \<open>a plugin has one instance. Once a lookup has returned it, every later lookup returns the
  same object, does not run a factory and changes nothing, whatever lookups and registrations
  come in between.\<close>

theorem plugin_single_instance:
  assumes "pl_get_instance n s = (Some p, s1)" and "pl_use\<^sup>*\<^sup>* s1 s2"
  shows "pl_get_instance n s2 = (Some p, s2)"
proof -
  have "cached (fst s1) n = Some p"
    using get_instance_caches [of n s p] assms(1) by simp
  then have "cached (fst s2) n = Some p" by (rule use_keeps [OF assms(2)])
  then show ?thesis using get_instance_cached [of "fst s2" n p "snd s2"] by simp
qed

theorem plugin_single_instance_witness:
  "pl_get_instance ''a'' ([(''a'', \<lparr>factory = Some (\<lambda>w. (Some w, w + 1)), instance_ptr = Some 7\<rparr>)], 9::nat) =
     (Some 7, [(''a'', \<lparr>factory = Some (\<lambda>w. (Some w, w + 1)), instance_ptr = Some 7\<rparr>)], 9)"
proof -
  let ?pl = "\<lambda>i. [(''a'', \<lparr>factory = Some (\<lambda>w::nat. (Some w, w + 1)), instance_ptr = i\<rparr>)]"
  have g: "pl_get_instance ''a'' (?pl None, 7) = (Some 7, ?pl (Some 7), 8)"
    by (simp add: pl_get_instance_def)
  have u: "pl_use\<^sup>*\<^sup>* (?pl (Some 7), 8) (?pl (Some 7), 9)"
    by (rule r_into_rtranclp, rule use_world)
  show ?thesis by (rule plugin_single_instance [OF g u])
qed

end
