(* ===== verification/Hal_Device.thy ===== *)
theory Hal_Device
  imports Plugin_Registry
begin

text \<open>
  HAL devices and the acquisition of their interfaces (\<open>hal_interface/device.hpp\<close>,
  \<open>device.cpp\<close> and \<open>interface.hpp\<close>).

  The state \<open>hal\<close> holds what the file keeps in static storage: the provider registry (a plugin
  registry), the registry of published interfaces, the callbacks, the number of initialised
  devices and, by pointer, the device objects; \<open>world\<close> is everything else. The virtual
  functions of the devices and the callbacks are the record \<open>hal_env\<close>; they act on the world
  and do not call back into this file. What \<open>on_init\<close> publishes is the list of its
  \<open>publish_interface\<close> calls. The device of a plugin that has no instance yet is in
  \<open>devs\<close> in its constructed state. Counters of type \<open>size_t\<close> are natural numbers: one
  live handle is one reference, so they cannot wrap in memory.
\<close>

section \<open>State\<close>

type_synonym cb = nat

record spec =
  type_name :: string
  instance_name :: string

record device =
  d_name :: string
  interfaces :: "(string, ptr) smap"
  reference_count :: nat
  is_initialized :: bool
  pre_init_callback :: "cb option"
  post_deinit_callback :: "cb option"

record 'w hal =
  providers :: "'w plugins"
  published :: "(string, ptr) smap"
  devs :: "ptr \<Rightarrow> device"
  g_pre_init :: "cb option"
  g_post_deinit :: "cb option"
  init_count :: nat
  pending_pre :: "(string, cb) smap"
  pending_post :: "(string, cb) smap"
  world :: 'w

record 'w hal_env =
  v_probe :: "ptr \<Rightarrow> 'w \<Rightarrow> bool \<times> 'w"
  v_specs :: "ptr \<Rightarrow> 'w \<Rightarrow> spec list"
  v_deinit_on_zero :: "ptr \<Rightarrow> 'w \<Rightarrow> bool"
  v_on_init :: "ptr \<Rightarrow> 'w \<Rightarrow> (bool \<times> (string \<times> ptr option) list) \<times> 'w"
  v_on_deinit :: "ptr \<Rightarrow> 'w \<Rightarrow> 'w"
  run_cb :: "cb \<Rightarrow> 'w \<Rightarrow> bool \<times> 'w"

abbreviation upd_dev :: "ptr \<Rightarrow> (device \<Rightarrow> device) \<Rightarrow> 'w hal \<Rightarrow> 'w hal" where
  "upd_dev p f h \<equiv> h\<lparr>devs := (devs h)(p := f (devs h p))\<rparr>"

section \<open>One device\<close>

definition publish_interface :: "string \<Rightarrow> ptr option \<Rightarrow> device \<Rightarrow> bool \<times> device" where
  "publish_interface n i d =
     (if n = [] then (False, d)
      else case i of
        None \<Rightarrow> (False, d)
      | Some x \<Rightarrow> (True, d\<lparr>interfaces := smap_put n x (interfaces d)\<rparr>))"

fun publish_all :: "(string \<times> ptr option) list \<Rightarrow> device \<Rightarrow> device" where
  "publish_all [] d = d"
| "publish_all ((n, i) # ps) d = publish_all ps (snd (publish_interface n i d))"

definition is_interface_published :: "string \<Rightarrow> device \<Rightarrow> bool" where
  "is_interface_published n d \<longleftrightarrow> map_of (interfaces d) n \<noteq> None"

definition get_published_interface :: "string \<Rightarrow> device \<Rightarrow> ptr option" where
  "get_published_interface n d = map_of (interfaces d) n"

definition dev_register_pre_init_callback :: "cb option \<Rightarrow> device \<Rightarrow> bool \<times> device" where
  "dev_register_pre_init_callback c d =
     (case c of None \<Rightarrow> (False, d) | Some _ \<Rightarrow> (True, d\<lparr>pre_init_callback := c\<rparr>))"

definition dev_register_post_deinit_callback :: "cb option \<Rightarrow> device \<Rightarrow> bool \<times> device" where
  "dev_register_post_deinit_callback c d =
     (case c of None \<Rightarrow> (False, d) | Some _ \<Rightarrow> (True, d\<lparr>post_deinit_callback := c\<rparr>))"

text \<open>The registration loop of \<open>init\<close>: a name another device holds is skipped.\<close>

fun register_interfaces :: "(string, ptr) smap \<Rightarrow> (string, ptr) smap \<Rightarrow> (string, ptr) smap" where
  "register_interfaces [] reg = reg"
| "register_interfaces ((n, i) # is) reg = register_interfaces is (smap_emplace n i reg)"

text \<open>The removal loop of \<open>deinit\<close>: every name of the device.\<close>

fun unregister_interfaces :: "(string, ptr) smap \<Rightarrow> (string, ptr) smap \<Rightarrow> (string, ptr) smap" where
  "unregister_interfaces [] reg = reg"
| "unregister_interfaces ((n, i) # is) reg = unregister_interfaces is (smap_del n reg)"

definition dev_run_cb :: "'w hal_env \<Rightarrow> cb option \<Rightarrow> 'w hal \<Rightarrow> bool \<times> 'w hal" where
  "dev_run_cb env c h =
     (case c of None \<Rightarrow> (True, h) | Some k \<Rightarrow> (case run_cb env k (world h) of (ok, w) \<Rightarrow> (ok, h\<lparr>world := w\<rparr>)))"

definition dev_init :: "'w hal_env \<Rightarrow> ptr \<Rightarrow> 'w hal \<Rightarrow> bool \<times> 'w hal" where
  "dev_init env p h =
     (if is_initialized (devs h p) then (True, h)
      else case dev_run_cb env (pre_init_callback (devs h p)) h of
        (ok, h1) \<Rightarrow>
          if \<not> ok then (False, h1)
          else case v_on_init env p (world h1) of
            ((inited, pubs), w) \<Rightarrow>
              let h2 = upd_dev p (\<lambda>d. publish_all pubs (d\<lparr>interfaces := []\<rparr>)) (h1\<lparr>world := w\<rparr>) in
              if \<not> inited then (False, h2)
              else (True, upd_dev p (\<lambda>d. d\<lparr>is_initialized := True\<rparr>)
                     (h2\<lparr>published := register_interfaces (interfaces (devs h2 p)) (published h2)\<rparr>)))"

definition dev_deinit :: "'w hal_env \<Rightarrow> ptr \<Rightarrow> 'w hal \<Rightarrow> 'w hal" where
  "dev_deinit env p h =
     (if \<not> is_initialized (devs h p) then h
      else
        let h1 = h\<lparr>published := unregister_interfaces (interfaces (devs h p)) (published h)\<rparr>;
            h2 = h1\<lparr>world := v_on_deinit env p (world h1)\<rparr>;
            h3 = upd_dev p (\<lambda>d. d\<lparr>interfaces := [], is_initialized := False\<rparr>) h2
        in snd (dev_run_cb env (post_deinit_callback (devs h3 p)) h3))"

definition dev_acquire :: "'w hal_env \<Rightarrow> ptr \<Rightarrow> 'w hal \<Rightarrow> bool \<times> 'w hal" where
  "dev_acquire env p h =
     (if reference_count (devs h p) > 0
      then (True, upd_dev p (\<lambda>d. d\<lparr>reference_count := reference_count d + 1\<rparr>) h)
      else case dev_init env p h of
        (ok, h1) \<Rightarrow>
          if \<not> ok then (False, h1) else (True, upd_dev p (\<lambda>d. d\<lparr>reference_count := 1\<rparr>) h1))"

definition dev_release :: "'w hal_env \<Rightarrow> ptr \<Rightarrow> 'w hal \<Rightarrow> 'w hal" where
  "dev_release env p h =
     (if reference_count (devs h p) = 0 then h
      else
        let h1 = upd_dev p (\<lambda>d. d\<lparr>reference_count := reference_count d - 1\<rparr>) h in
        if reference_count (devs h1 p) = 0 \<and> v_deinit_on_zero env p (world h1)
        then dev_deinit env p h1 else h1)"

definition dev_force_deinit :: "'w hal_env \<Rightarrow> ptr \<Rightarrow> 'w hal \<Rightarrow> 'w hal" where
  "dev_force_deinit env p h = dev_deinit env p (upd_dev p (\<lambda>d. d\<lparr>reference_count := 0\<rparr>) h)"

text \<open>The destructor's cleanup of the base class.\<close>

definition dev_destroy :: "ptr \<Rightarrow> 'w hal \<Rightarrow> 'w hal" where
  "dev_destroy p h =
     (if \<not> is_initialized (devs h p) then h
      else upd_dev p (\<lambda>d. d\<lparr>interfaces := [], reference_count := 0, is_initialized := False\<rparr>)
             (h\<lparr>published := unregister_interfaces (interfaces (devs h p)) (published h)\<rparr>))"

section \<open>Callbacks\<close>

definition register_pre_init_callback :: "cb option \<Rightarrow> 'w hal \<Rightarrow> 'w hal" where
  "register_pre_init_callback c h = h\<lparr>g_pre_init := c\<rparr>"

definition register_post_deinit_callback :: "cb option \<Rightarrow> 'w hal \<Rightarrow> 'w hal" where
  "register_post_deinit_callback c h = h\<lparr>g_post_deinit := c\<rparr>"

definition enqueue_pending_pre_init_callback :: "string \<Rightarrow> cb option \<Rightarrow> 'w hal \<Rightarrow> 'w hal" where
  "enqueue_pending_pre_init_callback n c h =
     (case c of None \<Rightarrow> h | Some k \<Rightarrow> h\<lparr>pending_pre := smap_put n k (pending_pre h)\<rparr>)"

definition enqueue_pending_post_deinit_callback :: "string \<Rightarrow> cb option \<Rightarrow> 'w hal \<Rightarrow> 'w hal" where
  "enqueue_pending_post_deinit_callback n c h =
     (case c of None \<Rightarrow> h | Some k \<Rightarrow> h\<lparr>pending_post := smap_put n k (pending_post h)\<rparr>)"

definition apply_pending_callbacks_for :: "string \<Rightarrow> ptr \<Rightarrow> 'w hal \<Rightarrow> 'w hal" where
  "apply_pending_callbacks_for n p h =
     (let h1 = (case map_of (pending_pre h) n of
                  None \<Rightarrow> h
                | Some k \<Rightarrow> upd_dev p (\<lambda>d. snd (dev_register_pre_init_callback (Some k) d))
                    (h\<lparr>pending_pre := smap_del n (pending_pre h)\<rparr>))
      in case map_of (pending_post h1) n of
           None \<Rightarrow> h1
         | Some k \<Rightarrow> upd_dev p (\<lambda>d. snd (dev_register_post_deinit_callback (Some k) d))
             (h1\<lparr>pending_post := smap_del n (pending_post h1)\<rparr>))"

section \<open>Devices by plugin name\<close>

definition hal_get_instance :: "string \<Rightarrow> 'w hal \<Rightarrow> ptr option \<times> 'w hal" where
  "hal_get_instance n h =
     (case pl_get_instance n (providers h, world h) of
        (r, ps, w) \<Rightarrow> (r, h\<lparr>providers := ps, world := w\<rparr>))"

definition hal_get_all_instances :: "'w hal \<Rightarrow> (string \<times> ptr option) list \<times> 'w hal" where
  "hal_get_all_instances h =
     (case pl_get_all_instances (providers h, world h) of
        (rs, ps, w) \<Rightarrow> (rs, h\<lparr>providers := ps, world := w\<rparr>))"

definition is_device_available :: "'w hal_env \<Rightarrow> ptr \<Rightarrow> 'w hal \<Rightarrow> bool \<times> 'w hal" where
  "is_device_available env p h = (case v_probe env p (world h) of (ok, w) \<Rightarrow> (ok, h\<lparr>world := w\<rparr>))"

text \<open>The global callback before the first device is initialised.\<close>

definition first_init_gate :: "'w hal_env \<Rightarrow> bool \<Rightarrow> 'w hal \<Rightarrow> bool \<times> 'w hal" where
  "first_init_gate env was_initialized h =
     (if \<not> was_initialized \<and> init_count h = 0 then dev_run_cb env (g_pre_init h) h else (True, h))"

definition acquire_device :: "'w hal_env \<Rightarrow> string \<Rightarrow> 'w hal \<Rightarrow> ptr option \<times> 'w hal" where
  "acquire_device env n h =
     (case hal_get_instance n h of (r, h0) \<Rightarrow>
        (case r of
           None \<Rightarrow> (None, h0)
         | Some p \<Rightarrow>
             (case is_device_available env p (apply_pending_callbacks_for n p h0) of (available, h1) \<Rightarrow>
                if \<not> available then (None, h1)
                else
                  let was_initialized = is_initialized (devs h1 p) in
                  (case first_init_gate env was_initialized h1 of (ok, h2) \<Rightarrow>
                     if \<not> ok then (None, h2)
                     else
                       (case dev_acquire env p h2 of (acquired, h3) \<Rightarrow>
                          if \<not> acquired then (None, h3)
                          else (Some p, if \<not> was_initialized then h3\<lparr>init_count := init_count h3 + 1\<rparr> else h3))))))"

definition release_interface :: "'w hal_env \<Rightarrow> string \<Rightarrow> 'w hal \<Rightarrow> 'w hal" where
  "release_interface env n h =
     (if n = [] then h
      else case hal_get_instance n h of (r, h0) \<Rightarrow>
        (case r of
           None \<Rightarrow> h0
         | Some p \<Rightarrow>
             let h1 = dev_release env p h0 in
             if is_initialized (devs h0 p) \<and> \<not> is_initialized (devs h1 p) \<and> init_count h1 > 0
             then let h2 = h1\<lparr>init_count := init_count h1 - 1\<rparr> in
                  if init_count h2 = 0 then snd (dev_run_cb env (g_post_deinit h2) h2) else h2
             else h1))"

fun cleanup_devices :: "'w hal_env \<Rightarrow> (string \<times> ptr option) list \<Rightarrow> bool \<Rightarrow> 'w hal \<Rightarrow> bool \<times> 'w hal" where
  "cleanup_devices env [] had h = (had, h)"
| "cleanup_devices env ((_, None) # ds) had h = cleanup_devices env ds had h"
| "cleanup_devices env ((_, Some p) # ds) had h =
     (if \<not> is_initialized (devs h p) then cleanup_devices env ds had h
      else cleanup_devices env ds True (dev_force_deinit env p h))"

definition cleanup_all_devices :: "'w hal_env \<Rightarrow> 'w hal \<Rightarrow> 'w hal" where
  "cleanup_all_devices env h =
     (case hal_get_all_instances h of (ds, h0) \<Rightarrow>
        (case cleanup_devices env ds False h0 of (had, h1) \<Rightarrow>
           let h2 = h1\<lparr>init_count := 0\<rparr> in
           if had then snd (dev_run_cb env (g_post_deinit h2) h2) else h2))"

section \<open>Interfaces\<close>

record acquired =
  a_plugin :: string
  a_instance :: string
  a_interface :: ptr

definition try_acquire_interface ::
  "'w hal_env \<Rightarrow> string \<Rightarrow> spec \<Rightarrow> 'w hal \<Rightarrow> acquired option \<times> 'w hal" where
  "try_acquire_interface env n sp h =
     (case acquire_device env n h of (r, h1) \<Rightarrow>
        (case r of
           None \<Rightarrow> (None, h1)
         | Some p \<Rightarrow>
             (case get_published_interface (instance_name sp) (devs h1 p) of
                None \<Rightarrow> (None, release_interface env n h1)
              | Some i \<Rightarrow> (Some \<lparr>a_plugin = n, a_instance = instance_name sp, a_interface = i\<rparr>, h1))))"

text \<open>The specs of one device in turn, until one is acquired.\<close>

fun acquire_from_specs ::
  "'w hal_env \<Rightarrow> (spec \<Rightarrow> bool) \<Rightarrow> string \<Rightarrow> spec list \<Rightarrow> 'w hal \<Rightarrow> acquired option \<times> 'w hal" where
  "acquire_from_specs env want n [] h = (None, h)"
| "acquire_from_specs env want n (sp # sps) h =
     (if \<not> want sp then acquire_from_specs env want n sps h
      else case try_acquire_interface env n sp h of
        (Some a, h1) \<Rightarrow> (Some a, h1)
      | (None, h1) \<Rightarrow> acquire_from_specs env want n sps h1)"

fun acquire_from_devices ::
  "'w hal_env \<Rightarrow> (spec \<Rightarrow> bool) \<Rightarrow> (string \<times> ptr option) list \<Rightarrow> 'w hal \<Rightarrow> acquired option \<times> 'w hal" where
  "acquire_from_devices env want [] h = (None, h)"
| "acquire_from_devices env want ((_, None) # ds) h = acquire_from_devices env want ds h"
| "acquire_from_devices env want ((n, Some p) # ds) h =
     (case acquire_from_specs env want n (v_specs env p (world h)) h of
        (Some a, h1) \<Rightarrow> (Some a, h1)
      | (None, h1) \<Rightarrow> acquire_from_devices env want ds h1)"

definition acquire_interface :: "'w hal_env \<Rightarrow> string \<Rightarrow> string \<Rightarrow> 'w hal \<Rightarrow> acquired option \<times> 'w hal" where
  "acquire_interface env ty inst h =
     (case hal_get_all_instances h of (ds, h0) \<Rightarrow>
        acquire_from_devices env (\<lambda>sp. type_name sp = ty \<and> instance_name sp = inst) ds h0)"

definition acquire_first_interface :: "'w hal_env \<Rightarrow> string \<Rightarrow> 'w hal \<Rightarrow> acquired option \<times> 'w hal" where
  "acquire_first_interface env ty h =
     (case hal_get_all_instances h of (ds, h0) \<Rightarrow>
        acquire_from_devices env (\<lambda>sp. type_name sp = ty) ds h0)"

fun acquire_all_specs ::
  "'w hal_env \<Rightarrow> string \<Rightarrow> string \<Rightarrow> spec list \<Rightarrow> 'w hal \<Rightarrow> acquired list \<times> 'w hal" where
  "acquire_all_specs env ty n [] h = ([], h)"
| "acquire_all_specs env ty n (sp # sps) h =
     (if type_name sp \<noteq> ty then acquire_all_specs env ty n sps h
      else case try_acquire_interface env n sp h of (r, h1) \<Rightarrow>
        (case acquire_all_specs env ty n sps h1 of (rs, h2) \<Rightarrow>
           ((case r of None \<Rightarrow> rs | Some a \<Rightarrow> a # rs), h2)))"

fun acquire_all_devices ::
  "'w hal_env \<Rightarrow> string \<Rightarrow> (string \<times> ptr option) list \<Rightarrow> 'w hal \<Rightarrow> acquired list \<times> 'w hal" where
  "acquire_all_devices env ty [] h = ([], h)"
| "acquire_all_devices env ty ((_, None) # ds) h = acquire_all_devices env ty ds h"
| "acquire_all_devices env ty ((n, Some p) # ds) h =
     (case acquire_all_specs env ty n (v_specs env p (world h)) h of (as, h1) \<Rightarrow>
        (case acquire_all_devices env ty ds h1 of (bs, h2) \<Rightarrow> (as @ bs, h2)))"

definition acquire_interfaces :: "'w hal_env \<Rightarrow> string \<Rightarrow> 'w hal \<Rightarrow> acquired list \<times> 'w hal" where
  "acquire_interfaces env ty h =
     (case hal_get_all_instances h of (ds, h0) \<Rightarrow> acquire_all_devices env ty ds h0)"

text \<open>The typed handle: a dynamic cast that fails gives the reference back.\<close>

definition handle_from :: "'w hal_env \<Rightarrow> (ptr \<Rightarrow> bool) \<Rightarrow> acquired option \<times> 'w hal \<Rightarrow> acquired option \<times> 'w hal" where
  "handle_from env casts = (\<lambda>(r, h).
     case r of
       None \<Rightarrow> (None, h)
     | Some a \<Rightarrow> if casts (a_interface a) then (Some a, h) else (None, release_interface env (a_plugin a) h))"

fun handles_from :: "'w hal_env \<Rightarrow> (ptr \<Rightarrow> bool) \<Rightarrow> acquired list \<Rightarrow> 'w hal \<Rightarrow> acquired list \<times> 'w hal" where
  "handles_from env casts [] h = ([], h)"
| "handles_from env casts (a # as) h =
     (if casts (a_interface a)
      then (case handles_from env casts as h of (rs, h1) \<Rightarrow> (a # rs, h1))
      else handles_from env casts as (release_interface env (a_plugin a) h))"

section \<open>Queries\<close>

fun device_infos :: "'w hal_env \<Rightarrow> (string \<times> ptr option) list \<Rightarrow> 'w hal \<Rightarrow> (string \<times> spec list) list \<times> 'w hal" where
  "device_infos env [] h = ([], h)"
| "device_infos env ((_, None) # ds) h = device_infos env ds h"
| "device_infos env ((_, Some p) # ds) h =
     (case is_device_available env p h of (ok, h1) \<Rightarrow>
        if \<not> ok then device_infos env ds h1
        else
          let specs = v_specs env p (world h1) in
          (case device_infos env ds h1 of (infos, h2) \<Rightarrow>
             ((if specs = [] then infos else (d_name (devs h1 p), specs) # infos), h2)))"

definition get_device_infos :: "'w hal_env \<Rightarrow> 'w hal \<Rightarrow> (string \<times> spec list) list \<times> 'w hal" where
  "get_device_infos env h = (case hal_get_all_instances h of (ds, h0) \<Rightarrow> device_infos env ds h0)"

definition has_interface :: "'w hal_env \<Rightarrow> string \<Rightarrow> 'w hal \<Rightarrow> bool \<times> 'w hal" where
  "has_interface env ty h =
     (case get_device_infos env h of (infos, h1) \<Rightarrow>
        (\<exists>(_, specs) \<in> set infos. \<exists>sp \<in> set specs. type_name sp = ty, h1))"

section \<open>What each operation changes\<close>

definition inits :: "'w hal \<Rightarrow> ptr set" where
  "inits h = {p. is_initialized (devs h p)}"

definition refs :: "'w hal \<Rightarrow> ptr \<Rightarrow> nat" where
  "refs h p = reference_count (devs h p)"

named_theorems hal_frame

lemma set_ref [simp]:
  "inits (h\<lparr>devs := (devs h)(p := (devs h p)\<lparr>reference_count := x\<rparr>)\<rparr>) = inits h"
  "refs (h\<lparr>devs := (devs h)(p := (devs h p)\<lparr>reference_count := x\<rparr>)\<rparr>) = (refs h)(p := x)"
  by (auto simp: inits_def refs_def fun_eq_iff)

lemma refs_at: "reference_count (devs h p) = refs h p"
  by (simp add: refs_def)

lemma run_cb_frame [hal_frame, simp]:
  "devs (snd (dev_run_cb env c h)) = devs h" "providers (snd (dev_run_cb env c h)) = providers h"
  "init_count (snd (dev_run_cb env c h)) = init_count h" "published (snd (dev_run_cb env c h)) = published h"
  "inits (snd (dev_run_cb env c h)) = inits h" "refs (snd (dev_run_cb env c h)) = refs h"
  by (simp_all add: dev_run_cb_def inits_def refs_def fun_eq_iff split: option.splits prod.splits)

lemma publish_all_frame [simp]:
  "is_initialized (publish_all ps d) = is_initialized d" "reference_count (publish_all ps d) = reference_count d"
  by (induction ps d rule: publish_all.induct) (simp_all add: publish_interface_def split: option.splits)

lemma init_frame [hal_frame]:
  "inits (snd (dev_init env p h)) = (if fst (dev_init env p h) then insert p (inits h) else inits h)"
  "refs (snd (dev_init env p h)) = refs h"
  "providers (snd (dev_init env p h)) = providers h"
  "init_count (snd (dev_init env p h)) = init_count h"
  by (auto simp: dev_init_def inits_def refs_def fun_eq_iff Let_def split_def)

lemma deinit_frame [hal_frame]:
  "inits (dev_deinit env p h) = inits h - {p}"
  "refs (dev_deinit env p h) = refs h"
  "providers (dev_deinit env p h) = providers h"
  "init_count (dev_deinit env p h) = init_count h"
  by (auto simp: dev_deinit_def inits_def refs_def fun_eq_iff Let_def split_def)

lemma acquire_frame [hal_frame]:
  "fst (dev_acquire env p h) \<Longrightarrow> refs (snd (dev_acquire env p h)) = (refs h)(p := refs h p + 1)"
  "\<not> fst (dev_acquire env p h) \<Longrightarrow> refs (snd (dev_acquire env p h)) = refs h"
  "(refs h p > 0 \<Longrightarrow> p \<in> inits h) \<Longrightarrow>
     inits (snd (dev_acquire env p h)) = (if fst (dev_acquire env p h) then insert p (inits h) else inits h)"
  "providers (snd (dev_acquire env p h)) = providers h"
  "init_count (snd (dev_acquire env p h)) = init_count h"
proof -
  note init = init_frame [of env p h]
  show "fst (dev_acquire env p h) \<Longrightarrow> refs (snd (dev_acquire env p h)) = (refs h)(p := refs h p + 1)"
    using init by (cases "reference_count (devs h p) > 0")
      (simp_all add: dev_acquire_def split_def refs_at split: if_splits)
  show "\<not> fst (dev_acquire env p h) \<Longrightarrow> refs (snd (dev_acquire env p h)) = refs h"
    using init by (simp add: dev_acquire_def split_def split: if_splits)
  show "(refs h p > 0 \<Longrightarrow> p \<in> inits h) \<Longrightarrow>
     inits (snd (dev_acquire env p h)) = (if fst (dev_acquire env p h) then insert p (inits h) else inits h)"
    using init by (simp add: dev_acquire_def split_def refs_at insert_absorb)
  show "providers (snd (dev_acquire env p h)) = providers h" "init_count (snd (dev_acquire env p h)) = init_count h"
    using init by (simp_all add: dev_acquire_def split_def)
qed

lemma release_frame [hal_frame]:
  "refs (dev_release env p h) = (refs h)(p := refs h p - 1)"
  "inits (dev_release env p h) = inits h \<or> (inits (dev_release env p h) = inits h - {p} \<and> refs h p = 1)"
  "providers (dev_release env p h) = providers h"
  "init_count (dev_release env p h) = init_count h"
proof -
  have z: "refs h p = 0 \<Longrightarrow> (refs h)(p := 0) = refs h" by (simp add: fun_eq_iff)
  show "refs (dev_release env p h) = (refs h)(p := refs h p - 1)"
    using z by (auto simp: dev_release_def Let_def refs_at deinit_frame)
  show "inits (dev_release env p h) = inits h \<or> (inits (dev_release env p h) = inits h - {p} \<and> refs h p = 1)"
    by (auto simp: dev_release_def Let_def refs_at deinit_frame)
  show "providers (dev_release env p h) = providers h" "init_count (dev_release env p h) = init_count h"
    by (simp_all add: dev_release_def Let_def deinit_frame)
qed

lemma get_instance_frame [hal_frame]:
  "devs (snd (hal_get_instance n h)) = devs h" "init_count (snd (hal_get_instance n h)) = init_count h"
  "inits (snd (hal_get_instance n h)) = inits h" "refs (snd (hal_get_instance n h)) = refs h"
  "providers (snd (hal_get_instance n h)) = fst (snd (pl_get_instance n (providers h, world h)))"
  "fst (hal_get_instance n h) = fst (pl_get_instance n (providers h, world h))"
  by (simp_all add: hal_get_instance_def inits_def refs_def fun_eq_iff split_def)

lemma get_all_frame [hal_frame]:
  "devs (snd (hal_get_all_instances h)) = devs h" "init_count (snd (hal_get_all_instances h)) = init_count h"
  "inits (snd (hal_get_all_instances h)) = inits h" "refs (snd (hal_get_all_instances h)) = refs h"
  "providers (snd (hal_get_all_instances h)) = fst (snd (pl_get_all_instances (providers h, world h)))"
  "fst (hal_get_all_instances h) = fst (pl_get_all_instances (providers h, world h))"
  by (simp_all add: hal_get_all_instances_def inits_def refs_def fun_eq_iff split_def)

lemma pending_frame [hal_frame]:
  "inits (apply_pending_callbacks_for n p h) = inits h" "refs (apply_pending_callbacks_for n p h) = refs h"
  "providers (apply_pending_callbacks_for n p h) = providers h"
  "init_count (apply_pending_callbacks_for n p h) = init_count h"
  by (auto simp: apply_pending_callbacks_for_def Let_def inits_def refs_def fun_eq_iff
      dev_register_pre_init_callback_def dev_register_post_deinit_callback_def split: option.splits)

lemma available_frame [hal_frame]:
  "inits (snd (is_device_available env p h)) = inits h" "refs (snd (is_device_available env p h)) = refs h"
  "providers (snd (is_device_available env p h)) = providers h" "devs (snd (is_device_available env p h)) = devs h"
  "init_count (snd (is_device_available env p h)) = init_count h"
  by (simp_all add: is_device_available_def inits_def refs_def fun_eq_iff split_def)

lemma gate_frame [hal_frame]:
  "inits (snd (first_init_gate env b h)) = inits h" "refs (snd (first_init_gate env b h)) = refs h"
  "providers (snd (first_init_gate env b h)) = providers h"
  "init_count (snd (first_init_gate env b h)) = init_count h"
  by (simp_all add: first_init_gate_def)

section \<open>The invariant\<close>

definition inst :: "'w hal \<Rightarrow> string \<Rightarrow> ptr option" where
  "inst h n = cached (providers h) n"

definition hal_ok :: "'w hal \<Rightarrow> bool" where
  "hal_ok h \<longleftrightarrow> smap_ok (providers h) \<and> [] \<notin> fst ` set (providers h) \<and>
     finite (inits h) \<and> init_count h = card (inits h) \<and>
     (\<forall>p. refs h p > 0 \<longrightarrow> p \<in> inits h) \<and>
     (\<forall>p \<in> inits h. \<exists>n. inst h n = Some p)"

text \<open>\<open>gains h h' xs\<close>: the invariant survives, instances stay, and exactly the devices of the
  plugin names \<open>xs\<close> gained a reference each.\<close>

definition gains :: "'w hal \<Rightarrow> 'w hal \<Rightarrow> string list \<Rightarrow> bool" where
  "gains h h' xs \<longleftrightarrow> hal_ok h' \<and> (\<forall>n p. inst h n = Some p \<longrightarrow> inst h' n = Some p) \<and>
     (\<forall>n \<in> set xs. inst h' n \<noteq> None) \<and>
     (\<forall>p. refs h' p = refs h p + length (filter (\<lambda>n. inst h' n = Some p) xs))"

lemma gains_same:
  assumes "hal_ok h" and "inits h' = inits h" and "refs h' = refs h" and "providers h' = providers h"
    and "init_count h' = init_count h"
  shows "gains h h' []"
  using assms by (simp add: gains_def hal_ok_def inst_def)

lemma gainsD:
  assumes "gains h h' xs"
  shows "hal_ok h'" and "inst h n = Some p \<Longrightarrow> inst h' n = Some p" and "n \<in> set xs \<Longrightarrow> inst h' n \<noteq> None"
    and "refs h' p = refs h p + length (filter (\<lambda>n. inst h' n = Some p) xs)"
  using assms unfolding gains_def by blast+

lemma gains_trans:
  assumes "gains h h1 xs" and "gains h1 h2 ys"
  shows "gains h h2 (xs @ ys)"
proof -
  note g1 = gainsD [OF assms(1)] and g2 = gainsD [OF assms(2)]
  have same: "inst h2 n = inst h1 n" if "n \<in> set xs" for n
    using g1(3) [OF that] g2(2) [of n] by (cases "inst h1 n") simp_all
  have "filter (\<lambda>n. inst h2 n = Some p) xs = filter (\<lambda>n. inst h1 n = Some p) xs" for p
    by (rule filter_cong) (simp_all add: same)
  then show ?thesis
    unfolding gains_def using g1 g2 same by auto
qed

lemma gains_get_instance:
  assumes "hal_ok h"
  shows "gains h (snd (hal_get_instance n h)) []"
    and "fst (hal_get_instance n h) = Some p \<Longrightarrow> inst (snd (hal_get_instance n h)) n = Some p"
proof -
  let ?s = "(providers h, world h)"
  have ok: "smap_ok (fst ?s)" using assms by (simp add: hal_ok_def)
  show "gains h (snd (hal_get_instance n h)) []"
    using assms get_instance_ok [OF ok, of n] get_instance_keys [OF ok, of n]
      get_instance_keeps [of ?s _ _ n]
    by (simp add: gains_def hal_ok_def inst_def hal_frame) metis
  show "fst (hal_get_instance n h) = Some p \<Longrightarrow> inst (snd (hal_get_instance n h)) n = Some p"
    using get_instance_caches [of n ?s p] by (simp add: inst_def hal_frame)
qed

lemma gains_get_all:
  assumes "hal_ok h"
  shows "gains h (snd (hal_get_all_instances h)) []"
    and "(n, Some p) \<in> set (fst (hal_get_all_instances h)) \<Longrightarrow> inst (snd (hal_get_all_instances h)) n = Some p"
proof -
  let ?s = "(providers h, world h)"
  have ok: "smap_ok (fst ?s)" using assms by (simp add: hal_ok_def)
  show "gains h (snd (hal_get_all_instances h)) []"
    using assms get_all_ok [OF ok, of "map fst (providers h)"] get_all_keys [OF ok, of "map fst (providers h)"]
      get_all_keeps [of ?s _ _ "map fst (providers h)"]
    by (simp add: gains_def hal_ok_def inst_def hal_frame pl_get_all_instances_def) metis
  show "(n, Some p) \<in> set (fst (hal_get_all_instances h)) \<Longrightarrow> inst (snd (hal_get_all_instances h)) n = Some p"
    using get_all_cached [of n p "map fst (providers h)" ?s]
    by (simp add: inst_def hal_frame pl_get_all_instances_def)
qed

text \<open>The part of \<open>acquire_device\<close> after the lookup.\<close>

lemma gains_acquire_device:
  assumes "hal_ok h"
  shows "gains h (snd (acquire_device env n h)) (if fst (acquire_device env n h) = None then [] else [n])
    \<and> (\<forall>p. fst (acquire_device env n h) = Some p \<longrightarrow>
        inst (snd (acquire_device env n h)) n = Some p \<and> p \<in> inits (snd (acquire_device env n h)))"
proof -
  let ?h0 = "snd (hal_get_instance n h)"
  have g0: "gains h ?h0 []" by (rule gains_get_instance [OF assms])
  then have ok0: "hal_ok ?h0" by (simp add: gains_def)
  show ?thesis
  proof (cases "fst (hal_get_instance n h)")
    case None
    then show ?thesis using g0 by (simp add: acquire_device_def split_def)
  next
    case (Some p)
    have i0: "inst ?h0 n = Some p" using gains_get_instance(2) [OF assms Some] .
    define h1 where "h1 = snd (is_device_available env p (apply_pending_callbacks_for n p ?h0))"
    define h2 where "h2 = snd (first_init_gate env (is_initialized (devs h1 p)) h1)"
    define h3 where "h3 = snd (dev_acquire env p h2)"
    have f1: "inits h1 = inits ?h0" "refs h1 = refs ?h0" "providers h1 = providers ?h0" "init_count h1 = init_count ?h0"
      by (simp_all add: h1_def available_frame pending_frame)
    have f2: "inits h2 = inits ?h0" "refs h2 = refs ?h0" "providers h2 = providers ?h0" "init_count h2 = init_count ?h0"
      by (simp_all add: h2_def gate_frame f1)
    have ref: "refs h2 p > 0 \<Longrightarrow> p \<in> inits h2" using ok0 f2 by (simp add: hal_ok_def)
    have f3: "inits h3 = (if fst (dev_acquire env p h2) then insert p (inits ?h0) else inits ?h0)"
      "providers h3 = providers ?h0" "init_count h3 = init_count ?h0"
      using acquire_frame(3) [where p = p and h = h2 and env = env, OF ref] acquire_frame(4,5) [of env p h2] f2
      by (simp_all add: h3_def)
    have s1: "gains h h1 []" "gains h h2 []"
      using gains_trans [OF g0 gains_same [OF ok0, of h1]] gains_trans [OF g0 gains_same [OF ok0, of h2]] f1 f2 by simp_all
    have was: "is_initialized (devs h1 p) \<longleftrightarrow> p \<in> inits ?h0"
      using f1(1) by (auto simp: inits_def)
    define h4 where "h4 = (if \<not> is_initialized (devs h1 p) then h3\<lparr>init_count := init_count h3 + 1\<rparr> else h3)"
    have eq: "acquire_device env n h =
        (if \<not> fst (is_device_available env p (apply_pending_callbacks_for n p ?h0)) then (None, h1)
         else if \<not> fst (first_init_gate env (is_initialized (devs h1 p)) h1) then (None, h2)
         else if \<not> fst (dev_acquire env p h2) then (None, h3) else (Some p, h4))"
      by (simp only: acquire_device_def split_def Let_def Some option.case h1_def h2_def h3_def h4_def)
    show ?thesis
    proof (cases "fst (dev_acquire env p h2)")
      case False
      then have "gains ?h0 h3 []"
        using acquire_frame(2) [of env p h2] f2 f3 by (intro gains_same [OF ok0]) (simp_all add: h3_def)
      from gains_trans [OF g0 this] have "gains h h3 []" by simp
      with False s1 show ?thesis unfolding eq by simp
    next
      case True
      have f4: "inits h4 = insert p (inits ?h0)" "refs h4 = (refs ?h0)(p := refs ?h0 p + 1)"
        "providers h4 = providers ?h0"
        "init_count h4 = (if p \<in> inits ?h0 then init_count ?h0 else init_count ?h0 + 1)"
        using True f3 f2 acquire_frame(1) [OF True] was
        by (auto simp: h4_def h3_def inits_def refs_def fun_eq_iff)
      have "gains ?h0 h4 [n]"
        using ok0 f4 i0 by (auto simp: gains_def hal_ok_def inst_def insert_absorb)
      from gains_trans [OF g0 this] have "gains h h4 [n]" by simp
      moreover have "inst h4 n = Some p" using i0 f4 by (simp add: inst_def)
      ultimately show ?thesis using True s1 f4 unfolding eq by simp
    qed
  qed
qed

text \<open>Giving back one reference of the device of plugin \<open>n\<close>.\<close>

lemma release_effect:
  assumes "hal_ok h" and "inst h n = Some p" and "n \<noteq> []"
  shows "hal_ok (release_interface env n h)"
    and "inst (release_interface env n h) = inst h"
    and "refs (release_interface env n h) = (refs h)(p := refs h p - 1)"
proof -
  have g: "hal_get_instance n h = (Some p, h)"
    using get_instance_cached [of "providers h" n p "world h"] assms(2) by (simp add: hal_get_instance_def inst_def)
  let ?h1 = "dev_release env p h"
  define h2 where "h2 = release_interface env n h"
  have r: "refs h2 = refs ?h1" "inits h2 = inits ?h1" "providers h2 = providers ?h1"
    "init_count h2 = (if p \<in> inits h \<and> p \<notin> inits ?h1 \<and> init_count h > 0 then init_count h - 1 else init_count h)"
    using assms(3) release_frame(4) [of env p h]
    by (simp_all add: h2_def release_interface_def g Let_def inits_def refs_def fun_eq_iff)
  have fin: "finite (inits h)" "init_count h = card (inits h)" using assms(1) by (simp_all add: hal_ok_def)
  have cnt: "init_count h2 = card (inits h2)"
  proof (cases "inits ?h1 = inits h")
    case True
    then show ?thesis using fin r by auto
  next
    case False
    then have d: "inits ?h1 = inits h - {p}" and m: "p \<in> inits h" using release_frame(2) [of env p h] by auto
    then have "init_count h > 0" using fin by (simp add: card_gt_0_iff) blast
    then show ?thesis using d m fin r(2,4) by (simp add: card_Diff_singleton)
  qed
  have ref: "refs h2 = (refs h)(p := refs h p - 1)" using r(1) release_frame(1) by simp
  have i: "inst h2 = inst h" using r(3) release_frame(3) [of env p h] by (simp add: inst_def fun_eq_iff)
  have pos: "q \<in> inits h2" if "refs h2 q > 0" for q
  proof -
    have "refs h q > 0" using that ref by (simp split: if_splits)
    then have "q \<in> inits h" using assms(1) by (simp add: hal_ok_def)
    then show ?thesis using release_frame(2) [of env p h] r(2) ref that by (auto split: if_splits)
  qed
  have sub: "inits h2 \<subseteq> inits h" using release_frame(2) [of env p h] r(2) by auto
  have "hal_ok h2"
    unfolding hal_ok_def
  proof (intro conjI allI impI ballI)
    show "smap_ok (providers h2)" "[] \<notin> fst ` set (providers h2)"
      using assms(1) r(3) release_frame(3) [of env p h] by (simp_all add: hal_ok_def)
    show "finite (inits h2)" using fin sub finite_subset by blast
    show "\<exists>n. inst h2 n = Some q" if "q \<in> inits h2" for q
      using that sub assms(1) i by (auto simp: hal_ok_def)
  qed (use cnt pos in auto)
  with i ref show "hal_ok (release_interface env n h)" "inst (release_interface env n h) = inst h"
    "refs (release_interface env n h) = (refs h)(p := refs h p - 1)" by (simp_all add: h2_def)
qed

definition got :: "acquired option \<Rightarrow> string list" where
  "got r = (case r of None \<Rightarrow> [] | Some a \<Rightarrow> [a_plugin a])"

lemma got_simps [simp]: "got None = []" "got (Some a) = [a_plugin a]"
  by (simp_all add: got_def)

lemma inst_key: "hal_ok h \<Longrightarrow> inst h n = Some p \<Longrightarrow> n \<noteq> []"
  by (auto simp: hal_ok_def inst_def cached_def smap_key_iff split: option.splits)

lemma gains_release:
  assumes "gains h h1 (n # xs)"
  shows "gains h (release_interface env n h1) xs"
proof -
  note g = gainsD [OF assms]
  obtain p where p: "inst h1 n = Some p" using g(3) [of n] by auto
  note r = release_effect [OF g(1) p inst_key [OF g(1) p], of env]
  show ?thesis
    unfolding gains_def using g r p by auto
qed

lemma gains_handle:
  assumes "gains h (snd x) (got (fst x))"
  shows "gains h (snd (handle_from env casts x)) (got (fst (handle_from env casts x)))"
  using assms by (cases x) (auto simp: handle_from_def split: option.splits intro: gains_release)

lemma gains_try:
  assumes "hal_ok h"
  shows "gains h (snd (try_acquire_interface env n sp h)) (got (fst (try_acquire_interface env n sp h)))"
  using gains_acquire_device [OF assms, of env n]
  by (auto simp: try_acquire_interface_def split_def split: option.splits if_splits intro: gains_release)

lemma gains_nil_trans: "gains h h1 [] \<Longrightarrow> gains h1 h2 ys \<Longrightarrow> gains h h2 ys"
  using gains_trans [of h h1 "[]" h2 ys] by simp

lemma gains_specs:
  "hal_ok h \<Longrightarrow> gains h (snd (acquire_from_specs env want n sps h)) (got (fst (acquire_from_specs env want n sps h)))"
proof (induction sps arbitrary: h)
  case Nil
  then show ?case by (simp add: gains_same)
next
  case (Cons sp sps)
  obtain r h1 where t: "try_acquire_interface env n sp h = (r, h1)" by (cases "try_acquire_interface env n sp h")
  have g: "gains h h1 (got r)" using gains_try [OF Cons.prems, of env n sp] by (simp add: t)
  show ?case
  proof (cases "want sp")
    case False
    then show ?thesis using Cons by simp
  next
    case True
    show ?thesis
    proof (cases r)
      case None
      then show ?thesis
        using g t True Cons.IH [of h1] gainsD(1) [OF g] by (auto intro: gains_nil_trans)
    next
      case (Some a)
      then show ?thesis using g True t by simp
    qed
  qed
qed

lemma gains_devices:
  "hal_ok h \<Longrightarrow> gains h (snd (acquire_from_devices env want ds h)) (got (fst (acquire_from_devices env want ds h)))"
proof (induction ds arbitrary: h)
  case Nil
  then show ?case by (simp add: gains_same)
next
  case (Cons d ds)
  obtain n r where d: "d = (n, r)" by (cases d)
  show ?case
  proof (cases r)
    case None
    then show ?thesis using Cons d by simp
  next
    case (Some p)
    obtain x h1 where t: "acquire_from_specs env want n (v_specs env p (world h)) h = (x, h1)"
      by (cases "acquire_from_specs env want n (v_specs env p (world h)) h")
    have g: "gains h h1 (got x)" using gains_specs [OF Cons.prems, of env want n "v_specs env p (world h)"] by (simp add: t)
    show ?thesis
    proof (cases x)
      case None
      then show ?thesis
        using g t d Some Cons.IH [of h1] gainsD(1) [OF g] by (auto intro: gains_nil_trans)
    next
      case (Some a)
      then show ?thesis using g t d \<open>r = Some p\<close> by simp
    qed
  qed
qed

lemma gains_all_specs:
  "hal_ok h \<Longrightarrow> gains h (snd (acquire_all_specs env ty n sps h)) (map a_plugin (fst (acquire_all_specs env ty n sps h)))"
proof (induction sps arbitrary: h)
  case Nil
  then show ?case by (simp add: gains_same)
next
  case (Cons sp sps)
  obtain r h1 where t: "try_acquire_interface env n sp h = (r, h1)" by (cases "try_acquire_interface env n sp h")
  have g: "gains h h1 (got r)" using gains_try [OF Cons.prems, of env n sp] by (simp add: t)
  note ih = Cons.IH [OF gainsD(1) [OF g]]
  show ?case
    using Cons.IH [OF Cons.prems] gains_trans [OF g ih]
    by (cases r) (simp_all add: t split_def)
qed

lemma gains_all_devices:
  "hal_ok h \<Longrightarrow> gains h (snd (acquire_all_devices env ty ds h)) (map a_plugin (fst (acquire_all_devices env ty ds h)))"
proof (induction ds arbitrary: h)
  case Nil
  then show ?case by (simp add: gains_same)
next
  case (Cons d ds)
  obtain n r where d: "d = (n, r)" by (cases d)
  show ?case
  proof (cases r)
    case None
    then show ?thesis using Cons d by simp
  next
    case (Some p)
    note g = gains_all_specs [OF Cons.prems, of env ty n "v_specs env p (world h)"]
    show ?thesis
      using gains_trans [OF g Cons.IH [OF gainsD(1) [OF g]]] d Some by (simp add: split_def)
  qed
qed

lemma gains_handles:
  "gains h h1 (map a_plugin as @ xs) \<Longrightarrow>
   gains h (snd (handles_from env casts as h1)) (map a_plugin (fst (handles_from env casts as h1)) @ xs)"
proof (induction as arbitrary: h1 xs)
  case Nil
  then show ?case by simp
next
  case (Cons a as)
  have swap: "gains h h2 (a_plugin a # ys @ zs) \<longleftrightarrow> gains h h2 (ys @ a_plugin a # zs)" for h2 ys zs
    by (auto simp: gains_def)
  show ?case
  proof (cases "casts (a_interface a)")
    case True
    have "gains h h1 (map a_plugin as @ a_plugin a # xs)" using Cons.prems by (simp add: swap)
    from Cons.IH [OF this] True show ?thesis by (simp add: split_def swap)
  next
    case False
    have "gains h (release_interface env (a_plugin a) h1) (map a_plugin as @ xs)"
      using Cons.prems by (intro gains_release) simp
    from Cons.IH [OF this] False show ?thesis by simp
  qed
qed

lemma gains_infos:
  "hal_ok h \<Longrightarrow> gains h (snd (device_infos env ds h)) []"
proof (induction ds arbitrary: h)
  case Nil
  then show ?case by (simp add: gains_same)
next
  case (Cons d ds)
  obtain n r where d: "d = (n, r)" by (cases d)
  show ?case
  proof (cases r)
    case None
    then show ?thesis using Cons d by simp
  next
    case (Some p)
    have g: "gains h (snd (is_device_available env p h)) []"
      by (rule gains_same [OF Cons.prems]) (simp_all add: available_frame)
    show ?thesis
      using gains_nil_trans [OF g Cons.IH [OF gainsD(1) [OF g]]] d Some by (simp add: split_def Let_def)
  qed
qed

section \<open>Handles\<close>

text \<open>
  Clients: the typed acquisitions, the release of a live handle (by \<open>reset\<close> or the handle's
  destructor), the queries, the registration of callbacks and of provider plugins. A
  configuration is the state and the plugin names of the live handles.
\<close>

inductive hal_step :: "'w hal_env \<Rightarrow> 'w hal \<times> string list \<Rightarrow> 'w hal \<times> string list \<Rightarrow> bool" for env where
  hs_acquire: "handle_from env casts (acquire_interface env ty i h) = (r, h') \<Longrightarrow>
    hal_step env (h, hs) (h', got r @ hs)"
| hs_acquire_first: "handle_from env casts (acquire_first_interface env ty h) = (r, h') \<Longrightarrow>
    hal_step env (h, hs) (h', got r @ hs)"
| hs_acquire_all: "acquire_interfaces env ty h = (as, h1) \<Longrightarrow> handles_from env casts as h1 = (rs, h') \<Longrightarrow>
    hal_step env (h, hs) (h', map a_plugin rs @ hs)"
| hs_release: "hal_step env (h, xs @ n # ys) (release_interface env n h, xs @ ys)"
| hs_has: "has_interface env ty h = (r, h') \<Longrightarrow> hal_step env (h, hs) (h', hs)"
| hs_pre: "hal_step env (h, hs) (register_pre_init_callback c h, hs)"
| hs_post: "hal_step env (h, hs) (register_post_deinit_callback c h, hs)"
| hs_pending_pre: "hal_step env (h, hs) (enqueue_pending_pre_init_callback n c h, hs)"
| hs_pending_post: "hal_step env (h, hs) (enqueue_pending_post_deinit_callback n c h, hs)"
| hs_provide: "n \<noteq> [] \<Longrightarrow> hal_step env (h, hs) (h\<lparr>providers := pl_register n f (providers h)\<rparr>, hs)"

definition live_refs :: "'w hal \<Rightarrow> string list \<Rightarrow> ptr \<Rightarrow> nat" where
  "live_refs h hs p = length (filter (\<lambda>n. inst h n = Some p) hs)"

definition handles_ok :: "'w hal \<times> string list \<Rightarrow> bool" where
  "handles_ok = (\<lambda>(h, hs). hal_ok h \<and> (\<forall>n \<in> set hs. inst h n \<noteq> None) \<and> (\<forall>p. refs h p = live_refs h hs p))"

lemma handles_gain:
  assumes "handles_ok (h, hs)" and "gains h h' xs"
  shows "handles_ok (h', xs @ hs)"
proof -
  note g = gainsD [OF assms(2)]
  have same: "inst h' n = inst h n" if "n \<in> set hs" for n
    using assms(1) g(2) that by (cases "inst h n") (auto simp: handles_ok_def)
  have "live_refs h' hs p = live_refs h hs p" for p
    unfolding live_refs_def by (rule arg_cong [where f = length], rule filter_cong) (simp_all add: same)
  then show ?thesis
    using assms(1) g same by (auto simp: handles_ok_def live_refs_def)
qed

lemma handles_release:
  assumes "handles_ok (h, xs @ n # ys)"
  shows "handles_ok (release_interface env n h, xs @ ys)"
proof -
  obtain p where p: "inst h n = Some p" and ok: "hal_ok h" using assms by (auto simp: handles_ok_def)
  note r = release_effect [OF ok p inst_key [OF ok p], of env]
  show ?thesis using assms r p by (auto simp: handles_ok_def live_refs_def)
qed

lemma handles_same:
  assumes "handles_ok (h, hs)" and "devs h' = devs h" and "providers h' = providers h" and "init_count h' = init_count h"
  shows "handles_ok (h', hs)"
proof -
  have "inits h' = inits h" "refs h' = refs h" "inst h' = inst h"
    using assms by (simp_all add: inits_def refs_def inst_def fun_eq_iff)
  then show ?thesis using assms by (simp add: handles_ok_def hal_ok_def live_refs_def)
qed

lemma gains_acquire:
  assumes "hal_ok h"
  shows "gains h (snd (acquire_interface env ty i h)) (got (fst (acquire_interface env ty i h)))"
    and "gains h (snd (acquire_first_interface env ty h)) (got (fst (acquire_first_interface env ty h)))"
    and "gains h (snd (acquire_interfaces env ty h)) (map a_plugin (fst (acquire_interfaces env ty h)))"
    and "gains h (snd (has_interface env ty h)) []"
proof -
  note g = gains_get_all(1) [OF assms]
  note ok = gainsD(1) [OF g]
  show "gains h (snd (acquire_interface env ty i h)) (got (fst (acquire_interface env ty i h)))"
    using gains_nil_trans [OF g gains_devices [OF ok]] by (simp add: acquire_interface_def split_def)
  show "gains h (snd (acquire_first_interface env ty h)) (got (fst (acquire_first_interface env ty h)))"
    using gains_nil_trans [OF g gains_devices [OF ok]] by (simp add: acquire_first_interface_def split_def)
  show "gains h (snd (acquire_interfaces env ty h)) (map a_plugin (fst (acquire_interfaces env ty h)))"
    using gains_nil_trans [OF g gains_all_devices [OF ok]] by (simp add: acquire_interfaces_def split_def)
  show "gains h (snd (has_interface env ty h)) []"
    using gains_nil_trans [OF g gains_infos [OF ok]] by (simp add: has_interface_def get_device_infos_def split_def)
qed

lemma handles_provide:
  assumes "handles_ok (h, hs)" and "n \<noteq> []"
  shows "handles_ok (h\<lparr>providers := pl_register n f (providers h)\<rparr>, hs)"
proof -
  let ?h = "h\<lparr>providers := pl_register n f (providers h)\<rparr>"
  have i: "inits ?h = inits h" "refs ?h = refs h" by (simp_all add: inits_def refs_def fun_eq_iff)
  have c: "inst ?h m = inst h m" for m
    by (auto simp: inst_def cached_def pl_register_def smap_emplace_def split: option.splits)
  have k: "smap_ok (providers h) \<Longrightarrow> [] \<notin> fst ` set (providers h) \<Longrightarrow>
      smap_ok (providers ?h) \<and> [] \<notin> fst ` set (providers ?h)"
    using assms(2) by (auto simp: pl_register_def smap_emplace_def split: option.splits)
  show ?thesis
    using assms(1) k unfolding handles_ok_def hal_ok_def live_refs_def prod.case c i by simp
qed

lemma hal_step_ok: "hal_step env c c' \<Longrightarrow> handles_ok c \<Longrightarrow> handles_ok c'"
proof (induction rule: hal_step.induct)
  case (hs_acquire casts ty i h r h' hs)
  have ok: "hal_ok h" using hs_acquire by (simp add: handles_ok_def)
  show ?case
    using handles_gain [OF hs_acquire(2) gains_handle [OF gains_acquire(1) [OF ok, where env = env and ty = ty and i = i], where env = env and casts = casts]] hs_acquire(1)
    by simp
next
  case (hs_acquire_first casts ty h r h' hs)
  have ok: "hal_ok h" using hs_acquire_first by (simp add: handles_ok_def)
  show ?case
    using handles_gain [OF hs_acquire_first(2) gains_handle [OF gains_acquire(2) [OF ok, where env = env and ty = ty], where env = env and casts = casts]]
      hs_acquire_first(1) by simp
next
  case (hs_acquire_all ty h as h1 casts rs h' hs)
  have ok: "hal_ok h" using hs_acquire_all by (simp add: handles_ok_def)
  have "gains h h1 (map a_plugin as @ [])" using gains_acquire(3) [OF ok, where env = env and ty = ty] hs_acquire_all(1) by simp
  from gains_handles [OF this, where env = env and casts = casts] hs_acquire_all(2) have "gains h h' (map a_plugin rs)" by simp
  then show ?case using handles_gain [OF hs_acquire_all(3)] by simp
next
  case (hs_release h xs n ys)
  then show ?case by (rule handles_release)
next
  case (hs_has ty h r h' hs)
  have ok: "hal_ok h" using hs_has by (simp add: handles_ok_def)
  show ?case using handles_gain [OF hs_has(2) gains_acquire(4) [OF ok, where env = env and ty = ty]] hs_has(1) by simp
next
  case (hs_pre h hs c)
  then show ?case by (rule handles_same) (simp_all add: register_pre_init_callback_def)
next
  case (hs_post h hs c)
  then show ?case by (rule handles_same) (simp_all add: register_post_deinit_callback_def)
next
  case (hs_pending_pre h hs n c)
  then show ?case
    by (rule handles_same) (simp_all add: enqueue_pending_pre_init_callback_def split: option.splits)
next
  case (hs_pending_post h hs n c)
  then show ?case
    by (rule handles_same) (simp_all add: enqueue_pending_post_deinit_callback_def split: option.splits)
next
  case (hs_provide n h hs f)
  then show ?case by (intro handles_provide)
qed

text \<open>The state before anything is registered: no device is initialised or referenced.\<close>

definition hal_fresh :: "'w hal \<Rightarrow> bool" where
  "hal_fresh h \<longleftrightarrow> providers h = [] \<and> published h = [] \<and> init_count h = 0 \<and>
     (\<forall>p. \<not> is_initialized (devs h p) \<and> reference_count (devs h p) = 0)"

lemma hal_reachable_ok:
  assumes "hal_fresh h0" and "(hal_step env)\<^sup>*\<^sup>* (h0, []) c"
  shows "handles_ok c"
proof -
  have "handles_ok (h0, [])"
    using assms(1) by (simp add: hal_fresh_def handles_ok_def hal_ok_def inits_def refs_def live_refs_def)
  with assms(2) show ?thesis
    by (induction rule: rtranclp_induct) (auto dest: hal_step_ok)
qed

text \<open>C14: references balance. After any interleaving of acquisitions (failed ones included),
  releases, queries and registrations, a device's reference count is exactly the number of live
  handles on it; every device with a live handle is initialised; and the global count of
  initialised devices, which decides when the global callbacks run, is exact.\<close>

theorem hal_references_balance:
  assumes "hal_fresh h0" and "(hal_step env)\<^sup>*\<^sup>* (h0, []) (h, hs)"
  shows "(\<forall>p. reference_count (devs h p) = length (filter (\<lambda>n. cached (providers h) n = Some p) hs)) \<and>
    (\<forall>p. reference_count (devs h p) > 0 \<longrightarrow> is_initialized (devs h p)) \<and>
    finite {p. is_initialized (devs h p)} \<and> init_count h = card {p. is_initialized (devs h p)}"
proof -
  have "handles_ok (h, hs)" by (rule hal_reachable_ok [OF assms(1,2)])
  then show ?thesis
    by (simp add: handles_ok_def hal_ok_def inits_def refs_def live_refs_def inst_def)
qed

text \<open>Two devices that both publish an interface named \<open>X\<close>.\<close>

definition demo_hal_env :: "nat hal_env" where
  "demo_hal_env = \<lparr>v_probe = (\<lambda>_ w. (True, w)),
     v_specs = (\<lambda>_ _. [\<lparr>type_name = ''T'', instance_name = ''X''\<rparr>]),
     v_deinit_on_zero = (\<lambda>_ _. True),
     v_on_init = (\<lambda>p w. ((True, [(''X'', Some (p + 100))]), w)),
     v_on_deinit = (\<lambda>_ w. w), run_cb = (\<lambda>_ w. (True, w))\<rparr>"

definition demo_device :: "string \<Rightarrow> device" where
  "demo_device n = \<lparr>d_name = n, interfaces = [], reference_count = 0, is_initialized = False,
     pre_init_callback = None, post_deinit_callback = None\<rparr>"

definition demo_hal0 :: "nat hal" where
  "demo_hal0 = \<lparr>providers = [], published = [], devs = (\<lambda>_. demo_device ''d''), g_pre_init = None,
     g_post_deinit = None, init_count = 0, pending_pre = [], pending_post = [], world = 0\<rparr>"

definition demo_hal :: "nat hal" where
  "demo_hal = demo_hal0\<lparr>providers := pl_register ''b'' (Some (\<lambda>w. (Some 2, w)))
     (pl_register ''a'' (Some (\<lambda>w. (Some 1, w))) (providers demo_hal0))\<rparr>"

lemmas hal_eval =
  demo_hal_env_def demo_device_def demo_hal0_def demo_hal_def pl_register_def smap_emplace_def acquire_device_def
  hal_get_instance_def pl_get_instance_def is_device_available_def apply_pending_callbacks_for_def
  first_init_gate_def dev_run_cb_def dev_acquire_def dev_init_def publish_interface_def Let_def
  release_interface_def dev_release_def dev_deinit_def smap_del_def hal_get_all_instances_def
  pl_get_all_instances_def acquire_first_interface_def try_acquire_interface_def get_published_interface_def
  handle_from_def

lemma demo_hal_fresh: "hal_fresh demo_hal0"
  by (simp add: hal_fresh_def demo_hal0_def demo_device_def)

lemma demo_hal_reachable: "(hal_step demo_hal_env)\<^sup>*\<^sup>* (demo_hal0, []) (demo_hal, [])"
proof -
  have "(hal_step demo_hal_env)\<^sup>*\<^sup>* (demo_hal0, [])
      (demo_hal0\<lparr>providers := pl_register ''a'' (Some (\<lambda>w. (Some 1, w))) (providers demo_hal0)\<rparr>, [])"
    by (rule r_into_rtranclp, rule hs_provide) simp
  also have "hal_step demo_hal_env \<dots> (demo_hal, [])"
    using hs_provide [of "''b''" demo_hal_env
        "demo_hal0\<lparr>providers := pl_register ''a'' (Some (\<lambda>w. (Some 1, w))) (providers demo_hal0)\<rparr>" "[]"
        "Some (\<lambda>w. (Some 2, w))"]
    by (simp add: demo_hal_def)
  finally show ?thesis .
qed

theorem hal_references_balance_witness:
  "let r = handle_from demo_hal_env (\<lambda>_. True) (acquire_first_interface demo_hal_env ''T'' demo_hal) in
   fst r \<noteq> None \<and> (\<forall>p. reference_count (devs (snd r) p) = (if p = 1 then 1 else 0)) \<and> init_count (snd r) = 1"
proof -
  let ?r = "handle_from demo_hal_env (\<lambda>_. True) (acquire_first_interface demo_hal_env ''T'' demo_hal)"
  have "(hal_step demo_hal_env)\<^sup>*\<^sup>* (demo_hal0, []) (demo_hal, [])"
    by (rule demo_hal_reachable)
  also have "hal_step demo_hal_env \<dots> (snd ?r, got (fst ?r) @ [])"
    by (rule hs_acquire_first [of _ "\<lambda>_. True" "''T''"]) simp
  finally have reach: "(hal_step demo_hal_env)\<^sup>*\<^sup>* (demo_hal0, []) (snd ?r, got (fst ?r) @ [])" .
  have e: "fst ?r = Some \<lparr>a_plugin = ''a'', a_instance = ''X'', a_interface = 101\<rparr>"
    "cached (providers (snd ?r)) ''a'' = Some 1" "init_count (snd ?r) = 1"
    by (simp_all add: hal_eval cached_def)
  have "reference_count (devs (snd ?r) p) = (if p = 1 then 1 else 0)" for p
    using conjunct1 [OF hal_references_balance [OF demo_hal_fresh reach], THEN spec, of p]
    unfolding e(1) by (simp add: e(2))
  then show ?thesis
    unfolding Let_def e(1,3) by simp
qed

text \<open>publishing the same interface name on two devices loses the first one's registration:
  the second device's registration is skipped, but its deinitialisation removes the name all the
  same, so the published registry forgets an interface whose device is still initialised.\<close>

theorem published_interface_lost:
  "let h1 = snd (acquire_device demo_hal_env ''a'' demo_hal);
       h2 = snd (acquire_device demo_hal_env ''b'' h1);
       h3 = release_interface demo_hal_env ''b'' h2
   in map_of (published h1) ''X'' = Some 101 \<and> map_of (published h2) ''X'' = Some 101 \<and>
      is_initialized (devs h3 1) \<and> map_of (interfaces (devs h3 1)) ''X'' = Some 101 \<and>
      map_of (published h3) ''X'' = None"
  by (simp add: hal_eval)

lemma try_sound:
  assumes "hal_ok h" and "try_acquire_interface env n sp h = (Some a, h')"
  shows "a_plugin a = n \<and> a_instance a = instance_name sp \<and>
    (\<exists>p. inst h' n = Some p \<and> p \<in> inits h' \<and> map_of (interfaces (devs h' p)) (instance_name sp) = Some (a_interface a))"
  using assms(2) gains_acquire_device [OF assms(1), of env n]
  by (auto simp: try_acquire_interface_def get_published_interface_def split_def prod_eq_iff split: option.splits)

definition delivered :: "(spec \<Rightarrow> bool) \<Rightarrow> acquired \<Rightarrow> 'w hal \<Rightarrow> bool" where
  "delivered want a h \<longleftrightarrow> (\<exists>sp p. want sp \<and> a_instance a = instance_name sp \<and> inst h (a_plugin a) = Some p \<and>
     p \<in> inits h \<and> map_of (interfaces (devs h p)) (instance_name sp) = Some (a_interface a))"

lemma specs_sound:
  "hal_ok h \<Longrightarrow> acquire_from_specs env want n sps h = (Some a, h') \<Longrightarrow> delivered want a h'"
proof (induction sps arbitrary: h)
  case (Cons sp sps)
  show ?case
  proof (cases "want sp")
    case False
    then show ?thesis using Cons by simp
  next
    case True
    obtain r h1 where t: "try_acquire_interface env n sp h = (r, h1)" by (cases "try_acquire_interface env n sp h")
    have g: "gains h h1 (got r)" using gains_try [OF Cons.prems(1), of env n sp] by (simp add: t)
    show ?thesis
    proof (cases r)
      case None
      then show ?thesis using Cons.IH [OF gainsD(1) [OF g]] Cons.prems(2) t True by simp
    next
      case (Some b)
      then have "b = a" "h1 = h'" using Cons.prems(2) True t by simp_all
      then show ?thesis
        using try_sound [OF Cons.prems(1), of env n sp a h'] True t Some by (auto simp: delivered_def)
    qed
  qed
qed simp

lemma devices_sound:
  "hal_ok h \<Longrightarrow> acquire_from_devices env want ds h = (Some a, h') \<Longrightarrow> delivered want a h'"
proof (induction ds arbitrary: h)
  case (Cons d ds)
  obtain n r where d: "d = (n, r)" by (cases d)
  show ?case
  proof (cases r)
    case None
    then show ?thesis using Cons d by simp
  next
    case (Some p)
    obtain x h1 where t: "acquire_from_specs env want n (v_specs env p (world h)) h = (x, h1)"
      by (cases "acquire_from_specs env want n (v_specs env p (world h)) h")
    have g: "gains h h1 (got x)" using gains_specs [OF Cons.prems(1), of env want n "v_specs env p (world h)"] by (simp add: t)
    show ?thesis
    proof (cases x)
      case None
      then show ?thesis using Cons.IH [OF gainsD(1) [OF g]] Cons.prems(2) t d Some by simp
    next
      case (Some b)
      then show ?thesis using specs_sound [OF Cons.prems(1)] Cons.prems(2) t d \<open>r = Some p\<close> by auto
    qed
  qed
qed simp

text \<open>an acquired interface is live: it has the requested instance name, it is the object that
  its device publishes under that name, and the device is initialised and referenced.\<close>

theorem acquired_interface_live:
  assumes "hal_fresh h0" and "(hal_step env)\<^sup>*\<^sup>* (h0, []) (h, hs)"
    and "acquire_interface env ty i h = (Some a, h')"
  shows "\<exists>p. a_instance a = i \<and> cached (providers h') (a_plugin a) = Some p \<and> is_initialized (devs h' p) \<and>
    reference_count (devs h' p) > 0 \<and> map_of (interfaces (devs h' p)) i = Some (a_interface a)"
proof -
  have "handles_ok (h, hs)" by (rule hal_reachable_ok [OF assms(1,2)])
  then have ok: "hal_ok h" by (simp add: handles_ok_def)
  have del: "delivered (\<lambda>sp. type_name sp = ty \<and> instance_name sp = i) a h'"
    using devices_sound [OF gainsD(1) [OF gains_get_all(1) [OF ok]]] assms(3)
    by (auto simp: acquire_interface_def split_def)
  have "gains h h' [a_plugin a]"
    using gains_acquire(1) [OF ok, where env = env and ty = ty and i = i] assms(3) by simp
  note g = gainsD(4) [OF this]
  obtain sp :: spec and p where d: "instance_name sp = i" "a_instance a = instance_name sp" "inst h' (a_plugin a) = Some p"
    "p \<in> inits h'" "map_of (interfaces (devs h' p)) (instance_name sp) = Some (a_interface a)"
    using del by (auto simp: delivered_def)
  have "refs h' p > 0" using g [of p] d(3) by simp
  with d show ?thesis by (auto simp: inits_def inst_def refs_def)
qed

theorem acquired_interface_live_witness:
  "\<exists>p. cached (providers (snd (acquire_interface demo_hal_env ''T'' ''X'' demo_hal))) ''a'' = Some p \<and>
     is_initialized (devs (snd (acquire_interface demo_hal_env ''T'' ''X'' demo_hal)) p)"
proof -
  let ?r = "acquire_interface demo_hal_env ''T'' ''X'' demo_hal"
  have e: "fst ?r = Some \<lparr>a_plugin = ''a'', a_instance = ''X'', a_interface = 101\<rparr>"
    by (simp add: hal_eval acquire_interface_def)
  then have "?r = (Some \<lparr>a_plugin = ''a'', a_instance = ''X'', a_interface = 101\<rparr>, snd ?r)"
    by (simp add: prod_eq_iff)
  from acquired_interface_live [OF demo_hal_fresh demo_hal_reachable this] show ?thesis by auto
qed

end
