(* ===== verification/Service_Order.thy ===== *)
theory Service_Order
  imports Prelude
begin

text \<open>
  The initialisation order of the registered services: \<open>ServiceManager::topological_sort\<close>
  (\<open>service_manager/src/service/manager.cpp\<close>). The services are given by name with the
  dependencies of their attributes; a dependency may be listed twice and may name no service.
  \<open>in_degree\<close> and \<open>adj_list\<close> are maps with the default entry that \<open>operator[]\<close>
  makes; the queue is popped and pushed at its back.
\<close>

type_synonym dep_map = "(string, string list) smap"
type_synonym degrees = "(string, int) smap"

section \<open>The algorithm\<close>

definition deg_of :: "degrees \<Rightarrow> string \<Rightarrow> int" where
  "deg_of deg n = (case map_of deg n of Some d \<Rightarrow> d | None \<Rightarrow> 0)"

definition adj_of :: "dep_map \<Rightarrow> string \<Rightarrow> string list" where
  "adj_of adj n = (case map_of adj n of Some ns \<Rightarrow> ns | None \<Rightarrow> [])"

fun empty_graph :: "dep_map \<Rightarrow> degrees \<times> dep_map \<Rightarrow> degrees \<times> dep_map" where
  "empty_graph [] g = g"
| "empty_graph ((n, _) # svcs) (deg, adj) = empty_graph svcs (smap_put n 0 deg, smap_put n [] adj)"

fun link_deps :: "dep_map \<Rightarrow> string \<Rightarrow> string list \<Rightarrow> degrees \<times> dep_map \<Rightarrow> degrees \<times> dep_map" where
  "link_deps svcs n [] g = g"
| "link_deps svcs n (d # ds) (deg, adj) =
     (if map_of svcs d \<noteq> None
      then link_deps svcs n ds (smap_put n (deg_of deg n + 1) deg, smap_put d (adj_of adj d @ [n]) adj)
      else link_deps svcs n ds (deg, adj))"

fun link_all :: "dep_map \<Rightarrow> dep_map \<Rightarrow> degrees \<times> dep_map \<Rightarrow> degrees \<times> dep_map" where
  "link_all svcs [] g = g"
| "link_all svcs ((n, ds) # rest) g = link_all svcs rest (link_deps svcs n ds g)"

text \<open>The neighbours of the service just taken.\<close>

fun visit :: "string list \<Rightarrow> degrees \<times> string list \<Rightarrow> degrees \<times> string list" where
  "visit [] s = s"
| "visit (n # ns) (deg, q) =
     (let deg' = smap_put n (deg_of deg n - 1) deg
      in visit ns (deg', if deg_of deg' n = 0 then q @ [n] else q))"

definition positives :: "degrees \<Rightarrow> string set" where
  "positives deg = {n. deg_of deg n > 0}"

lemma deg_of_put [simp]: "deg_of (smap_put n v deg) m = (if m = n then v else deg_of deg m)"
  by (simp add: deg_of_def)

lemma adj_of_put [simp]: "adj_of (smap_put n v adj) m = (if m = n then v else adj_of adj m)"
  by (simp add: adj_of_def)

lemma finite_positives [simp]: "finite (positives deg)"
proof -
  have "positives deg \<subseteq> fst ` set deg"
    by (auto simp: positives_def deg_of_def smap_key_iff split: option.splits)
  then show ?thesis by (rule finite_subset) simp
qed

lemma visit_measure:
  "card (positives (fst (visit ns s))) + length (snd (visit ns s)) \<le> card (positives (fst s)) + length (snd s)"
proof (induction ns s rule: visit.induct)
  case (2 n ns deg q)
  let ?deg = "smap_put n (deg_of deg n - 1) deg"
  have "card (positives ?deg) + (if deg_of ?deg n = 0 then 1 else 0) \<le> card (positives deg)"
  proof (cases "deg_of deg n = 1")
    case True
    then have "positives ?deg = positives deg - {n}" "n \<in> positives deg"
      by (auto simp: positives_def)
    then have "card (positives ?deg) = card (positives deg) - 1" by simp
    moreover have "card (positives deg) > 0"
      using \<open>n \<in> positives deg\<close> card_gt_0_iff [of "positives deg"] by (metis empty_iff finite_positives)
    ultimately show ?thesis using True by (simp only: deg_of_put) simp
  next
    case False
    then have "positives ?deg \<subseteq> positives deg" by (auto simp: positives_def)
    then show ?thesis using False card_mono [OF finite_positives] by simp
  qed
  then show ?case using "2.IH" [OF refl] by (simp add: Let_def split: if_splits)
qed simp

function kahn :: "dep_map \<Rightarrow> degrees \<Rightarrow> string list \<Rightarrow> string list \<Rightarrow> string list" where
  "kahn adj deg q res =
     (if q = [] then res
      else case visit (adj_of adj (last q)) (deg, butlast q) of
        (deg', q') \<Rightarrow> kahn adj deg' q' (res @ [last q]))"
  by pat_completeness auto

termination
proof (relation "measure (\<lambda>(adj, deg, q, res). card (positives deg) + length q)", goal_cases)
  case 1
  show ?case by simp
next
  case (2 adj deg q res deg' q')
  have v: "visit (adj_of adj (last q)) (deg, butlast q) = (deg', q')" using 2(2) by simp
  have "card (positives deg') + length q' \<le> card (positives deg) + length (butlast q)"
    using visit_measure [of "adj_of adj (last q)" "(deg, butlast q)"] unfolding v by simp
  moreover have "length (butlast q) < length q" using 2 by (cases q rule: rev_cases) simp_all
  ultimately show ?case by simp
qed

declare kahn.simps [simp del]

definition topological_sort :: "dep_map \<Rightarrow> string list" where
  "topological_sort svcs =
     (case link_all svcs svcs (empty_graph svcs ([], [])) of (deg, adj) \<Rightarrow>
        let q = map fst (filter (\<lambda>(n, d). d = 0) deg);
            result = kahn adj deg q []
        in if length result \<noteq> length svcs then [] else result)"

section \<open>What the graph holds\<close>

definition deps_of :: "dep_map \<Rightarrow> string \<Rightarrow> string list" where
  "deps_of svcs n = (case map_of svcs n of Some ds \<Rightarrow> filter (\<lambda>d. map_of svcs d \<noteq> None) ds | None \<Rightarrow> [])"

text \<open>A valid order lists every service once, each after its registered dependencies.\<close>

definition valid_order :: "dep_map \<Rightarrow> string list \<Rightarrow> bool" where
  "valid_order svcs ord \<longleftrightarrow> distinct ord \<and> set ord = fst ` set svcs \<and>
     (\<forall>i < length ord. set (deps_of svcs (ord ! i)) \<subseteq> set (take i ord))"

lemma empty_graph_spec:
  "deg_of (fst (empty_graph svcs g)) n = (if n \<in> fst ` set svcs then 0 else deg_of (fst g) n)"
  "adj_of (snd (empty_graph svcs g)) n = (if n \<in> fst ` set svcs then [] else adj_of (snd g) n)"
  "fst ` set (fst (empty_graph svcs g)) = fst ` set svcs \<union> fst ` set (fst g)"
  "smap_ok (fst g) \<Longrightarrow> smap_ok (fst (empty_graph svcs g))"
  by (induction svcs g rule: empty_graph.induct) auto

lemma link_deps_spec:
  "deg_of (fst (link_deps svcs n ds g)) m =
     deg_of (fst g) m + (if m = n then int (length (filter (\<lambda>d. map_of svcs d \<noteq> None) ds)) else 0)"
  "adj_of (snd (link_deps svcs n ds g)) d =
     adj_of (snd g) d @ (if map_of svcs d \<noteq> None then replicate (count_list ds d) n else [])"
  by (induction svcs n ds g rule: link_deps.induct) (auto simp: replicate_append_same)

lemma link_deps_keys:
  "n \<in> fst ` set (fst g) \<Longrightarrow> fst ` set (fst (link_deps svcs n ds g)) = fst ` set (fst g)"
  "smap_ok (fst g) \<Longrightarrow> smap_ok (fst (link_deps svcs n ds g))"
  by (induction svcs n ds g rule: link_deps.induct) (auto simp: insert_absorb)

lemma link_all_keys:
  "fst ` set rest \<subseteq> fst ` set (fst g) \<Longrightarrow> fst ` set (fst (link_all svcs rest g)) = fst ` set (fst g)"
  "smap_ok (fst g) \<Longrightarrow> smap_ok (fst (link_all svcs rest g))"
  by (induction svcs rest g rule: link_all.induct) (simp_all add: link_deps_keys)

text \<open>Degrees count registered dependencies, adjacency lists the dependents, both with multiplicity.\<close>

lemma link_all_deg:
  "distinct (map fst rest) \<Longrightarrow> deg_of (fst (link_all svcs rest g)) n = deg_of (fst g) n +
     (case map_of rest n of None \<Rightarrow> 0 | Some ds \<Rightarrow> int (length (filter (\<lambda>d. map_of svcs d \<noteq> None) ds)))"
proof (induction svcs rest g rule: link_all.induct)
  case (2 svcs m ds rest g)
  then show ?case
    using map_of_eq_None_iff [of rest m] by (auto simp: link_deps_spec split: option.splits)
qed simp

lemma link_all_adj:
  "distinct (map fst rest) \<Longrightarrow> map_of svcs d \<noteq> None \<Longrightarrow>
   count_list (adj_of (snd (link_all svcs rest g)) d) n = count_list (adj_of (snd g) d) n +
     (case map_of rest n of None \<Rightarrow> 0 | Some ds \<Rightarrow> count_list ds d)"
proof (induction svcs rest g rule: link_all.induct)
  case (2 svcs m ds rest g)
  have r: "count_list (replicate k x) y = (if y = x then k else 0)" for k and x y :: string
    by (induction k) auto
  show ?case
    using 2 map_of_eq_None_iff [of rest m]
    by (auto simp: link_deps_spec count_list_append r split: option.splits)
qed simp

lemma count_filter: "P d \<Longrightarrow> count_list (filter P ds) d = count_list ds d"
  by (induction ds) auto

section \<open>The invariant of the loop\<close>

lemma visit_deg: "deg_of (fst (visit ns s)) n = deg_of (fst s) n - int (count_list ns n)"
  by (induction ns s rule: visit.induct) (auto simp: Let_def split: if_splits)

lemma visit_queue:
  assumes "\<forall>n \<in> set ns. deg_of (fst s) n \<ge> int (count_list ns n)" and "set (snd s) \<inter> set ns = {}"
    and "distinct (snd s)"
  shows "distinct (snd (visit ns s)) \<and>
    set (snd (visit ns s)) = set (snd s) \<union> {n \<in> set ns. deg_of (fst s) n = int (count_list ns n)}"
  using assms
proof (induction ns s rule: visit.induct)
  case (1 s)
  then show ?case by simp
next
  case (2 n ns deg q)
  let ?deg = "smap_put n (deg_of deg n - 1) deg"
  let ?q = "if deg_of ?deg n = 0 then q @ [n] else q"
  have a: "\<forall>m \<in> set ns. deg_of ?deg m \<ge> int (count_list ns m)"
    using "2.prems"(1) by auto
  have z: "deg_of ?deg n = 0 \<Longrightarrow> n \<notin> set ns"
    using a count_notin [of n ns] by (metis count_list_0_iff deg_of_put of_nat_le_0_iff)
  have b: "set ?q \<inter> set ns = {}" using "2.prems"(2) z by auto
  have c: "distinct ?q" using "2.prems"(2,3) by auto
  have ih: "distinct (snd (visit ns (?deg, ?q)))"
    "set (snd (visit ns (?deg, ?q))) = set ?q \<union> {m \<in> set ns. deg_of ?deg m = int (count_list ns m)}"
    using "2.IH" [OF refl] a b c by simp_all
  have e: "set ?q \<union> {m \<in> set ns. deg_of ?deg m = int (count_list ns m)} =
      set q \<union> {m \<in> set (n # ns). deg_of deg m = int (count_list (n # ns) m)}"
    using z count_notin [of n ns] count_list_0_iff [of ns n] by (auto split: if_splits)
  show ?case using ih e by (simp add: Let_def)
qed

definition open_deps :: "dep_map \<Rightarrow> string list \<Rightarrow> string \<Rightarrow> nat" where
  "open_deps svcs res n = length (filter (\<lambda>d. d \<notin> set res) (deps_of svcs n))"

definition kahn_inv :: "dep_map \<Rightarrow> dep_map \<Rightarrow> degrees \<Rightarrow> string list \<Rightarrow> string list \<Rightarrow> bool" where
  "kahn_inv svcs adj deg q res \<longleftrightarrow>
     (\<forall>n \<in> fst ` set svcs. deg_of deg n = int (open_deps svcs res n)) \<and>
     distinct (res @ q) \<and> set res \<union> set q = {n \<in> fst ` set svcs. deg_of deg n = 0} \<and>
     (\<forall>i < length res. set (deps_of svcs (res ! i)) \<subseteq> set (take i res)) \<and>
     (\<forall>d \<in> fst ` set svcs. \<forall>n. count_list (adj_of adj d) n = count_list (deps_of svcs n) d)"

lemma open_deps_snoc:
  assumes "c \<notin> set res"
  shows "open_deps svcs res n = count_list (deps_of svcs n) c + open_deps svcs (res @ [c]) n"
proof -
  have "length (filter (\<lambda>d. d \<notin> set res) ds) = count_list ds c + length (filter (\<lambda>d. d \<notin> set (res @ [c])) ds)" for ds
    using assms by (induction ds) auto
  then show ?thesis by (simp only: open_deps_def)
qed

lemma open_deps_0: "open_deps svcs res n = 0 \<longleftrightarrow> set (deps_of svcs n) \<subseteq> set res"
  by (auto simp: open_deps_def filter_empty_conv)

lemma deps_of_keys: "n \<in> set (deps_of svcs m) \<Longrightarrow> n \<in> fst ` set svcs \<and> m \<in> fst ` set svcs"
  by (cases "map_of svcs m") (auto simp: deps_of_def smap_key_iff)

lemma kahn_step:
  assumes inv: "kahn_inv svcs adj deg (q @ [c]) res" and v: "visit (adj_of adj c) (deg, q) = (deg', q')"
  shows "kahn_inv svcs adj deg' q' (res @ [c])"
proof -
  let ?K = "fst ` set svcs"
  note inv' = inv [unfolded kahn_inv_def]
  have deg: "n \<in> ?K \<Longrightarrow> deg_of deg n = int (open_deps svcs res n)" for n
    using inv' by blast
  have dst: "distinct (res @ q @ [c])" and mem: "set res \<union> set (q @ [c]) = {n \<in> ?K. deg_of deg n = 0}"
    using inv' by simp_all
  have ordr: "i < length res \<Longrightarrow> set (deps_of svcs (res ! i)) \<subseteq> set (take i res)" for i
    using inv' by blast
  have adj: "d \<in> ?K \<Longrightarrow> count_list (adj_of adj d) n = count_list (deps_of svcs n) d" for d n
    using inv' by blast
  have c: "c \<in> ?K" "deg_of deg c = 0" "c \<notin> set res" using mem dst by auto
  have in_adj: "n \<in> set (adj_of adj c) \<longleftrightarrow> c \<in> set (deps_of svcs n)" for n
    using adj [OF c(1), of n] by (metis count_list_0_iff)
  have cnt: "deg_of deg' n = deg_of deg n - int (count_list (deps_of svcs n) c)" for n
    using visit_deg [of "adj_of adj c" "(deg, q)" n] v adj [OF c(1)] by simp
  have new: "n \<in> ?K \<Longrightarrow> deg_of deg' n = int (open_deps svcs (res @ [c]) n)" for n
    using cnt [of n] deg [of n] open_deps_snoc [OF c(3), of svcs n] by simp
  have key: "n \<in> set (adj_of adj c) \<Longrightarrow> n \<in> ?K" for n using in_adj deps_of_keys by blast
  have ge: "\<forall>n \<in> set (adj_of adj c). deg_of (fst (deg, q)) n \<ge> int (count_list (adj_of adj c) n)"
    using key deg open_deps_snoc [OF c(3), of svcs] adj [OF c(1)] by simp
  have pos: "n \<in> set (adj_of adj c) \<Longrightarrow> deg_of deg n > 0" for n
  proof -
    assume n: "n \<in> set (adj_of adj c)"
    then have "count_list (adj_of adj c) n > 0" by (metis count_list_0_iff gr0I)
    then show ?thesis using ge n by fastforce
  qed
  have q0: "deg_of deg n = 0" if "n \<in> set q" for n
  proof -
    have "n \<in> {n \<in> ?K. deg_of deg n = 0}" unfolding mem [symmetric] using that by simp
    then show ?thesis by simp
  qed
  have qq: "set (snd (deg, q)) \<inter> set (adj_of adj c) = {}"
  proof -
    have "n \<notin> set (adj_of adj c)" if "n \<in> set q" for n using pos [of n] q0 [OF that] by auto
    then show ?thesis by auto
  qed
  have vq: "distinct q'" "set q' = set q \<union> {n \<in> set (adj_of adj c). deg_of deg n = int (count_list (adj_of adj c) n)}"
    using visit_queue [OF ge qq] dst v by simp_all
  have push: "n \<in> set q' \<longleftrightarrow> n \<in> set q \<or> (n \<in> ?K \<and> deg_of deg n > 0 \<and> deg_of deg' n = 0)" for n
  proof -
    define k where "k = count_list (deps_of svcs n) c"
    have a: "n \<in> set (adj_of adj c) \<longleftrightarrow> k > 0"
      unfolding k_def in_adj by (metis count_list_0_iff gr0I less_irrefl)
    have b: "count_list (adj_of adj c) n = k" unfolding k_def by (rule adj [OF c(1)])
    have d: "deg_of deg' n = deg_of deg n - int k" unfolding k_def by (rule cnt)
    have "n \<in> set q' \<longleftrightarrow> n \<in> set q \<or> (k > 0 \<and> deg_of deg n = int k)"
      unfolding vq(2) using a b by blast
    moreover have "k > 0 \<Longrightarrow> n \<in> ?K" using a key by blast
    ultimately show ?thesis unfolding d by auto
  qed
  have zero: "n \<in> ?K \<Longrightarrow> deg_of deg n = 0 \<Longrightarrow> deg_of deg' n = 0" for n
    using new [of n] deg [of n] open_deps_snoc [OF c(3), of svcs n] by simp
  have nonneg: "n \<in> ?K \<Longrightarrow> deg_of deg n \<ge> 0" for n using deg [of n] by simp
  show ?thesis
    unfolding kahn_inv_def
  proof (intro conjI ballI allI impI)
    show "deg_of deg' n = int (open_deps svcs (res @ [c]) n)" if "n \<in> ?K" for n using new that .
    have "set res \<inter> set q' = {}" "c \<notin> set q'"
      using push dst mem c(2) by (auto simp: disjoint_iff) 
    then show "distinct ((res @ [c]) @ q')" using dst vq(1) c(3) by auto
    show "set (res @ [c]) \<union> set q' = {n \<in> ?K. deg_of deg' n = 0}"
    proof (rule set_eqI)
      fix n
      have pz: "n \<in> ?K \<Longrightarrow> deg_of deg n = 0 \<or> deg_of deg n > 0" using nonneg [of n] by linarith
      have "n \<in> set res \<union> set (q @ [c]) \<longleftrightarrow> n \<in> ?K \<and> deg_of deg n = 0" using mem by blast
      then show "n \<in> set (res @ [c]) \<union> set q' \<longleftrightarrow> n \<in> {n \<in> ?K. deg_of deg' n = 0}"
        using push [of n] zero [of n] pz unfolding Un_iff set_append mem_Collect_eq by blast
    qed
    show "set (deps_of svcs ((res @ [c]) ! i)) \<subseteq> set (take i (res @ [c]))" if "i < length (res @ [c])" for i
    proof (cases "i < length res")
      case True
      then show ?thesis using ordr [of i] by (simp add: nth_append)
    next
      case False
      then have "i = length res" using that by simp
      moreover have "set (deps_of svcs c) \<subseteq> set res"
        using deg [OF c(1)] c(2) open_deps_0 [of svcs res c] by simp
      ultimately show ?thesis by simp
    qed
    show "count_list (adj_of adj d) n = count_list (deps_of svcs n) d" if "d \<in> ?K" for d n using adj that .
  qed
qed

lemma kahn_result:
  "kahn_inv svcs adj deg q res \<Longrightarrow> \<exists>deg'. kahn_inv svcs adj deg' [] (kahn adj deg q res)"
proof (induction adj deg q res rule: kahn.induct)
  case (1 adj deg q res)
  show ?case
  proof (cases "q = []")
    case True
    then show ?thesis using "1.prems" by (subst kahn.simps) auto
  next
    case False
    obtain deg' q' where v: "visit (adj_of adj (last q)) (deg, butlast q) = (deg', q')" by fastforce
    have "kahn_inv svcs adj deg (butlast q @ [last q]) res" using "1.prems" False by simp
    then have "kahn_inv svcs adj deg' q' (res @ [last q])" by (rule kahn_step [OF _ v])
    from "1.IH" [OF False v [symmetric] this] show ?thesis
      using False v by (subst kahn.simps) simp
  qed
qed

lemma kahn_initial:
  assumes "smap_ok svcs" and "link_all svcs svcs (empty_graph svcs ([], [])) = (deg, adj)"
  shows "kahn_inv svcs adj deg (map fst (filter (\<lambda>(n, d). d = 0) deg)) []"
proof -
  let ?g = "empty_graph svcs ([], [])"
  have dst: "distinct (map fst svcs)" by (rule smap_ok_distinct [OF assms(1)])
  have deg: "deg = fst (link_all svcs svcs ?g)" and adj: "adj = snd (link_all svcs svcs ?g)"
    using assms(2) by simp_all
  have keys: "fst ` set deg = fst ` set svcs"
    unfolding deg by (subst link_all_keys(1)) (simp_all add: empty_graph_spec)
  have ok: "smap_ok deg"
    unfolding deg by (rule link_all_keys(2)) (simp add: empty_graph_spec)
  have d: "deg_of deg n = int (open_deps svcs [] n)" if "n \<in> fst ` set svcs" for n
    using that unfolding deg link_all_deg [OF dst]
    by (auto simp: empty_graph_spec open_deps_def deps_of_def smap_key_iff split: option.splits)
  have a: "count_list (adj_of adj x) n = count_list (deps_of svcs n) x" if "x \<in> fst ` set svcs" for x n
  proof -
    have "map_of svcs x \<noteq> None" using that by (simp add: smap_key_iff)
    then show ?thesis
      unfolding adj using link_all_adj [OF dst, of svcs x ?g n] that
      by (auto simp: empty_graph_spec deps_of_def count_filter split: option.splits)
  qed
  have q: "set (map fst (filter (\<lambda>(n, d). d = 0) deg)) = {n \<in> fst ` set svcs. deg_of deg n = 0}"
  proof -
    have "(n, 0) \<in> set deg \<longleftrightarrow> n \<in> fst ` set svcs \<and> deg_of deg n = 0" for n
      using smap_mem_iff [OF ok, of n 0] keys smap_key_iff [of n deg]
      by (auto simp: deg_of_def split: option.splits)
    then show ?thesis by force
  qed
  have "distinct (map fst (filter (\<lambda>(n, d). d = 0) deg))"
    using smap_ok_distinct [OF ok] by (simp add: distinct_map_filter)
  with d a q show ?thesis by (simp add: kahn_inv_def)
qed

text \<open>Any valid order is inside the finished result, one service after the other.\<close>

lemma valid_order_covered:
  assumes "kahn_inv svcs adj deg [] res" and "valid_order svcs ord"
  shows "set ord \<subseteq> set res"
proof -
  have "i \<le> length ord \<Longrightarrow> set (take i ord) \<subseteq> set res" for i
  proof (induction i)
    case (Suc i)
    then have i: "i < length ord" "set (take i ord) \<subseteq> set res" by simp_all
    have "set (deps_of svcs (ord ! i)) \<subseteq> set res"
      using assms(2) i unfolding valid_order_def by blast
    moreover have k: "ord ! i \<in> fst ` set svcs"
      using assms(2) nth_mem [OF i(1)] by (simp add: valid_order_def)
    moreover have "\<forall>n \<in> fst ` set svcs. deg_of deg n = int (open_deps svcs res n)"
      using assms(1) unfolding kahn_inv_def by blast
    ultimately have "deg_of deg (ord ! i) = 0"
      using open_deps_0 [of svcs res "ord ! i"] by auto
    then have "ord ! i \<in> {n \<in> fst ` set svcs. deg_of deg n = 0}" using k by simp
    then have "ord ! i \<in> set res" using assms(1) by (simp add: kahn_inv_def)
    then show ?case using i by (simp add: take_Suc_conv_app_nth)
  qed simp
  from this [of "length ord"] show ?thesis by simp
qed

text \<open>C15: the topological sort is correct and complete. When the registered services can be
  ordered so that each comes after its registered dependencies, the result is such an order of all
  of them; otherwise, exactly when the dependencies are circular, the result is empty.\<close>

theorem topological_sort_correct:
  assumes "smap_ok svcs"
  shows "if \<exists>ord. valid_order svcs ord then valid_order svcs (topological_sort svcs)
    else topological_sort svcs = []"
proof -
  obtain deg adj where g: "link_all svcs svcs (empty_graph svcs ([], [])) = (deg, adj)" by fastforce
  define res where "res = kahn adj deg (map fst (filter (\<lambda>(n, d). d = 0) deg)) []"
  obtain deg' where inv: "kahn_inv svcs adj deg' [] res"
    using kahn_result [OF kahn_initial [OF assms g]] by (auto simp: res_def)
  have t: "topological_sort svcs = (if length res \<noteq> length svcs then [] else res)"
    by (simp add: topological_sort_def g res_def Let_def)
  have dst: "distinct (map fst svcs)" by (rule smap_ok_distinct [OF assms])
  have card: "card (fst ` set svcs) = length svcs"
    using distinct_card [OF dst] by simp
  have r: "distinct res" "set res \<subseteq> fst ` set svcs"
    using inv by (auto simp: kahn_inv_def)
  have full: "length res = length svcs \<longleftrightarrow> set res = fst ` set svcs"
    using r card distinct_card [OF r(1)] card_subset_eq [OF _ r(2)] by auto
  have val: "valid_order svcs res" if "set res = fst ` set svcs"
    using inv r that by (simp add: valid_order_def kahn_inv_def)
  show ?thesis
  proof (cases "\<exists>ord. valid_order svcs ord")
    case True
    then obtain ord where ord: "valid_order svcs ord" by blast
    then have "set res = fst ` set svcs"
      using valid_order_covered [OF inv ord] r(2) by (auto simp: valid_order_def)
    then show ?thesis using True t full val by simp
  next
    case False
    then have "set res \<noteq> fst ` set svcs" using val by blast
    then show ?thesis using False t full by simp
  qed
qed

theorem topological_sort_correct_witness:
  "valid_order [(''a'', [''c'']), (''b'', [''a'', ''c'']), (''c'', [''x''])]
     (topological_sort [(''a'', [''c'']), (''b'', [''a'', ''c'']), (''c'', [''x''])])"
proof -
  let ?s = "[(''a'', [''c'']), (''b'', [''a'', ''c'']), (''c'', [''x''])]"
  have ok: "smap_ok ?s" by (simp add: smap_ok_def)
  have "valid_order ?s [''c'', ''a'', ''b'']"
    by (auto simp: valid_order_def deps_of_def less_Suc_eq numeral_3_eq_3)
  then have "\<exists>ord. valid_order ?s ord" by blast
  with topological_sort_correct [OF ok] show ?thesis by (simp only: if_True)
qed

end
