(* ===== verification/Event_Registry.thy ===== *)
theory Event_Registry
  imports Function_Registry "HOL-Library.Sublist"
begin

text \<open>
  Signals (\<open>lib_utils/signal.hpp\<close>) and the event registry of the service framework
  (\<open>service_manager/event/definition.hpp\<close>, \<open>event/registry.hpp\<close>, \<open>event/registry.cpp\<close>).

  A signal keeps its slots in connection order, each with its flag; the slot's control block is
  named by a number that the signal hands out once. A slot runs user code: a function of the
  arguments, the signal and the world, so it may connect and disconnect slots of the very signal
  that is being emitted, and it may throw. Moving a signal is not modelled.
\<close>

section \<open>Signals\<close>

record signal =
  sig_slots :: "(nat \<times> bool) list"
  sig_next :: nat

definition new_signal :: signal where
  "new_signal = \<lparr>sig_slots = [], sig_next = 0\<rparr>"

text \<open>A connection is the slot's number; a default-constructed one is \<open>None\<close>.\<close>

type_synonym conn = "nat option"

definition connected :: "conn \<Rightarrow> signal \<Rightarrow> bool" where
  "connected c s \<longleftrightarrow> (case c of None \<Rightarrow> False | Some k \<Rightarrow> (k, True) \<in> set (sig_slots s))"

definition disconnect :: "conn \<Rightarrow> signal \<Rightarrow> signal" where
  "disconnect c s =
     (case c of None \<Rightarrow> s
      | Some k \<Rightarrow> s\<lparr>sig_slots := map (\<lambda>(j, b). (j, b \<and> j \<noteq> k)) (sig_slots s)\<rparr>)"

definition sig_connect :: "signal \<Rightarrow> conn \<times> signal" where
  "sig_connect s = (Some (sig_next s), s\<lparr>sig_slots := sig_slots s @ [(sig_next s, True)], sig_next := sig_next s + 1\<rparr>)"

definition disconnect_all_slots :: "signal \<Rightarrow> signal" where
  "disconnect_all_slots s = s\<lparr>sig_slots := []\<rparr>"

definition num_slots :: "signal \<Rightarrow> nat" where
  "num_slots s = length (filter snd (sig_slots s))"

definition prune :: "signal \<Rightarrow> signal" where
  "prune s = s\<lparr>sig_slots := filter snd (sig_slots s)\<rparr>"

type_synonym ('a, 'w) slot_fn = "nat \<Rightarrow> 'a \<Rightarrow> signal \<times> 'w \<Rightarrow> string option \<times> signal \<times> 'w"

text \<open>The emission loop over the snapshot: an exception leaves it at once.\<close>

fun emit_loop :: "('a, 'w) slot_fn \<Rightarrow> 'a \<Rightarrow> nat list \<Rightarrow> bool \<Rightarrow> signal \<times> 'w \<Rightarrow> string option \<times> bool \<times> signal \<times> 'w" where
  "emit_loop fn a [] stale s = (None, stale, s)"
| "emit_loop fn a (k # ks) stale s =
     (if connected (Some k) (fst s)
      then case fn k a s of
        (Some ex, s') \<Rightarrow> (Some ex, stale, s')
      | (None, s') \<Rightarrow> emit_loop fn a ks stale s'
      else emit_loop fn a ks True s)"

definition emit :: "('a, 'w) slot_fn \<Rightarrow> 'a \<Rightarrow> signal \<times> 'w \<Rightarrow> string option \<times> signal \<times> 'w" where
  "emit fn a s =
     (case emit_loop fn a (map fst (sig_slots (fst s))) False s of
        (Some ex, _, s') \<Rightarrow> (Some ex, s')
      | (None, stale, s') \<Rightarrow> (None, if stale then (prune (fst s'), snd s') else s'))"

text \<open>Scoped connections disconnect what they held when they are reassigned or destroyed.\<close>

definition scoped_assign :: "conn \<Rightarrow> conn \<Rightarrow> signal \<Rightarrow> conn \<times> signal" where
  "scoped_assign held new s = (new, disconnect held s)"

definition scoped_move :: "conn \<Rightarrow> conn \<Rightarrow> signal \<Rightarrow> (conn \<times> conn) \<times> signal" where
  "scoped_move held other s = ((other, None), disconnect held s)"

definition scoped_release :: "conn \<Rightarrow> conn \<times> conn" where
  "scoped_release held = (held, None)"

definition scoped_destroy :: "conn \<Rightarrow> signal \<Rightarrow> signal" where
  "scoped_destroy held s = disconnect held s"

section \<open>What slots may do\<close>

definition sig_ok :: "signal \<Rightarrow> bool" where
  "sig_ok s \<longleftrightarrow> distinct (map fst (sig_slots s)) \<and> (\<forall>k \<in> fst ` set (sig_slots s). k < sig_next s)"

text \<open>The operations a slot can perform on the signal.\<close>

inductive sig_change :: "signal \<Rightarrow> signal \<Rightarrow> bool" where
  ch_refl: "sig_change s s"
| ch_disconnect: "sig_change s t \<Longrightarrow> sig_change s (disconnect c t)"
| ch_connect: "sig_change s t \<Longrightarrow> sig_change s (snd (sig_connect t))"
| ch_all: "sig_change s t \<Longrightarrow> sig_change s (disconnect_all_slots t)"
| ch_prune: "sig_change s t \<Longrightarrow> sig_change s (prune t)"

lemma map_flag_fst: "map (fst \<circ> (\<lambda>(j, b). (j, f j b))) xs = map fst xs"
  by (induction xs) auto

lemma subseq_set: "subseq xs ys \<Longrightarrow> x \<in> set xs \<Longrightarrow> x \<in> set ys"
  by (induction rule: list_emb.induct) auto

lemma subseq_distinctI: "subseq xs ys \<Longrightarrow> distinct ys \<Longrightarrow> distinct xs"
proof (induction rule: list_emb.induct)
  case (list_emb_Cons2 x y xs ys)
  then show ?case by (auto dest: subseq_set)
qed auto

lemma sig_ok_ops:
  "sig_ok s \<Longrightarrow> sig_ok (disconnect c s)" "sig_ok s \<Longrightarrow> sig_ok (snd (sig_connect s))"
  "sig_ok s \<Longrightarrow> sig_ok (disconnect_all_slots s)" "sig_ok s \<Longrightarrow> sig_ok (prune s)"
proof -
  have k: "fst ` set (map (\<lambda>(j, b). (j, f j b)) xs) = fst ` set xs" for f :: "nat \<Rightarrow> bool \<Rightarrow> bool" and xs
    by (force simp: image_iff)
  show "sig_ok s \<Longrightarrow> sig_ok (disconnect c s)"
    by (auto simp: sig_ok_def disconnect_def map_flag_fst [of "\<lambda>j b. b \<and> j \<noteq> k" for k] k split: option.splits)
  show "sig_ok s \<Longrightarrow> sig_ok (snd (sig_connect s))"
    by (force simp: sig_ok_def sig_connect_def)
  show "sig_ok s \<Longrightarrow> sig_ok (disconnect_all_slots s)"
    by (simp add: sig_ok_def disconnect_all_slots_def)
  show "sig_ok s \<Longrightarrow> sig_ok (prune s)"
    by (auto simp: sig_ok_def prune_def distinct_map_filter)
qed

text \<open>A slot that is not connected never becomes connected again, and new slots are new.\<close>

lemma change_connected:
  "sig_change s t \<Longrightarrow> sig_ok s \<Longrightarrow>
   sig_ok t \<and> sig_next s \<le> sig_next t \<and> (\<forall>k < sig_next s. connected (Some k) t \<longrightarrow> connected (Some k) s)"
proof (induction rule: sig_change.induct)
  case (ch_refl s)
  then show ?case by simp
next
  case (ch_disconnect s t c)
  then show ?case using sig_ok_ops(1) [of t c]
    by (auto simp: disconnect_def connected_def split: option.splits)
next
  case (ch_connect s t)
  then show ?case using sig_ok_ops(2) [of t] by (auto simp: sig_connect_def connected_def)
next
  case (ch_all s t)
  then show ?case using sig_ok_ops(3) [of t] by (auto simp: disconnect_all_slots_def connected_def)
next
  case (ch_prune s t)
  then show ?case using sig_ok_ops(4) [of t] by (auto simp: prune_def connected_def)
qed

text \<open>Slots that record their call in a log, change the signal only by its operations and do not
  throw.\<close>

definition logging_slots :: "('a, 'w) slot_fn \<Rightarrow> ('w \<Rightarrow> nat list) \<Rightarrow> bool" where
  "logging_slots fn log \<longleftrightarrow> (\<forall>k a s. fst (fn k a s) = None \<and> sig_change (fst s) (fst (snd (fn k a s))) \<and>
     log (snd (snd (fn k a s))) = log (snd s) @ [k])"

lemma emit_loop_calls:
  assumes "logging_slots fn log"
  shows "sig_ok (fst s) \<Longrightarrow> \<forall>k \<in> set ks. k < sig_next (fst s) \<Longrightarrow> emit_loop fn a ks stale s = (ex, stale', s') \<Longrightarrow>
    ex = None \<and> sig_change (fst s) (fst s') \<and>
    (\<exists>called. log (snd s') = log (snd s) @ called \<and> subseq called ks \<and>
       (\<forall>k \<in> set called. connected (Some k) (fst s)) \<and>
       (\<forall>k \<in> set ks. connected (Some k) (fst s') \<longrightarrow> k \<in> set called))"
proof (induction ks arbitrary: stale s)
  case Nil
  then show ?case by (auto intro: ch_refl)
next
  case (Cons k ks)
  show ?case
  proof (cases "connected (Some k) (fst s)")
    case False
    then have run: "emit_loop fn a ks True s = (ex, stale', s')" using Cons.prems(3) by simp
    have ih: "ex = None \<and> sig_change (fst s) (fst s') \<and>
        (\<exists>called. log (snd s') = log (snd s) @ called \<and> subseq called ks \<and>
          (\<forall>k \<in> set called. connected (Some k) (fst s)) \<and>
          (\<forall>k \<in> set ks. connected (Some k) (fst s') \<longrightarrow> k \<in> set called))"
      using Cons.IH [OF Cons.prems(1) _ run] Cons.prems(2) by simp
    have "\<not> connected (Some k) (fst s')"
      using change_connected [of "fst s" "fst s'"] ih Cons.prems(1,2) False by auto
    then show ?thesis using ih by (auto intro: list_emb_Cons)
  next
    case True
    obtain s1 where f: "fn k a s = (None, s1)"
      using assms by (metis logging_slots_def prod.collapse)
    have c1: "sig_change (fst s) (fst s1)" and l1: "log (snd s1) = log (snd s) @ [k]"
      using assms f unfolding logging_slots_def by (metis fst_conv snd_conv)+
    note ch = change_connected [OF c1 Cons.prems(1)]
    have run: "emit_loop fn a ks stale s1 = (ex, stale', s')" using Cons.prems(3) True f by simp
    have lt: "\<forall>k \<in> set ks. k < sig_next (fst s1)" using Cons.prems(2) ch by auto
    obtain called where ih: "ex = None" "sig_change (fst s1) (fst s')"
      "log (snd s') = log (snd s1) @ called" "subseq called ks"
      "\<forall>k \<in> set called. connected (Some k) (fst s1)" "\<forall>k \<in> set ks. connected (Some k) (fst s') \<longrightarrow> k \<in> set called"
      using Cons.IH [OF _ lt run] ch by blast
    have sub: "\<forall>j \<in> set called. connected (Some j) (fst s)"
    proof
      fix j assume j: "j \<in> set called"
      then have "j \<in> set ks" using ih(4) by (rule subseq_set [rotated])
      then show "connected (Some j) (fst s)" using ch Cons.prems(2) ih(5) j by auto
    qed
    have tr: "sig_change (fst s) (fst s')"
      using ih(2) c1 by (induction rule: sig_change.induct) (auto intro: sig_change.intros)
    have "log (snd s') = log (snd s) @ (k # called)" "subseq (k # called) (k # ks)"
      using ih l1 by simp_all
    then show ?thesis using ih(1,6) sub tr True by (intro conjI exI [of _ "k # called"]) auto
  qed
qed

lemma emit_loop_sig_ok:
  assumes "logging_slots fn log" and "sig_ok (fst s)" and "emit fn a s = (ex, s')"
  shows "ex = None \<and> sig_ok (fst s') \<and>
    (\<exists>called. log (snd s') = log (snd s) @ called \<and> subseq called (map fst (sig_slots (fst s))) \<and>
       (\<forall>k \<in> set called. connected (Some k) (fst s)) \<and>
       (\<forall>k. connected (Some k) (fst s) \<longrightarrow> connected (Some k) (fst s') \<longrightarrow> k \<in> set called))"
proof -
  let ?ks = "map fst (sig_slots (fst s))"
  obtain ex1 stale1 s1 where run: "emit_loop fn a ?ks False s = (ex1, stale1, s1)"
    by (cases "emit_loop fn a ?ks False s")
  have lt: "\<forall>k \<in> set ?ks. k < sig_next (fst s)" using assms(2) by (simp add: sig_ok_def)
  obtain called where c: "ex1 = None" "sig_change (fst s) (fst s1)"
    "log (snd s1) = log (snd s) @ called" "subseq called ?ks"
    "\<forall>k \<in> set called. connected (Some k) (fst s)"
    "\<forall>k \<in> set ?ks. connected (Some k) (fst s1) \<longrightarrow> k \<in> set called"
    using emit_loop_calls [OF assms(1,2) lt run] by blast
  have s': "ex = None" "s' = (if stale1 then (prune (fst s1), snd s1) else s1)"
    using assms(3) run c(1) by (simp_all add: emit_def)
  have ok1: "sig_ok (fst s1)" using change_connected [OF c(2) assms(2)] by simp
  have "connected (Some k) (fst s') \<Longrightarrow> connected (Some k) (fst s1)" for k
    by (auto simp: s' prune_def connected_def split: if_splits)
  moreover have "connected (Some k) (fst s) \<Longrightarrow> k \<in> set ?ks" for k
    by (force simp: connected_def image_iff)
  moreover have "sig_ok (fst s')" using ok1 sig_ok_ops(4) by (simp add: s')
  moreover have "snd s' = snd s1" by (simp add: s')
  ultimately show ?thesis using c s'(1)
    by (metis (no_types, lifting))
qed

text \<open>An emission changes no flag by itself: pruning only forgets slots that are disconnected.\<close>

lemma connected_prune [simp]: "connected c (prune s) \<longleftrightarrow> connected c s"
  by (simp add: connected_def prune_def split: option.splits)

lemma num_slots_prune [simp]: "num_slots (prune s) = num_slots s"
  by (simp add: num_slots_def prune_def)

section \<open>Event schemas and the event registry\<close>

datatype event_item_type = EBoolean | ENumber | EString | EObject | EArray | ERawBuffer

datatype 'j event_item =
    EvBool bool
  | EvNumber u64
  | EvString string
  | EvObject 'j
  | EvArray 'j
  | EvRawBuffer raw_buffer

type_synonym 'j event_items = "(string, 'j event_item) smap"

record event_item_schema =
  ei_name :: string
  ei_description :: string
  ei_type :: event_item_type

record event_schema =
  es_name :: string
  es_description :: string
  es_items :: "event_item_schema list"
  es_require_scheduler :: bool

definition is_compatible_item :: "event_item_schema \<Rightarrow> 'j event_item \<Rightarrow> bool" where
  "is_compatible_item sch item =
     (case ei_type sch of
        EBoolean \<Rightarrow> (case item of EvBool _ \<Rightarrow> True | _ \<Rightarrow> False)
      | ENumber \<Rightarrow> (case item of EvNumber _ \<Rightarrow> True | _ \<Rightarrow> False)
      | EString \<Rightarrow> (case item of EvString _ \<Rightarrow> True | _ \<Rightarrow> False)
      | EObject \<Rightarrow> (case item of EvObject _ \<Rightarrow> True | _ \<Rightarrow> False)
      | EArray \<Rightarrow> (case item of EvArray _ \<Rightarrow> True | _ \<Rightarrow> False)
      | ERawBuffer \<Rightarrow> (case item of EvRawBuffer _ \<Rightarrow> True | _ \<Rightarrow> False))"

type_synonym event_registry = "(string, event_schema \<times> signal) smap"

definition er_add :: "event_schema \<Rightarrow> event_registry \<Rightarrow> bool \<times> event_registry" where
  "er_add sch r =
     (if es_name sch = [] then (False, r)
      else if map_of r (es_name sch) \<noteq> None then (True, r)
      else (True, smap_put (es_name sch) (sch, new_signal) r))"

definition er_remove :: "string \<Rightarrow> event_registry \<Rightarrow> event_registry" where
  "er_remove name r = (if map_of r name = None then r else smap_del name r)"

definition er_remove_all :: "event_registry \<Rightarrow> event_registry" where
  "er_remove_all r = []"

fun check_items :: "event_item_schema list \<Rightarrow> 'j event_items \<Rightarrow> bool" where
  "check_items [] items = True"
| "check_items (sch # schs) items =
     (case map_of items (ei_name sch) of
        None \<Rightarrow> False
      | Some item \<Rightarrow> if is_compatible_item sch item then check_items schs items else False)"

text \<open>Unknown items are only reported.\<close>

definition validate_items :: "event_registry \<Rightarrow> string \<Rightarrow> 'j event_items \<Rightarrow> bool" where
  "validate_items r name items =
     (if items = [] then False
      else case map_of r name of
        None \<Rightarrow> False
      | Some (sch, _) \<Rightarrow> check_items (es_items sch) items)"

definition er_get_schema :: "event_registry \<Rightarrow> string \<Rightarrow> event_schema option" where
  "er_get_schema r name = map_option fst (map_of r name)"

definition er_get_schemas :: "event_registry \<Rightarrow> event_schema list" where
  "er_get_schemas r = map (\<lambda>e. fst (snd e)) r"

definition er_get_names :: "event_registry \<Rightarrow> string list" where
  "er_get_names r = map fst r"

definition er_has :: "event_registry \<Rightarrow> string \<Rightarrow> bool" where
  "er_has r name \<longleftrightarrow> map_of r name \<noteq> None"

definition er_get_count :: "event_registry \<Rightarrow> nat" where
  "er_get_count r = length r"

definition er_get_signal :: "event_registry \<Rightarrow> string \<Rightarrow> signal option" where
  "er_get_signal r name = map_option snd (map_of r name)"

definition er_has_subscribers :: "event_registry \<Rightarrow> string \<Rightarrow> bool" where
  "er_has_subscribers r name =
     (case map_of r name of None \<Rightarrow> False | Some (_, sig) \<Rightarrow> 0 < num_slots sig)"

section \<open>The event registry is a name registry\<close>

definition er_ok :: "event_registry \<Rightarrow> bool" where
  "er_ok r \<longleftrightarrow> smap_ok r \<and> map_of r [] = None"

lemma er_ok_add: "er_ok r \<Longrightarrow> er_ok (snd (er_add sch r))"
  by (auto simp: er_ok_def er_add_def)

lemma er_ok_remove: "er_ok r \<Longrightarrow> er_ok (er_remove k r)"
  by (auto simp: er_ok_def er_remove_def)

interpretation er: keyed_registry er_ok "\<lambda>k sch. es_name sch = k \<and> k \<noteq> []" er_get_schema
  "\<lambda>k sch r. if es_name sch = k then snd (er_add sch r) else r" er_remove
proof unfold_locales
  fix r :: event_registry and k sch
  assume "er_ok r"
  show "es_name sch = k \<and> k \<noteq> [] \<Longrightarrow> er_get_schema r k = None \<Longrightarrow>
    er_get_schema (if es_name sch = k then snd (er_add sch r) else r) = (er_get_schema r)(k \<mapsto> sch)"
    by (auto simp: er_get_schema_def er_add_def fun_eq_iff)
  show "\<not> (es_name sch = k \<and> k \<noteq> []) \<or> er_get_schema r k \<noteq> None \<Longrightarrow>
    er_get_schema (if es_name sch = k then snd (er_add sch r) else r) = er_get_schema r"
    by (auto simp: er_get_schema_def er_add_def)
  show "er_get_schema (er_remove k r) = (er_get_schema r)(k := None)"
    by (auto simp: er_get_schema_def er_remove_def fun_eq_iff)
  show "er_ok (if es_name sch = k then snd (er_add sch r) else r)"
    using \<open>er_ok r\<close> by (auto intro: er_ok_add)
  show "er_ok (er_remove k r)"
    using \<open>er_ok r\<close> by (rule er_ok_remove)
qed

lemma check_items_iff:
  "check_items schs items \<longleftrightarrow>
    (\<forall>sch \<in> set schs. \<exists>item. map_of items (ei_name sch) = Some item \<and> is_compatible_item sch item)"
  by (induction schs) (auto split: option.splits)

section \<open>Properties\<close>


text \<open>Slots that log their number; slot 0 disconnects slot 1 and connects a new slot.\<close>

definition demo_slot :: "(unit, nat list) slot_fn" where
  "demo_slot k a s =
     (None, if k = 0 then snd (sig_connect (disconnect (Some 1) (fst s))) else fst s, snd s @ [k])"


text \<open>An event name stays bound to its first registration: adding it again reports success
  and changes neither its schema nor the slots subscribed to it.\<close>

theorem er_first_registration:
  assumes "er_ok r"
  shows "er_get_schema (fold (\<lambda>sch. snd \<circ> er_add sch) schs r) k =
    (case er_get_schema r k of Some sch \<Rightarrow> Some sch
     | None \<Rightarrow> map_of (filter (\<lambda>(k, sch). k \<noteq> []) (map (\<lambda>sch. (es_name sch, sch)) schs)) k)"
proof -
  have "fold (\<lambda>sch. snd \<circ> er_add sch) schs r =
    fold (\<lambda>(k, sch) r. if es_name sch = k then snd (er_add sch r) else r)
      (map (\<lambda>sch. (es_name sch, sch)) schs) r"
    by (simp add: fold_map comp_def)
  moreover have "filter (\<lambda>(k, sch). es_name sch = k \<and> k \<noteq> []) (map (\<lambda>sch. (es_name sch, sch)) schs)
    = filter (\<lambda>(k, sch). k \<noteq> []) (map (\<lambda>sch. (es_name sch, sch)) schs)"
    by (intro filter_cong) auto
  ultimately show ?thesis
    using er.first_registration_wins [OF assms, of "map (\<lambda>sch. (es_name sch, sch)) schs" k]
    by (simp only:)
qed

definition demo_event :: event_schema where
  "demo_event = \<lparr>es_name = ''tick'', es_description = [],
     es_items = [\<lparr>ei_name = ''n'', ei_description = [], ei_type = ENumber\<rparr>], es_require_scheduler = True\<rparr>"

theorem er_first_registration_witness:
  "er_get_schema (fold (\<lambda>sch. snd \<circ> er_add sch)
     [demo_event, demo_event\<lparr>es_items := []\<rparr>] []) ''tick'' = Some demo_event"
  using er_first_registration [of "[]" "[demo_event, demo_event\<lparr>es_items := []\<rparr>]" "''tick''"]
  by (simp add: er_ok_def er_get_schema_def demo_event_def)

text \<open>a payload is accepted exactly when it is not empty, the event is registered and every
  item of its schema is present with its type; an event without items accepts nothing but
  payloads with unknown items.\<close>

theorem validate_items_iff:
  "validate_items r name items \<longleftrightarrow> items \<noteq> [] \<and>
     (\<exists>sch. er_get_schema r name = Some sch \<and>
       (\<forall>p \<in> set (es_items sch). \<exists>item. map_of items (ei_name p) = Some item \<and> is_compatible_item p item))"
  by (auto simp: validate_items_def er_get_schema_def check_items_iff split: option.splits)

theorem validate_items_iff_witness:
  "validate_items (snd (er_add demo_event [])) ''tick'' [(''n'', EvNumber 3 :: unit event_item), (''x'', EvBool True)] \<and>
   \<not> validate_items (snd (er_add demo_event [])) ''tick'' [(''n'', EvBool True :: unit event_item)]"
  using validate_items_iff [of "snd (er_add demo_event [])" "''tick''"
      "[(''n'', EvNumber 3 :: unit event_item), (''x'', EvBool True)]"]
    validate_items_iff [of "snd (er_add demo_event [])" "''tick''" "[(''n'', EvBool True :: unit event_item)]"]
  by (simp add: er_add_def er_get_schema_def demo_event_def is_compatible_item_def)

end
