(* ===== verification/Service_Base.thy ===== *)
theory Service_Base
  imports Function_Registry Event_Registry
begin

text \<open>
  The base class of every service (\<open>service_manager/service/base.cpp\<close>): its life cycle,
  the registration of functions and events, asynchronous, synchronous and batched calls, and the
  publication of events.

  The hooks a service overrides, the slots of its subscribers and the task scheduler it runs on
  are the record \<open>sv_env\<close>; they change the world \<open>'w\<close>, not the service. A posted task waits
  in \<open>sv_queue\<close> under its group. A group is a strand, so its tasks run one at a time in the order
  they were posted; which group runs next is the scheduler's choice, an argument of the definitions
  that wait. Cancelling a group or stopping the scheduler drops its tasks. A task reads the
  registries of the service when it runs: tasks run only between a start and the next stop, in which
  the registries are not replaced, so they are the ones the source's task holds.

  The shared locks order the operations, each of which is one function of the state. The JSON
  overloads only parse and are not modelled, nor is the exhaustion of memory.
\<close>

section \<open>Attributes and calls\<close>

datatype scheduler_type = MainScheduler | SecondaryScheduler

record attributes =
  at_name :: string
  at_description :: string
  at_version :: string
  at_dependencies :: "string list"
  at_own_scheduler :: bool
  at_scheduler_type :: scheduler_type
  at_bindable :: bool

definition call_group :: "attributes \<Rightarrow> string" where
  "call_group a = at_name a @ ''_call''"

definition event_group :: "attributes \<Rightarrow> string" where
  "event_group a = at_name a @ ''_event''"

definition request_group :: "attributes \<Rightarrow> string" where
  "request_group a = at_name a @ ''_request''"

record 'j function_call =
  fc_name :: string
  fc_parameters :: "'j param_map"

record 'j call_result =
  cr_name :: string
  cr_success :: bool
  cr_error :: string
  cr_data :: "'j function_value option"

record 'j batch_result =
  br_success :: bool
  br_results :: "'j call_result list"

definition make_call_result :: "string \<Rightarrow> 'j function_result \<Rightarrow> 'j call_result" where
  "make_call_result name r =
     \<lparr>cr_name = name, cr_success = success r, cr_error = error_message r, cr_data = data r\<rparr>"

definition get_function_parameter ::
  "function_value_type \<Rightarrow> 'j param_map \<Rightarrow> string option \<Rightarrow> 'j function_result + 'j function_value" where
  "get_function_parameter ty args pname =
     (case pname of
        None \<Rightarrow> Inl (error_result ''Parameter name is empty'')
      | Some n \<Rightarrow>
          (if n = [] then Inl (error_result ''Parameter name is empty'')
           else case map_of args n of
             None \<Rightarrow> Inl (error_result (''Parameter not found: '' @ n))
           | Some v \<Rightarrow>
               (if get_function_value_type v \<noteq> ty
                then Inl (error_result (''Parameter type mismatch for: '' @ n))
                else Inr v)))"

text \<open>Where a result goes: nowhere, to a handler that may throw, or into the promise a synchronous
  call waits for.\<close>

datatype ('r, 'w) sink =
    NoHandler
  | Handler "'r \<Rightarrow> 'w \<Rightarrow> string option \<times> 'w"
  | Promise nat

datatype ('j, 'w, 'c) task =
    CallTask string "'j param_map" "('j function_result, 'w) sink" 'c bool
  | BatchTask "'j function_call list" "('j batch_result, 'w) sink" 'c bool
  | EmitTask string "'j event_items" bool

section \<open>State and environment\<close>

record ('j, 'w, 'c) service =
  sv_attrs :: attributes
  sv_initialized :: bool
  sv_running :: bool
  sv_scheduler :: "ptr option"
  sv_functions :: "('j, 'w) function_registry option"
  sv_events :: "event_registry option"
  sv_queue :: "(string \<times> ('j, 'w, 'c) task) list"
  sv_results :: "(nat \<times> 'j function_result) list"
  sv_batch_results :: "(nat \<times> 'j batch_result) list"
  sv_promises :: nat
  sv_world :: 'w

datatype dispatch_outcome = Refused | Queued | RunNow

record ('j, 'w, 'c) sv_env =
  se_on_init :: "'w \<Rightarrow> bool \<times> 'w"
  se_on_deinit :: "'w \<Rightarrow> 'w"
  se_on_start :: "'w \<Rightarrow> bool \<times> 'w"
  se_on_stop :: "'w \<Rightarrow> 'w"
  se_function_schemas :: "'w \<Rightarrow> 'j function_schema list"
  se_function_handlers :: "'w \<Rightarrow> ('j, 'w) handler option list"
  se_event_schemas :: "'w \<Rightarrow> event_schema list"
  se_on_event_subscribed :: "string \<Rightarrow> 'w \<Rightarrow> 'w"
  se_on_batch_start :: "'j function_call list \<Rightarrow> 'w \<Rightarrow> 'w"
  se_on_batch_end :: "'w \<Rightarrow> 'w"
  se_slots :: "string \<Rightarrow> ('j event_items, 'w) slot_fn"
  se_new_scheduler :: "'w \<Rightarrow> ptr \<times> 'w"
  se_ts_running :: "ptr \<Rightarrow> 'w \<Rightarrow> bool"
  se_ts_start :: "ptr \<Rightarrow> 'w \<Rightarrow> bool \<times> 'w"
  se_ts_stop :: "ptr \<Rightarrow> 'w \<Rightarrow> 'w"
  se_ts_configure :: "ptr \<Rightarrow> string \<Rightarrow> 'w \<Rightarrow> bool \<times> 'w"
  se_ts_cancel :: "ptr \<Rightarrow> string \<Rightarrow> 'w \<Rightarrow> 'w"
  se_ts_post :: "ptr \<Rightarrow> string \<Rightarrow> 'w \<Rightarrow> bool \<times> 'w"
  se_ts_dispatch :: "ptr \<Rightarrow> string \<Rightarrow> 'w \<Rightarrow> dispatch_outcome \<times> 'w"
  se_in_group :: "ptr \<Rightarrow> string \<Rightarrow> 'w \<Rightarrow> bool"
  se_is_worker :: "ptr \<Rightarrow> 'w \<Rightarrow> bool"
  se_acquire_slot :: "ptr \<Rightarrow> 'w \<Rightarrow> bool \<times> 'w"
  se_release_slot :: "ptr \<Rightarrow> 'w \<Rightarrow> 'w"
  se_get_context :: "'w \<Rightarrow> 'c"
  se_set_context :: "'c \<Rightarrow> 'w \<Rightarrow> 'w"
  se_default_timeout :: u32

definition new_service :: "attributes \<Rightarrow> 'w \<Rightarrow> ('j, 'w, 'c) service" where
  "new_service a w = \<lparr>sv_attrs = a, sv_initialized = False, sv_running = False, sv_scheduler = None,
     sv_functions = None, sv_events = None, sv_queue = [], sv_results = [], sv_batch_results = [],
     sv_promises = 0, sv_world = w\<rparr>"

definition error_prefix :: "('j, 'w, 'c) service \<Rightarrow> string \<Rightarrow> string" where
  "error_prefix s name = ''['' @ at_name (sv_attrs s) @ '':'' @ name @ ''] ''"

definition batch_prefix :: "('j, 'w, 'c) service \<Rightarrow> string" where
  "batch_prefix s = ''['' @ at_name (sv_attrs s) @ '':batch] ''"

section \<open>Running a task\<close>

text \<open>\<open>set_value\<close> throws when the promise already has its value, and the throw is caught.\<close>

definition deliver :: "('j function_result, 'w) sink \<Rightarrow> 'j function_result \<Rightarrow> ('j, 'w, 'c) service \<Rightarrow> ('j, 'w, 'c) service" where
  "deliver snk r s =
     (case snk of
        NoHandler \<Rightarrow> s
      | Handler h \<Rightarrow> s\<lparr>sv_world := snd (h r (sv_world s))\<rparr>
      | Promise k \<Rightarrow> (if map_of (sv_results s) k = None then s\<lparr>sv_results := (k, r) # sv_results s\<rparr> else s))"

definition deliver_batch ::
  "('j batch_result, 'w) sink \<Rightarrow> 'j batch_result \<Rightarrow> ('j, 'w, 'c) service \<Rightarrow> ('j, 'w, 'c) service" where
  "deliver_batch snk r s =
     (case snk of
        NoHandler \<Rightarrow> s
      | Handler h \<Rightarrow> s\<lparr>sv_world := snd (h r (sv_world s))\<rparr>
      | Promise k \<Rightarrow> (if map_of (sv_batch_results s) k = None
                      then s\<lparr>sv_batch_results := (k, r) # sv_batch_results s\<rparr> else s))"

text \<open>A call whose handler throws fails with the exception's text.\<close>

definition guarded_call ::
  "(string \<Rightarrow> string) \<Rightarrow> string \<Rightarrow> 'j param_map \<Rightarrow> ('j, 'w) function_registry \<Rightarrow> 'w \<Rightarrow> 'j function_result \<times> 'w" where
  "guarded_call msg name ps reg w =
     (case fr_call name ps reg w of
        (Inl ex, w') \<Rightarrow> (error_result (msg ex), w')
      | (Inr r, w') \<Rightarrow> (r, w'))"

definition registry_of :: "('j, 'w, 'c) service \<Rightarrow> ('j, 'w) function_registry" where
  "registry_of s = (case sv_functions s of Some reg \<Rightarrow> reg | None \<Rightarrow> [])"

definition call_exception :: "('j, 'w, 'c) service \<Rightarrow> string \<Rightarrow> string \<Rightarrow> string" where
  "call_exception s name ex = error_prefix s name @ '': detected exception: '' @ ex"

definition call_in_context ::
  "('j, 'w, 'c) sv_env \<Rightarrow> 'c \<Rightarrow> string \<Rightarrow> 'j param_map \<Rightarrow> ('j, 'w, 'c) service \<Rightarrow> 'j function_result \<times> 'w" where
  "call_in_context env ctx name ps s =
     (let prev = se_get_context env (sv_world s);
          (r, w) = guarded_call (call_exception s name) name ps (registry_of s)
            (se_set_context env ctx (sv_world s))
      in (r, se_set_context env prev w))"

definition run_call ::
  "('j, 'w, 'c) sv_env \<Rightarrow> string \<Rightarrow> 'j param_map \<Rightarrow> ('j function_result, 'w) sink \<Rightarrow> 'c \<Rightarrow> bool
    \<Rightarrow> ('j, 'w, 'c) service \<Rightarrow> ('j, 'w, 'c) service" where
  "run_call env name ps snk ctx req s =
     (if sv_running s \<or> \<not> req
      then let (r, w) = call_in_context env ctx name ps s in deliver snk r (s\<lparr>sv_world := w\<rparr>)
      else deliver snk (error_result (error_prefix s name @ '': service is not running'')) s)"

text \<open>The loop of a batch stops after the first failure.\<close>

fun batch_calls ::
  "(string \<Rightarrow> string \<Rightarrow> string) \<Rightarrow> ('j, 'w) function_registry \<Rightarrow> 'j function_call list \<Rightarrow> 'j batch_result \<Rightarrow> 'w
    \<Rightarrow> 'j batch_result \<times> 'w" where
  "batch_calls msg reg [] br w = (br, w)"
| "batch_calls msg reg (c # cs) br w =
     (case guarded_call (msg (fc_name c)) (fc_name c) (fc_parameters c) reg w of (r, w') \<Rightarrow>
       let br' = br\<lparr>br_results := br_results br @ [make_call_result (fc_name c) r]\<rparr>
       in if \<not> success r then (br'\<lparr>br_success := False\<rparr>, w') else batch_calls msg reg cs br' w')"

definition batch_exception :: "('j, 'w, 'c) service \<Rightarrow> string \<Rightarrow> string \<Rightarrow> string" where
  "batch_exception s name ex = batch_prefix s @ '': function '' @ CHR 0x27 # name @ CHR 0x27 # '' detected exception: '' @ ex"

definition batch_failure :: "string \<Rightarrow> 'j batch_result" where
  "batch_failure msg = \<lparr>br_success = False,
     br_results = [\<lparr>cr_name = [], cr_success = False, cr_error = msg, cr_data = None\<rparr>]\<rparr>"

definition batch_in_context ::
  "('j, 'w, 'c) sv_env \<Rightarrow> 'c \<Rightarrow> 'j function_call list \<Rightarrow> ('j, 'w, 'c) service \<Rightarrow> 'j batch_result \<times> 'w" where
  "batch_in_context env ctx cs s =
     (let prev = se_get_context env (sv_world s);
          w1 = se_on_batch_start env cs (se_set_context env ctx (sv_world s));
          (br, w2) = batch_calls (batch_exception s) (registry_of s) cs \<lparr>br_success = True, br_results = []\<rparr> w1
      in (br, se_set_context env prev (se_on_batch_end env w2)))"

definition run_batch ::
  "('j, 'w, 'c) sv_env \<Rightarrow> 'j function_call list \<Rightarrow> ('j batch_result, 'w) sink \<Rightarrow> 'c \<Rightarrow> bool
    \<Rightarrow> ('j, 'w, 'c) service \<Rightarrow> ('j, 'w, 'c) service" where
  "run_batch env cs snk ctx req s =
     (if \<not> sv_running s \<and> req
      then deliver_batch snk (batch_failure (batch_prefix s @ '': service is not running'')) s
      else let (br, w) = batch_in_context env ctx cs s in deliver_batch snk br (s\<lparr>sv_world := w\<rparr>))"

definition put_signal :: "string \<Rightarrow> signal \<Rightarrow> event_registry \<Rightarrow> event_registry" where
  "put_signal name sig r = map (\<lambda>e. if fst e = name then (name, fst (snd e), sig) else e) r"

text \<open>An exception that a slot throws ends the emission and is caught.\<close>

definition run_emit ::
  "('j, 'w, 'c) sv_env \<Rightarrow> string \<Rightarrow> 'j event_items \<Rightarrow> bool \<Rightarrow> ('j, 'w, 'c) service \<Rightarrow> ('j, 'w, 'c) service" where
  "run_emit env name items req s =
     (if sv_running s \<or> \<not> req
      then case sv_events s of
          None \<Rightarrow> s
        | Some er \<Rightarrow>
            (case er_get_signal er name of
               None \<Rightarrow> s
             | Some sig \<Rightarrow>
                 (case emit (se_slots env name) items (sig, sv_world s) of (_, sig', w) \<Rightarrow>
                   s\<lparr>sv_events := Some (put_signal name sig' er), sv_world := w\<rparr>))
      else s)"

fun run_task :: "('j, 'w, 'c) sv_env \<Rightarrow> ('j, 'w, 'c) task \<Rightarrow> ('j, 'w, 'c) service \<Rightarrow> ('j, 'w, 'c) service" where
  "run_task env (CallTask name ps snk ctx req) s = run_call env name ps snk ctx req s"
| "run_task env (BatchTask cs snk ctx req) s = run_batch env cs snk ctx req s"
| "run_task env (EmitTask name items req) s = run_emit env name items req s"

text \<open>The next task of a group.\<close>

fun take_task :: "string \<Rightarrow> (string \<times> 't) list \<Rightarrow> ('t \<times> (string \<times> 't) list) option" where
  "take_task g [] = None"
| "take_task g (e # q) =
     (if fst e = g then Some (snd e, q)
      else case take_task g q of None \<Rightarrow> None | Some (t, q') \<Rightarrow> Some (t, e # q'))"

definition run_next :: "('j, 'w, 'c) sv_env \<Rightarrow> string \<Rightarrow> ('j, 'w, 'c) service \<Rightarrow> ('j, 'w, 'c) service" where
  "run_next env g s =
     (case take_task g (sv_queue s) of
        None \<Rightarrow> s
      | Some (t, q) \<Rightarrow> run_task env t (s\<lparr>sv_queue := q\<rparr>))"

definition post_task ::
  "('j, 'w, 'c) sv_env \<Rightarrow> string \<Rightarrow> ('j, 'w, 'c) task \<Rightarrow> ('j, 'w, 'c) service \<Rightarrow> bool \<times> ('j, 'w, 'c) service" where
  "post_task env g t s =
     (case sv_scheduler s of
        None \<Rightarrow> (False, s)
      | Some p \<Rightarrow>
          (case se_ts_post env p g (sv_world s) of (ok, w) \<Rightarrow>
             (ok, s\<lparr>sv_queue := (if ok then sv_queue s @ [(g, t)] else sv_queue s), sv_world := w\<rparr>)))"

section \<open>Asynchronous calls\<close>

definition call_function_async ::
  "('j, 'w, 'c) sv_env \<Rightarrow> string \<Rightarrow> 'j param_map \<Rightarrow> ('j function_result, 'w) sink
    \<Rightarrow> ('j, 'w, 'c) service \<Rightarrow> bool \<times> ('j, 'w, 'c) service" where
  "call_function_async env name ps snk s =
     (if \<not> sv_initialized s then (False, s)
      else case (sv_functions s, sv_scheduler s) of
        (Some reg, Some p) \<Rightarrow>
          (case fr_get_schema reg name of
             None \<Rightarrow> (False, s)
           | Some sch \<Rightarrow>
               (let ctx = se_get_context env (sv_world s); req = fs_require_scheduler sch in
                if \<not> req then (True, run_call env name ps snk ctx req s)
                else if \<not> sv_running s then (False, s)
                else post_task env (call_group (sv_attrs s)) (CallTask name ps snk ctx req) s))
      | _ \<Rightarrow> (False, s))"

text \<open>The overload with positional values: later parameters of the same name overwrite.\<close>

definition name_parameters :: "'j param_schema list \<Rightarrow> 'j function_value list \<Rightarrow> 'j param_map" where
  "name_parameters params vs = fold (\<lambda>(n, v). smap_put n v) (zip (map p_name params) vs) []"

definition call_function_async_values ::
  "('j, 'w, 'c) sv_env \<Rightarrow> string \<Rightarrow> 'j function_value list \<Rightarrow> ('j function_result, 'w) sink
    \<Rightarrow> ('j, 'w, 'c) service \<Rightarrow> bool \<times> ('j, 'w, 'c) service" where
  "call_function_async_values env name vs snk s =
     (case sv_functions s of
        None \<Rightarrow> (False, s)
      | Some reg \<Rightarrow>
          (case fr_get_schema reg name of
             None \<Rightarrow> (False, s)
           | Some sch \<Rightarrow> call_function_async env name (name_parameters (fs_parameters sch) vs) snk s))"

text \<open>The batch needs the scheduler when one of its functions does.\<close>

fun batch_requires :: "('j, 'w) function_registry \<Rightarrow> 'j function_call list \<Rightarrow> bool \<Rightarrow> bool option" where
  "batch_requires reg [] req = Some req"
| "batch_requires reg (c # cs) req =
     (case fr_get_schema reg (fc_name c) of
        None \<Rightarrow> None
      | Some sch \<Rightarrow> batch_requires reg cs (req \<or> fs_require_scheduler sch))"

definition call_functions_async ::
  "('j, 'w, 'c) sv_env \<Rightarrow> 'j function_call list \<Rightarrow> ('j batch_result, 'w) sink
    \<Rightarrow> ('j, 'w, 'c) service \<Rightarrow> bool \<times> ('j, 'w, 'c) service" where
  "call_functions_async env cs snk s =
     (if \<not> sv_initialized s then (False, s)
      else case (sv_functions s, sv_scheduler s) of
        (Some reg, Some p) \<Rightarrow>
          (case batch_requires reg cs False of
             None \<Rightarrow> (False, s)
           | Some req \<Rightarrow>
               (let ctx = se_get_context env (sv_world s) in
                if \<not> req then (True, run_batch env cs snk ctx req s)
                else if \<not> sv_running s then (False, s)
                else post_task env (call_group (sv_attrs s)) (BatchTask cs snk ctx req) s))
      | _ \<Rightarrow> (False, s))"

section \<open>Synchronous calls\<close>

text \<open>
  The caller waits on the future of the promise \<open>k\<close> while the scheduler runs tasks: \<open>sched\<close>
  lists the groups that get a turn within the timeout. The wait ends as soon as the result is there.
\<close>

fun wait_result ::
  "('j, 'w, 'c) sv_env \<Rightarrow> (('j, 'w, 'c) service \<Rightarrow> bool) \<Rightarrow> string list
    \<Rightarrow> ('j, 'w, 'c) service \<Rightarrow> ('j, 'w, 'c) service" where
  "wait_result env ready [] s = s"
| "wait_result env ready (g # gs) s =
     (if ready s then s else wait_result env ready gs (run_next env g s))"

definition result_ready :: "nat \<Rightarrow> ('j, 'w, 'c) service \<Rightarrow> bool" where
  "result_ready k s \<longleftrightarrow> map_of (sv_results s) k \<noteq> None"

definition batch_ready :: "nat \<Rightarrow> ('j, 'w, 'c) service \<Rightarrow> bool" where
  "batch_ready k s \<longleftrightarrow> map_of (sv_batch_results s) k \<noteq> None"

definition wait_timeout :: "u32 \<Rightarrow> string" where
  "wait_timeout ms = ''Wait timeout after '' @ dec (unat ms) @ '' ms''"

definition effective_timeout :: "('j, 'w, 'c) sv_env \<Rightarrow> 'j function_schema \<Rightarrow> u32 \<Rightarrow> u32" where
  "effective_timeout env sch ms =
     (if ms = 0 then (case fs_default_timeout_ms sch of Some d \<Rightarrow> d | None \<Rightarrow> se_default_timeout env) else ms)"

text \<open>The part after the wait slot; \<open>None\<close> is a \<open>get\<close> that never returns.\<close>

definition sync_wait ::
  "('j, 'w, 'c) sv_env \<Rightarrow> string list \<Rightarrow> string \<Rightarrow> 'j param_map \<Rightarrow> u32 \<Rightarrow> bool
    \<Rightarrow> ('j, 'w, 'c) service \<Rightarrow> 'j function_result option \<times> ('j, 'w, 'c) service" where
  "sync_wait env sched name ps ms req s =
     (let k = sv_promises s;
          (ok, s1) = call_function_async env name ps (Promise k) (s\<lparr>sv_promises := k + 1\<rparr>)
      in if \<not> ok then (Some (error_result ''Failed to call function asynchronously''), s1)
         else let s2 = (if req then wait_result env (result_ready k) sched s1 else s1)
              in if req \<and> \<not> result_ready k s2
                 then (Some (error_result (wait_timeout ms)), s2)
                 else (map_of (sv_results s2) k, s2))"

definition call_function_sync ::
  "('j, 'w, 'c) sv_env \<Rightarrow> string list \<Rightarrow> string \<Rightarrow> 'j param_map \<Rightarrow> u32
    \<Rightarrow> ('j, 'w, 'c) service \<Rightarrow> 'j function_result option \<times> ('j, 'w, 'c) service" where
  "call_function_sync env sched name ps ms s =
     (case sv_functions s of
        None \<Rightarrow> (Some (error_result ''%1%: function registry is not available''), s)
      | Some reg \<Rightarrow>
          (case fr_get_schema reg name of
             None \<Rightarrow> (Some (error_result ''Function not found''), s)
           | Some sch \<Rightarrow>
               (let req = fs_require_scheduler sch; w = sv_world s; ms' = effective_timeout env sch ms in
                case sv_scheduler s of
                  None \<Rightarrow> sync_wait env sched name ps ms' req s
                | Some p \<Rightarrow>
                    if req \<and> se_in_group env p (call_group (sv_attrs s)) w
                    then (if sv_running s
                          then (case guarded_call (call_exception s name) name ps reg w of (r, w') \<Rightarrow>
                                  (Some r, s\<lparr>sv_world := w'\<rparr>))
                          else (Some (error_result (error_prefix s name @ '': service is not running'')), s))
                    else if req \<and> se_is_worker env p w
                    then (case se_acquire_slot env p w of
                        (False, w') \<Rightarrow>
                          (Some (error_result (error_prefix s name @
                             ''synchronous cross-group call has no available scheduler worker'')),
                           s\<lparr>sv_world := w'\<rparr>)
                      | (True, w') \<Rightarrow>
                          (case sync_wait env sched name ps ms' req (s\<lparr>sv_world := w'\<rparr>) of (r, s2) \<Rightarrow>
                             (r, s2\<lparr>sv_world := se_release_slot env p (sv_world s2)\<rparr>)))
                    else sync_wait env sched name ps ms' req s)))"

definition call_function_sync_values ::
  "('j, 'w, 'c) sv_env \<Rightarrow> string list \<Rightarrow> string \<Rightarrow> 'j function_value list \<Rightarrow> u32
    \<Rightarrow> ('j, 'w, 'c) service \<Rightarrow> 'j function_result option \<times> ('j, 'w, 'c) service" where
  "call_function_sync_values env sched name vs ms s =
     (case sv_functions s of
        None \<Rightarrow> (Some (error_result ''%1%: function registry is not available''), s)
      | Some reg \<Rightarrow>
          (case fr_get_schema reg name of
             None \<Rightarrow> (Some (error_result ''Function not found''), s)
           | Some sch \<Rightarrow> call_function_sync env sched name (name_parameters (fs_parameters sch) vs) ms s))"

definition call_functions_sync ::
  "('j, 'w, 'c) sv_env \<Rightarrow> string list \<Rightarrow> 'j function_call list \<Rightarrow> u32
    \<Rightarrow> ('j, 'w, 'c) service \<Rightarrow> 'j batch_result \<times> ('j, 'w, 'c) service" where
  "call_functions_sync env sched cs ms s =
     (let k = sv_promises s;
          (ok, s1) = call_functions_async env cs (Promise k) (s\<lparr>sv_promises := k + 1\<rparr>)
      in if \<not> ok then (batch_failure ''Failed to call functions asynchronously'', s1)
         else let s2 = wait_result env (batch_ready k) sched s1
              in case map_of (sv_batch_results s2) k of
                   None \<Rightarrow> (batch_failure (wait_timeout ms), s2)
                 | Some r \<Rightarrow> (r, s2))"

section \<open>Registrations\<close>

fun add_functions ::
  "('j function_schema \<times> ('j, 'w) handler option) list \<Rightarrow> ('j, 'w) function_registry \<Rightarrow> ('j, 'w) function_registry" where
  "add_functions [] reg = reg"
| "add_functions ((sch, h) # fs) reg = add_functions fs (snd (fr_add sch h reg))"

definition register_functions ::
  "'j function_schema list \<Rightarrow> ('j, 'w) handler option list \<Rightarrow> ('j, 'w, 'c) service \<Rightarrow> bool \<times> ('j, 'w, 'c) service" where
  "register_functions schs hs s =
     (if \<not> sv_initialized s then (False, s)
      else if length hs \<noteq> length schs then (False, s)
      else (True, s\<lparr>sv_functions := map_option (add_functions (zip schs hs)) (sv_functions s)\<rparr>))"

definition unregister_functions :: "string list \<Rightarrow> ('j, 'w, 'c) service \<Rightarrow> bool \<times> ('j, 'w, 'c) service" where
  "unregister_functions names s =
     (if \<not> sv_initialized s then (False, s)
      else (True, s\<lparr>sv_functions := map_option (fold (\<lambda>n reg. snd (fr_remove n reg)) names) (sv_functions s)\<rparr>))"

definition register_events :: "event_schema list \<Rightarrow> ('j, 'w, 'c) service \<Rightarrow> bool \<times> ('j, 'w, 'c) service" where
  "register_events schs s =
     (if \<not> sv_initialized s then (False, s)
      else (True, s\<lparr>sv_events := map_option (fold (\<lambda>sch er. snd (er_add sch er)) schs) (sv_events s)\<rparr>))"

definition unregister_events :: "string list \<Rightarrow> ('j, 'w, 'c) service \<Rightarrow> bool \<times> ('j, 'w, 'c) service" where
  "unregister_events names s =
     (if \<not> sv_initialized s then (False, s)
      else (True, s\<lparr>sv_events := map_option (fold er_remove names) (sv_events s)\<rparr>))"

text \<open>The connection of a subscription, \<open>None\<close> when it failed.\<close>

definition subscribe_event ::
  "('j, 'w, 'c) sv_env \<Rightarrow> string \<Rightarrow> ('j, 'w, 'c) service \<Rightarrow> conn \<times> ('j, 'w, 'c) service" where
  "subscribe_event env name s =
     (if \<not> sv_initialized s then (None, s)
      else case sv_events s of
        None \<Rightarrow> (None, s)
      | Some er \<Rightarrow>
          (case er_get_signal er name of
             None \<Rightarrow> (None, s)
           | Some sig \<Rightarrow>
               (case sig_connect sig of (c, sig') \<Rightarrow>
                 (c, s\<lparr>sv_events := Some (put_signal name sig' er),
                       sv_world := (if connected c sig' then se_on_event_subscribed env name (sv_world s)
                                    else sv_world s)\<rparr>))))"

section \<open>Publishing events\<close>

definition dispatch_task ::
  "('j, 'w, 'c) sv_env \<Rightarrow> string \<Rightarrow> ('j, 'w, 'c) task \<Rightarrow> ('j, 'w, 'c) service \<Rightarrow> bool \<times> ('j, 'w, 'c) service" where
  "dispatch_task env g t s =
     (case sv_scheduler s of
        None \<Rightarrow> (False, s)
      | Some p \<Rightarrow>
          (case se_ts_dispatch env p g (sv_world s) of
             (Refused, w) \<Rightarrow> (False, s\<lparr>sv_world := w\<rparr>)
           | (Queued, w) \<Rightarrow> (True, s\<lparr>sv_queue := sv_queue s @ [(g, t)], sv_world := w\<rparr>)
           | (RunNow, w) \<Rightarrow> (True, run_task env t (s\<lparr>sv_world := w\<rparr>))))"

definition publish_event ::
  "('j, 'w, 'c) sv_env \<Rightarrow> string \<Rightarrow> 'j event_items \<Rightarrow> bool \<Rightarrow> ('j, 'w, 'c) service
    \<Rightarrow> bool \<times> ('j, 'w, 'c) service" where
  "publish_event env name items use_dispatch s =
     (case (sv_events s, sv_scheduler s) of
        (Some er, Some p) \<Rightarrow>
          (case er_get_signal er name of
             None \<Rightarrow> (False, s)
           | Some sig \<Rightarrow>
               (if num_slots sig = 0 then (True, s)
                else case er_get_schema er name of
                  None \<Rightarrow> (False, s)
                | Some sch \<Rightarrow>
                    (let req = es_require_scheduler sch; t = EmitTask name items req in
                     if \<not> validate_items er name items then (False, s)
                     else if \<not> req then (True, run_task env t s)
                     else if \<not> sv_running s then (False, s)
                     else if use_dispatch then dispatch_task env (event_group (sv_attrs s)) t s
                     else post_task env (event_group (sv_attrs s)) t s)))
      | _ \<Rightarrow> (False, s))"

definition name_items :: "event_item_schema list \<Rightarrow> 'j event_item list \<Rightarrow> 'j event_items" where
  "name_items schs vs = fold (\<lambda>(n, v). smap_put n v) (zip (map ei_name schs) vs) []"

definition publish_event_values ::
  "('j, 'w, 'c) sv_env \<Rightarrow> string \<Rightarrow> 'j event_item list \<Rightarrow> bool \<Rightarrow> ('j, 'w, 'c) service
    \<Rightarrow> bool \<times> ('j, 'w, 'c) service" where
  "publish_event_values env name vs use_dispatch s =
     (case sv_events s of
        None \<Rightarrow> (False, s)
      | Some er \<Rightarrow>
          (case er_get_schema er name of
             None \<Rightarrow> (False, s)
           | Some sch \<Rightarrow>
               (if length vs \<noteq> length (es_items sch) then (False, s)
                else publish_event env name (name_items (es_items sch) vs) use_dispatch s)))"

section \<open>Life cycle\<close>

definition set_task_scheduler :: "ptr option \<Rightarrow> ('j, 'w, 'c) service \<Rightarrow> bool \<times> ('j, 'w, 'c) service" where
  "set_task_scheduler p s = (if sv_running s then (False, s) else (True, s\<lparr>sv_scheduler := p\<rparr>))"

text \<open>Stopping the service's own scheduler drops every task; on a shared one the three groups are
  cancelled.\<close>

definition stop_internal :: "('j, 'w, 'c) sv_env \<Rightarrow> ('j, 'w, 'c) service \<Rightarrow> ('j, 'w, 'c) service" where
  "stop_internal env s =
     (if \<not> sv_running s then s
      else let a = sv_attrs s;
               s1 = s\<lparr>sv_world := se_on_stop env (sv_world s), sv_running := False\<rparr>
           in case sv_scheduler s1 of
                None \<Rightarrow> s1
              | Some p \<Rightarrow>
                  if at_own_scheduler a
                  then s1\<lparr>sv_world := se_ts_stop env p (sv_world s1), sv_queue := []\<rparr>
                  else s1\<lparr>sv_world := se_ts_cancel env p (request_group a) (se_ts_cancel env p (event_group a)
                            (se_ts_cancel env p (call_group a) (sv_world s1))),
                          sv_queue := filter (\<lambda>e. fst e \<notin> {call_group a, event_group a, request_group a})
                            (sv_queue s1)\<rparr>)"

definition start_scheduler ::
  "('j, 'w, 'c) sv_env \<Rightarrow> attributes \<Rightarrow> ptr \<Rightarrow> 'w \<Rightarrow> bool \<times> 'w" where
  "start_scheduler env a p w =
     (if se_ts_running env p w then (True, w)
      else if \<not> at_own_scheduler a then (False, w)
      else se_ts_start env p w)"

fun configure_groups :: "('j, 'w, 'c) sv_env \<Rightarrow> ptr \<Rightarrow> string list \<Rightarrow> 'w \<Rightarrow> bool \<times> 'w" where
  "configure_groups env p [] w = (True, w)"
| "configure_groups env p (g # gs) w =
     (case se_ts_configure env p g w of (ok, w') \<Rightarrow> if ok then configure_groups env p gs w' else (False, w'))"

text \<open>What the start does to the world once the service is marked running.\<close>

definition start_steps :: "('j, 'w, 'c) sv_env \<Rightarrow> attributes \<Rightarrow> ptr option \<Rightarrow> 'w \<Rightarrow> bool \<times> 'w" where
  "start_steps env a sch w =
     (case sch of
        None \<Rightarrow> (False, w)
      | Some p \<Rightarrow>
          (case start_scheduler env a p w of
             (False, w1) \<Rightarrow> (False, w1)
           | (True, w1) \<Rightarrow>
               (case configure_groups env p [call_group a, event_group a, request_group a] w1 of
                  (False, w2) \<Rightarrow> (False, w2)
                | (True, w2) \<Rightarrow> se_on_start env w2)))"

definition sv_start :: "('j, 'w, 'c) sv_env \<Rightarrow> ('j, 'w, 'c) service \<Rightarrow> bool \<times> ('j, 'w, 'c) service" where
  "sv_start env s =
     (if sv_running s then (True, s)
      else if \<not> sv_initialized s then (False, s)
      else case start_steps env (sv_attrs s) (sv_scheduler s) (sv_world s) of
        (True, w) \<Rightarrow> (True, s\<lparr>sv_running := True, sv_world := w\<rparr>)
      | (False, w) \<Rightarrow> (False, stop_internal env (s\<lparr>sv_running := True, sv_world := w\<rparr>)))"

definition sv_stop :: "('j, 'w, 'c) sv_env \<Rightarrow> ('j, 'w, 'c) service \<Rightarrow> ('j, 'w, 'c) service" where
  "sv_stop env s = stop_internal env s"

definition sv_deinit :: "('j, 'w, 'c) sv_env \<Rightarrow> ('j, 'w, 'c) service \<Rightarrow> ('j, 'w, 'c) service" where
  "sv_deinit env s =
     (if \<not> sv_initialized s then s
      else let s1 = (if sv_running s then stop_internal env s else s)
           in s1\<lparr>sv_world := se_on_deinit env (sv_world s1), sv_scheduler := None, sv_functions := None,
                 sv_events := None, sv_initialized := False\<rparr>)"

definition pick_scheduler ::
  "('j, 'w, 'c) sv_env \<Rightarrow> ptr option \<Rightarrow> ('j, 'w, 'c) service \<Rightarrow> bool \<times> ('j, 'w, 'c) service" where
  "pick_scheduler env sch s =
     (if at_own_scheduler (sv_attrs s)
      then (case se_new_scheduler env (sv_world s) of (p, w) \<Rightarrow> (True, s\<lparr>sv_scheduler := Some p, sv_world := w\<rparr>))
      else case sch of None \<Rightarrow> (False, s) | Some p \<Rightarrow> (True, s\<lparr>sv_scheduler := Some p\<rparr>))"

definition fill_registries :: "('j, 'w, 'c) sv_env \<Rightarrow> ('j, 'w, 'c) service \<Rightarrow> bool \<times> ('j, 'w, 'c) service" where
  "fill_registries env s =
     (let s1 = s\<lparr>sv_functions := Some [], sv_events := Some []\<rparr> in
      case se_on_init env (sv_world s1) of
        (False, w) \<Rightarrow> (False, s1\<lparr>sv_world := w\<rparr>)
      | (True, w) \<Rightarrow>
          (case register_functions (se_function_schemas env w) (se_function_handlers env w) (s1\<lparr>sv_world := w\<rparr>) of
             (False, s2) \<Rightarrow> (False, s2)
           | (True, s2) \<Rightarrow>
               (let evs = se_event_schemas env (sv_world s2) in
                if evs \<noteq> [] then register_events evs s2 else (True, s2))))"

definition sv_init ::
  "('j, 'w, 'c) sv_env \<Rightarrow> ptr option \<Rightarrow> ('j, 'w, 'c) service \<Rightarrow> bool \<times> ('j, 'w, 'c) service" where
  "sv_init env sch s =
     (if sv_initialized s then (True, s)
      else if at_name (sv_attrs s) = [] \<or> at_description (sv_attrs s) = [] \<or> at_version (sv_attrs s) = []
      then (False, s)
      else case pick_scheduler env sch (s\<lparr>sv_initialized := True\<rparr>) of
        (False, s1) \<Rightarrow> (False, sv_deinit env s1)
      | (True, s1) \<Rightarrow>
          (case fill_registries env s1 of
             (False, s2) \<Rightarrow> (False, sv_deinit env s2)
           | (True, s2) \<Rightarrow> (True, s2)))"

section \<open>What running a task leaves alone\<close>

definition event_schemas_of :: "('j, 'w, 'c) service \<Rightarrow> (string \<times> event_schema) list option" where
  "event_schemas_of s = map_option (map (\<lambda>e. (fst e, fst (snd e)))) (sv_events s)"

definition frame :: "('j, 'w, 'c) service \<Rightarrow> ('j, 'w, 'c) service \<Rightarrow> bool" where
  "frame s s' \<longleftrightarrow> sv_attrs s' = sv_attrs s \<and> sv_initialized s' = sv_initialized s \<and>
     sv_running s' = sv_running s \<and> sv_scheduler s' = sv_scheduler s \<and> sv_functions s' = sv_functions s \<and>
     sv_promises s' = sv_promises s \<and> event_schemas_of s' = event_schemas_of s"

definition event_keys_ok :: "(string \<times> event_schema) list \<Rightarrow> bool" where
  "event_keys_ok es \<longleftrightarrow> sorted_wrt (<) (map fst es) \<and> [] \<notin> fst ` set es"

lemma er_ok_keys: "er_ok er \<longleftrightarrow> event_keys_ok (map (\<lambda>e. (fst e, fst (snd e))) er)"
  by (auto simp: er_ok_def event_keys_ok_def smap_ok_def map_of_eq_None_iff comp_def image_iff)

lemma put_signal_schemas [simp]:
  "map (\<lambda>e. (fst e, fst (snd e))) (put_signal name sig r) = map (\<lambda>e. (fst e, fst (snd e))) r"
  by (induction r) (auto simp: put_signal_def)

lemma map_of_put_signal:
  "map_of (put_signal name sig r) k =
    (if k = name then map_option (\<lambda>e. (fst e, sig)) (map_of r k) else map_of r k)"
  by (induction r) (auto simp: put_signal_def)

lemma frame_refl [simp]: "frame s s"
  by (simp add: frame_def)

lemma frame_trans: "frame s t \<Longrightarrow> frame t u \<Longrightarrow> frame s u"
  by (simp add: frame_def)

lemma frame_world [simp]: "frame (s\<lparr>sv_world := w\<rparr>) t \<longleftrightarrow> frame s t"
  by (simp add: frame_def event_schemas_of_def)

lemma frame_deliver [simp]: "frame s (deliver snk r t) \<longleftrightarrow> frame s t"
  by (simp add: frame_def event_schemas_of_def deliver_def split: sink.splits)

lemma frame_deliver_batch [simp]: "frame s (deliver_batch snk r t) \<longleftrightarrow> frame s t"
  by (simp add: frame_def event_schemas_of_def deliver_batch_def split: sink.splits)

lemma frame_set_world [simp]: "frame s (t\<lparr>sv_world := w\<rparr>) \<longleftrightarrow> frame s t"
  by (simp add: frame_def event_schemas_of_def)

lemma queue_deliver [simp]:
  "sv_queue (deliver snk r s) = sv_queue s" "sv_queue (deliver_batch snk' br s) = sv_queue s"
  by (simp_all add: deliver_def deliver_batch_def split: sink.splits)

lemma frame_run_call: "frame s (run_call env name ps snk ctx req s) \<and>
    sv_queue (run_call env name ps snk ctx req s) = sv_queue s"
  by (simp add: run_call_def split_def Let_def)

lemma frame_run_batch: "frame s (run_batch env cs snk ctx req s) \<and>
    sv_queue (run_batch env cs snk ctx req s) = sv_queue s"
  by (simp add: run_batch_def split_def Let_def)

lemma frame_run_emit: "frame s (run_emit env name items req s) \<and>
    sv_queue (run_emit env name items req s) = sv_queue s"
  by (auto simp: run_emit_def frame_def event_schemas_of_def split: option.splits prod.splits)

lemma frame_run_task: "frame s (run_task env t s) \<and> sv_queue (run_task env t s) = sv_queue s"
  by (cases t) (simp_all add: frame_run_call frame_run_batch frame_run_emit)

lemma frame_set_queue [simp]: "frame (s\<lparr>sv_queue := q\<rparr>) t \<longleftrightarrow> frame s t" "frame s (t\<lparr>sv_queue := q\<rparr>) \<longleftrightarrow> frame s t"
  by (simp_all add: frame_def event_schemas_of_def)

lemma take_task_set: "take_task g q = Some (t, q') \<Longrightarrow> (g, t) \<in> set q \<and> set q' \<subseteq> set q"
  by (induction q arbitrary: t q') (auto split: if_splits option.splits)

lemma frame_run_next: "frame s (run_next env g s) \<and> set (sv_queue (run_next env g s)) \<subseteq> set (sv_queue s)"
proof (cases "take_task g (sv_queue s)")
  case None
  then show ?thesis by (simp add: run_next_def)
next
  case (Some a)
  obtain t q where a: "a = (t, q)" by (cases a)
  show ?thesis
    using frame_run_task [of "s\<lparr>sv_queue := q\<rparr>" env t] take_task_set [of g "sv_queue s" t q] Some
    by (simp add: run_next_def a)
qed

lemma frame_wait: "frame s (wait_result env rdy gs s) \<and>
    set (sv_queue (wait_result env rdy gs s)) \<subseteq> set (sv_queue s)"
proof (induction gs arbitrary: s)
  case (Cons g gs)
  then show ?case using Cons.IH [of "run_next env g s"] frame_run_next [of s env g]
    by (auto intro: frame_trans)
qed simp

section \<open>The invariant of a service\<close>

fun sink_below :: "nat \<Rightarrow> ('r, 'w) sink \<Rightarrow> bool" where
  "sink_below n (Promise k) = (k < n)"
| "sink_below n NoHandler = True"
| "sink_below n (Handler h) = True"

fun task_below :: "nat \<Rightarrow> ('j, 'w, 'c) task \<Rightarrow> bool" where
  "task_below n (CallTask name ps snk ctx req) = (sink_below n snk \<and> req)"
| "task_below n (BatchTask cs snk ctx req) = (sink_below n snk \<and> req)"
| "task_below n (EmitTask name items req) = req"

definition promises_ok :: "('j, 'w, 'c) service \<Rightarrow> bool" where
  "promises_ok s \<longleftrightarrow> (\<forall>k \<in> fst ` set (sv_results s). k < sv_promises s) \<and>
     (\<forall>k \<in> fst ` set (sv_batch_results s). k < sv_promises s) \<and>
     (\<forall>e \<in> set (sv_queue s). task_below (sv_promises s) (snd e) \<and>
       fst e \<in> {call_group (sv_attrs s), event_group (sv_attrs s)})"

definition life_ok :: "('j, 'w, 'c) service \<Rightarrow> bool" where
  "life_ok s \<longleftrightarrow> (sv_running s \<longrightarrow> sv_initialized s \<and> sv_scheduler s \<noteq> None) \<and>
     (sv_functions s = None \<longleftrightarrow> \<not> sv_initialized s) \<and>
     (event_schemas_of s = None \<longleftrightarrow> \<not> sv_initialized s) \<and>
     (\<forall>reg. sv_functions s = Some reg \<longrightarrow> fr_ok reg) \<and>
     (\<forall>es. event_schemas_of s = Some es \<longrightarrow> event_keys_ok es)"

definition sv_inv :: "('j, 'w, 'c) service \<Rightarrow> bool" where
  "sv_inv s \<longleftrightarrow> life_ok s \<and> promises_ok s \<and> (\<not> sv_running s \<longrightarrow> sv_queue s = [])"

lemma events_none [simp]: "event_schemas_of s = None \<longleftrightarrow> sv_events s = None"
  by (simp add: event_schemas_of_def)

lemma life_ok_frame: "life_ok s \<Longrightarrow> frame s t \<Longrightarrow> life_ok t"
  by (simp add: life_ok_def frame_def del: events_none)

text \<open>Only tasks write results, each to its own sink.\<close>

definition results_ok :: "('j, 'w, 'c) service \<Rightarrow> bool" where
  "results_ok s \<longleftrightarrow> (\<forall>k \<in> fst ` set (sv_results s). k < sv_promises s) \<and>
     (\<forall>k \<in> fst ` set (sv_batch_results s). k < sv_promises s)"

lemma results_ok_deliver:
  "results_ok s \<Longrightarrow> sink_below (sv_promises s) snk \<Longrightarrow> results_ok (deliver snk r s)"
  "results_ok s \<Longrightarrow> sink_below (sv_promises s) snk' \<Longrightarrow> results_ok (deliver_batch snk' br s)"
  by (cases snk; simp add: deliver_def results_ok_def) (cases snk'; simp add: deliver_batch_def results_ok_def)

lemma results_ok_world [simp]:
  "results_ok (s\<lparr>sv_world := w\<rparr>) \<longleftrightarrow> results_ok s" "results_ok (s\<lparr>sv_queue := q\<rparr>) \<longleftrightarrow> results_ok s"
  "results_ok (s\<lparr>sv_events := er\<rparr>) \<longleftrightarrow> results_ok s"
  by (simp_all add: results_ok_def)

lemma results_ok_run_call:
  "results_ok s \<Longrightarrow> sink_below (sv_promises s) snk \<Longrightarrow> results_ok (run_call env name ps snk ctx req s)"
  by (simp add: run_call_def split_def Let_def results_ok_deliver)

lemma results_ok_run_batch:
  "results_ok s \<Longrightarrow> sink_below (sv_promises s) snk \<Longrightarrow> results_ok (run_batch env cs snk ctx req s)"
  by (simp add: run_batch_def split_def Let_def results_ok_deliver)

lemma results_ok_run_emit: "results_ok s \<Longrightarrow> results_ok (run_emit env name items req s)"
proof -
  have "sv_results (run_emit env name items req s) = sv_results s"
    "sv_batch_results (run_emit env name items req s) = sv_batch_results s"
    "sv_promises (run_emit env name items req s) = sv_promises s"
    by (simp_all add: run_emit_def split_def split: option.splits)
  then show "results_ok s \<Longrightarrow> results_ok (run_emit env name items req s)" by (simp add: results_ok_def)
qed

lemma results_ok_run_task:
  "results_ok s \<Longrightarrow> task_below (sv_promises s) t \<Longrightarrow> results_ok (run_task env t s)"
  by (cases t) (simp_all add: results_ok_run_call results_ok_run_batch results_ok_run_emit)

lemma promises_ok_alt: "promises_ok s \<longleftrightarrow> results_ok s \<and>
    (\<forall>e \<in> set (sv_queue s). task_below (sv_promises s) (snd e) \<and>
       fst e \<in> {call_group (sv_attrs s), event_group (sv_attrs s)})"
  by (auto simp: promises_ok_def results_ok_def)

lemma run_next_promises_ok:
  assumes "promises_ok s"
  shows "promises_ok (run_next env g s)"
proof -
  have f: "frame s (run_next env g s)" "set (sv_queue (run_next env g s)) \<subseteq> set (sv_queue s)"
    using frame_run_next by auto
  have "results_ok (run_next env g s)"
  proof (cases "take_task g (sv_queue s)")
    case None
    then show ?thesis using assms by (simp add: run_next_def promises_ok_alt)
  next
    case (Some a)
    obtain t q where a: "a = (t, q)" by (cases a)
    then have "(g, t) \<in> set (sv_queue s)" using Some take_task_set by fastforce
    then have "task_below (sv_promises s) t" using assms by (auto simp: promises_ok_alt)
    then show ?thesis using assms results_ok_run_task [of "s\<lparr>sv_queue := q\<rparr>" t env] Some
      by (simp add: run_next_def a promises_ok_alt)
  qed
  then show ?thesis using assms f by (auto simp: promises_ok_alt frame_def)
qed

lemma run_next_inv: "sv_inv s \<Longrightarrow> sv_inv (run_next env g s)"
  using frame_run_next [of s env g] run_next_promises_ok [of s env g]
  by (auto simp: sv_inv_def frame_def intro: life_ok_frame [unfolded frame_def])

lemma wait_inv: "sv_inv s \<Longrightarrow> sv_inv (wait_result env rdy gs s)"
  by (induction gs arbitrary: s) (simp_all add: run_next_inv)

text \<open>A task that runs at once keeps the invariant.\<close>

lemma run_task_inv:
  assumes "sv_inv s" and "results_ok (run_task env t s)"
  shows "sv_inv (run_task env t s)"
  using assms frame_run_task [of s env t]
  by (auto simp: sv_inv_def promises_ok_alt frame_def intro: life_ok_frame [unfolded frame_def])

lemma post_inv:
  assumes "sv_inv s" and "sv_running s" and "task_below (sv_promises s) t"
    and "g \<in> {call_group (sv_attrs s), event_group (sv_attrs s)}"
  shows "sv_inv (snd (post_task env g t s))"
  using assms by (auto simp: post_task_def sv_inv_def life_ok_def promises_ok_alt event_schemas_of_def split_def
      split: option.splits)

lemma sink_below_mono: "sink_below n snk \<Longrightarrow> n \<le> m \<Longrightarrow> sink_below m snk"
  by (cases snk) auto

lemma async_inv:
  assumes "sv_inv s" and "sink_below (sv_promises s) snk"
  shows "sv_inv (snd (call_function_async env name ps snk s))"
proof -
  have r: "results_ok s" using assms by (simp add: sv_inv_def promises_ok_alt)
  have c: "sv_inv (run_call env name ps snk ctx req s)" for ctx req
    using run_task_inv [OF assms(1), of env "CallTask name ps snk ctx req"] results_ok_run_call [OF r assms(2)]
    by simp
  show ?thesis
    using assms post_inv [OF assms(1)] c
    by (auto simp: call_function_async_def Let_def split: option.splits)
qed

lemma async_batch_inv:
  assumes "sv_inv s" and "sink_below (sv_promises s) snk"
  shows "sv_inv (snd (call_functions_async env cs snk s))"
proof -
  have r: "results_ok s" using assms by (simp add: sv_inv_def promises_ok_alt)
  have c: "sv_inv (run_batch env cs snk ctx req s)" for ctx req
    using run_task_inv [OF assms(1), of env "BatchTask cs snk ctx req"] results_ok_run_batch [OF r assms(2)]
    by simp
  show ?thesis
    using assms post_inv [OF assms(1)] c
    by (auto simp: call_functions_async_def Let_def split: option.splits)
qed

lemma new_promise_inv: "sv_inv s \<Longrightarrow> sv_inv (s\<lparr>sv_promises := sv_promises s + 1\<rparr>)"
proof -
  assume i: "sv_inv s"
  have t: "task_below n t \<Longrightarrow> task_below (n + 1) t" for n and t :: "('a, 'b, 'c) task"
    by (cases t) (auto elim: sink_below_mono)
  show ?thesis
    using i t by (fastforce simp: sv_inv_def life_ok_def promises_ok_def event_schemas_of_def)
qed

lemma world_inv [simp]: "sv_inv (s\<lparr>sv_world := w\<rparr>) \<longleftrightarrow> sv_inv s"
  by (simp add: sv_inv_def life_ok_def promises_ok_def event_schemas_of_def)

lemma sync_wait_inv: "sv_inv s \<Longrightarrow> sv_inv (snd (sync_wait env sched name ps ms req s))"
proof -
  assume "sv_inv s"
  then have "sv_inv (snd (call_function_async env name ps (Promise (sv_promises s)) (s\<lparr>sv_promises := sv_promises s + 1\<rparr>)))"
    by (intro async_inv new_promise_inv) simp_all
  then show ?thesis
    by (simp add: sync_wait_def Let_def split_def wait_inv)
qed

lemma sync_inv: "sv_inv s \<Longrightarrow> sv_inv (snd (call_function_sync env sched name ps ms s))"
  by (simp add: call_function_sync_def Let_def split_def sync_wait_inv split: option.splits bool.splits prod.splits)

lemma sync_batch_inv: "sv_inv s \<Longrightarrow> sv_inv (snd (call_functions_sync env sched cs ms s))"
proof -
  assume "sv_inv s"
  then have "sv_inv (snd (call_functions_async env cs (Promise (sv_promises s)) (s\<lparr>sv_promises := sv_promises s + 1\<rparr>)))"
    by (intro async_batch_inv new_promise_inv) simp_all
  then show ?thesis
    by (simp add: call_functions_sync_def Let_def split_def wait_inv split: option.splits)
qed

lemma add_functions_ok: "fr_ok reg \<Longrightarrow> fr_ok (add_functions fs reg)"
  by (induction fs reg rule: add_functions.induct) (auto simp: fr_ok_add)

lemma register_functions_inv: "sv_inv s \<Longrightarrow> sv_inv (snd (register_functions schs hs s))"
  by (auto simp: register_functions_def sv_inv_def life_ok_def promises_ok_def event_schemas_of_def
      intro: add_functions_ok)

lemma fold_keeps: "P x \<Longrightarrow> (\<And>a x. P x \<Longrightarrow> P (f a x)) \<Longrightarrow> P (fold f as x)"
  by (induction as arbitrary: x) auto

lemma unregister_functions_inv: "sv_inv s \<Longrightarrow> sv_inv (snd (unregister_functions names s))"
  by (auto simp: unregister_functions_def sv_inv_def life_ok_def promises_ok_def event_schemas_of_def
      intro!: fold_keeps [of fr_ok] fr_ok_remove)

lemma set_events_inv:
  assumes "sv_inv s" and "sv_events s = Some er" and "er_ok er \<Longrightarrow> er_ok er'"
  shows "sv_inv (s\<lparr>sv_events := Some er'\<rparr>)"
  using assms by (auto simp: sv_inv_def life_ok_def promises_ok_def event_schemas_of_def er_ok_keys)

lemma set_events_map_inv:
  assumes "sv_inv s" and "\<And>er. er_ok er \<Longrightarrow> er_ok (f er)"
  shows "sv_inv (s\<lparr>sv_events := map_option f (sv_events s)\<rparr>)"
proof (cases "sv_events s")
  case None
  then show ?thesis using assms(1)
    by (auto simp: sv_inv_def life_ok_def promises_ok_def event_schemas_of_def)
next
  case (Some er)
  then show ?thesis using set_events_inv [OF assms(1) Some] assms(2) by simp
qed

lemma register_events_inv: "sv_inv s \<Longrightarrow> sv_inv (snd (register_events schs s))"
  by (auto simp: register_events_def intro!: set_events_map_inv fold_keeps [of er_ok] er_ok_add)

lemma unregister_events_inv: "sv_inv s \<Longrightarrow> sv_inv (snd (unregister_events names s))"
  by (auto simp: unregister_events_def intro!: set_events_map_inv fold_keeps [of er_ok] er_ok_remove)

lemma er_ok_put_signal: "er_ok er \<Longrightarrow> er_ok (put_signal name sig er)"
  by (simp add: er_ok_keys)

lemma subscribe_inv: "sv_inv s \<Longrightarrow> sv_inv (snd (subscribe_event env name s))"
  by (auto simp: subscribe_event_def split_def split: option.splits
      intro!: set_events_inv er_ok_put_signal)

lemma set_task_scheduler_inv: "sv_inv s \<Longrightarrow> sv_inv (snd (set_task_scheduler p s))"
  by (auto simp: set_task_scheduler_def sv_inv_def life_ok_def promises_ok_def event_schemas_of_def)

lemma emit_inv: "sv_inv s \<Longrightarrow> sv_inv (run_emit env name items req s)"
proof -
  assume i: "sv_inv s"
  then have "results_ok (run_emit env name items req s)"
    by (intro results_ok_run_emit) (simp add: sv_inv_def promises_ok_alt)
  then show ?thesis using run_task_inv [OF i, of env "EmitTask name items req"] by simp
qed

lemma dispatch_inv:
  assumes "sv_inv s" and "sv_running s" and "g \<in> {call_group (sv_attrs s), event_group (sv_attrs s)}"
  shows "sv_inv (snd (dispatch_task env g (EmitTask name items True) s))"
proof (cases "sv_scheduler s")
  case None
  then show ?thesis using assms(1) by (simp add: dispatch_task_def)
next
  case (Some p)
  obtain out w where d: "se_ts_dispatch env p g (sv_world s) = (out, w)" by fastforce
  have "sv_inv (s\<lparr>sv_queue := sv_queue s @ [(g, EmitTask name items True)], sv_world := w\<rparr>)"
    using assms by (auto simp: sv_inv_def life_ok_def promises_ok_alt event_schemas_of_def)
  then show ?thesis using assms Some d
    by (cases out) (auto simp: dispatch_task_def emit_inv)
qed

lemma publish_inv: "sv_inv s \<Longrightarrow> sv_inv (snd (publish_event env name items use_dispatch s))"
  using post_inv [of s] dispatch_inv [of s] emit_inv [of s]
  by (auto simp: publish_event_def Let_def split: option.splits)

lemma stop_inv: "sv_inv s \<Longrightarrow> sv_inv (stop_internal env s)"
proof -
  assume i: "sv_inv s"
  have g: "filter (\<lambda>e. fst e \<notin> {call_group (sv_attrs s), event_group (sv_attrs s), request_group (sv_attrs s)})
      (sv_queue s) = []"
    using i by (auto simp: filter_empty_conv sv_inv_def promises_ok_def)
  show ?thesis
    using i g
    by (auto simp: stop_internal_def Let_def sv_inv_def life_ok_def promises_ok_def event_schemas_of_def
        split: option.splits)
qed

lemma stop_frame [simp]:
  "\<not> sv_running (stop_internal env s)" "sv_initialized (stop_internal env s) = sv_initialized s"
  "sv_attrs (stop_internal env s) = sv_attrs s"
  by (auto simp: stop_internal_def Let_def split: option.splits)

lemma start_inv:
  assumes "sv_inv s"
  shows "sv_inv (snd (sv_start env s))"
proof -
  have r: "sv_inv (s\<lparr>sv_running := True, sv_world := w\<rparr>)" if "sv_initialized s" "sv_scheduler s \<noteq> None" for w
    using that assms by (auto simp: sv_inv_def life_ok_def promises_ok_def event_schemas_of_def)
  show ?thesis
  proof (cases "sv_scheduler s")
    case None
    then show ?thesis using assms
      by (auto simp: sv_start_def start_steps_def stop_internal_def sv_inv_def life_ok_def promises_ok_def
          event_schemas_of_def)
  next
    case (Some p)
    then show ?thesis using assms r stop_inv [OF r]
      by (auto simp: sv_start_def split: prod.splits bool.splits)
  qed
qed

lemma deinit_inv:
  assumes "sv_inv s \<or> (sv_initialized s \<and> \<not> sv_running s \<and> promises_ok s \<and> sv_queue s = [])"
  shows "sv_inv (sv_deinit env s)"
proof -
  have d: "sv_inv (u\<lparr>sv_world := w, sv_scheduler := None, sv_functions := None, sv_events := None,
      sv_initialized := False\<rparr>)" if "\<not> sv_running u" "promises_ok u" "sv_queue u = []" for u :: "('a, 'b, 'c) service" and w
    using that by (simp add: sv_inv_def life_ok_def promises_ok_def event_schemas_of_def)
  have "sv_inv (stop_internal env s)" if "sv_running s"
    using assms that stop_inv by auto
  then have "sv_running s \<Longrightarrow> promises_ok (stop_internal env s) \<and> sv_queue (stop_internal env s) = []"
    by (simp add: sv_inv_def)
  then show ?thesis using d [of "stop_internal env s"] d [of s] assms
    by (auto simp: sv_deinit_def Let_def sv_inv_def)
qed

lemma pick_frame:
  assumes "\<not> sv_running s" and "promises_ok s" and "sv_queue s = []" and "pick_scheduler env sch s = (ok, t)"
  shows "\<not> sv_running t \<and> promises_ok t \<and> sv_queue t = [] \<and> sv_attrs t = sv_attrs s \<and>
    sv_initialized t = sv_initialized s \<and> (ok \<longrightarrow> sv_scheduler t \<noteq> None)"
proof -
  have "promises_ok (s\<lparr>sv_scheduler := p, sv_world := w\<rparr>)" "promises_ok (s\<lparr>sv_scheduler := p\<rparr>)" for p w
    using assms(2) by (simp_all add: promises_ok_def)
  then show ?thesis
    using assms by (auto simp: pick_scheduler_def split: if_splits prod.splits option.splits)
qed

lemma fill_frame:
  assumes "\<not> sv_running s" and "promises_ok s" and "sv_queue s = []" and "sv_initialized s"
    and "fill_registries env s = (ok, t)"
  shows "sv_inv t \<and> \<not> sv_running t \<and> sv_initialized t \<and> sv_attrs t = sv_attrs s \<and> sv_scheduler t = sv_scheduler s"
proof -
  obtain b w where i: "se_on_init env (sv_world s) = (b, w)" by fastforce
  define s1 where "s1 = s\<lparr>sv_functions := Some [], sv_events := Some [], sv_world := w\<rparr>"
  have s1: "sv_inv s1" "\<not> sv_running s1" "sv_initialized s1" "sv_attrs s1 = sv_attrs s" "sv_scheduler s1 = sv_scheduler s"
    using assms(1-4) by (auto simp: s1_def sv_inv_def life_ok_def promises_ok_def event_schemas_of_def fr_ok_def
        event_keys_ok_def)
  obtain b2 s2 where r: "register_functions (se_function_schemas env w) (se_function_handlers env w) s1 = (b2, s2)"
    by fastforce
  have s2: "sv_inv s2" "\<not> sv_running s2" "sv_initialized s2" "sv_attrs s2 = sv_attrs s" "sv_scheduler s2 = sv_scheduler s"
    using register_functions_inv [OF s1(1), of "se_function_schemas env w" "se_function_handlers env w"] r s1
    by (auto simp: register_functions_def split: if_splits)
  define evs where "evs = se_event_schemas env (sv_world s2)"
  have t: "t = s1 \<or> t = s2 \<or> t = snd (register_events evs s2)"
    using assms(5) i r by (auto simp: fill_registries_def s1_def evs_def Let_def split: bool.splits if_splits)
  then show ?thesis
    using s1 s2 register_events_inv [OF s2(1), of evs] by (auto simp: register_events_def split: if_splits)
qed

lemma init_inv:
  assumes "sv_inv s"
  shows "sv_inv (snd (sv_init env sch s))"
proof (cases "sv_initialized s \<or> at_name (sv_attrs s) = [] \<or> at_description (sv_attrs s) = [] \<or> at_version (sv_attrs s) = []")
  case True
  then show ?thesis using assms by (auto simp: sv_init_def)
next
  case False
  have pre: "\<not> sv_running s" "promises_ok s" "sv_queue s = []" "\<not> sv_initialized s"
    using assms False by (auto simp: sv_inv_def life_ok_def)
  let ?s = "s\<lparr>sv_initialized := True\<rparr>"
  have pre': "\<not> sv_running ?s" "promises_ok ?s" "sv_queue ?s = []"
    using pre by (simp_all add: promises_ok_def)
  obtain ok s1 where p: "pick_scheduler env sch ?s = (ok, s1)" by fastforce
  note f1 = pick_frame [OF pre' p]
  obtain ok2 s2 where f: "fill_registries env s1 = (ok2, s2)" by fastforce
  have f2: "sv_inv s2" using fill_frame [OF _ _ _ _ f] f1 by simp
  show ?thesis
    using False p f f1 f2 deinit_inv [of s1 env] deinit_inv [of s2 env]
    by (auto simp: sv_init_def split: bool.splits)
qed

text \<open>What clients, other threads and the scheduler can do to a service. Handlers of users are not
  promises: those belong to the synchronous calls.\<close>

inductive sv_step :: "('j, 'w, 'c) sv_env \<Rightarrow> ('j, 'w, 'c) service \<Rightarrow> ('j, 'w, 'c) service \<Rightarrow> bool"
  for env where
  st_init: "sv_step env s (snd (sv_init env sch s))"
| st_deinit: "sv_step env s (sv_deinit env s)"
| st_start: "sv_step env s (snd (sv_start env s))"
| st_stop: "sv_step env s (sv_stop env s)"
| st_scheduler: "sv_step env s (snd (set_task_scheduler p s))"
| st_async: "sink_below 0 snk \<Longrightarrow> sv_step env s (snd (call_function_async env name ps snk s))"
| st_async_batch: "sink_below 0 snk' \<Longrightarrow> sv_step env s (snd (call_functions_async env cs snk' s))"
| st_sync: "sv_step env s (snd (call_function_sync env sched name ps ms s))"
| st_sync_batch: "sv_step env s (snd (call_functions_sync env sched cs ms s))"
| st_register: "sv_step env s (snd (register_functions schs hs s))"
| st_unregister: "sv_step env s (snd (unregister_functions names s))"
| st_register_events: "sv_step env s (snd (register_events evs s))"
| st_unregister_events: "sv_step env s (snd (unregister_events names s))"
| st_subscribe: "sv_step env s (snd (subscribe_event env name s))"
| st_publish: "sv_step env s (snd (publish_event env name items use_dispatch s))"
| st_run: "sv_step env s (run_next env g s)"
| st_world: "sv_step env s (s\<lparr>sv_world := w\<rparr>)"

inductive sv_reachable :: "('j, 'w, 'c) sv_env \<Rightarrow> attributes \<Rightarrow> 'w \<Rightarrow> ('j, 'w, 'c) service \<Rightarrow> bool"
  for env a w where
  re_new: "sv_reachable env a w (new_service a w)"
| re_step: "sv_reachable env a w s \<Longrightarrow> sv_step env s t \<Longrightarrow> sv_reachable env a w t"

lemma sv_step_inv: "sv_step env s t \<Longrightarrow> sv_inv s \<Longrightarrow> sv_inv t"
proof (induction rule: sv_step.induct)
  case (st_async snk s name ps)
  then show ?case by (intro async_inv) (auto elim: sink_below_mono)
next
  case (st_async_batch snk' s cs)
  then show ?case by (intro async_batch_inv) (auto elim: sink_below_mono)
next
  case (st_stop s)
  then show ?case by (simp add: sv_stop_def stop_inv)
next
  case (st_deinit s)
  then show ?case by (intro deinit_inv) simp
qed (simp_all add: init_inv start_inv set_task_scheduler_inv sync_inv sync_batch_inv register_functions_inv
    unregister_functions_inv register_events_inv unregister_events_inv subscribe_inv publish_inv run_next_inv)

lemma new_service_inv: "sv_inv (new_service a w)"
  by (simp add: new_service_def sv_inv_def life_ok_def promises_ok_def event_schemas_of_def)

lemma sv_reachable_inv: "sv_reachable env a w s \<Longrightarrow> sv_inv s"
  by (induction rule: sv_reachable.induct) (auto simp: new_service_inv intro: sv_step_inv)

section \<open>What a synchronous call gets\<close>

lemma take_task_app:
  "take_task g (A @ [(h, t)]) =
    (case take_task g A of Some (u, A') \<Rightarrow> Some (u, A' @ [(h, t)])
     | None \<Rightarrow> if h = g then Some (t, A) else None)"
  by (induction A) (auto split: option.splits)

lemma take_task_None: "take_task g A = None \<longleftrightarrow> g \<notin> fst ` set A"
  by (induction A) (auto split: option.splits)

lemma take_task_count:
  "take_task g A = Some (u, A') \<Longrightarrow> set A' \<subseteq> set A \<and> (g, u) \<in> set A \<and>
    length (filter (\<lambda>e. fst e = h) A) = length (filter (\<lambda>e. fst e = h) A') + (if h = g then 1 else 0)"
  by (induction A arbitrary: u A') (auto split: if_splits option.splits)

lemma other_result:
  "task_below k t \<Longrightarrow> map_of (sv_results (run_task env t s)) k = map_of (sv_results s) k"
  "task_below k t \<Longrightarrow> map_of (sv_batch_results (run_task env t s)) k = map_of (sv_batch_results s) k"
proof -
  have c: "sink_below k snk \<Longrightarrow> map_of (sv_results (deliver snk r s')) k = map_of (sv_results s') k"
      "sv_batch_results (deliver snk r s') = sv_batch_results s'" for snk r and s' :: "('a, 'b, 'c) service"
    by (cases snk; simp add: deliver_def)+
  have b: "sink_below k snk \<Longrightarrow> map_of (sv_batch_results (deliver_batch snk r s')) k = map_of (sv_batch_results s') k"
      "sv_results (deliver_batch snk r s') = sv_results s'" for snk r and s' :: "('a, 'b, 'c) service"
    by (cases snk; simp add: deliver_batch_def)+
  have e: "sv_results (run_emit env name items req s) = sv_results s"
    "sv_batch_results (run_emit env name items req s) = sv_batch_results s" for name items req
    by (simp_all add: run_emit_def split_def split: option.splits)
  show "task_below k t \<Longrightarrow> map_of (sv_results (run_task env t s)) k = map_of (sv_results s) k"
    by (cases t) (simp_all add: run_call_def run_batch_def split_def Let_def c b e)
  show "task_below k t \<Longrightarrow> map_of (sv_batch_results (run_task env t s)) k = map_of (sv_batch_results s) k"
    by (cases t) (simp_all add: run_call_def run_batch_def split_def Let_def c b e)
qed

text \<open>\<open>outcome\<close>: some world in which the call ran; it depends on the tasks that ran before it.\<close>

definition outcome :: "('j, 'w, 'c) service \<Rightarrow> string \<Rightarrow> 'j param_map \<Rightarrow> 'j function_result \<Rightarrow> bool" where
  "outcome s name ps r \<longleftrightarrow> (\<exists>w. r = fst (guarded_call (call_exception s name) name ps (registry_of s) w))"

lemma outcome_frame: "frame s t \<Longrightarrow> outcome t name ps r \<longleftrightarrow> outcome s name ps r"
proof -
  assume "frame s t"
  then have "call_exception t name = call_exception s name" "registry_of t = registry_of s"
    by (auto simp: frame_def call_exception_def error_prefix_def registry_of_def fun_eq_iff)
  then show ?thesis by (simp add: outcome_def)
qed

lemma run_call_result:
  assumes "sv_running s \<or> \<not> req" and "k \<notin> fst ` set (sv_results s)"
  shows "\<exists>r. map_of (sv_results (run_call env name ps (Promise k) ctx req s)) k = Some r \<and> outcome s name ps r"
  using assms by (auto simp: run_call_def call_in_context_def split_def Let_def deliver_def outcome_def
      map_of_eq_None_iff)

lemma wait_own_call:
  "sv_queue s = A @ [(g, CallTask name ps (Promise k) ctx True)] \<Longrightarrow> \<forall>e \<in> set A. task_below k (snd e) \<Longrightarrow>
   k \<notin> fst ` set (sv_results s) \<Longrightarrow> sv_running s \<Longrightarrow>
   (if length (filter (\<lambda>e. fst e = g) A) < length (filter (\<lambda>h. h = g) sched)
    then \<exists>r. map_of (sv_results (wait_result env (result_ready k) sched s)) k = Some r \<and> outcome s name ps r
    else map_of (sv_results (wait_result env (result_ready k) sched s)) k = None)"
proof (induction sched arbitrary: s A)
  case Nil
  then show ?case by (simp add: map_of_eq_None_iff)
next
  case (Cons h hs)
  have nr: "\<not> result_ready k s" using Cons.prems(3) by (simp add: result_ready_def map_of_eq_None_iff)
  have ready: "result_ready k u \<Longrightarrow> wait_result env (result_ready k) hs u = u" for u
    by (cases hs) simp_all
  note fr = frame_run_next [of s env h, THEN conjunct1]
  show ?case
  proof (cases "take_task h A")
    case (Some a)
    obtain t A' where a: "a = (t, A')" by (cases a)
    note cnt = take_task_count [OF Some [unfolded a], of g]
    have tb: "task_below k t" using cnt Cons.prems(2) by auto
    have rn: "run_next env h s = run_task env t (s\<lparr>sv_queue := A' @ [(g, CallTask name ps (Promise k) ctx True)]\<rparr>)"
      using Some a Cons.prems(1) by (simp add: run_next_def take_task_app)
    have q: "sv_queue (run_next env h s) = A' @ [(g, CallTask name ps (Promise k) ctx True)]"
      unfolding rn using frame_run_task by (metis (no_types, lifting) service.select_convs(7) service.surjective service.update_convs(7))
    have r: "k \<notin> fst ` set (sv_results (run_next env h s))"
      using other_result(1) [OF tb, of env "s\<lparr>sv_queue := A' @ [(g, CallTask name ps (Promise k) ctx True)]\<rparr>"]
        Cons.prems(3) rn by (simp add: map_of_eq_None_iff [symmetric])
    have run: "sv_running (run_next env h s)" using fr Cons.prems(4) by (simp add: frame_def)
    have b: "\<forall>e \<in> set A'. task_below k (snd e)" using cnt Cons.prems(2) by auto
    show ?thesis
      using Cons.IH [OF q b r run] cnt nr outcome_frame [OF fr] by auto
  next
    case None
    show ?thesis
    proof (cases "h = g")
      case True
      have rn: "run_next env h s = run_call env name ps (Promise k) ctx True (s\<lparr>sv_queue := A\<rparr>)"
        using None Cons.prems(1) True by (simp add: run_next_def take_task_app)
      obtain r where r: "map_of (sv_results (run_next env h s)) k = Some r" "outcome s name ps r"
        using run_call_result [of "s\<lparr>sv_queue := A\<rparr>" True k env name ps ctx] Cons.prems(3,4)
          outcome_frame [of s "s\<lparr>sv_queue := A\<rparr>"] by (auto simp: rn)
      have "length (filter (\<lambda>e. fst e = g) A) = 0"
        using None True by (auto simp: take_task_None filter_empty_conv)
      then show ?thesis using r nr True ready [of "run_next env h s"] by (simp add: result_ready_def)
    next
      case False
      have "run_next env h s = s"
        using None Cons.prems(1) False by (simp add: run_next_def take_task_app)
      then show ?thesis using Cons.IH [OF Cons.prems] nr False by simp
    qed
  qed
qed

lemma wait_without_group:
  "g \<notin> set sched \<Longrightarrow> \<forall>e \<in> set (sv_queue s). fst e \<noteq> g \<longrightarrow> task_below k (snd e) \<Longrightarrow>
   map_of (sv_batch_results (wait_result env rdy sched s)) k = map_of (sv_batch_results s) k"
proof (induction sched arbitrary: s)
  case (Cons h hs)
  have "map_of (sv_batch_results (run_next env h s)) k = map_of (sv_batch_results s) k"
  proof (cases "take_task h (sv_queue s)")
    case None
    then show ?thesis by (simp add: run_next_def)
  next
    case (Some a)
    obtain t q where a: "a = (t, q)" by (cases a)
    have "task_below k t"
      using Some a take_task_set [of h "sv_queue s" t q] Cons.prems by auto
    then show ?thesis
      using Some a other_result(2) [of k t env "s\<lparr>sv_queue := q\<rparr>"] by (simp add: run_next_def)
  qed
  moreover have "\<forall>e \<in> set (sv_queue (run_next env h s)). fst e \<noteq> g \<longrightarrow> task_below k (snd e)"
    using frame_run_next [of s env h] Cons.prems by blast
  ultimately show ?case using Cons by simp
qed simp

text \<open>The batch loop: the calls up to the first failure, in order.\<close>

lemma batch_calls_prefix:
  "batch_calls msg reg cs br w = (br', w') \<Longrightarrow>
   \<exists>rs. br_results br' = br_results br @ rs \<and> map cr_name rs = take (length rs) (map fc_name cs) \<and>
     (\<forall>r \<in> set (butlast rs). cr_success r) \<and>
     w' = fold (\<lambda>c v. snd (guarded_call (msg (fc_name c)) (fc_name c) (fc_parameters c) reg v)) (take (length rs) cs) w \<and>
     (if length rs = length cs \<and> (\<forall>r \<in> set rs. cr_success r) then br_success br' = br_success br
      else \<not> br_success br' \<and> rs \<noteq> [] \<and> \<not> cr_success (last rs))"
proof (induction cs arbitrary: br w)
  case Nil
  then show ?case by (intro exI [of _ "[]"]) auto
next
  case (Cons c cs)
  obtain r v where g: "guarded_call (msg (fc_name c)) (fc_name c) (fc_parameters c) reg w = (r, v)" by fastforce
  let ?cr = "make_call_result (fc_name c) r"
  show ?case
  proof (cases "success r")
    case False
    then show ?thesis using Cons.prems g
      by (intro exI [of _ "[?cr]"]) (auto simp: Let_def make_call_result_def)
  next
    case True
    then have run: "batch_calls msg reg cs (br\<lparr>br_results := br_results br @ [?cr]\<rparr>) v = (br', w')"
      using Cons.prems g by (simp add: Let_def)
    obtain rs where rs: "br_results br' = br_results br @ [?cr] @ rs"
      "map cr_name rs = take (length rs) (map fc_name cs)" "\<forall>r \<in> set (butlast rs). cr_success r"
      "w' = fold (\<lambda>c v. snd (guarded_call (msg (fc_name c)) (fc_name c) (fc_parameters c) reg v)) (take (length rs) cs) v"
      "if length rs = length cs \<and> (\<forall>r \<in> set rs. cr_success r) then br_success br' = br_success br
       else \<not> br_success br' \<and> rs \<noteq> [] \<and> \<not> cr_success (last rs)"
      using Cons.IH [OF run] by auto
    have c: "cr_success ?cr" "cr_name ?cr = fc_name c" using True by (simp_all add: make_call_result_def)
    show ?thesis using rs c g
      by (intro exI [of _ "?cr # rs"]) (auto split: if_splits)
  qed
qed

section \<open>The life cycle as an interface\<close>

text \<open>What an owner of services relies on: it can bring a service up and down, and the flags say
  which state it is in.\<close>

locale lifecycle =
  fixes inv :: "'s \<Rightarrow> bool"
    and initialized :: "'s \<Rightarrow> bool" and running :: "'s \<Rightarrow> bool"
    and attrs :: "'s \<Rightarrow> attributes"
    and init :: "ptr option \<Rightarrow> 's \<Rightarrow> bool \<times> 's"
    and deinit :: "'s \<Rightarrow> 's"
    and start :: "'s \<Rightarrow> bool \<times> 's"
    and stop :: "'s \<Rightarrow> 's"
  assumes running_initialized: "inv s \<Longrightarrow> running s \<Longrightarrow> initialized s"
    and init_law: "inv s \<Longrightarrow> inv (snd (init p s)) \<and> fst (init p s) = initialized (snd (init p s)) \<and>
      attrs (snd (init p s)) = attrs s \<and> (\<not> initialized s \<longrightarrow> \<not> running (snd (init p s)))"
    and deinit_law: "inv s \<Longrightarrow> inv (deinit s) \<and> \<not> initialized (deinit s) \<and> attrs (deinit s) = attrs s"
    and start_law: "inv s \<Longrightarrow> inv (snd (start s)) \<and> fst (start s) = running (snd (start s)) \<and>
      attrs (snd (start s)) = attrs s \<and> initialized (snd (start s)) = initialized s"
    and stop_law: "inv s \<Longrightarrow> inv (stop s) \<and> \<not> running (stop s) \<and> attrs (stop s) = attrs s \<and>
      initialized (stop s) = initialized s"
begin

lemma deinit_stops: "inv s \<Longrightarrow> \<not> running (deinit s)"
  using deinit_law [of s] running_initialized by blast

lemma start_needs_init: "inv s \<Longrightarrow> fst (start s) \<Longrightarrow> initialized s"
  using start_law [of s] running_initialized by fastforce

text \<open>Bringing a service up and down again leaves it as down as it was.\<close>

lemma up_and_down:
  assumes "inv s" and "snd (init p s) = s1" and "snd (start s1) = s2"
  shows "inv (deinit (stop s2)) \<and> \<not> running (deinit (stop s2)) \<and> \<not> initialized (deinit (stop s2)) \<and>
    attrs (deinit (stop s2)) = attrs s"
  using assms init_law start_law stop_law deinit_law deinit_stops by metis

end

lemma deinit_attrs [simp]: "sv_attrs (sv_deinit env s) = sv_attrs s"
  by (simp add: sv_deinit_def Let_def)

lemma start_flags:
  assumes "sv_inv s"
  shows "fst (sv_start env s) = sv_running (snd (sv_start env s))"
    "sv_attrs (snd (sv_start env s)) = sv_attrs s" "sv_initialized (snd (sv_start env s)) = sv_initialized s"
  using assms by (auto simp: sv_start_def split: prod.splits bool.splits)

lemma init_flags:
  assumes "sv_inv s"
  shows "fst (sv_init env sch s) = sv_initialized (snd (sv_init env sch s)) \<and>
    sv_attrs (snd (sv_init env sch s)) = sv_attrs s \<and> (\<not> sv_initialized s \<longrightarrow> \<not> sv_running (snd (sv_init env sch s)))"
proof (cases "sv_initialized s \<or> at_name (sv_attrs s) = [] \<or> at_description (sv_attrs s) = [] \<or> at_version (sv_attrs s) = []")
  case True
  then show ?thesis using assms by (auto simp: sv_init_def sv_inv_def life_ok_def)
next
  case False
  have pre: "\<not> sv_running s" "promises_ok s" "sv_queue s = []"
    using assms False by (auto simp: sv_inv_def life_ok_def)
  let ?s = "s\<lparr>sv_initialized := True\<rparr>"
  have pre': "\<not> sv_running ?s" "promises_ok ?s" "sv_queue ?s = []"
    using pre by (simp_all add: promises_ok_def)
  obtain ok s1 where p: "pick_scheduler env sch ?s = (ok, s1)" by fastforce
  note f1 = pick_frame [OF pre' p]
  obtain ok2 s2 where f: "fill_registries env s1 = (ok2, s2)" by fastforce
  have f2: "\<not> sv_running s2" "sv_initialized s2" "sv_attrs s2 = sv_attrs s"
    using fill_frame [OF _ _ _ _ f] f1 by simp_all
  show ?thesis
    using False p f f1 f2 by (cases ok; cases ok2) (auto simp: sv_init_def sv_deinit_def Let_def)
qed

interpretation life: lifecycle sv_inv sv_initialized sv_running sv_attrs "sv_init env" "sv_deinit env"
  "sv_start env" "sv_stop env"
proof unfold_locales
  fix s :: "('a, 'b, 'c) service" and p
  assume i: "sv_inv s"
  show "sv_running s \<Longrightarrow> sv_initialized s" using i by (simp add: sv_inv_def life_ok_def)
  show "sv_inv (snd (sv_init env p s)) \<and> fst (sv_init env p s) = sv_initialized (snd (sv_init env p s)) \<and>
      sv_attrs (snd (sv_init env p s)) = sv_attrs s \<and> (\<not> sv_initialized s \<longrightarrow> \<not> sv_running (snd (sv_init env p s)))"
    using init_inv [OF i] init_flags [OF i] by blast
  show "sv_inv (sv_deinit env s) \<and> \<not> sv_initialized (sv_deinit env s) \<and> sv_attrs (sv_deinit env s) = sv_attrs s"
    using deinit_inv [of s env] i by (simp add: sv_deinit_def Let_def)
  show "sv_inv (snd (sv_start env s)) \<and> fst (sv_start env s) = sv_running (snd (sv_start env s)) \<and>
      sv_attrs (snd (sv_start env s)) = sv_attrs s \<and> sv_initialized (snd (sv_start env s)) = sv_initialized s"
    using start_inv [OF i] start_flags [OF i] by simp
  show "sv_inv (sv_stop env s) \<and> \<not> sv_running (sv_stop env s) \<and> sv_attrs (sv_stop env s) = sv_attrs s \<and>
      sv_initialized (sv_stop env s) = sv_initialized s"
    using stop_inv [OF i] by (simp add: sv_stop_def)
qed

section \<open>Properties\<close>


text \<open>An environment whose hooks agree and whose scheduler accepts everything; its function \<open>add\<close>
  needs the scheduler.\<close>

definition demo_sv_env :: "(nat, nat, unit) sv_env" where
  "demo_sv_env = \<lparr>se_on_init = \<lambda>w. (True, w), se_on_deinit = \<lambda>w. w, se_on_start = \<lambda>w. (True, w),
     se_on_stop = \<lambda>w. w, se_function_schemas = \<lambda>w. [demo_schema\<lparr>fs_require_scheduler := True\<rparr>], se_function_handlers = \<lambda>w. [Some demo_handler],
     se_event_schemas = \<lambda>w. [demo_event], se_on_event_subscribed = \<lambda>n w. w, se_on_batch_start = \<lambda>cs w. w,
     se_on_batch_end = \<lambda>w. w, se_slots = \<lambda>n k items s. (None, s), se_new_scheduler = \<lambda>w. (1, w),
     se_ts_running = \<lambda>p w. True, se_ts_start = \<lambda>p w. (True, w), se_ts_stop = \<lambda>p w. w,
     se_ts_configure = \<lambda>p g w. (True, w), se_ts_cancel = \<lambda>p g w. w, se_ts_post = \<lambda>p g w. (True, w),
     se_ts_dispatch = \<lambda>p g w. (Queued, w), se_in_group = \<lambda>p g w. False, se_is_worker = \<lambda>p w. False,
     se_acquire_slot = \<lambda>p w. (True, w), se_release_slot = \<lambda>p w. w, se_get_context = \<lambda>w. (),
     se_set_context = \<lambda>c w. w, se_default_timeout = 1000\<rparr>"

definition demo_attributes :: attributes where
  "demo_attributes = \<lparr>at_name = ''svc'', at_description = ''d'', at_version = ''v'', at_dependencies = [],
     at_own_scheduler = False, at_scheduler_type = MainScheduler, at_bindable = True\<rparr>"

definition demo_service :: "(nat, nat, unit) service" where
  "demo_service = snd (sv_start demo_sv_env (snd (sv_init demo_sv_env (Some 0) (new_service demo_attributes 0))))"

lemmas demo_sv_simps = demo_sv_env_def demo_attributes_def demo_service_def new_service_def sv_init_def
  sv_start_def start_steps_def start_scheduler_def pick_scheduler_def fill_registries_def register_functions_def
  register_events_def fr_add_def er_add_def call_group_def event_group_def request_group_def

lemma demo_reachable: "sv_reachable demo_sv_env demo_attributes 0 demo_service"
proof -
  have "sv_reachable demo_sv_env demo_attributes 0 (snd (sv_init demo_sv_env (Some 0) (new_service demo_attributes 0)))"
    by (rule re_step [OF re_new st_init])
  then show ?thesis
    unfolding demo_service_def by (rule re_step [OF _ st_start])
qed

lemma demo_service_state:
  "demo_service = \<lparr>sv_attrs = demo_attributes, sv_initialized = True, sv_running = True, sv_scheduler = Some 0,
     sv_functions = Some [(''add'', demo_schema\<lparr>fs_require_scheduler := True\<rparr>, demo_handler)],
     sv_events = Some [(''tick'', demo_event, new_signal)], sv_queue = [], sv_results = [], sv_batch_results = [],
     sv_promises = 0, sv_world = 0\<rparr>"
  by (simp add: demo_sv_simps demo_schema_def demo_event_def)


text \<open>C27: a task that was queued while the service ran and is only executed when the service has
  been marked stopped runs no function, no batch and no slot: its caller is told that the service is
  not running, an event is dropped.\<close>

theorem stopped_service_runs_nothing:
  assumes "sv_reachable env a w s" and "(g, t) \<in> set (sv_queue s)"
  shows "run_task env t (s\<lparr>sv_running := False\<rparr>) = (case t of
      CallTask name ps snk ctx req \<Rightarrow>
        deliver snk (error_result (error_prefix s name @ '': service is not running'')) (s\<lparr>sv_running := False\<rparr>)
    | BatchTask cs snk ctx req \<Rightarrow>
        deliver_batch snk (batch_failure (batch_prefix s @ '': service is not running'')) (s\<lparr>sv_running := False\<rparr>)
    | EmitTask name items req \<Rightarrow> s\<lparr>sv_running := False\<rparr>)"
proof -
  have "task_below (sv_promises s) t"
    using sv_reachable_inv [OF assms(1)] assms(2) by (auto simp: sv_inv_def promises_ok_def)
  then show ?thesis
    by (cases t) (simp_all add: run_call_def run_batch_def run_emit_def error_prefix_def batch_prefix_def)
qed

text \<open>The demonstration service with one call in its queue.\<close>

definition demo_queued :: "(nat, nat, unit) service" where
  "demo_queued = snd (call_function_async demo_sv_env ''add'' [(''a'', VNumber 1)] NoHandler demo_service)"

lemma demo_queued_state:
  "sv_queue demo_queued = [(''svc_call'', CallTask ''add'' [(''a'', VNumber 1)] NoHandler () True)]"
  "sv_reachable demo_sv_env demo_attributes 0 demo_queued"
proof -
  show "sv_queue demo_queued = [(''svc_call'', CallTask ''add'' [(''a'', VNumber 1)] NoHandler () True)]"
    by (simp add: demo_queued_def demo_service_state call_function_async_def fr_get_schema_def Let_def
        post_task_def demo_sv_env_def demo_attributes_def call_group_def)
  show "sv_reachable demo_sv_env demo_attributes 0 demo_queued"
    unfolding demo_queued_def using demo_reachable by (rule re_step) (rule st_async, simp)
qed

theorem stopped_service_runs_nothing_witness:
  "run_task demo_sv_env (CallTask ''add'' [(''a'', VNumber 1)] NoHandler () True) (demo_queued\<lparr>sv_running := False\<rparr>)
    = demo_queued\<lparr>sv_running := False\<rparr>"
  using stopped_service_runs_nothing [OF demo_queued_state(2), of "''svc_call''"
      "CallTask ''add'' [(''a'', VNumber 1)] NoHandler () True"]
  by (simp add: demo_queued_state(1) deliver_def)



lemma fresh_promise: "sv_inv s \<Longrightarrow> sv_promises s \<notin> fst ` set (sv_results s)"
  by (auto simp: sv_inv_def promises_ok_def)

lemma sync_wait_some:
  assumes "sv_inv s" and "sv_functions s = Some reg" and "fr_get_schema reg name = Some sch"
    and "req = fs_require_scheduler sch"
  shows "\<exists>r. fst (sync_wait env sched name ps ms req s) = Some r"
proof (cases req)
  case True
  then show ?thesis by (auto simp: sync_wait_def Let_def split_def result_ready_def)
next
  case False
  obtain ok s1 where a: "call_function_async env name ps (Promise (sv_promises s))
      (s\<lparr>sv_promises := sv_promises s + 1\<rparr>) = (ok, s1)" by fastforce
  have "ok \<Longrightarrow> s1 = run_call env name ps (Promise (sv_promises s)) (se_get_context env (sv_world s)) False
      (s\<lparr>sv_promises := sv_promises s + 1\<rparr>)"
    using a assms(2-4) False by (auto simp: call_function_async_def Let_def split: if_splits option.splits)
  then have "ok \<Longrightarrow> \<exists>r. map_of (sv_results s1) (sv_promises s) = Some r"
    using run_call_result [of "s\<lparr>sv_promises := sv_promises s + 1\<rparr>" False "sv_promises s" env name ps
        "se_get_context env (sv_world s)"] fresh_promise [OF assms(1)] by auto
  then show ?thesis using False a by (cases ok) (auto simp: sync_wait_def Let_def)
qed

text \<open>a synchronous call always returns, whatever the state of the service, the timeout and the
  scheduler: the blocking read of its future is reached only when the result is there.\<close>

theorem sync_call_returns:
  assumes "sv_reachable env a w s"
  shows "\<exists>r. fst (call_function_sync env sched name ps ms s) = Some r"
proof -
  have inv: "sv_inv s" by (rule sv_reachable_inv [OF assms])
  show ?thesis
  proof (cases "\<exists>reg sch. sv_functions s = Some reg \<and> fr_get_schema reg name = Some sch")
    case False
    then show ?thesis by (auto simp: call_function_sync_def split: option.splits)
  next
    case True
    then obtain reg sch where sch: "sv_functions s = Some reg" "fr_get_schema reg name = Some sch" by blast
    have w: "\<exists>r. fst (sync_wait env sched name ps ms' (fs_require_scheduler sch) (s\<lparr>sv_world := w\<rparr>)) = Some r" for ms' w
      using sync_wait_some [of "s\<lparr>sv_world := w\<rparr>" reg name sch] inv sch by simp
    have w': "\<exists>r. fst (sync_wait env sched name ps ms' (fs_require_scheduler sch) s) = Some r" for ms'
      using sync_wait_some [of s reg name sch] inv sch by simp
    show ?thesis
      using w w' sch
      by (auto simp: call_function_sync_def Let_def split_def split: option.splits bool.splits prod.splits)
  qed
qed

theorem sync_call_returns_witness:
  "\<exists>r. fst (call_function_sync demo_sv_env [] ''add'' [] 5 demo_service) = Some r"
  by (rule sync_call_returns [OF demo_reachable])

text \<open>a batch runs its calls in order and stops at the first that fails: its results are those of
  a prefix of the calls, all but the last successful, and it succeeds exactly when every call was run
  and succeeded. The hooks around it run once each, in the context of the caller.\<close>

theorem batch_stops_at_failure:
  "\<exists>n. map cr_name (br_results (fst (batch_in_context env ctx cs s))) = map fc_name (take n cs) \<and>
    (\<forall>r \<in> set (butlast (br_results (fst (batch_in_context env ctx cs s)))). cr_success r) \<and>
    (br_success (fst (batch_in_context env ctx cs s)) \<longleftrightarrow>
       n = length cs \<and> (\<forall>r \<in> set (br_results (fst (batch_in_context env ctx cs s))). cr_success r)) \<and>
    (\<not> br_success (fst (batch_in_context env ctx cs s)) \<longrightarrow>
       n \<noteq> 0 \<and> \<not> cr_success (last (br_results (fst (batch_in_context env ctx cs s))))) \<and>
    snd (batch_in_context env ctx cs s) = se_set_context env (se_get_context env (sv_world s)) (se_on_batch_end env
      (fold (\<lambda>c v. snd (guarded_call (batch_exception s (fc_name c)) (fc_name c) (fc_parameters c) (registry_of s) v))
         (take n cs) (se_on_batch_start env cs (se_set_context env ctx (sv_world s)))))"
proof -
  obtain br w where b: "batch_calls (batch_exception s) (registry_of s) cs \<lparr>br_success = True, br_results = []\<rparr>
      (se_on_batch_start env cs (se_set_context env ctx (sv_world s))) = (br, w)" by fastforce
  obtain rs where rs: "br_results br = rs" "map cr_name rs = take (length rs) (map fc_name cs)"
    "\<forall>r \<in> set (butlast rs). cr_success r"
    "w = fold (\<lambda>c v. snd (guarded_call (batch_exception s (fc_name c)) (fc_name c) (fc_parameters c) (registry_of s) v))
      (take (length rs) cs) (se_on_batch_start env cs (se_set_context env ctx (sv_world s)))"
    "if length rs = length cs \<and> (\<forall>r \<in> set rs. cr_success r) then br_success br
      else \<not> br_success br \<and> rs \<noteq> [] \<and> \<not> cr_success (last rs)"
    using batch_calls_prefix [OF b] by auto
  then show ?thesis
    by (intro exI [of _ "length rs"]) (auto simp: batch_in_context_def b Let_def take_map split: if_splits)
qed

theorem batch_stops_at_failure_witness:
  "let cs = [\<lparr>fc_name = ''add'', fc_parameters = [(''a'', VNumber 1)]\<rparr>, \<lparr>fc_name = ''no'', fc_parameters = []\<rparr>,
      \<lparr>fc_name = ''add'', fc_parameters = []\<rparr>]
   in \<exists>n. map cr_name (br_results (fst (batch_in_context demo_sv_env () cs demo_service))) = map fc_name (take n cs)"
  using batch_stops_at_failure [where env = demo_sv_env and ctx = "()" and s = demo_service and
      cs = "[\<lparr>fc_name = ''add'', fc_parameters = [(''a'', VNumber 1)]\<rparr>, \<lparr>fc_name = ''no'', fc_parameters = []\<rparr>,
      \<lparr>fc_name = ''add'', fc_parameters = []\<rparr>]"]
  unfolding Let_def by blast

text \<open>a synchronous batch has no path for callers that already run in the call group of the
  service. The group is busy with the caller, so it gets no turn while the caller waits, and the
  batch can only time out.\<close>

theorem batch_in_own_group_times_out:
  assumes "sv_reachable env a w s" and "sv_functions s = Some reg" and "batch_requires reg cs False = Some True"
    and "sv_running s" and "call_group (sv_attrs s) \<notin> set sched"
    and "\<And>p. fst (se_ts_post env p (call_group (sv_attrs s)) (sv_world s))"
  shows "fst (call_functions_sync env sched cs ms s) = batch_failure (wait_timeout ms)"
proof -
  let ?k = "sv_promises s" and ?g = "call_group (sv_attrs s)"
  have inv: "sv_inv s" by (rule sv_reachable_inv [OF assms(1)])
  then obtain p where p: "sv_scheduler s = Some p" and ini: "sv_initialized s"
    using assms(4) by (auto simp: sv_inv_def life_ok_def)
  define s1 where "s1 = s\<lparr>sv_promises := ?k + 1,
    sv_queue := sv_queue s @ [(?g, BatchTask cs (Promise ?k) (se_get_context env (sv_world s)) True)],
    sv_world := snd (se_ts_post env p ?g (sv_world s))\<rparr>"
  have async: "call_functions_async env cs (Promise ?k) (s\<lparr>sv_promises := ?k + 1\<rparr>) = (True, s1)"
    using assms p ini by (simp add: call_functions_async_def Let_def post_task_def split_def s1_def)
  have "\<forall>e \<in> set (sv_queue s1). fst e \<noteq> ?g \<longrightarrow> task_below ?k (snd e)"
    using inv by (auto simp: s1_def sv_inv_def promises_ok_def)
  from wait_without_group [OF assms(5) this, where env = env and rdy = "batch_ready ?k"]
  have "map_of (sv_batch_results (wait_result env (batch_ready ?k) sched s1)) ?k = None"
    using inv by (auto simp: s1_def sv_inv_def promises_ok_def map_of_eq_None_iff)
  then show ?thesis using async by (simp add: call_functions_sync_def Let_def)
qed

theorem batch_in_own_group_times_out_witness:
  "fst (call_functions_sync demo_sv_env [''svc_event''] [\<lparr>fc_name = ''add'', fc_parameters = []\<rparr>] 7 demo_service) =
    batch_failure (wait_timeout 7)"
  by (rule batch_in_own_group_times_out [OF demo_reachable, where
        reg = "[(''add'', demo_schema\<lparr>fs_require_scheduler := True\<rparr>, demo_handler)]"])
    (simp_all add: demo_service_state demo_sv_env_def fr_get_schema_def demo_attributes_def call_group_def)

text \<open>on a running service whose scheduler accepts tasks, publishing succeeds exactly when the
  event is registered and it has no subscribers or the payload matches its schema; with subscribers
  an event that needs the scheduler is queued once.\<close>

theorem publish_event_accepts:
  assumes "sv_reachable env a w s" and "sv_running s" and "sv_events s = Some er"
    and "\<And>p g v. fst (se_ts_post env p g v)"
  shows "fst (publish_event env name items False s) =
    (\<exists>sch sig. map_of er name = Some (sch, sig) \<and> (num_slots sig = 0 \<or> validate_items er name items)) \<and>
    (\<forall>sch sig. map_of er name = Some (sch, sig) \<and> 0 < num_slots sig \<and> es_require_scheduler sch \<and>
       validate_items er name items \<longrightarrow>
       sv_queue (snd (publish_event env name items False s)) =
         sv_queue s @ [(event_group (sv_attrs s), EmitTask name items True)])"
proof -
  obtain p where p: "sv_scheduler s = Some p"
    using sv_reachable_inv [OF assms(1)] assms(2) by (auto simp: sv_inv_def life_ok_def)
  show ?thesis
    using assms(2-4) p
    by (auto simp: publish_event_def er_get_signal_def er_get_schema_def Let_def post_task_def split_def
        split: option.splits)
qed

theorem publish_event_accepts_witness:
  "fst (publish_event demo_sv_env ''tick'' [] False demo_service)"
proof -
  have e: "sv_events demo_service = Some [(''tick'', demo_event, new_signal)]" by (simp add: demo_service_state)
  have r: "sv_running demo_service" by (simp add: demo_service_state)
  have post: "fst (se_ts_post demo_sv_env p g v)" for p g v by (simp add: demo_sv_env_def)
  show ?thesis
    using publish_event_accepts [OF demo_reachable r e post, of "''tick''" "[]"]
    by (simp add: new_signal_def num_slots_def)
qed

end
