(* ===== verification/Service_Manager.thy ===== *)
theory Service_Manager
  imports Service_Base Service_Order "HOL-Library.Multiset"
begin

text \<open>
  The service manager (\<open>service_manager/service/manager.cpp\<close> and \<open>manager.hpp\<close>): the
  registered services with their reference counts and states, bindings, and the manager's own life
  cycle.

  The services are objects \<open>'s\<close> named by pointers; \<open>svc_ops\<close> is what the manager calls on them,
  \<open>base_ops\<close> its instance on the model of \<open>ServiceBase\<close>. A binding is the tree of the
  service and the bindings of its dependencies. The parts of \<open>bind\<close> and \<open>unbind\<close> that
  hold the service mutex are functions of their own, so that the sequential operations and the
  interleaving of several threads use the same definitions. \<open>None\<close> stands for an operation that
  does not return: it waits for a transition that nobody ends, or recurses without end through
  circular dependencies.
\<close>

section \<open>State\<close>

datatype service_state = Stopped | Starting | Running | Stopping

record runtime_info =
  ri_ref_count :: nat
  ri_service :: ptr
  ri_state :: service_state

record 's svc_ops =
  so_attrs :: "'s \<Rightarrow> attributes"
  so_initialized :: "'s \<Rightarrow> bool"
  so_running :: "'s \<Rightarrow> bool"
  so_init :: "ptr option \<Rightarrow> 's \<Rightarrow> bool \<times> 's"
  so_deinit :: "'s \<Rightarrow> 's"
  so_start :: "'s \<Rightarrow> bool \<times> 's"
  so_stop :: "'s \<Rightarrow> 's"

definition base_ops :: "(string \<Rightarrow> ('j, 'w, 'c) sv_env) \<Rightarrow> ('j, 'w, 'c) service svc_ops" where
  "base_ops envs = \<lparr>so_attrs = sv_attrs, so_initialized = sv_initialized, so_running = sv_running,
     so_init = \<lambda>p s. sv_init (envs (at_name (sv_attrs s))) p s,
     so_deinit = \<lambda>s. sv_deinit (envs (at_name (sv_attrs s))) s,
     so_start = \<lambda>s. sv_start (envs (at_name (sv_attrs s))) s,
     so_stop = \<lambda>s. sv_stop (envs (at_name (sv_attrs s))) s\<rparr>"

datatype binding = Invalid | Bound ptr "binding list"

record 's manager =
  m_initialized :: bool
  m_running :: bool
  m_scheduler :: "ptr option"
  m_secondary :: "ptr option"
  m_services :: "(string, runtime_info) smap"
  m_init_order :: "string list"
  m_objs :: "ptr \<Rightarrow> 's"
  m_manager_binding :: binding
  m_utils_binding :: binding
  m_dataflow_binding :: binding

definition new_manager :: "(ptr \<Rightarrow> 's) \<Rightarrow> 's manager" where
  "new_manager objs = \<lparr>m_initialized = False, m_running = False, m_scheduler = None, m_secondary = None,
     m_services = [], m_init_order = [], m_objs = objs, m_manager_binding = Invalid, m_utils_binding = Invalid,
     m_dataflow_binding = Invalid\<rparr>"

definition info_of :: "'s manager \<Rightarrow> string \<Rightarrow> runtime_info option" where
  "info_of m n = map_of (m_services m) n"

definition set_info :: "string \<Rightarrow> runtime_info \<Rightarrow> 's manager \<Rightarrow> 's manager" where
  "set_info n i m = m\<lparr>m_services := smap_put n i (m_services m)\<rparr>"

definition name_at :: "'s svc_ops \<Rightarrow> 's manager \<Rightarrow> ptr \<Rightarrow> string" where
  "name_at ops m p = at_name (so_attrs ops (m_objs m p))"

definition is_valid :: "'s svc_ops \<Rightarrow> 's manager \<Rightarrow> binding \<Rightarrow> bool" where
  "is_valid ops m b = (case b of Invalid \<Rightarrow> False | Bound p bs \<Rightarrow> so_running ops (m_objs m p))"

fun dependency_service :: "'s svc_ops \<Rightarrow> 's manager \<Rightarrow> binding list \<Rightarrow> string \<Rightarrow> ptr option" where
  "dependency_service ops m [] n = None"
| "dependency_service ops m (Invalid # bs) n = dependency_service ops m bs n"
| "dependency_service ops m (Bound p ds # bs) n =
     (if name_at ops m p = n then Some p else dependency_service ops m bs n)"

section \<open>Adding and removing services\<close>

definition get_service_task_scheduler :: "bool \<Rightarrow> attributes \<Rightarrow> 's manager \<Rightarrow> ptr option" where
  "get_service_task_scheduler secondary a m =
     (if at_own_scheduler a then m_scheduler m
      else case at_scheduler_type a of
        MainScheduler \<Rightarrow> m_scheduler m
      | SecondaryScheduler \<Rightarrow> (if secondary then m_secondary m else None))"

definition set_obj :: "ptr \<Rightarrow> 's \<Rightarrow> 's manager \<Rightarrow> 's manager" where
  "set_obj p s m = m\<lparr>m_objs := (m_objs m)(p := s)\<rparr>"

definition register_info :: "string \<Rightarrow> ptr \<Rightarrow> 's manager \<Rightarrow> 's manager" where
  "register_info n p m =
     (if info_of m n \<noteq> None then m
      else set_info n \<lparr>ri_ref_count = 0, ri_service = p, ri_state = Stopped\<rparr>
        (m\<lparr>m_init_order := m_init_order m @ [n]\<rparr>))"

definition add_service :: "'s svc_ops \<Rightarrow> bool \<Rightarrow> ptr option \<Rightarrow> 's manager \<Rightarrow> bool \<times> 's manager" where
  "add_service ops secondary svc m =
     (case svc of
        None \<Rightarrow> (False, m)
      | Some p \<Rightarrow>
          (let s = m_objs m p; n = at_name (so_attrs ops s) in
           if info_of m n \<noteq> None then (True, m)
           else if so_initialized ops s then (True, register_info n p m)
           else case so_init ops (get_service_task_scheduler secondary (so_attrs ops s) m) s of
             (False, s') \<Rightarrow> (False, set_obj p s' m)
           | (True, s') \<Rightarrow> (True, register_info n p (set_obj p s' m))))"

definition remove_service :: "'s svc_ops \<Rightarrow> string \<Rightarrow> 's manager \<Rightarrow> (bool \<times> 's manager) option" where
  "remove_service ops n m =
     (if n = [] then Some (False, m)
      else case info_of m n of
        None \<Rightarrow> Some (True, m)
      | Some i \<Rightarrow>
          (if ri_state i = Starting \<or> ri_state i = Stopping then None
           else let p = ri_service i; s = m_objs m p;
                    m1 = (if so_initialized ops s then set_obj p (so_deinit ops s) m else m)
                in Some (True, m1\<lparr>m_services := smap_del n (m_services m1),
                                  m_init_order := filter (\<lambda>k. k \<noteq> n) (m_init_order m1)\<rparr>)))"

section \<open>Unbinding\<close>

text \<open>The locked part before the stop: the service to stop, if any.\<close>

definition begin_unbind :: "'s svc_ops \<Rightarrow> string \<Rightarrow> 's manager \<Rightarrow> ptr option \<times> 's manager" where
  "begin_unbind ops n m =
     (if \<not> m_initialized m then (None, m)
      else case info_of m n of
        None \<Rightarrow> (None, m)
      | Some i \<Rightarrow>
          (if ri_ref_count i = 0 then (None, m)
           else let stop = ri_ref_count i = 1 \<and> so_running ops (m_objs m (ri_service i));
                    c = ri_ref_count i - 1;
                    st = (if c = 0 then (if stop then Stopping else Stopped) else ri_state i)
                in (if stop then Some (ri_service i) else None,
                    set_info n (i\<lparr>ri_ref_count := c, ri_state := st\<rparr>) m)))"

definition stop_service :: "'s svc_ops \<Rightarrow> ptr \<Rightarrow> 's manager \<Rightarrow> 's manager" where
  "stop_service ops p m = set_obj p (so_stop ops (m_objs m p)) m"

definition finish_unbind :: "string \<Rightarrow> 's manager \<Rightarrow> 's manager" where
  "finish_unbind n m =
     (case info_of m n of
        None \<Rightarrow> m
      | Some i \<Rightarrow> if ri_state i = Stopping then set_info n (i\<lparr>ri_state := Stopped\<rparr>) m else m)"

definition unbind :: "'s svc_ops \<Rightarrow> string \<Rightarrow> 's manager \<Rightarrow> 's manager" where
  "unbind ops n m =
     (case begin_unbind ops n m of
        (None, m1) \<Rightarrow> m1
      | (Some p, m1) \<Rightarrow> finish_unbind n (stop_service ops p m1))"

text \<open>Releasing a binding releases the service first, then its dependencies.\<close>

fun release :: "'s svc_ops \<Rightarrow> binding \<Rightarrow> 's manager \<Rightarrow> 's manager"
  and release_all :: "'s svc_ops \<Rightarrow> binding list \<Rightarrow> 's manager \<Rightarrow> 's manager" where
  "release ops Invalid m = m"
| "release ops (Bound p bs) m = release_all ops bs (if m_initialized m then unbind ops (name_at ops m p) m else m)"
| "release_all ops [] m = m"
| "release_all ops (b # bs) m = release_all ops bs (release ops b m)"

section \<open>Binding\<close>

datatype bind_step = NotFound | Waiting | Joined ptr | MustStart ptr

definition begin_bind :: "string \<Rightarrow> 's manager \<Rightarrow> bind_step \<times> 's manager" where
  "begin_bind n m =
     (case info_of m n of
        None \<Rightarrow> (NotFound, m)
      | Some i \<Rightarrow>
          (if ri_state i = Starting \<or> ri_state i = Stopping then (Waiting, m)
           else if ri_state i = Stopped
           then (MustStart (ri_service i),
                 set_info n (i\<lparr>ri_state := Starting, ri_ref_count := ri_ref_count i + 1\<rparr>) m)
           else (Joined (ri_service i), set_info n (i\<lparr>ri_ref_count := ri_ref_count i + 1\<rparr>) m)))"

definition start_service :: "'s svc_ops \<Rightarrow> ptr \<Rightarrow> 's manager \<Rightarrow> bool \<times> 's manager" where
  "start_service ops p m = (case so_start ops (m_objs m p) of (ok, s) \<Rightarrow> (ok, set_obj p s m))"

text \<open>The locked part after the start: the service bound, \<open>None\<close> when the start failed or the
  service was removed meanwhile.\<close>

definition finish_bind :: "'s svc_ops \<Rightarrow> string \<Rightarrow> ptr \<Rightarrow> bool \<Rightarrow> 's manager \<Rightarrow> ptr option \<times> 's manager" where
  "finish_bind ops n p ok m =
     (case info_of m n of
        None \<Rightarrow> (None, if ok then stop_service ops p m else m)
      | Some i \<Rightarrow>
          (if \<not> ok then (None, set_info n (i\<lparr>ri_ref_count := ri_ref_count i - 1, ri_state := Stopped\<rparr>) m)
           else (Some (ri_service i), set_info n (i\<lparr>ri_state := Running\<rparr>) m)))"

definition bind_self ::
  "'s svc_ops \<Rightarrow> string \<Rightarrow> binding list \<Rightarrow> 's manager \<Rightarrow> (binding \<times> 's manager) option" where
  "bind_self ops n bs m =
     (case begin_bind n m of
        (NotFound, m1) \<Rightarrow> Some (Invalid, release_all ops bs m1)
      | (Waiting, m1) \<Rightarrow> None
      | (Joined p, m1) \<Rightarrow> Some (Bound p bs, m1)
      | (MustStart p, m1) \<Rightarrow>
          (case start_service ops p m1 of (ok, m2) \<Rightarrow>
            (case finish_bind ops n p ok m2 of
               (None, m3) \<Rightarrow> Some (Invalid, release_all ops bs m3)
             | (Some q, m3) \<Rightarrow> Some (Bound q bs, m3))))"

text \<open>The recursion of \<open>bind\<close> over the dependencies, with its depth as fuel. When a dependency
  fails, its binding and then those collected before it are released.\<close>

fun bind :: "'s svc_ops \<Rightarrow> nat \<Rightarrow> string \<Rightarrow> 's manager \<Rightarrow> (binding \<times> 's manager) option"
  and bind_deps :: "'s svc_ops \<Rightarrow> nat \<Rightarrow> string list \<Rightarrow> binding list \<Rightarrow> 's manager
    \<Rightarrow> (binding list option \<times> 's manager) option" where
  "bind ops 0 n m = None"
| "bind ops (Suc f) n m =
     (if \<not> m_initialized m then Some (Invalid, m)
      else case info_of m n of
        None \<Rightarrow> Some (Invalid, m)
      | Some i \<Rightarrow>
          (let a = so_attrs ops (m_objs m (ri_service i)) in
           if \<not> at_bindable a then Some (Invalid, m)
           else case bind_deps ops f (at_dependencies a) [] m of
             None \<Rightarrow> None
           | Some (None, m1) \<Rightarrow> Some (Invalid, m1)
           | Some (Some bs, m1) \<Rightarrow> bind_self ops n bs m1))"
| "bind_deps ops f [] acc m = Some (Some acc, m)"
| "bind_deps ops f (d # ds) acc m =
     (case bind ops f d m of
        None \<Rightarrow> None
      | Some (b, m1) \<Rightarrow>
          (if \<not> is_valid ops m1 b then Some (None, release_all ops (b # acc) m1)
           else bind_deps ops f ds (acc @ [b]) m1))"

section \<open>Queries\<close>

record service_info =
  si_name :: string
  si_version :: string
  si_state :: service_state
  si_reference_count :: nat
  si_bindable :: bool
  si_dependencies :: "string list"

definition get_service_names :: "'s manager \<Rightarrow> string list" where
  "get_service_names m = map fst (m_services m)"

definition get_service :: "string \<Rightarrow> 's manager \<Rightarrow> ptr option" where
  "get_service n m = map_option ri_service (info_of m n)"

text \<open>The reference the manager itself holds on a built-in service is not reported.\<close>

definition get_service_info :: "'s svc_ops \<Rightarrow> string \<Rightarrow> 's manager \<Rightarrow> service_info option" where
  "get_service_info ops n m =
     (case info_of m n of
        None \<Rightarrow> None
      | Some i \<Rightarrow>
          (let a = so_attrs ops (m_objs m (ri_service i));
               builtin = n = ''Manager'' \<or> n = ''Utils'' \<or> n = ''DataFlow'';
               c = (if builtin \<and> m_running m \<and> 0 < ri_ref_count i then ri_ref_count i - 1 else ri_ref_count i)
           in Some \<lparr>si_name = n, si_version = at_version a, si_state = ri_state i, si_reference_count = c,
                si_bindable = at_bindable a, si_dependencies = at_dependencies a\<rparr>))"

definition get_service_function_schema ::
  "string \<Rightarrow> string \<Rightarrow> ('j, 'w, 'c) service manager \<Rightarrow> 'j function_schema option" where
  "get_service_function_schema n f m =
     (case info_of m n of
        None \<Rightarrow> None
      | Some i \<Rightarrow>
          (case sv_functions (m_objs m (ri_service i)) of None \<Rightarrow> None | Some reg \<Rightarrow> fr_get_schema reg f))"

definition get_service_event_schema ::
  "string \<Rightarrow> string \<Rightarrow> ('j, 'w, 'c) service manager \<Rightarrow> event_schema option" where
  "get_service_event_schema n e m =
     (case info_of m n of
        None \<Rightarrow> None
      | Some i \<Rightarrow>
          (case sv_events (m_objs m (ri_service i)) of None \<Rightarrow> None | Some reg \<Rightarrow> er_get_schema reg e))"

record schema_overview =
  sc_name :: string
  sc_description :: string
  sc_function_names :: "string list"
  sc_event_names :: "string list"

definition get_service_schema :: "string \<Rightarrow> ('j, 'w, 'c) service manager \<Rightarrow> schema_overview option" where
  "get_service_schema n m =
     (case info_of m n of
        None \<Rightarrow> None
      | Some i \<Rightarrow>
          (let s = m_objs m (ri_service i) in
           Some \<lparr>sc_name = n, sc_description = at_description (sv_attrs s),
             sc_function_names = (case sv_functions s of None \<Rightarrow> [] | Some reg \<Rightarrow> fr_get_names reg),
             sc_event_names = (case sv_events s of None \<Rightarrow> [] | Some reg \<Rightarrow> er_get_names reg)\<rparr>))"

section \<open>The life cycle of the manager\<close>

text \<open>What the manager is built with: whether the secondary scheduler is enabled, the objects it
  creates, the instances the plugin registry holds, and the effect of starting and stopping a
  scheduler on the services that use it.\<close>

record 's manager_config =
  mc_secondary :: bool
  mc_scheduler_ptr :: ptr
  mc_secondary_ptr :: ptr
  mc_manager_service :: ptr
  mc_utils_service :: ptr
  mc_dataflow_service :: ptr
  mc_new_service :: "ptr \<Rightarrow> 's"
  mc_instances :: "(string, ptr) smap"
  mc_ts_start :: "ptr \<Rightarrow> (ptr \<Rightarrow> 's) \<Rightarrow> bool \<times> (ptr \<Rightarrow> 's)"
  mc_ts_stop :: "ptr \<Rightarrow> (ptr \<Rightarrow> 's) \<Rightarrow> (ptr \<Rightarrow> 's)"

definition no_schedulers :: "'s manager \<Rightarrow> 's manager" where
  "no_schedulers m = m\<lparr>m_scheduler := None, m_secondary := None\<rparr>"

fun add_in_order :: "'s svc_ops \<Rightarrow> bool \<Rightarrow> (string, ptr) smap \<Rightarrow> string list \<Rightarrow> 's manager \<Rightarrow> 's manager" where
  "add_in_order ops sec insts [] m = m"
| "add_in_order ops sec insts (n # ns) m =
     add_in_order ops sec insts ns (snd (add_service ops sec (map_of insts n) m))"

definition add_all_registered_services ::
  "'s svc_ops \<Rightarrow> 's manager_config \<Rightarrow> 's manager \<Rightarrow> 's manager" where
  "add_all_registered_services ops cf m =
     (let insts = mc_instances cf;
          deps = map (\<lambda>(n, p). (n, at_dependencies (so_attrs ops (m_objs m p)))) insts;
          ord = topological_sort deps
      in if insts = [] then m else if ord = [] then m else add_in_order ops (mc_secondary cf) insts ord m)"

text \<open>The built-in services are added in turn; when one fails, those before it are removed again.
  Removing never waits here: no transition is under way.\<close>

definition drop_service :: "'s svc_ops \<Rightarrow> string \<Rightarrow> 's manager \<Rightarrow> 's manager" where
  "drop_service ops n m = (case remove_service ops n m of None \<Rightarrow> m | Some (_, m1) \<Rightarrow> m1)"

definition init_internal :: "'s svc_ops \<Rightarrow> 's manager_config \<Rightarrow> 's manager \<Rightarrow> bool \<times> 's manager" where
  "init_internal ops cf m =
     (if m_initialized m then (True, m)
      else let m1 = m\<lparr>m_scheduler := Some (mc_scheduler_ptr cf),
                 m_secondary := (if mc_secondary cf then Some (mc_secondary_ptr cf) else m_secondary m),
                 m_objs := (m_objs m)(mc_manager_service cf := mc_new_service cf (mc_manager_service cf),
                    mc_utils_service cf := mc_new_service cf (mc_utils_service cf),
                    mc_dataflow_service cf := mc_new_service cf (mc_dataflow_service cf))\<rparr>
           in case add_service ops (mc_secondary cf) (Some (mc_manager_service cf)) m1 of
                (False, m2) \<Rightarrow> (False, no_schedulers m2)
              | (True, m2) \<Rightarrow>
                (case add_service ops (mc_secondary cf) (Some (mc_utils_service cf)) m2 of
                   (False, m3) \<Rightarrow> (False, no_schedulers (drop_service ops ''Manager'' m3))
                 | (True, m3) \<Rightarrow>
                   (case add_service ops (mc_secondary cf) (Some (mc_dataflow_service cf)) m3 of
                      (False, m4) \<Rightarrow>
                        (False, no_schedulers (drop_service ops ''Manager'' (drop_service ops ''Utils'' m4)))
                    | (True, m4) \<Rightarrow>
                        (True, (add_all_registered_services ops cf m4)\<lparr>m_initialized := True\<rparr>))))"

definition stop_builtin :: "'s svc_ops \<Rightarrow> string \<Rightarrow> ptr \<Rightarrow> 's manager \<Rightarrow> 's manager" where
  "stop_builtin ops n p m =
     (case info_of m n of
        None \<Rightarrow> m
      | Some i \<Rightarrow>
          (if ri_state i \<noteq> Running then m
           else let m1 = stop_service ops p (set_info n (i\<lparr>ri_state := Stopping\<rparr>) m)
                in case info_of m1 n of
                     None \<Rightarrow> m1
                   | Some i1 \<Rightarrow> set_info n (i1\<lparr>ri_state := Stopped\<rparr>) m1))"

definition ts_stop :: "'s manager_config \<Rightarrow> ptr option \<Rightarrow> 's manager \<Rightarrow> 's manager" where
  "ts_stop cf p m = (case p of None \<Rightarrow> m | Some q \<Rightarrow> m\<lparr>m_objs := mc_ts_stop cf q (m_objs m)\<rparr>)"

text \<open>A released binding of the manager is empty afterwards.\<close>

definition release_dataflow :: "'s svc_ops \<Rightarrow> 's manager \<Rightarrow> 's manager" where
  "release_dataflow ops m = (release ops (m_dataflow_binding m) m)\<lparr>m_dataflow_binding := Invalid\<rparr>"

definition release_utils :: "'s svc_ops \<Rightarrow> 's manager \<Rightarrow> 's manager" where
  "release_utils ops m = (release ops (m_utils_binding m) m)\<lparr>m_utils_binding := Invalid\<rparr>"

definition release_manager :: "'s svc_ops \<Rightarrow> 's manager \<Rightarrow> 's manager" where
  "release_manager ops m = (release ops (m_manager_binding m) m)\<lparr>m_manager_binding := Invalid\<rparr>"

definition manager_stop :: "'s svc_ops \<Rightarrow> 's manager_config \<Rightarrow> 's manager \<Rightarrow> 's manager" where
  "manager_stop ops cf m =
     (if \<not> m_running m then m
      else let m1 = release_manager ops (release_utils ops (release_dataflow ops m));
               m2 = stop_builtin ops ''DataFlow'' (mc_dataflow_service cf) m1;
               m3 = stop_builtin ops ''Utils'' (mc_utils_service cf) m2;
               m4 = stop_builtin ops ''Manager'' (mc_manager_service cf) m3
           in (ts_stop cf (m_scheduler m4) (ts_stop cf (m_secondary m4) m4))\<lparr>m_running := False\<rparr>)"

text \<open>Services still running are stopped; one whose removal fails is only dropped from the order.\<close>

definition remove_last :: "'s svc_ops \<Rightarrow> string \<Rightarrow> 's manager \<Rightarrow> 's manager option" where
  "remove_last ops n m =
     (let m1 = (case info_of m n of
                  None \<Rightarrow> m
                | Some i \<Rightarrow> if so_running ops (m_objs m (ri_service i)) then stop_service ops (ri_service i) m else m)
      in case remove_service ops n m1 of
           None \<Rightarrow> None
         | Some (True, m2) \<Rightarrow> Some m2
         | Some (False, m2) \<Rightarrow> Some (m2\<lparr>m_init_order := filter (\<lambda>k. k \<noteq> n) (m_init_order m2)\<rparr>))"

partial_function (option) remove_all_registered_services :: "'s svc_ops \<Rightarrow> 's manager \<Rightarrow> 's manager option" where
  "remove_all_registered_services ops m =
     (if m_init_order m = [] then Some m
      else case remove_last ops (last (m_init_order m)) m of
        None \<Rightarrow> None
      | Some m1 \<Rightarrow> remove_all_registered_services ops m1)"

definition manager_deinit :: "'s svc_ops \<Rightarrow> 's manager_config \<Rightarrow> 's manager \<Rightarrow> 's manager option" where
  "manager_deinit ops cf m =
     (if \<not> m_initialized m then Some m
      else case remove_all_registered_services ops (if m_running m then manager_stop ops cf m else m) of
        None \<Rightarrow> None
      | Some m1 \<Rightarrow> Some ((no_schedulers m1)\<lparr>m_initialized := False\<rparr>))"

text \<open>The scope guard of a failed start stops both schedulers.\<close>

definition stop_schedulers :: "'s manager_config \<Rightarrow> 's manager \<Rightarrow> 's manager" where
  "stop_schedulers cf m = ts_stop cf (m_scheduler m) (ts_stop cf (m_secondary m) m)"

definition ts_start :: "'s manager_config \<Rightarrow> ptr option \<Rightarrow> 's manager \<Rightarrow> bool \<times> 's manager" where
  "ts_start cf p m =
     (case p of None \<Rightarrow> (False, m)
      | Some q \<Rightarrow> (case mc_ts_start cf q (m_objs m) of (ok, objs) \<Rightarrow> (ok, m\<lparr>m_objs := objs\<rparr>)))"

text \<open>Assigning to a binding member releases what it held.\<close>

definition start_builtins ::
  "'s svc_ops \<Rightarrow> nat \<Rightarrow> 's manager \<Rightarrow> (bool \<times> 's manager) option" where
  "start_builtins ops f m =
     (case bind ops f ''Manager'' m of
        None \<Rightarrow> None
      | Some (b1, m1) \<Rightarrow>
          (let m2 = (release ops (m_manager_binding m1) m1)\<lparr>m_manager_binding := b1\<rparr> in
           if \<not> is_valid ops m2 b1 then Some (False, m2\<lparr>m_running := False\<rparr>)
           else case bind ops f ''Utils'' m2 of
             None \<Rightarrow> None
           | Some (b2, m3) \<Rightarrow>
               (let m4 = (release ops (m_utils_binding m3) m3)\<lparr>m_utils_binding := b2\<rparr> in
                if \<not> is_valid ops m4 b2 then Some (False, (release_manager ops m4)\<lparr>m_running := False\<rparr>)
                else case bind ops f ''DataFlow'' m4 of
                  None \<Rightarrow> None
                | Some (b3, m5) \<Rightarrow>
                    (let m6 = (release ops (m_dataflow_binding m5) m5)\<lparr>m_dataflow_binding := b3\<rparr> in
                     if \<not> is_valid ops m6 b3
                     then Some (False, (release_manager ops (release_utils ops m6))\<lparr>m_running := False\<rparr>)
                     else Some (True, m6)))))"

definition manager_start ::
  "'s svc_ops \<Rightarrow> 's manager_config \<Rightarrow> nat \<Rightarrow> 's manager \<Rightarrow> (bool \<times> 's manager) option" where
  "manager_start ops cf f m =
     (if m_running m then Some (True, m)
      else case init_internal ops cf m of
        (False, m1) \<Rightarrow> Some (False, m1)
      | (True, m1) \<Rightarrow>
          (case ts_start cf (m_scheduler m1) m1 of
             (False, m2) \<Rightarrow> Some (False, stop_schedulers cf m2)
           | (True, m2) \<Rightarrow>
               (case (if mc_secondary cf then ts_start cf (m_secondary m2) m2 else (True, m2)) of
                  (False, m3) \<Rightarrow> Some (False, stop_schedulers cf m3)
                | (True, m3) \<Rightarrow>
                    (case start_builtins ops f (m3\<lparr>m_running := True\<rparr>) of
                       None \<Rightarrow> None
                     | Some (True, m4) \<Rightarrow> Some (True, m4)
                     | Some (False, m4) \<Rightarrow> Some (False, stop_schedulers cf m4)))))"

section \<open>References and live bindings\<close>

text \<open>The services a binding holds, with multiplicity.\<close>

fun nodes :: "binding \<Rightarrow> ptr multiset"
  and nodes_all :: "binding list \<Rightarrow> ptr multiset" where
  "nodes Invalid = {#}"
| "nodes (Bound p bs) = add_mset p (nodes_all bs)"
| "nodes_all [] = {#}"
| "nodes_all (b # bs) = nodes b + nodes_all bs"

declare count_greater_zero_iff [simp del] count_eq_zero_iff [simp del]

lemma nodes_all_append [simp]: "nodes_all (as @ bs) = nodes_all as + nodes_all bs"
  by (induction as) (auto simp: ac_simps)

text \<open>One registered service, given the multiset \<open>H\<close> of all services held by live bindings.\<close>

definition entry_ok :: "'s svc_ops \<Rightarrow> ('s \<Rightarrow> bool) \<Rightarrow> 's manager \<Rightarrow> ptr multiset \<Rightarrow> string \<Rightarrow> runtime_info \<Rightarrow> bool" where
  "entry_ok ops svc_ok m H n i \<longleftrightarrow> name_at ops m (ri_service i) = n \<and> svc_ok (m_objs m (ri_service i)) \<and>
     so_initialized ops (m_objs m (ri_service i)) \<and> ri_ref_count i = count H (ri_service i) \<and>
     (ri_state i = Running \<and> so_running ops (m_objs m (ri_service i)) \<and> 0 < ri_ref_count i \<or>
      ri_state i = Stopped \<and> ri_ref_count i = 0)"

definition manager_ok :: "'s svc_ops \<Rightarrow> ('s \<Rightarrow> bool) \<Rightarrow> 's manager \<Rightarrow> ptr multiset \<Rightarrow> bool" where
  "manager_ok ops svc_ok m H \<longleftrightarrow> m_initialized m \<and> (\<forall>n i. info_of m n = Some i \<longrightarrow> entry_ok ops svc_ok m H n i) \<and>
     (\<forall>p \<in># H. \<exists>i. info_of m (name_at ops m p) = Some i \<and> ri_service i = p)"

text \<open>What no operation on bindings changes: the attributes and which object a name stands for.\<close>

definition same_services :: "'s svc_ops \<Rightarrow> 's manager \<Rightarrow> 's manager \<Rightarrow> bool" where
  "same_services ops m m' \<longleftrightarrow> m_initialized m' = m_initialized m \<and>
     (\<forall>p. so_attrs ops (m_objs m' p) = so_attrs ops (m_objs m p)) \<and>
     (\<forall>n. map_option ri_service (info_of m' n) = map_option ri_service (info_of m n))"

lemma same_services_refl [simp]: "same_services ops m m"
  by (simp add: same_services_def)

lemma same_services_trans: "same_services ops a b \<Longrightarrow> same_services ops b c \<Longrightarrow> same_services ops a c"
  by (simp add: same_services_def)

lemma info_set_info [simp]: "info_of (set_info n i m) k = (if k = n then Some i else info_of m k)"
  by (simp add: info_of_def set_info_def)

lemma set_info_frame [simp]: "m_objs (set_info n i m) = m_objs m" "m_initialized (set_info n i m) = m_initialized m"
  by (simp_all add: set_info_def)

lemma set_obj_frame [simp]: "m_objs (set_obj p s m) = (m_objs m)(p := s)" "info_of (set_obj p s m) n = info_of m n"
  "m_initialized (set_obj p s m) = m_initialized m"
  by (simp_all add: set_obj_def info_of_def)

lemma same_info:
  assumes "same_services ops m m'"
  shows "info_of m n = Some i \<Longrightarrow> \<exists>j. info_of m' n = Some j \<and> ri_service j = ri_service i"
    "info_of m' n = Some j \<Longrightarrow> \<exists>i. info_of m n = Some i \<and> ri_service i = ri_service j"
proof -
  have e: "map_option ri_service (info_of m' n) = map_option ri_service (info_of m n)"
    using assms by (simp add: same_services_def)
  show "info_of m n = Some i \<Longrightarrow> \<exists>j. info_of m' n = Some j \<and> ri_service j = ri_service i"
    using e by (cases "info_of m' n") auto
  show "info_of m' n = Some j \<Longrightarrow> \<exists>i. info_of m n = Some i \<and> ri_service i = ri_service j"
    using e by (cases "info_of m n") auto
qed

lemma name_at_same: "same_services ops m m' \<Longrightarrow> name_at ops m' p = name_at ops m p"
  by (simp add: same_services_def name_at_def)

locale owner = lifecycle inv "so_initialized ops" "so_running ops" "so_attrs ops" "so_init ops" "so_deinit ops"
    "so_start ops" "so_stop ops" for inv :: "'s \<Rightarrow> bool" and ops :: "'s svc_ops"
begin

lemma stop_attrs: "inv s \<Longrightarrow> so_attrs ops (so_stop ops s) = so_attrs ops s"
  using stop_law by blast

text \<open>Replacing one entry together with its object.\<close>

lemma update_entry:
  assumes ok: "manager_ok ops inv m H" and i: "info_of m n = Some i"
    and m': "m_initialized m'" "\<And>k. info_of m' k = (if k = n then Some i' else info_of m k)"
      "\<And>p. p \<noteq> ri_service i \<Longrightarrow> m_objs m' p = m_objs m p"
      "so_attrs ops (m_objs m' (ri_service i)) = so_attrs ops (m_objs m (ri_service i))"
    and e: "entry_ok ops inv m' H' n i'" and same: "ri_service i' = ri_service i"
    and H': "\<And>p. p \<noteq> ri_service i \<Longrightarrow> count H' p = count H p"
  shows "manager_ok ops inv m' H'"
  unfolding manager_ok_def
proof (intro conjI allI impI ballI)
  show "m_initialized m'" by (rule m'(1))
  have n: "name_at ops m (ri_service i) = n" using ok i by (simp add: manager_ok_def entry_ok_def)
  have nm: "name_at ops m' p = name_at ops m p" for p
    using m'(3,4) by (cases "p = ri_service i") (simp_all add: name_at_def)
  show "entry_ok ops inv m' H' k j" if "info_of m' k = Some j" for k j
  proof (cases "k = n")
    case True
    then show ?thesis using that m'(2) e by simp
  next
    case False
    then have j: "info_of m k = Some j" using that m'(2) by simp
    then have ej: "entry_ok ops inv m H k j" using ok by (simp add: manager_ok_def)
    then have ne: "ri_service j \<noteq> ri_service i" using False n by (auto simp: entry_ok_def)
    then show ?thesis using ej m'(3) [OF ne] H' [OF ne] nm unfolding entry_ok_def by metis
  qed
  show "\<exists>j. info_of m' (name_at ops m' p) = Some j \<and> ri_service j = p" if "p \<in># H'" for p
  proof (cases "p = ri_service i")
    case True
    then show ?thesis using m'(2) nm n same by auto
  next
    case False
    then have "p \<in># H" using that H' by (metis count_eq_zero_iff)
    then obtain j where j: "info_of m (name_at ops m p) = Some j" "ri_service j = p"
      using ok by (auto simp: manager_ok_def)
    moreover have "name_at ops m p \<noteq> n" using j i False by auto
    ultimately show ?thesis using m'(2) nm by auto
  qed
qed

lemma unbind_ok:
  assumes "manager_ok ops inv m (add_mset p H)"
  shows "manager_ok ops inv (unbind ops (name_at ops m p) m) H \<and>
    same_services ops m (unbind ops (name_at ops m p) m)"
proof -
  let ?n = "name_at ops m p"
  obtain i where i: "info_of m ?n = Some i" "ri_service i = p"
    using assms by (auto simp: manager_ok_def)
  have e: "entry_ok ops inv m (add_mset p H) ?n i" and ini: "m_initialized m"
    using assms i by (auto simp: manager_ok_def)
  have c: "ri_ref_count i = Suc (count H p)" and run: "so_running ops (m_objs m p)" "ri_state i = Running"
    and iv: "inv (m_objs m p)" "so_initialized ops (m_objs m p)"
    using e i by (auto simp: entry_ok_def)
  note st = stop_law [OF iv(1)]
  show ?thesis
  proof (cases "count H p = 0")
    case True
    let ?i = "i\<lparr>ri_ref_count := 0, ri_state := Stopped\<rparr>"
    let ?m = "set_info ?n ?i (set_obj p (so_stop ops (m_objs m p)) (set_info ?n (i\<lparr>ri_ref_count := 0, ri_state := Stopping\<rparr>) m))"
    have u: "unbind ops ?n m = ?m"
      using i ini c run True
      by (simp add: unbind_def begin_unbind_def Let_def finish_unbind_def stop_service_def)
    have "entry_ok ops inv ?m H ?n ?i"
      using st iv i True by (simp add: entry_ok_def name_at_def)
    then have "manager_ok ops inv ?m H"
      by (rule update_entry [OF assms i(1), rotated 4]) (use ini st i in auto)
    then show ?thesis using u i st by (auto simp: same_services_def name_at_def)
  next
    case False
    let ?i = "i\<lparr>ri_ref_count := count H p, ri_state := ri_state i\<rparr>"
    have u: "unbind ops ?n m = set_info ?n ?i m"
      using i ini c run False by (auto simp: unbind_def begin_unbind_def Let_def)
    have "entry_ok ops inv (set_info ?n ?i m) H ?n ?i"
      using e i False run iv by (simp add: entry_ok_def name_at_def)
    then have "manager_ok ops inv (set_info ?n ?i m) H"
      by (rule update_entry [OF assms i(1), rotated 4]) (use ini i in auto)
    then show ?thesis using u i by (auto simp: same_services_def)
  qed
qed

lemma release_ok:
  "manager_ok ops inv m (nodes b + H) \<Longrightarrow>
     manager_ok ops inv (release ops b m) H \<and> same_services ops m (release ops b m)"
  "manager_ok ops inv m (nodes_all bs + H) \<Longrightarrow>
     manager_ok ops inv (release_all ops bs m) H \<and> same_services ops m (release_all ops bs m)"
proof (induction b and bs arbitrary: m H and m H rule: nodes_nodes_all.induct)
  case (2 p bs)
  have u: "manager_ok ops inv (unbind ops (name_at ops m p) m) (nodes_all bs + H)"
    "same_services ops m (unbind ops (name_at ops m p) m)"
    using unbind_ok [of m p "nodes_all bs + H"] "2.prems" by simp_all
  then show ?case
    using "2.IH" [OF u(1)] "2.prems" by (auto simp: manager_ok_def intro: same_services_trans)
next
  case (4 b bs)
  have r: "manager_ok ops inv (release ops b m) (nodes_all bs + H)" "same_services ops m (release ops b m)"
    using "4.IH"(1) [of m "nodes_all bs + H"] "4.prems" by (simp_all add: ac_simps)
  then show ?case using "4.IH"(2) [OF r(1)] by (auto intro: same_services_trans)
qed simp_all

end

text \<open>Binding never waits when no transition is under way, and what it returns is accounted for.\<close>

context owner begin

lemma join_ok:
  assumes ok: "manager_ok ops inv m H" and i: "info_of m n = Some i" and run: "ri_state i = Running"
  shows "manager_ok ops inv (set_info n (i\<lparr>ri_ref_count := ri_ref_count i + 1\<rparr>) m) (add_mset (ri_service i) H)"
proof -
  let ?i = "i\<lparr>ri_ref_count := ri_ref_count i + 1\<rparr>"
  have e: "entry_ok ops inv m H n i" and ini: "m_initialized m" using ok i by (auto simp: manager_ok_def)
  have "entry_ok ops inv (set_info n ?i m) (add_mset (ri_service i) H) n ?i"
    using e run by (auto simp: entry_ok_def name_at_def)
  then show ?thesis
    by (rule update_entry [OF ok i, rotated 4]) (use ini in auto)
qed

lemma start_entry_ok:
  assumes ok: "manager_ok ops inv m H" and i: "info_of m n = Some i" and st: "ri_state i = Stopped"
    and s: "so_start ops (m_objs m (ri_service i)) = (b, s)"
  shows "manager_ok ops inv (set_info n (i\<lparr>ri_ref_count := (if b then 1 else 0), ri_state := (if b then Running else Stopped)\<rparr>)
      (set_obj (ri_service i) s (set_info n j m))) (if b then add_mset (ri_service i) H else H)"
proof -
  let ?i = "i\<lparr>ri_ref_count := (if b then 1 else 0), ri_state := (if b then Running else Stopped)\<rparr>"
  let ?m = "set_info n ?i (set_obj (ri_service i) s (set_info n j m))"
  have e: "entry_ok ops inv m H n i" and ini: "m_initialized m" using ok i by (auto simp: manager_ok_def)
  have law: "inv s" "b = so_running ops s" "so_attrs ops s = so_attrs ops (m_objs m (ri_service i))"
    "so_initialized ops s = so_initialized ops (m_objs m (ri_service i))"
    using start_law [of "m_objs m (ri_service i)"] e s by (auto simp: entry_ok_def)
  have "entry_ok ops inv ?m (if b then add_mset (ri_service i) H else H) n ?i"
    using e st law by (auto simp: entry_ok_def name_at_def)
  then show ?thesis
    by (rule update_entry [OF ok i, rotated 4]) (use ini law in auto)
qed

lemma bind_self_ok:
  assumes ok: "manager_ok ops inv m (nodes_all bs + H)"
  shows "\<exists>b m'. bind_self ops n bs m = Some (b, m') \<and> manager_ok ops inv m' (nodes b + H) \<and> same_services ops m m' \<and>
    (b \<noteq> Invalid \<longrightarrow> (\<exists>i. info_of m n = Some i \<and> b = Bound (ri_service i) bs))"
proof (cases "info_of m n")
  case None
  then show ?thesis using release_ok(2) [OF ok] by (simp add: bind_self_def begin_bind_def)
next
  case (Some i)
  then have e: "entry_ok ops inv m (nodes_all bs + H) n i" using ok by (simp add: manager_ok_def)
  show ?thesis
  proof (cases "ri_state i = Running")
    case True
    then show ?thesis
      using join_ok [OF ok Some True] Some
      by (auto simp: bind_self_def begin_bind_def same_services_def)
  next
    case False
    then have st: "ri_state i = Stopped" "ri_ref_count i = 0" using e by (auto simp: entry_ok_def)
    obtain b s where s: "so_start ops (m_objs m (ri_service i)) = (b, s)" by fastforce
    let ?j = "i\<lparr>ri_state := Starting, ri_ref_count := ri_ref_count i + 1\<rparr>"
    let ?i = "i\<lparr>ri_ref_count := (if b then 1 else 0), ri_state := (if b then Running else Stopped)\<rparr>"
    let ?m = "set_info n ?i (set_obj (ri_service i) s (set_info n ?j m))"
    note r = start_entry_ok [OF ok Some st(1) s, of ?j]
    have at: "so_attrs ops s = so_attrs ops (m_objs m (ri_service i))"
      using start_law [of "m_objs m (ri_service i)"] e s by (auto simp: entry_ok_def)
    have same: "same_services ops m ?m" using Some at by (auto simp: same_services_def)
    have run: "bind_self ops n bs m = (if b then Some (Bound (ri_service i) bs, ?m)
        else Some (Invalid, release_all ops bs ?m))"
      using Some st s
      by (auto simp: bind_self_def begin_bind_def start_service_def finish_bind_def)
    show ?thesis
    proof (cases b)
      case True
      then show ?thesis using r same run Some by simp
    next
      case False
      then have "manager_ok ops inv (release_all ops bs ?m) H \<and> same_services ops ?m (release_all ops bs ?m)"
        using release_ok(2) [of ?m bs H] r by simp
      then show ?thesis using same run False by (auto intro: same_services_trans)
    qed
  qed
qed

lemma bind_deps_ok:
  assumes bind: "\<And>n m b m' H. bind ops f n m = Some (b, m') \<Longrightarrow> manager_ok ops inv m H \<Longrightarrow>
    manager_ok ops inv m' (nodes b + H) \<and> same_services ops m m'"
  shows "bind_deps ops f ds acc m = Some (obs, m') \<Longrightarrow> manager_ok ops inv m (nodes_all acc + H) \<Longrightarrow>
    manager_ok ops inv m' ((case obs of None \<Rightarrow> {#} | Some bs \<Rightarrow> nodes_all bs) + H) \<and> same_services ops m m'"
proof (induction ds arbitrary: acc m)
  case (Cons d ds)
  obtain b m1 where d: "bind ops f d m = Some (b, m1)"
    using Cons.prems(1) by (auto split: option.splits)
  have b: "manager_ok ops inv m1 (nodes b + (nodes_all acc + H))" "same_services ops m m1"
    using bind [OF d Cons.prems(2)] by simp_all
  show ?case
  proof (cases "is_valid ops m1 b")
    case False
    then have "obs = None" "m' = release_all ops (b # acc) m1" using Cons.prems(1) d by auto
    then show ?thesis using release_ok(2) [of m1 "b # acc" H] b by (auto simp: ac_simps intro: same_services_trans)
  next
    case True
    then have "bind_deps ops f ds (acc @ [b]) m1 = Some (obs, m')" using Cons.prems(1) d by simp
    moreover have "manager_ok ops inv m1 (nodes_all (acc @ [b]) + H)" using b by (simp add: ac_simps)
    ultimately show ?thesis using Cons.IH b by (blast intro: same_services_trans)
  qed
qed auto

lemma bind_ok:
  "bind ops f n m = Some (b, m') \<Longrightarrow> manager_ok ops inv m H \<Longrightarrow>
   manager_ok ops inv m' (nodes b + H) \<and> same_services ops m m'"
proof (induction f arbitrary: n m b m' H)
  case (Suc f)
  show ?case
  proof (cases "m_initialized m \<and> (\<exists>i. info_of m n = Some i \<and> at_bindable (so_attrs ops (m_objs m (ri_service i))))")
    case False
    then show ?thesis using Suc.prems by (auto simp: Let_def split: if_splits option.splits)
  next
    case True
    then obtain i where i: "info_of m n = Some i" "m_initialized m" "at_bindable (so_attrs ops (m_objs m (ri_service i)))"
      by blast
    obtain obs m1 where d: "bind_deps ops f (at_dependencies (so_attrs ops (m_objs m (ri_service i)))) [] m = Some (obs, m1)"
      using Suc.prems(1) i by (auto simp: Let_def split: option.splits)
    have ok1: "manager_ok ops inv m1 ((case obs of None \<Rightarrow> {#} | Some bs \<Rightarrow> nodes_all bs) + H)" "same_services ops m m1"
      using bind_deps_ok [OF Suc.IH d] Suc.prems(2) by auto
    show ?thesis
    proof (cases obs)
      case None
      then show ?thesis using ok1 Suc.prems(1) i d by (simp add: Let_def)
    next
      case (Some bs)
      then have self: "bind_self ops n bs m1 = Some (b, m')" using Suc.prems(1) i d by (simp add: Let_def)
      obtain b2 m2 where "bind_self ops n bs m1 = Some (b2, m2)" "manager_ok ops inv m2 (nodes b2 + H)"
        "same_services ops m1 m2"
        using bind_self_ok [of m1 bs H n] ok1 Some by auto
      then show ?thesis using self ok1 by (auto intro: same_services_trans)
    qed
  qed
qed simp

end

section \<open>Configurations: the manager and the bindings its clients hold\<close>

text \<open>Clients bind, release what they hold, add services of their own and remove services nobody
  holds. Services are added as the class creates them: outside any manager, in their invariant.\<close>

inductive config_step ::
  "'s svc_ops \<Rightarrow> ('s \<Rightarrow> bool) \<Rightarrow> 's manager \<times> binding list \<Rightarrow> 's manager \<times> binding list \<Rightarrow> bool"
  for ops svc_ok where
  cs_bind: "bind ops f n m = Some (b, m') \<Longrightarrow> config_step ops svc_ok (m, Bs) (m', b # Bs)"
| cs_release: "config_step ops svc_ok (m, As @ b # Bs) (release ops b m, As @ Bs)"
| cs_add: "svc_ok (m_objs m p) \<Longrightarrow> config_step ops svc_ok (m, Bs) (snd (add_service ops sec (Some p) m), Bs)"
| cs_remove: "info_of m n = Some i \<Longrightarrow> ri_ref_count i = 0 \<Longrightarrow> remove_service ops n m = Some (ok, m') \<Longrightarrow>
    config_step ops svc_ok (m, Bs) (m', Bs)"

inductive config_reachable :: "'s svc_ops \<Rightarrow> ('s \<Rightarrow> bool) \<Rightarrow> 's manager \<times> binding list \<Rightarrow> bool"
  for ops svc_ok where
  cr_init: "m_initialized m \<Longrightarrow> m_services m = [] \<Longrightarrow> config_reachable ops svc_ok (m, [])"
| cr_step: "config_reachable ops svc_ok c \<Longrightarrow> config_step ops svc_ok c d \<Longrightarrow> config_reachable ops svc_ok d"

context owner begin

lemma entry_of: "manager_ok ops inv m H \<Longrightarrow> info_of m n = Some i \<Longrightarrow> entry_ok ops inv m H n i"
  by (simp add: manager_ok_def)

lemma entry_name: "manager_ok ops inv m H \<Longrightarrow> info_of m n = Some i \<Longrightarrow> name_at ops m (ri_service i) = n"
  using entry_of by (fastforce simp: entry_ok_def)

lemma held_info: "manager_ok ops inv m H \<Longrightarrow> p \<in># H \<Longrightarrow> \<exists>i. info_of m (name_at ops m p) = Some i \<and> ri_service i = p"
  by (simp add: manager_ok_def)

text \<open>Entries and holders carry over when their objects do not change.\<close>

lemma manager_ok_carry:
  assumes ok: "manager_ok ops inv m H" and ini: "m_initialized m'"
    and nm: "\<And>q. name_at ops m' q = name_at ops m q"
    and old: "\<And>k j. info_of m' k = Some j \<Longrightarrow> info_of m k = Some j \<and> m_objs m' (ri_service j) = m_objs m (ri_service j)
      \<or> entry_ok ops inv m' H k j"
    and keep: "\<And>q. q \<in># H \<Longrightarrow> info_of m' (name_at ops m q) = info_of m (name_at ops m q)"
  shows "manager_ok ops inv m' H"
  unfolding manager_ok_def
proof (intro conjI allI impI ballI)
  show "m_initialized m'" by (rule ini)
  show "entry_ok ops inv m' H k j" if "info_of m' k = Some j" for k j
    using old [OF that] entry_of [OF ok, of k j] by (auto simp: entry_ok_def nm)
  show "\<exists>i. info_of m' (name_at ops m' q) = Some i \<and> ri_service i = q" if "q \<in># H" for q
    using held_info [OF ok that] keep [OF that] by (simp add: nm)
qed

lemma register_ok:
  assumes ok: "manager_ok ops inv m H" and new: "info_of m (name_at ops m p) = None"
    and s: "inv s" "so_initialized ops s" "so_attrs ops s = so_attrs ops (m_objs m p)"
  shows "manager_ok ops inv (register_info (name_at ops m p) p (set_obj p s m)) H"
proof -
  have p: "count H p = 0" "\<And>n i. info_of m n = Some i \<Longrightarrow> ri_service i \<noteq> p"
    using new held_info [OF ok] entry_name [OF ok] by (force simp: count_eq_zero_iff)+
  let ?m = "register_info (name_at ops m p) p (set_obj p s m)"
  have i: "info_of ?m k = (if k = name_at ops m p then Some \<lparr>ri_ref_count = 0, ri_service = p, ri_state = Stopped\<rparr>
      else info_of m k)" for k
    using new by (auto simp: register_info_def info_of_def set_info_def set_obj_def)
  have o: "m_objs ?m = (m_objs m)(p := s)" "m_initialized ?m = m_initialized m"
    using new by (simp_all add: register_info_def set_info_def set_obj_def)
  have "so_attrs ops (m_objs ?m q) = so_attrs ops (m_objs m q)" for q by (simp add: o s(3))
  then have nm: "name_at ops ?m q = name_at ops m q" for q by (metis name_at_def)
  show ?thesis
  proof (rule manager_ok_carry [OF ok])
    show "m_initialized ?m" using ok o by (simp add: manager_ok_def)
    show "info_of m k = Some j \<and> m_objs ?m (ri_service j) = m_objs m (ri_service j) \<or> entry_ok ops inv ?m H k j"
      if "info_of ?m k = Some j" for k j
      using that p s nm by (auto simp: i o entry_ok_def split: if_splits)
    show "info_of ?m (name_at ops m q) = info_of m (name_at ops m q)" if "q \<in># H" for q
      using held_info [OF ok that] new by (auto simp: i)
  qed (rule nm)
qed

lemma unregistered_obj_ok:
  assumes ok: "manager_ok ops inv m H" and new: "info_of m (name_at ops m p) = None"
    and s: "so_attrs ops s = so_attrs ops (m_objs m p)"
  shows "manager_ok ops inv (set_obj p s m) H"
proof -
  have p: "\<And>n i. info_of m n = Some i \<Longrightarrow> ri_service i \<noteq> p"
    using new entry_name [OF ok] by force
  have nm: "name_at ops (set_obj p s m) q = name_at ops m q" for q using s by (simp add: name_at_def)
  show ?thesis
    by (rule manager_ok_carry [OF ok]) (use ok p in \<open>auto simp: nm manager_ok_def\<close>)
qed

lemma add_service_ok:
  assumes ok: "manager_ok ops inv m H" and p: "inv (m_objs m p)"
  shows "manager_ok ops inv (snd (add_service ops sec (Some p) m)) H"
proof (cases "info_of m (name_at ops m p) = None")
  case False
  then show ?thesis using ok by (auto simp: add_service_def Let_def name_at_def)
next
  case True
  obtain b s where i: "so_init ops (get_service_task_scheduler sec (so_attrs ops (m_objs m p)) m) (m_objs m p) = (b, s)"
    by fastforce
  have law: "inv s" "b = so_initialized ops s" "so_attrs ops s = so_attrs ops (m_objs m p)"
    using init_law [OF p, of "get_service_task_scheduler sec (so_attrs ops (m_objs m p)) m"] i by auto
  have triv: "set_obj p (m_objs m p) m = m" by (simp add: set_obj_def)
  show ?thesis
    using True i law register_ok [OF ok True, of s] unregistered_obj_ok [OF ok True law(3)]
      register_ok [OF ok True p, unfolded triv]
    by (cases b) (auto simp: add_service_def Let_def name_at_def)
qed

lemma remove_service_ok:
  assumes ok: "manager_ok ops inv m H" and i: "info_of m n = Some i" "ri_ref_count i = 0"
    and r: "remove_service ops n m = Some (b, m')"
  shows "manager_ok ops inv m' H"
proof (cases "n = []")
  case True
  then show ?thesis using r ok by (auto simp: remove_service_def)
next
  case False
  have e: "entry_ok ops inv m H n i" using ok i by (simp add: manager_ok_def)
  define s where "s = (if so_initialized ops (m_objs m (ri_service i)) then so_deinit ops (m_objs m (ri_service i))
    else m_objs m (ri_service i))"
  have at: "so_attrs ops s = so_attrs ops (m_objs m (ri_service i))"
    using deinit_law [of "m_objs m (ri_service i)"] e by (auto simp: s_def entry_ok_def)
  have m': "info_of m' k = (if k = n then None else info_of m k)" "m_objs m' = (m_objs m)(ri_service i := s)"
    "m_initialized m' = m_initialized m" for k
    using r i False e
    by (auto simp: remove_service_def info_of_def set_obj_def Let_def s_def entry_ok_def split: if_splits)
  have p: "ri_service i \<notin># H" using e i by (auto simp: entry_ok_def count_eq_zero_iff)
  have ne: "info_of m k = Some j \<Longrightarrow> k \<noteq> n \<Longrightarrow> ri_service j \<noteq> ri_service i" for k j
    using entry_name [OF ok, of k j] entry_name [OF ok i(1)] by auto
  have nm: "name_at ops m' q = name_at ops m q" for q using at by (simp add: name_at_def m')
  have hn: "q \<in># H \<Longrightarrow> name_at ops m q \<noteq> n" for q
    using held_info [OF ok, of q] i(1) p by force
  show ?thesis
    by (rule manager_ok_carry [OF ok]) (use ok ne hn in \<open>auto simp: nm m' manager_ok_def split: if_splits\<close>)
qed

lemma config_ok: "config_reachable ops inv c \<Longrightarrow> manager_ok ops inv (fst c) (nodes_all (snd c))"
proof (induction rule: config_reachable.induct)
  case (cr_init m)
  then show ?case by (simp add: manager_ok_def info_of_def)
next
  case (cr_step c d)
  from cr_step.hyps(2) cr_step.IH show ?case
  proof (induction rule: config_step.induct)
    case (cs_bind f n m b m' Bs)
    then show ?case using bind_ok [OF cs_bind.hyps(1)] by simp
  next
    case (cs_release m As b Bs)
    then show ?case using release_ok(1) [of m b "nodes_all As + nodes_all Bs"] by (simp add: ac_simps)
  next
    case (cs_add m p Bs sec)
    then show ?case using add_service_ok by simp
  next
    case (cs_remove m n i ok m' Bs)
    then show ?case using remove_service_ok by simp
  qed
qed

end

section \<open>Dependencies of a binding\<close>

definition deps_at :: "'s svc_ops \<Rightarrow> 's manager \<Rightarrow> ptr \<Rightarrow> string list" where
  "deps_at ops m p = at_dependencies (so_attrs ops (m_objs m p))"

definition top_name :: "'s svc_ops \<Rightarrow> 's manager \<Rightarrow> binding \<Rightarrow> string option" where
  "top_name ops m b = (case b of Invalid \<Rightarrow> None | Bound p bs \<Rightarrow> Some (name_at ops m p))"

text \<open>A complete binding: at every node, the bindings of exactly the declared dependencies.\<close>

fun complete :: "'s svc_ops \<Rightarrow> 's manager \<Rightarrow> binding \<Rightarrow> bool"
  and complete_all :: "'s svc_ops \<Rightarrow> 's manager \<Rightarrow> binding list \<Rightarrow> bool" where
  "complete ops m Invalid = False"
| "complete ops m (Bound p bs) = (map (top_name ops m) bs = map Some (deps_at ops m p) \<and> complete_all ops m bs)"
| "complete_all ops m [] = True"
| "complete_all ops m (b # bs) = (complete ops m b \<and> complete_all ops m bs)"

lemma complete_all_append [simp]: "complete_all ops m (as @ bs) \<longleftrightarrow> complete_all ops m as \<and> complete_all ops m bs"
  by (induction as) auto

lemma top_name_same: "same_services ops m m' \<Longrightarrow> top_name ops m' = top_name ops m"
  by (auto simp: top_name_def fun_eq_iff name_at_same split: binding.splits)

lemma complete_same:
  "same_services ops m m' \<Longrightarrow> complete ops m' b = complete ops m b"
  "same_services ops m m' \<Longrightarrow> complete_all ops m' bs = complete_all ops m bs"
proof (induction b and bs rule: nodes_nodes_all.induct)
  case (2 p bs)
  then show ?case by (simp add: top_name_same deps_at_def) (simp add: same_services_def)
qed simp_all

context owner begin

lemma bind_self_complete:
  assumes ok: "manager_ok ops inv m (nodes_all bs + H)" and b: "bind_self ops n bs m = Some (b, m')" "b \<noteq> Invalid"
    and i: "info_of m n = Some i" and bs: "complete_all ops m bs"
      "map (top_name ops m) bs = map Some (deps_at ops m (ri_service i))"
  shows "complete ops m' b \<and> top_name ops m' b = Some n"
proof -
  have same: "same_services ops m m'" and eq: "b = Bound (ri_service i) bs"
    using bind_self_ok [OF ok, of n] b i by auto
  have "name_at ops m (ri_service i) = n" by (rule entry_name [OF ok i])
  then show ?thesis
    using bs by (simp add: complete_same [OF same] top_name_same [OF same]) (simp add: eq top_name_def)
qed

lemma bind_deps_complete:
  assumes bind: "\<And>n m b m' H. bind ops f n m = Some (b, m') \<Longrightarrow> manager_ok ops inv m H \<Longrightarrow> b \<noteq> Invalid \<Longrightarrow>
    complete ops m' b \<and> top_name ops m' b = Some n"
  shows "bind_deps ops f ds acc m = Some (Some bs, m') \<Longrightarrow> manager_ok ops inv m (nodes_all acc + H) \<Longrightarrow>
    complete_all ops m acc \<Longrightarrow>
    complete_all ops m' bs \<and> map (top_name ops m') bs = map (top_name ops m) acc @ map Some ds"
proof (induction ds arbitrary: acc m)
  case (Cons d ds)
  obtain b m1 where d: "bind ops f d m = Some (b, m1)" and v: "is_valid ops m1 b"
    using Cons.prems(1) by (auto split: option.splits if_splits)
  have b: "manager_ok ops inv m1 (nodes b + (nodes_all acc + H))" "same_services ops m m1"
    using bind_ok [OF d Cons.prems(2)] by simp_all
  have "b \<noteq> Invalid" using v by (auto simp: is_valid_def)
  note c = bind [OF d Cons.prems(2) this]
  have "bind_deps ops f ds (acc @ [b]) m1 = Some (Some bs, m')" using Cons.prems(1) d v by simp
  moreover have "manager_ok ops inv m1 (nodes_all (acc @ [b]) + H)" using b by (simp add: ac_simps)
  moreover have "complete_all ops m1 (acc @ [b])" using c Cons.prems(3) complete_same(2) [OF b(2)] by simp
  ultimately show ?case using Cons.IH c top_name_same [OF b(2)] by fastforce
qed auto

lemma bind_complete:
  "bind ops f n m = Some (b, m') \<Longrightarrow> manager_ok ops inv m H \<Longrightarrow> b \<noteq> Invalid \<Longrightarrow>
   complete ops m' b \<and> top_name ops m' b = Some n"
proof (induction f arbitrary: n m b m' H)
  case (Suc f)
  obtain i where i: "info_of m n = Some i" "m_initialized m" "at_bindable (so_attrs ops (m_objs m (ri_service i)))"
    using Suc.prems(1,3) by (auto simp: Let_def split: if_splits option.splits)
  obtain bs m1 where d: "bind_deps ops f (at_dependencies (so_attrs ops (m_objs m (ri_service i)))) [] m = Some (Some bs, m1)"
    and self: "bind_self ops n bs m1 = Some (b, m')"
    using Suc.prems(1,3) i by (auto simp: Let_def split: option.splits)
  have ok1: "manager_ok ops inv m1 (nodes_all bs + H)" "same_services ops m m1"
    using bind_deps_ok [OF bind_ok d] Suc.prems(2) by auto
  have c: "complete_all ops m1 bs" "map (top_name ops m1) bs = map Some (at_dependencies (so_attrs ops (m_objs m (ri_service i))))"
    using bind_deps_complete [OF Suc.IH d] Suc.prems(2) by auto
  obtain i1 where i1: "info_of m1 n = Some i1" "ri_service i1 = ri_service i"
    using same_info(1) [OF ok1(2) i(1)] by auto
  have "map (top_name ops m1) bs = map Some (deps_at ops m1 (ri_service i1))"
    using c(2) ok1(2) i1(2) by (simp add: deps_at_def same_services_def)
  then show ?case using bind_self_complete [OF ok1(1) self Suc.prems(3) i1(1) c(1)] by simp
qed simp

text \<open>With a rank that decreases along the dependencies, the recursion ends within the rank.\<close>

definition ranked :: "'s manager \<Rightarrow> (string \<Rightarrow> nat) \<Rightarrow> bool" where
  "ranked m rk \<longleftrightarrow> (\<forall>n i d. info_of m n = Some i \<longrightarrow> d \<in> set (deps_at ops m (ri_service i)) \<longrightarrow> rk d < rk n)"

lemma ranked_same: "ranked m rk \<Longrightarrow> same_services ops m m' \<Longrightarrow> ranked m' rk"
proof -
  assume r: "ranked m rk" and s: "same_services ops m m'"
  have "rk d < rk n" if j: "info_of m' n = Some j" and d: "d \<in> set (deps_at ops m' (ri_service j))" for n j d
  proof -
    obtain i where i: "info_of m n = Some i" "ri_service i = ri_service j" using same_info(2) [OF s j] by auto
    have "d \<in> set (deps_at ops m (ri_service i))" using d s i(2) by (simp add: deps_at_def same_services_def)
    then show ?thesis using r i(1) by (auto simp: ranked_def)
  qed
  then show ?thesis by (auto simp: ranked_def)
qed

lemma bind_deps_returns:
  assumes bind: "\<And>d m H. d \<in> set ds \<Longrightarrow> manager_ok ops inv m H \<Longrightarrow> ranked m rk \<Longrightarrow> \<exists>r. bind ops f d m = Some r"
  shows "manager_ok ops inv m (nodes_all acc + H) \<Longrightarrow> ranked m rk \<Longrightarrow> \<exists>r. bind_deps ops f ds acc m = Some r"
  using bind
proof (induction ds arbitrary: acc m)
  case (Cons d ds)
  obtain b m1 where d: "bind ops f d m = Some (b, m1)"
    using Cons.prems by fastforce
  have b: "manager_ok ops inv m1 (nodes b + (nodes_all acc + H))" "same_services ops m m1"
    using bind_ok [OF d Cons.prems(1)] by simp_all
  then have "manager_ok ops inv m1 (nodes_all (acc @ [b]) + H)" by (simp add: ac_simps)
  then show ?case
    using Cons.IH [where acc = "acc @ [b]" and m = m1] Cons.prems(2,3) ranked_same [OF _ b(2)] d by auto
qed simp

lemma bind_returns:
  "manager_ok ops inv m H \<Longrightarrow> ranked m rk \<Longrightarrow> rk n < f \<Longrightarrow> \<exists>r. bind ops f n m = Some r"
proof (induction f arbitrary: n m H)
  case (Suc f)
  show ?case
  proof (cases "m_initialized m \<and> (\<exists>i. info_of m n = Some i \<and> at_bindable (so_attrs ops (m_objs m (ri_service i))))")
    case False
    then show ?thesis by (auto simp: Let_def split: option.splits)
  next
    case True
    then obtain i where i: "info_of m n = Some i" "m_initialized m" "at_bindable (so_attrs ops (m_objs m (ri_service i)))"
      by blast
    let ?ds = "at_dependencies (so_attrs ops (m_objs m (ri_service i)))"
    have "d \<in> set ?ds \<Longrightarrow> rk d < f" for d
      using Suc.prems(2,3) i(1) by (fastforce simp: ranked_def deps_at_def)
    then have "\<exists>r. bind_deps ops f ?ds [] m = Some r"
      using Suc.IH Suc.prems(1,2) by (intro bind_deps_returns [where H = H]) auto
    then obtain obs m1 where d: "bind_deps ops f ?ds [] m = Some (obs, m1)" by auto
    have ok1: "manager_ok ops inv m1 ((case obs of None \<Rightarrow> {#} | Some bs \<Rightarrow> nodes_all bs) + H)"
      using bind_deps_ok [OF bind_ok d] Suc.prems(1) by auto
    show ?thesis
    proof (cases obs)
      case None
      then show ?thesis using i d by (simp add: Let_def)
    next
      case (Some bs)
      then show ?thesis using i d bind_self_ok [of m1 bs H n] ok1 by (auto simp: Let_def)
    qed
  qed
qed simp

end

text \<open>A set of services each of which first depends on one of the set.\<close>

definition circular :: "'s svc_ops \<Rightarrow> 's manager \<Rightarrow> string set \<Rightarrow> bool" where
  "circular ops m C \<longleftrightarrow> (\<forall>n \<in> C. \<exists>i d ds. info_of m n = Some i \<and> d \<in> C \<and>
     at_bindable (so_attrs ops (m_objs m (ri_service i))) \<and> deps_at ops m (ri_service i) = d # ds)"

lemma circular_bind: "circular ops m C \<Longrightarrow> m_initialized m \<Longrightarrow> n \<in> C \<Longrightarrow> bind ops f n m = None"
proof (induction f arbitrary: n)
  case (Suc f)
  then obtain i d ds where "info_of m n = Some i" "d \<in> C" "at_bindable (so_attrs ops (m_objs m (ri_service i)))"
    "deps_at ops m (ri_service i) = d # ds" unfolding circular_def by blast
  then show ?case using Suc by (simp add: Let_def deps_at_def)
qed simp

section \<open>Several threads\<close>

text \<open>
  Threads interleave at the mutex: the locked parts of \<open>bind\<close> and \<open>unbind\<close> are atomic, starts
  and stops of services happen between them. \<open>flight\<close> is a start or stop under way,
  \<open>held\<close> the names bound by some client. The wait of \<open>bind\<close> is the absence of a step.
\<close>

datatype flight = FStart string ptr | FStop string ptr

inductive thread_step ::
  "'s svc_ops \<Rightarrow> 's manager \<times> flight multiset \<times> string multiset \<Rightarrow> 's manager \<times> flight multiset \<times> string multiset \<Rightarrow> bool"
  for ops where
  th_join: "begin_bind n m = (Joined p, m') \<Longrightarrow> thread_step ops (m, F, H) (m', F, add_mset n H)"
| th_start: "begin_bind n m = (MustStart p, m') \<Longrightarrow> thread_step ops (m, F, H) (m', add_mset (FStart n p) F, H)"
| th_started: "start_service ops p m = (ok, m1) \<Longrightarrow> finish_bind ops n p ok m1 = (r, m2) \<Longrightarrow>
    thread_step ops (m, add_mset (FStart n p) F, H) (m2, F, if r = None then H else add_mset n H)"
| th_release: "begin_unbind ops n m = (None, m') \<Longrightarrow> thread_step ops (m, F, add_mset n H) (m', F, H)"
| th_stop: "begin_unbind ops n m = (Some p, m') \<Longrightarrow> thread_step ops (m, F, add_mset n H) (m', add_mset (FStop n p) F, H)"
| th_stopped: "thread_step ops (m, add_mset (FStop n p) F, H) (finish_unbind n (stop_service ops p m), F, H)"
| th_service: "thread_step ops (m, F, H) (set_obj p s m, F, H)"

inductive thread_reachable ::
  "'s svc_ops \<Rightarrow> 's manager \<Rightarrow> 's manager \<times> flight multiset \<times> string multiset \<Rightarrow> bool"
  for ops m0 where
  tr_init: "thread_reachable ops m0 (m0, {#}, {#})"
| tr_step: "thread_reachable ops m0 c \<Longrightarrow> thread_step ops c d \<Longrightarrow> thread_reachable ops m0 d"

definition starts :: "string \<Rightarrow> flight multiset \<Rightarrow> nat" where
  "starts n F = size {# x \<in># F. \<exists>p. x = FStart n p #}"

definition stops :: "string \<Rightarrow> flight multiset \<Rightarrow> nat" where
  "stops n F = size {# x \<in># F. \<exists>p. x = FStop n p #}"

lemma starts_simps [simp]:
  "starts n {#} = 0" "starts n (add_mset (FStart k p) F) = starts n F + (if n = k then 1 else 0)"
  "starts n (add_mset (FStop k p) F) = starts n F"
  by (auto simp: starts_def)

lemma stops_simps [simp]:
  "stops n {#} = 0" "stops n (add_mset (FStop k p) F) = stops n F + (if n = k then 1 else 0)"
  "stops n (add_mset (FStart k p) F) = stops n F"
  by (auto simp: stops_def)

text \<open>Per service: how its state accounts for the transitions under way and the bindings held.\<close>

definition slot_ok :: "runtime_info \<Rightarrow> nat \<Rightarrow> nat \<Rightarrow> nat \<Rightarrow> bool" where
  "slot_ok i a z h \<longleftrightarrow> (case ri_state i of
      Stopped \<Rightarrow> ri_ref_count i = 0 \<and> a = 0 \<and> z = 0 \<and> h = 0
    | Starting \<Rightarrow> ri_ref_count i = 1 \<and> a = 1 \<and> z = 0 \<and> h = 0
    | Running \<Rightarrow> ri_ref_count i = h \<and> a = 0 \<and> z = 0 \<and> 0 < h
    | Stopping \<Rightarrow> ri_ref_count i = 0 \<and> a = 0 \<and> z = 1 \<and> h = 0)"

definition threads_ok :: "'s manager \<times> flight multiset \<times> string multiset \<Rightarrow> bool" where
  "threads_ok c \<longleftrightarrow> (case c of (m, F, H) \<Rightarrow> m_initialized m \<and>
    (\<forall>n i. info_of m n = Some i \<longrightarrow> slot_ok i (starts n F) (stops n F) (count H n)) \<and>
    (\<forall>n. info_of m n = None \<longrightarrow> starts n F = 0 \<and> stops n F = 0 \<and> count H n = 0))"

lemma threads_okD:
  "threads_ok (m, F, H) \<Longrightarrow> info_of m n = Some i \<Longrightarrow> slot_ok i (starts n F) (stops n F) (count H n)"
  by (auto simp: threads_ok_def split: option.splits)

lemma threads_ok_update:
  assumes "threads_ok (m, F, H)" and "m_initialized m'"
    and "\<And>k. k \<noteq> n \<Longrightarrow> info_of m' k = info_of m k \<and> starts k F' = starts k F \<and> stops k F' = stops k F \<and> count H' k = count H k"
    and "info_of m' n = Some i" "slot_ok i (starts n F') (stops n F') (count H' n)"
  shows "threads_ok (m', F', H')"
proof -
  have "info_of m' k = Some j \<Longrightarrow> slot_ok j (starts k F') (stops k F') (count H' k)" for k j
    using assms by (cases "k = n") (simp_all add: threads_ok_def)
  moreover have "info_of m' k = None \<Longrightarrow> starts k F' = 0 \<and> stops k F' = 0 \<and> count H' k = 0" for k
    using assms by (cases "k = n") (simp_all add: threads_ok_def)
  ultimately show ?thesis using assms(2) by (simp add: threads_ok_def)
qed

lemma threads_ok_in:
  assumes "threads_ok (m, F, H)" and "0 < starts n F \<or> 0 < stops n F \<or> 0 < count H n"
  shows "\<exists>i. info_of m n = Some i"
  using assms by (cases "info_of m n") (force simp: threads_ok_def)+

lemma info_stop_service [simp]: "info_of (stop_service ops p m) n = info_of m n"
  "m_initialized (stop_service ops p m) = m_initialized m"
  by (simp_all add: stop_service_def)

lemma thread_step_ok: "thread_step ops c d \<Longrightarrow> threads_ok c \<Longrightarrow> threads_ok d"
proof (induction rule: thread_step.induct)
  case (th_join n m p m' F H)
  then obtain i where i: "info_of m n = Some i" "ri_state i = Running"
    "m' = set_info n (i\<lparr>ri_ref_count := ri_ref_count i + 1\<rparr>) m"
    by (cases "info_of m n"; cases "ri_state (the (info_of m n))") (auto simp: begin_bind_def)
  then show ?case using th_join.prems threads_okD [OF th_join.prems i(1)]
    by (intro threads_ok_update [OF th_join.prems, of _ n]) (auto simp: threads_ok_def slot_ok_def)
next
  case (th_start n m p m' F H)
  then obtain i where i: "info_of m n = Some i" "ri_state i = Stopped"
    "m' = set_info n (i\<lparr>ri_state := Starting, ri_ref_count := ri_ref_count i + 1\<rparr>) m"
    by (cases "info_of m n"; cases "ri_state (the (info_of m n))") (auto simp: begin_bind_def)
  then show ?case using th_start.prems threads_okD [OF th_start.prems i(1)]
    by (intro threads_ok_update [OF th_start.prems, of _ n]) (auto simp: threads_ok_def slot_ok_def)
next
  case (th_started p m ok m1 n r m2 F H)
  obtain i where i: "info_of m n = Some i" using threads_ok_in [OF th_started.prems, of n] by auto
  have s: "slot_ok i (Suc (starts n F)) (stops n F) (count H n)" using threads_okD [OF th_started.prems i] by simp
  then have st: "ri_state i = Starting" by (auto simp: slot_ok_def split: service_state.splits)
  have m1: "info_of m1 k = info_of m k" "m_initialized m1 = m_initialized m" for k
    using th_started.hyps(1) by (auto simp: start_service_def split: prod.splits)
  show ?case
  proof (cases ok)
    case True
    then have "r = Some (ri_service i)" "m2 = set_info n (i\<lparr>ri_state := Running\<rparr>) m1"
      using th_started.hyps(2) i m1 by (auto simp: finish_bind_def)
    then show ?thesis using th_started.prems s st m1
      by (intro threads_ok_update [OF th_started.prems, of _ n]) (auto simp: threads_ok_def slot_ok_def)
  next
    case False
    then have "r = None" "m2 = set_info n (i\<lparr>ri_ref_count := ri_ref_count i - 1, ri_state := Stopped\<rparr>) m1"
      using th_started.hyps(2) i m1 by (auto simp: finish_bind_def)
    then show ?thesis using th_started.prems s st m1
      by (intro threads_ok_update [OF th_started.prems, of _ n]) (auto simp: threads_ok_def slot_ok_def)
  qed
next
  case (th_release n m m' F H)
  obtain i where i: "info_of m n = Some i" using threads_ok_in [OF th_release.prems, of n] by auto
  have s: "slot_ok i (starts n F) (stops n F) (Suc (count H n))" using threads_okD [OF th_release.prems i] by simp
  then have st: "ri_state i = Running" "ri_ref_count i = Suc (count H n)"
    by (auto simp: slot_ok_def split: service_state.splits)
  have "m' = set_info n (i\<lparr>ri_ref_count := count H n, ri_state := (if count H n = 0 then Stopped else Running)\<rparr>) m"
    using th_release.hyps i st th_release.prems
    by (auto simp: begin_unbind_def Let_def threads_ok_def split: if_splits)
  then show ?case using th_release.prems s st
    by (intro threads_ok_update [OF th_release.prems, of _ n]) (auto simp: threads_ok_def slot_ok_def)
next
  case (th_stop n m p m' F H)
  obtain i where i: "info_of m n = Some i" using threads_ok_in [OF th_stop.prems, of n] by auto
  have s: "slot_ok i (starts n F) (stops n F) (Suc (count H n))" using threads_okD [OF th_stop.prems i] by simp
  then have st: "ri_state i = Running" "ri_ref_count i = Suc (count H n)"
    by (auto simp: slot_ok_def split: service_state.splits)
  have "count H n = 0 \<and> m' = set_info n (i\<lparr>ri_ref_count := 0, ri_state := Stopping\<rparr>) m"
    using th_stop.hyps i st th_stop.prems
    by (auto simp: begin_unbind_def Let_def threads_ok_def split: if_splits)
  then show ?case using th_stop.prems s st
    by (intro threads_ok_update [OF th_stop.prems, of _ n]) (auto simp: threads_ok_def slot_ok_def)
next
  case (th_stopped m n p F H)
  obtain i where i: "info_of m n = Some i" using threads_ok_in [OF th_stopped.prems, of n] by auto
  have s: "slot_ok i (starts n F) (Suc (stops n F)) (count H n)" using threads_okD [OF th_stopped.prems i] by simp
  then have st: "ri_state i = Stopping" by (auto simp: slot_ok_def split: service_state.splits)
  have "finish_unbind n (stop_service ops p m) = set_info n (i\<lparr>ri_state := Stopped\<rparr>) (stop_service ops p m)"
    using i st by (simp add: finish_unbind_def)
  then show ?case using th_stopped.prems s st
    by (intro threads_ok_update [OF th_stopped.prems, of _ n]) (auto simp: threads_ok_def slot_ok_def)
next
  case (th_service m F H p s)
  then show ?case by (simp add: threads_ok_def)
qed

lemma thread_reachable_ok:
  "thread_reachable ops m0 c \<Longrightarrow> m_initialized m0 \<Longrightarrow> (\<And>n i. info_of m0 n = Some i \<Longrightarrow> ri_state i = Stopped \<and> ri_ref_count i = 0)
   \<Longrightarrow> threads_ok c"
proof (induction rule: thread_reachable.induct)
  case tr_init
  then show ?case by (auto simp: threads_ok_def slot_ok_def split: option.splits)
qed (auto intro: thread_step_ok)

section \<open>Properties\<close>

interpretation own: owner sv_inv "base_ops envs"
  by unfold_locales (auto simp: base_ops_def life.running_initialized life.init_law life.deinit_law life.start_law
      life.stop_law dest: life.running_initialized)


text \<open>A manager with two services: \<open>up\<close> depends on \<open>svc\<close>.\<close>

definition demo_up :: attributes where
  "demo_up = \<lparr>at_name = ''up'', at_description = ''d'', at_version = ''v'', at_dependencies = [''svc''],
     at_own_scheduler = False, at_scheduler_type = MainScheduler, at_bindable = True\<rparr>"

definition demo_objs :: "ptr \<Rightarrow> (nat, nat, unit) service" where
  "demo_objs p = (if p = 2 then new_service demo_up 0 else new_service demo_attributes 0)"

definition demo_ops :: "(nat, nat, unit) service svc_ops" where
  "demo_ops = base_ops (\<lambda>n. demo_sv_env)"

definition demo_manager :: "(nat, nat, unit) service manager" where
  "demo_manager = snd (add_service demo_ops True (Some 2) (snd (add_service demo_ops True (Some 1)
     ((new_manager demo_objs)\<lparr>m_initialized := True, m_scheduler := Some 0\<rparr>))))"

lemmas demo_mgr_simps = demo_manager_def demo_ops_def demo_objs_def demo_up_def base_ops_def new_manager_def
  add_service_def register_info_def info_of_def set_info_def set_obj_def get_service_task_scheduler_def
  begin_bind_def bind_self_def start_service_def finish_bind_def

lemma demo_manager_reachable: "config_reachable demo_ops sv_inv (demo_manager, [])"
proof -
  let ?m = "(new_manager demo_objs)\<lparr>m_initialized := True, m_scheduler := Some 0\<rparr>"
  let ?m1 = "snd (add_service demo_ops True (Some 1) ?m)"
  have "config_reachable demo_ops sv_inv (?m, [])" by (rule cr_init) (simp_all add: new_manager_def)
  then have 1: "config_reachable demo_ops sv_inv (?m1, [])"
    by (rule cr_step, intro cs_add) (simp add: new_manager_def demo_objs_def new_service_inv)
  have "m_objs ?m1 2 = new_service demo_up 0"
    by (simp add: demo_mgr_simps new_service_def Let_def split_def split: prod.split bool.split)
  with 1 show ?thesis unfolding demo_manager_def
    by (intro cr_step [OF 1] cs_add) (simp add: new_service_inv)
qed

definition demo_ready :: "ptr \<Rightarrow> (nat, nat, unit) service" where
  "demo_ready p = snd (sv_init demo_sv_env (Some 0) (demo_objs p))"

definition demo_live :: "ptr \<Rightarrow> (nat, nat, unit) service" where
  "demo_live p = snd (sv_start demo_sv_env (demo_ready p))"

lemma demo_init: "sv_init demo_sv_env (Some 0) (demo_objs p) = (True, demo_ready p)"
  by (auto simp: demo_ready_def demo_objs_def demo_up_def demo_sv_simps demo_schema_def demo_event_def)

lemma demo_start: "sv_start demo_sv_env (demo_ready p) = (True, demo_live p)"
  by (auto simp: demo_live_def demo_ready_def demo_objs_def demo_up_def demo_sv_simps demo_schema_def demo_event_def)

lemma demo_flags [simp]:
  "sv_initialized (demo_ready p)" "\<not> sv_running (demo_ready p)" "sv_running (demo_live p)" "sv_initialized (demo_live p)"
  "sv_attrs (demo_ready p) = (if p = 2 then demo_up else demo_attributes)"
  "sv_attrs (demo_live p) = (if p = 2 then demo_up else demo_attributes)"
  "sv_attrs (demo_objs p) = (if p = 2 then demo_up else demo_attributes)"
  "\<not> sv_initialized (demo_objs p)" "\<not> sv_running (demo_objs p)"
  by (auto simp: demo_live_def demo_ready_def demo_objs_def demo_up_def demo_sv_simps demo_schema_def demo_event_def)

lemma demo_ops_simps [simp]:
  "so_attrs demo_ops = sv_attrs" "so_initialized demo_ops = sv_initialized" "so_running demo_ops = sv_running"
  "so_init demo_ops = sv_init demo_sv_env" "so_deinit demo_ops = sv_deinit demo_sv_env"
  "so_start demo_ops = sv_start demo_sv_env" "so_stop demo_ops = sv_stop demo_sv_env"
  by (simp_all add: demo_ops_def base_ops_def fun_eq_iff)

lemma demo_names [simp]:
  "at_name demo_up = ''up''" "at_name demo_attributes = ''svc''" "at_dependencies demo_up = [''svc'']"
  "at_dependencies demo_attributes = []" "at_bindable demo_up" "at_bindable demo_attributes"
  "\<not> at_own_scheduler demo_up" "\<not> at_own_scheduler demo_attributes"
  "at_scheduler_type demo_up = MainScheduler" "at_scheduler_type demo_attributes = MainScheduler"
  by (simp_all add: demo_up_def demo_attributes_def)

lemma demo_manager_state:
  "demo_manager = \<lparr>m_initialized = True, m_running = False, m_scheduler = Some 0, m_secondary = None,
     m_services = [(''svc'', \<lparr>ri_ref_count = 0, ri_service = 1, ri_state = Stopped\<rparr>),
       (''up'', \<lparr>ri_ref_count = 0, ri_service = 2, ri_state = Stopped\<rparr>)],
     m_init_order = [''svc'', ''up''], m_objs = demo_objs(1 := demo_ready 1, 2 := demo_ready 2),
     m_manager_binding = Invalid, m_utils_binding = Invalid, m_dataflow_binding = Invalid\<rparr>"
  by (simp add: demo_manager_def add_service_def new_manager_def Let_def info_of_def register_info_def set_info_def
      set_obj_def get_service_task_scheduler_def demo_init)

definition demo_bound :: "(nat, nat, unit) service manager" where
  "demo_bound = demo_manager\<lparr>m_services := [(''svc'', \<lparr>ri_ref_count = 1, ri_service = 1, ri_state = Running\<rparr>),
       (''up'', \<lparr>ri_ref_count = 1, ri_service = 2, ri_state = Running\<rparr>)],
     m_objs := demo_objs(1 := demo_live 1, 2 := demo_live 2)\<rparr>"

lemma demo_bind: "bind demo_ops (Suc (Suc 0)) ''up'' demo_manager = Some (Bound 2 [Bound 1 []], demo_bound)"
  by (simp add: demo_manager_state info_of_def bind_self_def begin_bind_def start_service_def
      finish_bind_def set_info_def set_obj_def demo_start is_valid_def demo_bound_def Let_def)

lemma demo_bound_reachable: "config_reachable demo_ops sv_inv (demo_bound, [Bound 2 [Bound 1 []]])"
  using cr_step [OF demo_manager_reachable cs_bind [OF demo_bind]] .


text \<open>C26: a successful bind hands out a complete tree: at every service in it the bindings of exactly
  its declared dependencies, in their order, and every service of the tree is running.\<close>

theorem bind_gives_running_tree:
  assumes "config_reachable (base_ops envs) sv_inv (m, Bs)" and "bind (base_ops envs) f n m = Some (b, m')"
    and "b \<noteq> Invalid"
  shows "complete (base_ops envs) m' b \<and> top_name (base_ops envs) m' b = Some n \<and>
    (\<forall>p \<in># nodes b. sv_running (m_objs m' p))"
proof -
  have ok: "manager_ok (base_ops envs) sv_inv m (nodes_all Bs)"
    using own.config_ok [OF assms(1)] by simp
  have ok': "manager_ok (base_ops envs) sv_inv m' (nodes b + nodes_all Bs)"
    using own.bind_ok [OF assms(2) ok] by simp
  have "sv_running (m_objs m' p)" if p: "p \<in># nodes b" for p
  proof -
    obtain i where i: "info_of m' (name_at (base_ops envs) m' p) = Some i" "ri_service i = p"
      using own.held_info [OF ok', of p] p by auto
    have "0 < count (nodes b + nodes_all Bs) p" using p by (simp add: count_greater_zero_iff)
    then show ?thesis
      using own.entry_of [OF ok' i(1)] i(2) by (auto simp: entry_ok_def base_ops_def)
  qed
  then show ?thesis using own.bind_complete [OF assms(2) ok assms(3)] by blast
qed

theorem bind_gives_running_tree_witness:
  "complete demo_ops demo_bound (Bound 2 [Bound 1 []]) \<and> sv_running (m_objs demo_bound 1)"
  using bind_gives_running_tree [OF demo_manager_reachable [unfolded demo_ops_def] demo_bind [unfolded demo_ops_def]]
  by (simp add: demo_ops_def [symmetric])

text \<open>C36: binding returns when the dependencies of the registered services are not circular, within a
  recursion no deeper than the rank of the service, whatever else is bound; so no waiting on another
  transition remains when operations follow one another.\<close>

theorem bind_terminates:
  assumes "config_reachable (base_ops envs) sv_inv (m, Bs)"
    and "\<And>k i d. info_of m k = Some i \<Longrightarrow> d \<in> set (at_dependencies (sv_attrs (m_objs m (ri_service i)))) \<Longrightarrow> rk d < rk k"
    and "rk n < f"
  shows "\<exists>b m'. bind (base_ops envs) f n m = Some (b, m')"
proof -
  have ok: "manager_ok (base_ops envs) sv_inv m (nodes_all Bs)"
    using own.config_ok [OF assms(1)] by simp
  have "own.ranked envs m rk"
    unfolding own.ranked_def deps_at_def using assms(2) by (simp add: base_ops_def)
  then show ?thesis using own.bind_returns [where envs = envs and rk = rk and n = n and f = f] ok assms(3) by auto
qed

theorem bind_terminates_witness:
  "\<exists>b m'. bind demo_ops 2 ''up'' demo_manager = Some (b, m')"
proof -
  have d: "(if d = ''svc'' then 0 else 1) < (if k = ''svc'' then (0::nat) else 1)"
    if "info_of demo_manager k = Some i" "d \<in> set (at_dependencies (sv_attrs (m_objs demo_manager (ri_service i))))" for k i d
    using that by (auto simp: demo_manager_state info_of_def split: if_splits)
  show ?thesis
    unfolding demo_ops_def
    by (rule bind_terminates [OF demo_manager_reachable [unfolded demo_ops_def], where rk = "\<lambda>k. if k = ''svc'' then 0 else 1"])
      (use d in auto)
qed

text \<open>circular dependencies are not detected: binding a service that, following first
  dependencies, depends on itself recurses without end, although the class accepts such services
  one by one.\<close>

theorem circular_bind_diverges:
  assumes "circular ops m C" and "m_initialized m" and "n \<in> C"
  shows "bind ops f n m = None"
  using circular_bind [OF assms] .

definition demo_circular :: "(nat, nat, unit) service manager" where
  "demo_circular = demo_manager\<lparr>m_objs := (m_objs demo_manager)(1 := (demo_ready 1)\<lparr>sv_attrs :=
     demo_attributes\<lparr>at_dependencies := [''up'']\<rparr>\<rparr>)\<rparr>"

theorem circular_bind_diverges_witness:
  "bind demo_ops 1000 ''up'' demo_circular = None"
proof (rule circular_bind_diverges)
  show "circular demo_ops demo_circular {''svc'', ''up''}"
    by (auto simp: circular_def demo_circular_def demo_manager_state info_of_def deps_at_def)
  show "m_initialized demo_circular" by (simp add: demo_circular_def demo_manager_state)
qed simp

text \<open>two clients that bind the same service, one before and one after it was removed and added
  again, share a name: releasing the old binding takes the reference of the new one, and the service
  stops under a client that still holds a binding to it.\<close>

theorem stale_binding_stops_service:
  assumes "manager_ok (base_ops envs) sv_inv m (nodes (Bound q []))"
    and "name_at (base_ops envs) m p = name_at (base_ops envs) m q"
  shows "is_valid (base_ops envs) m (Bound q []) \<and>
    \<not> is_valid (base_ops envs) (release (base_ops envs) (Bound p []) m) (Bound q [])"
proof -
  let ?o = "base_ops envs"
  have r: "release ?o (Bound p []) m = release ?o (Bound q []) m" using assms(2) by simp
  obtain i where i: "info_of m (name_at ?o m q) = Some i" "ri_service i = q"
    using own.held_info [OF assms(1), of q] by auto
  have e: "entry_ok ?o sv_inv m {#q#} (name_at ?o m q) i" using own.entry_of [OF assms(1) i(1)] by simp
  have ini: "m_initialized m" using assms(1) by (simp add: manager_ok_def)
  have c: "ri_ref_count i = 1" "so_running ?o (m_objs m q)" using e i(2) by (auto simp: entry_ok_def)
  have "\<not> so_running ?o (so_stop ?o (m_objs m q))" by (simp add: base_ops_def sv_stop_def)
  then have "\<not> is_valid ?o (release ?o (Bound q []) m) (Bound q [])"
    using i c ini
    by (auto simp: unbind_def begin_unbind_def Let_def finish_unbind_def stop_service_def is_valid_def split: option.splits)
  then show ?thesis using c r by (simp add: is_valid_def)
qed

text \<open>The service is bound, removed, and a new object of the same name is added and bound.\<close>

theorem stale_binding_stops_service_witness:
  "\<exists>b1 m1 m2 b2 m4. bind demo_ops 1 ''svc'' demo_manager = Some (b1, m1) \<and>
     remove_service demo_ops ''svc'' m1 = Some (True, m2) \<and>
     bind demo_ops 1 ''svc'' (snd (add_service demo_ops True (Some 3) m2)) = Some (b2, m4) \<and>
     is_valid demo_ops m4 b2 \<and> \<not> is_valid demo_ops (release demo_ops b1 m4) b2"
proof -
  let ?up = "(''up'', \<lparr>ri_ref_count = 0, ri_service = 2, ri_state = Stopped\<rparr>)"
  define m1 where "m1 = demo_manager\<lparr>m_services := [(''svc'', \<lparr>ri_ref_count = 1, ri_service = 1, ri_state = Running\<rparr>), ?up],
     m_objs := demo_objs(1 := demo_live 1, 2 := demo_ready 2)\<rparr>"
  define m2 where "m2 = demo_manager\<lparr>m_services := [?up], m_init_order := [''up''],
     m_objs := demo_objs(1 := sv_deinit demo_sv_env (demo_live 1), 2 := demo_ready 2)\<rparr>"
  define m4 where "m4 = demo_manager\<lparr>m_services := [(''svc'', \<lparr>ri_ref_count = 1, ri_service = 3, ri_state = Running\<rparr>), ?up],
     m_init_order := [''up'', ''svc''],
     m_objs := demo_objs(1 := sv_deinit demo_sv_env (demo_live 1), 2 := demo_ready 2, 3 := demo_live 3)\<rparr>"
  have 1: "bind demo_ops 1 ''svc'' demo_manager = Some (Bound 1 [], m1)"
    by (simp add: demo_manager_state info_of_def bind_self_def begin_bind_def start_service_def
      finish_bind_def set_info_def set_obj_def demo_start is_valid_def m1_def Let_def fun_upd_twist)
  have 2: "remove_service demo_ops ''svc'' m1 = Some (True, m2)"
    by (simp add: remove_service_def m1_def m2_def info_of_def set_obj_def smap_del_def demo_manager_state fun_upd_twist)
  have 3: "bind demo_ops 1 ''svc'' (snd (add_service demo_ops True (Some 3) m2)) = Some (Bound 3 [], m4)"
    by (simp add: m2_def m4_def demo_manager_state add_service_def register_info_def info_of_def bind_self_def
      begin_bind_def start_service_def finish_bind_def set_info_def set_obj_def demo_start demo_init is_valid_def Let_def
      get_service_task_scheduler_def)
  have r: "sv_inv (demo_ready p)" "sv_inv (demo_live p)" for p
    using init_inv [of "demo_objs p" demo_sv_env "Some 0"] start_inv [of "demo_ready p" demo_sv_env]
    by (simp_all add: demo_init demo_start) (simp_all add: demo_objs_def new_service_inv)
  have ok: "manager_ok demo_ops sv_inv m4 (nodes (Bound 3 []))"
    by (auto simp: manager_ok_def m4_def demo_manager_state info_of_def entry_ok_def name_at_def r split: if_splits)
  have n: "name_at demo_ops m4 1 = name_at demo_ops m4 3"
    by (simp add: name_at_def m4_def demo_manager_state)
  show ?thesis
    using 1 2 3 stale_binding_stops_service [OF ok [unfolded demo_ops_def] n [unfolded demo_ops_def]]
    unfolding demo_ops_def by blast
qed

text \<open>C3: under any interleaving of threads that bind and unbind, from a manager whose services are
  all stopped, at most one start or stop of a service is under way, its state says which, and the
  reference count is the number of held bindings plus the start under way; no binding of a service
  that is stopping, stopped or still starting is held.\<close>

theorem transitions_never_overlap:
  assumes "thread_reachable ops m0 (m, F, H)" and "m_initialized m0"
    and "\<And>k j. info_of m0 k = Some j \<Longrightarrow> ri_state j = Stopped \<and> ri_ref_count j = 0"
    and "info_of m n = Some i"
  shows "starts n F + stops n F \<le> 1 \<and> (ri_state i = Starting \<longleftrightarrow> starts n F = 1) \<and>
    (ri_state i = Stopping \<longleftrightarrow> stops n F = 1) \<and> ri_ref_count i = count H n + starts n F \<and>
    (ri_state i = Running \<longleftrightarrow> 0 < count H n)"
  using threads_okD [OF thread_reachable_ok [OF assms(1-3)] assms(4)]
  by (cases "ri_state i") (simp_all add: slot_ok_def)

theorem transitions_never_overlap_witness:
  "\<exists>m. thread_reachable demo_ops demo_manager (m, {# FStart ''svc'' 1 #}, {#}) \<and>
     starts ''svc'' {# FStart ''svc'' 1 #} = 1 \<and> (\<exists>i. info_of m ''svc'' = Some i \<and> ri_state i = Starting)"
proof -
  define m where "m = snd (begin_bind ''svc'' demo_manager)"
  have b: "begin_bind ''svc'' demo_manager = (MustStart 1, m)"
    by (simp add: m_def begin_bind_def demo_manager_state info_of_def)
  have t: "thread_reachable demo_ops demo_manager (m, {# FStart ''svc'' 1 #}, {#})"
    using tr_step [OF tr_init th_start [OF b]] by simp
  obtain i where i: "info_of m ''svc'' = Some i"
    by (simp add: m_def begin_bind_def demo_manager_state info_of_def set_info_def)
  have s: "info_of demo_manager k = Some j \<Longrightarrow> ri_state j = Stopped \<and> ri_ref_count j = 0" for k j
    by (auto simp: demo_manager_state info_of_def split: if_splits)
  have "m_initialized demo_manager" by (simp add: demo_manager_state)
  from transitions_never_overlap [OF t this s i] t i show ?thesis by auto
qed

end
