(* ===== verification/Usb_Protocol.thy ===== *)
theory Usb_Protocol
  imports Prelude
begin

unbundle bit_operations_syntax

text \<open>
  The binary frames of the USB service (\<open>service_usb/src/protocol.cpp\<close>): the checksum, the
  incremental parser and the hexadecimal digest.

  A byte is an \<open>u8\<close>, the parser's buffer is the list of bytes it holds. The frame size is
  computed as the source does, in 32 bits, where it may wrap. The sender is the host tool
  (\<open>tools/brookesia_usb/src/brookesia_usb/protocol.py\<close>): its checksum, its encoder and the
  frames it makes of a file, with the numbers of a frame as words, the range its packing accepts.
\<close>

section \<open>Little-endian words and the checksum\<close>

definition byte_at :: "u8 list \<Rightarrow> nat \<Rightarrow> u32" where
  "byte_at d i = ucast (d ! i)"

definition read_u32_le :: "u8 list \<Rightarrow> nat \<Rightarrow> u32" where
  "read_u32_le d i = byte_at d i OR push_bit 8 (byte_at d (i + 1)) OR push_bit 16 (byte_at d (i + 2)) OR
     push_bit 24 (byte_at d (i + 3))"

definition crc_bit :: "u32 \<Rightarrow> u32" where
  "crc_bit crc = drop_bit 1 crc XOR (0xEDB88320 AND (0 - (crc AND 1)))"

definition crc_byte :: "u8 \<Rightarrow> u32 \<Rightarrow> u32" where
  "crc_byte v crc = (crc_bit ^^ 8) (crc XOR ucast v)"

definition crc32 :: "u8 list \<Rightarrow> u32" where
  "crc32 d = NOT (fold crc_byte d 0xFFFFFFFF)"

section \<open>Frames\<close>

datatype frame_type = FrameData | FrameEnd | FrameCancel

fun frame_type_of :: "u8 \<Rightarrow> frame_type option" where
  "frame_type_of b = (if b = 1 then Some FrameData else if b = 2 then Some FrameEnd
     else if b = 3 then Some FrameCancel else None)"

record binary_frame =
  bf_type :: frame_type
  bf_version :: u8
  bf_request_id :: u32
  bf_sequence :: u32
  bf_payload :: "u8 list"

definition protocol_version :: u8 where
  "protocol_version = 1"

definition header_size :: nat where
  "header_size = 24"

text \<open>The sum is one of 32-bit numbers before it is widened.\<close>

definition frame_size :: "u32 \<Rightarrow> nat" where
  "frame_size payload_length = unat (24 + payload_length)"

definition parse_next :: "u32 \<Rightarrow> u8 list \<Rightarrow> binary_frame option expected \<times> u8 list" where
  "parse_next max_payload buf =
     (if length buf < header_size then (Inr None, buf)
      else if buf ! 0 \<noteq> 0x42 \<or> buf ! 1 \<noteq> 0x55 then (Inl ''bad frame magic'', buf)
      else if buf ! 2 \<noteq> protocol_version then (Inl ''unsupported frame version'', buf)
      else let len = read_u32_le buf 12 in
        if max_payload < len then (Inl ''frame payload is too large'', buf)
        else if read_u32_le buf 20 \<noteq> crc32 (take 20 buf) then (Inl ''bad frame header crc'', buf)
        else if length buf < frame_size len then (Inr None, buf)
        else let payload = take (unat len) (drop header_size buf) in
          if read_u32_le buf 16 \<noteq> crc32 payload then (Inl ''bad frame payload crc'', buf)
          else case frame_type_of (buf ! 3) of
            None \<Rightarrow> (Inl ''unsupported frame type'', buf)
          | Some ty \<Rightarrow>
              (if ty \<noteq> FrameData \<and> len \<noteq> 0 then (Inl ''control frame must not contain a payload'', buf)
               else (Inr (Some \<lparr>bf_type = ty, bf_version = buf ! 2, bf_request_id = read_u32_le buf 4,
                        bf_sequence = read_u32_le buf 8, bf_payload = payload\<rparr>),
                     drop (frame_size len) buf)))"

definition parser_append :: "u8 list \<Rightarrow> u8 list \<Rightarrow> u8 list" where
  "parser_append buf d = buf @ d"

section \<open>Digests as text\<close>

definition hex_digit :: "u8 \<Rightarrow> char" where
  "hex_digit v = ''0123456789abcdef'' ! unat v"

definition sha256_to_hex :: "u8 list \<Rightarrow> string" where
  "sha256_to_hex d = concat (map (\<lambda>v. [hex_digit (drop_bit 4 v), hex_digit (v AND 0x0F)]) d)"

lemma length_sha256_to_hex: "length (sha256_to_hex d) = 2 * length d"
  by (induction d) (simp_all add: sha256_to_hex_def)

section \<open>The sender\<close>

definition u32_le :: "u32 \<Rightarrow> u8 list" where
  "u32_le w = [ucast w, ucast (drop_bit 8 w), ucast (drop_bit 16 w), ucast (drop_bit 24 w)]"

fun type_byte :: "frame_type \<Rightarrow> u8" where
  "type_byte FrameData = 1"
| "type_byte FrameEnd = 2"
| "type_byte FrameCancel = 3"

text \<open>The same with the checksum of the parser.\<close>

definition encode_header :: "binary_frame \<Rightarrow> u8 list" where
  "encode_header f = [0x42, 0x55, bf_version f, type_byte (bf_type f)] @ u32_le (bf_request_id f) @
     u32_le (bf_sequence f) @ u32_le (of_nat (length (bf_payload f))) @ u32_le (crc32 (bf_payload f))"

definition encode :: "binary_frame \<Rightarrow> u8 list" where
  "encode f = encode_header f @ u32_le (crc32 (encode_header f)) @ bf_payload f"

text \<open>The host tool's checksum and encoder.\<close>

definition py_crc_bit :: "u32 \<Rightarrow> u32" where
  "py_crc_bit v = drop_bit 1 v XOR (if v AND 1 \<noteq> 0 then 0xEDB88320 else 0)"

definition py_crc32 :: "u8 list \<Rightarrow> u32" where
  "py_crc32 d = NOT (fold (\<lambda>b v. (py_crc_bit ^^ 8) (v XOR ucast b)) d 0xFFFFFFFF)"

definition max_frame_payload :: nat where
  "max_frame_payload = 16 * 1024"

definition py_header :: "binary_frame \<Rightarrow> u8 list" where
  "py_header f = [0x42, 0x55, bf_version f, type_byte (bf_type f)] @ u32_le (bf_request_id f) @
     u32_le (bf_sequence f) @ u32_le (of_nat (length (bf_payload f))) @ u32_le (py_crc32 (bf_payload f))"

definition encode_frame :: "binary_frame \<Rightarrow> u8 list expected" where
  "encode_frame f =
     (if max_frame_payload < length (bf_payload f) then Inl ''frame payload is too large''
      else if bf_type f \<noteq> FrameData \<and> bf_payload f \<noteq> [] then Inl ''control frames cannot contain a payload''
      else Inr (py_header f @ u32_le (py_crc32 (py_header f)) @ bf_payload f))"

lemma py_crc_bit: "py_crc_bit v = crc_bit v"
proof (cases "v AND 1 = 0")
  case True
  then show ?thesis by (simp add: py_crc_bit_def crc_bit_def)
next
  case False
  then have "v AND 1 = 1" by (simp add: and_one_eq odd_iff_mod_2_eq_one)
  then show ?thesis by (simp add: py_crc_bit_def crc_bit_def)
qed

lemma py_crc32: "py_crc32 d = crc32 d"
proof -
  have "py_crc_bit = crc_bit" by (rule ext) (rule py_crc_bit)
  then show ?thesis by (simp add: py_crc32_def crc32_def crc_byte_def [abs_def])
qed

text \<open>Frames a host may send: of this version, at most \<open>max_payload\<close> bytes, control frames empty.\<close>

definition frame_ok :: "u32 \<Rightarrow> binary_frame \<Rightarrow> bool" where
  "frame_ok max_payload f \<longleftrightarrow> bf_version f = protocol_version \<and> length (bf_payload f) \<le> unat max_payload \<and>
     length (bf_payload f) < 2 ^ 32 - 24 \<and> (bf_type f = FrameData \<or> bf_payload f = [])"

lemma read_u32_le_at: "length as = i \<Longrightarrow> read_u32_le (as @ u32_le w @ bs) i = w"
proof -
  assume l: "length as = i"
  have w: "ucast (ucast w :: u8) OR push_bit 8 (ucast (ucast (drop_bit 8 w) :: u8)) OR
      push_bit 16 (ucast (ucast (drop_bit 16 w) :: u8)) OR push_bit 24 (ucast (ucast (drop_bit 24 w) :: u8)) = w"
  proof (rule bit_word_eqI)
    fix n assume n: "n < LENGTH(32)"
    then have "n < 8 \<or> 8 \<le> n \<and> n < 16 \<or> 16 \<le> n \<and> n < 24 \<or> 24 \<le> n \<and> n < 32" by simp linarith
    then show "bit (ucast (ucast w :: u8) OR push_bit 8 (ucast (ucast (drop_bit 8 w) :: u8)) OR
      push_bit 16 (ucast (ucast (drop_bit 16 w) :: u8)) OR push_bit 24 (ucast (ucast (drop_bit 24 w) :: u8)) :: u32) n = bit w n"
      by (auto simp: bit_simps)
  qed
  show ?thesis
    using w l by (simp add: read_u32_le_def byte_at_def u32_le_def nth_append)
qed

lemma encode_frame_encode:
  "encode_frame f = Inr bs \<Longrightarrow> bs = encode f"
  by (simp add: encode_frame_def py_crc32 py_header_def encode_def encode_header_def split: if_splits)

lemma length_u32_le [simp]: "length (u32_le w) = 4"
  by (simp add: u32_le_def)

lemma length_encode_header [simp]: "length (encode_header f) = 20"
  by (simp add: encode_header_def)

lemma length_encode: "length (encode f) = 24 + length (bf_payload f)"
  by (simp add: encode_def)

lemma encode_split:
  "encode f @ r = [0x42, 0x55, bf_version f, type_byte (bf_type f)] @ u32_le (bf_request_id f) @ u32_le (bf_sequence f) @
     u32_le (of_nat (length (bf_payload f))) @ u32_le (crc32 (bf_payload f)) @ u32_le (crc32 (encode_header f)) @
     bf_payload f @ r"
  by (simp add: encode_def encode_header_def)

lemma encode_fields:
  "read_u32_le (encode f @ r) 4 = bf_request_id f" "read_u32_le (encode f @ r) 8 = bf_sequence f"
  "read_u32_le (encode f @ r) 12 = of_nat (length (bf_payload f))"
  "read_u32_le (encode f @ r) 16 = crc32 (bf_payload f)" "read_u32_le (encode f @ r) 20 = crc32 (encode_header f)"
proof -
  let ?a = "[0x42, 0x55, bf_version f, type_byte (bf_type f)]"
  let ?b = "u32_le (bf_request_id f)" and ?c = "u32_le (bf_sequence f)" and ?d = "u32_le (of_nat (length (bf_payload f)))"
    and ?e = "u32_le (crc32 (bf_payload f))" and ?g = "u32_le (crc32 (encode_header f))"
  show "read_u32_le (encode f @ r) 4 = bf_request_id f"
    unfolding encode_split by (rule read_u32_le_at) simp
  show "read_u32_le (encode f @ r) 8 = bf_sequence f"
    unfolding encode_split using read_u32_le_at [of "?a @ ?b" 8 "bf_sequence f"] by simp
  show "read_u32_le (encode f @ r) 12 = of_nat (length (bf_payload f))"
    unfolding encode_split using read_u32_le_at [of "?a @ ?b @ ?c" 12 "of_nat (length (bf_payload f))"] by simp
  show "read_u32_le (encode f @ r) 16 = crc32 (bf_payload f)"
    unfolding encode_split using read_u32_le_at [of "?a @ ?b @ ?c @ ?d" 16 "crc32 (bf_payload f)"] by simp
  show "read_u32_le (encode f @ r) 20 = crc32 (encode_header f)"
    unfolding encode_split using read_u32_le_at [of "?a @ ?b @ ?c @ ?d @ ?e" 20 "crc32 (encode_header f)"] by simp
qed

lemma encode_bytes:
  "(encode f @ r) ! 0 = 0x42" "(encode f @ r) ! 1 = 0x55" "(encode f @ r) ! 2 = bf_version f"
  "(encode f @ r) ! 3 = type_byte (bf_type f)"
  unfolding encode_split by simp_all

lemma frame_size_small: "n < 2 ^ 32 - 24 \<Longrightarrow> frame_size (of_nat n) = 24 + n"
proof -
  assume n: "n < 2 ^ 32 - 24"
  have "(24 + of_nat n :: u32) = of_nat (24 + n)" by simp
  then show ?thesis using n unat_of_nat_small [of "24 + n", where 'a = 32] by (simp add: frame_size_def)
qed

text \<open>One frame from the front of the buffer.\<close>

lemma parse_encode:
  assumes "frame_ok mp f"
  shows "parse_next mp (encode f @ r) = (Inr (Some f), r)"
proof -
  let ?n = "length (bf_payload f)"
  have n: "?n < 2 ^ 32 - 24" "?n \<le> unat mp" and v: "bf_version f = protocol_version"
    and t: "bf_type f = FrameData \<or> bf_payload f = []" using assms by (auto simp: frame_ok_def)
  have un: "unat (of_nat ?n :: u32) = ?n" using n unat_of_nat_small [of ?n, where 'a = 32] by simp
  have le: "\<not> mp < of_nat ?n" using n un by (simp add: word_less_nat_alt)
  have sz: "frame_size (of_nat ?n) = 24 + ?n" using frame_size_small n by simp
  have tk: "take 20 (encode f @ r) = encode_header f" by (simp add: encode_def)
  have pl: "take ?n (drop 24 (encode f @ r)) = bf_payload f" by (simp add: encode_def)
  have dr: "drop (24 + ?n) (encode f @ r) = r" using length_encode [of f] by simp
  have ty: "frame_type_of (type_byte (bf_type f)) = Some (bf_type f)" by (cases "bf_type f") simp_all
  have len: "length (encode f @ r) = 24 + ?n + length r" by (simp add: length_encode)
  have z: "of_nat ?n \<noteq> (0::u32) \<Longrightarrow> bf_payload f \<noteq> []" by auto
  show ?thesis
    unfolding parse_next_def Let_def encode_fields encode_bytes tk sz un header_size_def pl len dr ty
    using v le t z by (auto simp: protocol_version_def)
qed

section \<open>The parser on what is sent\<close>

text \<open>A frame that is not complete is left in the buffer.\<close>

lemma parse_incomplete:
  assumes ok: "frame_ok mp f" and p: "p @ q = encode f" "q \<noteq> []"
  shows "parse_next mp p = (Inr None, p)"
proof (cases "length p < 24")
  case True
  then show ?thesis by (simp add: parse_next_def header_size_def)
next
  case False
  let ?n = "length (bf_payload f)"
  have "length p + length q = 24 + ?n" using p(1) length_encode [of f] by (metis length_append)
  then have lp: "length p < 24 + ?n" using p(2) by (cases q) simp_all
  have nth: "p ! i = encode f ! i" if "i < 24" for i using False that by (simp add: p(1) [symmetric] nth_append)
  have rd: "read_u32_le p i = read_u32_le (encode f) i" if "i + 3 < 24" for i
    using that by (simp add: read_u32_le_def byte_at_def nth)
  have tk: "take 20 p = encode_header f"
  proof -
    have "take 20 p = take 20 (encode f)" using False by (simp add: p(1) [symmetric])
    then show ?thesis by (simp add: encode_def)
  qed
  have n: "?n < 2 ^ 32 - 24" "?n \<le> unat mp" and v: "bf_version f = protocol_version" using ok by (auto simp: frame_ok_def)
  have un: "unat (of_nat ?n :: u32) = ?n" using n unat_of_nat_small [of ?n, where 'a = 32] by simp
  have le: "\<not> mp < of_nat ?n" using n un by (simp add: word_less_nat_alt)
  have sz: "frame_size (of_nat ?n) = 24 + ?n" using frame_size_small n by simp
  note fields = encode_fields [of f "[]", simplified] encode_bytes [of f "[]", simplified]
  show ?thesis
    using False lp le v
    by (simp add: parse_next_def Let_def header_size_def nth rd tk fields sz protocol_version_def)
qed

text \<open>A parsed frame lies in the buffer: with this bound the frame size does not wrap.\<close>

lemma parse_next_split:
  assumes p: "parse_next mp buf = (Inr (Some f), r)" and mp: "unat mp < 2 ^ 32 - 24"
  shows "buf = take 24 buf @ bf_payload f @ r \<and> 24 \<le> length buf \<and> length (bf_payload f) \<le> unat mp"
proof -
  let ?len = "read_u32_le buf 12"
  have b: "\<not> length buf < 24" "\<not> mp < ?len" "\<not> length buf < frame_size ?len" "r = drop (frame_size ?len) buf"
    "bf_payload f = take (unat ?len) (drop 24 buf)"
    using p by (auto simp: parse_next_def header_size_def Let_def split: if_splits option.splits)
  have le: "unat ?len \<le> unat mp" using b(2) by (simp add: word_less_nat_alt)
  then have sz: "frame_size ?len = 24 + unat ?len"
    using mp frame_size_small [of "unat ?len"] by simp
  have "buf = take 24 buf @ take (unat ?len) (drop 24 buf) @ drop (24 + unat ?len) buf"
    by (metis add.commute append_take_drop_id drop_drop)
  with b le sz show ?thesis by simp
qed

text \<open>The frames the host tool makes of a file, with what a read of it returns.\<close>

function file_frames :: "nat \<Rightarrow> u32 \<Rightarrow> u32 \<Rightarrow> u8 list \<Rightarrow> binary_frame list" where
  "file_frames n request_id sequence file =
     (let payload = take n file in
      if payload = []
      then [\<lparr>bf_type = FrameEnd, bf_version = protocol_version, bf_request_id = request_id, bf_sequence = sequence,
              bf_payload = []\<rparr>]
      else \<lparr>bf_type = FrameData, bf_version = protocol_version, bf_request_id = request_id, bf_sequence = sequence,
              bf_payload = payload\<rparr> # file_frames n request_id (sequence + 1) (drop n file))"
  by auto
termination by (relation "measure (\<lambda>(n, i, q, f). length f)") auto

declare file_frames.simps [simp del]

definition iter_file_frames :: "nat \<Rightarrow> u32 \<Rightarrow> u8 list \<Rightarrow> u8 list expected list" where
  "iter_file_frames n request_id file = map encode_frame (file_frames n request_id 0 file)"

lemma file_frames_ok:
  "n \<le> unat mp \<Longrightarrow> n < 2 ^ 32 - 24 \<Longrightarrow> f \<in> set (file_frames n i q d) \<Longrightarrow> frame_ok mp f"
proof (induction n i q d rule: file_frames.induct)
  case (1 n i q d)
  from 1(4) show ?case
    using 1(1-3) by (subst (asm) file_frames.simps) (auto simp: frame_ok_def Let_def split: if_splits)
qed

end
