(* ===== verification/Std_Path.thy ===== *)
theory Std_Path
  imports Prelude
begin

text \<open>
  What the source uses of \<open>std::filesystem::path\<close>, on POSIX: a path is the list of its elements
  as its iterator yields them, the root directory first when the path is absolute, an empty element
  last when it ends in a separator. \<open>lexically_normal\<close>, \<open>operator/\<close> and \<open>parent_path\<close> are written
  out after their definition in the standard.
\<close>

section \<open>Paths\<close>

type_synonym path = "string list"

fun split_slash :: "string \<Rightarrow> string list" where
  "split_slash [] = [[]]"
| "split_slash (c # cs) = (if c = CHR ''/'' then [] # split_slash cs
     else (c # hd (split_slash cs)) # tl (split_slash cs))"

definition is_absolute_text :: "string \<Rightarrow> bool" where
  "is_absolute_text s \<longleftrightarrow> s \<noteq> [] \<and> hd s = CHR ''/''"

definition path_of :: "string \<Rightarrow> path" where
  "path_of s =
     (let names = filter (\<lambda>c. c \<noteq> []) (split_slash s) in
      (if is_absolute_text s then [''/''] else []) @ names @
      (if names \<noteq> [] \<and> last s = CHR ''/'' then [[]] else []))"

definition is_absolute :: "path \<Rightarrow> bool" where
  "is_absolute p \<longleftrightarrow> p \<noteq> [] \<and> hd p = ''/''"

definition relative_path :: "path \<Rightarrow> path" where
  "relative_path p = (if is_absolute p then tl p else p)"

fun join_names :: "path \<Rightarrow> string" where
  "join_names [] = []"
| "join_names [c] = c"
| "join_names (c # cs) = c @ ''/'' @ join_names cs"

definition generic_string :: "path \<Rightarrow> string" where
  "generic_string p = (if is_absolute p then ''/'' @ join_names (tl p) else join_names p)"

text \<open>
  Dots and empty elements go; a name and the double dot after it go; double dots at the root go.
\<close>

definition normal_step :: "bool \<Rightarrow> path \<Rightarrow> string \<Rightarrow> path" where
  "normal_step absolute kept c =
     (if c = [] \<or> c = ''.'' then kept
      else if c \<noteq> ''..'' then kept @ [c]
      else if kept \<noteq> [] \<and> last kept \<noteq> ''..'' then butlast kept
      else if absolute then kept else kept @ [c])"

definition lexically_normal :: "path \<Rightarrow> path" where
  "lexically_normal p =
     (if p = [] then []
      else let kept = foldl (normal_step (is_absolute p)) [] (relative_path p);
               open_end = relative_path p \<noteq> [] \<and> last (relative_path p) \<in> {[], ''.'', ''..''};
               q = (if is_absolute p then [''/''] else []) @ kept @
                 (if open_end \<and> kept \<noteq> [] \<and> last kept \<noteq> ''..'' then [[]] else [])
           in if q = [] then [''.''] else q)"

section \<open>Paths as text\<close>

text \<open>\<open>operator/\<close> and \<open>parent_path\<close> on the text of a path, which \<open>generic_string\<close> returns unchanged.\<close>

definition text_append :: "string \<Rightarrow> string \<Rightarrow> string" where
  "text_append p q =
     (if is_absolute_text q then q
      else if p \<noteq> [] \<and> last p \<noteq> CHR ''/'' then p @ ''/'' @ q else p @ q)"

definition text_parent :: "string \<Rightarrow> string" where
  "text_parent s =
     (let t = rev (dropWhile (\<lambda>c. c \<noteq> CHR ''/'') (rev s)); u = rev (dropWhile (\<lambda>c. c = CHR ''/'') (rev t)) in
      if list_all (\<lambda>c. c = CHR ''/'') s then s else if u = [] then t else u)"

section \<open>Normal forms\<close>

text \<open>Without double dots only names are kept, in order.\<close>

lemma normal_steps_plain:
  "list_all (\<lambda>c. c \<noteq> ''..'') cs \<Longrightarrow>
   foldl (normal_step a) kept cs = kept @ filter (\<lambda>c. c \<noteq> [] \<and> c \<noteq> ''.'') cs"
  by (induction cs arbitrary: kept) (auto simp: normal_step_def)

lemma lexically_normal_under:
  assumes "list_all (\<lambda>c. c \<noteq> ''..'') cs"
  shows "\<exists>t \<in> {[], [[]]}. lexically_normal (''/'' # cs) = ''/'' # filter (\<lambda>c. c \<noteq> [] \<and> c \<noteq> ''.'') cs @ t"
  using normal_steps_plain [OF assms, of True "[]"]
  by (auto simp: lexically_normal_def is_absolute_def relative_path_def Let_def)

lemma split_slash_ne [simp]: "split_slash s \<noteq> []"
  by (cases s) auto

lemma split_slash_names: "c \<in> set (split_slash s) \<Longrightarrow> CHR ''/'' \<notin> set c"
proof (induction s arbitrary: c)
  case (Cons x s)
  then show ?case by (cases "split_slash s") (auto split: if_splits)
qed simp

lemma path_of_names: "\<not> is_absolute (path_of s) \<Longrightarrow> c \<in> set (path_of s) \<Longrightarrow> CHR ''/'' \<notin> set c"
  using split_slash_names [of c s]
  by (auto simp: path_of_def is_absolute_def Let_def split: if_splits)

section \<open>Joining a relative path\<close>

text \<open>The names of the normal form, and what it means for a path to lie under another.\<close>

definition kept_names :: "path \<Rightarrow> path" where
  "kept_names p = foldl (normal_step (is_absolute p)) [] (relative_path p)"

definition lies_under :: "path \<Rightarrow> path \<Rightarrow> bool" where
  "lies_under p r \<longleftrightarrow> is_absolute p = is_absolute r \<and> (\<exists>q. kept_names p = kept_names r @ q \<and> ''..'' \<notin> set q)"


text \<open>A double dot that was kept stays.\<close>

definition dots_first :: "path \<Rightarrow> bool" where
  "dots_first k \<longleftrightarrow> (\<exists>m n. k = replicate m ''..'' @ n \<and> ''..'' \<notin> set n)"

lemma dots_first_step: "dots_first k \<Longrightarrow> dots_first (normal_step False k c)"
proof -
  assume "dots_first k"
  then obtain m n where k: "k = replicate m ''..'' @ n" "''..'' \<notin> set n" by (auto simp: dots_first_def)
  show ?thesis
  proof (cases "c = ''..''")
    case True
    show ?thesis
    proof (cases "n = []")
      case True
      have "last k = ''..''" if "k \<noteq> []" using k True that by (cases m) auto
      then have "normal_step False k ''..'' = replicate (Suc m) ''..''"
        using k True by (auto simp: normal_step_def replicate_append_same)
      moreover have "dots_first (replicate (Suc m) ''..'')"
        unfolding dots_first_def by (intro exI [of _ "Suc m"] exI [of _ "[]"]) simp
      ultimately show ?thesis using \<open>c = ''..''\<close> by simp
    next
      case False
      then have "last k = last n" "last n \<in> set n" using k by simp_all
      then have "last k \<noteq> ''..''" using k(2) by metis
      then have "normal_step False k ''..'' = replicate m ''..'' @ butlast n"
        using k False by (simp add: normal_step_def butlast_append)
      moreover have "''..'' \<notin> set (butlast n)" using k(2) by (meson in_set_butlastD)
      ultimately show ?thesis using \<open>c = ''..''\<close> unfolding dots_first_def by blast
    qed
  next
    case False
    then have "normal_step False k c = k \<or> normal_step False k c = replicate m ''..'' @ (n @ [c])"
      by (auto simp: normal_step_def k)
    moreover have "''..'' \<notin> set (n @ [c])" using k(2) False by simp
    ultimately show ?thesis using k unfolding dots_first_def by metis
  qed
qed

lemma dots_kept: "dots_first k \<Longrightarrow> ''..'' \<in> set k \<Longrightarrow> ''..'' \<in> set (normal_step False k c)"
proof -
  assume "dots_first k" "''..'' \<in> set k"
  then obtain m' n where k': "k = replicate m' ''..'' @ n" "''..'' \<notin> set n" unfolding dots_first_def by blast
  with \<open>''..'' \<in> set k\<close> obtain m where "m' = Suc m" by (cases m') auto
  with k' have k: "k = replicate (Suc m) ''..'' @ n" "''..'' \<notin> set n" by simp_all
  show ?thesis
  proof (cases "n = []")
    case True
    then show ?thesis using k by (auto simp: normal_step_def last_replicate)
  next
    case False
    then show ?thesis using k by (auto simp: normal_step_def butlast_append)
  qed
qed

lemma fold_dots_first: "dots_first (foldl (normal_step False) [] cs)"
proof (induction cs rule: rev_induct)
  case Nil
  show ?case unfolding dots_first_def by (intro exI [of _ 0] exI [of _ "[]"]) simp
qed (simp add: dots_first_step)

lemma fold_relative:
  "''..'' \<notin> set (foldl (normal_step False) [] cs) \<Longrightarrow>
   foldl (normal_step a) k cs = k @ foldl (normal_step False) [] cs"
proof (induction cs rule: rev_induct)
  case (snoc c cs)
  let ?r = "foldl (normal_step False) [] cs"
  have no: "''..'' \<notin> set ?r" using snoc.prems dots_kept [OF fold_dots_first] by auto
  then have r: "foldl (normal_step a) k cs = k @ ?r" by (rule snoc.IH)
  have "normal_step a (k @ ?r) c = k @ normal_step False ?r c"
  proof (cases "c = ''..''")
    case True
    have "normal_step False [] ''..'' = [''..'']" by (simp add: normal_step_def)
    then have "?r \<noteq> []" using snoc.prems True by auto
    moreover from this have "last ?r \<noteq> ''..''" using no by (metis last_in_set)
    moreover have "normal_step a (k @ r) ''..'' = k @ normal_step False r ''..''" if "r \<noteq> []" "last r \<noteq> ''..''" for r
      using that by (simp add: normal_step_def butlast_append)
    ultimately show ?thesis using True by simp
  qed (simp add: normal_step_def [of _ _ c])
  then show ?case using r by simp
qed simp

definition text_names :: "string \<Rightarrow> path" where
  "text_names s = filter (\<lambda>c. c \<noteq> []) (split_slash s)"

lemma is_absolute_path_of: "is_absolute (path_of s) = is_absolute_text s"
proof (cases "is_absolute_text s")
  case False
  have n: "''/'' \<notin> set (text_names s)" using split_slash_names [of "''/''" s] by (auto simp: text_names_def)
  have "path_of s \<noteq> [] \<Longrightarrow> hd (path_of s) \<in> set (text_names s)"
    using False by (cases "text_names s") (auto simp: path_of_def text_names_def Let_def)
  then show ?thesis using n False unfolding is_absolute_def by metis
qed (simp add: path_of_def is_absolute_def Let_def)

lemma kept_names_path_of: "kept_names (path_of s) = foldl (normal_step (is_absolute_text s)) [] (text_names s)"
proof -
  have e: "normal_step a k [] = k" for a k by (simp add: normal_step_def)
  have "relative_path (path_of s) = text_names s @ (if text_names s \<noteq> [] \<and> last s = CHR ''/'' then [[]] else [])"
    using is_absolute_path_of [of s] by (auto simp: relative_path_def path_of_def text_names_def Let_def is_absolute_def)
  then show ?thesis by (simp add: kept_names_def is_absolute_path_of e)
qed

lemma split_slash_append: "split_slash (a @ CHR ''/'' # b) = split_slash a @ split_slash b"
proof (induction a)
  case (Cons x a)
  then show ?case by (cases "split_slash a") auto
qed simp

lemma text_names_append:
  assumes "n \<noteq> []" "\<not> is_absolute_text n"
  shows "text_names (text_append out n) = text_names out @ text_names n \<and>
    is_absolute_text (text_append out n) = is_absolute_text out"
proof (cases "out \<noteq> [] \<and> last out \<noteq> CHR ''/''")
  case True
  then show ?thesis using assms
    by (simp add: text_append_def text_names_def split_slash_append is_absolute_text_def)
next
  case False
  show ?thesis
  proof (cases "out = []")
    case True
    then show ?thesis using assms by (simp add: text_append_def text_names_def is_absolute_text_def)
  next
    case ne: False
    with False have o: "out = butlast out @ [CHR ''/'']" by (metis append_butlast_last_id)
    have "text_names (butlast out @ CHR ''/'' # n) = text_names (butlast out @ [CHR ''/'']) @ text_names n"
      by (simp add: text_names_def split_slash_append)
    then have "text_names (out @ n) = text_names out @ text_names n" by (metis append.assoc append_Cons append_Nil o)
    then show ?thesis using assms ne False by (simp add: text_append_def is_absolute_text_def)
  qed
qed

lemma append_lies_under:
  assumes "n \<noteq> []" "\<not> is_absolute_text n" "''..'' \<notin> set (kept_names (path_of n))"
  shows "lies_under (path_of (text_append out n)) (path_of out)"
proof -
  have no: "''..'' \<notin> set (foldl (normal_step False) [] (text_names n))"
    using assms by (simp add: kept_names_path_of)
  note t = text_names_append [OF assms(1,2), of out]
  have "kept_names (path_of (text_append out n)) =
      kept_names (path_of out) @ foldl (normal_step False) [] (text_names n)"
    using fold_relative [OF no, of "is_absolute_text out" "foldl (normal_step (is_absolute_text out)) [] (text_names out)"] t
    by (simp add: kept_names_path_of)
  then show ?thesis using no t unfolding lies_under_def is_absolute_path_of by blast
qed

end
