(* ===== verification/Usb_Paths.thy ===== *)
theory Usb_Paths
  imports Std_Path
begin

text \<open>
  The check of upload paths of the USB service (\<open>service_usb.cpp\<close>, lines 117 to 175). Whether a
  path is a symbolic link is a parameter.
\<close>

section \<open>The check of an upload path\<close>

fun starts_with_parts :: "path \<Rightarrow> path \<Rightarrow> bool" where
  "starts_with_parts p [] = True"
| "starts_with_parts [] (r # rs) = False"
| "starts_with_parts (p # ps) (r # rs) = (if p \<noteq> r then False else starts_with_parts ps rs)"

definition path_is_same_or_child :: "path \<Rightarrow> path \<Rightarrow> bool" where
  "path_is_same_or_child p root = starts_with_parts (lexically_normal p) (lexically_normal root)"

definition path_has_parent_reference :: "path \<Rightarrow> bool" where
  "path_has_parent_reference p = list_ex (\<lambda>c. c = ''..'') p"

text \<open>\<open>symlink_status\<close> of a path: an error, or whether it is a symbolic link.\<close>

fun symlink_on_way :: "(path \<Rightarrow> bool option) \<Rightarrow> path \<Rightarrow> path \<Rightarrow> bool" where
  "symlink_on_way status current [] = False"
| "symlink_on_way status current (c # cs) =
     (case status (current @ [c]) of
        None \<Rightarrow> symlink_on_way status (current @ [c]) cs
      | Some link \<Rightarrow> (if link then True else symlink_on_way status (current @ [c]) cs))"

definition path_contains_symlink :: "(path \<Rightarrow> bool option) \<Rightarrow> path \<Rightarrow> bool" where
  "path_contains_symlink status p =
     symlink_on_way status (if is_absolute p then [''/''] else []) (relative_path p)"

definition upload_root :: string where
  "upload_root = ''/littlefs/usb''"

definition validate_upload_path :: "(path \<Rightarrow> bool option) \<Rightarrow> string \<Rightarrow> path expected" where
  "validate_upload_path status remote_path =
     (if remote_path = [] then Inl ''path is empty''
      else if is_absolute (path_of remote_path) \<or> path_has_parent_reference (path_of remote_path)
      then Inl (''path must be relative and must not contain '' @ CHR 0x27 # ''..'' @ [CHR 0x27])
      else let candidate = lexically_normal (path_of upload_root @ path_of remote_path) in
        if \<not> path_is_same_or_child candidate (path_of upload_root) then Inl ''path escapes upload root''
        else if path_contains_symlink status candidate then Inl ''path contains a symbolic link''
        else Inr candidate)"

section \<open>Where an accepted path lies\<close>

lemma path_of_root [simp]: "path_of upload_root = [''/'', ''littlefs'', ''usb'']"
  by (simp add: path_of_def upload_root_def is_absolute_text_def)

lemma starts_with_parts_append [simp]: "starts_with_parts (r @ p) r"
  by (induction r) auto

text \<open>
  An accepted path is the upload root followed by the names of the request, none of them empty, a
  dot or a double dot, up to a separator at the end. It has no symbolic link on its way.
\<close>

lemma no_symlink_prefix:
  "\<not> symlink_on_way status cur cs \<Longrightarrow> i \<le> length cs \<Longrightarrow> 0 < i \<Longrightarrow> status (cur @ take i cs) \<noteq> Some True"
proof (induction cs arbitrary: cur i)
  case (Cons c cs)
  from Cons.prems have s: "status (cur @ [c]) \<noteq> Some True"
    and rest: "\<not> symlink_on_way status (cur @ [c]) cs" by (auto split: option.splits if_splits)
  show ?case
  proof (cases i)
    case (Suc k)
    show ?thesis
    proof (cases k)
      case 0
      then show ?thesis using s Suc by simp
    next
      case k: (Suc m)
      then show ?thesis using Cons.IH [OF rest, of k] Cons.prems Suc by simp
    qed
  qed (use Cons.prems in simp)
qed simp

text \<open>The names of a request, as they end up in an accepted path.\<close>

definition request_names :: "string \<Rightarrow> path" where
  "request_names s = filter (\<lambda>c. c \<noteq> [] \<and> c \<noteq> ''.'') (path_of s)"

lemma validated_path:
  assumes "validate_upload_path status s = Inr p"
  shows "\<exists>t \<in> {[], [[]]}. p = path_of upload_root @ request_names s @ t"
    and "\<not> path_has_parent_reference p" and "\<not> path_contains_symlink status p"
proof -
  have dots: "list_all (\<lambda>c. c \<noteq> ''..'') (path_of s)"
    and p: "p = lexically_normal (''/'' # ''littlefs'' # ''usb'' # path_of s)"
    and link: "\<not> path_contains_symlink status p"
    using assms
    by (auto simp: validate_upload_path_def path_has_parent_reference_def list_ex_iff list_all_iff Let_def split: if_splits)
  show under: "\<exists>t \<in> {[], [[]]}. p = path_of upload_root @ request_names s @ t"
    using lexically_normal_under [of "''littlefs'' # ''usb'' # path_of s"] dots by (simp add: p request_names_def)
  show "\<not> path_has_parent_reference p"
    using under dots by (auto simp: path_has_parent_reference_def list_ex_iff list_all_iff request_names_def)
  show "\<not> path_contains_symlink status p" by (rule link)
qed

text \<open>The check that the path stays under the root never fails: double dots were refused before.\<close>

lemma never_escapes: "validate_upload_path status s \<noteq> Inl ''path escapes upload root''"
proof -
  have "path_is_same_or_child (lexically_normal (''/'' # ''littlefs'' # ''usb'' # path_of s)) (path_of upload_root)"
    if "\<not> path_has_parent_reference (path_of s)"
  proof -
    let ?n = "filter (\<lambda>c. c \<noteq> [] \<and> c \<noteq> ''.'') (path_of s)"
    have d: "list_all (\<lambda>c. c \<noteq> ''..'') (path_of s)"
      using that unfolding path_has_parent_reference_def list_ex_iff list_all_iff by blast
    obtain t where t: "t \<in> {[], [[]]}"
        "lexically_normal (''/'' # ''littlefs'' # ''usb'' # path_of s) = ''/'' # ''littlefs'' # ''usb'' # ?n @ t"
      using lexically_normal_under [of "''littlefs'' # ''usb'' # path_of s"] d by auto
    have "list_all (\<lambda>c. c \<noteq> ''..'') (''littlefs'' # ''usb'' # ?n @ t)"
      using d t(1) by (auto simp: list_all_iff)
    from lexically_normal_under [OF this] show ?thesis
      by (auto simp: path_is_same_or_child_def t(2)
        lexically_normal_def [of "[''/'', ''littlefs'', ''usb'']"] is_absolute_def relative_path_def normal_step_def)
  qed
  then show ?thesis by (auto simp: validate_upload_path_def Let_def)
qed

text \<open>The destinations an upload may have.\<close>

definition upload_destination :: "string \<Rightarrow> bool" where
  "upload_destination d \<longleftrightarrow> (\<exists>names. \<exists>t \<in> {[], [[]]}. d = generic_string (path_of upload_root @ names @ t) \<and>
     list_all (\<lambda>c. c \<noteq> [] \<and> c \<noteq> ''.'' \<and> c \<noteq> ''..'' \<and> CHR ''/'' \<notin> set c) names)"

lemma validated_destination:
  assumes "validate_upload_path status s = Inr p"
  shows "upload_destination (generic_string p)"
proof -
  obtain t where t: "t \<in> {[], [[]]}" "p = path_of upload_root @ request_names s @ t"
    using validated_path(1) [OF assms] by blast
  have "\<not> is_absolute (path_of s)" "\<not> path_has_parent_reference (path_of s)"
    using assms by (auto simp: validate_upload_path_def split: if_splits)
  then have "list_all (\<lambda>c. c \<noteq> [] \<and> c \<noteq> ''.'' \<and> c \<noteq> ''..'' \<and> CHR ''/'' \<notin> set c) (request_names s)"
    using path_of_names [of s] by (auto simp: request_names_def list_all_iff path_has_parent_reference_def list_ex_iff)
  with t show ?thesis unfolding upload_destination_def by blast
qed

section \<open>Properties\<close>

text \<open>C34: An accepted upload path is the upload root followed by the names of the request in their order,
  without dots; none of its parts is a double dot and no part of the way to it is a symbolic link.\<close>

theorem upload_path_contained:
  assumes "validate_upload_path status s = Inr p"
  shows "(\<exists>t \<in> {[], [[]]}. p = path_of upload_root @ request_names s @ t) \<and> ''..'' \<notin> set p \<and>
    (\<forall>i \<in> {1..length p - 1}. status (take (Suc i) p) \<noteq> Some True)"
proof -
  obtain t where t: "t \<in> {[], [[]]}" "p = path_of upload_root @ request_names s @ t"
    using validated_path(1) [OF assms] by blast
  have "''..'' \<notin> set p" using validated_path(2) [OF assms] by (auto simp: path_has_parent_reference_def list_ex_iff)
  moreover have "status (take (Suc i) p) \<noteq> Some True" if "i \<in> {1..length p - 1}" for i
  proof -
    obtain q where q: "p = ''/'' # q" using t by auto
    have "\<not> symlink_on_way status [''/''] q"
      using validated_path(3) [OF assms] by (simp add: path_contains_symlink_def q is_absolute_def relative_path_def)
    from no_symlink_prefix [OF this, of i] that show ?thesis by (simp add: q)
  qed
  ultimately show ?thesis using t by blast
qed

theorem upload_path_contained_witness:
  "\<exists>p. validate_upload_path (\<lambda>p. Some False) ''a/./b//c.txt'' = Inr p \<and>
     p = [''/'', ''littlefs'', ''usb'', ''a'', ''b'', ''c.txt''] \<and> ''..'' \<notin> set p"
proof -
  let ?p = "[''/'', ''littlefs'', ''usb'', ''a'', ''b'', ''c.txt'']"
  have v: "validate_upload_path (\<lambda>p. Some False) ''a/./b//c.txt'' = Inr ?p"
    by (simp add: validate_upload_path_def path_has_parent_reference_def path_is_same_or_child_def path_contains_symlink_def
      path_of_def [of "''a/./b//c.txt''"] is_absolute_text_def is_absolute_def relative_path_def lexically_normal_def
      normal_step_def)
  then show ?thesis using upload_path_contained [OF v, THEN conjunct2, THEN conjunct1] by blast
qed

end
