(* ===== verification/Json.thy ===== *)
theory Json
  imports Prelude Complex_Main
begin

text \<open>
  Values of \<open>boost::json\<close>: an object is the list of its members, with unique names, in their order,
  so that a lookup is \<open>map_of\<close>. A double is a real number, or \<open>None\<close> when it is not finite. Bytes and
  text are the same data: \<open>bytes_str\<close> reads a byte as the character of its code.
\<close>

datatype json = JNull | JBool bool | JInt64 int | JUint64 u64 | JDouble "real option" | JString string
  | JArray "json list" | JObject "(string \<times> json) list"

type_synonym json_object = "(string \<times> json) list"

definition bytes_str :: "u8 list \<Rightarrow> string" where
  "bytes_str d = map (\<lambda>b. char_of (unat b)) d"

lemma length_bytes_str [simp]: "length (bytes_str d) = length d"
  by (simp add: bytes_str_def)

lemma unat_u8: "unat (x :: u8) mod 256 = unat x"
proof -
  have "unat x < 2 ^ LENGTH(8)" by (rule unsigned_less)
  then show ?thesis by simp
qed

lemma bytes_str_inj: "bytes_str a = bytes_str b \<Longrightarrow> a = b"
proof (induction a arbitrary: b)
  case (Cons x a)
  then obtain y b' where b: "b = y # b'" by (cases b) (auto simp: bytes_str_def)
  have "(char_of (unat x) :: char) = char_of (unat y)" using Cons.prems by (simp add: bytes_str_def b)
  then have "(of_char (char_of (unat x) :: char) :: nat) = of_char (char_of (unat y) :: char)" by simp
  then have "unat x = unat y"
    by (simp add: unat_u8)
  then show ?case using Cons by (simp add: bytes_str_def b word_unat_eq_iff)
qed (simp add: bytes_str_def)

end
