(* ===== verification/Usb_Transfer.thy ===== *)
theory Usb_Transfer
  imports Usb_Protocol Usb_Paths Json
begin

text \<open>
  The USB service (\<open>service_usb/src/service_usb.cpp\<close>): control sessions, commands and transfers.

  The state is the record \<open>usb\<close>, the members of \<open>Usb::Impl\<close> with the files it writes. What the
  service takes from outside is the record \<open>usb_env\<close>: the transport, the clock, the parser of
  JSON text, the file system calls, SHA-256 and the two bridges. Every step gets a record of its
  own, so that they may answer differently from step to step; time stands still within a step.
  What the service does to the outside is the list \<open>u_out\<close>.
\<close>

section \<open>Data\<close>

datatype port_state = PortDisabled | PortStarting | PortReady | PortBusy | PortError
datatype session_state = SessionIdle | SessionActive
datatype transfer_state = TransferIdle | Receiving | Verifying | Handling | Completed | Failed | Aborted
datatype host_command = PutFile | InstallBpk

record usb_status =
  us_port_state :: port_state
  us_connected :: bool
  us_transport :: string
  us_session_state :: session_state
  us_logs_suppressed :: bool
  us_active_request_id :: u32
  us_max_frame_payload :: u32

record transfer_status =
  ts_state :: transfer_state
  ts_request_id :: u32
  ts_received_bytes :: u64
  ts_total_bytes :: u64
  ts_error :: string

record transfer_artifact =
  ta_command :: host_command
  ta_request_id :: u32
  ta_temporary_path :: string
  ta_size :: u64
  ta_sha256 :: string
  ta_overwrite :: bool

text \<open>\<open>tr_hashed\<close> is the SHA-256 context: the bytes it was given.\<close>

record transfer =
  tr_command :: host_command
  tr_request_id :: u32
  tr_expected_size :: u64
  tr_received_size :: u64
  tr_expected_sequence :: u32
  tr_overwrite :: bool
  tr_destination :: string
  tr_expected_sha256 :: string
  tr_temporary_path :: string
  tr_open :: bool
  tr_hashed :: "u8 list"
  tr_last_activity :: nat

text \<open>A call of a bridge is recorded with the content of the file it is given.\<close>

datatype usb_output =
    Sent json_object
  | Published string json_object
  | Bridged host_command transfer_artifact string "u8 list option"
  | Called string string json_object u32

record usb =
  u_scheduler :: bool
  u_pump_task :: bool
  u_rx_queue :: "u8 list list option"
  u_installed :: bool
  u_log_suppressed :: bool
  u_vprintf :: nat
  u_previous_vprintf :: nat
  u_disconnect_pending :: bool
  u_session_last_activity :: nat
  u_rx_buffer :: "u8 list"
  u_parser :: "u8 list"
  u_transfer :: "transfer option"
  u_status :: usb_status
  u_transfer_status :: transfer_status
  u_bridge :: bool
  u_call_bridge :: bool
  u_request_ids :: "u32 set"
  u_files :: "string \<rightharpoonup> u8 list"
  u_out :: "usb_output list"

record usb_env =
  e_now :: nat
  e_scheduler :: bool
  e_queue_ok :: bool
  e_install_ok :: bool
  e_post_ok :: bool
  e_transport :: string
  e_connected :: bool
  e_read :: "nat \<Rightarrow> u8 list"
  e_parse :: "u8 list \<Rightarrow> json expected"
  e_symlink :: "path \<Rightarrow> bool option"
  e_exists :: "string \<Rightarrow> bool option"
  e_mkdir_ok :: bool
  e_open :: "unit expected"
  e_md_setup_ok :: bool
  e_md_update_ok :: "u8 list \<Rightarrow> bool"
  e_sha256 :: "u8 list \<Rightarrow> u8 list option"
  e_write :: "nat \<Rightarrow> nat \<Rightarrow> int"
  e_write_error :: string
  e_remove_ok :: bool
  e_bridge :: "host_command \<Rightarrow> transfer_artifact \<Rightarrow> string \<Rightarrow> (string \<rightharpoonup> u8 list) \<Rightarrow>
    unit expected \<times> (string \<rightharpoonup> u8 list)"
  e_call :: "string \<Rightarrow> string \<Rightarrow> json_object \<Rightarrow> u32 \<Rightarrow> (string \<times> string) + json"
  e_status_json :: "usb_status \<Rightarrow> json"
  e_transfer_json :: "transfer_status \<Rightarrow> json"

definition command_buffer_limit :: nat where
  "command_buffer_limit = 4096"

definition transport_read_size :: nat where
  "transport_read_size = 512"

definition transport_read_budget :: nat where
  "transport_read_budget = 8"

definition max_transfer_size :: u64 where
  "max_transfer_size = 8 * 1024 * 1024"

definition frame_payload_size :: u32 where
  "frame_payload_size = 16 * 1024"

definition rx_queue_length :: nat where
  "rx_queue_length = 8"

definition command_timeout_ms :: nat where
  "command_timeout_ms = 30000"

text \<open>The handler that suppresses the logs, among those \<open>esp_log_set_vprintf\<close> may be given; 0 is the
  null pointer.\<close>

definition suppress_log_vprintf :: nat where
  "suppress_log_vprintf = 1"

section \<open>Fields of a command\<close>

definition get_string :: "json_object \<Rightarrow> string \<Rightarrow> string option" where
  "get_string obj name = (case map_of obj name of Some (JString s) \<Rightarrow> Some s | _ \<Rightarrow> None)"

definition get_unsigned :: "json_object \<Rightarrow> string \<Rightarrow> u64 option" where
  "get_unsigned obj name =
     (case map_of obj name of
        Some (JUint64 n) \<Rightarrow> Some n
      | Some (JInt64 i) \<Rightarrow> (if 0 \<le> i then Some (of_int i) else None)
      | Some (JDouble (Some r)) \<Rightarrow>
          (if 0 \<le> r \<and> r < 2 ^ 64 \<and> r = of_int \<lfloor>r\<rfloor> then Some (of_int \<lfloor>r\<rfloor>) else None)
      | _ \<Rightarrow> None)"

definition get_bool_or_default :: "json_object \<Rightarrow> string \<Rightarrow> bool \<Rightarrow> bool" where
  "get_bool_or_default obj name d = (case map_of obj name of Some (JBool b) \<Rightarrow> b | _ \<Rightarrow> d)"

definition is_hex_sha256 :: "string \<Rightarrow> bool" where
  "is_hex_sha256 s = (if length s \<noteq> 64 then False else list_all is_xdigit s)"

definition lower_copy :: "string \<Rightarrow> string" where
  "lower_copy s = map to_lower s"

definition parse_command_line :: "usb_env \<Rightarrow> u8 list \<Rightarrow> json_object expected" where
  "parse_command_line e line =
     (case e_parse e line of
        Inl msg \<Rightarrow> Inl msg
      | Inr (JObject obj) \<Rightarrow> Inr obj
      | Inr _ \<Rightarrow> Inl ''command must be a JSON object'')"

section \<open>Responses and events\<close>

definition make_response :: "string \<Rightarrow> u32 \<Rightarrow> bool \<Rightarrow> json_object" where
  "make_response op request_id ok =
     [(''version'', JInt64 1), (''op'', JString op), (''request_id'', JUint64 (ucast request_id)), (''ok'', JBool ok)]"

definition send_json :: "json_object \<Rightarrow> usb \<Rightarrow> usb" where
  "send_json response s = s\<lparr>u_out := u_out s @ [Sent response]\<rparr>"

definition publish :: "string \<Rightarrow> json_object \<Rightarrow> usb \<Rightarrow> usb" where
  "publish event d s = s\<lparr>u_out := u_out s @ [Published event d]\<rparr>"

definition send_error :: "u32 \<Rightarrow> string \<Rightarrow> string \<Rightarrow> usb \<Rightarrow> usb" where
  "send_error request_id code msg s =
     send_json (make_response ''error'' request_id False @ [(''error_code'', JString code), (''error'', JString msg)])
       (publish ''Error'' [(''RequestId'', JUint64 (ucast request_id)), (''ErrorCode'', JString code),
          (''Message'', JString msg)] s)"

definition send_ack :: "u32 \<Rightarrow> u32 \<Rightarrow> usb \<Rightarrow> usb" where
  "send_ack request_id sequence s =
     send_json (make_response ''ack'' request_id True @ [(''sequence'', JUint64 (ucast sequence))]) s"

definition publish_port_state :: "usb_env \<Rightarrow> usb \<Rightarrow> usb" where
  "publish_port_state e s = publish ''PortStateChanged'' [(''Status'', e_status_json e (u_status s))] s"

definition publish_transfer_progress :: "usb_env \<Rightarrow> usb \<Rightarrow> usb" where
  "publish_transfer_progress e s =
     publish ''TransferProgress'' [(''Status'', e_transfer_json e (u_transfer_status s))] s"

definition publish_transfer_finished :: "usb_env \<Rightarrow> usb \<Rightarrow> usb" where
  "publish_transfer_finished e s =
     publish ''TransferFinished'' [(''Status'', e_transfer_json e (u_transfer_status s))] s"

definition update_transfer_progress :: "usb_env \<Rightarrow> usb \<Rightarrow> usb" where
  "update_transfer_progress e s =
     (case u_transfer s of
        None \<Rightarrow> s
      | Some t \<Rightarrow>
          send_json (make_response ''progress'' (tr_request_id t) True @
              [(''received'', JUint64 (tr_received_size t)), (''total'', JUint64 (tr_expected_size t))])
            (publish_transfer_progress e
              (s\<lparr>u_transfer_status := (u_transfer_status s)\<lparr>ts_received_bytes := tr_received_size t\<rparr>\<rparr>)))"

section \<open>Sessions\<close>

definition release_log_suppression :: "usb \<Rightarrow> usb" where
  "release_log_suppression s =
     (if \<not> u_log_suppressed s then s
      else s\<lparr>u_vprintf := u_previous_vprintf s, u_previous_vprintf := 0, u_log_suppressed := False\<rparr>)"

definition is_control_session_active :: "usb \<Rightarrow> bool" where
  "is_control_session_active s \<longleftrightarrow> us_session_state (u_status s) = SessionActive"

definition activate_control_session :: "usb_env \<Rightarrow> usb \<Rightarrow> usb" where
  "activate_control_session e s =
     (let s1 = (if \<not> u_log_suppressed s
                then s\<lparr>u_previous_vprintf := u_vprintf s, u_vprintf := suppress_log_vprintf, u_log_suppressed := True\<rparr>
                else s)
      in publish_port_state e
           (s1\<lparr>u_status := (u_status s1)\<lparr>us_session_state := SessionActive, us_logs_suppressed := True\<rparr>\<rparr>))"

definition release_control_session :: "usb_env \<Rightarrow> usb \<Rightarrow> usb" where
  "release_control_session e s =
     (let s1 = release_log_suppression s
      in publish_port_state e
           (s1\<lparr>u_status := (u_status s1)\<lparr>us_session_state := SessionIdle, us_logs_suppressed := False\<rparr>\<rparr>))"

section \<open>Ending a transfer\<close>

definition remove_file :: "usb_env \<Rightarrow> string \<Rightarrow> usb \<Rightarrow> usb" where
  "remove_file e f s = (if e_remove_ok e then s\<lparr>u_files := (u_files s)(f := None)\<rparr> else s)"

definition abort_transfer_internal :: "usb_env \<Rightarrow> u32 \<Rightarrow> string \<Rightarrow> bool \<Rightarrow> usb \<Rightarrow> unit expected \<times> usb" where
  "abort_transfer_internal e request_id reason notify_host s =
     (case u_transfer s of
        None \<Rightarrow> (if request_id = 0 then Inr () else Inl ''no active transfer'', s)
      | Some t \<Rightarrow>
          if request_id \<noteq> 0 \<and> request_id \<noteq> tr_request_id t
          then (Inl ''request id does not match active transfer'', s)
          else let s1 = remove_file e (tr_temporary_path t) s;
                   s2 = s1\<lparr>u_transfer_status := (u_transfer_status s1)\<lparr>ts_state := Aborted, ts_error := reason\<rparr>,
                     u_transfer := None,
                     u_status := (u_status s1)\<lparr>us_active_request_id := 0, us_port_state := PortReady\<rparr>,
                     u_parser := [], u_rx_buffer := []\<rparr>;
                   s3 = publish_port_state e (publish_transfer_finished e s2)
            in (Inr (), if notify_host then send_error (tr_request_id t) ''aborted'' reason s3 else s3))"

definition fail_transfer :: "usb_env \<Rightarrow> string \<Rightarrow> string \<Rightarrow> usb \<Rightarrow> usb" where
  "fail_transfer e code msg s =
     (let request_id = (case u_transfer s of None \<Rightarrow> 0 | Some t \<Rightarrow> tr_request_id t);
          s1 = (case u_transfer s of
                  None \<Rightarrow> s
                | Some t \<Rightarrow>
                    (remove_file e (tr_temporary_path t) s)\<lparr>
                      u_transfer_status := (u_transfer_status s)\<lparr>ts_state := Failed, ts_error := msg\<rparr>,
                      u_transfer := None\<rparr>);
          s2 = s1\<lparr>u_status := (u_status s1)\<lparr>us_active_request_id := 0, us_port_state := PortReady\<rparr>,
            u_parser := [], u_rx_buffer := []\<rparr>
      in send_error request_id code msg (publish_port_state e (publish_transfer_finished e s2)))"

definition forget_input :: "usb \<Rightarrow> usb" where
  "forget_input s = s\<lparr>u_request_ids := {}, u_rx_buffer := [], u_parser := []\<rparr>"

section \<open>Starting and stopping\<close>

definition usb_stop :: "usb_env \<Rightarrow> usb \<Rightarrow> usb" where
  "usb_stop e s =
     (let s1 = s\<lparr>u_pump_task := False, u_scheduler := False\<rparr>;
          s2 = snd (abort_transfer_internal e 0 ''service stopped'' False s1);
          s3 = release_log_suppression (s2\<lparr>u_rx_queue := None, u_installed := False\<rparr>)
      in s3\<lparr>u_status := (u_status s3)\<lparr>us_port_state := PortDisabled, us_connected := False,
             us_session_state := SessionIdle, us_logs_suppressed := False, us_active_request_id := 0\<rparr>,
           u_transfer_status := \<lparr>ts_state = TransferIdle, ts_request_id = 0, ts_received_bytes = 0,
             ts_total_bytes = 0, ts_error = []\<rparr>\<rparr>)"

definition usb_start :: "usb_env \<Rightarrow> usb \<Rightarrow> bool \<times> usb" where
  "usb_start e s =
     (if \<not> e_scheduler e then (False, s)
      else if \<not> e_queue_ok e then (False, s\<lparr>u_rx_queue := None\<rparr>)
      else let s1 = s\<lparr>u_rx_queue := Some []\<rparr> in
        if \<not> e_install_ok e then (False, usb_stop e s1)
        else let s2 = s1\<lparr>u_installed := True, u_scheduler := True\<rparr> in
          if \<not> e_post_ok e then (False, usb_stop e s2)
          else let s3 = s2\<lparr>u_pump_task := True,
                  u_status := (u_status s2)\<lparr>us_port_state := PortReady, us_connected := e_connected e,
                    us_session_state := SessionIdle, us_logs_suppressed := False,
                    us_max_frame_payload := frame_payload_size, us_transport := e_transport e\<rparr>\<rparr>
            in (True, publish_port_state e s3))"

definition mark_starting :: "usb \<Rightarrow> usb" where
  "mark_starting s = s\<lparr>u_status := (u_status s)\<lparr>us_port_state := PortStarting\<rparr>\<rparr>"

text \<open>\<open>handler\<close> tells whether the function object given is callable.\<close>

definition register_bridge :: "bool \<Rightarrow> usb \<Rightarrow> bool \<times> usb" where
  "register_bridge handler s = (if \<not> handler then (False, s) else (True, s\<lparr>u_bridge := True\<rparr>))"

definition register_service_call_bridge :: "bool \<Rightarrow> usb \<Rightarrow> bool \<times> usb" where
  "register_service_call_bridge handler s =
     (if \<not> handler then (False, s) else (True, s\<lparr>u_call_bridge := True\<rparr>))"

definition clear_bridge :: "usb \<Rightarrow> usb" where
  "clear_bridge s = s\<lparr>u_bridge := False\<rparr>"

definition clear_service_call_bridge :: "usb \<Rightarrow> usb" where
  "clear_service_call_bridge s = s\<lparr>u_call_bridge := False\<rparr>"

definition abort_transfer :: "usb_env \<Rightarrow> u32 \<Rightarrow> usb \<Rightarrow> unit expected \<times> usb" where
  "abort_transfer e request_id s = abort_transfer_internal e request_id ''aborted'' True s"

definition usb_on_start :: "usb_env \<Rightarrow> usb \<Rightarrow> bool \<times> usb" where
  "usb_on_start e s = usb_start e (mark_starting s)"

section \<open>Receiving a transfer\<close>

text \<open>
  The loop around \<open>write\<close>: the bytes written so far, with more of the frame to go.
  A call returns at most what it was asked to write.
\<close>

function write_all :: "usb_env \<Rightarrow> u8 list \<Rightarrow> u8 list \<Rightarrow> bool \<times> u8 list" where
  "write_all e content d =
     (if d = [] then (True, content)
      else let w = e_write e (length content) (length d) in
        if w \<le> 0 then (False, content)
        else write_all e (content @ take (nat w) d) (drop (nat w) d))"
  by auto
termination by (relation "measure (\<lambda>(e, c, d). length d)") auto

declare write_all.simps [simp del]

definition temporary_path_of :: "u32 \<Rightarrow> string" where
  "temporary_path_of request_id = upload_root @ ''/.brookesia_usb/transfer_'' @ dec (unat request_id) @ ''.part''"

text \<open>The checks of a \<open>put\<close> and the destination it names.\<close>

definition put_destination :: "usb_env \<Rightarrow> json_object \<Rightarrow> (string \<times> string) + (string \<times> bool)" where
  "put_destination e params =
     (case get_string params ''path'' of
        None \<Rightarrow> Inl (''invalid_command'', ''put requires path'')
      | Some remote_path \<Rightarrow>
        (case validate_upload_path (e_symlink e) remote_path of
           Inl msg \<Rightarrow> Inl (''path_denied'', msg)
         | Inr target \<Rightarrow>
             let destination = generic_string target; overwrite = get_bool_or_default params ''overwrite'' False in
             if overwrite then Inr (destination, overwrite)
             else (case e_exists e destination of
                 None \<Rightarrow> Inl (''path_denied'', ''failed to inspect upload destination'')
               | Some True \<Rightarrow> Inl (''path_denied'', ''destination already exists'')
               | Some False \<Rightarrow> Inr (destination, overwrite))))"

definition begin_transfer :: "usb_env \<Rightarrow> u32 \<Rightarrow> host_command \<Rightarrow> json_object \<Rightarrow> usb \<Rightarrow> usb" where
  "begin_transfer e request_id command params s =
     (if u_transfer s \<noteq> None then send_error request_id ''busy'' ''another transfer is active'' s
      else case (get_unsigned params ''size'', get_string params ''sha256'') of
        (Some declared, Some sha256) \<Rightarrow>
          if \<not> is_hex_sha256 sha256 then send_error request_id ''invalid_command'' ''size or sha256 is invalid'' s
          else if max_transfer_size < declared
          then send_error request_id ''size_limit'' ''transfer exceeds the configured maximum size'' s
          else (case (if command = PutFile then put_destination e params else Inr ([], False)) of
              Inl (code, msg) \<Rightarrow> send_error request_id code msg s
            | Inr (destination, overwrite) \<Rightarrow>
                if \<not> e_mkdir_ok e
                then send_error request_id ''storage_full'' ''failed to create USB temporary directory'' s
                else (case e_open e of
                    Inl msg \<Rightarrow> send_error request_id ''storage_full'' msg s
                  | Inr _ \<Rightarrow>
                      let temp = temporary_path_of request_id; s1 = s\<lparr>u_files := (u_files s)(temp \<mapsto> [])\<rparr> in
                      if \<not> e_md_setup_ok e
                      then send_error request_id ''storage_full'' ''failed to initialize SHA-256'' (remove_file e temp s1)
                      else publish_transfer_progress e (publish_port_state e
                        (send_json (make_response ''ready'' request_id True @
                            [(''max_frame_payload'', JInt64 (uint frame_payload_size))])
                          (s1\<lparr>u_transfer_status := \<lparr>ts_state = Receiving, ts_request_id = request_id,
                                ts_received_bytes = 0, ts_total_bytes = declared, ts_error = []\<rparr>,
                              u_status := (u_status s1)\<lparr>us_port_state := PortBusy, us_active_request_id := request_id\<rparr>,
                              u_transfer := Some \<lparr>tr_command = command, tr_request_id = request_id,
                                tr_expected_size = declared, tr_received_size = 0, tr_expected_sequence = 0,
                                tr_overwrite = overwrite, tr_destination = destination,
                                tr_expected_sha256 = lower_copy sha256, tr_temporary_path = temp, tr_open = True,
                                tr_hashed = [], tr_last_activity = e_now e\<rparr>,
                              u_parser := []\<rparr>)))))
      | _ \<Rightarrow> send_error request_id ''invalid_command'' ''size or sha256 is invalid'' s)"

definition finish_transfer :: "usb_env \<Rightarrow> binary_frame \<Rightarrow> transfer \<Rightarrow> usb \<Rightarrow> usb" where
  "finish_transfer e frame t s =
     (if bf_sequence frame \<noteq> tr_expected_sequence t then fail_transfer e ''bad_frame'' ''unexpected end frame sequence'' s
      else if tr_received_size t \<noteq> tr_expected_size t
      then fail_transfer e ''size_mismatch'' ''received byte count does not match declared size'' s
      else case e_sha256 e (tr_hashed t) of
        None \<Rightarrow> fail_transfer e ''hash_mismatch'' ''failed to finalize SHA-256'' s
      | Some digest \<Rightarrow>
          let actual_sha256 = sha256_to_hex digest in
          if actual_sha256 \<noteq> tr_expected_sha256 t
          then fail_transfer e ''hash_mismatch'' ''SHA-256 does not match declared digest'' s
          else let s1 = publish_transfer_progress e
                  (s\<lparr>u_transfer := Some (t\<lparr>tr_open := False\<rparr>),
                     u_transfer_status := (u_transfer_status s)\<lparr>ts_state := Handling\<rparr>\<rparr>) in
            if \<not> u_bridge s1
            then fail_transfer e ''install_failed'' ''system host command bridge is not registered'' s1
            else let artifact = \<lparr>ta_command = tr_command t, ta_request_id = tr_request_id t,
                       ta_temporary_path = tr_temporary_path t, ta_size = tr_expected_size t,
                       ta_sha256 = actual_sha256, ta_overwrite = tr_overwrite t\<rparr>;
                     (result, files) = e_bridge e (tr_command t) artifact (tr_destination t) (u_files s1);
                     s2 = s1\<lparr>u_files := files,
                       u_out := u_out s1 @ [Bridged (tr_command t) artifact (tr_destination t)
                         (u_files s1 (tr_temporary_path t))]\<rparr>
              in case result of
                Inl msg \<Rightarrow> fail_transfer e ''install_failed'' msg s2
              | Inr _ \<Rightarrow>
                  let s3 = remove_file e (tr_temporary_path t) s2;
                      s4 = publish_transfer_finished e
                        (s3\<lparr>u_transfer_status := (u_transfer_status s3)\<lparr>ts_state := Completed, ts_error := []\<rparr>\<rparr>);
                      s5 = send_json (make_response ''done'' (tr_request_id t) True @
                        [(''size'', JUint64 (tr_expected_size t)), (''sha256'', JString actual_sha256)]) s4
                  in publish_port_state e (s5\<lparr>u_transfer := None,
                       u_status := (u_status s5)\<lparr>us_active_request_id := 0, us_port_state := PortReady\<rparr>\<rparr>))"

text \<open>A data frame of the expected sequence number: written, hashed and counted.\<close>

definition accept_data :: "usb_env \<Rightarrow> binary_frame \<Rightarrow> transfer \<Rightarrow> usb \<Rightarrow> usb" where
  "accept_data e frame t s =
     (let counted = (\<lambda>t1 s1. update_transfer_progress e (send_ack (bf_request_id frame) (bf_sequence frame)
            (s1\<lparr>u_transfer := Some (t1\<lparr>tr_expected_sequence := tr_expected_sequence t1 + 1\<rparr>)\<rparr>)))
      in if bf_payload frame = [] then counted t s
      else let old = (case u_files s (tr_temporary_path t) of None \<Rightarrow> [] | Some c \<Rightarrow> c);
               (written, content) = write_all e old (bf_payload frame);
               s1 = s\<lparr>u_files := (u_files s)(tr_temporary_path t \<mapsto> content)\<rparr> in
        if \<not> written then fail_transfer e ''storage_full'' (e_write_error e) s1
        else if \<not> e_md_update_ok e (bf_payload frame)
        then fail_transfer e ''storage_full'' ''failed to update SHA-256'' s1
        else let t1 = t\<lparr>tr_hashed := tr_hashed t @ bf_payload frame,
                   tr_received_size := tr_received_size t + of_nat (length (bf_payload frame))\<rparr> in
          if tr_expected_size t1 < tr_received_size t1
          then fail_transfer e ''size_mismatch'' ''received more bytes than declared'' (s1\<lparr>u_transfer := Some t1\<rparr>)
          else counted t1 s1)"

definition handle_frame :: "usb_env \<Rightarrow> binary_frame \<Rightarrow> usb \<Rightarrow> usb" where
  "handle_frame e frame s =
     (case u_transfer s of
        None \<Rightarrow> send_error (bf_request_id frame) ''bad_frame'' ''request id does not match active transfer'' s
      | Some t \<Rightarrow>
          if bf_request_id frame \<noteq> tr_request_id t
          then send_error (bf_request_id frame) ''bad_frame'' ''request id does not match active transfer'' s
          else let s1 = s\<lparr>u_session_last_activity := e_now e\<rparr> in
            if bf_type frame = FrameCancel
            then snd (abort_transfer_internal e (bf_request_id frame) ''cancelled by host'' True s1)
            else let t1 = t\<lparr>tr_last_activity := e_now e\<rparr>; s2 = s1\<lparr>u_transfer := Some t1\<rparr> in
              if bf_sequence frame < tr_expected_sequence t1 then send_ack (bf_request_id frame) (bf_sequence frame) s2
              else if bf_sequence frame \<noteq> tr_expected_sequence t1
              then fail_transfer e ''bad_frame'' ''unexpected frame sequence'' s2
              else if bf_type frame = FrameData then accept_data e frame t1 s2
              else finish_transfer e frame t1 s2)"

section \<open>Commands\<close>

definition handle_service_call :: "usb_env \<Rightarrow> u32 \<Rightarrow> json_object \<Rightarrow> usb \<Rightarrow> usb" where
  "handle_service_call e request_id command s =
     (case (get_string command ''service'', get_string command ''function'', map_of command ''args'') of
        (Some service_name, Some function_name, Some (JObject args)) \<Rightarrow>
          if service_name = ''Usb''
          then send_error request_id ''invalid_command'' ''recursive Usb calls are not allowed'' s
          else let timeout_ms = (case get_unsigned command ''timeout_ms'' of
                     Some n \<Rightarrow> if n \<le> 0xFFFFFFFF then ucast n else of_nat command_timeout_ms
                   | None \<Rightarrow> of_nat command_timeout_ms) in
            if \<not> u_call_bridge s
            then send_error request_id ''path_denied'' ''service call bridge is not registered'' s
            else let result = e_call e service_name function_name args timeout_ms;
                     s1 = s\<lparr>u_out := u_out s @ [Called service_name function_name args timeout_ms]\<rparr> in
              (case result of
                 Inr v \<Rightarrow> send_json (make_response ''call'' request_id True @ [(''result'', v)]) s1
               | Inl (code, msg) \<Rightarrow> send_json (make_response ''call'' request_id False @
                   [(''error_code'', JString code), (''error'', JString msg)]) s1)
      | _ \<Rightarrow> send_error request_id ''invalid_command'' ''call requires service, function and args'' s)"

definition handle_hello :: "usb_env \<Rightarrow> u32 \<Rightarrow> usb \<Rightarrow> usb" where
  "handle_hello e request_id s =
     (if is_control_session_active s
      then send_error request_id ''busy'' ''a control session is already active'' s
      else send_json (make_response ''hello'' request_id True @
          [(''protocol_version'', JInt64 1), (''transport'', JString (e_transport e)),
           (''session'', JString ''exclusive''), (''control_cdc'', JInt64 0),
           (''max_frame_payload'', JInt64 (uint frame_payload_size))])
        ((activate_control_session e s)\<lparr>u_session_last_activity := e_now e\<rparr>))"

definition handle_goodbye :: "usb_env \<Rightarrow> u32 \<Rightarrow> usb \<Rightarrow> usb" where
  "handle_goodbye e request_id s =
     (let s1 = snd (abort_transfer_internal e 0 ''control session ended'' False s);
          s2 = send_json (make_response ''done'' request_id True @ [(''command'', JString ''goodbye'')]) s1
      in release_control_session e (forget_input s2))"

text \<open>The operations of a session, then those that need none, then the checks of every command.\<close>

definition session_command :: "usb_env \<Rightarrow> u32 \<Rightarrow> string \<Rightarrow> json_object \<Rightarrow> usb \<Rightarrow> usb" where
  "session_command e request_id op command s =
     (if op = ''status''
      then send_json (make_response ''status'' request_id True @
          [(''status'', e_status_json e (u_status s)), (''transfer'', e_transfer_json e (u_transfer_status s))]) s
      else if op = ''goodbye'' then handle_goodbye e request_id s
      else if op = ''call'' then handle_service_call e request_id command s
      else if op = ''put'' then begin_transfer e request_id PutFile command s
      else if op = ''install_bpk'' then begin_transfer e request_id InstallBpk command s
      else send_error request_id ''invalid_command'' ''unsupported operation'' s)"

definition new_command :: "usb_env \<Rightarrow> u32 \<Rightarrow> string \<Rightarrow> json_object \<Rightarrow> usb \<Rightarrow> usb" where
  "new_command e request_id op command s =
     (if op = ''hello'' then handle_hello e request_id s
      else if op = ''abort''
      then (case abort_transfer e request_id s of
          (Inl msg, s1) \<Rightarrow> send_error request_id ''aborted'' msg s1
        | (Inr _, s1) \<Rightarrow> s1)
      else if \<not> is_control_session_active s
      then send_error request_id ''invalid_command'' ''hello is required first'' s
      else session_command e request_id op command (s\<lparr>u_session_last_activity := e_now e\<rparr>))"

definition handle_command :: "usb_env \<Rightarrow> json_object \<Rightarrow> usb \<Rightarrow> usb" where
  "handle_command e command s =
     (case get_unsigned command ''request_id'' of
        None \<Rightarrow> send_error 0 ''invalid_command'' ''request_id is required'' s
      | Some wide_id \<Rightarrow>
          if 0xFFFFFFFF < wide_id then send_error 0 ''invalid_command'' ''request_id is required'' s
          else let request_id = ucast wide_id :: u32 in
            (case get_string command ''op'' of
               None \<Rightarrow> send_error request_id ''invalid_command'' ''op is required'' s
             | Some op \<Rightarrow>
                 if get_unsigned command ''version'' \<noteq> Some 1
                 then send_error request_id ''invalid_command'' ''unsupported protocol version'' s
                 else if op \<noteq> ''abort'' \<and> request_id \<in> u_request_ids s
                 then send_error request_id ''invalid_command'' ''request_id has already been used'' s
                 else new_command e request_id op command
                   (if op \<noteq> ''abort'' then s\<lparr>u_request_ids := insert request_id (u_request_ids s)\<rparr> else s)))"

section \<open>What the operations leave alone\<close>

lemmas usb_out_defs = send_json_def publish_def send_error_def send_ack_def publish_port_state_def
  publish_transfer_progress_def publish_transfer_finished_def

lemmas usb_end_defs = abort_transfer_internal_def fail_transfer_def remove_file_def abort_transfer_def

lemmas usb_session_defs = release_log_suppression_def activate_control_session_def release_control_session_def
  is_control_session_active_def forget_input_def

lemma usb_out_fields [simp]:
  "u_bridge (send_error i c m s) = u_bridge s" "u_bridge (send_ack i n s) = u_bridge s" "u_bridge (send_json r s) = u_bridge s"
  "u_bridge (publish_port_state e s) = u_bridge s" "u_bridge (publish_transfer_progress e s) = u_bridge s" "u_bridge (publish_transfer_finished e s) = u_bridge s"
  "u_files (send_error i c m s) = u_files s" "u_files (send_ack i n s) = u_files s" "u_files (send_json r s) = u_files s"
  "u_files (publish_port_state e s) = u_files s" "u_files (publish_transfer_progress e s) = u_files s" "u_files (publish_transfer_finished e s) = u_files s"
  "u_status (send_error i c m s) = u_status s" "u_status (send_ack i n s) = u_status s" "u_status (send_json r s) = u_status s"
  "u_status (publish_port_state e s) = u_status s" "u_status (publish_transfer_progress e s) = u_status s" "u_status (publish_transfer_finished e s) = u_status s"
  "u_transfer (send_error i c m s) = u_transfer s" "u_transfer (send_ack i n s) = u_transfer s" "u_transfer (send_json r s) = u_transfer s"
  "u_transfer (publish_port_state e s) = u_transfer s" "u_transfer (publish_transfer_progress e s) = u_transfer s" "u_transfer (publish_transfer_finished e s) = u_transfer s"
  "u_transfer_status (send_error i c m s) = u_transfer_status s" "u_transfer_status (send_ack i n s) = u_transfer_status s" "u_transfer_status (send_json r s) = u_transfer_status s"
  "u_transfer_status (publish_port_state e s) = u_transfer_status s" "u_transfer_status (publish_transfer_progress e s) = u_transfer_status s" "u_transfer_status (publish_transfer_finished e s) = u_transfer_status s"
  "u_parser (send_error i c m s) = u_parser s" "u_parser (send_ack i n s) = u_parser s" "u_parser (send_json r s) = u_parser s"
  "u_parser (publish_port_state e s) = u_parser s" "u_parser (publish_transfer_progress e s) = u_parser s" "u_parser (publish_transfer_finished e s) = u_parser s"
  "u_rx_buffer (send_error i c m s) = u_rx_buffer s" "u_rx_buffer (send_ack i n s) = u_rx_buffer s" "u_rx_buffer (send_json r s) = u_rx_buffer s"
  "u_rx_buffer (publish_port_state e s) = u_rx_buffer s" "u_rx_buffer (publish_transfer_progress e s) = u_rx_buffer s" "u_rx_buffer (publish_transfer_finished e s) = u_rx_buffer s"
  "u_call_bridge (send_error i c m s) = u_call_bridge s" "u_call_bridge (send_ack i n s) = u_call_bridge s" "u_call_bridge (send_json r s) = u_call_bridge s"
  "u_call_bridge (publish_port_state e s) = u_call_bridge s" "u_call_bridge (publish_transfer_progress e s) = u_call_bridge s" "u_call_bridge (publish_transfer_finished e s) = u_call_bridge s"
  by (simp_all add: usb_out_defs)

text \<open>No operation lengthens the buffers or touches the queue of received messages.\<close>

definition shrinks :: "usb \<Rightarrow> usb \<Rightarrow> bool" where
  "shrinks s s' \<longleftrightarrow> (u_parser s' = u_parser s \<or> u_parser s' = []) \<and>
     (u_rx_buffer s' = u_rx_buffer s \<or> u_rx_buffer s' = []) \<and> u_rx_queue s' = u_rx_queue s"

named_theorems shrinks_intros

lemma shrinks_refl [simp]: "shrinks s s"
  by (simp add: shrinks_def)

lemma shrinks_trans [trans]: "shrinks a b \<Longrightarrow> shrinks b c \<Longrightarrow> shrinks a c"
  by (auto simp: shrinks_def)

lemma shrinks_out [shrinks_intros]:
  "shrinks s (send_error i c m t) = shrinks s t" "shrinks s (send_ack i n t) = shrinks s t"
  "shrinks s (send_json r t) = shrinks s t" "shrinks s (publish_port_state e t) = shrinks s t"
  "shrinks s (publish_transfer_progress e t) = shrinks s t"
  "shrinks s (publish_transfer_finished e t) = shrinks s t"
  "shrinks s (update_transfer_progress e t) = shrinks s t"
  by (simp_all add: shrinks_def usb_out_defs update_transfer_progress_def split: option.splits)

lemma shrinks_fail: "shrinks s t \<Longrightarrow> shrinks s (fail_transfer e c m t)"
  by (auto simp: fail_transfer_def Let_def shrinks_out remove_file_def split: option.splits)
    (auto simp: shrinks_def)

lemma shrinks_abort: "shrinks s (snd (abort_transfer_internal e i r n s))"
  by (auto simp: abort_transfer_internal_def Let_def shrinks_out remove_file_def split: option.splits)
    (auto simp: shrinks_def)

lemma shrinks_finish: "shrinks s (finish_transfer e f t s)"
  by (simp add: finish_transfer_def Let_def shrinks_out split: option.splits prod.splits sum.splits)
    (intro conjI impI allI shrinks_fail; simp add: shrinks_def usb_out_defs remove_file_def)

lemma shrinks_accept: "shrinks s (accept_data e f t s)"
  by (simp add: accept_data_def Let_def shrinks_out split: option.splits prod.splits)
    (intro conjI impI allI shrinks_fail; simp add: shrinks_def)

lemma shrinks_frame: "shrinks s (handle_frame e f s)"
proof (cases "u_transfer s")
  case (Some t)
  let ?s1 = "s\<lparr>u_session_last_activity := e_now e\<rparr>"
  let ?t1 = "t\<lparr>tr_last_activity := e_now e\<rparr>" let ?s2 = "?s1\<lparr>u_transfer := Some ?t1\<rparr>"
  have "shrinks s ?s1" "shrinks s ?s2" by (simp_all add: shrinks_def)
  then show ?thesis using Some shrinks_trans [OF _ shrinks_abort] shrinks_trans [OF _ shrinks_finish]
      shrinks_trans [OF _ shrinks_accept]
    by (simp add: handle_frame_def Let_def shrinks_out shrinks_fail)
qed (simp add: handle_frame_def shrinks_out)

lemma shrinks_begin: "shrinks s (begin_transfer e i c p s)"
  by (simp add: begin_transfer_def Let_def shrinks_out remove_file_def split: option.splits prod.splits sum.splits)
    (simp add: shrinks_def)

lemma shrinks_call: "shrinks s (handle_service_call e i c s)"
  by (simp add: handle_service_call_def Let_def shrinks_out split: option.splits prod.splits sum.splits json.splits)
    (simp add: shrinks_def)

lemma shrinks_goodbye: "shrinks s (handle_goodbye e i s)"
  using shrinks_abort [of s e 0 "''control session ended''" False]
  by (auto simp: handle_goodbye_def Let_def shrinks_out release_control_session_def release_log_suppression_def
      forget_input_def send_json_def shrinks_def usb_out_defs)

lemma shrinks_hello: "shrinks s (handle_hello e i s)"
  by (auto simp: handle_hello_def Let_def shrinks_out activate_control_session_def shrinks_def usb_out_defs)

lemma shrinks_session: "shrinks s (session_command e i op c s)"
  by (simp add: session_command_def shrinks_out shrinks_goodbye shrinks_call shrinks_begin)

lemma shrinks_new: "shrinks s (new_command e i op c s)"
proof -
  have a: "shrinks s (s\<lparr>u_session_last_activity := n\<rparr>)" for n by (simp add: shrinks_def)
  show ?thesis
    using shrinks_abort [of s e i "''aborted''" True] shrinks_trans [OF a shrinks_session]
    by (auto simp: new_command_def shrinks_out shrinks_hello abort_transfer_def split: prod.splits sum.splits)
qed

lemma shrinks_command: "shrinks s (handle_command e c s)"
proof -
  have a: "shrinks s (s\<lparr>u_request_ids := n\<rparr>)" for n by (simp add: shrinks_def)
  show ?thesis
    using shrinks_trans [OF a shrinks_new] shrinks_new [of s]
    by (simp add: handle_command_def Let_def shrinks_out split: option.split)
qed

section \<open>The received bytes\<close>

lemma parse_next_shorter:
  assumes "parse_next frame_payload_size buf = (Inr (Some f), r)"
  shows "length r < length buf"
proof -
  have b: "\<not> length buf < 24" and l: "\<not> frame_payload_size < read_u32_le buf 12"
    and r: "r = drop (frame_size (read_u32_le buf 12)) buf"
    using assms by (auto simp: parse_next_def header_size_def Let_def split: if_splits option.splits)
  have "unat (read_u32_le buf 12) \<le> 16384"
    using l by (simp add: frame_payload_size_def word_less_nat_alt)
  then have "frame_size (read_u32_le buf 12) = 24 + unat (read_u32_le buf 12)"
    using frame_size_small [of "unat (read_u32_le buf 12)"] by simp
  then show ?thesis using b r by (cases buf) auto
qed

text \<open>The frames of a transfer.\<close>

function frame_loop :: "usb_env \<Rightarrow> usb \<Rightarrow> usb" where
  "frame_loop e s =
     (if u_transfer s = None then s
      else case parse_next frame_payload_size (u_parser s) of
        (Inl msg, _) \<Rightarrow> fail_transfer e ''bad_frame'' msg s
      | (Inr None, _) \<Rightarrow> s
      | (Inr (Some frame), rest) \<Rightarrow> frame_loop e (handle_frame e frame (s\<lparr>u_parser := rest\<rparr>)))"
  by auto
termination
proof (relation "measure (\<lambda>(e, s). length (u_parser s))", goal_cases)
  case (2 e s a rest b frame)
  then have "length rest < length (u_parser s)" by (metis parse_next_shorter)
  then show ?case using shrinks_frame [of "s\<lparr>u_parser := rest\<rparr>" e frame] by (auto simp: shrinks_def)
qed simp

declare frame_loop.simps [simp del]

fun newline_at :: "u8 list \<Rightarrow> nat option" where
  "newline_at [] = None"
| "newline_at (b # bs) = (if b = 0x0A then Some 0 else map_option Suc (newline_at bs))"

text \<open>The lines of a session, up to the command that begins a transfer.\<close>

definition next_line :: "u8 list \<Rightarrow> nat \<Rightarrow> u8 list" where
  "next_line buf n = (let line = take n buf in if line \<noteq> [] \<and> last line = 0x0D then butlast line else line)"

lemma newline_at_less: "newline_at bs = Some n \<Longrightarrow> n < length bs"
  by (induction bs arbitrary: n) (auto split: if_splits)

function line_loop :: "usb_env \<Rightarrow> usb \<Rightarrow> usb" where
  "line_loop e s =
     (case newline_at (u_rx_buffer s) of
        None \<Rightarrow>
          if command_buffer_limit < length (u_rx_buffer s)
          then (if e_transport e \<noteq> ''uart'' then send_error 0 ''invalid_command'' ''command line is too long'' s else s)
            \<lparr>u_rx_buffer := []\<rparr>
          else s
      | Some n \<Rightarrow>
          let s1 = s\<lparr>u_rx_buffer := drop (Suc n) (u_rx_buffer s)\<rparr> in
          (case parse_command_line e (next_line (u_rx_buffer s) n) of
             Inl msg \<Rightarrow> line_loop e (if e_transport e = ''uart'' then s1 else send_error 0 ''invalid_command'' msg s1)
           | Inr command \<Rightarrow>
               let s2 = handle_command e command s1 in
               if u_transfer s2 \<noteq> None
               then (if u_rx_buffer s2 \<noteq> []
                     then s2\<lparr>u_parser := u_parser s2 @ u_rx_buffer s2, u_rx_buffer := []\<rparr> else s2)
               else line_loop e s2))"
  by pat_completeness auto
termination
proof (relation "measure (\<lambda>(e, s). length (u_rx_buffer s))", goal_cases)
  case (2 e s n x msg)
  then show ?case by (auto dest: newline_at_less simp: usb_out_defs)
next
  case (3 e s n x command y)
  then show ?case using shrinks_command [of x e command] by (auto dest: newline_at_less simp: shrinks_def)
qed simp

declare line_loop.simps [simp del]

text \<open>The abort line that is accepted between two frames.\<close>

definition abort_line :: "usb_env \<Rightarrow> usb \<Rightarrow> (json_object \<times> u8 list) option" where
  "abort_line e s =
     (if u_parser s = [] \<and> u_rx_buffer s \<noteq> [] \<and> hd (u_rx_buffer s) = 0x7B
      then (case newline_at (u_rx_buffer s) of
          None \<Rightarrow> None
        | Some n \<Rightarrow>
            if command_buffer_limit < n then None
            else (case parse_command_line e (take n (u_rx_buffer s)) of
                Inl _ \<Rightarrow> None
              | Inr command \<Rightarrow>
                  if get_string command ''op'' = Some ''abort''
                  then Some (command, drop (Suc n) (u_rx_buffer s)) else None))
      else None)"

definition process_rx_buffer :: "usb_env \<Rightarrow> usb \<Rightarrow> usb" where
  "process_rx_buffer e s =
     (if u_transfer s \<noteq> None
      then (case abort_line e s of
          Some (command, rest) \<Rightarrow> handle_command e command (s\<lparr>u_rx_buffer := rest\<rparr>)
        | None \<Rightarrow> frame_loop e (s\<lparr>u_parser := parser_append (u_parser s) (u_rx_buffer s), u_rx_buffer := []\<rparr>))
      else line_loop e s)"

section \<open>The pump\<close>

definition update_connection_state :: "usb_env \<Rightarrow> usb \<Rightarrow> usb" where
  "update_connection_state e s =
     (let changed = us_connected (u_status s) \<noteq> e_connected e;
          s1 = s\<lparr>u_status := (u_status s)\<lparr>us_connected := e_connected e\<rparr>\<rparr>;
          s2 = (if \<not> e_connected e \<and> us_session_state (u_status s1) = SessionActive
                then s1\<lparr>u_disconnect_pending := True\<rparr> else s1)
      in if changed then publish_port_state e s2 else s2)"

definition check_transfer_timeout :: "usb_env \<Rightarrow> usb \<Rightarrow> usb" where
  "check_transfer_timeout e s =
     (case u_transfer s of
        None \<Rightarrow> s
      | Some t \<Rightarrow>
          if command_timeout_ms < e_now e - tr_last_activity t
          then release_control_session e (forget_input (fail_transfer e ''timeout'' ''USB transfer timed out'' s))
          else s)"

definition check_session_timeout :: "usb_env \<Rightarrow> usb \<Rightarrow> usb" where
  "check_session_timeout e s =
     (if \<not> is_control_session_active s then s
      else if e_now e - u_session_last_activity s \<le> command_timeout_ms then s
      else release_control_session e (forget_input
        (if u_transfer s \<noteq> None then fail_transfer e ''timeout'' ''USB control session timed out'' s
         else send_error 0 ''timeout'' ''USB control session timed out'' s)))"

fun poll_loop :: "usb_env \<Rightarrow> nat \<Rightarrow> usb \<Rightarrow> usb" where
  "poll_loop e 0 s = s"
| "poll_loop e (Suc n) s =
     (let message = take transport_read_size (e_read e (transport_read_budget - Suc n)) in
      if message = [] then s
      else case u_rx_queue s of
        None \<Rightarrow> s
      | Some q \<Rightarrow>
          if rx_queue_length \<le> length q
          then (if u_transfer s \<noteq> None then fail_transfer e ''bad_frame'' ''Transport RX queue is full'' s else s)
          else poll_loop e n (s\<lparr>u_rx_queue := Some (q @ [message])\<rparr>))"

definition poll_transport :: "usb_env \<Rightarrow> usb \<Rightarrow> usb" where
  "poll_transport e s = (if u_rx_queue s = None then s else poll_loop e transport_read_budget s)"

lemma frame_loop_queue: "u_rx_queue (frame_loop e s) = u_rx_queue s"
proof (induction e s rule: frame_loop.induct)
  case (1 e s)
  have f: "u_rx_queue (fail_transfer e c m s) = u_rx_queue s" for c m
    using shrinks_fail [of s s e c m] by (simp add: shrinks_def)
  have h: "u_rx_queue (handle_frame e f (s\<lparr>u_parser := r\<rparr>)) = u_rx_queue s" for f r
    using shrinks_frame [of "s\<lparr>u_parser := r\<rparr>" e f] by (simp add: shrinks_def)
  show ?case
    using 1 by (subst frame_loop.simps) (auto simp: f h split: prod.splits sum.splits option.splits)
qed

lemma line_loop_queue: "u_rx_queue (line_loop e s) = u_rx_queue s"
proof (induction e s rule: line_loop.induct)
  case (1 e s)
  have h: "u_rx_queue (handle_command e c (s\<lparr>u_rx_buffer := r\<rparr>)) = u_rx_queue s" for c r
    using shrinks_command [of "s\<lparr>u_rx_buffer := r\<rparr>" e c] by (simp add: shrinks_def)
  have o: "u_rx_queue (send_error i c m t) = u_rx_queue t" for i c m t by (simp add: usb_out_defs)
  show ?case
    using 1 by (subst line_loop.simps) (auto simp: h o Let_def split: sum.splits option.splits)
qed

lemma process_rx_buffer_queue: "u_rx_queue (process_rx_buffer e s) = u_rx_queue s"
proof -
  have h: "u_rx_queue (handle_command e c (s\<lparr>u_rx_buffer := r\<rparr>)) = u_rx_queue s" for c r
    using shrinks_command [of "s\<lparr>u_rx_buffer := r\<rparr>" e c] by (simp add: shrinks_def)
  then show ?thesis
    by (simp add: process_rx_buffer_def frame_loop_queue line_loop_queue split: option.split prod.split)
qed

text \<open>The body of the loop over the queue.\<close>

definition receive :: "usb_env \<Rightarrow> u8 list \<Rightarrow> usb \<Rightarrow> usb" where
  "receive e message s = process_rx_buffer e (s\<lparr>u_rx_buffer := u_rx_buffer s @ message\<rparr>)"

lemma receive_queue: "u_rx_queue (receive e m s) = u_rx_queue s"
  by (simp add: receive_def process_rx_buffer_queue)

function drain_queue :: "usb_env \<Rightarrow> usb \<Rightarrow> usb" where
  "drain_queue e s =
     (case u_rx_queue s of
        Some (message # q) \<Rightarrow> drain_queue e (receive e message (s\<lparr>u_rx_queue := Some q\<rparr>))
      | _ \<Rightarrow> s)"
  by pat_completeness auto
termination
  by (relation "measure (\<lambda>(e, s). case u_rx_queue s of None \<Rightarrow> 0 | Some q \<Rightarrow> length q)")
    (auto simp: receive_queue)

declare drain_queue.simps [simp del]

definition disconnected :: "usb_env \<Rightarrow> usb \<Rightarrow> usb" where
  "disconnected e s =
     release_control_session e (forget_input
       (snd (abort_transfer_internal e 0 ''USB control port disconnected'' False s)))"

definition pump_rx_queue :: "usb_env \<Rightarrow> usb \<Rightarrow> usb" where
  "pump_rx_queue e s =
     (let s1 = update_connection_state e s;
          s2 = s1\<lparr>u_disconnect_pending := False\<rparr>;
          s3 = (if u_disconnect_pending s1 then disconnected e s2 else s2);
          s4 = poll_transport e (check_session_timeout e (check_transfer_timeout e s3))
      in if u_rx_queue s4 = None then s4 else drain_queue e s4)"

section \<open>The invariant\<close>

text \<open>
  What the calls outside document: \<open>write\<close> returns at most what it was asked to write, and the
  digest is a function \<open>sha\<close> of the bytes.
\<close>

definition env_ok :: "(u8 list \<Rightarrow> u8 list) \<Rightarrow> usb_env \<Rightarrow> bool" where
  "env_ok sha e \<longleftrightarrow> (\<forall>n k. e_write e n k \<le> int k) \<and> (\<forall>b d. e_sha256 e b = Some d \<longrightarrow> d = sha b)"

text \<open>The file holds the bytes that were hashed and counted.\<close>

definition transfer_ok :: "usb \<Rightarrow> transfer \<Rightarrow> bool" where
  "transfer_ok s t \<longleftrightarrow> u_files s (tr_temporary_path t) = Some (tr_hashed t) \<and> tr_open t \<and>
     unat (tr_received_size t) = length (tr_hashed t) \<and> tr_received_size t \<le> tr_expected_size t \<and>
     tr_expected_size t \<le> max_transfer_size \<and> (tr_command t = PutFile \<longrightarrow> upload_destination (tr_destination t)) \<and>
     is_control_session_active s \<and> us_port_state (u_status s) = PortBusy \<and>
     us_active_request_id (u_status s) = tr_request_id t"

text \<open>What a bridge may be given.\<close>

fun output_ok :: "(u8 list \<Rightarrow> u8 list) \<Rightarrow> usb_output \<Rightarrow> bool" where
  "output_ok sha (Bridged c a d content) \<longleftrightarrow>
     (case content of None \<Rightarrow> False | Some b \<Rightarrow> length b = unat (ta_size a) \<and> sha256_to_hex (sha b) = ta_sha256 a) \<and>
     ta_size a \<le> max_transfer_size \<and> ta_command a = c \<and> (c = PutFile \<longrightarrow> upload_destination d)"
| "output_ok sha _ = True"

text \<open>The logs are suppressed during a session, and back with \<open>v\<close> otherwise.\<close>

definition logs_ok :: "nat \<Rightarrow> usb \<Rightarrow> bool" where
  "logs_ok v s \<longleftrightarrow> u_log_suppressed s = is_control_session_active s \<and>
     us_logs_suppressed (u_status s) = is_control_session_active s \<and>
     (if u_log_suppressed s then u_vprintf s = suppress_log_vprintf \<and> u_previous_vprintf s = v else u_vprintf s = v)"

definition base_ok :: "nat \<Rightarrow> (u8 list \<Rightarrow> u8 list) \<Rightarrow> usb \<Rightarrow> bool" where
  "base_ok v sha s \<longleftrightarrow> logs_ok v s \<and> list_all (output_ok sha) (u_out s)"

definition usb_ok :: "nat \<Rightarrow> (u8 list \<Rightarrow> u8 list) \<Rightarrow> usb \<Rightarrow> bool" where
  "usb_ok v sha s \<longleftrightarrow> base_ok v sha s \<and>
     (case u_transfer s of
        None \<Rightarrow> us_port_state (u_status s) \<noteq> PortBusy \<and> us_active_request_id (u_status s) = 0
      | Some t \<Rightarrow> transfer_ok s t)"

lemmas usb_ok_defs = usb_ok_def base_ok_def logs_ok_def transfer_ok_def is_control_session_active_def

lemma base_ok_out [simp]:
  "base_ok v sha (send_error i c m s) = base_ok v sha s" "base_ok v sha (send_ack i n s) = base_ok v sha s"
  "base_ok v sha (send_json r s) = base_ok v sha s" "base_ok v sha (publish_port_state e s) = base_ok v sha s"
  "base_ok v sha (publish_transfer_progress e s) = base_ok v sha s"
  "base_ok v sha (publish_transfer_finished e s) = base_ok v sha s"
  by (simp_all add: usb_out_defs usb_ok_defs)

lemma transfer_ok_out [simp]:
  "transfer_ok (send_error i c m s) = transfer_ok s" "transfer_ok (send_ack i n s) = transfer_ok s"
  "transfer_ok (send_json r s) = transfer_ok s" "transfer_ok (publish_port_state e s) = transfer_ok s"
  "transfer_ok (publish_transfer_progress e s) = transfer_ok s"
  "transfer_ok (publish_transfer_finished e s) = transfer_ok s"
  by (simp_all add: usb_out_defs usb_ok_defs fun_eq_iff)

lemma usb_ok_out [simp]:
  "usb_ok v sha (send_error i c m s) = usb_ok v sha s" "usb_ok v sha (send_ack i n s) = usb_ok v sha s"
  "usb_ok v sha (send_json r s) = usb_ok v sha s" "usb_ok v sha (publish_port_state e s) = usb_ok v sha s"
  "usb_ok v sha (publish_transfer_progress e s) = usb_ok v sha s"
  "usb_ok v sha (publish_transfer_finished e s) = usb_ok v sha s"
  by (simp_all add: usb_out_defs usb_ok_defs split: option.split)

text \<open>Fields the invariant does not read.\<close>

lemma usb_ok_fields [simp]:
  "usb_ok v sha (s\<lparr>u_parser := p\<rparr>) = usb_ok v sha s" "usb_ok v sha (s\<lparr>u_rx_buffer := p\<rparr>) = usb_ok v sha s"
  "usb_ok v sha (s\<lparr>u_session_last_activity := n\<rparr>) = usb_ok v sha s"
  "usb_ok v sha (s\<lparr>u_request_ids := r\<rparr>) = usb_ok v sha s" "usb_ok v sha (s\<lparr>u_rx_queue := q\<rparr>) = usb_ok v sha s"
  "usb_ok v sha (s\<lparr>u_disconnect_pending := b\<rparr>) = usb_ok v sha s"
  "usb_ok v sha (s\<lparr>u_scheduler := b\<rparr>) = usb_ok v sha s" "usb_ok v sha (s\<lparr>u_pump_task := b\<rparr>) = usb_ok v sha s"
  "usb_ok v sha (s\<lparr>u_installed := b\<rparr>) = usb_ok v sha s" "usb_ok v sha (s\<lparr>u_bridge := b\<rparr>) = usb_ok v sha s"
  "usb_ok v sha (s\<lparr>u_call_bridge := b\<rparr>) = usb_ok v sha s" "usb_ok v sha (forget_input s) = usb_ok v sha s"
  by (simp_all add: usb_ok_defs forget_input_def split: option.split)

lemma base_ok_fields [simp]:
  "base_ok v sha (s\<lparr>u_files := f\<rparr>) = base_ok v sha s" "base_ok v sha (s\<lparr>u_transfer := t\<rparr>) = base_ok v sha s"
  "base_ok v sha (s\<lparr>u_transfer_status := ts\<rparr>) = base_ok v sha s"
  "base_ok v sha (s\<lparr>u_parser := p\<rparr>) = base_ok v sha s" "base_ok v sha (s\<lparr>u_rx_buffer := p\<rparr>) = base_ok v sha s"
  "base_ok v sha (s\<lparr>u_session_last_activity := n\<rparr>) = base_ok v sha s"
  "us_session_state st = us_session_state (u_status s) \<Longrightarrow> us_logs_suppressed st = us_logs_suppressed (u_status s) \<Longrightarrow>
     base_ok v sha (s\<lparr>u_status := st\<rparr>) = base_ok v sha s"
  "base_ok v sha (remove_file e x s) = base_ok v sha s"
  by (simp_all add: usb_ok_defs remove_file_def)

lemma usb_ok_none:
  "u_transfer s = None \<Longrightarrow> usb_ok v sha s \<longleftrightarrow>
     base_ok v sha s \<and> us_port_state (u_status s) \<noteq> PortBusy \<and> us_active_request_id (u_status s) = 0"
  by (simp add: usb_ok_def)

lemma usb_ok_some: "u_transfer s = Some t \<Longrightarrow> usb_ok v sha s \<longleftrightarrow> base_ok v sha s \<and> transfer_ok s t"
  by (simp add: usb_ok_def)

lemma usb_ok_base: "usb_ok v sha s \<Longrightarrow> base_ok v sha s"
  by (simp add: usb_ok_def)

lemma remove_file_fields [simp]:
  "u_transfer (remove_file e x s) = u_transfer s" "u_status (remove_file e x s) = u_status s"
  "u_parser (remove_file e x s) = u_parser s" "u_bridge (remove_file e x s) = u_bridge s"
  by (simp_all add: remove_file_def)

lemma fail_ok: "base_ok v sha s \<Longrightarrow> usb_ok v sha (fail_transfer e c m s)"
  unfolding fail_transfer_def Let_def usb_ok_out
  by (subst usb_ok_none) (simp_all split: option.split)

lemma fail_none [simp]: "u_transfer (fail_transfer e c m s) = None"
  by (cases "u_transfer s") (simp_all add: fail_transfer_def Let_def remove_file_def usb_out_defs)

lemma abort_ok: "usb_ok v sha s \<Longrightarrow> usb_ok v sha (snd (abort_transfer_internal e i m n s))"
proof (cases "u_transfer s")
  case (Some t)
  assume "usb_ok v sha s"
  then have "base_ok v sha s" by (rule usb_ok_base)
  then show ?thesis
    unfolding abort_transfer_internal_def Let_def Some
    by (simp add: \<open>usb_ok v sha s\<close> usb_ok_none)
qed (simp add: abort_transfer_internal_def)

lemma abort_all_none [simp]: "u_transfer (snd (abort_transfer_internal e 0 m n s)) = None"
  by (cases "u_transfer s") (simp_all add: abort_transfer_internal_def Let_def remove_file_def usb_out_defs)

lemma write_all_done:
  assumes "\<And>n k. e_write e n k \<le> int k" "write_all e c d = (True, c')"
  shows "c' = c @ d"
  using assms(2)
proof (induction e c d rule: write_all.induct)
  case (1 e c d)
  from 1(2) show ?case
    using 1(1) by (subst (asm) write_all.simps) (auto simp: Let_def split: if_splits)
qed

lemma transfer_ok_fields [simp]:
  "transfer_ok (s\<lparr>u_parser := p\<rparr>) = transfer_ok s" "transfer_ok (s\<lparr>u_rx_buffer := p\<rparr>) = transfer_ok s"
  "transfer_ok (s\<lparr>u_session_last_activity := n\<rparr>) = transfer_ok s"
  "transfer_ok (s\<lparr>u_transfer := t\<rparr>) = transfer_ok s" "transfer_ok (s\<lparr>u_transfer_status := ts\<rparr>) = transfer_ok s"
  by (simp_all add: fun_eq_iff usb_ok_defs)

lemma transfer_ok_sequence [simp]:
  "transfer_ok s (t\<lparr>tr_expected_sequence := n\<rparr>) = transfer_ok s t"
  "transfer_ok s (t\<lparr>tr_last_activity := m\<rparr>) = transfer_ok s t"
  by (simp_all add: usb_ok_defs)

lemma usb_ok_progress: "usb_ok v sha (update_transfer_progress e s) = usb_ok v sha s"
  by (simp add: update_transfer_progress_def usb_ok_some split: option.split)

lemma received_grows:
  fixes a b :: u64
  assumes "unat a = n" "a \<le> b" "b \<le> max_transfer_size" "k \<le> 65536"
  shows "unat (a + of_nat k) = n + k"
proof -
  have "unat a \<le> 8388608" using assms(2,3) by (simp add: max_transfer_size_def word_le_nat_alt)
  moreover have "unat (of_nat k :: u64) = k" using assms(4) unat_of_nat_small [of k, where 'a = 64] by simp
  ultimately show ?thesis using assms by (simp add: unat_word_ariths)
qed

lemma accept_ok:
  assumes e: "env_ok sha e" and ok: "base_ok v sha s" "transfer_ok s t" and len: "length (bf_payload f) \<le> 65536"
  shows "usb_ok v sha (accept_data e f t s)"
proof (cases "bf_payload f = []")
  case True
  then show ?thesis using ok by (simp add: accept_data_def usb_ok_progress usb_ok_some)
next
  case False
  have stored: "u_files s (tr_temporary_path t) = Some (tr_hashed t)" using ok by (simp add: transfer_ok_def)
  obtain w c where w: "write_all e (tr_hashed t) (bf_payload f) = (w, c)" by (cases "write_all e (tr_hashed t) (bf_payload f)")
  let ?t1 = "t\<lparr>tr_hashed := tr_hashed t @ bf_payload f, tr_received_size := tr_received_size t + of_nat (length (bf_payload f))\<rparr>"
  let ?s1 = "s\<lparr>u_files := (u_files s)(tr_temporary_path t \<mapsto> c)\<rparr>"
  have "usb_ok v sha (?s1\<lparr>u_transfer := Some (?t1\<lparr>tr_expected_sequence := n\<rparr>)\<rparr>)"
    if "w" "\<not> tr_expected_size t < tr_received_size ?t1" for n
  proof -
    have "c = tr_hashed t @ bf_payload f" using write_all_done [of e] w that e by (auto simp: env_ok_def)
    moreover have "unat (tr_received_size ?t1) = length (tr_hashed ?t1)"
      using received_grows [of "tr_received_size t" _ "tr_expected_size t" "length (bf_payload f)"] ok len
      by (simp add: transfer_ok_def)
    ultimately have "transfer_ok ?s1 ?t1" using ok that by (auto simp: transfer_ok_def is_control_session_active_def)
    then show ?thesis using ok by (simp add: usb_ok_some)
  qed
  then show ?thesis using ok False w stored
    by (simp add: accept_data_def Let_def usb_ok_progress fail_ok)
qed

lemma finish_ok:
  assumes e: "env_ok sha e" and ok: "base_ok v sha s" "transfer_ok s t"
  shows "usb_ok v sha (finish_transfer e f t s)"
proof (cases "tr_received_size t = tr_expected_size t \<and> e_sha256 e (tr_hashed t) \<noteq> None \<and>
    sha256_to_hex (sha (tr_hashed t)) = tr_expected_sha256 t \<and> bf_sequence f = tr_expected_sequence t")
  case True
  then have d: "e_sha256 e (tr_hashed t) = Some (sha (tr_hashed t))" using e by (auto simp: env_ok_def)
  have stored: "u_files s (tr_temporary_path t) = Some (tr_hashed t)" using ok by (simp add: transfer_ok_def)
  let ?a = "\<lparr>ta_command = tr_command t, ta_request_id = tr_request_id t, ta_temporary_path = tr_temporary_path t,
    ta_size = tr_expected_size t, ta_sha256 = tr_expected_sha256 t, ta_overwrite = tr_overwrite t\<rparr>"
  let ?s1 = "publish_transfer_progress e (s\<lparr>u_transfer := Some (t\<lparr>tr_open := False\<rparr>),
    u_transfer_status := (u_transfer_status s)\<lparr>ts_state := Handling\<rparr>\<rparr>)"
  let ?s2 = "\<lambda>files. ?s1\<lparr>u_files := files, u_out := u_out ?s1 @ [Bridged (tr_command t) ?a (tr_destination t) (Some (tr_hashed t))]\<rparr>"
  have b1: "base_ok v sha ?s1" using ok by simp
  have "output_ok sha (Bridged (tr_command t) ?a (tr_destination t) (Some (tr_hashed t)))"
    using True ok by (auto simp: transfer_ok_def)
  then have b2: "base_ok v sha (?s2 files)" for files
    using b1 by (simp add: base_ok_def logs_ok_def is_control_session_active_def del: output_ok.simps)
  have "usb_ok v sha (finish_transfer e f t s)" if "u_bridge s"
    and r: "e_bridge e (tr_command t) ?a (tr_destination t) (u_files s) = (r, files)" for r files
    using b2 [of files] fail_ok [OF b2 [of files]] True d that stored
    by (cases r) (simp_all add: finish_transfer_def Let_def usb_ok_none)
  moreover have "usb_ok v sha (finish_transfer e f t s)" if "\<not> u_bridge s"
    using fail_ok [OF b1] True d that by (simp add: finish_transfer_def Let_def)
  ultimately show ?thesis by (metis surj_pair)
next
  case False
  then show ?thesis using e ok
    by (auto simp: finish_transfer_def env_ok_def fail_ok split: option.splits)
qed

lemma frame_ok_inv:
  assumes e: "env_ok sha e" and ok: "usb_ok v sha s" and len: "length (bf_payload f) \<le> 65536"
  shows "usb_ok v sha (handle_frame e f s)"
proof (cases "u_transfer s")
  case (Some t)
  let ?s1 = "s\<lparr>u_session_last_activity := e_now e\<rparr>"
  let ?t1 = "t\<lparr>tr_last_activity := e_now e\<rparr>" let ?s2 = "?s1\<lparr>u_transfer := Some ?t1\<rparr>"
  have b: "base_ok v sha ?s2" and t: "transfer_ok ?s2 ?t1" using ok Some by (simp_all add: usb_ok_some)
  then have o: "usb_ok v sha ?s2" by (simp add: usb_ok_some)
  have a: "usb_ok v sha (snd (abort_transfer_internal e i m n ?s1))" for i m n
    using ok by (intro abort_ok) simp
  show ?thesis
    using Some ok a o fail_ok [OF b] accept_ok [OF e b t len] finish_ok [OF e b t]
    by (simp add: handle_frame_def Let_def)
qed (use ok in \<open>simp add: handle_frame_def\<close>)

lemma begin_ok:
  assumes ok: "usb_ok v sha s" and act: "is_control_session_active s"
  shows "usb_ok v sha (begin_transfer e i c p s)"
proof (cases "u_transfer s")
  case None
  let ?t = "temporary_path_of i"
  have b: "base_ok v sha s" and ps: "us_port_state (u_status s) \<noteq> PortBusy" "us_active_request_id (u_status s) = 0"
    using ok None by (simp_all add: usb_ok_none)
  have put: "upload_destination d" if "put_destination e p = Inr (d, w)" for d w
    using that validated_destination [of "e_symlink e"]
    by (auto simp: put_destination_def Let_def split: option.splits sum.splits if_splits bool.splits)
  have r: "usb_ok v sha (remove_file e ?t (s\<lparr>u_files := fs\<rparr>))" for fs
    using b ps None by (simp add: usb_ok_none)
  show ?thesis using None ok b ps act
    by (auto simp: begin_transfer_def Let_def r usb_ok_some transfer_ok_def is_control_session_active_def
        split: option.splits sum.splits prod.splits intro: put)
qed (use ok in \<open>simp add: begin_transfer_def\<close>)

lemma session_release_ok: "usb_ok v sha s \<Longrightarrow> u_transfer s = None \<Longrightarrow> usb_ok v sha (release_control_session e s)"
  by (auto simp: release_control_session_def Let_def release_log_suppression_def usb_ok_defs
      publish_port_state_def publish_def)

lemma activate_ok:
  assumes "usb_ok v sha s" "\<not> is_control_session_active s"
  shows "usb_ok v sha (activate_control_session e s)"
proof (cases "u_transfer s")
  case None
  then show ?thesis using assms
    by (auto simp: activate_control_session_def Let_def usb_ok_defs publish_port_state_def publish_def)
next
  case (Some t)
  then show ?thesis using assms by (simp add: usb_ok_some transfer_ok_def)
qed

lemma call_ok: "usb_ok v sha s \<Longrightarrow> usb_ok v sha (handle_service_call e i c s)"
proof -
  assume ok: "usb_ok v sha s"
  have "usb_ok v sha (s\<lparr>u_out := u_out s @ [Called a b c d]\<rparr>)" for a b c d
    using ok by (simp add: usb_ok_defs split: option.splits)
  then show ?thesis using ok
    by (simp add: handle_service_call_def Let_def split: option.split prod.split sum.split json.split)
qed

lemma new_command_ok: "usb_ok v sha s \<Longrightarrow> usb_ok v sha (new_command e i op c s)"
proof -
  assume ok: "usb_ok v sha s"
  have ab: "usb_ok v sha (snd (abort_transfer_internal e i m n s))" for i m n using ok by (rule abort_ok)
  have gb: "usb_ok v sha (handle_goodbye e i s')" if "usb_ok v sha s'" for s'
    using abort_ok [OF that, of e 0] unfolding handle_goodbye_def Let_def
    by (intro session_release_ok) (simp_all add: forget_input_def)
  have se: "usb_ok v sha (session_command e i op c s')" if "usb_ok v sha s'" "is_control_session_active s'" for s'
    using that gb call_ok begin_ok by (simp add: session_command_def)
  show ?thesis
    using ok ab [of i "''aborted''" True] activate_ok [OF ok, of e] se [of "s\<lparr>u_session_last_activity := e_now e\<rparr>"]
    by (auto simp: new_command_def handle_hello_def abort_transfer_def is_control_session_active_def
        split: prod.splits sum.splits)
qed

lemma command_ok: "usb_ok v sha s \<Longrightarrow> usb_ok v sha (handle_command e c s)"
  by (simp add: handle_command_def Let_def new_command_ok split: option.split)

lemma parse_next_payload:
  assumes "parse_next frame_payload_size buf = (Inr (Some f), r)"
  shows "length (bf_payload f) \<le> 65536"
proof -
  have l: "\<not> frame_payload_size < read_u32_le buf 12"
    and p: "bf_payload f = take (unat (read_u32_le buf 12)) (drop header_size buf)"
    using assms by (auto simp: parse_next_def Let_def split: if_splits option.splits)
  have "unat (read_u32_le buf 12) \<le> 16384"
    using l by (simp add: frame_payload_size_def word_less_nat_alt)
  then show ?thesis by (simp add: p)
qed

lemma frame_loop_ok: "env_ok sha e \<Longrightarrow> usb_ok v sha s \<Longrightarrow> usb_ok v sha (frame_loop e s)"
proof (induction e s rule: frame_loop.induct)
  case (1 e s)
  have f: "usb_ok v sha (fail_transfer e c m s)" for c m by (rule fail_ok) (rule usb_ok_base [OF 1(3)])
  have h: "usb_ok v sha (handle_frame e f (s\<lparr>u_parser := r\<rparr>))"
    if "parse_next frame_payload_size (u_parser s) = (Inr (Some f), r)" for f r
    using frame_ok_inv [OF 1(2) _ parse_next_payload [OF that]] 1(3) by simp
  show ?case
    using 1 f h by (subst frame_loop.simps) (auto split: prod.splits sum.splits option.splits)
qed

lemma line_loop_ok: "usb_ok v sha s \<Longrightarrow> usb_ok v sha (line_loop e s)"
proof (induction e s rule: line_loop.induct)
  case (1 e s)
  then show ?case
    by (subst line_loop.simps) (auto simp: command_ok Let_def split: sum.split option.split if_splits)
qed

lemma process_ok: "env_ok sha e \<Longrightarrow> usb_ok v sha s \<Longrightarrow> usb_ok v sha (process_rx_buffer e s)"
  by (simp add: process_rx_buffer_def frame_loop_ok line_loop_ok command_ok split: option.split prod.split)

lemma receive_ok: "env_ok sha e \<Longrightarrow> usb_ok v sha s \<Longrightarrow> usb_ok v sha (receive e m s)"
  by (simp add: receive_def process_ok)

lemma drain_ok: "env_ok sha e \<Longrightarrow> usb_ok v sha s \<Longrightarrow> usb_ok v sha (drain_queue e s)"
proof (induction e s rule: drain_queue.induct)
  case (1 e s)
  then show ?case
    by (subst drain_queue.simps) (simp add: receive_ok split: option.split list.split)
qed

lemma poll_ok: "usb_ok v sha s \<Longrightarrow> usb_ok v sha (poll_loop e n s)"
  by (induction e n s rule: poll_loop.induct)
    (auto simp: Let_def split: option.split intro: fail_ok usb_ok_base)

lemma forget_none [simp]: "u_transfer (forget_input s) = u_transfer s"
  by (simp add: forget_input_def)

lemma timeouts_ok: "usb_ok v sha s \<Longrightarrow> usb_ok v sha (check_session_timeout e (check_transfer_timeout e s))"
proof -
  assume ok: "usb_ok v sha s"
  have f: "usb_ok v sha (release_control_session e (forget_input (fail_transfer e c m s')))" if "usb_ok v sha s'" for s' c m
    using fail_ok [OF usb_ok_base [OF that]] by (intro session_release_ok) simp_all
  have t: "usb_ok v sha (check_transfer_timeout e s)"
    using ok f by (simp add: check_transfer_timeout_def split: option.split)
  have "usb_ok v sha (check_session_timeout e s')" if "usb_ok v sha s'" for s'
    using that f [OF that] session_release_ok [of v sha "forget_input (send_error 0 c m s')" e for c m]
    by (simp add: check_session_timeout_def)
  then show ?thesis using t by blast
qed

lemma connection_ok: "usb_ok v sha s \<Longrightarrow> usb_ok v sha (update_connection_state e s)"
proof -
  assume ok: "usb_ok v sha s"
  have "usb_ok v sha (s\<lparr>u_status := (u_status s)\<lparr>us_connected := b\<rparr>\<rparr>)" for b
    using ok by (simp add: usb_ok_defs split: option.splits)
  then show ?thesis by (simp add: update_connection_state_def Let_def)
qed

lemma pump_ok: "env_ok sha e \<Longrightarrow> usb_ok v sha s \<Longrightarrow> usb_ok v sha (pump_rx_queue e s)"
proof -
  assume e: "env_ok sha e" and ok: "usb_ok v sha s"
  have d: "usb_ok v sha (disconnected e s')" if "usb_ok v sha s'" for s'
    unfolding disconnected_def using abort_ok [OF that] by (intro session_release_ok) simp_all
  show ?thesis
    using drain_ok [OF e] d connection_ok [OF ok, of e] timeouts_ok [of v sha _ e] poll_ok
    by (simp add: pump_rx_queue_def Let_def poll_transport_def)
qed

section \<open>Every run of the service\<close>

definition usb_initial :: "nat \<Rightarrow> (string \<rightharpoonup> u8 list) \<Rightarrow> usb" where
  "usb_initial v files = \<lparr>u_scheduler = False, u_pump_task = False, u_rx_queue = None, u_installed = False,
     u_log_suppressed = False, u_vprintf = v, u_previous_vprintf = 0, u_disconnect_pending = False,
     u_session_last_activity = 0, u_rx_buffer = [], u_parser = [], u_transfer = None,
     u_status = \<lparr>us_port_state = PortDisabled, us_connected = False, us_transport = [],
       us_session_state = SessionIdle, us_logs_suppressed = False, us_active_request_id = 0,
       us_max_frame_payload = 0\<rparr>,
     u_transfer_status = \<lparr>ts_state = TransferIdle, ts_request_id = 0, ts_received_bytes = 0, ts_total_bytes = 0,
       ts_error = []\<rparr>,
     u_bridge = False, u_call_bridge = False, u_request_ids = {}, u_files = files, u_out = []\<rparr>"

text \<open>
  The steps: the life cycle calls of the service (a start finds the service stopped, so without
  its queue), the pump, the function that aborts a transfer, and the bridges that come and go.
\<close>

inductive usb_reachable :: "nat \<Rightarrow> (u8 list \<Rightarrow> u8 list) \<Rightarrow> usb \<Rightarrow> bool" for v sha where
  initial: "usb_reachable v sha (usb_initial v files)"
| start: "usb_reachable v sha s \<Longrightarrow> u_rx_queue s = None \<Longrightarrow> usb_reachable v sha (snd (usb_on_start e s))"
| stop: "usb_reachable v sha s \<Longrightarrow> usb_reachable v sha (usb_stop e s)"
| pump: "usb_reachable v sha s \<Longrightarrow> env_ok sha e \<Longrightarrow> usb_reachable v sha (pump_rx_queue e s)"
| abort: "usb_reachable v sha s \<Longrightarrow> usb_reachable v sha (snd (abort_transfer e i s))"
| bridge: "usb_reachable v sha s \<Longrightarrow> usb_reachable v sha (snd (register_bridge h s))"
| call_bridge: "usb_reachable v sha s \<Longrightarrow> usb_reachable v sha (snd (register_service_call_bridge h s))"
| no_bridge: "usb_reachable v sha s \<Longrightarrow> usb_reachable v sha (clear_bridge s)"
| no_call_bridge: "usb_reachable v sha s \<Longrightarrow> usb_reachable v sha (clear_service_call_bridge s)"

text \<open>Without its queue the service is idle.\<close>

definition idle :: "usb \<Rightarrow> bool" where
  "idle s \<longleftrightarrow> u_transfer s = None \<and> \<not> is_control_session_active s"

definition usb_inv :: "nat \<Rightarrow> (u8 list \<Rightarrow> u8 list) \<Rightarrow> usb \<Rightarrow> bool" where
  "usb_inv v sha s \<longleftrightarrow> usb_ok v sha s \<and> (u_rx_queue s = None \<longrightarrow> idle s)"

lemma idle_release [simp]: "u_transfer s = None \<Longrightarrow> idle (release_control_session e s)"
  by (simp add: idle_def release_control_session_def Let_def release_log_suppression_def is_control_session_active_def)

lemma idle_pump:
  assumes "idle s" "u_rx_queue s = None"
  shows "idle (pump_rx_queue e s) \<and> u_rx_queue (pump_rx_queue e s) = None"
proof -
  have up: "idle (update_connection_state e s)" "u_rx_queue (update_connection_state e s) = None"
    using assms by (auto simp: update_connection_state_def Let_def idle_def is_control_session_active_def usb_out_defs)
  have q: "u_rx_queue (release_control_session e t) = u_rx_queue t" for t
    by (simp add: release_control_session_def Let_def release_log_suppression_def usb_out_defs)
  have d: "idle (disconnected e t)" "u_rx_queue (disconnected e t) = u_rx_queue t" for t
    using shrinks_abort [of t e 0] by (simp_all add: disconnected_def q forget_input_def shrinks_def)
  have t: "check_session_timeout e (check_transfer_timeout e t) = t" if "idle t" for t
    using that by (simp add: idle_def check_session_timeout_def check_transfer_timeout_def)
  have f: "idle (t\<lparr>u_disconnect_pending := b\<rparr>) = idle t" for t b
    by (simp add: idle_def is_control_session_active_def)
  show ?thesis using up d t f by (simp add: pump_rx_queue_def Let_def poll_transport_def)
qed

lemma drain_queue_queue: "u_rx_queue s \<noteq> None \<Longrightarrow> u_rx_queue (drain_queue e s) \<noteq> None"
proof (induction e s rule: drain_queue.induct)
  case (1 e s)
  then show ?case
    by (subst drain_queue.simps) (auto simp: receive_queue split: option.split list.split)
qed

lemma poll_loop_queue: "u_rx_queue s \<noteq> None \<Longrightarrow> u_rx_queue (poll_loop e n s) \<noteq> None"
proof (induction e n s rule: poll_loop.induct)
  case (2 e n s)
  have "u_rx_queue (fail_transfer e c m s) = u_rx_queue s" for c m
    using shrinks_fail [of s s e c m] by (simp add: shrinks_def)
  then show ?case using 2 by (auto simp: Let_def split: option.split)
qed simp

lemma pump_queue:
  assumes "u_rx_queue s \<noteq> None"
  shows "u_rx_queue (pump_rx_queue e s) \<noteq> None"
proof -
  have up: "u_rx_queue (update_connection_state e s) \<noteq> None"
    using assms by (auto simp: update_connection_state_def Let_def usb_out_defs)
  have q: "u_rx_queue (release_control_session e t) = u_rx_queue t" "u_rx_queue (forget_input t) = u_rx_queue t"
    "u_rx_queue (send_error i c m t) = u_rx_queue t" for t i c m
    by (simp_all add: release_control_session_def Let_def release_log_suppression_def usb_out_defs forget_input_def)
  have f: "u_rx_queue (fail_transfer e c m t) = u_rx_queue t" for t c m
    using shrinks_fail [of t t e c m] by (simp add: shrinks_def)
  have d: "u_rx_queue (disconnected e t) = u_rx_queue t" for t
    using shrinks_abort [of t e 0] by (simp add: disconnected_def q shrinks_def)
  have c: "u_rx_queue (check_session_timeout e (check_transfer_timeout e t)) = u_rx_queue t" for t
    by (simp add: check_session_timeout_def check_transfer_timeout_def q f split: option.split)
  show ?thesis using up poll_loop_queue drain_queue_queue
    by (simp add: pump_rx_queue_def Let_def poll_transport_def c d)
qed

lemma usb_stop_inv:
  assumes "usb_ok v sha s"
  shows "usb_inv v sha (usb_stop e s)"
proof -
  let ?s1 = "s\<lparr>u_pump_task := False, u_scheduler := False\<rparr>"
  let ?s2 = "snd (abort_transfer_internal e 0 ''service stopped'' False ?s1)"
  have "usb_ok v sha ?s2" using assms by (intro abort_ok) simp
  moreover have "u_transfer ?s2 = None" by simp
  ultimately show ?thesis
    by (auto simp: usb_stop_def Let_def release_log_suppression_def usb_inv_def usb_ok_defs idle_def)
qed

lemma usb_start_inv:
  assumes "usb_ok v sha s" "idle s"
  shows "usb_inv v sha (snd (usb_start e s))"
proof -
  have b: "usb_inv v sha (s\<lparr>u_rx_queue := None\<rparr>)" using assms by (simp add: usb_inv_def idle_def is_control_session_active_def)
  have "\<And>q i p. usb_inv v sha (usb_stop e (s\<lparr>u_rx_queue := q\<rparr>))"
    "\<And>q i p. usb_inv v sha (usb_stop e (s\<lparr>u_rx_queue := q, u_installed := i, u_scheduler := p\<rparr>))"
    using assms by (simp_all add: usb_stop_inv)
  moreover have "usb_inv v sha (publish_port_state e (s\<lparr>u_rx_queue := Some [], u_installed := True, u_scheduler := True,
      u_pump_task := True, u_status := (u_status s)\<lparr>us_port_state := PortReady, us_connected := e_connected e,
        us_session_state := SessionIdle, us_logs_suppressed := False, us_max_frame_payload := m, us_transport := n\<rparr>\<rparr>))" for m n
    using assms by (simp add: usb_inv_def publish_port_state_def publish_def) (auto simp: usb_ok_defs idle_def)
  ultimately show ?thesis using assms b by (simp add: usb_start_def Let_def usb_inv_def)
qed

lemma reachable_inv: "usb_reachable v sha s \<Longrightarrow> usb_inv v sha s"
proof (induction rule: usb_reachable.induct)
  case (initial files)
  show ?case by (simp add: usb_initial_def usb_inv_def usb_ok_defs idle_def)
next
  case (start s e)
  then have "usb_ok v sha (mark_starting s)" "idle (mark_starting s)"
    by (auto simp: mark_starting_def usb_inv_def usb_ok_defs idle_def)
  then show ?case unfolding usb_on_start_def by (rule usb_start_inv)
next
  case (stop s e)
  then show ?case by (intro usb_stop_inv) (simp add: usb_inv_def)
next
  case (pump s e)
  then show ?case using idle_pump pump_ok pump_queue by (metis usb_inv_def)
next
  case (abort s e i)
  then show ?case
    using abort_ok [of v sha s e i "''aborted''" True] shrinks_abort [of s e i "''aborted''" True]
    by (auto simp: usb_inv_def abort_transfer_def shrinks_def idle_def abort_transfer_internal_def)
qed (auto simp: usb_inv_def register_bridge_def register_service_call_bridge_def clear_bridge_def
    clear_service_call_bridge_def idle_def is_control_session_active_def)

end
