(* ===== verification/Usb_Upload.thy ===== *)
theory Usb_Upload
  imports Usb_Transfer
begin

text \<open>
  Uploads from end to end: what the host tool sends of a file, in whatever pieces it arrives,
  reaches the bridge as that file; and the properties of the USB service.
\<close>

section \<open>A transfer under way\<close>

text \<open>A step in which the calls outside succeed; \<open>write\<close> may still write a part.\<close>

definition env_good :: "(u8 list \<Rightarrow> u8 list) \<Rightarrow> usb_env \<Rightarrow> bool" where
  "env_good sha e \<longleftrightarrow> (\<forall>n k. 0 < k \<longrightarrow> 0 < e_write e n k \<and> e_write e n k \<le> int k) \<and>
     (\<forall>b. e_md_update_ok e b \<and> e_sha256 e b = Some (sha b)) \<and>
     (\<forall>c a d fs. fst (e_bridge e c a d fs) = Inr ())"

text \<open>The calls of the host command bridge.\<close>

fun is_bridged :: "usb_output \<Rightarrow> bool" where
  "is_bridged (Bridged c a d content) = True"
| "is_bridged _ = False"

definition bridge_calls :: "usb \<Rightarrow> usb_output list" where
  "bridge_calls s = filter is_bridged (u_out s)"

lemma bridge_calls_out [simp]:
  "bridge_calls (send_error i c m s) = bridge_calls s" "bridge_calls (send_ack i n s) = bridge_calls s"
  "bridge_calls (send_json r s) = bridge_calls s" "bridge_calls (publish_port_state e s) = bridge_calls s"
  "bridge_calls (publish_transfer_progress e s) = bridge_calls s"
  "bridge_calls (publish_transfer_finished e s) = bridge_calls s"
  by (simp_all add: bridge_calls_def usb_out_defs)

lemma bridge_calls_fields [simp]:
  "bridge_calls (s\<lparr>u_files := f\<rparr>) = bridge_calls s" "bridge_calls (s\<lparr>u_transfer := t\<rparr>) = bridge_calls s"
  "bridge_calls (s\<lparr>u_transfer_status := ts\<rparr>) = bridge_calls s" "bridge_calls (s\<lparr>u_parser := p\<rparr>) = bridge_calls s"
  "bridge_calls (s\<lparr>u_rx_buffer := p\<rparr>) = bridge_calls s" "bridge_calls (s\<lparr>u_status := st\<rparr>) = bridge_calls s"
  "bridge_calls (s\<lparr>u_session_last_activity := n\<rparr>) = bridge_calls s" "bridge_calls (remove_file e x s) = bridge_calls s"
  by (simp_all add: bridge_calls_def remove_file_def)

text \<open>
  The transfer \<open>t0\<close> has taken the bytes \<open>got\<close> of its file in data frames up to the number \<open>q\<close>.
\<close>

definition got_so_far :: "transfer \<Rightarrow> u8 list \<Rightarrow> u32 \<Rightarrow> transfer \<Rightarrow> bool" where
  "got_so_far t0 got q t \<longleftrightarrow> tr_command t = tr_command t0 \<and> tr_request_id t = tr_request_id t0 \<and>
     tr_expected_size t = tr_expected_size t0 \<and> tr_overwrite t = tr_overwrite t0 \<and>
     tr_destination t = tr_destination t0 \<and> tr_expected_sha256 t = tr_expected_sha256 t0 \<and>
     tr_temporary_path t = tr_temporary_path t0 \<and> tr_expected_sequence t = q \<and> tr_hashed t = got \<and>
     unat (tr_received_size t) = length got"

definition uploading :: "transfer \<Rightarrow> usb_output list \<Rightarrow> u8 list \<Rightarrow> u32 \<Rightarrow> u8 list \<Rightarrow> usb \<Rightarrow> bool" where
  "uploading t0 calls got q buf s \<longleftrightarrow> (\<exists>t. u_transfer s = Some t \<and> got_so_far t0 got q t) \<and>
     u_files s (tr_temporary_path t0) = Some got \<and> u_bridge s \<and> u_parser s = buf \<and> u_rx_buffer s = [] \<and>
     bridge_calls s = calls"

text \<open>The artifact and the state when the whole file was taken.\<close>

definition artifact_of :: "transfer \<Rightarrow> transfer_artifact" where
  "artifact_of t = \<lparr>ta_command = tr_command t, ta_request_id = tr_request_id t, ta_temporary_path = tr_temporary_path t,
     ta_size = tr_expected_size t, ta_sha256 = tr_expected_sha256 t, ta_overwrite = tr_overwrite t\<rparr>"

definition delivered :: "transfer \<Rightarrow> usb_output list \<Rightarrow> u8 list \<Rightarrow> u8 list \<Rightarrow> usb \<Rightarrow> bool" where
  "delivered t0 calls content rest s \<longleftrightarrow> u_transfer s = None \<and> ts_state (u_transfer_status s) = Completed \<and>
     bridge_calls s = calls @ [Bridged (tr_command t0) (artifact_of t0) (tr_destination t0) (Some content)] \<and>
     u_parser s = rest \<and> u_rx_buffer s = []"

lemma write_all_good: "env_good sha e \<Longrightarrow> write_all e c d = (True, c @ d)"
proof (induction e c d rule: write_all.induct)
  case (1 e c d)
  then have w: "0 < e_write e (length c) (length d)" "e_write e (length c) (length d) \<le> int (length d)" if "d \<noteq> []"
    using that by (auto simp: env_good_def)
  show ?case
  proof (cases "d = []")
    case False
    then show ?thesis
      using 1(1) [OF False refl _ 1(2)] w by (subst write_all.simps) (simp add: Let_def)
  qed (simp add: write_all.simps)
qed

lemma progress_fields [simp]:
  "u_transfer (update_transfer_progress e s) = u_transfer s" "u_files (update_transfer_progress e s) = u_files s"
  "u_bridge (update_transfer_progress e s) = u_bridge s" "u_parser (update_transfer_progress e s) = u_parser s"
  "u_rx_buffer (update_transfer_progress e s) = u_rx_buffer s"
  "bridge_calls (update_transfer_progress e s) = bridge_calls s"
  by (simp_all add: update_transfer_progress_def split: option.split)

lemma data_step:
  assumes e: "env_good sha e" and s: "uploading t0 calls got q buf s"
    and f: "bf_type f = FrameData" "bf_request_id f = tr_request_id t0" "bf_sequence f = q"
      "bf_payload f \<noteq> []" "length (bf_payload f) \<le> 65536"
    and len: "length got + length (bf_payload f) \<le> unat (tr_expected_size t0)" "tr_expected_size t0 \<le> max_transfer_size"
  shows "uploading t0 calls (got @ bf_payload f) (q + 1) buf (handle_frame e f s)"
proof -
  obtain t where t: "u_transfer s = Some t" "got_so_far t0 got q t" using s by (auto simp: uploading_def)
  let ?r = "tr_received_size t + of_nat (length (bf_payload f))"
  have g: "unat ?r = length got + length (bf_payload f)"
    using received_grows [of "tr_received_size t" "length got" "tr_expected_size t" "length (bf_payload f)"] t len f
    by (simp add: got_so_far_def word_le_nat_alt)
  then have "\<not> tr_expected_size t0 < ?r" using len by (simp add: word_less_nat_alt)
  then show ?thesis
    using s t f g e write_all_good [OF e]
    by (simp add: handle_frame_def Let_def accept_data_def uploading_def got_so_far_def env_good_def)
qed

lemma end_step:
  assumes e: "env_good sha e" and s: "uploading t0 calls content q buf s"
    and f: "bf_type f = FrameEnd" "bf_request_id f = tr_request_id t0" "bf_sequence f = q"
    and len: "length content = unat (tr_expected_size t0)"
    and sha: "tr_expected_sha256 t0 = sha256_to_hex (sha content)"
  shows "delivered t0 calls content buf (handle_frame e f s)"
proof -
  obtain t where t: "u_transfer s = Some t" "got_so_far t0 content q t" using s by (auto simp: uploading_def)
  have size: "tr_received_size t = tr_expected_size t"
    using t len by (auto simp: got_so_far_def word_unat_eq_iff)
  obtain fs where b: "e_bridge e (tr_command t0) (artifact_of t0) (tr_destination t0) (u_files s) = (Inr (), fs)"
    using e by (metis env_good_def prod.collapse)
  have call: "bridge_calls (s'\<lparr>u_files := fs, u_out := u_out s' @ [x]\<rparr>) = bridge_calls s' @ [x]" if "is_bridged x" for s' x
    using that by (simp add: bridge_calls_def)
  show ?thesis
    using s t f size e sha b
    by (simp add: handle_frame_def Let_def finish_transfer_def uploading_def got_so_far_def env_good_def
        delivered_def artifact_of_def call del: is_bridged.simps)
       (simp add: bridge_calls_def remove_file_def publish_transfer_progress_def publish_def)
qed

section \<open>The bytes of an upload\<close>

definition frames_bytes :: "binary_frame list \<Rightarrow> u8 list" where
  "frames_bytes fs = concat (map encode fs)"

lemma encode_ne [simp]: "encode f \<noteq> []"
  using length_encode [of f] by (cases "encode f") simp_all

lemma hd_encode [simp]: "hd (encode f) = 0x42"
  by (simp add: encode_def encode_header_def)

lemma file_frames_ne: "file_frames n i q d \<noteq> []"
  by (subst file_frames.simps) (simp add: Let_def)

text \<open>
  The loop takes the frames that are complete: it delivers the file, or goes on with what is left
  of it, the start of the next frame in the buffer.
\<close>

lemma frame_loop_upload:
  assumes e: "env_good sha e" and n: "0 < n" "n \<le> 16384"
    and len: "length content = unat (tr_expected_size t0)" "tr_expected_size t0 \<le> max_transfer_size"
    and sha: "tr_expected_sha256 t0 = sha256_to_hex (sha content)"
  shows "uploading t0 calls got q buf s \<Longrightarrow> got @ rem = content \<Longrightarrow>
    buf @ rest = frames_bytes (file_frames n (tr_request_id t0) q rem) \<Longrightarrow>
    (rest = [] \<and> delivered t0 calls content [] (frame_loop e s)) \<or>
    (rest \<noteq> [] \<and> (\<exists>got' q' buf' rem'. uploading t0 calls got' q' buf' (frame_loop e s) \<and> got' @ rem' = content \<and>
      buf' @ rest = frames_bytes (file_frames n (tr_request_id t0) q' rem')))"
proof (induction "length rem" arbitrary: got q buf s rem rule: less_induct)
  case less
  let ?i = "tr_request_id t0"
  obtain f fs where ff: "file_frames n ?i q rem = f # fs"
    by (cases "file_frames n ?i q rem") (auto simp: file_frames_ne)
  have ok: "frame_ok frame_payload_size f"
    using file_frames_ok [of n frame_payload_size f ?i q rem] ff n by (simp add: frame_payload_size_def)
  have tr: "u_transfer s \<noteq> None" and pb: "u_parser s = buf" using less.prems(1) by (auto simp: uploading_def)
  from less.prems(3) have all: "buf @ rest = encode f @ frames_bytes fs" by (simp add: ff frames_bytes_def)
  show ?case
  proof (cases "length buf < length (encode f)")
    case True
    then have "buf @ drop (length buf) (encode f) = encode f"
      using all by (metis append_eq_append_conv_if append_take_drop_id less_imp_le)
    then have "parse_next frame_payload_size buf = (Inr None, buf)"
      using parse_incomplete [OF ok] True by (metis drop_eq_Nil not_le)
    then have "frame_loop e s = s" using tr pb by (subst frame_loop.simps) simp
    moreover have "rest \<noteq> []" using all True by auto
    ultimately show ?thesis using less.prems by metis
  next
    case False
    define buf' where "buf' = drop (length (encode f)) buf"
    have "take (length (encode f)) buf = take (length (encode f)) (buf @ rest)" using False by simp
    also have "\<dots> = encode f" unfolding all by simp
    finally have b: "buf = encode f @ buf'" unfolding buf'_def by (metis append_take_drop_id)
    then have b': "buf' @ rest = frames_bytes fs" using all by simp
    let ?s = "s\<lparr>u_parser := buf'\<rparr>"
    have step: "frame_loop e s = frame_loop e (handle_frame e f ?s)"
      using tr pb parse_encode [OF ok] b by (subst frame_loop.simps) auto
    have up: "uploading t0 calls got q buf' ?s" using less.prems(1) by (simp add: uploading_def)
    show ?thesis
    proof (cases "take n rem = []")
      case True
      then have r: "rem = []" using n by simp
      have f: "bf_type f = FrameEnd" "bf_request_id f = ?i" "bf_sequence f = q" "fs = []"
        using ff True by (auto simp: file_frames.simps [of n ?i q rem])
      have d: "delivered t0 calls content buf' (handle_frame e f ?s)"
        using end_step [OF e _ f(1-3) len(1) sha] up less.prems(2) r by simp
      have "buf' = []" "rest = []" using b' f by (auto simp: frames_bytes_def)
      moreover have "frame_loop e (handle_frame e f ?s) = handle_frame e f ?s"
        using d by (subst frame_loop.simps) (simp add: delivered_def)
      ultimately show ?thesis using d step by simp
    next
      case False
      have f: "bf_type f = FrameData" "bf_request_id f = ?i" "bf_sequence f = q" "bf_payload f = take n rem"
        "fs = file_frames n ?i (q + 1) (drop n rem)"
        using ff False by (auto simp: file_frames.simps [of n ?i q rem] Let_def)
      have "length got + length (take n rem) \<le> unat (tr_expected_size t0)"
        using less.prems(2) len(1) by auto
      then have "uploading t0 calls (got @ take n rem) (q + 1) buf' (handle_frame e f ?s)"
        using data_step [OF e up f(1-3)] f(4) False n len(2) by simp
      then show ?thesis
        unfolding step using less.hyps [of "drop n rem"] False n less.prems(2) b' f(5) by simp
    qed
  qed
qed

text \<open>No piece of an upload looks like the line that aborts it.\<close>

lemma frames_bytes_hd: "fs \<noteq> [] \<Longrightarrow> hd (frames_bytes fs) = 0x42 \<and> frames_bytes fs \<noteq> []"
  by (cases fs) (simp_all add: frames_bytes_def)

lemma receive_upload:
  assumes e: "env_good sha e" and n: "0 < n" "n \<le> 16384"
    and len: "length content = unat (tr_expected_size t0)" "tr_expected_size t0 \<le> max_transfer_size"
    and sha: "tr_expected_sha256 t0 = sha256_to_hex (sha content)"
    and s: "uploading t0 calls got q buf s" "got @ rem = content"
    and bytes: "buf @ m @ rest = frames_bytes (file_frames n (tr_request_id t0) q rem)"
  shows "(rest = [] \<and> delivered t0 calls content [] (receive e m s)) \<or>
    (rest \<noteq> [] \<and> (\<exists>got' q' buf' rem'. uploading t0 calls got' q' buf' (receive e m s) \<and> got' @ rem' = content \<and>
      buf' @ rest = frames_bytes (file_frames n (tr_request_id t0) q' rem')))"
proof -
  have "abort_line e (s\<lparr>u_rx_buffer := m\<rparr>) = None"
  proof (cases "buf = [] \<and> m \<noteq> []")
    case True
    then have "hd m = 0x42"
      using frames_bytes_hd [OF file_frames_ne, of n "tr_request_id t0" q rem] bytes by (metis append_Nil hd_append2)
    then show ?thesis by (simp add: abort_line_def)
  next
    case False
    then show ?thesis using s by (auto simp: abort_line_def uploading_def)
  qed
  moreover have eq: "s\<lparr>u_parser := buf @ m, u_rx_buffer := []\<rparr> = s\<lparr>u_parser := buf @ m\<rparr>"
    using s by (cases s) (simp add: uploading_def)
  moreover have "u_transfer s \<noteq> None" "u_rx_buffer s = []" "u_parser s = buf" using s by (auto simp: uploading_def)
  ultimately have "receive e m s = frame_loop e (s\<lparr>u_parser := buf @ m, u_rx_buffer := []\<rparr>)"
    by (simp add: receive_def process_rx_buffer_def parser_append_def)
  then have r: "receive e m s = frame_loop e (s\<lparr>u_parser := buf @ m\<rparr>)" unfolding eq .
  have "uploading t0 calls got q (buf @ m) (s\<lparr>u_parser := buf @ m\<rparr>)" using s by (simp add: uploading_def)
  from frame_loop_upload [OF e n len sha this s(2)] bytes show ?thesis unfolding r by simp
qed

definition receive_all :: "(usb_env \<times> u8 list) list \<Rightarrow> usb \<Rightarrow> usb" where
  "receive_all ms s = fold (\<lambda>(e, m). receive e m) ms s"

lemma receive_all_upload:
  assumes n: "0 < n" "n \<le> 16384"
    and len: "length content = unat (tr_expected_size t0)" "tr_expected_size t0 \<le> max_transfer_size"
    and sha: "tr_expected_sha256 t0 = sha256_to_hex (sha content)"
  shows "list_all (\<lambda>(e, m). env_good sha e \<and> m \<noteq> []) ms \<Longrightarrow> uploading t0 calls got q buf s \<Longrightarrow> got @ rem = content \<Longrightarrow>
    buf @ concat (map snd ms) = frames_bytes (file_frames n (tr_request_id t0) q rem) \<Longrightarrow> ms \<noteq> [] \<Longrightarrow>
    delivered t0 calls content [] (receive_all ms s)"
proof (induction ms arbitrary: got q buf s rem)
  case (Cons x ms)
  obtain e m where x: "x = (e, m)" by (cases x)
  have e: "env_good sha e" using Cons.prems(1) by (simp add: x)
  have bytes: "buf @ m @ concat (map snd ms) = frames_bytes (file_frames n (tr_request_id t0) q rem)"
    using Cons.prems(4) by (simp add: x)
  have all: "receive_all (x # ms) s = receive_all ms (receive e m s)" by (simp add: receive_all_def x)
  have tail: "concat (map snd ms) = [] \<Longrightarrow> ms = []" using Cons.prems(1) by (cases ms) auto
  from receive_upload [OF e n len sha Cons.prems(2,3) bytes] show ?case
  proof (elim disjE conjE exE)
    assume "concat (map snd ms) = []" and d: "delivered t0 calls content [] (receive e m s)"
    then have "ms = []" using tail by blast
    then show ?thesis using d all by (simp add: receive_all_def)
  next
    fix got' q' buf' rem'
    assume r: "concat (map snd ms) \<noteq> []" and u: "uploading t0 calls got' q' buf' (receive e m s)" "got' @ rem' = content"
      "buf' @ concat (map snd ms) = frames_bytes (file_frames n (tr_request_id t0) q' rem')"
    have "ms \<noteq> []" using r by auto
    then show ?thesis unfolding all using Cons.IH [OF _ u] Cons.prems(1) by simp
  qed
qed simp

section \<open>Properties\<close>

lemma iter_file_frames_encode:
  assumes "n \<le> 16384"
  shows "iter_file_frames n i d = map (\<lambda>f. Inr (encode f)) (file_frames n i 0 d)"
proof -
  have "encode_frame f = Inr (encode f)" if "f \<in> set (file_frames n i 0 d)" for f
  proof -
    have "frame_ok 16384 f" using file_frames_ok [OF _ _ that, of 16384] assms by simp
    then have "encode_frame f = Inr (py_header f @ u32_le (py_crc32 (py_header f)) @ bf_payload f)"
      by (auto simp: encode_frame_def frame_ok_def max_frame_payload_def)
    then show ?thesis using encode_frame_encode by metis
  qed
  then show ?thesis by (simp add: iter_file_frames_def)
qed

lemma begin_uploading:
  assumes "u_transfer s = None" "u_bridge s" "u_rx_buffer s = []"
    and "e_mkdir_ok e" "e_open e = Inr ()" "e_md_setup_ok e"
    and "get_unsigned p ''size'' = Some n" "get_string p ''sha256'' = Some h" "is_hex_sha256 h" "n \<le> max_transfer_size"
    and "(if c = PutFile then put_destination e p else Inr ([], False)) = Inr (dest, ow)"
  shows "\<exists>t0. uploading t0 (bridge_calls s) [] 0 [] (begin_transfer e i c p s) \<and> tr_command t0 = c \<and>
    tr_request_id t0 = i \<and> tr_destination t0 = dest \<and> tr_expected_size t0 = n \<and>
    tr_expected_sha256 t0 = lower_copy h \<and> tr_overwrite t0 = ow \<and> tr_temporary_path t0 = temporary_path_of i"
proof -
  let ?t = "\<lparr>tr_command = c, tr_request_id = i, tr_expected_size = n, tr_received_size = 0, tr_expected_sequence = 0,
    tr_overwrite = ow, tr_destination = dest, tr_expected_sha256 = lower_copy h,
    tr_temporary_path = temporary_path_of i, tr_open = True, tr_hashed = [], tr_last_activity = e_now e\<rparr>"
  show ?thesis
    using assms by (intro exI [of _ ?t]) (auto simp: begin_transfer_def Let_def uploading_def got_so_far_def not_less)
qed

text \<open>C8: From the put to the bridge: after a transfer was accepted, the frames the host tool makes
  of the file, received in any pieces and over any number of pumps, end in exactly one call of the
  bridge, with the declared artifact and a temporary file that holds the file's bytes; the transfer
  is completed and gone. Calls outside succeed, though a write may write only a part.\<close>

theorem upload_delivers_file:
  assumes "u_transfer s = None" "u_bridge s" "u_rx_buffer s = []"
    and "e_mkdir_ok e" "e_open e = Inr ()" "e_md_setup_ok e"
    and "get_unsigned p ''size'' = Some (of_nat (length content))" "length content \<le> 8388608"
    and "get_string p ''sha256'' = Some h" "is_hex_sha256 h" "lower_copy h = sha256_to_hex (sha content)"
    and "(if c = PutFile then put_destination e p else Inr ([], False)) = Inr (dest, ow)"
    and "0 < n" "n \<le> 16384" "iter_file_frames n i content = map Inr bss"
    and "list_all (\<lambda>(e, m). env_good sha e \<and> m \<noteq> []) ms" "concat (map snd ms) = concat bss"
    and "s' = receive_all ms (begin_transfer e i c p s)"
  shows "u_transfer s' = None \<and> ts_state (u_transfer_status s') = Completed \<and>
    bridge_calls s' = bridge_calls s @ [Bridged c \<lparr>ta_command = c, ta_request_id = i,
      ta_temporary_path = temporary_path_of i, ta_size = of_nat (length content),
      ta_sha256 = sha256_to_hex (sha content), ta_overwrite = ow\<rparr> dest (Some content)]"
proof -
  let ?n = "of_nat (length content) :: u64"
  have un: "unat ?n = length content" using assms(8) unat_of_nat_small [of "length content", where 'a = 64] by simp
  then have max: "?n \<le> max_transfer_size" using assms(8) by (simp add: max_transfer_size_def word_le_nat_alt)
  obtain t0 where t0: "uploading t0 (bridge_calls s) [] 0 [] (begin_transfer e i c p s)"
    and f: "tr_command t0 = c" "tr_request_id t0 = i" "tr_destination t0 = dest" "tr_expected_size t0 = ?n"
      "tr_expected_sha256 t0 = lower_copy h" "tr_overwrite t0 = ow" "tr_temporary_path t0 = temporary_path_of i"
    using begin_uploading [OF assms(1-7) assms(9,10) max assms(12)] by blast
  have "map Inr bss = (map Inr (map encode (file_frames n i 0 content)) :: u8 list expected list)"
    using assms(14,15) iter_file_frames_encode by (simp add: comp_def)
  then have bytes: "concat bss = frames_bytes (file_frames n i 0 content)"
    unfolding frames_bytes_def by (metis inj_map_eq_map inj_Inr)
  then have "ms \<noteq> []" using assms(17) frames_bytes_hd [OF file_frames_ne, of n i 0 content] by auto
  then have "delivered t0 (bridge_calls s) content [] s'"
    unfolding assms(18)
    using receive_all_upload [OF assms(13,14) _ _ _ assms(16) t0, of content content] f un max assms(11,17) bytes by simp
  then show ?thesis using f assms(11) by (simp add: delivered_def artifact_of_def)
qed

text \<open>A sample environment: the line \<open>h\<close> is a hello, any other a put of an empty file.\<close>

definition sample_sha :: "u8 list \<Rightarrow> u8 list" where
  "sample_sha b = replicate 32 0"

definition sample_put :: "u64 \<Rightarrow> json_object" where
  "sample_put n = [(''version'', JInt64 1), (''op'', JString ''put''), (''request_id'', JUint64 7),
     (''size'', JUint64 n), (''sha256'', JString (sha256_to_hex (sample_sha []))), (''path'', JString ''a.txt'')]"

definition sample_hello :: json_object where
  "sample_hello = [(''version'', JInt64 1), (''op'', JString ''hello''), (''request_id'', JUint64 1)]"

definition sample_env :: "u8 list \<Rightarrow> usb_env" where
  "sample_env m = \<lparr>e_now = 0, e_scheduler = True, e_queue_ok = True, e_install_ok = True, e_post_ok = True,
     e_transport = ''serial_jtag'', e_connected = True, e_read = (\<lambda>k. if k = 0 then m else []),
     e_parse = (\<lambda>line. Inr (JObject (if line = [0x68] then sample_hello else sample_put 0))),
     e_symlink = (\<lambda>p. Some False), e_exists = (\<lambda>f. Some False), e_mkdir_ok = True, e_open = Inr (),
     e_md_setup_ok = True, e_md_update_ok = (\<lambda>b. True), e_sha256 = (\<lambda>b. Some (sample_sha b)),
     e_write = (\<lambda>n k. min 3 (int k)), e_write_error = ''error'', e_remove_ok = True,
     e_bridge = (\<lambda>c a d fs. (Inr (), fs)), e_call = (\<lambda>s f a t. Inr JNull),
     e_status_json = (\<lambda>s. JNull), e_transfer_json = (\<lambda>s. JNull)\<rparr>"

lemma sample_env_good: "env_good sample_sha (sample_env m)" "env_ok sample_sha (sample_env m)"
  by (simp_all add: env_good_def env_ok_def sample_env_def)

lemma sample_digest [simp]:
  "is_hex_sha256 (sha256_to_hex (sample_sha b))" "lower_copy (sha256_to_hex (sample_sha b)) = sha256_to_hex (sample_sha b)"
  by (simp_all add: sample_sha_def sha256_to_hex_def hex_digit_def is_hex_sha256_def lower_copy_def is_xdigit_def
      to_lower_def numeral_eq_Suc)

lemma sample_destination: "put_destination (sample_env m) (sample_put n) = Inr (''/littlefs/usb/a.txt'', False)"
  by (simp add: put_destination_def sample_put_def get_string_def get_bool_or_default_def validate_upload_path_def
      sample_env_def path_has_parent_reference_def path_is_same_or_child_def path_contains_symlink_def
      path_of_def [of "''a.txt''"] is_absolute_text_def is_absolute_def relative_path_def lexically_normal_def
      normal_step_def generic_string_def)

definition sample_state :: usb where
  "sample_state = (usb_initial 2 Map.empty)\<lparr>u_bridge := True\<rparr>"

theorem upload_delivers_file_witness:
  "\<exists>s'. u_transfer s' = None \<and> ts_state (u_transfer_status s') = Completed \<and>
    bridge_calls s' = [Bridged PutFile \<lparr>ta_command = PutFile, ta_request_id = 7,
      ta_temporary_path = temporary_path_of 7, ta_size = 5, ta_sha256 = sha256_to_hex (sample_sha [1, 2, 3, 4, 5]),
      ta_overwrite = False\<rparr> ''/littlefs/usb/a.txt'' (Some [1, 2, 3, 4, 5])]"
proof -
  let ?d = "[1, 2, 3, 4, 5] :: u8 list"
  let ?fs = "file_frames 2 7 0 ?d"
  have sha: "sha256_to_hex (sample_sha []) = sha256_to_hex (sample_sha ?d)" by (simp add: sample_sha_def)
  have p: "get_unsigned (sample_put 5) ''size'' = Some (of_nat (length ?d))"
    "get_string (sample_put 5) ''sha256'' = Some (sha256_to_hex (sample_sha ?d))"
    by (simp_all add: get_unsigned_def get_string_def sample_put_def sha)
  have e: "e_mkdir_ok (sample_env [])" "e_open (sample_env []) = Inr ()" "e_md_setup_ok (sample_env [])"
    by (simp_all add: sample_env_def)
  have s: "u_transfer sample_state = None" "u_bridge sample_state" "u_rx_buffer sample_state = []"
    "bridge_calls sample_state = []"
    by (simp_all add: sample_state_def usb_initial_def bridge_calls_def)
  have ms: "list_all (\<lambda>(e, m). env_good sample_sha e \<and> m \<noteq> []) (map (\<lambda>f. (sample_env [], encode f)) ?fs)"
    by (auto simp: list_all_iff sample_env_good)
  show ?thesis
    using upload_delivers_file [OF s(1-3) e p(1) _ p(2) _ _ _ _ _ _ ms _ refl,
        of PutFile "''/littlefs/usb/a.txt''" False 2 7 "map encode ?fs"]
    by (auto simp: s(4) sample_destination iter_file_frames_encode comp_def intro!: exI)
qed


text \<open>A run of a session: start, hello, put, the frames.\<close>

definition sample_session :: usb where
  "sample_session = pump_rx_queue (sample_env [0x68, 0x0A])
     (snd (register_bridge True (snd (usb_on_start (sample_env []) (usb_initial 2 Map.empty)))))"

definition sample_receiving :: usb where
  "sample_receiving = pump_rx_queue (sample_env [0x70, 0x0A]) sample_session"

definition sample_frames :: "u8 list" where
  "sample_frames = frames_bytes (file_frames 16 7 0 [])"

definition sample_done :: usb where
  "sample_done = pump_rx_queue (sample_env sample_frames) sample_receiving"

lemma sample_reachable:
  "usb_reachable 2 sample_sha sample_session" "usb_reachable 2 sample_sha sample_done"
proof -
  show "usb_reachable 2 sample_sha sample_session"
    unfolding sample_session_def
    by (intro usb_reachable.pump usb_reachable.bridge usb_reachable.start usb_reachable.initial sample_env_good)
      (simp add: usb_initial_def)
  then show "usb_reachable 2 sample_sha sample_done"
    unfolding sample_done_def sample_receiving_def by (intro usb_reachable.pump sample_env_good)
qed

lemma sample_poll:
  "0 < length m \<Longrightarrow> length m \<le> 512 \<Longrightarrow> u_rx_queue s = Some [] \<Longrightarrow>
   poll_transport (sample_env m) s = s\<lparr>u_rx_queue := Some [m]\<rparr>"
  by (simp add: poll_transport_def transport_read_budget_def numeral_eq_Suc transport_read_size_def sample_env_def
      rx_queue_length_def)

lemma sample_pump:
  assumes "us_connected (u_status s)" "\<not> u_disconnect_pending s" "u_rx_queue s = Some []"
    and "u_session_last_activity s = 0" "0 < length m" "length m \<le> 512"
  shows "pump_rx_queue (sample_env m) s = receive (sample_env m) m s"
proof -
  have e: "e_connected (sample_env m)" "e_now (sample_env m) = 0" by (simp_all add: sample_env_def)
  have up: "update_connection_state (sample_env m) s = s"
    using assms e by (simp add: update_connection_state_def Let_def)
  have dp: "s\<lparr>u_disconnect_pending := False\<rparr> = s" using assms(2) by (cases s) simp
  have t: "check_session_timeout (sample_env m) (check_transfer_timeout (sample_env m) s) = s"
    using e by (simp add: check_transfer_timeout_def check_session_timeout_def split: option.split)
  have q: "s\<lparr>u_rx_queue := Some []\<rparr> = s" using assms(3) by (cases s) simp
  show ?thesis
    using assms by (simp add: pump_rx_queue_def Let_def up dp t sample_poll drain_queue.simps [of _ "_\<lparr>u_rx_queue := _\<rparr>"]
        receive_queue q drain_queue.simps [of _ "receive _ _ _"])
qed

lemma sample_lines:
  "parse_command_line (sample_env m) [0x68] = Inr sample_hello"
  "parse_command_line (sample_env m) [0x70] = Inr (sample_put 0)"
  by (simp_all add: parse_command_line_def sample_env_def)

lemma sample_fields:
  "get_unsigned sample_hello ''request_id'' = Some 1" "get_string sample_hello ''op'' = Some ''hello''"
  "get_unsigned sample_hello ''version'' = Some 1" "get_unsigned (sample_put n) ''request_id'' = Some 7"
  "get_string (sample_put n) ''op'' = Some ''put''" "get_unsigned (sample_put n) ''version'' = Some 1"
  "get_unsigned (sample_put n) ''size'' = Some n"
  "get_string (sample_put n) ''sha256'' = Some (sha256_to_hex (sample_sha []))"
  by (simp_all add: sample_hello_def sample_put_def get_unsigned_def get_string_def)

lemma sample_session_fields:
  "u_transfer sample_session = None" "u_bridge sample_session" "u_rx_buffer sample_session = []"
  "us_connected (u_status sample_session)" "\<not> u_disconnect_pending sample_session"
  "u_rx_queue sample_session = Some []" "u_session_last_activity sample_session = 0"
  "is_control_session_active sample_session" "u_request_ids sample_session = {1}" "bridge_calls sample_session = []"
proof -
  let ?s = "snd (register_bridge True (snd (usb_on_start (sample_env []) (usb_initial 2 Map.empty))))"
  have a: "us_connected (u_status ?s)" "\<not> u_disconnect_pending ?s" "u_rx_queue ?s = Some []" "u_session_last_activity ?s = 0"
    "u_transfer ?s = None" "u_request_ids ?s = {}" "u_bridge ?s" "\<not> is_control_session_active ?s" "u_rx_buffer ?s = []"
    "bridge_calls ?s = []" "\<not> u_log_suppressed ?s"
    by (simp_all add: register_bridge_def usb_on_start_def usb_start_def mark_starting_def usb_initial_def Let_def
        sample_env_def usb_out_defs is_control_session_active_def bridge_calls_def)
  have r: "sample_session = receive (sample_env [0x68, 0x0A]) [0x68, 0x0A] ?s"
    unfolding sample_session_def by (rule sample_pump) (simp_all add: a)
  have "receive (sample_env m) [0x68, 0x0A] s = handle_hello (sample_env m) 1 (s\<lparr>u_rx_buffer := [], u_request_ids := {1}\<rparr>)"
    if "u_transfer s = None" "u_rx_buffer s = []" "u_request_ids s = {}" "\<not> is_control_session_active s" for m s
    using that
    by (simp add: receive_def process_rx_buffer_def line_loop.simps [of _ "s\<lparr>u_rx_buffer := _\<rparr>"] next_line_def sample_lines
        handle_command_def sample_fields new_command_def)
       (simp add: line_loop.simps handle_hello_def is_control_session_active_def activate_control_session_def Let_def
        command_buffer_limit_def)
  then have eq: "sample_session = handle_hello (sample_env [0x68, 0x0A]) 1 (?s\<lparr>u_rx_buffer := [], u_request_ids := {1}\<rparr>)"
    unfolding r using a by blast
  note h = handle_hello_def activate_control_session_def Let_def usb_out_defs is_control_session_active_def
    sample_env_def bridge_calls_def
  show "u_transfer sample_session = None" "u_bridge sample_session" "u_rx_buffer sample_session = []"
    "us_connected (u_status sample_session)" "\<not> u_disconnect_pending sample_session"
    "u_rx_queue sample_session = Some []" "u_session_last_activity sample_session = 0"
    "is_control_session_active sample_session" "u_request_ids sample_session = {1}" "bridge_calls sample_session = []"
    unfolding eq using a by (simp_all add: h)
qed

lemma begin_fields:
  "us_connected (u_status (begin_transfer e i c p s)) = us_connected (u_status s)"
  "u_disconnect_pending (begin_transfer e i c p s) = u_disconnect_pending s"
  "u_rx_queue (begin_transfer e i c p s) = u_rx_queue s"
  "u_session_last_activity (begin_transfer e i c p s) = u_session_last_activity s"
  by (simp_all add: begin_transfer_def Let_def usb_out_defs remove_file_def split: option.split sum.split prod.split)

lemma sample_receiving_fields:
  "\<exists>t0. uploading t0 [] [] 0 [] sample_receiving \<and> tr_command t0 = PutFile \<and> tr_request_id t0 = 7 \<and>
    tr_destination t0 = ''/littlefs/usb/a.txt'' \<and> tr_expected_size t0 = 0 \<and>
    tr_expected_sha256 t0 = sha256_to_hex (sample_sha [])"
  "us_connected (u_status sample_receiving)" "\<not> u_disconnect_pending sample_receiving"
  "u_rx_queue sample_receiving = Some []" "u_session_last_activity sample_receiving = 0"
proof -
  let ?e = "sample_env [0x70, 0x0A]"
  let ?s = "sample_session\<lparr>u_rx_buffer := [], u_request_ids := {7, 1}, u_session_last_activity := 0\<rparr>"
  note f = sample_session_fields
  have r: "sample_receiving = receive ?e [0x70, 0x0A] sample_session"
    unfolding sample_receiving_def using f by (intro sample_pump) simp_all
  have now: "e_now ?e = 0" by (simp add: sample_env_def)
  have act: "is_control_session_active (sample_session\<lparr>u_rx_buffer := [], u_request_ids := {7, 1}\<rparr>)"
    using f by (simp add: is_control_session_active_def)
  have cmd: "handle_command ?e (sample_put 0) (sample_session\<lparr>u_rx_buffer := []\<rparr>) = begin_transfer ?e 7 PutFile (sample_put 0) ?s"
    using f act by (simp add: handle_command_def sample_fields new_command_def session_command_def now)
  obtain t0 where t0: "uploading t0 [] [] 0 [] (begin_transfer ?e 7 PutFile (sample_put 0) ?s)"
    "tr_command t0 = PutFile" "tr_request_id t0 = 7" "tr_destination t0 = ''/littlefs/usb/a.txt''" "tr_expected_size t0 = 0"
    "tr_expected_sha256 t0 = sha256_to_hex (sample_sha [])"
  proof -
    have b: "bridge_calls ?s = []" "e_mkdir_ok ?e" "e_open ?e = Inr ()" "e_md_setup_ok ?e"
      using f by (simp_all add: bridge_calls_def sample_env_def)
    show ?thesis
      using begin_uploading [of ?s ?e "sample_put 0" 0 "sha256_to_hex (sample_sha [])" PutFile "''/littlefs/usb/a.txt''" False 7]
        f b that by (auto simp: sample_fields sample_destination)
  qed
  have "receive ?e [0x70, 0x0A] sample_session = begin_transfer ?e 7 PutFile (sample_put 0) ?s"
    using f t0(1)
    by (simp add: receive_def process_rx_buffer_def line_loop.simps [of _ "sample_session\<lparr>u_rx_buffer := _\<rparr>"]
        next_line_def sample_lines cmd) (auto simp: uploading_def)
  with r have eq: "sample_receiving = begin_transfer ?e 7 PutFile (sample_put 0) ?s" by simp
  show "\<exists>t0. uploading t0 [] [] 0 [] sample_receiving \<and> tr_command t0 = PutFile \<and> tr_request_id t0 = 7 \<and>
    tr_destination t0 = ''/littlefs/usb/a.txt'' \<and> tr_expected_size t0 = 0 \<and>
    tr_expected_sha256 t0 = sha256_to_hex (sample_sha [])" unfolding eq using t0 by blast
  show "us_connected (u_status sample_receiving)" "\<not> u_disconnect_pending sample_receiving"
    "u_rx_queue sample_receiving = Some []" "u_session_last_activity sample_receiving = 0"
    unfolding eq begin_fields using f by simp_all
qed


text \<open>In every reachable state outside a session the log handler is the one the service found, and
  the status says that logs are not suppressed.\<close>

theorem logs_restored:
  assumes "usb_reachable v sha s" "\<not> is_control_session_active s"
  shows "u_vprintf s = v \<and> \<not> us_logs_suppressed (u_status s)"
  using reachable_inv [OF assms(1)] assms(2) by (auto simp: usb_inv_def usb_ok_defs)

theorem logs_restored_witness:
  "is_control_session_active sample_session \<and> u_vprintf (usb_stop (sample_env []) sample_session) = 2"
proof -
  have "\<not> is_control_session_active (usb_stop (sample_env []) sample_session)"
    by (simp add: usb_stop_def Let_def is_control_session_active_def)
  then show ?thesis
    using logs_restored [OF usb_reachable.stop [OF sample_reachable(1)], of "sample_env []"] sample_session_fields by simp
qed

lemma stop_keeps_request_ids: "u_request_ids (usb_stop e s) = u_request_ids s"
  by (auto simp: usb_stop_def Let_def release_log_suppression_def abort_transfer_internal_def remove_file_def usb_out_defs
      split: option.split)

lemma start_keeps_request_ids: "usb_on_start e s = (True, s') \<Longrightarrow> u_request_ids s' = u_request_ids s"
  by (auto simp: usb_on_start_def usb_start_def mark_starting_def Let_def usb_out_defs split: if_splits)

text \<open>Stopping the service does not forget the request numbers of the session it ends: after a
  restart a hello under a number used before is refused and no session starts.\<close>

theorem restart_refuses_used_request_id:
  assumes "usb_on_start e (usb_stop e' s) = (True, s1)" "i \<in> u_request_ids s"
    and "get_unsigned c ''request_id'' = Some (ucast i)" "get_string c ''op'' = Some ''hello''"
      "get_unsigned c ''version'' = Some 1"
  shows "handle_command e'' c s1 = send_error i ''invalid_command'' ''request_id has already been used'' s1"
proof -
  have "i \<in> u_request_ids s1" using start_keeps_request_ids [OF assms(1)] stop_keeps_request_ids assms(2) by simp
  moreover have "ucast (ucast i :: u64) = i" by (rule bit_word_eqI) (simp add: bit_simps)
  moreover have "\<not> 0xFFFFFFFF < (ucast i :: u64)"
  proof -
    have "unat i < 2 ^ 32" using unsigned_less [of i] by simp
    moreover from this have "unat (ucast i :: u64) = unat i" by (simp add: unsigned_ucast_eq take_bit_nat_eq_self)
    ultimately show ?thesis by (simp add: word_less_nat_alt)
  qed
  ultimately show ?thesis using assms by (simp add: handle_command_def)
qed

theorem restart_refuses_used_request_id_witness:
  "handle_command (sample_env []) sample_hello (snd (usb_on_start (sample_env []) (usb_stop (sample_env []) sample_session)))
    = send_error 1 ''invalid_command'' ''request_id has already been used''
        (snd (usb_on_start (sample_env []) (usb_stop (sample_env []) sample_session)))"
proof -
  have "fst (usb_on_start (sample_env []) s)" for s
    by (simp add: usb_on_start_def usb_start_def sample_env_def Let_def)
  then have "usb_on_start (sample_env []) (usb_stop (sample_env []) sample_session) =
      (True, snd (usb_on_start (sample_env []) (usb_stop (sample_env []) sample_session)))"
    by (simp add: prod_eq_iff)
  from restart_refuses_used_request_id [OF this, of 1 sample_hello] show ?thesis
    by (simp add: sample_session_fields sample_fields)
qed

text \<open>C33: A frame the host tool encodes is parsed back unchanged and leaves exactly the bytes after it.\<close>

theorem frame_roundtrip:
  assumes "encode_frame f = Inr bs" "bf_version f = protocol_version"
  shows "parse_next frame_payload_size (bs @ r) = (Inr (Some f), r)"
proof -
  have "frame_ok frame_payload_size f"
    using assms by (auto simp: frame_ok_def encode_frame_def max_frame_payload_def frame_payload_size_def split: if_splits)
  then show ?thesis using parse_encode encode_frame_encode [OF assms(1)] by simp
qed

theorem frame_roundtrip_witness:
  "\<exists>bs. parse_next frame_payload_size (bs @ [1, 2]) = (Inr (Some \<lparr>bf_type = FrameData, bf_version = 1, bf_request_id = 7,
     bf_sequence = 3, bf_payload = [0x61]\<rparr>), [1, 2])"
proof -
  let ?f = "\<lparr>bf_type = FrameData, bf_version = 1, bf_request_id = 7, bf_sequence = 3, bf_payload = [0x61]\<rparr>"
  obtain bs where "encode_frame ?f = Inr bs" by (simp add: encode_frame_def max_frame_payload_def)
  then show ?thesis using frame_roundtrip [of ?f bs "[1, 2]"] by (auto simp: protocol_version_def)
qed

text \<open>Bounds of the parser: a frame it returns is cut out of the buffer, 24 bytes of header, then its
  payload of at most the maximum, then what stays in the buffer; the 32-bit frame size does not wrap
  for any maximum below 2^32 - 24.\<close>

theorem parser_bounds:
  assumes "parse_next mp buf = (Inr (Some f), r)" "unat mp < 2 ^ 32 - 24"
  shows "\<exists>h. buf = h @ bf_payload f @ r \<and> length h = 24 \<and> length (bf_payload f) \<le> unat mp"
  using parse_next_split [OF assms] by (metis length_take min.absorb2)

theorem parser_bounds_witness:
  "\<exists>f h. parse_next 16384 sample_frames = (Inr (Some f), []) \<and> sample_frames = h @ bf_payload f \<and> length h = 24"
proof -
  let ?f = "\<lparr>bf_type = FrameEnd, bf_version = protocol_version, bf_request_id = 7, bf_sequence = 0, bf_payload = []\<rparr>"
  have "sample_frames = encode ?f @ []"
    by (simp add: sample_frames_def frames_bytes_def file_frames.simps [of _ _ _ "[]"])
  moreover have "frame_ok 16384 ?f" by (simp add: frame_ok_def)
  ultimately have p: "parse_next 16384 sample_frames = (Inr (Some ?f), [])" using parse_encode by metis
  show ?thesis using parser_bounds [OF p] p by auto
qed

end
