(* ===== verification/Zip_Archive.thy ===== *)
theory Zip_Archive
  imports Json
begin

text \<open>
  The ZIP reader of app packages (\<open>system_core/src/app/package.cpp\<close>, lines 121 to 285; the release
  check has a copy of it in \<open>package_release_verify.cpp\<close>, lines 90 to 259).

  An archive is the list of its bytes, an offset a \<open>nat\<close>: every sum stays below the size of the archive
  plus 200000. A read is \<open>None\<close> when it is out of range, which C++ leaves undefined: an
  \<open>'a option\<close> here says whether the code stays inside the archive, the \<open>expected\<close> inside it is the
  code's own result. Inflating is a parameter: the bytes a raw deflate stream decodes to, if it is one.
\<close>

section \<open>Reads\<close>

definition read_byte :: "u8 list \<Rightarrow> nat \<Rightarrow> u8 option" where
  "read_byte d i = (if i < length d then Some (d ! i) else None)"

definition check_range :: "nat \<Rightarrow> nat \<Rightarrow> nat \<Rightarrow> bool" where
  "check_range off n avail \<longleftrightarrow> off \<le> avail \<and> n \<le> avail - off"

definition zip_u16 :: "u8 list \<Rightarrow> nat \<Rightarrow> nat option" where
  "zip_u16 d off =
     Option.bind (read_byte d off) (\<lambda>a. Option.bind (read_byte d (off + 1)) (\<lambda>b.
       Some (unat a + 256 * unat b)))"

definition zip_u32 :: "u8 list \<Rightarrow> nat \<Rightarrow> nat option" where
  "zip_u32 d off =
     Option.bind (zip_u16 d off) (\<lambda>a. Option.bind (zip_u16 d (off + 2)) (\<lambda>b. Some (a + 65536 * b)))"

text \<open>The bytes from \<open>off\<close>, \<open>n\<close> of them.\<close>

definition read_span :: "u8 list \<Rightarrow> nat \<Rightarrow> nat \<Rightarrow> u8 list option" where
  "read_span d off n = (if off + n \<le> length d then Some (take n (drop off d)) else None)"

section \<open>The central directory\<close>

record zip_entry =
  ze_name :: string
  ze_method :: nat
  ze_flags :: nat
  ze_compressed_size :: nat
  ze_uncompressed_size :: nat
  ze_local_header :: nat
  ze_is_directory :: bool

definition eocd_signature :: nat where "eocd_signature = 0x06054b50"
definition central_signature :: nat where "central_signature = 0x02014b50"
definition local_signature :: nat where "local_signature = 0x04034b50"

fun find_eocd_from :: "u8 list \<Rightarrow> nat \<Rightarrow> nat \<Rightarrow> nat option option" where
  "find_eocd_from d min_offset off =
     (if off < min_offset then Some None
      else if \<not> check_range off 4 (length d) then Some None
      else Option.bind (zip_u32 d off) (\<lambda>sig.
        if sig = eocd_signature then Some (Some off)
        else if off = 0 then Some None
        else find_eocd_from d min_offset (off - 1)))"

declare find_eocd_from.simps [simp del]

definition find_eocd_offset :: "u8 list \<Rightarrow> nat option option" where
  "find_eocd_offset d =
     (if length d < 22 then Some None
      else find_eocd_from d (if 22 + 0xFFFF < length d then length d - (22 + 0xFFFF) else 0) (length d - 22))"

definition read_central_entry :: "u8 list \<Rightarrow> nat \<Rightarrow> (zip_entry \<times> nat) expected option" where
  "read_central_entry d cursor =
     (if \<not> check_range cursor 46 (length d) then Some (Inl ''Invalid ZIP central directory header'')
      else Option.bind (zip_u32 d cursor) (\<lambda>sig.
        if sig \<noteq> central_signature then Some (Inl ''Invalid ZIP central directory signature'')
        else
          Option.bind (zip_u16 d (cursor + 8)) (\<lambda>flags.
          Option.bind (zip_u16 d (cursor + 10)) (\<lambda>method.
          Option.bind (zip_u32 d (cursor + 20)) (\<lambda>compressed.
          Option.bind (zip_u32 d (cursor + 24)) (\<lambda>uncompressed.
          Option.bind (zip_u16 d (cursor + 28)) (\<lambda>name_len.
          Option.bind (zip_u16 d (cursor + 30)) (\<lambda>extra_len.
          Option.bind (zip_u16 d (cursor + 32)) (\<lambda>comment_len.
          Option.bind (zip_u32 d (cursor + 42)) (\<lambda>local_header.
            if \<not> check_range (cursor + 46) name_len (length d) then Some (Inl ''Invalid ZIP file name range'')
            else Option.bind (read_span d (cursor + 46) name_len) (\<lambda>raw.
              let name = bytes_str raw; advance = 46 + name_len + extra_len + comment_len in
              if \<not> check_range cursor advance (length d)
              then Some (Inl ''Invalid ZIP central directory entry size'')
              else Some (Inr (\<lparr>ze_name = name, ze_method = method, ze_flags = flags,
                     ze_compressed_size = compressed, ze_uncompressed_size = uncompressed,
                     ze_local_header = local_header,
                     ze_is_directory = (name \<noteq> [] \<and> last name = CHR ''/'')\<rparr>, cursor + advance)))))))))))))"

fun read_entries :: "u8 list \<Rightarrow> nat \<Rightarrow> nat \<Rightarrow> zip_entry list expected option" where
  "read_entries d 0 cursor = Some (Inr [])"
| "read_entries d (Suc n) cursor =
     Option.bind (read_central_entry d cursor) (\<lambda>r.
       case r of
         Inl e \<Rightarrow> Some (Inl e)
       | Inr (entry, cursor') \<Rightarrow>
           Option.bind (read_entries d n cursor') (\<lambda>rs.
             case rs of Inl e \<Rightarrow> Some (Inl e) | Inr es \<Rightarrow> Some (Inr (entry # es))))"

definition parse_central_directory :: "u8 list \<Rightarrow> zip_entry list expected option" where
  "parse_central_directory d =
     Option.bind (find_eocd_offset d) (\<lambda>found.
       case found of
         None \<Rightarrow> Some (Inl ''ZIP end of central directory not found'')
       | Some eocd \<Rightarrow>
           if \<not> check_range eocd 22 (length d) then Some (Inl ''Invalid ZIP EOCD size'')
           else
             Option.bind (zip_u16 d (eocd + 10)) (\<lambda>total_entries.
             Option.bind (zip_u32 d (eocd + 12)) (\<lambda>dir_size.
             Option.bind (zip_u32 d (eocd + 16)) (\<lambda>dir_offset.
               if \<not> check_range dir_offset dir_size (length d)
               then Some (Inl ''Invalid ZIP central directory range'')
               else read_entries d total_entries dir_offset))))"

section \<open>The content of a member\<close>

type_synonym inflater = "u8 list \<Rightarrow> u8 list option"

definition inflate_raw_deflate :: "inflater \<Rightarrow> u8 list \<Rightarrow> nat \<Rightarrow> u8 list expected" where
  "inflate_raw_deflate inflate compressed n =
     (case inflate compressed of
        Some out \<Rightarrow> if length out = n then Inr out else Inl ''zlib inflate failed''
      | None \<Rightarrow> Inl ''zlib inflate failed'')"

definition extract_zip_entry :: "inflater \<Rightarrow> u8 list \<Rightarrow> zip_entry \<Rightarrow> u8 list expected option" where
  "extract_zip_entry inflate d entry =
     (if \<not> check_range (ze_local_header entry) 30 (length d) then Some (Inl ''Invalid ZIP local file header range'')
      else Option.bind (zip_u32 d (ze_local_header entry)) (\<lambda>sig.
        if sig \<noteq> local_signature then Some (Inl ''Invalid ZIP local file signature'')
        else
          Option.bind (zip_u16 d (ze_local_header entry + 26)) (\<lambda>name_len.
          Option.bind (zip_u16 d (ze_local_header entry + 28)) (\<lambda>extra_len.
            let data_offset = ze_local_header entry + 30 + name_len + extra_len in
            if \<not> check_range data_offset (ze_compressed_size entry) (length d)
            then Some (Inl ''Invalid ZIP compressed data range'')
            else Option.bind (read_span d data_offset (ze_compressed_size entry)) (\<lambda>compressed.
              if ze_method entry = 0 then Some (Inr compressed)
              else if ze_method entry = 8
              then Some (inflate_raw_deflate inflate compressed (ze_uncompressed_size entry))
              else Some (Inl (''Unsupported ZIP compression method: '' @ dec (ze_method entry))))))))"

section \<open>No read is out of range\<close>

lemma zip_u16_some: "check_range off 2 (length d) \<Longrightarrow> \<exists>v. zip_u16 d off = Some v"
  by (auto simp: zip_u16_def read_byte_def check_range_def)

lemma zip_u32_some: "check_range off 4 (length d) \<Longrightarrow> \<exists>v. zip_u32 d off = Some v"
proof -
  assume r: "check_range off 4 (length d)"
  have "check_range off 2 (length d)" "check_range (off + 2) 2 (length d)" using r by (auto simp: check_range_def)
  then obtain a b where "zip_u16 d off = Some a" "zip_u16 d (off + 2) = Some b" using zip_u16_some by blast
  then show ?thesis by (simp add: zip_u32_def)
qed

lemma zip_u16_at: "check_range off n (length d) \<Longrightarrow> k + 2 \<le> n \<Longrightarrow> \<exists>v. zip_u16 d (off + k) = Some v"
  by (rule zip_u16_some) (auto simp: check_range_def)

lemma zip_u32_at: "check_range off n (length d) \<Longrightarrow> k + 4 \<le> n \<Longrightarrow> \<exists>v. zip_u32 d (off + k) = Some v"
  by (rule zip_u32_some) (auto simp: check_range_def)

lemma read_span_some: "check_range off n (length d) \<Longrightarrow> \<exists>v. read_span d off n = Some v"
  by (auto simp: read_span_def check_range_def)

lemma find_eocd_some: "\<exists>r. find_eocd_from d m off = Some r"
proof (induction off)
  case 0
  then show ?case using zip_u32_some [of 0 d] by (subst find_eocd_from.simps) auto
next
  case (Suc off)
  then show ?case using zip_u32_some [of "Suc off" d] by (subst find_eocd_from.simps) auto
qed

lemma read_central_entry_some: "\<exists>r. read_central_entry d c = Some r"
proof (cases "check_range c 46 (length d)")
  case True
  note u16 = zip_u16_at [OF True] and u32 = zip_u32_at [OF True]
  obtain v0 where "zip_u32 d c = Some v0" using u32 [of 0] by auto
  moreover obtain v1 v2 v3 v4 v5 v6 v7 v8 where "zip_u16 d (c + 8) = Some v1" "zip_u16 d (c + 10) = Some v2"
    "zip_u32 d (c + 20) = Some v3" "zip_u32 d (c + 24) = Some v4" "zip_u16 d (c + 28) = Some v5"
    "zip_u16 d (c + 30) = Some v6" "zip_u16 d (c + 32) = Some v7" "zip_u32 d (c + 42) = Some v8"
    using u16 [of 8] u16 [of 10] u32 [of 20] u32 [of 24] u16 [of 28] u16 [of 30] u16 [of 32] u32 [of 42] by auto
  ultimately show ?thesis
    using read_span_some [of "c + 46" v5 d] by (auto simp: read_central_entry_def Let_def)
qed (simp add: read_central_entry_def)

lemma read_entries_some: "\<exists>r. read_entries d n c = Some r"
proof (induction n arbitrary: c)
  case (Suc n)
  obtain r where "read_central_entry d c = Some r" using read_central_entry_some by blast
  then show ?case using Suc by (cases r) (auto split: sum.splits, metis bind.bind_lunit old.sum.exhaust old.sum.simps(5,6))
qed simp

lemma parse_central_directory_some: "\<exists>r. parse_central_directory d = Some r"
proof -
  obtain f where f: "find_eocd_offset d = Some f"
  proof (cases "length d < 22")
    case False
    obtain r where "find_eocd_from d (if 22 + 0xFFFF < length d then length d - (22 + 0xFFFF) else 0) (length d - 22) = Some r"
      using find_eocd_some by blast
    then show ?thesis using that False by (simp add: find_eocd_offset_def)
  qed (simp add: find_eocd_offset_def that)
  show ?thesis
  proof (cases f)
    case (Some eocd)
    show ?thesis
    proof (cases "check_range eocd 22 (length d)")
      case True
      obtain v1 v2 v3 where "zip_u16 d (eocd + 10) = Some v1" "zip_u32 d (eocd + 12) = Some v2"
        "zip_u32 d (eocd + 16) = Some v3"
        using zip_u16_at [OF True, of 10] zip_u32_at [OF True, of 12] zip_u32_at [OF True, of 16] by auto
      then show ?thesis using f Some read_entries_some [of d v1 v3] by (simp add: parse_central_directory_def)
    qed (simp add: parse_central_directory_def f Some)
  qed (simp add: parse_central_directory_def f)
qed

lemma extract_zip_entry_some: "\<exists>r. extract_zip_entry inflate d e = Some r"
proof (cases "check_range (ze_local_header e) 30 (length d)")
  case True
  obtain v0 v1 v2 where "zip_u32 d (ze_local_header e) = Some v0" "zip_u16 d (ze_local_header e + 26) = Some v1"
    "zip_u16 d (ze_local_header e + 28) = Some v2"
    using zip_u32_at [OF True, of 0] zip_u16_at [OF True, of 26] zip_u16_at [OF True, of 28] by auto
  then show ?thesis
    using read_span_some [of "ze_local_header e + 30 + v1 + v2" "ze_compressed_size e" d]
    by (auto simp: extract_zip_entry_def Let_def)
qed (simp add: extract_zip_entry_def)

end
