(* ===== verification/App_Manifest.thy ===== *)
theory App_Manifest
  imports Json Std_Path
begin

text \<open>
  Service versions (\<open>system_core/src/app/service_requirement.cpp\<close>) and the manifest of an app
  package (\<open>app/package.cpp\<close>, lines 287 to 820; \<open>app/types.hpp\<close>).

  The JSON text of a manifest is parsed outside, \<open>parse\<close> is the parameter. Errors carry the code's
  messages; unknown fields are only logged there and have no effect here.
\<close>

section \<open>Service versions\<close>

record service_version =
  v_major :: u32
  v_minor :: u32
  v_patch :: u32

definition version_format :: string where
  "version_format = ''must use numeric MAJOR.MINOR.PATCH format''"

fun split_dot :: "string \<Rightarrow> (string \<times> string) option" where
  "split_dot [] = None"
| "split_dot (c # cs) =
     (if c = CHR ''.'' then Some ([], cs)
      else case split_dot cs of None \<Rightarrow> None | Some (a, b) \<Rightarrow> Some (c # a, b))"

definition is_digit :: "char \<Rightarrow> bool" where
  "is_digit c \<longleftrightarrow> CHR ''0'' \<le> c \<and> c \<le> CHR ''9''"

definition digits_value :: "string \<Rightarrow> nat" where
  "digits_value s = foldl (\<lambda>n c. 10 * n + (of_char c - 48)) 0 s"

text \<open>\<open>std::from_chars\<close> of an unsigned number: digits only, and none left over.\<close>

definition parse_version_part :: "string \<Rightarrow> u32 expected" where
  "parse_version_part s =
     (if s = [] then Inl version_format
      else if list_all is_digit s \<and> digits_value s < 2 ^ 32 then Inr (of_nat (digits_value s))
      else Inl version_format)"

definition parse_service_version :: "string \<Rightarrow> service_version expected" where
  "parse_service_version v =
     (case split_dot v of
        None \<Rightarrow> Inl version_format
      | Some (a, rest) \<Rightarrow>
        (case split_dot rest of
           None \<Rightarrow> Inl version_format
         | Some (b, c) \<Rightarrow>
             if split_dot c \<noteq> None then Inl version_format
             else (case (parse_version_part a, parse_version_part b, parse_version_part c) of
                 (Inr x, Inr y, Inr z) \<Rightarrow> Inr \<lparr>v_major = x, v_minor = y, v_patch = z\<rparr>
               | (Inl e, _, _) \<Rightarrow> Inl e
               | (_, Inl e, _) \<Rightarrow> Inl e
               | (_, _, Inl e) \<Rightarrow> Inl e)))"

definition version_satisfies :: "service_version \<Rightarrow> service_version \<Rightarrow> bool" where
  "version_satisfies required provided \<longleftrightarrow>
     v_major required = v_major provided \<and> v_minor required = v_minor provided \<and> v_patch required \<le> v_patch provided"

definition is_service_version_compatible :: "string \<Rightarrow> string \<Rightarrow> bool expected" where
  "is_service_version_compatible required provided =
     (case parse_service_version required of
        Inl e \<Rightarrow> Inl (''Required service version '' @ e)
      | Inr r \<Rightarrow>
        (case parse_service_version provided of
           Inl e \<Rightarrow> Inl (''Local service version '' @ e)
         | Inr l \<Rightarrow> Inr (version_satisfies r l)))"

record manifest_service =
  ms_name :: string
  ms_version :: string

record requirement_failure =
  rf_requirement :: manifest_service
  rf_registered :: bool
  rf_local_version :: string
  rf_reason :: string

text \<open>\<open>registered\<close> gives the version the service manager has of a service.\<close>

definition evaluate_service_requirement ::
    "(string \<Rightarrow> string option) \<Rightarrow> manifest_service \<Rightarrow> requirement_failure option" where
  "evaluate_service_requirement registered r =
     (case registered (ms_name r) of
        None \<Rightarrow> Some \<lparr>rf_requirement = r, rf_registered = False, rf_local_version = [],
                  rf_reason = ''service is not registered''\<rparr>
      | Some v \<Rightarrow>
          (case is_service_version_compatible (ms_version r) v of
             Inr True \<Rightarrow> None
           | Inr False \<Rightarrow> Some \<lparr>rf_requirement = r, rf_registered = True, rf_local_version = v,
                  rf_reason = ''local version is incompatible''\<rparr>
           | Inl e \<Rightarrow> Some \<lparr>rf_requirement = r, rf_registered = True, rf_local_version = v, rf_reason = e\<rparr>))"

definition evaluate_service_requirements ::
    "(string \<Rightarrow> string option) \<Rightarrow> manifest_service list \<Rightarrow> requirement_failure list" where
  "evaluate_service_requirements registered rs = List.map_filter (evaluate_service_requirement registered) rs"

fun format_failures :: "requirement_failure list \<Rightarrow> string" where
  "format_failures [] = []"
| "format_failures (f # fs) =
     (CHR 0x0A # ''- '' @ ms_name (rf_requirement f) @ '': requires '' @ ms_version (rf_requirement f) @
      (if \<not> rf_registered f then '', not registered''
       else '', local '' @ rf_local_version f @ '' ('' @ rf_reason f @ '')'')) @ format_failures fs"

definition format_service_requirement_failures :: "requirement_failure list \<Rightarrow> string" where
  "format_service_requirement_failures fs = ''Required services are unavailable:'' @ format_failures fs"

section \<open>Fields of a manifest\<close>

datatype app_kind = Native | Runtime
datatype backend_type = UnknownBackend | Lua | JavaScript | Wasm | Elf

record app_manifest =
  am_id :: string
  am_name :: string
  am_localized_names :: "(string, string) smap"
  am_version :: string
  am_kind :: app_kind
  am_visible :: bool
  am_preload_dom :: bool
  am_icon_id :: string
  am_supported_systems :: "string list"
  am_icon_path :: string
  am_runtime_type :: backend_type
  am_app_path :: string
  am_entry :: string
  am_resource_dir :: string
  am_arguments :: "string list"
  am_services :: "manifest_service list"

text \<open>Enumerators by name, or by their name in snake case.\<close>

fun snake :: "bool \<Rightarrow> string \<Rightarrow> string" where
  "snake first [] = []"
| "snake first (c # cs) =
     (if CHR ''A'' \<le> c \<and> c \<le> CHR ''Z''
      then (if first then [] else ''_'') @ [char_of (of_char c + 32 :: nat)]
      else [c]) @ snake False cs"

definition to_snake_case :: "string \<Rightarrow> string" where
  "to_snake_case s = snake True s"

definition string_to_enum_flexible :: "(string \<times> 'a) list \<Rightarrow> string \<Rightarrow> 'a option" where
  "string_to_enum_flexible enums s =
     (case map_of enums s of
        Some x \<Rightarrow> Some x
      | None \<Rightarrow> map_of (map (\<lambda>(n, x). (to_snake_case n, x)) enums) (to_snake_case s))"

definition backend_names :: "(string \<times> backend_type) list" where
  "backend_names = [(''Unknown'', UnknownBackend), (''Lua'', Lua), (''JavaScript'', JavaScript), (''Wasm'', Wasm), (''Elf'', Elf)]"

definition parse_backend_type :: "string \<Rightarrow> backend_type expected" where
  "parse_backend_type s =
     (case string_to_enum_flexible backend_names s of
        Some t \<Rightarrow> if t = UnknownBackend then Inl (''Invalid runtime type in manifest: '' @ s) else Inr t
      | None \<Rightarrow> Inl (''Invalid runtime type in manifest: '' @ s))"

definition is_safe_relative_path :: "string \<Rightarrow> bool" where
  "is_safe_relative_path s =
     (if s = [] \<or> hd s = CHR ''/'' \<or> hd s = CHR 0x5C then False
      else let normalized = lexically_normal (path_of s) in
        if normalized = [] \<or> is_absolute normalized then False
        else list_all (\<lambda>part. part \<noteq> ''..'') normalized)"

definition field_error :: "string \<Rightarrow> string \<Rightarrow> string \<Rightarrow> string" where
  "field_error owner key what = ''manifest.'' @ owner @ ''.'' @ key @ what"

definition get_object :: "json_object \<Rightarrow> string \<Rightarrow> json_object expected" where
  "get_object obj key =
     (case map_of obj key of
        Some (JObject o') \<Rightarrow> Inr o'
      | _ \<Rightarrow> Inl (''manifest.'' @ key @ '' must be an object''))"

definition get_required_string :: "json_object \<Rightarrow> string \<Rightarrow> string \<Rightarrow> string expected" where
  "get_required_string obj owner key =
     (case map_of obj key of
        Some (JString s) \<Rightarrow> if s = [] then Inl (field_error owner key '' must not be empty'') else Inr s
      | _ \<Rightarrow> Inl (field_error owner key '' must be a string''))"

definition get_optional_string :: "json_object \<Rightarrow> string \<Rightarrow> string \<Rightarrow> string \<Rightarrow> string expected" where
  "get_optional_string obj owner key d =
     (case map_of obj key of
        None \<Rightarrow> Inr d
      | Some JNull \<Rightarrow> Inr d
      | Some (JString s) \<Rightarrow> Inr s
      | Some _ \<Rightarrow> Inl (field_error owner key '' must be a string''))"

definition get_optional_bool :: "json_object \<Rightarrow> string \<Rightarrow> string \<Rightarrow> bool \<Rightarrow> bool expected" where
  "get_optional_bool obj owner key d =
     (case map_of obj key of
        None \<Rightarrow> Inr d
      | Some JNull \<Rightarrow> Inr d
      | Some (JBool b) \<Rightarrow> Inr b
      | Some _ \<Rightarrow> Inl (field_error owner key '' must be a bool''))"

definition get_optional_int32 :: "json_object \<Rightarrow> string \<Rightarrow> string \<Rightarrow> int \<Rightarrow> int expected" where
  "get_optional_int32 obj owner key d =
     (case map_of obj key of
        None \<Rightarrow> Inr d
      | Some JNull \<Rightarrow> Inr d
      | Some (JInt64 i) \<Rightarrow>
          if i < - (2 ^ 31) \<or> 2 ^ 31 - 1 < i then Inl (field_error owner key '' is out of int32 range'') else Inr i
      | Some (JUint64 n) \<Rightarrow>
          if 2 ^ 31 - 1 < uint n then Inl (field_error owner key '' is out of int32 range'') else Inr (uint n)
      | Some _ \<Rightarrow> Inl (field_error owner key '' must be an integer''))"

fun string_items :: "string \<Rightarrow> string \<Rightarrow> json list \<Rightarrow> string list expected" where
  "string_items owner key [] = Inr []"
| "string_items owner key (v # vs) =
     (case v of
        JString s \<Rightarrow>
          if s = [] then Inl (field_error owner key '' item must not be empty'')
          else (case string_items owner key vs of Inl e \<Rightarrow> Inl e | Inr ss \<Rightarrow> Inr (s # ss))
      | _ \<Rightarrow> Inl (field_error owner key '' item must be a string''))"

definition get_optional_string_array :: "json_object \<Rightarrow> string \<Rightarrow> string \<Rightarrow> string list expected" where
  "get_optional_string_array obj owner key =
     (case map_of obj key of
        None \<Rightarrow> Inr []
      | Some JNull \<Rightarrow> Inr []
      | Some (JArray vs) \<Rightarrow> string_items owner key vs
      | Some _ \<Rightarrow> Inl (field_error owner key '' must be an array''))"

fun localized_items :: "string \<Rightarrow> string \<Rightarrow> json_object \<Rightarrow> (string, string) smap \<Rightarrow> (string, string) smap expected" where
  "localized_items owner key [] names = Inr names"
| "localized_items owner key ((language, v) # ms) names =
     (if language = [] then Inl (field_error owner key '' language key must not be empty'')
      else case v of
        JString name \<Rightarrow>
          if name = [] then Inl (field_error owner key (''.'' @ language @ '' must not be empty''))
          else localized_items owner key ms (smap_emplace language name names)
      | _ \<Rightarrow> Inl (field_error owner key (''.'' @ language @ '' must be a string'')))"

definition get_optional_localized_names :: "json_object \<Rightarrow> string \<Rightarrow> string \<Rightarrow> (string, string) smap expected" where
  "get_optional_localized_names obj owner key =
     (case map_of obj key of
        None \<Rightarrow> Inr []
      | Some JNull \<Rightarrow> Inr []
      | Some (JString _) \<Rightarrow> Inl (field_error owner key
          ('' string form is no longer supported; use an object such as {'' @ CHR 0x22 # ''en'' @ CHR 0x22 # '':'' @
           CHR 0x22 # ''App'' @ CHR 0x22 # ''}''))
      | Some (JObject ms) \<Rightarrow> localized_items owner key ms []
      | Some _ \<Rightarrow> Inl (field_error owner key '' must be an object''))"

section \<open>Declared services\<close>

definition is_blank :: "string \<Rightarrow> bool" where
  "is_blank s = list_all (\<lambda>c. c = CHR '' '' \<or> (CHR 0x09 \<le> c \<and> c \<le> CHR 0x0D)) s"

definition manifest_service_item :: "string \<Rightarrow> json \<Rightarrow> string set \<Rightarrow> manifest_service expected" where
  "manifest_service_item owner item names =
     (case item of
        JObject service \<Rightarrow>
          (case (get_required_string service owner ''name'', get_required_string service owner ''version'') of
             (Inl e, _) \<Rightarrow> Inl e
           | (_, Inl e) \<Rightarrow> Inl e
           | (Inr name, Inr version) \<Rightarrow>
               if is_blank name then Inl (''manifest.'' @ owner @ ''.name must not be blank'')
               else (case parse_service_version version of
                   Inl e \<Rightarrow> Inl (''manifest.'' @ owner @ ''.version '' @ e)
                 | Inr _ \<Rightarrow>
                     if name \<in> names then Inl (''manifest.services contains duplicate name: '' @ name)
                     else Inr \<lparr>ms_name = name, ms_version = version\<rparr>))
      | _ \<Rightarrow> Inl (''manifest.'' @ owner @ '' must be an object''))"

fun manifest_service_items :: "nat \<Rightarrow> json list \<Rightarrow> string set \<Rightarrow> manifest_service list expected" where
  "manifest_service_items i [] names = Inr []"
| "manifest_service_items i (item # items) names =
     (case manifest_service_item (''services['' @ dec i @ '']'') item names of
        Inl e \<Rightarrow> Inl e
      | Inr s \<Rightarrow>
          (case manifest_service_items (Suc i) items (insert (ms_name s) names) of
             Inl e \<Rightarrow> Inl e
           | Inr ss \<Rightarrow> Inr (s # ss)))"

definition get_manifest_services :: "json_object \<Rightarrow> manifest_service list expected" where
  "get_manifest_services doc =
     (case map_of doc ''services'' of
        None \<Rightarrow> Inr []
      | Some (JArray items) \<Rightarrow> manifest_service_items 0 items {}
      | Some _ \<Rightarrow> Inl ''manifest.services must be an array'')"

section \<open>The manifest\<close>

definition supports_system :: "string list \<Rightarrow> string \<Rightarrow> bool" where
  "supports_system systems system_type \<longleftrightarrow> system_type = [] \<or> systems = [] \<or> system_type \<in> set systems"

definition resolve_app_display_name :: "app_manifest \<Rightarrow> string \<Rightarrow> string" where
  "resolve_app_display_name m language =
     (let localized = (\<lambda>key. case map_of (am_localized_names m) key of None \<Rightarrow> [] | Some n \<Rightarrow> n) in
      if language \<noteq> [] \<and> localized language \<noteq> [] then localized language
      else if localized ''en'' \<noteq> [] then localized ''en''
      else case filter (\<lambda>n. n \<noteq> []) (map snd (am_localized_names m)) of
        n # _ \<Rightarrow> n
      | [] \<Rightarrow> if am_name m \<noteq> [] then am_name m else am_id m)"

definition unsupported_system_prefix :: string where
  "unsupported_system_prefix = ''Package does not support system type''"

text \<open>The fields the source reads before it looks at any error, and the error it reports then.\<close>

definition read_manifest_fields :: "json_object \<Rightarrow> json_object \<Rightarrow> json_object \<Rightarrow> string \<Rightarrow>
    (app_manifest \<times> string) expected" where
  "read_manifest_fields doc package runtime package_dir =
     (case get_required_string package ''package'' ''id'' of Inl e \<Rightarrow> Inl e | Inr i \<Rightarrow>
     (case get_required_string package ''package'' ''version'' of Inl e \<Rightarrow> Inl e | Inr version \<Rightarrow>
     (case get_optional_localized_names package ''package'' ''name'' of Inl e \<Rightarrow> Inl e | Inr names \<Rightarrow>
     (case get_optional_bool package ''package'' ''visible'' True of Inl e \<Rightarrow> Inl e | Inr visible \<Rightarrow>
     (case get_optional_string_array package ''package'' ''systems'' of Inl e \<Rightarrow> Inl e | Inr systems \<Rightarrow>
     (case get_manifest_services doc of Inl e \<Rightarrow> Inl e | Inr services \<Rightarrow>
     (case get_required_string runtime ''runtime'' ''type'' of Inl e \<Rightarrow> Inl e | Inr type_string \<Rightarrow>
     (case get_required_string runtime ''runtime'' ''entry'' of Inl e \<Rightarrow> Inl e | Inr entry \<Rightarrow>
     (case get_optional_string runtime ''runtime'' ''resource_dir'' [] of Inl e \<Rightarrow> Inl e | Inr resource_dir \<Rightarrow>
     (case get_optional_string_array runtime ''runtime'' ''arguments'' of Inl e \<Rightarrow> Inl e | Inr args \<Rightarrow>
        Inr (\<lparr>am_id = i, am_name = [], am_localized_names = names, am_version = version, am_kind = Runtime,
               am_visible = visible, am_preload_dom = False, am_icon_id = [], am_supported_systems = systems,
               am_icon_path = [], am_runtime_type = UnknownBackend, am_app_path = package_dir, am_entry = entry,
               am_resource_dir = resource_dir, am_arguments = args, am_services = services\<rparr>, type_string)))))))))))"

definition parse_manifest_to_app_manifest :: "(string \<Rightarrow> json option) \<Rightarrow> string \<Rightarrow> string \<Rightarrow> string \<Rightarrow> app_manifest expected" where
  "parse_manifest_to_app_manifest parse manifest_json package_dir system_type =
     (case parse manifest_json of
        Some (JObject doc) \<Rightarrow>
          (case get_object doc ''package'' of Inl e \<Rightarrow> Inl e | Inr package \<Rightarrow>
          (case get_object doc ''runtime'' of Inl e \<Rightarrow> Inl e | Inr runtime \<Rightarrow>
          (case read_manifest_fields doc package runtime package_dir of Inl e \<Rightarrow> Inl e | Inr (m, type_string) \<Rightarrow>
             if \<not> supports_system (am_supported_systems m) system_type
             then Inl (unsupported_system_prefix @ '': '' @ system_type)
             else if \<not> is_safe_relative_path (am_entry m)
             then Inl ''manifest.runtime.entry must be a safe relative path''
             else if am_resource_dir m \<noteq> [] \<and> \<not> is_safe_relative_path (am_resource_dir m)
             then Inl ''manifest.runtime.resource_dir must be a safe relative path''
             else (case parse_backend_type type_string of
                 Inl e \<Rightarrow> Inl e
               | Inr t \<Rightarrow> Inr (m\<lparr>am_name := resolve_app_display_name m ''en'', am_runtime_type := t\<rparr>)))))
      | _ \<Rightarrow> Inl ''manifest.json must be a JSON object'')"

section \<open>The resource descriptor of a runtime app\<close>

datatype gui_app_layer = AppDefault | AppTop | SystemBottom | SystemTop
datatype mount_stack_mode = MountReplace | MountStack | MountMax
datatype gui_root_kind = RootNone | RootFile | RootJsonString

record screen_flow_entry =
  sf_screen_flow :: string
  sf_layer :: gui_app_layer
  sf_mount_mode :: mount_stack_mode
  sf_z_order :: int

record gui_descriptor =
  gd_root_kind :: gui_root_kind
  gd_root :: string
  gd_screen_flows :: "screen_flow_entry list"

record resource_descriptor =
  rd_icon_id :: string
  rd_preload_dom :: bool
  rd_gui :: gui_descriptor

definition layer_names :: "(string \<times> gui_app_layer) list" where
  "layer_names = [(''AppDefault'', AppDefault), (''AppTop'', AppTop), (''SystemBottom'', SystemBottom), (''SystemTop'', SystemTop)]"

definition parse_gui_app_layer :: "string \<Rightarrow> gui_app_layer expected" where
  "parse_gui_app_layer s =
     (case string_to_enum_flexible layer_names s of
        Some l \<Rightarrow> Inr l | None \<Rightarrow> Inl (''Invalid gui layer in manifest: '' @ s))"

definition mount_names :: "(string \<times> mount_stack_mode) list" where
  "mount_names = [(''Replace'', MountReplace), (''Stack'', MountStack), (''Max'', MountMax)]"

definition parse_gui_mount_mode :: "string \<Rightarrow> mount_stack_mode expected" where
  "parse_gui_mount_mode s =
     (case string_to_enum_flexible mount_names s of
        Some m \<Rightarrow> if m = MountMax then Inl (''Invalid gui screen flow mount_mode in manifest: '' @ s) else Inr m
      | None \<Rightarrow> Inl (''Invalid gui screen flow mount_mode in manifest: '' @ s))"

definition screen_flow_item :: "string \<Rightarrow> bool \<Rightarrow> json \<Rightarrow> screen_flow_entry expected" where
  "screen_flow_item owner require_layer item =
     (case item of
        JObject entry \<Rightarrow>
          (let entry_owner = owner @ ''.screen_flows[]'' in
           case get_required_string entry entry_owner ''screen_flow'' of Inl e \<Rightarrow> Inl e | Inr flow \<Rightarrow>
          (case (if require_layer then get_required_string entry entry_owner ''layer''
                 else get_optional_string entry entry_owner ''layer'' ''AppDefault'') of Inl e \<Rightarrow> Inl e | Inr layer_text \<Rightarrow>
          (case parse_gui_app_layer layer_text of Inl e \<Rightarrow> Inl e | Inr layer \<Rightarrow>
          (case get_optional_string entry entry_owner ''mount_mode'' ''Replace'' of Inl e \<Rightarrow> Inl e | Inr mode_text \<Rightarrow>
          (case parse_gui_mount_mode mode_text of Inl e \<Rightarrow> Inl e | Inr mode \<Rightarrow>
          (case get_optional_int32 entry entry_owner ''z_order'' 0 of Inl e \<Rightarrow> Inl e | Inr z \<Rightarrow>
             Inr \<lparr>sf_screen_flow = flow, sf_layer = layer, sf_mount_mode = mode, sf_z_order = z\<rparr>))))))
      | _ \<Rightarrow> Inl (owner @ ''.screen_flows item must be an object''))"

fun screen_flow_items :: "string \<Rightarrow> bool \<Rightarrow> json list \<Rightarrow> screen_flow_entry list expected" where
  "screen_flow_items owner require_layer [] = Inr []"
| "screen_flow_items owner require_layer (item # items) =
     (case screen_flow_item owner require_layer item of
        Inl e \<Rightarrow> Inl e
      | Inr f \<Rightarrow> (case screen_flow_items owner require_layer items of Inl e \<Rightarrow> Inl e | Inr fs \<Rightarrow> Inr (f # fs)))"

definition get_gui_screen_flows :: "json_object \<Rightarrow> string \<Rightarrow> bool \<Rightarrow> bool \<Rightarrow> screen_flow_entry list expected" where
  "get_gui_screen_flows obj owner required require_layer =
     (let missing = (if required then Inl (owner @ ''.screen_flows must be an array'') else Inr []) in
      case map_of obj ''screen_flows'' of
        None \<Rightarrow> missing
      | Some JNull \<Rightarrow> missing
      | Some (JArray items) \<Rightarrow>
          (case screen_flow_items owner require_layer items of
             Inl e \<Rightarrow> Inl e
           | Inr flows \<Rightarrow> if required \<and> flows = [] then Inl (owner @ ''.screen_flows must not be empty'') else Inr flows)
      | Some _ \<Rightarrow> Inl (owner @ ''.screen_flows must be an array''))"

definition present :: "json_object \<Rightarrow> string \<Rightarrow> bool" where
  "present obj key \<longleftrightarrow> map_of obj key \<noteq> None \<and> map_of obj key \<noteq> Some JNull"

definition descriptor_gui :: "json_object \<Rightarrow> string \<Rightarrow> bool \<Rightarrow> resource_descriptor expected" where
  "descriptor_gui doc icon_id preload_dom =
     (if \<not> present doc ''root'' then
        (if present doc ''screen_flows'' then Inl ''Runtime profile.json screen_flows requires root''
         else if preload_dom then Inl ''Runtime profile.json preload_dom requires root''
         else Inr \<lparr>rd_icon_id = icon_id, rd_preload_dom = preload_dom,
                rd_gui = \<lparr>gd_root_kind = RootNone, gd_root = [], gd_screen_flows = []\<rparr>\<rparr>)
      else case map_of doc ''root'' of
        Some (JString document_root) \<Rightarrow>
          if document_root = [] then Inl ''Runtime profile.json root must not be empty''
          else if \<not> is_safe_relative_path document_root
          then Inl ''Runtime profile.json root must be a safe relative path''
          else (case get_gui_screen_flows doc ''root'' True True of
              Inl e \<Rightarrow> Inl e
            | Inr flows \<Rightarrow> Inr \<lparr>rd_icon_id = icon_id, rd_preload_dom = preload_dom,
                rd_gui = \<lparr>gd_root_kind = RootFile, gd_root = document_root, gd_screen_flows = flows\<rparr>\<rparr>)
      | _ \<Rightarrow> Inl ''Runtime profile.json root must be a string'')"

definition parse_runtime_app_resource_descriptor ::
    "(string \<Rightarrow> json option) \<Rightarrow> string \<Rightarrow> string \<Rightarrow> resource_descriptor expected" where
  "parse_runtime_app_resource_descriptor parse descriptor_json descriptor_path =
     (case parse descriptor_json of
        Some (JObject doc) \<Rightarrow>
          if map_of doc ''version'' \<noteq> None \<or> map_of doc ''assets'' \<noteq> None \<or> map_of doc ''variants'' \<noteq> None
          then Inl ''Runtime profile.json must not be a JSON UI document''
          else (case (if present doc ''icon_id'' then map_of doc ''icon_id'' else Some (JString [])) of
              Some (JString icon_id) \<Rightarrow>
                (case (if present doc ''preload_dom'' then map_of doc ''preload_dom'' else Some (JBool False)) of
                   Some (JBool preload_dom) \<Rightarrow> descriptor_gui doc icon_id preload_dom
                 | _ \<Rightarrow> Inl ''Runtime profile.json preload_dom must be a bool'')
            | _ \<Rightarrow> Inl ''Runtime profile.json icon_id must be a string'')
      | _ \<Rightarrow> Inl (''Runtime profile.json must be a JSON object: '' @ descriptor_path))"

end
