(* ===== verification/App_Package.thy ===== *)
theory App_Package
  imports Zip_Archive App_Manifest
begin

text \<open>
  Unpacking app packages (\<open>system_core/src/app/package.cpp\<close>, lines 59 to 119 and 843 to 1044).

  The storage service, the JSON parser, the inflater and the cryptography are the record \<open>pkg_env\<close>.
  The calls that change the storage are recorded as a list of \<open>fs_op\<close> in their order, also those
  the storage refuses. An outer \<open>None\<close> stands for a read outside the archive.
\<close>

section \<open>The storage\<close>

record file_info =
  fi_exists :: bool
  fi_is_file :: bool
  fi_size :: nat

datatype fs_op = MakeDir string | WriteFile string "u8 list"

text \<open>\<open>k_read\<close> gives the bytes it read of a file.\<close>

record pkg_env =
  k_stat :: "string \<Rightarrow> file_info expected"
  k_read :: "string \<Rightarrow> nat \<Rightarrow> u8 list expected"
  k_read_text :: "string \<Rightarrow> string expected"
  k_mkdir :: "string \<Rightarrow> unit expected"
  k_write :: "string \<Rightarrow> u8 list \<Rightarrow> unit expected"
  k_parse :: "string \<Rightarrow> json option"
  k_inflate :: inflater
  k_sha256 :: "u8 list \<Rightarrow> u8 list expected"
  k_public_key :: "u8 list \<Rightarrow> unit expected"
  k_verify :: "u8 list \<Rightarrow> u8 list \<Rightarrow> u8 list \<Rightarrow> unit expected"

definition starts_with :: "string \<Rightarrow> string \<Rightarrow> bool" where
  "starts_with prefix s \<longleftrightarrow> take (length prefix) s = prefix"

definition is_embedded_vfs_path :: "string \<Rightarrow> bool" where
  "is_embedded_vfs_path p \<longleftrightarrow> p = ''/littlefs'' \<or> starts_with ''/littlefs/'' p \<or> p = ''/spiffs'' \<or> starts_with ''/spiffs/'' p"

definition ensure_directory_tree :: "pkg_env \<Rightarrow> string \<Rightarrow> string \<Rightarrow> fs_op list \<Rightarrow> unit expected \<times> fs_op list" where
  "ensure_directory_tree env dir owner ops =
     (if dir = [] then (Inr (), ops)
      else case k_mkdir env dir of
        Inr _ \<Rightarrow> (Inr (), ops @ [MakeDir dir])
      | Inl e \<Rightarrow>
          (if is_embedded_vfs_path dir then Inr ()
           else Inl (''Failed to create directory('' @ owner @ ''): '' @ dir @ '', error: '' @ e), ops @ [MakeDir dir]))"

definition read_text_file :: "pkg_env \<Rightarrow> string \<Rightarrow> string expected" where
  "read_text_file env p =
     (case k_read_text env p of
        Inl e \<Rightarrow> Inl (''Failed to read file: '' @ p @ '', error: '' @ e) | Inr t \<Rightarrow> Inr t)"

definition read_binary_file :: "pkg_env \<Rightarrow> string \<Rightarrow> u8 list expected" where
  "read_binary_file env p =
     (case k_stat env p of
        Inl e \<Rightarrow> Inl (''Failed to stat package file: '' @ p @ '', error: '' @ e)
      | Inr info \<Rightarrow>
          if \<not> fi_exists info \<or> \<not> fi_is_file info
          then Inl (''Package file does not exist or is not a regular file: '' @ p)
          else if fi_size info = 0 then Inr []
          else (case k_read env p (fi_size info) of
              Inl e \<Rightarrow> Inl (''Failed to read package file: '' @ p @ '', error: '' @ e)
            | Inr d \<Rightarrow> if length d \<noteq> fi_size info then Inl (''Package file read size mismatch: '' @ p) else Inr d))"

section \<open>Unpacking\<close>

definition app_manifest_file :: string where
  "app_manifest_file = ''manifest.json''"

text \<open>The first member with the manifest's name: missing, an error, or its text.\<close>

definition manifest_text :: "pkg_env \<Rightarrow> u8 list \<Rightarrow> zip_entry list \<Rightarrow> string expected option" where
  "manifest_text env d entries =
     (case filter (\<lambda>z. \<not> ze_is_directory z \<and> ze_name z = app_manifest_file) entries of
        [] \<Rightarrow> Some (Inl ''Package missing manifest.json'')
      | z # _ \<Rightarrow> Option.bind (extract_zip_entry (k_inflate env) d z) (\<lambda>r. Some (case r of
          Inl e \<Rightarrow> Inl (''Failed to extract manifest.json: '' @ e)
        | Inr content \<Rightarrow> Inr (bytes_str content))))"

definition unpack_member :: "pkg_env \<Rightarrow> u8 list \<Rightarrow> string \<Rightarrow> zip_entry \<Rightarrow> fs_op list \<Rightarrow> (unit expected \<times> fs_op list) option" where
  "unpack_member env d output_dir entry ops =
     (if ze_is_directory entry then Some (Inr (), ops)
      else if starts_with ''META-INF/'' (ze_name entry) then Some (Inr (), ops)
      else if \<not> is_safe_relative_path (ze_name entry) then Some (Inl (''Unsafe path in package: '' @ ze_name entry), ops)
      else Option.bind (extract_zip_entry (k_inflate env) d entry) (\<lambda>r. Some (case r of
        Inl e \<Rightarrow> (Inl (''Failed to extract '' @ CHR 0x27 # ze_name entry @ CHR 0x27 # '': '' @ e), ops)
      | Inr content \<Rightarrow>
          (let destination = text_append output_dir (ze_name entry) in
           case ensure_directory_tree env (text_parent destination) (ze_name entry) ops of
             (Inl e, ops') \<Rightarrow> (Inl e, ops')
           | (Inr _, ops') \<Rightarrow>
               (case k_write env destination content of
                  Inl e \<Rightarrow> Inl (''Failed to write destination file: '' @ destination @ '', error: '' @ e)
                | Inr _ \<Rightarrow> Inr (), ops' @ [WriteFile destination content])))))"

fun unpack_members :: "pkg_env \<Rightarrow> u8 list \<Rightarrow> string \<Rightarrow> zip_entry list \<Rightarrow> fs_op list \<Rightarrow> (unit expected \<times> fs_op list) option" where
  "unpack_members env d output_dir [] ops = Some (Inr (), ops)"
| "unpack_members env d output_dir (entry # entries) ops =
     Option.bind (unpack_member env d output_dir entry ops) (\<lambda>(r, ops').
       case r of
         Inl e \<Rightarrow> Some (Inl e, ops')
       | Inr _ \<Rightarrow> unpack_members env d output_dir entries ops')"

definition unpack_archive :: "pkg_env \<Rightarrow> u8 list \<Rightarrow> zip_entry list \<Rightarrow> string \<Rightarrow> string \<Rightarrow>
    (app_manifest expected \<times> fs_op list) option" where
  "unpack_archive env d entries install_dir system_type =
     Option.bind (manifest_text env d entries) (\<lambda>text.
       case text of
         Inl e \<Rightarrow> Some (Inl e, [])
       | Inr manifest_json \<Rightarrow>
         (case parse_manifest_to_app_manifest (k_parse env) manifest_json install_dir system_type of
            Inl e \<Rightarrow> Some (Inl e, [])
          | Inr manifest \<Rightarrow>
              (let output_dir = text_append install_dir (am_id manifest) in
               case ensure_directory_tree env output_dir ''install_dir'' [] of
                 (Inl e, ops) \<Rightarrow> Some (Inl e, ops)
               | (Inr _, ops) \<Rightarrow>
                   Option.bind (unpack_members env d output_dir entries ops) (\<lambda>(r, ops').
                     Some (case r of
                       Inl e \<Rightarrow> Inl e
                     | Inr _ \<Rightarrow> Inr (manifest\<lparr>am_app_path := output_dir\<rparr>), ops')))))"

definition unpack_app_package_to :: "pkg_env \<Rightarrow> string \<Rightarrow> string \<Rightarrow> string \<Rightarrow> (app_manifest expected \<times> fs_op list) option" where
  "unpack_app_package_to env package_path install_dir system_type =
     (case read_binary_file env package_path of
        Inl e \<Rightarrow> Some (Inl e, [])
      | Inr d \<Rightarrow>
          Option.bind (parse_central_directory d) (\<lambda>r.
            case r of
              Inl e \<Rightarrow> Some (Inl e, [])
            | Inr entries \<Rightarrow> unpack_archive env d entries install_dir system_type))"

definition read_app_package_manifest :: "pkg_env \<Rightarrow> string \<Rightarrow> string \<Rightarrow> app_manifest expected option" where
  "read_app_package_manifest env package_path system_type =
     (case read_binary_file env package_path of
        Inl e \<Rightarrow> Some (Inl e)
      | Inr d \<Rightarrow>
          Option.bind (parse_central_directory d) (\<lambda>r.
            case r of
              Inl e \<Rightarrow> Some (Inl e)
            | Inr entries \<Rightarrow>
                Option.bind (manifest_text env d entries) (\<lambda>text. Some (case text of
                  Inl e \<Rightarrow> Inl e
                | Inr manifest_json \<Rightarrow>
                    parse_manifest_to_app_manifest (k_parse env) manifest_json (text_parent package_path) system_type))))"

definition read_unpacked_app_manifest :: "pkg_env \<Rightarrow> string \<Rightarrow> string \<Rightarrow> app_manifest expected" where
  "read_unpacked_app_manifest env package_dir system_type =
     (case read_text_file env (text_append package_dir app_manifest_file) of
        Inl e \<Rightarrow> Inl e
      | Inr text \<Rightarrow> parse_manifest_to_app_manifest (k_parse env) text package_dir system_type)"

section \<open>The descriptors of an installed app\<close>

definition validate_runtime_gui_document :: "pkg_env \<Rightarrow> string \<Rightarrow> unit expected" where
  "validate_runtime_gui_document env p =
     (case read_text_file env p of
        Inl e \<Rightarrow> Inl (''Runtime GUI document not found: '' @ p)
      | Inr text \<Rightarrow>
        (case k_parse env text of
           Some (JObject doc) \<Rightarrow>
             if present doc ''app'' then Inl ''Runtime GUI document app must be null or omitted'' else Inr ()
         | _ \<Rightarrow> Inl (''Runtime GUI document must be a JSON object: '' @ p)))"

definition read_runtime_app_resource_descriptor :: "pkg_env \<Rightarrow> app_manifest \<Rightarrow> resource_descriptor expected" where
  "read_runtime_app_resource_descriptor env m =
     (if am_kind m \<noteq> Runtime then Inl ''App manifest is not a runtime app''
      else if am_app_path m = [] then Inl ''Runtime app manifest app_path is empty''
      else let dir = (if am_resource_dir m \<noteq> [] then text_append (am_app_path m) (am_resource_dir m) else am_app_path m);
               profile = text_append dir ''profile.json'' in
        case read_text_file env profile of
          Inl e \<Rightarrow> Inl e
        | Inr text \<Rightarrow>
          (case parse_runtime_app_resource_descriptor (k_parse env) text profile of
             Inl e \<Rightarrow> Inl e
           | Inr d \<Rightarrow>
               if gd_root_kind (rd_gui d) = RootFile
               then (case validate_runtime_gui_document env (text_append (text_parent profile) (gd_root (rd_gui d))) of
                   Inl e \<Rightarrow> Inl e | Inr _ \<Rightarrow> Inr d)
               else Inr d))"

definition read_runtime_app_gui_descriptor :: "pkg_env \<Rightarrow> app_manifest \<Rightarrow> gui_descriptor expected" where
  "read_runtime_app_gui_descriptor env m =
     (case read_runtime_app_resource_descriptor env m of Inl e \<Rightarrow> Inl e | Inr d \<Rightarrow> Inr (rd_gui d))"

record runtime_app_config =
  rc_type :: backend_type
  rc_app_path :: string
  rc_entry :: string
  rc_resource_dir :: string
  rc_arguments :: "string list"

definition make_runtime_app_config :: "app_manifest \<Rightarrow> runtime_app_config expected" where
  "make_runtime_app_config m =
     (if am_kind m \<noteq> Runtime then Inl ''App manifest is not a runtime app''
      else if am_runtime_type m = UnknownBackend then Inl ''Runtime app manifest has unknown backend type''
      else if am_entry m = [] then Inl ''Runtime app manifest entry is empty''
      else Inr \<lparr>rc_type = am_runtime_type m, rc_app_path = am_app_path m, rc_entry = am_entry m,
        rc_resource_dir = am_resource_dir m, rc_arguments = am_arguments m\<rparr>)"

section \<open>What unpacking does\<close>

lemma manifest_text_some: "\<exists>r. manifest_text env d es = Some r"
proof (cases "filter (\<lambda>z. \<not> ze_is_directory z \<and> ze_name z = app_manifest_file) es")
  case (Cons z zs)
  then show ?thesis
    using extract_zip_entry_some [of "k_inflate env" d z] by (auto simp: manifest_text_def)
qed (simp add: manifest_text_def)

lemma unpack_member_some: "\<exists>r. unpack_member env d out z ops = Some r"
  using extract_zip_entry_some [of "k_inflate env" d z] by (auto simp: unpack_member_def)

lemma unpack_members_some: "\<exists>r. unpack_members env d out es ops = Some r"
proof (induction es arbitrary: ops)
  case (Cons z es)
  obtain r ops' where "unpack_member env d out z ops = Some (r, ops')" using unpack_member_some by (metis surj_pair)
  then show ?case using Cons.IH by (cases r) simp_all
qed simp

lemma unpack_archive_some: "\<exists>r. unpack_archive env d es dir sys = Some r"
proof -
  obtain t where "manifest_text env d es = Some t" using manifest_text_some by blast
  moreover have "\<exists>r. Option.bind (unpack_members env d out es ops) (\<lambda>(r, ops'). Some (f r, ops')) = Some r"
    for out ops and f :: "unit expected \<Rightarrow> app_manifest expected"
    using unpack_members_some [of env d out es ops] by auto
  ultimately show ?thesis
    by (auto simp: unpack_archive_def Let_def split: sum.split prod.split)
qed

text \<open>Every file written is a member, with its content, under a safe name.\<close>

definition writes_member :: "pkg_env \<Rightarrow> u8 list \<Rightarrow> string \<Rightarrow> zip_entry list \<Rightarrow> fs_op \<Rightarrow> bool" where
  "writes_member env d out es op \<longleftrightarrow>
     (case op of
        MakeDir p \<Rightarrow> True
      | WriteFile p c \<Rightarrow> (\<exists>z \<in> set es. \<not> ze_is_directory z \<and> \<not> starts_with ''META-INF/'' (ze_name z) \<and>
          is_safe_relative_path (ze_name z) \<and> extract_zip_entry (k_inflate env) d z = Some (Inr c) \<and>
          p = text_append out (ze_name z)))"

lemma ensure_ops:
  "ensure_directory_tree env dir owner ops = (r, ops') \<Longrightarrow> ops' = ops \<or> ops' = ops @ [MakeDir dir]"
  by (auto simp: ensure_directory_tree_def split: if_splits sum.splits)

lemma unpack_member_writes:
  assumes "unpack_member env d out z ops = Some (r, ops')" "list_all (writes_member env d out es) ops" "z \<in> set es"
  shows "list_all (writes_member env d out es) ops'"
proof (cases "ze_is_directory z \<or> starts_with ''META-INF/'' (ze_name z) \<or> \<not> is_safe_relative_path (ze_name z)")
  case True
  then show ?thesis using assms(1,2) by (auto simp: unpack_member_def split: if_splits)
next
  case False
  obtain x where x: "extract_zip_entry (k_inflate env) d z = Some x" using extract_zip_entry_some by blast
  show ?thesis
  proof (cases x)
    case (Inl e)
    then show ?thesis using assms False x by (simp add: unpack_member_def)
  next
    case (Inr c)
    let ?p = "text_append out (ze_name z)"
    obtain q ops1 where e: "ensure_directory_tree env (text_parent ?p) (ze_name z) ops = (q, ops1)" by force
    have o1: "list_all (writes_member env d out es) ops1"
      using ensure_ops [OF e] assms(2) by (auto simp: writes_member_def)
    have "writes_member env d out es (WriteFile ?p c)" using False x Inr assms(3) by (auto simp: writes_member_def)
    then show ?thesis
      using assms(1) False x Inr e o1
      by (cases q) (auto simp: unpack_member_def Let_def split: sum.splits)
  qed
qed

lemma unpack_members_writes:
  "unpack_members env d out zs ops = Some (r, ops') \<Longrightarrow> list_all (writes_member env d out es) ops \<Longrightarrow>
   set zs \<subseteq> set es \<Longrightarrow> list_all (writes_member env d out es) ops'"
proof (induction zs arbitrary: ops)
  case (Cons z zs)
  obtain q ops1 where m: "unpack_member env d out z ops = Some (q, ops1)" using unpack_member_some by (metis surj_pair)
  have "list_all (writes_member env d out es) ops1" using unpack_member_writes [OF m Cons.prems(2)] Cons.prems(3) by simp
  then show ?case using Cons m by (cases q) auto
qed simp

lemma unpack_archive_writes:
  assumes "unpack_archive env d es dir sys = Some (r, ops)" "WriteFile p c \<in> set ops"
  shows "\<exists>j m. parse_manifest_to_app_manifest (k_parse env) j dir sys = Inr m \<and>
    manifest_text env d es = Some (Inr j) \<and>
    writes_member env d (text_append dir (am_id m)) es (WriteFile p c)"
proof -
  obtain t where t: "manifest_text env d es = Some t" using manifest_text_some by blast
  with assms obtain j m where j: "t = Inr j" "parse_manifest_to_app_manifest (k_parse env) j dir sys = Inr m"
    by (auto simp: unpack_archive_def split: sum.splits)
  let ?out = "text_append dir (am_id m)"
  obtain q ops1 where e: "ensure_directory_tree env ?out ''install_dir'' [] = (q, ops1)" by force
  have w1: "list_all (writes_member env d ?out es) ops1" using ensure_ops [OF e] by (auto simp: writes_member_def)
  have "q \<noteq> Inl x" for x
  proof
    assume "q = Inl x"
    then have "ops = ops1" using assms(1) t j e by (simp add: unpack_archive_def Let_def)
    then show False using ensure_ops [OF e] assms(2) by auto
  qed
  then obtain u where q: "q = Inr u" by (cases q) auto
  obtain q2 ops2 where u: "unpack_members env d ?out es ops1 = Some (q2, ops2)" using unpack_members_some by (metis surj_pair)
  have "ops = ops2" using assms(1) t j e q u by (simp add: unpack_archive_def Let_def)
  then show ?thesis using unpack_members_writes [OF u w1] assms(2) t j by (auto simp: list_all_iff)
qed

section \<open>Properties\<close>

lemma safe_path_lies_under:
  assumes "is_safe_relative_path n"
  shows "lies_under (path_of (text_append out n)) (path_of out)"
proof (rule append_lies_under)
  show "n \<noteq> []" "\<not> is_absolute_text n"
    using assms by (auto simp: is_safe_relative_path_def is_absolute_text_def split: if_splits)
  have "list_all (\<lambda>part. part \<noteq> ''..'') (lexically_normal (path_of n))"
    using assms by (auto simp: is_safe_relative_path_def Let_def split: if_splits)
  moreover have "set (kept_names (path_of n)) \<subseteq> set (lexically_normal (path_of n))"
    by (auto simp: lexically_normal_def kept_names_def relative_path_def is_absolute_def Let_def)
  ultimately show "''..'' \<notin> set (kept_names (path_of n))" by (auto simp: list_all_iff)
qed

text \<open>C17: Every file that unpacking writes is a member of the archive outside \<open>META-INF/\<close>, written with
  its content, and its path, dots resolved, lies under the directory of the manifest's id.\<close>

theorem unpack_stays_inside:
  assumes "unpack_archive env d es dir sys = Some (r, ops)" "WriteFile p c \<in> set ops"
    and "manifest_text env d es = Some (Inr j)" "parse_manifest_to_app_manifest (k_parse env) j dir sys = Inr m"
  shows "lies_under (path_of p) (path_of (text_append dir (am_id m))) \<and>
    (\<exists>z \<in> set es. \<not> starts_with ''META-INF/'' (ze_name z) \<and> extract_zip_entry (k_inflate env) d z = Some (Inr c) \<and>
      p = text_append (text_append dir (am_id m)) (ze_name z))"
proof -
  have "writes_member env d (text_append dir (am_id m)) es (WriteFile p c)"
    using unpack_archive_writes [OF assms(1,2)] assms(3,4) by auto
  then obtain z where "z \<in> set es" "\<not> starts_with ''META-INF/'' (ze_name z)" "is_safe_relative_path (ze_name z)"
    "extract_zip_entry (k_inflate env) d z = Some (Inr c)" "p = text_append (text_append dir (am_id m)) (ze_name z)"
    by (auto simp: writes_member_def)
  then show ?thesis using safe_path_lies_under by blast
qed

text \<open>A small archive environment: everything succeeds, JSON text is given by a table.\<close>

definition sample_manifest :: "string \<Rightarrow> json" where
  "sample_manifest i = JObject [(''package'', JObject [(''id'', JString i), (''version'', JString ''1.0.0'')]),
     (''runtime'', JObject [(''type'', JString ''lua''), (''entry'', JString ''app/app.lua'')])]"

definition sample_entry :: "string \<Rightarrow> nat \<Rightarrow> nat \<Rightarrow> zip_entry" where
  "sample_entry n off len = \<lparr>ze_name = n, ze_method = 0, ze_flags = 0, ze_compressed_size = len,
     ze_uncompressed_size = len, ze_local_header = off, ze_is_directory = False\<rparr>"

definition sample_local :: "u8 list \<Rightarrow> u8 list" where
  "sample_local content =
     [0x50, 0x4b, 0x03, 0x04, 0, 0, 0, 0, 0, 0, 0, 0, 0, 0, 0, 0, 0, 0, 0, 0, 0, 0, 0, 0, 0, 0, 0, 0, 0, 0] @ content"

definition sample_archive :: "u8 list" where
  "sample_archive = sample_local [0x6d, 0x6d] @ sample_local [0x61, 0x61] @ sample_local [0x62, 0x62]"

definition sample_pkg_env :: "json \<Rightarrow> pkg_env" where
  "sample_pkg_env j = \<lparr>k_stat = (\<lambda>p. Inr \<lparr>fi_exists = True, fi_is_file = True, fi_size = 0\<rparr>), k_read = (\<lambda>p n. Inr []),
     k_read_text = (\<lambda>p. Inr []), k_mkdir = (\<lambda>p. Inr ()), k_write = (\<lambda>p c. Inr ()), k_parse = (\<lambda>s. Some j),
     k_inflate = (\<lambda>c. None), k_sha256 = (\<lambda>c. Inr (take 32 (c @ replicate 32 0))), k_public_key = (\<lambda>k. Inr ()),
     k_verify = (\<lambda>k h g. Inr ())\<rparr>"

lemma sample_parse:
  "parse_manifest_to_app_manifest (k_parse (sample_pkg_env (sample_manifest (c # cs)))) t dir [] =
   Inr \<lparr>am_id = c # cs, am_name = c # cs, am_localized_names = [], am_version = ''1.0.0'', am_kind = Runtime, am_visible = True,
     am_preload_dom = False, am_icon_id = [], am_supported_systems = [], am_icon_path = [], am_runtime_type = Lua,
     am_app_path = dir, am_entry = ''app/app.lua'', am_resource_dir = [], am_arguments = [], am_services = []\<rparr>"
proof -
  have "is_safe_relative_path ''app/app.lua''"
    by (simp add: is_safe_relative_path_def path_of_def is_absolute_text_def is_absolute_def relative_path_def
        lexically_normal_def normal_step_def)
  moreover have char: "char_of (108 :: nat) = CHR ''l''" by code_simp
  ultimately show ?thesis
    by (simp add: parse_manifest_to_app_manifest_def sample_pkg_env_def sample_manifest_def get_object_def
        read_manifest_fields_def get_required_string_def get_optional_string_def get_optional_bool_def
        get_optional_string_array_def get_optional_localized_names_def get_manifest_services_def supports_system_def
        parse_backend_type_def string_to_enum_flexible_def backend_names_def to_snake_case_def
        resolve_app_display_name_def char)
qed

lemma sample_extract:
  "extract_zip_entry h sample_archive (sample_entry n 0 2) = Some (Inr [0x6d, 0x6d])"
  "extract_zip_entry h sample_archive (sample_entry n 32 2) = Some (Inr [0x61, 0x61])"
  "extract_zip_entry h sample_archive (sample_entry n 64 2) = Some (Inr [0x62, 0x62])"
  by (simp_all add: extract_zip_entry_def sample_entry_def sample_archive_def sample_local_def check_range_def zip_u32_def
      zip_u16_def read_byte_def local_signature_def read_span_def)

lemma sample_entry_fields [simp]: "ze_name (sample_entry n o' l) = n" "\<not> ze_is_directory (sample_entry n o' l)"
  by (simp_all add: sample_entry_def)

lemma sample_safe: "is_safe_relative_path ''manifest.json''" "is_safe_relative_path ''a.txt''"
  by (simp_all add: is_safe_relative_path_def path_of_def is_absolute_text_def is_absolute_def relative_path_def
      lexically_normal_def normal_step_def)

lemma sample_io: "k_mkdir (sample_pkg_env j) q = Inr ()" "k_write (sample_pkg_env j) q b = Inr ()"
  by (simp_all add: sample_pkg_env_def)

theorem unpack_stays_inside_witness:
  "\<exists>r ops. unpack_archive (sample_pkg_env (sample_manifest ''x'')) sample_archive
      [sample_entry ''manifest.json'' 0 2, sample_entry ''a.txt'' 32 2] ''/apps'' [] = Some (r, ops) \<and>
    WriteFile ''/apps/x/a.txt'' [0x61, 0x61] \<in> set ops \<and> lies_under (path_of ''/apps/x/a.txt'') (path_of ''/apps/x'')"
proof -
  let ?e = "sample_pkg_env (sample_manifest ''x'')"
  let ?es = "[sample_entry ''manifest.json'' 0 2, sample_entry ''a.txt'' 32 2]"
  have m: "manifest_text ?e sample_archive ?es = Some (Inr (bytes_str [0x6d, 0x6d]))"
    by (simp add: manifest_text_def app_manifest_file_def sample_extract)
  obtain r ops where u: "unpack_archive ?e sample_archive ?es ''/apps'' [] = Some (r, ops)"
    using unpack_archive_some by (metis surj_pair)
  have out: "text_append ''/apps'' ''x'' = ''/apps/x''" "text_append ''/apps/x'' ''a.txt'' = ''/apps/x/a.txt''"
    "text_append ''/apps/x'' ''manifest.json'' = ''/apps/x/manifest.json''"
    by (auto simp: text_append_def is_absolute_text_def)
  have w: "WriteFile ''/apps/x/a.txt'' [0x61, 0x61] \<in> set ops"
    using u m by (auto simp: unpack_archive_def sample_parse ensure_directory_tree_def sample_io unpack_member_def
        starts_with_def sample_safe sample_extract out text_parent_def Let_def)
  show ?thesis
    using unpack_stays_inside [OF u w m sample_parse] u w by (auto simp: out)
qed

text \<open>The id of a manifest is only required not to be empty: the id \<open>../../etc\<close> is accepted, and the
  directory the package is unpacked to then lies outside the install directory.\<close>

theorem package_id_escapes:
  "(case parse_manifest_to_app_manifest (k_parse (sample_pkg_env (sample_manifest ''../../etc''))) [] ''/data/apps'' [] of
      Inl e \<Rightarrow> False
    | Inr m \<Rightarrow> am_id m = ''../../etc'' \<and> \<not> lies_under (path_of (text_append ''/data/apps'' (am_id m))) (path_of ''/data/apps''))"
proof -
  have "kept_names (path_of ''/data/apps/../../etc'') = [''etc'']" "kept_names (path_of ''/data/apps'') = [''data'', ''apps'']"
    by (simp_all add: kept_names_path_of text_names_def normal_step_def is_absolute_text_def)
  then have "\<not> lies_under (path_of ''/data/apps/../../etc'') (path_of ''/data/apps'')" by (simp add: lies_under_def)
  then show ?thesis by (simp add: sample_parse text_append_def is_absolute_text_def)
qed

end
