(* ===== verification/Package_Verify.thy ===== *)
theory Package_Verify
  imports App_Package
begin

text \<open>
  The release check of app packages (\<open>system_core/src/package_release_verify.cpp\<close>): the digest
  manifest inside the package, its canonical form, the signature over it and the digests of the
  members. The parsing of PEM keys, the RSA-PSS check and SHA-256 are parameters of \<open>pkg_env\<close>.
  The check of a member whose digest entry lacks a field throws in C++; the canonical form, checked
  before, has both fields, so that branch gives an error here that no call returns.
\<close>

section \<open>Reading the package\<close>

definition verify_read_file :: "pkg_env \<Rightarrow> string \<Rightarrow> u8 list expected" where
  "verify_read_file env p =
     (case k_stat env p of
        Inl e \<Rightarrow> Inl (''Failed to stat file: '' @ p @ '', error: '' @ e)
      | Inr info \<Rightarrow>
          if \<not> fi_exists info \<or> \<not> fi_is_file info
          then Inl (''File does not exist or is not a regular file: '' @ p)
          else if fi_size info = 0 then Inr []
          else (case k_read env p (fi_size info) of
              Inl e \<Rightarrow> Inl (''Failed to read file: '' @ p @ '', error: '' @ e)
            | Inr d \<Rightarrow> if length d \<noteq> fi_size info then Inl (''File read size mismatch: '' @ p) else Inr d))"

definition ordered_member_paths :: "zip_entry list \<Rightarrow> bool \<Rightarrow> string list" where
  "ordered_member_paths entries exclude_meta_inf =
     (let names = map ze_name (filter (\<lambda>z. \<not> ze_is_directory z \<and> \<not> (ze_name z \<noteq> [] \<and> last (ze_name z) = CHR ''/'') \<and>
            \<not> (exclude_meta_inf \<and> starts_with ''META-INF/'' (ze_name z))) entries);
          rest = sort (filter (\<lambda>n. n \<noteq> ''manifest.json'') names)
      in if ''manifest.json'' \<in> set names then ''manifest.json'' # rest else sort names)"

definition find_zip_entry :: "zip_entry list \<Rightarrow> string \<Rightarrow> zip_entry option" where
  "find_zip_entry entries name = find (\<lambda>z. \<not> ze_is_directory z \<and> ze_name z = name) entries"

definition read_zip_member :: "pkg_env \<Rightarrow> u8 list \<Rightarrow> zip_entry list \<Rightarrow> string \<Rightarrow> u8 list expected option" where
  "read_zip_member env d entries name =
     (case find_zip_entry entries name of
        None \<Rightarrow> Some (Inl (''ZIP member missing: '' @ name))
      | Some z \<Rightarrow> extract_zip_entry (k_inflate env) d z)"

section \<open>The canonical form of the digest manifest\<close>

text \<open>\<open>snprintf\<close> of \<open>\\u%04x\<close> for a code below 32.\<close>

definition hex4 :: "nat \<Rightarrow> string" where
  "hex4 n = [CHR 0x5C, CHR ''u'', CHR ''0'', CHR ''0'',
     ''0123456789abcdef'' ! (n div 16), ''0123456789abcdef'' ! (n mod 16)]"

definition escape_char :: "char \<Rightarrow> string" where
  "escape_char c =
     (if c = CHR 0x22 then [CHR 0x5C, CHR 0x22]
      else if c = CHR 0x5C then [CHR 0x5C, CHR 0x5C]
      else if c = CHR 0x08 then [CHR 0x5C, CHR ''b'']
      else if c = CHR 0x0C then [CHR 0x5C, CHR ''f'']
      else if c = CHR 0x0A then [CHR 0x5C, CHR ''n'']
      else if c = CHR 0x0D then [CHR 0x5C, CHR ''r'']
      else if c = CHR 0x09 then [CHR 0x5C, CHR ''t'']
      else if c < CHR 0x20 then hex4 (of_char c) else [c])"

definition json_escaped :: "string \<Rightarrow> string" where
  "json_escaped s = CHR 0x22 # concat (map escape_char s) @ [CHR 0x22]"

definition digest_key :: "string \<Rightarrow> string" where
  "digest_key k = CHR 0x22 # k @ [CHR 0x22, CHR '':'']"

definition string_field :: "json_object \<Rightarrow> string \<Rightarrow> string option" where
  "string_field obj k = (case map_of obj k of Some (JString s) \<Rightarrow> Some s | _ \<Rightarrow> None)"

fun canonical_files :: "bool \<Rightarrow> json list \<Rightarrow> string expected" where
  "canonical_files first [] = Inr []"
| "canonical_files first (item # items) =
     (case item of
        JObject obj \<Rightarrow>
          (case string_field obj ''path'' of
             None \<Rightarrow> Inl ''digest manifest: file entry needs path''
           | Some p \<Rightarrow>
             (case string_field obj ''sha256'' of
                None \<Rightarrow> Inl ''digest manifest: file entry needs sha256''
              | Some h \<Rightarrow>
                (case canonical_files False items of
                   Inl e \<Rightarrow> Inl e
                 | Inr rest \<Rightarrow> Inr ((if first then [] else '','') @ ''{'' @ digest_key ''path'' @ json_escaped p @ '','' @
                     digest_key ''sha256'' @ json_escaped h @ ''}'' @ rest))))
      | _ \<Rightarrow> Inl ''digest manifest: files entry must be object'')"

definition canonical_digest_utf8 :: "json_object \<Rightarrow> string expected" where
  "canonical_digest_utf8 obj =
     (case (string_field obj ''schema'', map_of obj ''files'') of
        (None, _) \<Rightarrow> Inl ''digest manifest: missing or invalid schema''
      | (Some schema, Some (JArray items)) \<Rightarrow>
          (case canonical_files True items of
             Inl e \<Rightarrow> Inl e
           | Inr text \<Rightarrow> Inr (''{'' @ digest_key ''files'' @ ''['' @ text @ ''],'' @ digest_key ''schema'' @
               json_escaped schema @ ''}''))
      | _ \<Rightarrow> Inl ''digest manifest: missing or invalid files'')"

section \<open>The digests of the members\<close>

definition hex_nibble :: "u8 \<Rightarrow> char" where
  "hex_nibble v = ''0123456789abcdef'' ! unat v"

definition bytes_hex :: "u8 list \<Rightarrow> string" where
  "bytes_hex d = concat (map (\<lambda>v. [hex_nibble (drop_bit 4 v), hex_nibble (and v 0x0F)]) d)"

definition sha256_hex :: "pkg_env \<Rightarrow> u8 list \<Rightarrow> string expected" where
  "sha256_hex env d = (case k_sha256 env d of Inl e \<Rightarrow> Inl e | Inr h \<Rightarrow> Inr (bytes_hex h))"

text \<open>The check of one entry of the digest manifest.\<close>

definition check_digest_item :: "pkg_env \<Rightarrow> u8 list \<Rightarrow> zip_entry list \<Rightarrow> json \<Rightarrow> unit expected option" where
  "check_digest_item env d entries item =
     (case item of
        JObject obj \<Rightarrow>
          (case (string_field obj ''path'', string_field obj ''sha256'') of
             (Some p, Some expect_hex) \<Rightarrow>
               if length expect_hex \<noteq> 64 then Some (Inl ''digest sha256 must be 64 hex chars'')
               else if \<not> list_all is_xdigit expect_hex then Some (Inl ''digest sha256 must be hex'')
               else (case find_zip_entry entries p of
                   None \<Rightarrow> Some (Inl (''digest references missing ZIP member: '' @ p))
                 | Some z \<Rightarrow> Option.bind (extract_zip_entry (k_inflate env) d z) (\<lambda>r. Some (case r of
                     Inl e \<Rightarrow> Inl e
                   | Inr content \<Rightarrow>
                     (case sha256_hex env content of
                        Inl e \<Rightarrow> Inl e
                      | Inr got_hex \<Rightarrow>
                          if got_hex \<noteq> map to_lower expect_hex
                          then Inl (''Content mismatch for '' @ p @ '': package was modified after signing'')
                          else Inr ()))))
           | _ \<Rightarrow> Some (Inl ''exception''))
      | _ \<Rightarrow> Some (Inl ''exception''))"

fun check_digest_items :: "pkg_env \<Rightarrow> u8 list \<Rightarrow> zip_entry list \<Rightarrow> json list \<Rightarrow> unit expected option" where
  "check_digest_items env d entries [] = Some (Inr ())"
| "check_digest_items env d entries (item # items) =
     Option.bind (check_digest_item env d entries item) (\<lambda>r.
       case r of Inl e \<Rightarrow> Some (Inl e) | Inr _ \<Rightarrow> check_digest_items env d entries items)"

fun listed_paths :: "json list \<Rightarrow> string list expected" where
  "listed_paths [] = Inr []"
| "listed_paths (item # items) =
     (case item of
        JObject obj \<Rightarrow>
          (case string_field obj ''path'' of
             None \<Rightarrow> Inl ''digest entry needs path''
           | Some p \<Rightarrow> (case listed_paths items of Inl e \<Rightarrow> Inl e | Inr ps \<Rightarrow> Inr (p # ps)))
      | _ \<Rightarrow> Inl ''digest entry must be object'')"

definition digest_schema_meta_inf :: string where
  "digest_schema_meta_inf = ''esp-brookesia-meta-inf-v1''"

definition legacy_digest_schema :: string where
  "legacy_digest_schema = ''esp-brookesia-detached-v1''"

definition legacy_schema_error :: string where
  "legacy_schema_error = ''Digest uses removed detached scheme esp-brookesia-detached-v1; '' @
     ''re-pack with META-INF (tools/app_pack.py pack|sign --private-key '' @ [CHR 0xE2, CHR 0x80, CHR 0xA6] @ '') only''"

definition verify_digest_zip_consistency :: "pkg_env \<Rightarrow> u8 list \<Rightarrow> zip_entry list \<Rightarrow> u8 list \<Rightarrow> unit expected option" where
  "verify_digest_zip_consistency env d entries digest_raw =
     (case k_parse env (bytes_str digest_raw) of
        Some (JObject obj) \<Rightarrow>
          (case string_field obj ''schema'' of
             None \<Rightarrow> Some (Inl ''digest manifest schema must be a string'')
           | Some schema \<Rightarrow>
             if schema = legacy_digest_schema then Some (Inl legacy_schema_error)
             else if schema \<noteq> digest_schema_meta_inf
             then Some (Inl ''digest manifest schema not supported (expected esp-brookesia-meta-inf-v1)'')
             else (case canonical_digest_utf8 obj of
                 Inl e \<Rightarrow> Some (Inl e)
               | Inr canonical \<Rightarrow>
                   if canonical \<noteq> bytes_str digest_raw then Some (Inl ''digest manifest is not in canonical form'')
                   else (case map_of obj ''files'' of
                       Some (JArray items) \<Rightarrow>
                         (case listed_paths items of
                            Inl e \<Rightarrow> Some (Inl e)
                          | Inr listed \<Rightarrow>
                              if set (ordered_member_paths entries True) \<noteq> set listed
                              then Some (Inl ''Package member set does not match digest manifest paths'')
                              else check_digest_items env d entries items)
                     | _ \<Rightarrow> Some (Inl (''digest manifest '' @ CHR 0x27 # ''files'' @ CHR 0x27 # '' must be an array'')))))
      | _ \<Rightarrow> Some (Inl ''Invalid digest manifest JSON''))"

section \<open>The signature\<close>

definition verify_signature :: "pkg_env \<Rightarrow> u8 list \<Rightarrow> u8 list \<Rightarrow> string \<Rightarrow> unit expected" where
  "verify_signature env digest_body signature public_pem_path =
     (case verify_read_file env public_pem_path of
        Inl e \<Rightarrow> Inl e
      | Inr pem \<Rightarrow>
        (case k_public_key env (pem @ [0]) of
           Inl e \<Rightarrow> Inl (''Failed to parse public key PEM: '' @ e)
         | Inr _ \<Rightarrow>
           (case k_sha256 env digest_body of
              Inl e \<Rightarrow> Inl e
            | Inr h \<Rightarrow>
              (case k_verify env (pem @ [0]) h signature of
                 Inl e \<Rightarrow> Inl (''Signature verification failed: '' @ e)
               | Inr _ \<Rightarrow> Inr ()))))"

definition meta_inf_hash_json :: string where
  "meta_inf_hash_json = ''META-INF/hash.json''"

definition meta_inf_signature :: string where
  "meta_inf_signature = ''META-INF/signature.sig''"

definition verify_entries :: "pkg_env \<Rightarrow> u8 list \<Rightarrow> zip_entry list \<Rightarrow> string \<Rightarrow> unit expected option" where
  "verify_entries env d entries public_pem_path =
     (let has_hash = find_zip_entry entries meta_inf_hash_json \<noteq> None;
          has_sig = find_zip_entry entries meta_inf_signature \<noteq> None in
      if has_hash \<noteq> has_sig
      then Some (Inl ''Incomplete release signing: need both META-INF/hash.json and META-INF/signature.sig inside the .bpk'')
      else if \<not> has_hash \<or> \<not> has_sig
      then Some (Inl ''Package is not signed: missing META-INF/hash.json or META-INF/signature.sig'')
      else Option.bind (read_zip_member env d entries meta_inf_hash_json) (\<lambda>h.
        case h of
          Inl e \<Rightarrow> Some (Inl e)
        | Inr hash_bytes \<Rightarrow> Option.bind (read_zip_member env d entries meta_inf_signature) (\<lambda>g.
            case g of
              Inl e \<Rightarrow> Some (Inl e)
            | Inr sig_bytes \<Rightarrow>
              (case verify_signature env hash_bytes sig_bytes public_pem_path of
                 Inl e \<Rightarrow> Some (Inl e)
               | Inr _ \<Rightarrow> verify_digest_zip_consistency env d entries hash_bytes))))"

definition verify_app_package_release :: "pkg_env \<Rightarrow> string \<Rightarrow> string \<Rightarrow> unit expected option" where
  "verify_app_package_release env package_path public_pem_path =
     (if public_pem_path = [] then Some (Inl ''public_key_pem_path is empty'')
      else case verify_read_file env package_path of
        Inl e \<Rightarrow> Some (Inl e)
      | Inr d \<Rightarrow>
          Option.bind (parse_central_directory d) (\<lambda>r.
            case r of
              Inl e \<Rightarrow> Some (Inl e)
            | Inr entries \<Rightarrow> verify_entries env d entries public_pem_path))"

section \<open>What the check guarantees\<close>

text \<open>The digests the manifest lists, in lower case, for the members in its order.\<close>

fun item_digest :: "json \<Rightarrow> (string \<times> string) option" where
  "item_digest (JObject obj) =
     (case (string_field obj ''path'', string_field obj ''sha256'') of
        (Some p, Some h) \<Rightarrow> Some (p, map to_lower h) | _ \<Rightarrow> None)"
| "item_digest _ = None"

definition signed_digests :: "pkg_env \<Rightarrow> u8 list \<Rightarrow> (string \<times> string) list" where
  "signed_digests env digest_raw =
     (case k_parse env (bytes_str digest_raw) of
        Some (JObject obj) \<Rightarrow> (case map_of obj ''files'' of Some (JArray items) \<Rightarrow> List.map_filter item_digest items | _ \<Rightarrow> [])
      | _ \<Rightarrow> [])"

lemma check_digest_item_some: "\<exists>r. check_digest_item env d es item = Some r"
  by (auto simp: check_digest_item_def split: json.split option.split)
    (metis bind.bind_lunit extract_zip_entry_some)+

lemma check_digest_items_some: "\<exists>r. check_digest_items env d es items = Some r"
proof (induction items)
  case (Cons item items)
  obtain r where "check_digest_item env d es item = Some r" using check_digest_item_some by blast
  then show ?case using Cons by (cases r) simp_all
qed simp

lemma verify_digest_some: "\<exists>r. verify_digest_zip_consistency env d es raw = Some r"
  using check_digest_items_some [of env d es]
  by (auto simp: verify_digest_zip_consistency_def split: option.split json.split sum.split)

lemma read_zip_member_some: "\<exists>r. read_zip_member env d es n = Some r"
  using extract_zip_entry_some [of "k_inflate env" d] by (auto simp: read_zip_member_def split: option.split)

lemma verify_entries_some: "\<exists>r. verify_entries env d es pem = Some r"
proof -
  obtain h g where "read_zip_member env d es meta_inf_hash_json = Some h" "read_zip_member env d es meta_inf_signature = Some g"
    using read_zip_member_some by blast
  then show ?thesis
    using verify_digest_some [of env d es] by (auto simp: verify_entries_def Let_def split: sum.split)
qed

lemma check_digest_items_all:
  "check_digest_items env d es items = Some (Inr ()) \<Longrightarrow> item \<in> set items \<Longrightarrow> check_digest_item env d es item = Some (Inr ())"
proof (induction items)
  case (Cons i items)
  obtain r where r: "check_digest_item env d es i = Some r" using check_digest_item_some by blast
  then show ?case using Cons by (cases r) auto
qed simp

lemma check_digest_item_ok:
  assumes "check_digest_item env d es item = Some (Inr ())"
  shows "\<exists>p h z c. item_digest item = Some (p, h) \<and> find_zip_entry es p = Some z \<and>
    extract_zip_entry (k_inflate env) d z = Some (Inr c) \<and> sha256_hex env c = Inr h"
proof (cases item)
  case (JObject obj)
  with assms obtain p x where f: "string_field obj ''path'' = Some p" "string_field obj ''sha256'' = Some x"
    "length x = 64" "list_all is_xdigit x"
    by (auto simp: check_digest_item_def split: option.splits if_splits)
  with assms JObject obtain z where z: "find_zip_entry es p = Some z"
    by (auto simp: check_digest_item_def split: option.splits)
  obtain r where r: "extract_zip_entry (k_inflate env) d z = Some r" using extract_zip_entry_some by blast
  with assms JObject f z obtain c where "r = Inr c" "sha256_hex env c = Inr (map to_lower x)"
    by (auto simp: check_digest_item_def split: sum.splits if_splits)
  then show ?thesis using JObject f z r by auto
qed (use assms in \<open>simp_all add: check_digest_item_def\<close>)

lemma listed_paths_set:
  "listed_paths items = Inr ps \<Longrightarrow> p \<in> set ps \<Longrightarrow> \<exists>item \<in> set items. \<exists>obj. item = JObject obj \<and> string_field obj ''path'' = Some p"
proof (induction items arbitrary: ps)
  case (Cons item items)
  then show ?case by (cases item) (auto split: option.splits sum.splits)
qed simp

lemma set_ordered_member_paths:
  "set (ordered_member_paths es True) = ze_name ` {z \<in> set es. \<not> ze_is_directory z \<and>
     \<not> (ze_name z \<noteq> [] \<and> last (ze_name z) = CHR ''/'') \<and> \<not> starts_with ''META-INF/'' (ze_name z)}"
  by (auto simp: ordered_member_paths_def Let_def)

text \<open>The member of a name that the check looked at is the first.\<close>

lemma find_zip_entry_distinct:
  assumes "distinct (map ze_name (filter (\<lambda>z. \<not> ze_is_directory z) es))" "z \<in> set es" "\<not> ze_is_directory z"
  shows "find_zip_entry es (ze_name z) = Some z"
  using assms by (induction es) (auto simp: find_zip_entry_def split: if_splits)

lemma verified_member:
  assumes v: "verify_digest_zip_consistency env d es raw = Some (Inr ())"
    and z: "z \<in> set es" "\<not> ze_is_directory z" "\<not> (ze_name z \<noteq> [] \<and> last (ze_name z) = CHR ''/'')"
      "\<not> starts_with ''META-INF/'' (ze_name z)"
    and first: "find_zip_entry es (ze_name z) = Some z"
  shows "\<exists>c h. extract_zip_entry (k_inflate env) d z = Some (Inr c) \<and> sha256_hex env c = Inr h \<and>
    (ze_name z, h) \<in> set (signed_digests env raw)"
proof -
  obtain obj items listed where o: "k_parse env (bytes_str raw) = Some (JObject obj)" "map_of obj ''files'' = Some (JArray items)"
    "listed_paths items = Inr listed" "set (ordered_member_paths es True) = set listed"
    "check_digest_items env d es items = Some (Inr ())"
    using v by (auto simp: verify_digest_zip_consistency_def split: option.splits json.splits sum.splits if_splits)
  have "ze_name z \<in> set listed" using z unfolding o(4) [symmetric] set_ordered_member_paths by auto
  then obtain item io where i: "item \<in> set items" "item = JObject io" "string_field io ''path'' = Some (ze_name z)"
    using listed_paths_set [OF o(3)] by blast
  obtain p h z' c where c: "item_digest item = Some (p, h)" "find_zip_entry es p = Some z'"
    "extract_zip_entry (k_inflate env) d z' = Some (Inr c)" "sha256_hex env c = Inr h"
    using check_digest_item_ok [OF check_digest_items_all [OF o(5) i(1)]] by blast
  have p: "p = ze_name z" using c(1) i(2,3) by (auto split: option.splits)
  then have "z' = z" using first c(2) by simp
  moreover have "(p, h) \<in> set (signed_digests env raw)"
    using o(1,2) c(1) i(1) by (force simp: signed_digests_def map_filter_def)
  ultimately show ?thesis using c p by blast
qed

text \<open>The directory flag is read off the name.\<close>

definition flag_ok :: "zip_entry \<Rightarrow> bool" where
  "flag_ok z \<longleftrightarrow> ze_is_directory z = (ze_name z \<noteq> [] \<and> last (ze_name z) = CHR ''/'')"

lemma read_central_entry_flag: "read_central_entry d c = Some (Inr (z, c')) \<Longrightarrow> flag_ok z"
  by (auto simp: read_central_entry_def Let_def flag_ok_def bind_eq_Some_conv split: if_splits)

lemma read_entries_flags: "read_entries d n c = Some (Inr es) \<Longrightarrow> list_all flag_ok es"
proof (induction n arbitrary: c es)
  case (Suc n)
  obtain x where x: "read_central_entry d c = Some x" using read_central_entry_some by blast
  show ?case
  proof (cases x)
    case (Inr zc)
    obtain z c' where zc: "zc = (z, c')" by (cases zc)
    obtain y where y: "read_entries d n c' = Some y" using read_entries_some by blast
    show ?thesis using Suc x Inr zc y read_central_entry_flag [of d c z c'] by (cases y) auto
  qed (use Suc.prems x in simp)
qed simp

lemma parsed_flags: "parse_central_directory d = Some (Inr es) \<Longrightarrow> list_all flag_ok es"
  by (auto simp: parse_central_directory_def bind_eq_Some_conv dest: read_entries_flags split: option.splits if_splits)

lemma verify_entries_ok:
  assumes "verify_entries env d es pem = Some (Inr ())"
  shows "\<exists>raw g. read_zip_member env d es meta_inf_hash_json = Some (Inr raw) \<and>
    read_zip_member env d es meta_inf_signature = Some (Inr g) \<and> verify_signature env raw g pem = Inr () \<and>
    verify_digest_zip_consistency env d es raw = Some (Inr ())"
proof -
  obtain x y where x: "read_zip_member env d es meta_inf_hash_json = Some x" "read_zip_member env d es meta_inf_signature = Some y"
    using read_zip_member_some by blast
  then show ?thesis using assms
    by (cases x; cases y) (auto simp: verify_entries_def Let_def split: if_splits sum.splits)
qed

section \<open>Properties\<close>


text \<open>A small signed package: its digest manifest, in canonical form, is what its \<open>hash.json\<close> inflates to.\<close>

definition signed_file :: "string \<Rightarrow> string \<Rightarrow> json" where
  "signed_file p h = JObject [(''path'', JString p), (''sha256'', JString (h @ replicate 60 (CHR ''0'')))]"

definition signed_digest :: json_object where
  "signed_digest = [(''files'', JArray [signed_file ''a.txt'' ''6161'', signed_file ''manifest.json'' ''6d6d'']),
     (''schema'', JString digest_schema_meta_inf)]"

definition signed_text :: string where
  "signed_text = (case canonical_digest_utf8 signed_digest of Inl e \<Rightarrow> [] | Inr t \<Rightarrow> t)"

definition signed_env :: pkg_env where
  "signed_env = (sample_pkg_env (sample_manifest ''x''))
     \<lparr>k_parse := \<lambda>s. Some (if s = ''mm'' then sample_manifest ''x'' else JObject signed_digest),
      k_inflate := \<lambda>c. Some (map of_char signed_text)\<rparr>"

definition signed_entries :: "zip_entry list" where
  "signed_entries = [sample_entry ''manifest.json'' 0 2, sample_entry ''a.txt'' 32 2,
     (sample_entry meta_inf_hash_json 64 2)\<lparr>ze_method := 8, ze_uncompressed_size := length signed_text\<rparr>,
     sample_entry meta_inf_signature 64 2]"

lemma signed_find:
  "find_zip_entry signed_entries ''manifest.json'' = Some (sample_entry ''manifest.json'' 0 2)"
  "find_zip_entry signed_entries ''a.txt'' = Some (sample_entry ''a.txt'' 32 2)"
  "find_zip_entry signed_entries meta_inf_hash_json =
     Some ((sample_entry meta_inf_hash_json 64 2)\<lparr>ze_method := 8, ze_uncompressed_size := length signed_text\<rparr>)"
  "find_zip_entry signed_entries meta_inf_signature = Some (sample_entry meta_inf_signature 64 2)"
  by (simp_all add: find_zip_entry_def signed_entries_def sample_entry_def meta_inf_hash_json_def meta_inf_signature_def)

lemma signed_hash_member: "read_zip_member signed_env sample_archive signed_entries meta_inf_hash_json = Some (Inr (map of_char signed_text))"
  by (simp add: read_zip_member_def signed_find extract_zip_entry_def sample_entry_def sample_archive_def sample_local_def
      check_range_def zip_u32_def zip_u16_def read_byte_def local_signature_def read_span_def inflate_raw_deflate_def signed_env_def)

lemma signed_signature_member: "read_zip_member signed_env sample_archive signed_entries meta_inf_signature = Some (Inr [0x62, 0x62])"
  by (simp add: read_zip_member_def signed_find sample_extract)

lemma signed_canonical: "canonical_digest_utf8 signed_digest = Inr signed_text" "take 1 signed_text = ''{''"
  by (simp_all add: signed_text_def canonical_digest_utf8_def signed_digest_def signed_file_def string_field_def)

lemma signed_hashes:
  "sha256_hex signed_env [0x6d, 0x6d] = Inr (''6d6d'' @ replicate 60 (CHR ''0''))"
  "sha256_hex signed_env [0x61, 0x61] = Inr (''6161'' @ replicate 60 (CHR ''0''))"
  "map to_lower (''6d6d'' @ replicate 60 (CHR ''0'')) = ''6d6d'' @ replicate 60 (CHR ''0'')"
  "map to_lower (''6161'' @ replicate 60 (CHR ''0'')) = ''6161'' @ replicate 60 (CHR ''0'')"
  "list_all is_xdigit (''6d6d'' @ replicate 60 (CHR ''0''))" "list_all is_xdigit (''6161'' @ replicate 60 (CHR ''0''))"
  by (simp_all add: signed_env_def sample_pkg_env_def sha256_hex_def) code_simp+

lemma signed_consistency: "verify_digest_zip_consistency signed_env sample_archive signed_entries (map of_char signed_text) = Some (Inr ())"
proof -
  have "unat (of_char c :: u8) = of_char c" for c :: char
    by (subst of_nat_of_char [symmetric]) (simp add: unat_of_nat del: of_nat_of_char)
  then have raw: "bytes_str (map of_char signed_text) = signed_text" by (simp add: bytes_str_def comp_def)
  have "signed_text \<noteq> ''mm''"
  proof
    assume e: "signed_text = ''mm''"
    show False using signed_canonical(2) unfolding e by simp
  qed
  then have parse: "k_parse signed_env signed_text = Some (JObject signed_digest)" by (simp add: signed_env_def)
  have fields: "string_field signed_digest ''schema'' = Some digest_schema_meta_inf"
    "map_of signed_digest ''files'' = Some (JArray [signed_file ''a.txt'' ''6161'', signed_file ''manifest.json'' ''6d6d''])"
    by (simp_all add: signed_digest_def string_field_def)
  have listed: "listed_paths [signed_file ''a.txt'' ''6161'', signed_file ''manifest.json'' ''6d6d''] = Inr [''a.txt'', ''manifest.json'']"
    by (simp add: signed_file_def string_field_def)
  have paths: "set (ordered_member_paths signed_entries True) = {''a.txt'', ''manifest.json''}"
    by (auto simp: ordered_member_paths_def Let_def signed_entries_def meta_inf_hash_json_def meta_inf_signature_def starts_with_def)
  have items: "check_digest_item signed_env sample_archive signed_entries (signed_file ''a.txt'' ''6161'') = Some (Inr ())"
    "check_digest_item signed_env sample_archive signed_entries (signed_file ''manifest.json'' ''6d6d'') = Some (Inr ())"
    using signed_hashes by (simp_all add: check_digest_item_def signed_file_def string_field_def signed_find sample_extract)
  have schema: "digest_schema_meta_inf \<noteq> legacy_digest_schema" by (simp add: digest_schema_meta_inf_def legacy_digest_schema_def)
  show ?thesis
    by (simp add: verify_digest_zip_consistency_def raw parse fields listed paths items schema signed_canonical
        del: listed_paths.simps)
qed

lemma signed_verified: "verify_entries signed_env sample_archive signed_entries ''key'' = Some (Inr ())"
proof -
  have "verify_signature signed_env raw g ''key'' = Inr ()" for raw g
    by (simp add: verify_signature_def verify_read_file_def signed_env_def sample_pkg_env_def)
  then show ?thesis
    by (simp add: verify_entries_def signed_find signed_hash_member signed_signature_member signed_consistency)
qed


lemma find_zip_entry_append:
  "z' \<in> set es \<Longrightarrow> \<not> ze_is_directory z' \<Longrightarrow> ze_name z = ze_name z' \<Longrightarrow> find_zip_entry (es @ [z]) n = find_zip_entry es n"
proof -
  assume a: "z' \<in> set es" "\<not> ze_is_directory z'" "ze_name z = ze_name z'"
  have app: "find P (es @ [z]) = (case find P es of None \<Rightarrow> if P z then Some z else None | Some x \<Rightarrow> Some x)" for P
    by (induction es) auto
  show ?thesis
  proof (cases "find_zip_entry es n")
    case None
    then have "ze_name z \<noteq> n" using a by (auto simp: find_zip_entry_def find_None_iff)
    then show ?thesis using None unfolding find_zip_entry_def app by simp
  next
    case (Some x)
    then show ?thesis unfolding find_zip_entry_def app by simp
  qed
qed

lemma unpack_members_append:
  "unpack_members env d out es ops = Some (Inr (), ops') \<Longrightarrow>
   unpack_members env d out (es @ [z]) ops = unpack_members env d out [z] ops'"
proof (induction es arbitrary: ops)
  case (Cons x es)
  obtain q ops1 where m: "unpack_member env d out x ops = Some (q, ops1)" using unpack_member_some by (metis surj_pair)
  then show ?case using Cons by (cases q) auto
qed simp

text \<open>The check does not see a second member of a name: appending one to an archive changes no result
  of the check, and unpacking writes its content last, over the signed one.\<close>

theorem duplicate_member_unchecked:
  assumes "z' \<in> set es" "\<not> ze_is_directory z'" "ze_name z = ze_name z'" "\<not> ze_is_directory z"
    and "\<not> starts_with ''META-INF/'' (ze_name z)" "is_safe_relative_path (ze_name z)" "flag_ok z'"
    and "extract_zip_entry (k_inflate env) d z = Some (Inr c)" "\<And>q. k_mkdir env q = Inr ()"
    and "unpack_members env d out es ops = Some (Inr (), ops')"
  shows "verify_entries env d (es @ [z]) pem = verify_entries env d es pem \<and>
    (\<exists>r ops''. unpack_members env d out (es @ [z]) ops =
      Some (r, ops' @ ops'' @ [WriteFile (text_append out (ze_name z)) c]))"
proof -
  have find: "find_zip_entry (es @ [z]) n = find_zip_entry es n" for n
    using find_zip_entry_append [OF assms(1-3)] by simp
  have item: "check_digest_item env d (es @ [z]) i = check_digest_item env d es i" for i
    unfolding check_digest_item_def find ..
  have items: "check_digest_items env d (es @ [z]) is = check_digest_items env d es is" for "is"
    by (induction "is") (simp_all add: item)
  have paths: "set (ordered_member_paths (es @ [z]) True) = set (ordered_member_paths es True)"
    unfolding set_ordered_member_paths using assms(1-5,7) by (auto simp: flag_ok_def)
  have con: "verify_digest_zip_consistency env d (es @ [z]) raw = verify_digest_zip_consistency env d es raw" for raw
    unfolding verify_digest_zip_consistency_def items paths ..
  have "verify_entries env d (es @ [z]) pem = verify_entries env d es pem"
    unfolding verify_entries_def find read_zip_member_def con ..
  moreover have "\<exists>r ops''. unpack_members env d out [z] ops' = Some (r, ops' @ ops'' @ [WriteFile (text_append out (ze_name z)) c])"
    using assms(4-6,8,9)
    by (auto simp: unpack_member_def Let_def ensure_directory_tree_def split: sum.split)
  ultimately show ?thesis using unpack_members_append [OF assms(10)] by simp
qed

theorem duplicate_member_unchecked_witness:
  "\<exists>r ops ops''. unpack_members signed_env sample_archive ''/apps/x'' (signed_entries @ [sample_entry ''a.txt'' 64 2]) [] =
      Some (r, ops @ ops'' @ [WriteFile ''/apps/x/a.txt'' [0x62, 0x62]]) \<and>
    verify_entries signed_env sample_archive (signed_entries @ [sample_entry ''a.txt'' 64 2]) ''key'' = Some (Inr ())"
proof -
  let ?a = "sample_entry ''a.txt'' 32 2" and ?b = "sample_entry ''a.txt'' 64 2"
  have io: "k_mkdir signed_env q = Inr ()" "k_write signed_env q b = Inr ()" for q b
    by (simp_all add: signed_env_def sample_pkg_env_def)
  have out: "text_append ''/apps/x'' ''a.txt'' = ''/apps/x/a.txt''" "text_append ''/apps/x'' ''manifest.json'' = ''/apps/x/manifest.json''"
    by (auto simp: text_append_def is_absolute_text_def)
  have "\<exists>ops. unpack_members signed_env sample_archive ''/apps/x'' signed_entries [] = Some (Inr (), ops)"
    by (simp add: signed_entries_def unpack_member_def starts_with_def sample_safe sample_extract out text_parent_def Let_def
        ensure_directory_tree_def io meta_inf_hash_json_def meta_inf_signature_def)
  then obtain ops where u: "unpack_members signed_env sample_archive ''/apps/x'' signed_entries [] = Some (Inr (), ops)" by blast
  have "flag_ok ?a" "\<not> starts_with ''META-INF/'' (ze_name ?b)" "is_safe_relative_path (ze_name ?b)" "?a \<in> set signed_entries"
    by (simp_all add: flag_ok_def sample_entry_def starts_with_def sample_safe signed_entries_def)
  then show ?thesis
    using duplicate_member_unchecked [where z' = ?a and z = ?b and pem = "''key''", OF _ _ _ _ _ _ _ sample_extract(3) io(1) u]
    by (auto simp: out signed_verified)
qed

text \<open>C40: Whatever bytes a package has, the reader stays inside it: no access is out of range, in the
  central directory, in a member, or anywhere in the release check and in unpacking.\<close>

theorem package_reads_in_range:
  "verify_app_package_release env pkg pem \<noteq> None \<and> unpack_app_package_to env pkg dir sys \<noteq> None"
proof -
  have v: "Option.bind (parse_central_directory d) (\<lambda>r. case r of Inl e \<Rightarrow> Some (Inl e)
      | Inr es \<Rightarrow> verify_entries env d es pem) \<noteq> None" for d
  proof -
    obtain r where "parse_central_directory d = Some r" using parse_central_directory_some by blast
    then show ?thesis using verify_entries_some [of env d _ pem] by (cases r) auto
  qed
  have u: "Option.bind (parse_central_directory d) (\<lambda>r. case r of Inl e \<Rightarrow> Some (Inl e, [])
      | Inr es \<Rightarrow> unpack_archive env d es dir sys) \<noteq> None" for d
  proof -
    obtain r where "parse_central_directory d = Some r" using parse_central_directory_some by blast
    then show ?thesis using unpack_archive_some [of env d _ dir sys] by (cases r) auto
  qed
  have "verify_app_package_release env pkg pem \<noteq> None"
    using v by (cases "verify_read_file env pkg") (auto simp: verify_app_package_release_def)
  moreover have "unpack_app_package_to env pkg dir sys \<noteq> None"
    using u by (cases "read_binary_file env pkg") (auto simp: unpack_app_package_to_def)
  ultimately show ?thesis ..
qed

end
