(* ===== verification/Acts.thy ===== *)
theory Acts
  imports Main
begin

text \<open>
  Sequences of calls on a shared state: an act takes the state and gives a result and the new state, or
  \<open>None\<close> when it does not return. \<open>valid P m Q\<close> says that from a state with \<open>P\<close> the act, if it returns, ends in
  a state and with a result that satisfy \<open>Q\<close>; \<open>returns\<close> that it always returns.
\<close>

type_synonym ('s, 'r) act = "'s \<Rightarrow> ('r \<times> 's) option"

named_theorems act_intros

definition ret :: "'r \<Rightarrow> ('s, 'r) act" where
  "ret x = (\<lambda>s. Some (x, s))"

definition seq :: "('s, 'a) act \<Rightarrow> ('a \<Rightarrow> ('s, 'b) act) \<Rightarrow> ('s, 'b) act" where
  "seq m k = (\<lambda>s. case m s of None \<Rightarrow> None | Some (x, s') \<Rightarrow> k x s')"

definition modify :: "('s \<Rightarrow> 's) \<Rightarrow> ('s, unit) act" where
  "modify f = (\<lambda>s. Some ((), f s))"

definition gets :: "('s \<Rightarrow> 'r) \<Rightarrow> ('s, 'r) act" where
  "gets f = (\<lambda>s. Some (f s, s))"

definition perform :: "('s \<Rightarrow> 'r \<times> 's) \<Rightarrow> ('s, 'r) act" where
  "perform f = (\<lambda>s. Some (f s))"

section \<open>Triples\<close>

definition valid :: "('s \<Rightarrow> bool) \<Rightarrow> ('s, 'r) act \<Rightarrow> ('r \<Rightarrow> 's \<Rightarrow> bool) \<Rightarrow> bool" where
  "valid P m Q \<longleftrightarrow> (\<forall>s x s'. P s \<longrightarrow> m s = Some (x, s') \<longrightarrow> Q x s')"

abbreviation keeps :: "('s \<Rightarrow> bool) \<Rightarrow> ('s, 'r) act \<Rightarrow> bool" where
  "keeps P m \<equiv> valid P m (\<lambda>_. P)"

definition returns :: "('s, 'r) act \<Rightarrow> bool" where
  "returns m \<longleftrightarrow> (\<forall>s. m s \<noteq> None)"

lemma validD: "valid P m Q \<Longrightarrow> P s \<Longrightarrow> m s = Some (x, s') \<Longrightarrow> Q x s'"
  by (simp add: valid_def)

lemma validI: "(\<And>s x s'. P s \<Longrightarrow> m s = Some (x, s') \<Longrightarrow> Q x s') \<Longrightarrow> valid P m Q"
  by (simp add: valid_def)

lemma valid_ret: "(\<And>s. P s \<Longrightarrow> Q x s) \<Longrightarrow> valid P (ret x) Q"
  by (simp add: valid_def ret_def)

lemma valid_seq: "valid P m R \<Longrightarrow> (\<And>x. valid (R x) (k x) Q) \<Longrightarrow> valid P (seq m k) Q"
  unfolding valid_def seq_def by (fastforce split: option.splits)

lemma valid_modify: "(\<And>s. P s \<Longrightarrow> Q () (f s)) \<Longrightarrow> valid P (modify f) Q"
  by (simp add: valid_def modify_def)

lemma valid_gets: "(\<And>s. P s \<Longrightarrow> Q (f s) s) \<Longrightarrow> valid P (gets f) Q"
  by (simp add: valid_def gets_def)

lemma valid_perform: "(\<And>s x s'. P s \<Longrightarrow> f s = (x, s') \<Longrightarrow> Q x s') \<Longrightarrow> valid P (perform f) Q"
  by (simp add: valid_def perform_def)

lemma valid_pre: "valid P' m Q \<Longrightarrow> (\<And>s. P s \<Longrightarrow> P' s) \<Longrightarrow> valid P m Q"
  unfolding valid_def by blast

lemma valid_post: "valid P m Q' \<Longrightarrow> (\<And>x s. Q' x s \<Longrightarrow> Q x s) \<Longrightarrow> valid P m Q"
  unfolding valid_def by blast

lemma valid_conj: "valid P m Q \<Longrightarrow> valid P' m Q' \<Longrightarrow> valid (\<lambda>s. P s \<and> P' s) m (\<lambda>x s. Q x s \<and> Q' x s)"
  unfolding valid_def by blast

section \<open>Invariants\<close>

lemma keeps_seq [act_intros]: "keeps P m \<Longrightarrow> (\<And>x. keeps P (k x)) \<Longrightarrow> keeps P (seq m k)"
  by (rule valid_seq)

lemma keeps_ret [act_intros]: "keeps P (ret x)"
  by (simp add: valid_def ret_def)

lemma keeps_gets [act_intros]: "keeps P (gets f)"
  by (simp add: valid_def gets_def)

lemma keeps_modify: "(\<And>s. P s \<Longrightarrow> P (f s)) \<Longrightarrow> keeps P (modify f)"
  by (simp add: valid_def modify_def)

lemma keeps_if [act_intros]: "(b \<Longrightarrow> keeps P m) \<Longrightarrow> (\<not> b \<Longrightarrow> keeps P n) \<Longrightarrow> keeps P (if b then m else n)"
  by simp

lemma keeps_option [act_intros]:
  "(x = None \<Longrightarrow> keeps P m) \<Longrightarrow> (\<And>y. x = Some y \<Longrightarrow> keeps P (k y)) \<Longrightarrow> keeps P (case x of None \<Rightarrow> m | Some y \<Rightarrow> k y)"
  by (cases x) simp_all

lemma keeps_sum [act_intros]:
  "(\<And>e. x = Inl e \<Longrightarrow> keeps P (m e)) \<Longrightarrow> (\<And>y. x = Inr y \<Longrightarrow> keeps P (k y)) \<Longrightarrow> keeps P (case x of Inl e \<Rightarrow> m e | Inr y \<Rightarrow> k y)"
  by (cases x) simp_all

lemma keeps_prod [act_intros]:
  "(\<And>a b. x = (a, b) \<Longrightarrow> keeps P (k a b)) \<Longrightarrow> keeps P (case x of (a, b) \<Rightarrow> k a b)"
  by (cases x) simp

section \<open>Returning\<close>

lemma returns_intros [act_intros]:
  "returns (ret x)" "returns (gets f)" "returns (modify g)" "returns (perform h)"
  by (simp_all add: returns_def ret_def gets_def modify_def perform_def)

lemma returns_seq [act_intros]: "returns m \<Longrightarrow> (\<And>x. returns (k x)) \<Longrightarrow> returns (seq m k)"
  by (auto simp: returns_def seq_def split: option.split)

lemma returns_if [act_intros]: "(b \<Longrightarrow> returns m) \<Longrightarrow> (\<not> b \<Longrightarrow> returns n) \<Longrightarrow> returns (if b then m else n)"
  by simp

lemma returns_option [act_intros]:
  "(x = None \<Longrightarrow> returns m) \<Longrightarrow> (\<And>y. x = Some y \<Longrightarrow> returns (k y)) \<Longrightarrow> returns (case x of None \<Rightarrow> m | Some y \<Rightarrow> k y)"
  by (cases x) simp_all

lemma returns_sum [act_intros]:
  "(\<And>e. x = Inl e \<Longrightarrow> returns (m e)) \<Longrightarrow> (\<And>y. x = Inr y \<Longrightarrow> returns (k y)) \<Longrightarrow> returns (case x of Inl e \<Rightarrow> m e | Inr y \<Rightarrow> k y)"
  by (cases x) simp_all

lemma returns_prod [act_intros]: "(\<And>a b. x = (a, b) \<Longrightarrow> returns (k a b)) \<Longrightarrow> returns (case x of (a, b) \<Rightarrow> k a b)"
  by (cases x) simp

end
