(* ===== verification/Gui_Bindings.thy ===== *)
theory Gui_Bindings
  imports App_Manifest
begin

text \<open>
  Binding updates of an app's GUI (\<open>system_core/src/system/gui.cpp\<close>, lines 27 to 400 and 1434 to 1464):
  the updates an app makes are collected per app, one per view and key, and sent to the GUI runtime by
  a task of the GUI group; batches of commands run at once.

  The GUI runtime is known by the calls it got: \<open>gb_calls\<close> is their list in order, and its answers are
  functions of what it was asked before. The parts of \<open>enqueue_gui_binding_updates\<close> and
  \<open>flush_pending_gui_bindings\<close> between which the lock is not held are steps of their own, so that any
  interleaving of threads is a list of steps.
\<close>

section \<open>The calls of the GUI runtime\<close>

datatype gui_layer = LayerBottom | LayerDefault | LayerTop | LayerSystem

record mount_target =
  mt_display_id :: string
  mt_layer :: gui_layer
  mt_mount_mode :: mount_stack_mode
  mt_z_order :: int

record binding_update =
  bu_path :: string
  bu_key :: string
  bu_value :: string

datatype batch_command =
    CmdSetBindings "binding_update list"
  | CmdSetViewSrc string string
  | CmdStopAnimation u64
  | CmdStartViewAnimation string nat
  | CmdScrollTo string int int bool
  | CmdScrollToView string bool

text \<open>Documents are numbers; a registration is recorded with its outcome.\<close>

datatype gui_call =
    LoadDocument nat
  | UnloadDocument nat
  | RegisterFont string bool
  | UnregisterFont string
  | RegisterImage string bool
  | UnregisterImage string
  | StartFlow nat string mount_target
  | StopFlow nat string
  | SetBindings nat "binding_update list"
  | RunCommand nat batch_command
  | SubscribeAction nat string
  | EnablePreview nat
  | DisablePreview nat

text \<open>What happens to a task posted to the GUI group: it runs at once, waits in the queue, or is refused.\<close>

datatype post_outcome = PostInline | PostQueued | PostRefused

section \<open>The buffer of an app\<close>

record binding_buffer =
  bb_updates :: "binding_update list"
  bb_indexes :: "(string, nat) smap"
  bb_flush_posted :: bool

definition empty_buffer :: binding_buffer where
  "empty_buffer = \<lparr>bb_updates = [], bb_indexes = [], bb_flush_posted = False\<rparr>"

definition make_binding_update_key :: "string \<Rightarrow> string \<Rightarrow> string" where
  "make_binding_update_key p k = p @ CHR 0x1F # k"

definition buffer_update :: "binding_update \<Rightarrow> binding_buffer \<Rightarrow> binding_buffer" where
  "buffer_update u b =
     (let key = make_binding_update_key (bu_path u) (bu_key u) in
      case map_of (bb_indexes b) key of
        Some i \<Rightarrow> b\<lparr>bb_updates := (bb_updates b)[i := u]\<rparr>
      | None \<Rightarrow> b\<lparr>bb_indexes := smap_put key (length (bb_updates b)) (bb_indexes b), bb_updates := bb_updates b @ [u]\<rparr>)"

text \<open>\<open>gb_flush_tasks\<close> are the flush tasks in the queue of the GUI group, \<open>gb_posting\<close> the apps for which
  a thread is about to post one, \<open>gb_flushing\<close> those a flush has sent the updates of.\<close>

record bindings =
  gb_buffers :: "(u32, binding_buffer) smap"
  gb_calls :: "gui_call list"
  gb_flush_tasks :: "u32 list"
  gb_posting :: "u32 list"
  gb_flushing :: "u32 list"

definition gui_do :: "gui_call \<Rightarrow> bindings \<Rightarrow> bindings" where
  "gui_do c g = g\<lparr>gb_calls := gb_calls g @ [c]\<rparr>"

definition buffer_of :: "u32 \<Rightarrow> bindings \<Rightarrow> binding_buffer" where
  "buffer_of i g = (case map_of (gb_buffers g) i of None \<Rightarrow> empty_buffer | Some b \<Rightarrow> b)"

section \<open>Enqueueing\<close>

text \<open>Under the lock; a thread that finds no flush posted goes on to post one.\<close>

definition enqueue_locked :: "u32 \<Rightarrow> binding_update list \<Rightarrow> bindings \<Rightarrow> bindings" where
  "enqueue_locked i us g =
     (if us = [] then g
      else
        (let b = fold buffer_update us (buffer_of i g);
             g1 = g\<lparr>gb_buffers := smap_put i (b\<lparr>bb_flush_posted := True\<rparr>) (gb_buffers g)\<rparr>
         in if bb_flush_posted b then g1 else g1\<lparr>gb_posting := i # gb_posting g1\<rparr>))"

definition post_refused :: "u32 \<Rightarrow> bindings \<Rightarrow> bindings" where
  "post_refused i g =
     (case map_of (gb_buffers g) i of
        None \<Rightarrow> g
      | Some b \<Rightarrow> g\<lparr>gb_buffers := smap_put i (b\<lparr>bb_flush_posted := False\<rparr>) (gb_buffers g)\<rparr>)"

section \<open>Flushing\<close>

text \<open>The updates are taken under the lock and sent; \<open>doc\<close> is the app's document, if it has one.\<close>

definition begin_flush :: "u32 \<Rightarrow> nat option \<Rightarrow> bindings \<Rightarrow> bindings" where
  "begin_flush i doc g =
     (case map_of (gb_buffers g) i of
        None \<Rightarrow> g
      | Some b \<Rightarrow>
          (let g1 = g\<lparr>gb_buffers := smap_put i (b\<lparr>bb_updates := [], bb_indexes := []\<rparr>) (gb_buffers g),
                     gb_flushing := i # gb_flushing g\<rparr>
           in if bb_updates b = [] then g1
              else case doc of None \<Rightarrow> g1 | Some d \<Rightarrow> gui_do (SetBindings d (bb_updates b)) g1))"

text \<open>Under the lock again: what came meanwhile is to be posted for.\<close>

definition finish_flush :: "u32 \<Rightarrow> bindings \<Rightarrow> bindings" where
  "finish_flush i g =
     (let g1 = g\<lparr>gb_flushing := remove1 i (gb_flushing g)\<rparr> in
      case map_of (gb_buffers g1) i of
        None \<Rightarrow> g1
      | Some b \<Rightarrow>
          if bb_updates b = [] then g1\<lparr>gb_buffers := smap_del i (gb_buffers g1)\<rparr>
          else g1\<lparr>gb_posting := i # gb_posting g1\<rparr>)"

definition flush_pending_gui_bindings :: "u32 \<Rightarrow> nat option \<Rightarrow> bindings \<Rightarrow> bindings" where
  "flush_pending_gui_bindings i doc g =
     (if map_of (gb_buffers g) i = None then g else finish_flush i (begin_flush i doc g))"

text \<open>A posted flush: run at once, queued or refused.\<close>

definition post_flush :: "u32 \<Rightarrow> nat option \<Rightarrow> post_outcome \<Rightarrow> bindings \<Rightarrow> bindings" where
  "post_flush i doc outcome g =
     (let g1 = g\<lparr>gb_posting := remove1 i (gb_posting g)\<rparr> in
      case outcome of
        PostInline \<Rightarrow> flush_pending_gui_bindings i doc g1
      | PostQueued \<Rightarrow> g1\<lparr>gb_flush_tasks := gb_flush_tasks g1 @ [i]\<rparr>
      | PostRefused \<Rightarrow> post_refused i g1)"

text \<open>A call of one thread.\<close>

definition enqueue_gui_binding_updates :: "u32 \<Rightarrow> nat option \<Rightarrow> post_outcome \<Rightarrow> binding_update list \<Rightarrow> bindings \<Rightarrow> unit expected \<times> bindings" where
  "enqueue_gui_binding_updates i doc outcome us g =
     (let g1 = enqueue_locked i us g in
      if us = [] \<or> bb_flush_posted (buffer_of i g) then (Inr (), g1)
      else (if outcome = PostRefused then Inl ''Failed to post system task to group: SystemGui'' else Inr (),
            post_flush i doc outcome g1))"

definition clear_pending_gui_bindings :: "u32 \<Rightarrow> bindings \<Rightarrow> bindings" where
  "clear_pending_gui_bindings i g = g\<lparr>gb_buffers := smap_del i (gb_buffers g)\<rparr>"

section \<open>Batches\<close>

record command_result =
  cr_name :: string
  cr_success :: bool
  cr_error_message :: string
  cr_data :: "(u64 \<times> int \<times> int) option"

record gui_batch_result =
  gr_success :: bool
  gr_results :: "command_result list"

text \<open>\<open>ba_ok\<close> is whether the GUI runtime carries a command out, \<open>ba_start\<close> the subscription of a started
  animation (zero when it could not start) and the positions it resolved.\<close>

record batch_env =
  ba_ok :: "gui_call list \<Rightarrow> nat \<Rightarrow> batch_command \<Rightarrow> bool"
  ba_start :: "gui_call list \<Rightarrow> nat \<Rightarrow> string \<Rightarrow> nat \<Rightarrow> u64 \<times> int \<times> int"

fun gui_batch_command_name :: "batch_command \<Rightarrow> string" where
  "gui_batch_command_name (CmdSetBindings _) = ''SetBindings''"
| "gui_batch_command_name (CmdSetViewSrc _ _) = ''SetViewSrc''"
| "gui_batch_command_name (CmdStopAnimation _) = ''StopAnimation''"
| "gui_batch_command_name (CmdStartViewAnimation _ _) = ''StartViewAnimation''"
| "gui_batch_command_name (CmdScrollTo _ _ _ _) = ''ScrollTo''"
| "gui_batch_command_name (CmdScrollToView _ _) = ''ScrollToView''"

fun is_deferable_gui_batch_command :: "batch_command \<Rightarrow> bool" where
  "is_deferable_gui_batch_command (CmdStartViewAnimation _ _) = False"
| "is_deferable_gui_batch_command _ = True"

definition can_defer_gui_batch_commands :: "batch_command list \<Rightarrow> bool" where
  "can_defer_gui_batch_commands cs = list_all is_deferable_gui_batch_command cs"

definition command_done :: "batch_command \<Rightarrow> command_result" where
  "command_done c = \<lparr>cr_name = gui_batch_command_name c, cr_success = True, cr_error_message = [], cr_data = None\<rparr>"

definition make_deferred_gui_batch_result :: "batch_command list \<Rightarrow> gui_batch_result" where
  "make_deferred_gui_batch_result cs = \<lparr>gr_success = True, gr_results = map command_done cs\<rparr>"

definition command_outcome :: "batch_command \<Rightarrow> bool \<Rightarrow> string \<Rightarrow> command_result" where
  "command_outcome c ok err = (command_done c)\<lparr>cr_success := ok, cr_error_message := (if ok then [] else err)\<rparr>"

text \<open>One command on document \<open>d\<close> of app \<open>i\<close>.\<close>

fun run_gui_command :: "batch_env \<Rightarrow> u32 \<Rightarrow> nat \<Rightarrow> batch_command \<Rightarrow> bindings \<Rightarrow> command_result \<times> bindings" where
  "run_gui_command env i d (CmdSetBindings us) g = (command_done (CmdSetBindings us), gui_do (SetBindings d us) g)"
| "run_gui_command env i d (CmdSetViewSrc p src) g =
     (let c = CmdSetViewSrc p src in
      (command_outcome c (ba_ok env (gb_calls g) d c) ''Failed to set view image source'', gui_do (RunCommand d c) g))"
| "run_gui_command env i d (CmdStopAnimation a) g =
     (command_done (CmdStopAnimation a), gui_do (RunCommand d (CmdStopAnimation a)) g)"
| "run_gui_command env i d (CmdStartViewAnimation p a) g =
     (let c = CmdStartViewAnimation p a in
      case ba_start env (gb_calls g) d p a of (sub, resolved) \<Rightarrow>
        ((command_outcome c (sub \<noteq> 0) ''Failed to start view animation'')
           \<lparr>cr_data := (if sub \<noteq> 0 then Some (sub, resolved) else None)\<rparr>, gui_do (RunCommand d c) g))"
| "run_gui_command env i d (CmdScrollTo p x y a) g =
     (let c = CmdScrollTo p x y a; g1 = flush_pending_gui_bindings i (Some d) g in
      (command_outcome c (ba_ok env (gb_calls g1) d c) ''Failed to scroll view'', gui_do (RunCommand d c) g1))"
| "run_gui_command env i d (CmdScrollToView p a) g =
     (let c = CmdScrollToView p a; g1 = flush_pending_gui_bindings i (Some d) g in
      (command_outcome c (ba_ok env (gb_calls g1) d c) ''Failed to scroll view to visible'', gui_do (RunCommand d c) g1))"

fun run_gui_commands :: "batch_env \<Rightarrow> u32 \<Rightarrow> nat \<Rightarrow> batch_command list \<Rightarrow> bindings \<Rightarrow> gui_batch_result \<times> bindings" where
  "run_gui_commands env i d [] g = (\<lparr>gr_success = True, gr_results = []\<rparr>, g)"
| "run_gui_commands env i d (c # cs) g =
     (case run_gui_command env i d c g of (r, g1) \<Rightarrow>
        if \<not> cr_success r then (\<lparr>gr_success = False, gr_results = [r]\<rparr>, g1)
        else (case run_gui_commands env i d cs g1 of (b, g2) \<Rightarrow> (b\<lparr>gr_results := r # gr_results b\<rparr>, g2)))"

text \<open>\<open>doc\<close> is the document of the app's record: no app, no document or the document.\<close>

definition execute_gui_batch_now ::
    "batch_env \<Rightarrow> u32 \<Rightarrow> nat option option \<Rightarrow> batch_command list \<Rightarrow> bindings \<Rightarrow> gui_batch_result expected \<times> bindings" where
  "execute_gui_batch_now env i doc cs g =
     (case doc of
        None \<Rightarrow> (Inl ''App not found'', g)
      | Some None \<Rightarrow> (Inl ''App GUI document is not loaded'', g)
      | Some (Some d) \<Rightarrow> (case run_gui_commands env i d cs g of (r, g') \<Rightarrow> (Inr r, g')))"

section \<open>Merging keeps the values\<close>

type_synonym values_map = "string \<times> string \<rightharpoonup> string"

definition apply_updates :: "binding_update list \<Rightarrow> values_map \<Rightarrow> values_map" where
  "apply_updates us m = fold (\<lambda>u m. m((bu_path u, bu_key u) \<mapsto> bu_value u)) us m"

text \<open>Paths of views do not contain the separator, so that the key of an update determines its path and key.\<close>

definition plain_update :: "binding_update \<Rightarrow> bool" where
  "plain_update u \<longleftrightarrow> CHR 0x1F \<notin> set (bu_path u)"

lemma separator_injective:
  "x \<notin> set p \<Longrightarrow> x \<notin> set q \<Longrightarrow> p @ x # k = q @ x # l \<Longrightarrow> p = q \<and> k = l"
proof (induction p arbitrary: q)
  case Nil
  then show ?case by (cases q) auto
next
  case (Cons a p)
  then show ?case by (cases q) auto
qed

abbreviation "update_key u \<equiv> make_binding_update_key (bu_path u) (bu_key u)"

lemma update_key_injective:
  assumes "plain_update u" "plain_update v"
  shows "update_key u = update_key v \<longleftrightarrow> (bu_path u, bu_key u) = (bu_path v, bu_key v)"
  using assms separator_injective [of "CHR 0x1F" "bu_path u" "bu_path v"]
  by (auto simp: plain_update_def make_binding_update_key_def)

definition buffer_ok :: "binding_buffer \<Rightarrow> bool" where
  "buffer_ok b \<longleftrightarrow>
     (\<forall>k n. map_of (bb_indexes b) k = Some n \<longleftrightarrow> n < length (bb_updates b) \<and> update_key (bb_updates b ! n) = k) \<and>
     (\<forall>u \<in> set (bb_updates b). plain_update u)"

lemma buffer_ok_empty [simp]: "buffer_ok empty_buffer"
  by (simp add: buffer_ok_def empty_buffer_def)

lemma buffer_ok_flag [simp]: "buffer_ok (b\<lparr>bb_flush_posted := f\<rparr>) = buffer_ok b"
  by (simp add: buffer_ok_def)

abbreviation "update_pair u \<equiv> ((bu_path u, bu_key u), bu_value u)"

lemma apply_updates_map: "apply_updates us m = m ++ map_of (rev (map update_pair us))"
  by (induction us rule: rev_induct) (auto simp: apply_updates_def map_add_def fun_eq_iff split: option.splits)

lemma map_of_rev_distinct: "distinct (map fst xs) \<Longrightarrow> map_of (rev xs) = map_of xs"
  by (rule map_of_eqI) (auto simp: rev_map [symmetric] dest: map_of_SomeD intro: map_of_is_SomeI)

lemma map_of_list_update:
  "distinct (map fst xs) \<Longrightarrow> n < length xs \<Longrightarrow> fst (xs ! n) = k \<Longrightarrow> map_of (xs[n := (k, v)]) = (map_of xs)(k \<mapsto> v)"
proof (induction xs arbitrary: n)
  case (Cons x xs)
  show ?case
  proof (cases n)
    case 0
    then show ?thesis using Cons.prems by (cases x) (auto simp: fun_eq_iff)
  next
    case (Suc l)
    then have "fst x \<noteq> k" using Cons.prems by auto
    then show ?thesis using Suc Cons.IH [of l] Cons.prems by (cases x) (auto simp: fun_eq_iff)
  qed
qed simp

lemma buffer_ok_keys:
  assumes "buffer_ok b"
  shows "distinct (map fst (map update_pair (bb_updates b)))"
proof -
  have "a = c" if "a < length (bb_updates b)" "c < length (bb_updates b)"
    "fst (update_pair (bb_updates b ! a)) = fst (update_pair (bb_updates b ! c))" for a c
  proof -
    have "update_key (bb_updates b ! a) = update_key (bb_updates b ! c)" using that(3) by simp
    then have "map_of (bb_indexes b) (update_key (bb_updates b ! a)) = Some a"
      "map_of (bb_indexes b) (update_key (bb_updates b ! a)) = Some c"
      using assms that unfolding buffer_ok_def by metis+
    then show ?thesis by simp
  qed
  then show ?thesis by (auto simp: distinct_conv_nth)
qed

lemma buffer_update_ok:
  assumes "buffer_ok b" "plain_update u"
  shows "buffer_ok (buffer_update u b)"
proof -
  let ?k = "update_key u"
  have idx: "map_of (bb_indexes b) k = Some n \<longleftrightarrow> n < length (bb_updates b) \<and> update_key (bb_updates b ! n) = k" for k n
    using assms(1) by (simp add: buffer_ok_def)
  have plain: "\<forall>v \<in> set (bb_updates b). plain_update v" using assms(1) by (simp add: buffer_ok_def)
  show ?thesis
  proof (cases "map_of (bb_indexes b) ?k")
    case None
    have "\<not> (n < length (bb_updates b) \<and> update_key (bb_updates b ! n) = ?k)" for n using None idx [of ?k n] by simp
    then show ?thesis using None assms(2) plain
      by (auto simp: buffer_ok_def buffer_update_def Let_def idx nth_append less_Suc_eq)
  next
    case (Some n)
    then have n: "n < length (bb_updates b)" "update_key (bb_updates b ! n) = ?k" using idx by auto
    have "update_key ((bb_updates b)[n := u] ! l) = update_key (bb_updates b ! l)" if "l < length (bb_updates b)" for l
      using n that by (cases "l = n") simp_all
    moreover have "\<forall>v \<in> set ((bb_updates b)[n := u]). plain_update v"
      using plain assms(2) set_update_subset_insert [of "bb_updates b" n u] by blast
    moreover have "buffer_update u b = b\<lparr>bb_updates := (bb_updates b)[n := u]\<rparr>" using Some by (simp add: buffer_update_def)
    ultimately show ?thesis by (auto simp: buffer_ok_def idx)
  qed
qed

lemma buffer_update_values:
  assumes "buffer_ok b" "plain_update u"
  shows "apply_updates (bb_updates (buffer_update u b)) m = (apply_updates (bb_updates b) m)((bu_path u, bu_key u) \<mapsto> bu_value u)"
proof (cases "map_of (bb_indexes b) (update_key u)")
  case None
  then show ?thesis by (simp add: buffer_update_def Let_def apply_updates_def)
next
  case (Some n)
  then have n: "n < length (bb_updates b)" "update_key (bb_updates b ! n) = update_key u"
    using assms(1) by (auto simp: buffer_ok_def)
  then have pk: "fst (map update_pair (bb_updates b) ! n) = (bu_path u, bu_key u)"
    using update_key_injective [of "bb_updates b ! n" u] assms by (auto simp: buffer_ok_def)
  note d = buffer_ok_keys [OF assms(1)]
  have new: "map update_pair (bb_updates (buffer_update u b)) = (map update_pair (bb_updates b))[n := update_pair u]"
    using Some by (simp add: buffer_update_def map_update Let_def)
  have "map_of (map update_pair (bb_updates (buffer_update u b))) = (map_of (map update_pair (bb_updates b)))((bu_path u, bu_key u) \<mapsto> bu_value u)"
    using map_of_list_update [OF d _ pk, of "bu_value u"] n by (simp add: new)
  then show ?thesis
    using map_of_rev_distinct [OF d] map_of_rev_distinct [OF buffer_ok_keys [OF buffer_update_ok [OF assms]]]
    by (simp add: apply_updates_map del: map_map)
qed

lemma buffer_updates:
  assumes "buffer_ok b" "\<forall>u \<in> set us. plain_update u"
  shows "buffer_ok (fold buffer_update us b) \<and> apply_updates (bb_updates (fold buffer_update us b)) m = apply_updates us (apply_updates (bb_updates b) m)"
  using assms
proof (induction us arbitrary: b)
  case (Cons u us)
  then show ?case
    using buffer_update_ok [of b u] buffer_update_values [of b u m]
    by (simp add: apply_updates_def [of "u # us"] apply_updates_def [of us])
qed (simp add: apply_updates_def)

section \<open>Threads\<close>

text \<open>Any interleaving of the threads that enqueue, post and flush; \<open>docs\<close> gives the documents of the apps.\<close>

inductive binding_step :: "(u32 \<Rightarrow> nat option) \<Rightarrow> bindings \<Rightarrow> bindings \<Rightarrow> bool" for docs where
  bs_enqueue: "binding_step docs g (enqueue_locked i us g)"
| bs_post: "i \<in> set (gb_posting g) \<Longrightarrow> binding_step docs g (post_flush i (docs i) outcome g)"
| bs_task: "gb_flush_tasks g = i # ts \<Longrightarrow> binding_step docs g (begin_flush i (docs i) (g\<lparr>gb_flush_tasks := ts\<rparr>))"
| bs_finish: "i \<in> set (gb_flushing g) \<Longrightarrow> binding_step docs g (finish_flush i g)"
| bs_clear: "binding_step docs g (clear_pending_gui_bindings i g)"

definition new_bindings :: bindings where
  "new_bindings = \<lparr>gb_buffers = [], gb_calls = [], gb_flush_tasks = [], gb_posting = [], gb_flushing = []\<rparr>"

inductive bindings_reachable :: "(u32 \<Rightarrow> nat option) \<Rightarrow> bindings \<Rightarrow> bool" for docs where
  br_new: "bindings_reachable docs new_bindings"
| br_step: "bindings_reachable docs g \<Longrightarrow> binding_step docs g g' \<Longrightarrow> bindings_reachable docs g'"

text \<open>A flush marked as posted is about to be posted, queued or running.\<close>

definition flush_pending :: "u32 \<Rightarrow> bindings \<Rightarrow> bool" where
  "flush_pending i g \<longleftrightarrow> i \<in> set (gb_posting g) \<union> set (gb_flush_tasks g) \<union> set (gb_flushing g)"

definition posted_inv :: "bindings \<Rightarrow> bool" where
  "posted_inv g \<longleftrightarrow> (\<forall>i b. map_of (gb_buffers g) i = Some b \<longrightarrow> bb_flush_posted b \<longrightarrow> flush_pending i g)"

lemma gui_do_fields [simp]:
  "gb_buffers (gui_do c g) = gb_buffers g" "gb_flush_tasks (gui_do c g) = gb_flush_tasks g"
  "gb_posting (gui_do c g) = gb_posting g" "gb_flushing (gui_do c g) = gb_flushing g"
  "gb_calls (gui_do c g) = gb_calls g @ [c]"
  by (simp_all add: gui_do_def)

lemma buffer_update_flag [simp]: "bb_flush_posted (buffer_update u b) = bb_flush_posted b"
  by (simp add: buffer_update_def Let_def split: option.splits)

lemma fold_buffer_update_flag [simp]: "bb_flush_posted (fold buffer_update us b) = bb_flush_posted b"
  by (induction us arbitrary: b) simp_all

lemma flush_pending_cong:
  "gb_posting g' = gb_posting g \<Longrightarrow> gb_flush_tasks g' = gb_flush_tasks g \<Longrightarrow> gb_flushing g' = gb_flushing g \<Longrightarrow> flush_pending i g' = flush_pending i g"
  by (simp add: flush_pending_def)

lemma enqueue_locked_posted: "posted_inv g \<Longrightarrow> posted_inv (enqueue_locked i us g)"
  by (auto simp: posted_inv_def enqueue_locked_def Let_def flush_pending_def buffer_of_def empty_buffer_def split: option.splits if_splits)

text \<open>Whether every app but \<open>i\<close> is pending when its flush is marked as posted.\<close>

definition posted_but :: "u32 \<Rightarrow> bindings \<Rightarrow> bool" where
  "posted_but i g \<longleftrightarrow> (\<forall>j b. j \<noteq> i \<longrightarrow> map_of (gb_buffers g) j = Some b \<longrightarrow> bb_flush_posted b \<longrightarrow> flush_pending j g)"

lemma posted_but: "posted_inv g \<Longrightarrow> posted_but i g"
  by (simp add: posted_inv_def posted_but_def)

text \<open>It is enough to look at the other apps, and at \<open>i\<close> where its flush is still marked.\<close>

lemma posted_invI:
  assumes "\<And>j b. j \<noteq> i \<Longrightarrow> map_of (gb_buffers g) j = Some b \<Longrightarrow> bb_flush_posted b \<Longrightarrow> flush_pending j g"
    "\<And>b. map_of (gb_buffers g) i = Some b \<Longrightarrow> bb_flush_posted b \<Longrightarrow> flush_pending i g"
  shows "posted_inv g"
  unfolding posted_inv_def using assms by metis

lemma begin_flush_posted: "posted_but i g \<Longrightarrow> posted_inv (begin_flush i doc g)"
  by (rule posted_invI [of i]) (auto simp: posted_but_def begin_flush_def Let_def flush_pending_def split: option.splits if_splits)

lemma finish_flush_posted: "posted_but i g \<Longrightarrow> posted_inv (finish_flush i g)"
  by (rule posted_invI [of i]) (auto simp: posted_but_def finish_flush_def Let_def flush_pending_def split: option.splits if_splits)

lemma flush_posted: "posted_but i g \<Longrightarrow> posted_inv (flush_pending_gui_bindings i doc g)"
  using finish_flush_posted [OF posted_but [OF begin_flush_posted]]
  by (cases "map_of (gb_buffers g) i = None") (auto simp: flush_pending_gui_bindings_def posted_but_def intro!: posted_invI [of i])

lemma post_refused_posted: "posted_but i g \<Longrightarrow> posted_inv (post_refused i g)"
  by (rule posted_invI [of i]) (auto simp: posted_but_def post_refused_def flush_pending_def split: option.splits if_splits)

lemma post_flush_posted: "posted_inv g \<Longrightarrow> posted_inv (post_flush i doc outcome g)"
proof -
  assume "posted_inv g"
  then have b: "posted_but i (g\<lparr>gb_posting := remove1 i (gb_posting g)\<rparr>)"
    by (auto simp: posted_inv_def posted_but_def flush_pending_def)
  show ?thesis
  proof (cases outcome)
    case PostQueued
    then show ?thesis using b by (auto simp: post_flush_def posted_inv_def posted_but_def flush_pending_def)
  qed (use b flush_posted post_refused_posted in \<open>auto simp: post_flush_def\<close>)
qed

lemma reachable_posted: "bindings_reachable docs g \<Longrightarrow> posted_inv g"
proof (induction rule: bindings_reachable.induct)
  case br_new
  show ?case by (simp add: posted_inv_def new_bindings_def)
next
  case (br_step g g')
  from br_step(2,3) show ?case
  proof (cases rule: binding_step.cases)
    case (bs_task i ts)
    then have "posted_but i (g\<lparr>gb_flush_tasks := ts\<rparr>)" using br_step.IH
      by (auto simp: posted_inv_def posted_but_def flush_pending_def)
    then show ?thesis using bs_task begin_flush_posted by blast
  next
    case (bs_clear i)
    then show ?thesis using br_step.IH by (auto simp: posted_inv_def clear_pending_gui_bindings_def flush_pending_def)
  qed (use br_step.IH enqueue_locked_posted post_flush_posted finish_flush_posted posted_but in blast)+
qed



section \<open>What the GUI runtime receives\<close>

text \<open>The values document \<open>d\<close> was sent.\<close>

fun sent_updates :: "nat \<Rightarrow> gui_call list \<Rightarrow> binding_update list" where
  "sent_updates d [] = []"
| "sent_updates d (SetBindings e us # cs) = (if e = d then us else []) @ sent_updates d cs"
| "sent_updates d (c # cs) = sent_updates d cs"

lemma sent_updates_append [simp]: "sent_updates d (a @ b) = sent_updates d a @ sent_updates d b"
  by (induction a rule: sent_updates.induct) simp_all

definition sent_values :: "nat \<Rightarrow> bindings \<Rightarrow> values_map" where
  "sent_values d g = apply_updates (sent_updates d (gb_calls g)) Map.empty"

text \<open>A run of the threads with what they enqueued for app \<open>i\<close>, in the order they took the lock.\<close>

inductive binding_run :: "(u32 \<Rightarrow> nat option) \<Rightarrow> u32 \<Rightarrow> binding_update list \<Rightarrow> bindings \<Rightarrow> bool" for docs i where
  bn_new: "binding_run docs i [] new_bindings"
| bn_enqueue: "binding_run docs i h g \<Longrightarrow> \<forall>u \<in> set us. plain_update u \<Longrightarrow> binding_run docs i (h @ us) (enqueue_locked i us g)"
| bn_other: "binding_run docs i h g \<Longrightarrow> j \<noteq> i \<Longrightarrow> binding_run docs i h (enqueue_locked j us g)"
| bn_post: "binding_run docs i h g \<Longrightarrow> binding_run docs i h (post_flush j (docs j) outcome g)"
| bn_task: "binding_run docs i h g \<Longrightarrow> gb_flush_tasks g = j # ts \<Longrightarrow>
    binding_run docs i h (begin_flush j (docs j) (g\<lparr>gb_flush_tasks := ts\<rparr>))"
| bn_finish: "binding_run docs i h g \<Longrightarrow> binding_run docs i h (finish_flush j g)"

lemma apply_updates_append [simp]: "apply_updates (a @ b) m = apply_updates b (apply_updates a m)"
  by (simp add: apply_updates_def)

lemma apply_updates_Nil [simp]: "apply_updates [] m = m"
  by (simp add: apply_updates_def)

definition arrived_inv :: "u32 \<Rightarrow> nat \<Rightarrow> binding_update list \<Rightarrow> bindings \<Rightarrow> bool" where
  "arrived_inv i d h g \<longleftrightarrow> buffer_ok (buffer_of i g) \<and> apply_updates (bb_updates (buffer_of i g)) (sent_values d g) = apply_updates h Map.empty"

lemma arrived_cong:
  "bb_updates (buffer_of i g') = bb_updates (buffer_of i g) \<Longrightarrow> bb_indexes (buffer_of i g') = bb_indexes (buffer_of i g) \<Longrightarrow>
   sent_updates d (gb_calls g') = sent_updates d (gb_calls g) \<Longrightarrow> arrived_inv i d h g' = arrived_inv i d h g"
  by (simp add: arrived_inv_def buffer_ok_def sent_values_def)

lemma begin_flush_arrived:
  assumes "arrived_inv i d h g" "docs i = Some d" "\<And>j. docs j = Some d \<Longrightarrow> j = i"
  shows "arrived_inv i d h (begin_flush j (docs j) g)"
proof (cases "j = i")
  case True
  then show ?thesis using assms(1,2)
    by (auto simp: arrived_inv_def begin_flush_def buffer_of_def sent_values_def buffer_ok_def Let_def empty_buffer_def split: option.splits)
next
  case False
  then have "docs j \<noteq> Some d" using assms(3) by blast
  then have "sent_updates d (gb_calls (begin_flush j (docs j) g)) = sent_updates d (gb_calls g)"
    by (auto simp: begin_flush_def Let_def split: option.splits)
  moreover have "buffer_of i (begin_flush j (docs j) g) = buffer_of i g" using False
    by (auto simp: begin_flush_def buffer_of_def Let_def split: option.splits)
  ultimately show ?thesis using assms(1) arrived_cong [of i "begin_flush j (docs j) g" g d h] by simp
qed

lemma finish_flush_arrived: "arrived_inv i d h g \<Longrightarrow> arrived_inv i d h (finish_flush j g)"
proof -
  assume a: "arrived_inv i d h g"
  have "bb_updates (buffer_of i (finish_flush j g)) = bb_updates (buffer_of i g)"
    by (auto simp: finish_flush_def buffer_of_def Let_def empty_buffer_def split: option.splits)
  moreover have "sent_updates d (gb_calls (finish_flush j g)) = sent_updates d (gb_calls g)"
    by (auto simp: finish_flush_def Let_def split: option.splits)
  moreover have "buffer_ok (buffer_of i (finish_flush j g))" using a
    by (auto simp: arrived_inv_def finish_flush_def buffer_of_def Let_def split: option.splits if_splits)
  ultimately show ?thesis using a by (simp add: arrived_inv_def sent_values_def)
qed

lemma enqueue_arrived:
  assumes "arrived_inv i d h g" "\<forall>u \<in> set us. plain_update u"
  shows "arrived_inv i d (h @ us) (enqueue_locked i us g)"
proof -
  have "buffer_ok (buffer_of i g)" using assms(1) by (simp add: arrived_inv_def)
  note b = buffer_updates [OF this assms(2)]
  have "buffer_of i (enqueue_locked i us g) = (fold buffer_update us (buffer_of i g))\<lparr>bb_flush_posted := True\<rparr>" if "us \<noteq> []"
    using that by (simp add: enqueue_locked_def buffer_of_def Let_def)
  moreover have "gb_calls (enqueue_locked i us g) = gb_calls g" by (simp add: enqueue_locked_def Let_def)
  ultimately show ?thesis using assms(1) b [of "sent_values d g"]
    by (cases "us = []") (simp_all add: arrived_inv_def sent_values_def enqueue_locked_def)
qed

lemma enqueue_other_arrived: "j \<noteq> i \<Longrightarrow> arrived_inv i d h (enqueue_locked j us g) = arrived_inv i d h g"
  by (rule arrived_cong) (auto simp: enqueue_locked_def buffer_of_def Let_def)

lemma post_refused_arrived: "arrived_inv i d h (post_refused j g) = arrived_inv i d h g"
  by (rule arrived_cong) (auto simp: post_refused_def buffer_of_def split: option.splits)

lemma binding_run_arrived:
  assumes "binding_run docs i h g" "docs i = Some d" "\<And>j. docs j = Some d \<Longrightarrow> j = i"
  shows "arrived_inv i d h g"
  using assms(1)
proof (induction rule: binding_run.induct)
  case bn_new
  show ?case by (simp add: arrived_inv_def new_bindings_def buffer_of_def sent_values_def) (simp add: empty_buffer_def)
next
  case (bn_post h g j outcome)
  let ?g = "g\<lparr>gb_posting := remove1 j (gb_posting g)\<rparr>"
  have "arrived_inv i d h ?g" using bn_post.IH arrived_cong [of i ?g g d h] by (simp add: buffer_of_def)
  then show ?case
    using begin_flush_arrived [of i d h ?g docs j, OF _ assms(2) assms(3)] finish_flush_arrived post_refused_arrived
      arrived_cong [of i "?g\<lparr>gb_flush_tasks := gb_flush_tasks ?g @ [j]\<rparr>" ?g d h]
    by (cases outcome) (auto simp: post_flush_def flush_pending_gui_bindings_def buffer_of_def Let_def)
next
  case (bn_task h g j ts)
  have "arrived_inv i d h (g\<lparr>gb_flush_tasks := ts\<rparr>)"
    using bn_task.IH arrived_cong [of i "g\<lparr>gb_flush_tasks := ts\<rparr>" g d h] by (simp add: buffer_of_def)
  then show ?case using begin_flush_arrived [of i d h "g\<lparr>gb_flush_tasks := ts\<rparr>" docs j, OF _ assms(2) assms(3)] by blast
qed (use enqueue_arrived enqueue_other_arrived finish_flush_arrived in auto)


definition sample_update :: "string \<Rightarrow> binding_update" where
  "sample_update v = \<lparr>bu_path = ''/home/title'', bu_key = ''text'', bu_value = v\<rparr>"


section \<open>Batches and waiting updates\<close>

text \<open>Scrolling first sends what waits.\<close>

lemma flush_empties: "bb_updates (buffer_of i (flush_pending_gui_bindings i doc g)) = []"
  by (auto simp: flush_pending_gui_bindings_def begin_flush_def finish_flush_def buffer_of_def empty_buffer_def Let_def
      split: option.splits)

text \<open>A batch runs its commands in order up to the first that fails, and reports just those.\<close>

theorem gui_batch_stops_at_failure:
  "case run_gui_commands env i d cs g of (b, g') \<Rightarrow>
     map cr_name (gr_results b) = map gui_batch_command_name (take (length (gr_results b)) cs) \<and>
     gr_success b = (length (gr_results b) = length cs \<and> list_all cr_success (gr_results b)) \<and>
     list_all cr_success (butlast (gr_results b))"
proof (induction cs arbitrary: g)
  case (Cons c cs)
  obtain r g1 where r: "run_gui_command env i d c g = (r, g1)" by force
  have n: "cr_name r = gui_batch_command_name c"
    using r by (cases c) (auto simp: command_done_def command_outcome_def Let_def split: prod.splits)
  obtain b g2 where b: "run_gui_commands env i d cs g1 = (b, g2)" by force
  show ?case using Cons.IH [of g1] r n b by (auto split: if_splits)
qed simp

text \<open>An update that still waits is sent after a batch that was run later: the batch sets a value directly, and
  the flush of the older value then overwrites it.\<close>

theorem waiting_update_overwrites_batch:
  "case enqueue_gui_binding_updates i (Some d) PostQueued [\<lparr>bu_path = p, bu_key = k, bu_value = older\<rparr>] new_bindings of (x, g1) \<Rightarrow>
   case execute_gui_batch_now env i (Some (Some d)) [CmdSetBindings [\<lparr>bu_path = p, bu_key = k, bu_value = newer\<rparr>]] g1 of (y, g2) \<Rightarrow>
     sent_values d g2 (p, k) = Some newer \<and> gb_flush_tasks g2 = [i] \<and>
     sent_values d (flush_pending_gui_bindings i (Some d) (g2\<lparr>gb_flush_tasks := []\<rparr>)) (p, k) = Some older"
  by (simp add: enqueue_gui_binding_updates_def execute_gui_batch_now_def enqueue_locked_def post_flush_def
      flush_pending_gui_bindings_def begin_flush_def finish_flush_def new_bindings_def buffer_of_def empty_buffer_def
      buffer_update_def Let_def gui_do_def sent_values_def apply_updates_def command_done_def)

end
