(* ===== verification/App_Gui.thy ===== *)
theory App_Gui
  imports Gui_Bindings Std_Path
begin

text \<open>
  The GUI of an installed app (\<open>system_core/src/system/gui.cpp\<close>, lines 402 to 655,
  \<open>system_core/src/system/resources.cpp\<close>, lines 38 to 86 and 215 to 400, and
  \<open>system_core/src/app/manager.cpp\<close>, lines 73 to 131 and 681 to 771): its document, the images and fonts it
  registers, the screen flows it mounts.

  The GUI runtime is known by its calls, as in \<open>Gui_Bindings\<close>; \<open>gui_env\<close> gives its answers, the
  configuration and what the icon discovery finds. The automatic subscriptions of the web build are not
  modelled.
\<close>

section \<open>Apps\<close>

datatype app_state = Installed | Starting | Running | Paused | Stopping | Stopped | AppFailed

record app_info =
  ai_app_id :: u32
  ai_manifest :: app_manifest
  ai_state :: app_state
  ai_last_error :: string

record image_resource =
  im_id :: string
  im_src :: string

record font_resource =
  fo_id :: string
  fo_src :: string
  fo_glyphs :: "string list"
  fo_sizes :: "string list list"

record timer_record =
  tm_name :: string
  tm_periodic :: bool

record app_record =
  ar_info :: app_info
  ar_gui :: gui_descriptor
  ar_images :: "image_resource list"
  ar_fonts :: "font_resource list"
  ar_native :: "ptr option"
  ar_document :: "nat option"
  ar_runtime :: "u32 option"
  ar_actions :: "string list"
  ar_registered_images :: "string list"
  ar_registered_fonts :: "string list"
  ar_registered_icon :: string
  ar_timers :: "(u64, timer_record) smap"
  ar_runtime_loaded :: bool
  ar_runtime_started :: bool
  ar_preload_dom :: bool

abbreviation "ar_id r \<equiv> ai_app_id (ar_info r)"
abbreviation "ar_manifest r \<equiv> ai_manifest (ar_info r)"
abbreviation "ar_kind r \<equiv> am_kind (ar_manifest r)"
abbreviation "ar_state r \<equiv> ai_state (ar_info r)"

definition set_state :: "app_state \<Rightarrow> app_record \<Rightarrow> app_record" where
  "set_state st r = r\<lparr>ar_info := (ar_info r)\<lparr>ai_state := st\<rparr>\<rparr>"

definition set_error :: "string \<Rightarrow> app_record \<Rightarrow> app_record" where
  "set_error e r = r\<lparr>ar_info := (ar_info r)\<lparr>ai_last_error := e\<rparr>\<rparr>"

section \<open>The state of the GUI side\<close>

record gui_state =
  gs_bindings :: bindings
  gs_image_owners :: "(string, u32) smap"
  gs_font_owners :: "(string, u32) smap"
  gs_preview_docs :: "nat set"
  gs_preview_task :: "u64 option"
  gs_cancelled :: "u64 list"

abbreviation "gs_calls g \<equiv> gb_calls (gs_bindings g)"

record gui_env =
  ge_available :: bool
  ge_load_file :: "gui_call list \<Rightarrow> string \<Rightarrow> nat expected"
  ge_load_json :: "gui_call list \<Rightarrow> string \<Rightarrow> string \<Rightarrow> string \<Rightarrow> nat expected"
  ge_register_font :: "gui_call list \<Rightarrow> font_resource \<Rightarrow> unit expected"
  ge_register_image :: "gui_call list \<Rightarrow> image_resource \<Rightarrow> unit expected"
  ge_has_flow :: "gui_call list \<Rightarrow> nat \<Rightarrow> string \<Rightarrow> bool"
  ge_start_flow :: "gui_call list \<Rightarrow> nat \<Rightarrow> string \<Rightarrow> mount_target \<Rightarrow> unit expected"
  ge_subscribe :: "gui_call list \<Rightarrow> nat \<Rightarrow> string \<Rightarrow> bool"
  ge_enable_preview :: "gui_call list \<Rightarrow> nat \<Rightarrow> unit expected"
  ge_post_poll :: "gui_call list \<Rightarrow> u64 option"
  ge_live_preview :: bool
  ge_internal_root :: "string option"
  ge_icon :: "app_manifest \<Rightarrow> string \<Rightarrow> image_resource option expected \<times> string"

definition gs_do :: "gui_call \<Rightarrow> gui_state \<Rightarrow> gui_state" where
  "gs_do c g = g\<lparr>gs_bindings := gui_do c (gs_bindings g)\<rparr>"

section \<open>Screen flows of a descriptor\<close>

definition runtime_app_max_z_order :: int where
  "runtime_app_max_z_order = 100"

fun layer_of :: "gui_app_layer \<Rightarrow> gui_layer" where
  "layer_of SystemBottom = LayerBottom"
| "layer_of AppDefault = LayerDefault"
| "layer_of AppTop = LayerTop"
| "layer_of SystemTop = LayerSystem"

definition map_manifest_target :: "app_kind \<Rightarrow> screen_flow_entry \<Rightarrow> mount_target expected" where
  "map_manifest_target kind entry =
     (if kind = Runtime \<and> (sf_layer entry = SystemBottom \<or> sf_layer entry = SystemTop)
      then Inl ''Runtime app screen flows can only use AppDefault or AppTop layers''
      else if kind = Runtime \<and> sf_mount_mode entry \<noteq> MountReplace
      then Inl ''Runtime app screen flows can only use Replace mount mode''
      else if kind = Runtime \<and> (sf_z_order entry < 0 \<or> runtime_app_max_z_order < sf_z_order entry)
      then Inl ''Runtime app screen flow z_order must be in range 0..100''
      else Inr \<lparr>mt_display_id = [], mt_layer = layer_of (sf_layer entry), mt_mount_mode = sf_mount_mode entry,
                mt_z_order = sf_z_order entry\<rparr>)"

fun validate_screen_flows :: "app_kind \<Rightarrow> screen_flow_entry list \<Rightarrow> unit expected" where
  "validate_screen_flows kind [] = Inr ()"
| "validate_screen_flows kind (entry # entries) =
     (case map_manifest_target kind entry of Inl e \<Rightarrow> Inl e | Inr _ \<Rightarrow> validate_screen_flows kind entries)"

definition validate_gui_descriptor :: "app_kind \<Rightarrow> gui_descriptor \<Rightarrow> unit expected" where
  "validate_gui_descriptor kind d =
     (if gd_root_kind d = RootNone \<and> gd_screen_flows d \<noteq> []
      then Inl ''App GUI descriptor without a root cannot declare screen flows''
      else if gd_root_kind d \<noteq> RootNone \<and> gd_screen_flows d = []
      then Inl ''App GUI descriptor with a root must declare at least one screen flow''
      else validate_screen_flows kind (gd_screen_flows d))"

section \<open>Paths of resources\<close>

definition normal_text :: "string \<Rightarrow> string" where
  "normal_text p = generic_string (lexically_normal (path_of p))"

definition join_resource_path :: "string \<Rightarrow> string \<Rightarrow> string" where
  "join_resource_path dir p =
     (if p = [] then []
      else if is_absolute_text p \<or> dir = [] then normal_text p
      else normal_text (text_append dir p))"

definition resolve_app_resource_dir :: "gui_env \<Rightarrow> app_manifest \<Rightarrow> string" where
  "resolve_app_resource_dir env m =
     (if am_kind m = Runtime \<and> am_app_path m \<noteq> [] then join_resource_path (am_app_path m) (am_resource_dir m)
      else if is_absolute_text (am_resource_dir m) then normal_text (am_resource_dir m)
      else
        (let app_root = (case ge_internal_root env of None \<Rightarrow> [] | Some r \<Rightarrow> normal_text (text_append r ''apps'')) in
         if am_resource_dir m = [] then app_root else normal_text (text_append app_root (am_resource_dir m))))"

definition resolve_app_resource_path :: "gui_env \<Rightarrow> app_manifest \<Rightarrow> string \<Rightarrow> string" where
  "resolve_app_resource_path env m p = join_resource_path (resolve_app_resource_dir env m) p"

definition resolve_font_resource_sources :: "string \<Rightarrow> font_resource \<Rightarrow> font_resource" where
  "resolve_font_resource_sources dir f = f\<lparr>fo_src := join_resource_path dir (fo_src f),
     fo_glyphs := map (join_resource_path dir) (fo_glyphs f), fo_sizes := map (map (join_resource_path dir)) (fo_sizes f)\<rparr>"

definition resolve_image_resource_sources :: "string \<Rightarrow> image_resource \<Rightarrow> image_resource" where
  "resolve_image_resource_sources dir i = i\<lparr>im_src := join_resource_path dir (im_src i)\<rparr>"

section \<open>Live preview\<close>

definition stop_live_preview_poll_if_idle :: "gui_state \<Rightarrow> gui_state" where
  "stop_live_preview_poll_if_idle g =
     (if gs_preview_docs g \<noteq> {} then g
      else g\<lparr>gs_cancelled := (case gs_preview_task g of None \<Rightarrow> gs_cancelled g | Some t \<Rightarrow> gs_cancelled g @ [t]),
             gs_preview_task := None\<rparr>)"

definition ensure_live_preview_poll_started :: "gui_env \<Rightarrow> gui_state \<Rightarrow> bool \<times> gui_state" where
  "ensure_live_preview_poll_started env g =
     (if gs_preview_task g \<noteq> None then (True, g)
      else case ge_post_poll env (gs_calls g) of
        None \<Rightarrow> (False, g)
      | Some t \<Rightarrow> (True, g\<lparr>gs_preview_task := Some t\<rparr>))"

definition enable_live_preview_for_document :: "gui_env \<Rightarrow> nat \<Rightarrow> gui_state \<Rightarrow> unit expected \<times> gui_state" where
  "enable_live_preview_for_document env d g =
     (if \<not> ge_available env then (Inl ''GUI runtime is not available'', g)
      else case ge_enable_preview env (gs_calls g) d of
        Inl e \<Rightarrow> (Inl e, g)
      | Inr _ \<Rightarrow>
          (case ensure_live_preview_poll_started env (gs_do (EnablePreview d) (g\<lparr>gs_preview_docs := insert d (gs_preview_docs g)\<rparr>)) of
             (True, g1) \<Rightarrow> (Inr (), g1)
           | (False, g1) \<Rightarrow>
               (Inl ''Failed to start GUI live preview poll task'',
                (gs_do (DisablePreview d) g1)\<lparr>gs_preview_docs := gs_preview_docs g1 - {d}\<rparr>)))"

definition remove_live_preview_document :: "nat \<Rightarrow> gui_state \<Rightarrow> gui_state" where
  "remove_live_preview_document d g = stop_live_preview_poll_if_idle (g\<lparr>gs_preview_docs := gs_preview_docs g - {d}\<rparr>)"

definition disable_live_preview_for_document :: "gui_env \<Rightarrow> nat \<Rightarrow> gui_state \<Rightarrow> gui_state" where
  "disable_live_preview_for_document env d g =
     (if \<not> ge_available env then g else remove_live_preview_document d (gs_do (DisablePreview d) g))"

definition stop_live_preview_poll :: "gui_state \<Rightarrow> gui_state" where
  "stop_live_preview_poll g = stop_live_preview_poll_if_idle (g\<lparr>gs_preview_docs := {}\<rparr>)"

section \<open>Documents\<close>

definition unload_gui :: "gui_env \<Rightarrow> app_record \<Rightarrow> gui_state \<Rightarrow> app_record \<times> gui_state" where
  "unload_gui env r g =
     (r\<lparr>ar_actions := [], ar_document := None\<rparr>,
      case ar_document r of
        None \<Rightarrow> g
      | Some d \<Rightarrow> if ge_available env then gs_do (UnloadDocument d) (remove_live_preview_document d g) else g)"

definition load_document :: "gui_env \<Rightarrow> app_record \<Rightarrow> gui_call list \<Rightarrow> nat expected" where
  "load_document env r calls =
     (if gd_root_kind (ar_gui r) = RootFile
      then ge_load_file env calls (resolve_app_resource_path env (ar_manifest r) (gd_root (ar_gui r)))
      else ge_load_json env calls (am_id (ar_manifest r)) (gd_root (ar_gui r)) (resolve_app_resource_dir env (ar_manifest r)))"

definition ensure_gui_loaded :: "gui_env \<Rightarrow> app_record \<Rightarrow> gui_state \<Rightarrow> unit expected \<times> app_record \<times> gui_state" where
  "ensure_gui_loaded env r g =
     (if gd_root_kind (ar_gui r) = RootNone then (Inr (), r, g)
      else if \<not> ge_available env then (Inl ''GUI runtime is not available'', r, g)
      else if ar_document r \<noteq> None then (Inr (), r, g)
      else case load_document env r (gs_calls g) of
        Inl e \<Rightarrow> (Inl e, r, g)
      | Inr d \<Rightarrow>
          (let g1 = gs_do (LoadDocument d) g; r1 = r\<lparr>ar_document := Some d\<rparr> in
           if ge_live_preview env \<and> gd_root_kind (ar_gui r) = RootFile
           then (case enable_live_preview_for_document env d g1 of
               (Inl e, g2) \<Rightarrow> (Inl e, r\<lparr>ar_document := None\<rparr>, gs_do (UnloadDocument d) g2)
             | (Inr _, g2) \<Rightarrow> (Inr (), r1, g2))
           else (Inr (), r1, g1)))"

section \<open>Images and fonts\<close>

text \<open>Forget the ids an app owns, in the order given.\<close>

fun unregister_fonts :: "u32 \<Rightarrow> string list \<Rightarrow> gui_state \<Rightarrow> gui_state" where
  "unregister_fonts i [] g = g"
| "unregister_fonts i (f # fs) g =
     unregister_fonts i fs
       (if map_of (gs_font_owners g) f = Some i
        then (gs_do (UnregisterFont f) g)\<lparr>gs_font_owners := smap_del f (gs_font_owners g)\<rparr> else g)"

fun unregister_images :: "u32 \<Rightarrow> string list \<Rightarrow> gui_state \<Rightarrow> gui_state" where
  "unregister_images i [] g = g"
| "unregister_images i (f # fs) g =
     unregister_images i fs
       (if map_of (gs_image_owners g) f = Some i
        then (gs_do (UnregisterImage f) g)\<lparr>gs_image_owners := smap_del f (gs_image_owners g)\<rparr> else g)"

definition unregister_app_gui_resources :: "gui_env \<Rightarrow> app_record \<Rightarrow> gui_state \<Rightarrow> app_record \<times> gui_state" where
  "unregister_app_gui_resources env r g =
     (r\<lparr>ar_registered_images := [], ar_registered_fonts := []\<rparr>,
      if \<not> ge_available env then g
      else unregister_fonts (ar_id r) (rev (ar_registered_fonts r))
             (unregister_images (ar_id r) (rev (ar_registered_images r)) g))"

definition unregister_app_icon_resource :: "gui_env \<Rightarrow> app_record \<Rightarrow> gui_state \<Rightarrow> app_record \<times> gui_state" where
  "unregister_app_icon_resource env r g =
     (r\<lparr>ar_registered_icon := []\<rparr>,
      if \<not> ge_available env \<or> ar_registered_icon r = [] then g
      else unregister_images (ar_id r) [ar_registered_icon r] g)"

definition register_app_icon_resource :: "gui_env \<Rightarrow> app_record \<Rightarrow> gui_state \<Rightarrow> unit expected \<times> app_record \<times> gui_state" where
  "register_app_icon_resource env r g =
     (let m = ar_manifest r in
      if \<not> am_visible m then (Inr (), r, g)
      else if am_icon_path m = [] \<and> am_icon_id m = [] then (Inr (), r, g)
      else if ar_registered_icon r \<noteq> [] then (Inr (), r, g)
      else if \<not> ge_available env then (Inr (), r, g)
      else case ge_icon env m (resolve_app_resource_dir env m) of
        (icon, icon_path) \<Rightarrow>
          (let r1 = r\<lparr>ar_info := (ar_info r)\<lparr>ai_manifest := m\<lparr>am_icon_path := icon_path\<rparr>\<rparr>\<rparr>; res = am_id m in
           case icon of
             Inl e \<Rightarrow> (Inl e, r1, g)
           | Inr None \<Rightarrow> (Inr (), r1, g)
           | Inr (Some im) \<Rightarrow>
               if res \<noteq> [] \<and> map_of (gs_image_owners g) res \<notin> {None, Some (ar_id r)}
               then (Inl (''Image resource id already registered by another app: '' @ res), r1, g)
               else (case ge_register_image env (gs_calls g) (im\<lparr>im_id := res\<rparr>) of
                   Inl e \<Rightarrow> (Inl (''Failed to register app icon resource: '' @ e), r1, gs_do (RegisterImage res False) g)
                 | Inr _ \<Rightarrow>
                     (let g1 = gs_do (RegisterImage res True) g in
                      if res = [] then (Inr (), r1, g1)
                      else (Inr (), r1\<lparr>ar_registered_icon := res\<rparr>,
                            g1\<lparr>gs_image_owners := smap_put res (ar_id r) (gs_image_owners g1)\<rparr>)))))"

text \<open>The ids of the descriptor: no id twice, none that another app owns.\<close>

fun check_resource_ids :: "string \<Rightarrow> string \<Rightarrow> u32 \<Rightarrow> (string, u32) smap \<Rightarrow> string list \<Rightarrow> string set \<Rightarrow> unit expected" where
  "check_resource_ids kind Kind i owners [] seen = Inr ()"
| "check_resource_ids kind Kind i owners (x # xs) seen =
     (if x \<in> seen then Inl (''Duplicate app '' @ kind @ '' resource id: '' @ x)
      else if map_of owners x \<notin> {None, Some i} then Inl (Kind @ '' resource id already registered by another app: '' @ x)
      else check_resource_ids kind Kind i owners xs (insert x seen))"

fun register_fonts :: "gui_env \<Rightarrow> string \<Rightarrow> font_resource list \<Rightarrow> app_record \<Rightarrow> gui_state \<Rightarrow> unit expected \<times> app_record \<times> gui_state" where
  "register_fonts env dir [] r g = (Inr (), r, g)"
| "register_fonts env dir (f # fs) r g =
     (case ge_register_font env (gs_calls g) (resolve_font_resource_sources dir f) of
        Inl e \<Rightarrow>
          (case unregister_app_gui_resources env r (gs_do (RegisterFont (fo_id f) False) g) of
             (r1, g1) \<Rightarrow> (Inl (''Failed to register app font resource '' @ CHR 0x27 # fo_id f @ CHR 0x27 # '': '' @ e), r1, g1))
      | Inr _ \<Rightarrow>
          register_fonts env dir fs (r\<lparr>ar_registered_fonts := ar_registered_fonts r @ [fo_id f]\<rparr>)
            ((gs_do (RegisterFont (fo_id f) True) g)\<lparr>gs_font_owners := smap_put (fo_id f) (ar_id r) (gs_font_owners g)\<rparr>))"

fun register_images :: "gui_env \<Rightarrow> string \<Rightarrow> image_resource list \<Rightarrow> app_record \<Rightarrow> gui_state \<Rightarrow> unit expected \<times> app_record \<times> gui_state" where
  "register_images env dir [] r g = (Inr (), r, g)"
| "register_images env dir (f # fs) r g =
     (case ge_register_image env (gs_calls g) (resolve_image_resource_sources dir f) of
        Inl e \<Rightarrow>
          (case unregister_app_gui_resources env r (gs_do (RegisterImage (im_id f) False) g) of
             (r1, g1) \<Rightarrow> (Inl (''Failed to register app image resource '' @ CHR 0x27 # im_id f @ CHR 0x27 # '': '' @ e), r1, g1))
      | Inr _ \<Rightarrow>
          register_images env dir fs (r\<lparr>ar_registered_images := ar_registered_images r @ [im_id f]\<rparr>)
            ((gs_do (RegisterImage (im_id f) True) g)\<lparr>gs_image_owners := smap_put (im_id f) (ar_id r) (gs_image_owners g)\<rparr>))"

definition register_app_gui_resources :: "gui_env \<Rightarrow> app_record \<Rightarrow> gui_state \<Rightarrow> unit expected \<times> app_record \<times> gui_state" where
  "register_app_gui_resources env r g =
     (if ar_kind r \<noteq> Native \<or> ar_native r = None then (Inr (), r, g)
      else if ar_registered_images r \<noteq> [] \<or> ar_registered_fonts r \<noteq> [] then (Inr (), r, g)
      else if ar_images r = [] \<and> ar_fonts r = [] then (Inr (), r, g)
      else if \<not> ge_available env then (Inl ''GUI runtime is not available'', r, g)
      else case check_resource_ids ''font'' ''Font'' (ar_id r) (gs_font_owners g) (map fo_id (ar_fonts r)) {} of
        Inl e \<Rightarrow> (Inl e, r, g)
      | Inr _ \<Rightarrow>
        (case check_resource_ids ''image'' ''Image'' (ar_id r) (gs_image_owners g) (map im_id (ar_images r)) {} of
           Inl e \<Rightarrow> (Inl e, r, g)
         | Inr _ \<Rightarrow>
             (let dir = resolve_app_resource_dir env (ar_manifest r) in
              case register_fonts env dir (ar_fonts r) r g of
                (Inl e, r1, g1) \<Rightarrow> (Inl e, r1, g1)
              | (Inr _, r1, g1) \<Rightarrow> register_images env dir (ar_images r) r1 g1)))"

section \<open>Installing, starting and stopping\<close>

definition prepare_installed_app_gui :: "gui_env \<Rightarrow> app_record \<Rightarrow> gui_state \<Rightarrow> unit expected \<times> app_record \<times> gui_state" where
  "prepare_installed_app_gui env r g =
     (case register_app_icon_resource env r g of
        (Inl e, r1, g1) \<Rightarrow> (Inl e, r1, g1)
      | (Inr _, r1, g1) \<Rightarrow>
          if \<not> ar_preload_dom r1 then (Inr (), r1, g1)
          else (case register_app_gui_resources env r1 g1 of
              (Inl e, r2, g2) \<Rightarrow> (Inl e, r2, g2)
            | (Inr _, r2, g2) \<Rightarrow> ensure_gui_loaded env r2 g2))"

definition stop_flow :: "nat \<Rightarrow> screen_flow_entry \<Rightarrow> gui_state \<Rightarrow> gui_state" where
  "stop_flow d entry g = gs_do (StopFlow d (sf_screen_flow entry)) g"

definition release_app_gui_presentation :: "gui_env \<Rightarrow> app_record \<Rightarrow> gui_state \<Rightarrow> app_record \<times> gui_state" where
  "release_app_gui_presentation env r g =
     (r\<lparr>ar_actions := []\<rparr>,
      case ar_document r of
        None \<Rightarrow> g
      | Some d \<Rightarrow> if ge_available env then fold (stop_flow d) (gd_screen_flows (ar_gui r)) g else g)"

definition clear_gui_bindings :: "u32 \<Rightarrow> gui_state \<Rightarrow> gui_state" where
  "clear_gui_bindings i g = g\<lparr>gs_bindings := clear_pending_gui_bindings i (gs_bindings g)\<rparr>"

definition unload_app_gui :: "gui_env \<Rightarrow> app_record \<Rightarrow> gui_state \<Rightarrow> app_record \<times> gui_state" where
  "unload_app_gui env r g = (case unload_gui env r g of (r1, g1) \<Rightarrow> unregister_app_gui_resources env r1 g1)"

definition cleanup_stopped_app_gui :: "gui_env \<Rightarrow> app_record \<Rightarrow> gui_state \<Rightarrow> app_record \<times> gui_state" where
  "cleanup_stopped_app_gui env r g =
     (let g1 = clear_gui_bindings (ar_id r) g in
      if ar_preload_dom r then release_app_gui_presentation env r g1 else unload_app_gui env r g1)"

definition rollback_installed_app_gui :: "gui_env \<Rightarrow> app_record \<Rightarrow> gui_state \<Rightarrow> app_record \<times> gui_state" where
  "rollback_installed_app_gui env r g =
     (case unload_app_gui env r g of (r1, g1) \<Rightarrow> unregister_app_icon_resource env r1 g1)"

fun start_screen_flows :: "gui_env \<Rightarrow> nat \<Rightarrow> screen_flow_entry list \<Rightarrow> app_record \<Rightarrow> gui_state \<Rightarrow> unit expected \<times> app_record \<times> gui_state" where
  "start_screen_flows env d [] r g = (Inr (), r, g)"
| "start_screen_flows env d (entry # entries) r g =
     (case map_manifest_target (ar_kind r) entry of
        Inl e \<Rightarrow> (case unload_app_gui env r g of (r1, g1) \<Rightarrow> (Inl e, r1, g1))
      | Inr target \<Rightarrow>
          if \<not> ge_has_flow env (gs_calls g) d (sf_screen_flow entry)
          then (case unload_app_gui env r g of (r1, g1) \<Rightarrow>
            (Inl (''App GUI screen flow is not found: '' @ sf_screen_flow entry), r1, g1))
          else (case ge_start_flow env (gs_calls g) d (sf_screen_flow entry) target of
              Inl e \<Rightarrow> (case unload_app_gui env r g of (r1, g1) \<Rightarrow> (Inl e, r1, g1))
            | Inr _ \<Rightarrow> start_screen_flows env d entries r (gs_do (StartFlow d (sf_screen_flow entry) target) g)))"

text \<open>The GUI task of a start.\<close>

definition prepare_app_gui :: "gui_env \<Rightarrow> app_record \<Rightarrow> gui_state \<Rightarrow> unit expected \<times> app_record \<times> gui_state" where
  "prepare_app_gui env r g =
     (case register_app_gui_resources env r g of
        (Inl e, r1, g1) \<Rightarrow> (Inl e, r1, g1)
      | (Inr _, r1, g1) \<Rightarrow>
        (case ensure_gui_loaded env r1 g1 of
           (Inl e, r2, g2) \<Rightarrow> (case unregister_app_gui_resources env r2 g2 of (r3, g3) \<Rightarrow> (Inl e, r3, g3))
         | (Inr _, r2, g2) \<Rightarrow>
             (case ar_document r2 of
                None \<Rightarrow> (Inr (), r2, g2)
              | Some d \<Rightarrow> start_screen_flows env d (gd_screen_flows (ar_gui r2)) r2 g2)))"

text \<open>Subscribing to actions: those not subscribed yet, all or none.\<close>

fun connect_actions :: "gui_env \<Rightarrow> nat \<Rightarrow> string list \<Rightarrow> string list \<Rightarrow> gui_state \<Rightarrow> string list option \<times> gui_state" where
  "connect_actions env d known [] g = (Some [], g)"
| "connect_actions env d known (a # as) g =
     (if a \<in> set known then connect_actions env d known as g
      else if \<not> ge_subscribe env (gs_calls g) d a then (None, g)
      else (case connect_actions env d known as (gs_do (SubscribeAction d a) g) of
          (None, g1) \<Rightarrow> (None, g1) | (Some new, g1) \<Rightarrow> (Some (a # new), g1)))"

definition subscribe_gui_actions_now :: "gui_env \<Rightarrow> string list \<Rightarrow> app_record \<Rightarrow> gui_state \<Rightarrow> unit expected \<times> app_record \<times> gui_state" where
  "subscribe_gui_actions_now env actions r g =
     (case ar_document r of
        Some d \<Rightarrow>
          if \<not> ge_available env then (Inl ''App GUI document is not loaded'', r, g)
          else (case connect_actions env d (ar_actions r) actions g of
              (None, g1) \<Rightarrow> (Inl ''Failed to subscribe GUI action'', r, g1)
            | (Some new, g1) \<Rightarrow> (Inr (), r\<lparr>ar_actions := ar_actions r @ new\<rparr>, g1))
      | None \<Rightarrow> (Inl ''App GUI document is not loaded'', r, g))"

section \<open>What the GUI runtime holds\<close>

fun document_step :: "gui_call \<Rightarrow> nat set \<Rightarrow> nat set" where
  "document_step (LoadDocument d) ds = insert d ds"
| "document_step (UnloadDocument d) ds = ds - {d}"
| "document_step c ds = ds"

fun image_step :: "gui_call \<Rightarrow> string set \<Rightarrow> string set" where
  "image_step (RegisterImage x ok) xs = (if ok then insert x xs else xs)"
| "image_step (UnregisterImage x) xs = xs - {x}"
| "image_step c xs = xs"

fun font_step :: "gui_call \<Rightarrow> string set \<Rightarrow> string set" where
  "font_step (RegisterFont x ok) xs = (if ok then insert x xs else xs)"
| "font_step (UnregisterFont x) xs = xs - {x}"
| "font_step c xs = xs"

definition live_documents :: "gui_call list \<Rightarrow> nat set" where
  "live_documents cs = fold document_step cs {}"

definition live_images :: "gui_call list \<Rightarrow> string set" where
  "live_images cs = fold image_step cs {}"

definition live_fonts :: "gui_call list \<Rightarrow> string set" where
  "live_fonts cs = fold font_step cs {}"

lemma live_append [simp]:
  "live_documents (cs @ cs') = fold document_step cs' (live_documents cs)"
  "live_images (cs @ cs') = fold image_step cs' (live_images cs)"
  "live_fonts (cs @ cs') = fold font_step cs' (live_fonts cs)"
  by (simp_all add: live_documents_def live_images_def live_fonts_def)

text \<open>A record and the GUI side agree: the record's document is loaded, the ids the app owns are recorded, and
  the owner maps are what is registered.\<close>

definition gui_ok :: "app_record \<Rightarrow> gui_state \<Rightarrow> bool" where
  "gui_ok r g \<longleftrightarrow>
     set_option (ar_document r) \<subseteq> live_documents (gs_calls g) \<and> am_id (ar_manifest r) \<noteq> [] \<and>
     live_images (gs_calls g) = dom (map_of (gs_image_owners g)) \<and> live_fonts (gs_calls g) = dom (map_of (gs_font_owners g)) \<and>
     (\<forall>x. map_of (gs_image_owners g) x = Some (ar_id r) \<longrightarrow> x \<in> set (ar_registered_images r) \<or> x = ar_registered_icon r \<and> x \<noteq> []) \<and>
     (\<forall>x. map_of (gs_font_owners g) x = Some (ar_id r) \<longrightarrow> x \<in> set (ar_registered_fonts r))"

text \<open>What an operation on one app leaves alone: the documents and resources of the others, and what the
  record holds beside the GUI.\<close>

definition gui_frame :: "app_record \<Rightarrow> gui_state \<Rightarrow> app_record \<Rightarrow> gui_state \<Rightarrow> bool" where
  "gui_frame r g r' g' \<longleftrightarrow>
     ar_id r' = ar_id r \<and> ar_gui r' = ar_gui r \<and> am_id (ar_manifest r') = am_id (ar_manifest r) \<and> ar_kind r' = ar_kind r \<and>
     am_app_path (ar_manifest r') = am_app_path (ar_manifest r) \<and>
     ar_state r' = ar_state r \<and> ai_last_error (ar_info r') = ai_last_error (ar_info r) \<and> ar_native r' = ar_native r \<and> ar_runtime r' = ar_runtime r \<and> ar_timers r' = ar_timers r \<and>
     ar_runtime_loaded r' = ar_runtime_loaded r \<and> ar_runtime_started r' = ar_runtime_started r \<and> ar_preload_dom r' = ar_preload_dom r \<and>
     live_documents (gs_calls g') - set_option (ar_document r') = live_documents (gs_calls g) - set_option (ar_document r) \<and>
     (\<forall>x j. j \<noteq> ar_id r \<longrightarrow> (map_of (gs_image_owners g') x = Some j) = (map_of (gs_image_owners g) x = Some j)) \<and>
     (\<forall>x j. j \<noteq> ar_id r \<longrightarrow> (map_of (gs_font_owners g') x = Some j) = (map_of (gs_font_owners g) x = Some j))"

definition gui_keeps :: "app_record \<Rightarrow> gui_state \<Rightarrow> app_record \<Rightarrow> gui_state \<Rightarrow> bool" where
  "gui_keeps r g r' g' \<longleftrightarrow> (gui_ok r g \<longrightarrow> gui_ok r' g' \<and> gui_frame r g r' g')"

lemma gui_frame_refl [simp]: "gui_frame r g r g"
  by (simp add: gui_frame_def)

lemma gui_frame_trans: "gui_frame r g r1 g1 \<Longrightarrow> gui_frame r1 g1 r2 g2 \<Longrightarrow> gui_frame r g r2 g2"
  by (simp add: gui_frame_def)

lemma gui_keeps_refl [simp]: "gui_keeps r g r g"
  by (simp add: gui_keeps_def)

lemma gui_keeps_trans [trans]: "gui_keeps r g r1 g1 \<Longrightarrow> gui_keeps r1 g1 r2 g2 \<Longrightarrow> gui_keeps r g r2 g2"
  using gui_frame_trans by (simp add: gui_keeps_def) blast

lemma gs_do_fields [simp]:
  "gs_calls (gs_do c g) = gs_calls g @ [c]" "gs_image_owners (gs_do c g) = gs_image_owners g"
  "gs_font_owners (gs_do c g) = gs_font_owners g" "gs_preview_docs (gs_do c g) = gs_preview_docs g"
  by (simp_all add: gs_do_def)

text \<open>Operations that only add calls that hold nothing.\<close>

definition same_holdings :: "gui_state \<Rightarrow> gui_state \<Rightarrow> bool" where
  "same_holdings g g' \<longleftrightarrow> live_documents (gs_calls g') = live_documents (gs_calls g) \<and>
     live_images (gs_calls g') = live_images (gs_calls g) \<and> live_fonts (gs_calls g') = live_fonts (gs_calls g) \<and>
     gs_image_owners g' = gs_image_owners g \<and> gs_font_owners g' = gs_font_owners g"

lemma same_holdings_keeps: "same_holdings g g' \<Longrightarrow> gui_keeps r g r g'"
  by (simp add: same_holdings_def gui_keeps_def gui_ok_def gui_frame_def)

lemma same_holdings_trans [trans]: "same_holdings g g1 \<Longrightarrow> same_holdings g1 g2 \<Longrightarrow> same_holdings g g2"
  by (simp add: same_holdings_def)

lemma preview_holdings: "same_holdings g (stop_live_preview_poll_if_idle g)" "same_holdings g (remove_live_preview_document d g)"
  by (auto simp: stop_live_preview_poll_if_idle_def remove_live_preview_document_def same_holdings_def)

lemma enable_preview_holdings: "enable_live_preview_for_document env d g = (x, g') \<Longrightarrow> same_holdings g g'"
  by (auto simp: enable_live_preview_for_document_def ensure_live_preview_poll_started_def same_holdings_def gs_do_def
      split: if_splits sum.splits option.splits)

lemma stop_flows_holdings: "same_holdings g (fold (stop_flow d) es g)"
proof (induction es arbitrary: g)
  case Nil
  show ?case by (simp add: same_holdings_def)
next
  case (Cons e es)
  have "same_holdings g (stop_flow d e g)" by (simp add: stop_flow_def same_holdings_def)
  from same_holdings_trans [OF this Cons [of "stop_flow d e g"]] show ?case by simp
qed

lemma clear_bindings_holdings: "same_holdings g (clear_gui_bindings i g)"
  by (simp add: clear_gui_bindings_def clear_pending_gui_bindings_def same_holdings_def)

section \<open>Unloading\<close>

lemma gui_keeps_actions: "gui_keeps r g (r\<lparr>ar_actions := a\<rparr>) g"
  by (simp add: gui_keeps_def gui_ok_def gui_frame_def)

lemma unload_gui_keeps:
  assumes "unload_gui env r g = (r', g')" "ge_available env"
  shows "gui_keeps r g r' g' \<and> ar_document r' = None"
proof (cases "ar_document r")
  case None
  then have "r' = r\<lparr>ar_actions := [], ar_document := None\<rparr>" "g' = g" using assms by (simp_all add: unload_gui_def)
  then show ?thesis using None by (simp add: gui_keeps_def gui_ok_def gui_frame_def)
next
  case (Some d)
  note h = preview_holdings(2) [of g d, unfolded same_holdings_def]
  show ?thesis using assms Some h by (auto simp: unload_gui_def gui_keeps_def gui_ok_def gui_frame_def)
qed

lemma unregister_fonts_fields [simp]:
  "live_documents (gs_calls (unregister_fonts i xs g)) = live_documents (gs_calls g)"
  "live_images (gs_calls (unregister_fonts i xs g)) = live_images (gs_calls g)"
  "gs_image_owners (unregister_fonts i xs g) = gs_image_owners g"
  by (induction xs arbitrary: g) simp_all

lemma unregister_fonts_live:
  "live_fonts (gs_calls g) = dom (map_of (gs_font_owners g)) \<Longrightarrow>
   live_fonts (gs_calls (unregister_fonts i xs g)) = dom (map_of (gs_font_owners (unregister_fonts i xs g)))"
  by (induction xs arbitrary: g) simp_all

lemma unregister_fonts_owners [simp]:
  "map_of (gs_font_owners (unregister_fonts i xs g)) x =
     (if x \<in> set xs \<and> map_of (gs_font_owners g) x = Some i then None else map_of (gs_font_owners g) x)"
  by (induction xs arbitrary: g) simp_all

lemma unregister_images_fields [simp]:
  "live_documents (gs_calls (unregister_images i xs g)) = live_documents (gs_calls g)"
  "live_fonts (gs_calls (unregister_images i xs g)) = live_fonts (gs_calls g)"
  "gs_font_owners (unregister_images i xs g) = gs_font_owners g"
  by (induction xs arbitrary: g) simp_all

lemma unregister_images_live:
  "live_images (gs_calls g) = dom (map_of (gs_image_owners g)) \<Longrightarrow>
   live_images (gs_calls (unregister_images i xs g)) = dom (map_of (gs_image_owners (unregister_images i xs g)))"
  by (induction xs arbitrary: g) simp_all

lemma unregister_images_owners [simp]:
  "map_of (gs_image_owners (unregister_images i xs g)) x =
     (if x \<in> set xs \<and> map_of (gs_image_owners g) x = Some i then None else map_of (gs_image_owners g) x)"
  by (induction xs arbitrary: g) simp_all

definition owned_images :: "u32 \<Rightarrow> gui_state \<Rightarrow> string set" where
  "owned_images i g = {x. map_of (gs_image_owners g) x = Some i}"

definition owned_fonts :: "u32 \<Rightarrow> gui_state \<Rightarrow> string set" where
  "owned_fonts i g = {x. map_of (gs_font_owners g) x = Some i}"

lemma unregister_resources_keeps:
  assumes "unregister_app_gui_resources env r g = (r', g')" "ge_available env"
  shows "gui_keeps r g r' g' \<and> ar_document r' = ar_document r"
proof -
  let ?g1 = "unregister_images (ar_id r) (rev (ar_registered_images r)) g"
  have d: "r' = r\<lparr>ar_registered_images := [], ar_registered_fonts := []\<rparr>"
    "g' = unregister_fonts (ar_id r) (rev (ar_registered_fonts r)) ?g1"
    using assms by (simp_all add: unregister_app_gui_resources_def)
  show ?thesis
  proof (cases "gui_ok r g")
    case True
    then have "live_images (gs_calls g') = dom (map_of (gs_image_owners g'))" "live_fonts (gs_calls g') = dom (map_of (gs_font_owners g'))"
      using unregister_images_live [of g] unregister_fonts_live [of ?g1] by (simp_all add: d gui_ok_def)
    then show ?thesis using True by (auto simp: d gui_keeps_def gui_ok_def gui_frame_def split: if_splits)
  qed (simp add: d gui_keeps_def)
qed

text \<open>Once nothing is recorded any more, nothing is owned.\<close>

lemma gui_ok_frees:
  "gui_ok r g \<Longrightarrow> ar_registered_images r = [] \<Longrightarrow> ar_registered_fonts r = [] \<Longrightarrow> ar_registered_icon r = [] \<Longrightarrow>
   owned_images (ar_id r) g = {} \<and> owned_fonts (ar_id r) g = {}"
  by (auto simp: gui_ok_def owned_images_def owned_fonts_def)

lemma unregister_icon_keeps:
  assumes "unregister_app_icon_resource env r g = (r', g')" "ge_available env"
  shows "gui_keeps r g r' g'"
proof (cases "gui_ok r g \<and> ar_registered_icon r \<noteq> []")
  case True
  then have d: "r' = r\<lparr>ar_registered_icon := []\<rparr>" "g' = unregister_images (ar_id r) [ar_registered_icon r] g"
    using assms by (simp_all add: unregister_app_icon_resource_def del: unregister_images.simps)
  have "live_images (gs_calls g') = dom (map_of (gs_image_owners g'))"
    using unregister_images_live [of g] True unfolding d gui_ok_def by blast
  then show ?thesis using True
    by (auto simp: d gui_keeps_def gui_ok_def gui_frame_def simp del: unregister_images.simps split: if_splits)
next
  case False
  then show ?thesis using assms by (auto simp: unregister_app_icon_resource_def gui_keeps_def gui_ok_def gui_frame_def)
qed

lemma unload_app_gui_keeps:
  assumes "unload_app_gui env r g = (r', g')" "ge_available env"
  shows "gui_keeps r g r' g' \<and> ar_document r' = None \<and> ar_registered_images r' = [] \<and> ar_registered_fonts r' = []"
proof -
  obtain r1 g1 where u: "unload_gui env r g = (r1, g1)" by force
  then have v: "unregister_app_gui_resources env r1 g1 = (r', g')" using assms by (simp add: unload_app_gui_def)
  then have "ar_registered_images r' = [] \<and> ar_registered_fonts r' = []" by (auto simp: unregister_app_gui_resources_def)
  then show ?thesis
    using unload_gui_keeps [OF u assms(2)] unregister_resources_keeps [OF v assms(2)] gui_keeps_trans by metis
qed

lemma cleanup_stopped_keeps:
  assumes "cleanup_stopped_app_gui env r g = (r', g')" "ge_available env"
  shows "gui_keeps r g r' g' \<and> (\<not> ar_preload_dom r \<longrightarrow> ar_document r' = None) \<and> map_of (gb_buffers (gs_bindings (clear_gui_bindings (ar_id r) g))) (ar_id r) = None"
proof -
  let ?g = "clear_gui_bindings (ar_id r) g"
  have c: "gui_keeps r g r ?g" by (rule same_holdings_keeps [OF clear_bindings_holdings])
  have m: "map_of (gb_buffers (gs_bindings ?g)) (ar_id r) = None" by (simp add: clear_gui_bindings_def clear_pending_gui_bindings_def)
  show ?thesis
  proof (cases "ar_preload_dom r")
    case True
    then have "g' = (case ar_document r of None \<Rightarrow> ?g | Some d \<Rightarrow> fold (stop_flow d) (gd_screen_flows (ar_gui r)) ?g)"
      "r' = r\<lparr>ar_actions := []\<rparr>"
      using assms by (auto simp: cleanup_stopped_app_gui_def release_app_gui_presentation_def Let_def split: option.splits)
    moreover have "gui_keeps r ?g r (case ar_document r of None \<Rightarrow> ?g | Some d \<Rightarrow> fold (stop_flow d) (gd_screen_flows (ar_gui r)) ?g)"
      using same_holdings_keeps [OF stop_flows_holdings] by (simp split: option.split)
    ultimately have "gui_keeps r g r' g'" using c gui_keeps_actions gui_keeps_trans by metis
    then show ?thesis using True m by simp
  next
    case False
    then have "unload_app_gui env r ?g = (r', g')" using assms by (simp add: cleanup_stopped_app_gui_def Let_def)
    from unload_app_gui_keeps [OF this assms(2)] show ?thesis using c gui_keeps_trans m by blast
  qed
qed

lemma rollback_keeps:
  assumes "rollback_installed_app_gui env r g = (r', g')" "ge_available env"
  shows "gui_keeps r g r' g' \<and> ar_document r' = None \<and> ar_registered_images r' = [] \<and> ar_registered_fonts r' = [] \<and> ar_registered_icon r' = []"
proof -
  obtain r1 g1 where u: "unload_app_gui env r g = (r1, g1)" by force
  then have v: "unregister_app_icon_resource env r1 g1 = (r', g')" using assms by (simp add: rollback_installed_app_gui_def)
  note k = unload_app_gui_keeps [OF u assms(2)] unregister_icon_keeps [OF v assms(2)]
  have "ar_registered_icon r' = []" "ar_registered_images r' = ar_registered_images r1" "ar_document r' = ar_document r1"
    "ar_registered_fonts r' = ar_registered_fonts r1"
    using v by (auto simp: unregister_app_icon_resource_def)
  then show ?thesis using k gui_keeps_trans by metis
qed

section \<open>Loading\<close>

text \<open>The GUI runtime gives every document it loads an id of its own.\<close>

definition fresh_documents :: "gui_env \<Rightarrow> bool" where
  "fresh_documents env \<longleftrightarrow>
     (\<forall>calls p d. ge_load_file env calls p = Inr d \<longrightarrow> d \<notin> live_documents calls) \<and>
     (\<forall>calls m p q d. ge_load_json env calls m p q = Inr d \<longrightarrow> d \<notin> live_documents calls)"

lemma load_document_fresh: "fresh_documents env \<Longrightarrow> load_document env r calls = Inr d \<Longrightarrow> d \<notin> live_documents calls"
  by (auto simp: fresh_documents_def load_document_def split: if_splits)

lemma load_keeps:
  "ar_document r = None \<Longrightarrow> d \<notin> live_documents (gs_calls g) \<Longrightarrow> gui_keeps r g (r\<lparr>ar_document := Some d\<rparr>) (gs_do (LoadDocument d) g)"
  by (auto simp: gui_keeps_def gui_ok_def gui_frame_def)

lemma load_undone_keeps:
  assumes "ar_document r = None" "d \<notin> live_documents (gs_calls g)" "same_holdings (gs_do (LoadDocument d) g) g2"
  shows "gui_keeps r g (r\<lparr>ar_document := None\<rparr>) (gs_do (UnloadDocument d) g2)"
  using assms by (auto simp: gui_keeps_def gui_ok_def gui_frame_def same_holdings_def)

lemma ensure_gui_loaded_keeps:
  assumes "ensure_gui_loaded env r g = (x, r', g')" "fresh_documents env"
  shows "gui_keeps r g r' g' \<and> (x = Inr () \<and> gd_root_kind (ar_gui r) \<noteq> RootNone \<longrightarrow> ar_document r' \<noteq> None) \<and>
    ((\<exists>e. x = Inl e) \<and> ar_document r = None \<longrightarrow> ar_document r' = None)"
proof (cases "gd_root_kind (ar_gui r) \<noteq> RootNone \<and> ge_available env \<and> ar_document r = None \<and> (\<exists>d. load_document env r (gs_calls g) = Inr d)")
  case True
  then obtain d where d: "load_document env r (gs_calls g) = Inr d" by blast
  note fresh = load_document_fresh [OF assms(2) d]
  have n: "ar_document r = None" using True by simp
  let ?g1 = "gs_do (LoadDocument d) g"
  show ?thesis
  proof (cases "ge_live_preview env \<and> gd_root_kind (ar_gui r) = RootFile")
    case preview: True
    obtain y g2 where y: "enable_live_preview_for_document env d ?g1 = (y, g2)" by force
    note h = enable_preview_holdings [OF y]
    have "gui_keeps r g (r\<lparr>ar_document := Some d\<rparr>) g2"
      using gui_keeps_trans [OF load_keeps [OF n fresh] same_holdings_keeps [OF h]] .
    then show ?thesis using assms(1) True d preview y load_undone_keeps [OF n fresh h]
      by (auto simp: ensure_gui_loaded_def split: sum.splits)
  next
    case False
    then show ?thesis using assms(1) True d load_keeps [OF n fresh] by (auto simp: ensure_gui_loaded_def)
  qed
qed (use assms(1) in \<open>auto simp: ensure_gui_loaded_def split: if_splits sum.splits\<close>)

lemma check_resource_ids_free:
  "check_resource_ids kind Kind i owners xs seen = Inr () \<Longrightarrow> x \<in> set xs \<Longrightarrow> map_of owners x \<in> {None, Some i}"
  by (induction xs arbitrary: seen) (auto split: if_splits)

lemma register_font_keeps:
  assumes "map_of (gs_font_owners g) x \<in> {None, Some (ar_id r)}"
  shows "gui_keeps r g (r\<lparr>ar_registered_fonts := ar_registered_fonts r @ [x]\<rparr>)
    ((gs_do (RegisterFont x True) g)\<lparr>gs_font_owners := smap_put x (ar_id r) (gs_font_owners g)\<rparr>)"
  using assms by (auto simp: gui_keeps_def gui_ok_def gui_frame_def)

lemma register_image_keeps:
  assumes "map_of (gs_image_owners g) x \<in> {None, Some (ar_id r)}"
  shows "gui_keeps r g (r\<lparr>ar_registered_images := ar_registered_images r @ [x]\<rparr>)
    ((gs_do (RegisterImage x True) g)\<lparr>gs_image_owners := smap_put x (ar_id r) (gs_image_owners g)\<rparr>)"
  using assms by (auto simp: gui_keeps_def gui_ok_def gui_frame_def)

lemma failed_registration_holdings: "same_holdings g (gs_do (RegisterFont x False) g)" "same_holdings g (gs_do (RegisterImage x False) g)"
  by (simp_all add: same_holdings_def)

lemma register_fonts_keeps:
  assumes "register_fonts env dir fs r g = (x, r', g')" "ge_available env"
    "\<And>f. f \<in> set fs \<Longrightarrow> map_of (gs_font_owners g) (fo_id f) \<in> {None, Some (ar_id r)}"
  shows "gui_keeps r g r' g' \<and> ar_document r' = ar_document r \<and> ar_gui r' = ar_gui r \<and>
    ar_id r' = ar_id r \<and> gs_image_owners g' = gs_image_owners g \<or> (\<exists>e. x = Inl e) \<and> gui_keeps r g r' g' \<and> ar_document r' = ar_document r"
  using assms
proof (induction fs arbitrary: r g)
  case (Cons f fs)
  show ?case
  proof (cases "ge_register_font env (gs_calls g) (resolve_font_resource_sources dir f)")
    case (Inl e)
    let ?g = "gs_do (RegisterFont (fo_id f) False) g"
    have "unregister_app_gui_resources env r ?g = (r', g')" "\<exists>e. x = Inl e" using Cons.prems(1) Inl by (auto split: prod.splits)
    then show ?thesis
      using unregister_resources_keeps [of env r ?g r' g'] Cons.prems(2) gui_keeps_trans [OF same_holdings_keeps [OF failed_registration_holdings(1)]] by blast
  next
    case (Inr u)
    let ?r = "r\<lparr>ar_registered_fonts := ar_registered_fonts r @ [fo_id f]\<rparr>"
    let ?g = "(gs_do (RegisterFont (fo_id f) True) g)\<lparr>gs_font_owners := smap_put (fo_id f) (ar_id r) (gs_font_owners g)\<rparr>"
    have step: "gui_keeps r g ?r ?g" using Cons.prems(3) [of f] by (intro register_font_keeps) simp
    have run: "register_fonts env dir fs ?r ?g = (x, r', g')" using Cons.prems(1) Inr by simp
    have "map_of (gs_font_owners ?g) (fo_id f') \<in> {None, Some (ar_id ?r)}" if "f' \<in> set fs" for f'
      using Cons.prems(3) [of f'] that by simp
    from Cons.IH [OF run Cons.prems(2) this] show ?thesis using gui_keeps_trans [OF step] by auto
  qed
qed simp

lemma register_images_keeps:
  assumes "register_images env dir fs r g = (x, r', g')" "ge_available env"
    "\<And>f. f \<in> set fs \<Longrightarrow> map_of (gs_image_owners g) (im_id f) \<in> {None, Some (ar_id r)}"
  shows "gui_keeps r g r' g' \<and> ar_document r' = ar_document r"
  using assms
proof (induction fs arbitrary: r g)
  case (Cons f fs)
  show ?case
  proof (cases "ge_register_image env (gs_calls g) (resolve_image_resource_sources dir f)")
    case (Inl e)
    let ?g = "gs_do (RegisterImage (im_id f) False) g"
    have "unregister_app_gui_resources env r ?g = (r', g')" using Cons.prems(1) Inl by (auto split: prod.splits)
    then show ?thesis
      using unregister_resources_keeps [of env r ?g r' g'] Cons.prems(2) gui_keeps_trans [OF same_holdings_keeps [OF failed_registration_holdings(2)]] by blast
  next
    case (Inr u)
    let ?r = "r\<lparr>ar_registered_images := ar_registered_images r @ [im_id f]\<rparr>"
    let ?g = "(gs_do (RegisterImage (im_id f) True) g)\<lparr>gs_image_owners := smap_put (im_id f) (ar_id r) (gs_image_owners g)\<rparr>"
    have step: "gui_keeps r g ?r ?g" using Cons.prems(3) [of f] by (intro register_image_keeps) simp
    have run: "register_images env dir fs ?r ?g = (x, r', g')" using Cons.prems(1) Inr by simp
    have "map_of (gs_image_owners ?g) (im_id f') \<in> {None, Some (ar_id ?r)}" if "f' \<in> set fs" for f'
      using Cons.prems(3) [of f'] that by simp
    from Cons.IH [OF run Cons.prems(2) this] show ?thesis using gui_keeps_trans [OF step] by auto
  qed
qed simp

lemma register_resources_keeps:
  assumes "register_app_gui_resources env r g = (x, r', g')"
  shows "gui_keeps r g r' g' \<and> ar_document r' = ar_document r"
proof (cases "ar_kind r = Native \<and> ar_native r \<noteq> None \<and> ar_registered_images r = [] \<and> ar_registered_fonts r = [] \<and>
    \<not> (ar_images r = [] \<and> ar_fonts r = []) \<and> ge_available env \<and>
    check_resource_ids ''font'' ''Font'' (ar_id r) (gs_font_owners g) (map fo_id (ar_fonts r)) {} = Inr () \<and>
    check_resource_ids ''image'' ''Image'' (ar_id r) (gs_image_owners g) (map im_id (ar_images r)) {} = Inr ()")
  case True
  let ?dir = "resolve_app_resource_dir env (ar_manifest r)"
  obtain y r1 g1 where y: "register_fonts env ?dir (ar_fonts r) r g = (y, r1, g1)" by (metis surj_pair)
  have f: "map_of (gs_font_owners g) (fo_id f) \<in> {None, Some (ar_id r)}" if "f \<in> set (ar_fonts r)" for f
    using True that by (intro check_resource_ids_free [of "''font''" "''Font''" "ar_id r" "gs_font_owners g" "map fo_id (ar_fonts r)" "{}"]) auto
  have im: "map_of (gs_image_owners g) (im_id f) \<in> {None, Some (ar_id r)}" if "f \<in> set (ar_images r)" for f
    using True that by (intro check_resource_ids_free [of "''image''" "''Image''" "ar_id r" "gs_image_owners g" "map im_id (ar_images r)" "{}"]) auto
  note k = register_fonts_keeps [OF y _ f]
  show ?thesis
  proof (cases y)
    case (Inl e)
    then show ?thesis using assms True y k by (auto simp: register_app_gui_resources_def Let_def)
  next
    case (Inr u)
    then have "register_images env ?dir (ar_images r) r1 g1 = (x, r', g')"
      using assms True y by (simp add: register_app_gui_resources_def Let_def)
    moreover have "gs_image_owners g1 = gs_image_owners g" "ar_id r1 = ar_id r" using k True Inr by auto
    ultimately show ?thesis using register_images_keeps [of env ?dir "ar_images r" r1 g1 x r' g'] True k im gui_keeps_trans by metis
  qed
qed (use assms in \<open>auto simp: register_app_gui_resources_def Let_def split: if_splits sum.splits\<close>)

lemma icon_path_keeps: "gui_keeps r g (r\<lparr>ar_info := (ar_info r)\<lparr>ai_manifest := (ar_manifest r)\<lparr>am_icon_path := p\<rparr>\<rparr>\<rparr>) g"
  by (simp add: gui_keeps_def gui_ok_def gui_frame_def)

lemma register_icon_keeps:
  assumes "register_app_icon_resource env r g = (x, r', g')"
  shows "gui_keeps r g r' g' \<and> ar_document r' = ar_document r"
proof (cases "gui_ok r g")
  case True
  obtain icon p where i: "ge_icon env (ar_manifest r) (resolve_app_resource_dir env (ar_manifest r)) = (icon, p)" by force
  let ?r1 = "r\<lparr>ar_info := (ar_info r)\<lparr>ai_manifest := (ar_manifest r)\<lparr>am_icon_path := p\<rparr>\<rparr>\<rparr>"
  let ?id = "am_id (ar_manifest r)"
  have id: "?id \<noteq> []" using True by (simp add: gui_ok_def)
  have reg: "gui_keeps ?r1 g (?r1\<lparr>ar_registered_icon := ?id\<rparr>)
      ((gs_do (RegisterImage ?id True) g)\<lparr>gs_image_owners := smap_put ?id (ar_id r) (gs_image_owners g)\<rparr>)"
    if "map_of (gs_image_owners g) ?id \<in> {None, Some (ar_id r)}" "ar_registered_icon r = []"
    using that id by (auto simp: gui_keeps_def gui_ok_def gui_frame_def)
  have failed: "gui_keeps r g ?r1 (gs_do (RegisterImage ?id False) g)"
    using gui_keeps_trans [OF icon_path_keeps same_holdings_keeps [OF failed_registration_holdings(2)]] .
  show ?thesis
    using assms i id failed icon_path_keeps [of r g p] gui_keeps_trans [OF icon_path_keeps reg]
    by (auto simp: register_app_icon_resource_def Let_def split: if_splits sum.splits option.splits)
qed (use assms in \<open>auto simp: gui_keeps_def register_app_icon_resource_def Let_def split: if_splits sum.splits option.splits prod.splits\<close>)

lemma prepare_installed_keeps:
  assumes "prepare_installed_app_gui env r g = (x, r', g')" "fresh_documents env"
  shows "gui_keeps r g r' g'"
proof -
  obtain y r1 g1 where y: "register_app_icon_resource env r g = (y, r1, g1)" by (metis surj_pair)
  obtain z r2 g2 where z: "register_app_gui_resources env r1 g1 = (z, r2, g2)" by (metis surj_pair)
  obtain w r3 g3 where w: "ensure_gui_loaded env r2 g2 = (w, r3, g3)" by (metis surj_pair)
  note k1 = register_icon_keeps [OF y, THEN conjunct1] and k2 = register_resources_keeps [OF z, THEN conjunct1]
    and k3 = ensure_gui_loaded_keeps [OF w assms(2), THEN conjunct1]
  show ?thesis
    using assms(1) y z w k1 gui_keeps_trans [OF k1 k2] gui_keeps_trans [OF gui_keeps_trans [OF k1 k2] k3]
    by (auto simp: prepare_installed_app_gui_def split: sum.splits if_splits)
qed

lemma start_screen_flows_keeps:
  assumes "start_screen_flows env d es r g = (x, r', g')" "ge_available env"
  shows "gui_keeps r g r' g' \<and> (case x of Inr _ \<Rightarrow> r' = r | Inl e \<Rightarrow> ar_document r' = None)"
  using assms
proof (induction es arbitrary: g)
  case (Cons e es)
  obtain r1 g1 where u: "unload_app_gui env r g = (r1, g1)" by force
  have k: "gui_keeps r g r1 g1 \<and> ar_document r1 = None" using unload_app_gui_keeps [OF u Cons.prems(2)] by blast
  have s: "gui_keeps r g r (gs_do (StartFlow d (sf_screen_flow e) t) g)" for t
    by (rule same_holdings_keeps) (simp add: same_holdings_def)
  show ?case using Cons.prems u k Cons.IH gui_keeps_trans [OF s]
    by (fastforce split: sum.splits if_splits)
qed (auto split: sum.splits)

lemma prepare_app_gui_keeps:
  assumes "prepare_app_gui env r g = (x, r', g')" "fresh_documents env" "ge_available env"
  shows "gui_keeps r g r' g' \<and>
    (x = Inr () \<and> gui_ok r g \<and> gd_root_kind (ar_gui r) \<noteq> RootNone \<longrightarrow> ar_document r' \<noteq> None) \<and>
    ((\<exists>e. x = Inl e) \<and> ar_document r = None \<longrightarrow> ar_document r' = None)"
proof -
  obtain z r1 g1 where z: "register_app_gui_resources env r g = (z, r1, g1)" by (metis surj_pair)
  obtain w r2 g2 where w: "ensure_gui_loaded env r1 g1 = (w, r2, g2)" by (metis surj_pair)
  obtain r3 g3 where u: "unregister_app_gui_resources env r2 g2 = (r3, g3)" by force
  note k1 = register_resources_keeps [OF z] and k2 = ensure_gui_loaded_keeps [OF w assms(2)]
    and k3 = unregister_resources_keeps [OF u assms(3)]
  have k12: "gui_keeps r g r2 g2" using k1 k2 gui_keeps_trans by blast
  have k13: "gui_keeps r g r3 g3" using k12 k3 gui_keeps_trans by blast
  have same: "gui_ok r g \<Longrightarrow> ar_gui r1 = ar_gui r \<and> ar_gui r2 = ar_gui r" using k1 k12 by (simp add: gui_keeps_def gui_frame_def)
  show ?thesis
  proof (cases z)
    case (Inl e)
    then show ?thesis using assms(1) z k1 by (auto simp: prepare_app_gui_def)
  next
    case zr: (Inr a)
    show ?thesis
    proof (cases w)
      case (Inl e)
      then have "x = Inl e" "r' = r3" "g' = g3" using assms(1) z zr w u by (auto simp: prepare_app_gui_def)
      then show ?thesis using k13 k1 k2 k3 Inl by auto
    next
      case wr: (Inr b)
      show ?thesis
      proof (cases "ar_document r2")
        case None
        then have "x = Inr ()" "r' = r2" "g' = g2" using assms(1) z zr w wr by (auto simp: prepare_app_gui_def)
        then show ?thesis using k12 k2 same None wr by auto
      next
        case (Some d)
        then have "start_screen_flows env d (gd_screen_flows (ar_gui r2)) r2 g2 = (x, r', g')"
          using assms(1) z zr w wr by (simp add: prepare_app_gui_def)
        from start_screen_flows_keeps [OF this assms(3)] show ?thesis
          using k12 gui_keeps_trans Some by (auto split: sum.splits)
      qed
    qed
  qed
qed

end
