(* ===== verification/System_Dialogs.thy ===== *)
theory System_Dialogs
  imports Prelude
begin

text \<open>
  Message dialogs and keyboards of the system (\<open>system_core/src/app/manager.cpp\<close>, lines 1138 to
  1650): one dialog is shown at a time, the others wait in a queue; every request has an owner and a
  handler that is told the result once.

  The shell's hooks change the world \<open>'w\<close>. A handler is code of the caller and may call the system
  again, so it is a function on the whole state; the properties say when it is assumed \<open>quiet\<close>.
  Each call runs on the app task group; \<open>de_post\<close> says whether the call has to be posted there and
  whether posting succeeds. The deferral of hooks on the web build is not modelled.
\<close>

section \<open>Requests\<close>

datatype dialog_icon = IconNone | IconInformation | IconQuestion | IconWarning | IconCritical
datatype button_role = RoleInvalid | RoleAccept | RoleReject | RoleDestructive | RoleAction | RoleHelp | RoleYes | RoleNo
datatype close_reason = ReasonButton | ReasonTimeout | ReasonClosed

record dialog_button =
  bt_text :: string
  bt_role :: button_role

record dialog_options =
  do_text :: string
  do_informative_text :: string
  do_icon :: dialog_icon
  do_buttons :: "dialog_button list"
  do_auto_close_ms :: int

record dialog_result =
  dr_request_id :: u64
  dr_app_id :: u32
  dr_button_index :: int
  dr_button_role :: button_role
  dr_reason :: close_reason

record dialog_request =
  dq_app_id :: u32
  dq_options :: dialog_options
  dq_handler :: "nat option"

record keyboard_options =
  ko_title :: string
  ko_placeholder :: string
  ko_initial_text :: string
  ko_max_length :: int
  ko_password :: bool
  ko_mode :: string
  ko_allowed_modes :: "string list"

record keyboard_result =
  kr_request_id :: u64
  kr_app_id :: u32
  kr_confirmed :: bool
  kr_text :: string

record keyboard_request =
  kq_app_id :: u32
  kq_handler :: "nat option"

text \<open>\<open>dg_apps\<close> are the installed apps.\<close>

record 'w dialogs =
  dg_apps :: "u32 list"
  dg_requests :: "(u64, dialog_request) smap"
  dg_queue :: "u64 list"
  dg_active :: "u64 option"
  dg_next :: u64
  kb_requests :: "(u64, keyboard_request) smap"
  kb_next :: u64
  dg_world :: 'w

record 'w dialog_env =
  de_show :: "u32 \<Rightarrow> u64 \<Rightarrow> dialog_options \<Rightarrow> 'w \<Rightarrow> unit expected \<times> 'w"
  de_update :: "u32 \<Rightarrow> u64 \<Rightarrow> dialog_options \<Rightarrow> 'w \<Rightarrow> unit expected \<times> 'w"
  de_hide :: "u32 \<Rightarrow> u64 \<Rightarrow> 'w \<Rightarrow> 'w"
  de_idle :: "'w \<Rightarrow> 'w"
  de_handler :: "nat \<Rightarrow> dialog_result \<Rightarrow> 'w dialogs \<Rightarrow> 'w dialogs"
  de_publish :: "dialog_result \<Rightarrow> 'w \<Rightarrow> 'w"
  de_show_keyboard :: "u32 \<Rightarrow> u64 \<Rightarrow> keyboard_options \<Rightarrow> 'w \<Rightarrow> unit expected \<times> 'w"
  de_hide_keyboard :: "u32 \<Rightarrow> u64 \<Rightarrow> 'w \<Rightarrow> 'w"
  de_keyboard_handler :: "nat \<Rightarrow> keyboard_result \<Rightarrow> 'w dialogs \<Rightarrow> 'w dialogs"
  de_publish_keyboard :: "keyboard_result \<Rightarrow> 'w \<Rightarrow> 'w"
  de_post :: "bool option"

text \<open>The identifiers: counted on, zero skipped.\<close>

definition take_id :: "u64 \<Rightarrow> u64 \<times> u64" where
  "take_id n = (if n = 0 then (1, 2) else (n, n + 1))"

text \<open>A call that is not on the app task group is posted there.\<close>

definition on_app_task :: "'w dialog_env \<Rightarrow> string \<Rightarrow> ('s \<Rightarrow> ('a expected \<times> 's) option) \<Rightarrow> 's \<Rightarrow> ('a expected \<times> 's) option" where
  "on_app_task env message f s = (if de_post env = Some False then Some (Inl message, s) else f s)"

section \<open>Message dialogs\<close>

definition publish_message_dialog_closed :: "'w dialog_env \<Rightarrow> dialog_result \<Rightarrow> nat option \<Rightarrow> 'w dialogs \<Rightarrow> 'w dialogs" where
  "publish_message_dialog_closed env result handler s =
     (let s1 = (case handler of None \<Rightarrow> s | Some h \<Rightarrow> de_handler env h result s)
      in s1\<lparr>dg_world := de_publish env result (dg_world s1)\<rparr>)"

definition closed_result :: "u64 \<Rightarrow> dialog_request \<Rightarrow> dialog_result" where
  "closed_result r d = \<lparr>dr_request_id = r, dr_app_id = dq_app_id d, dr_button_index = -1,
     dr_button_role = RoleInvalid, dr_reason = ReasonClosed\<rparr>"

text \<open>The loop over the waiting dialogs; \<open>None\<close> when it does not end.\<close>

partial_function (option) show_next_loop :: "'w dialog_env \<Rightarrow> 'w dialogs \<Rightarrow> 'w dialogs option" where
  "show_next_loop env s =
     (case dg_queue s of
        [] \<Rightarrow> Some (s\<lparr>dg_world := de_idle env (dg_world s)\<rparr>)
      | r # q \<Rightarrow>
          (case map_of (dg_requests s) r of
             None \<Rightarrow> show_next_loop env (s\<lparr>dg_queue := q\<rparr>)
           | Some d \<Rightarrow>
               (case de_show env (dq_app_id d) r (dq_options d) (dg_world s) of
                  (Inr _, w) \<Rightarrow> Some (s\<lparr>dg_queue := q, dg_active := Some r, dg_world := w\<rparr>)
                | (Inl _, w) \<Rightarrow>
                    show_next_loop env (publish_message_dialog_closed env (closed_result r d) (dq_handler d)
                      (s\<lparr>dg_queue := q, dg_active := None, dg_requests := smap_del r (dg_requests s), dg_world := w\<rparr>)))))"

definition show_next_message_dialog :: "'w dialog_env \<Rightarrow> 'w dialogs \<Rightarrow> 'w dialogs option" where
  "show_next_message_dialog env s = (if dg_active s \<noteq> None then Some s else show_next_loop env s)"

definition remove_queued_message_dialog :: "u64 \<Rightarrow> 'w dialogs \<Rightarrow> 'w dialogs" where
  "remove_queued_message_dialog r s = s\<lparr>dg_queue := filter (\<lambda>x. x \<noteq> r) (dg_queue s)\<rparr>"

definition enqueue_message_dialog ::
    "'w dialog_env \<Rightarrow> u32 \<Rightarrow> bool \<Rightarrow> dialog_options \<Rightarrow> nat option \<Rightarrow> 'w dialogs \<Rightarrow> u64 expected \<times> 'w dialogs" where
  "enqueue_message_dialog env app require_app options handler s =
     (if 3 < length (do_buttons options) then (Inl ''Message dialog supports at most 3 buttons'', s)
      else if require_app \<and> app \<notin> set (dg_apps s) then (Inl ''App not found'', s)
      else
        (let (r, n) = take_id (dg_next s);
             s1 = s\<lparr>dg_next := n, dg_requests := smap_emplace r
                    \<lparr>dq_app_id = app, dq_options = options, dq_handler = handler\<rparr> (dg_requests s)\<rparr>
         in if dg_active s1 \<noteq> None then (Inr r, s1\<lparr>dg_queue := dg_queue s1 @ [r]\<rparr>)
            else
              (case de_show env app r (case map_of (dg_requests s1) r of None \<Rightarrow> options | Some d \<Rightarrow> dq_options d) (dg_world s1) of
                 (Inr _, w) \<Rightarrow> (Inr r, s1\<lparr>dg_active := Some r, dg_world := w\<rparr>)
               | (Inl e, w) \<Rightarrow>
                   (Inl e, s1\<lparr>dg_active := None, dg_requests := smap_del r (dg_requests s1), dg_world := w\<rparr>))))"

definition close_message_dialog ::
    "'w dialog_env \<Rightarrow> u32 \<Rightarrow> u64 \<Rightarrow> int \<Rightarrow> close_reason \<Rightarrow> bool \<Rightarrow> bool \<Rightarrow> 'w dialogs \<Rightarrow> (unit expected \<times> 'w dialogs) option" where
  "close_message_dialog env app r button_index reason validate_owner notify_shell s =
     (case map_of (dg_requests s) r of
        None \<Rightarrow> Some (Inl ''Message dialog request not found'', s)
      | Some d \<Rightarrow>
          if validate_owner \<and> dq_app_id d \<noteq> app
          then Some (Inl ''Message dialog request does not belong to caller'', s)
          else if reason = ReasonButton \<and> (button_index < 0 \<or> int (length (do_buttons (dq_options d))) \<le> button_index)
          then Some (Inl ''Message dialog button_index does not reference an active button'', s)
          else
            (let button_role = (if reason = ReasonButton then bt_role (do_buttons (dq_options d) ! nat button_index)
                                else RoleInvalid);
                 was_active = (dg_active s = Some r);
                 s1 = (if was_active
                       then s\<lparr>dg_active := None,
                              dg_world := (if notify_shell then de_hide env (dq_app_id d) r (dg_world s) else dg_world s)\<rparr>
                       else remove_queued_message_dialog r s);
                 s2 = publish_message_dialog_closed env
                        \<lparr>dr_request_id = r, dr_app_id = dq_app_id d,
                         dr_button_index = (if reason \<noteq> ReasonButton then -1 else button_index),
                         dr_button_role = button_role, dr_reason = reason\<rparr> (dq_handler d)
                        (s1\<lparr>dg_requests := smap_del r (dg_requests s1)\<rparr>)
             in if was_active then map_option (Pair (Inr ())) (show_next_message_dialog env s2)
                else Some (Inr (), s2)))"

definition update_message_dialog ::
    "'w dialog_env \<Rightarrow> u32 \<Rightarrow> u64 \<Rightarrow> dialog_options \<Rightarrow> bool \<Rightarrow> 'w dialogs \<Rightarrow> unit expected \<times> 'w dialogs" where
  "update_message_dialog env app r options validate_owner s =
     (if 3 < length (do_buttons options) then (Inl ''Message dialog supports at most 3 buttons'', s)
      else case map_of (dg_requests s) r of
        None \<Rightarrow> (Inl ''Message dialog request not found'', s)
      | Some d \<Rightarrow>
          if validate_owner \<and> dq_app_id d \<noteq> app
          then (Inl ''Message dialog request does not belong to caller'', s)
          else
            (let s1 = s\<lparr>dg_requests := smap_put r (d\<lparr>dq_options := options\<rparr>) (dg_requests s)\<rparr>
             in if dg_active s1 \<noteq> Some r then (Inr (), s1)
                else (case de_update env (dq_app_id d) r options (dg_world s1) of (x, w) \<Rightarrow> (x, s1\<lparr>dg_world := w\<rparr>))))"

fun close_each :: "'w dialog_env \<Rightarrow> u64 list \<Rightarrow> bool \<Rightarrow> 'w dialogs \<Rightarrow> bool \<times> 'w dialogs" where
  "close_each env [] closed_active s = (closed_active, s)"
| "close_each env (r # rs) closed_active s =
     (case map_of (dg_requests s) r of
        None \<Rightarrow> close_each env rs closed_active s
      | Some d \<Rightarrow>
          (let was_active = (dg_active s = Some r);
               s1 = (if was_active then s\<lparr>dg_active := None, dg_world := de_hide env (dq_app_id d) r (dg_world s)\<rparr>
                     else remove_queued_message_dialog r s)
           in close_each env rs (closed_active \<or> was_active)
                (publish_message_dialog_closed env (closed_result r d) (dq_handler d)
                  (s1\<lparr>dg_requests := smap_del r (dg_requests s1)\<rparr>))))"

definition close_message_dialogs_for_app :: "'w dialog_env \<Rightarrow> u32 \<Rightarrow> 'w dialogs \<Rightarrow> 'w dialogs option" where
  "close_message_dialogs_for_app env app s =
     (case close_each env (map fst (filter (\<lambda>(r, d). dq_app_id d = app) (dg_requests s))) False s of
        (closed_active, s1) \<Rightarrow> if closed_active then show_next_message_dialog env s1 else Some s1)"

section \<open>Keyboards\<close>

definition keyboard_closed :: "'w dialog_env \<Rightarrow> keyboard_request \<Rightarrow> keyboard_result \<Rightarrow> 'w dialogs \<Rightarrow> 'w dialogs" where
  "keyboard_closed env k result s =
     (let s1 = (case kq_handler k of None \<Rightarrow> s | Some h \<Rightarrow> de_keyboard_handler env h result s)
      in s1\<lparr>dg_world := de_publish_keyboard env result (dg_world s1)\<rparr>)"

definition show_app_keyboard :: "'w dialog_env \<Rightarrow> u32 \<Rightarrow> keyboard_options \<Rightarrow> nat option \<Rightarrow> 'w dialogs \<Rightarrow> u64 expected \<times> 'w dialogs" where
  "show_app_keyboard env app options handler s =
     (if app \<notin> set (dg_apps s) then (Inl ''App not found'', s)
      else
        (let (r, n) = take_id (kb_next s);
             s1 = s\<lparr>kb_next := n, kb_requests := smap_emplace r \<lparr>kq_app_id = app, kq_handler = handler\<rparr> (kb_requests s)\<rparr>
         in case de_show_keyboard env app r options (dg_world s1) of
              (Inr _, w) \<Rightarrow> (Inr r, s1\<lparr>dg_world := w\<rparr>)
            | (Inl e, w) \<Rightarrow> (Inl e, s1\<lparr>kb_requests := smap_del r (kb_requests s1), dg_world := w\<rparr>)))"

definition hide_app_keyboard :: "'w dialog_env \<Rightarrow> u32 \<Rightarrow> u64 \<Rightarrow> 'w dialogs \<Rightarrow> unit expected \<times> 'w dialogs" where
  "hide_app_keyboard env app r s =
     (case map_of (kb_requests s) r of
        None \<Rightarrow> (Inl ''Keyboard request not found'', s)
      | Some k \<Rightarrow>
          if kq_app_id k \<noteq> app then (Inl ''Keyboard request does not belong to app'', s)
          else (Inr (), keyboard_closed env k \<lparr>kr_request_id = r, kr_app_id = kq_app_id k, kr_confirmed = False, kr_text = []\<rparr>
            (s\<lparr>dg_world := de_hide_keyboard env app r (dg_world s), kb_requests := smap_del r (kb_requests s)\<rparr>)))"

definition complete_app_keyboard :: "'w dialog_env \<Rightarrow> u32 \<Rightarrow> u64 \<Rightarrow> bool \<Rightarrow> string \<Rightarrow> 'w dialogs \<Rightarrow> unit expected \<times> 'w dialogs" where
  "complete_app_keyboard env app r confirmed text s =
     (case map_of (kb_requests s) r of
        None \<Rightarrow> (Inl ''Keyboard request not found'', s)
      | Some k \<Rightarrow>
          if kq_app_id k \<noteq> app then (Inl ''Keyboard request does not belong to app'', s)
          else (Inr (), keyboard_closed env k
            \<lparr>kr_request_id = r, kr_app_id = kq_app_id k, kr_confirmed = confirmed, kr_text = text\<rparr>
            (s\<lparr>kb_requests := smap_del r (kb_requests s)\<rparr>)))"

text \<open>What \<open>cleanup_app_transient_resources\<close> does to the keyboards of an app.\<close>

definition hide_app_keyboards :: "'w dialog_env \<Rightarrow> u32 \<Rightarrow> 'w dialogs \<Rightarrow> 'w dialogs" where
  "hide_app_keyboards env app s =
     fold (\<lambda>r s. snd (hide_app_keyboard env app r s))
       (map fst (filter (\<lambda>(r, k). kq_app_id k = app) (kb_requests s))) s"

section \<open>The calls of the system\<close>

datatype dialog_call =
    ShowAppDialog u32 dialog_options "nat option"
  | HideAppDialog u32 u64
  | UpdateAppDialog u32 u64 dialog_options
  | CompleteAppDialog u32 u64 int close_reason
  | ShowSystemDialog dialog_options "nat option"
  | HideSystemDialog u64
  | UpdateSystemDialog u64 dialog_options
  | CloseAppDialogs u32
  | ShowKeyboard u32 keyboard_options "nat option"
  | HideKeyboard u32 u64
  | CompleteKeyboard u32 u64 bool string
  | HideAppKeyboards u32

text \<open>Every call with the identifier it gives, if any, as its result.\<close>

definition got :: "u64 expected \<times> 's \<Rightarrow> (u64 option expected \<times> 's) option" where
  "got x = Some (case x of (Inl e, s) \<Rightarrow> (Inl e, s) | (Inr r, s) \<Rightarrow> (Inr (Some r), s))"

definition did :: "unit expected \<times> 's \<Rightarrow> (u64 option expected \<times> 's) option" where
  "did x = Some (case x of (Inl e, s) \<Rightarrow> (Inl e, s) | (Inr _, s) \<Rightarrow> (Inr None, s))"

fun dialog_step :: "'w dialog_env \<Rightarrow> dialog_call \<Rightarrow> 'w dialogs \<Rightarrow> (u64 option expected \<times> 'w dialogs) option" where
  "dialog_step env (ShowAppDialog app options h) s =
     on_app_task env ''Failed to post app message dialog request task''
       (\<lambda>s. got (enqueue_message_dialog env app True options h s)) s"
| "dialog_step env (HideAppDialog app r) s =
     on_app_task env ''Failed to post app message dialog hide task''
       (\<lambda>s. Option.bind (close_message_dialog env app r (-1) ReasonClosed True True s) did) s"
| "dialog_step env (UpdateAppDialog app r options) s =
     on_app_task env ''Failed to post app message dialog update task''
       (\<lambda>s. did (update_message_dialog env app r options True s)) s"
| "dialog_step env (CompleteAppDialog app r i reason) s =
     on_app_task env ''Failed to post app message dialog completion task''
       (\<lambda>s. Option.bind (close_message_dialog env app r i reason True False s) did) s"
| "dialog_step env (ShowSystemDialog options h) s =
     on_app_task env ''Failed to post system message dialog request task''
       (\<lambda>s. got (enqueue_message_dialog env 0 False options h s)) s"
| "dialog_step env (HideSystemDialog r) s =
     on_app_task env ''Failed to post system message dialog hide task''
       (\<lambda>s. Option.bind (close_message_dialog env 0 r (-1) ReasonClosed True True s) did) s"
| "dialog_step env (UpdateSystemDialog r options) s =
     on_app_task env ''Failed to post system message dialog update task''
       (\<lambda>s. did (update_message_dialog env 0 r options True s)) s"
| "dialog_step env (CloseAppDialogs app) s =
     map_option (Pair (Inr None)) (close_message_dialogs_for_app env app s)"
| "dialog_step env (ShowKeyboard app options h) s =
     on_app_task env ''Failed to post app keyboard request task'' (\<lambda>s. got (show_app_keyboard env app options h s)) s"
| "dialog_step env (HideKeyboard app r) s =
     on_app_task env ''Failed to post app keyboard hide task'' (\<lambda>s. did (hide_app_keyboard env app r s)) s"
| "dialog_step env (CompleteKeyboard app r confirmed text) s =
     on_app_task env ''Failed to post app keyboard completion task''
       (\<lambda>s. did (complete_app_keyboard env app r confirmed text s)) s"
| "dialog_step env (HideAppKeyboards app) s = Some (Inr None, hide_app_keyboards env app s)"

section \<open>Handlers that leave the requests alone\<close>

definition quiet :: "'w dialog_env \<Rightarrow> bool" where
  "quiet env \<longleftrightarrow>
     (\<forall>h res s. \<exists>w. de_handler env h res s = s\<lparr>dg_world := w\<rparr>) \<and>
     (\<forall>h res s. \<exists>w. de_keyboard_handler env h res s = s\<lparr>dg_world := w\<rparr>)"

text \<open>Where all the requests are: the shown one and then the queue, in the order of the identifiers,
  and nothing waits while nothing is shown.\<close>

definition ids_below :: "'w dialogs \<Rightarrow> bool" where
  "ids_below s \<longleftrightarrow> 0 < dg_next s \<and> (\<forall>r \<in> fst ` set (dg_requests s). r < dg_next s) \<and>
     0 < kb_next s \<and> (\<forall>r \<in> fst ` set (kb_requests s). r < kb_next s)"

definition line :: "'w dialogs \<Rightarrow> u64 list" where
  "line s = (case dg_active s of None \<Rightarrow> [] | Some r \<Rightarrow> [r]) @ dg_queue s"

definition placed :: "'w dialogs \<Rightarrow> bool" where
  "placed s \<longleftrightarrow> smap_ok (dg_requests s) \<and> map fst (dg_requests s) = line s"

definition dialogs_inv :: "'w dialogs \<Rightarrow> bool" where
  "dialogs_inv s \<longleftrightarrow> placed s \<and> ids_below s \<and> smap_ok (kb_requests s) \<and> (dg_queue s \<noteq> [] \<longrightarrow> dg_active s \<noteq> None)"

lemma quiet_publish:
  assumes "quiet env"
  obtains w where "publish_message_dialog_closed env res h s = s\<lparr>dg_world := w\<rparr>"
proof (cases h)
  case None
  then show ?thesis using that by (simp add: publish_message_dialog_closed_def)
next
  case (Some k)
  obtain w where "de_handler env k res s = s\<lparr>dg_world := w\<rparr>" using assms unfolding quiet_def by blast
  then show ?thesis using that Some by (simp add: publish_message_dialog_closed_def)
qed

lemma quiet_keyboard:
  assumes "quiet env"
  obtains w where "keyboard_closed env k res s = s\<lparr>dg_world := w\<rparr>"
proof (cases "kq_handler k")
  case None
  then show ?thesis using that by (simp add: keyboard_closed_def)
next
  case (Some h)
  obtain w where "de_keyboard_handler env h res s = s\<lparr>dg_world := w\<rparr>" using assms unfolding quiet_def by blast
  then show ?thesis using that Some by (simp add: keyboard_closed_def)
qed

lemma dialogs_world [simp]: "dialogs_inv (s\<lparr>dg_world := w\<rparr>) = dialogs_inv s" "placed (s\<lparr>dg_world := w\<rparr>) = placed s"
  "ids_below (s\<lparr>dg_world := w\<rparr>) = ids_below s"
  "line (s\<lparr>dg_world := w\<rparr>) = line s"
  by (simp_all add: dialogs_inv_def placed_def ids_below_def line_def)

lemma keys_del_list: "map fst (smap_del r m) = filter (\<lambda>x. x \<noteq> r) (map fst m)"
  by (simp add: smap_del_def filter_map comp_def)

lemma keys_put_last: "\<forall>x \<in> fst ` set m. x < k \<Longrightarrow> map fst (smap_put k v m) = map fst m @ [k]"
  by (induction m) auto

lemma keys_put_known: "smap_ok m \<Longrightarrow> k \<in> fst ` set m \<Longrightarrow> map fst (smap_put k v m) = map fst m"
proof (induction m)
  case (Cons e m)
  then show ?case by (cases e) (auto simp: smap_ok_Cons)
qed simp

text \<open>The loop shows the first waiting dialog that the shell accepts; those before it are closed.\<close>

lemma show_next_loop_quiet:
  assumes "quiet env" "smap_ok (dg_requests s)" "map fst (dg_requests s) = dg_queue s" "dg_active s = None"
  shows "\<exists>s' w pre. show_next_loop env s = Some s' \<and> dg_queue s = pre @ line s' \<and>
    s' = s\<lparr>dg_queue := dg_queue s', dg_active := dg_active s', dg_requests := drop (length pre) (dg_requests s), dg_world := w\<rparr> \<and>
    (dg_queue s' \<noteq> [] \<longrightarrow> dg_active s' \<noteq> None) \<and>
    (\<forall>(r, d) \<in> set (take (length pre) (dg_requests s)).
       \<exists>w e w'. de_show env (dq_app_id d) r (dq_options d) w = (Inl e, w'))"
  using assms(2-)
proof (induction "dg_queue s" arbitrary: s)
  case Nil
  then have "show_next_loop env s = Some (s\<lparr>dg_world := de_idle env (dg_world s)\<rparr>)"
    by (subst show_next_loop.simps) simp
  then show ?case using Nil by (intro exI [of _ "s\<lparr>dg_world := de_idle env (dg_world s)\<rparr>"] exI [of _ "de_idle env (dg_world s)"] exI [of _ "[]"])
      (auto simp: line_def)
next
  case (Cons r q)
  note queue = Cons.hyps(2) [symmetric]
  obtain d m where m: "dg_requests s = (r, d) # m" using Cons.prems(2) queue by (cases "dg_requests s") auto
  have look: "map_of (dg_requests s) r = Some d" by (simp add: m)
  obtain x w where sh: "de_show env (dq_app_id d) r (dq_options d) (dg_world s) = (x, w)" by force
  show ?case
  proof (cases x)
    case (Inr u)
    let ?s = "s\<lparr>dg_queue := q, dg_active := Some r, dg_world := w\<rparr>"
    have "show_next_loop env s = Some ?s" using Inr sh by (subst show_next_loop.simps) (simp add: queue look)
    then show ?thesis using Cons.prems queue by (intro exI [of _ ?s] exI [of _ w] exI [of _ "[]"]) (auto simp: line_def)
  next
    case (Inl e)
    let ?s = "s\<lparr>dg_queue := q, dg_active := None, dg_requests := smap_del r (dg_requests s), dg_world := w\<rparr>"
    obtain v where v: "publish_message_dialog_closed env (closed_result r d) (dq_handler d) ?s = ?s\<lparr>dg_world := v\<rparr>"
      using quiet_publish [OF assms(1)] by blast
    have loop: "show_next_loop env s = show_next_loop env (?s\<lparr>dg_world := v\<rparr>)"
      using Inl sh v by (subst show_next_loop.simps) (simp add: queue look)
    have ok: "smap_ok m" "r \<notin> fst ` set m" using Cons.prems(1) by (auto simp: m smap_ok_Cons)
    then have del: "smap_del r (dg_requests s) = m" unfolding m by (force simp: smap_del_def intro: filter_True)
    have keys: "map fst m = q" using Cons.prems(2) by (simp add: m queue)
    have "\<exists>s' w' pre. show_next_loop env (?s\<lparr>dg_world := v\<rparr>) = Some s' \<and> q = pre @ line s' \<and>
      s' = s\<lparr>dg_queue := dg_queue s', dg_active := dg_active s', dg_requests := drop (length pre) m, dg_world := w'\<rparr> \<and>
      (dg_queue s' \<noteq> [] \<longrightarrow> dg_active s' \<noteq> None) \<and>
      (\<forall>(r, d) \<in> set (take (length pre) m). \<exists>w e w'. de_show env (dq_app_id d) r (dq_options d) w = (Inl e, w'))"
      using Cons.hyps(1) [of "?s\<lparr>dg_world := v\<rparr>"] ok keys by (simp add: del)
    then obtain s' w' pre where s': "show_next_loop env (?s\<lparr>dg_world := v\<rparr>) = Some s'" "q = pre @ line s'"
      "s' = s\<lparr>dg_queue := dg_queue s', dg_active := dg_active s', dg_requests := drop (length pre) m, dg_world := w'\<rparr>"
      "dg_queue s' \<noteq> [] \<longrightarrow> dg_active s' \<noteq> None"
      "\<forall>(r, d) \<in> set (take (length pre) m). \<exists>w e w'. de_show env (dq_app_id d) r (dq_options d) w = (Inl e, w')"
      by blast
    then show ?thesis using sh Inl
      by (intro exI [of _ s'] exI [of _ w'] exI [of _ "r # pre"]) (auto simp: loop queue m)
  qed
qed

section \<open>The invariant\<close>

lemma u64_next: "(n :: u64) + 1 \<noteq> 0 \<Longrightarrow> n < n + 1"
  by unat_arith

lemma show_next_inv:
  assumes "quiet env" "smap_ok (dg_requests s)" "map fst (dg_requests s) = line s" "dg_active s = None"
    and "ids_below s" "smap_ok (kb_requests s)"
  shows "\<exists>s'. show_next_loop env s = Some s' \<and> dialogs_inv s' \<and> dg_next s' = dg_next s \<and> kb_next s' = kb_next s"
proof -
  have line: "line s = dg_queue s" using assms(4) by (simp add: line_def)
  obtain s' w pre where s': "show_next_loop env s = Some s'" "dg_queue s = pre @ line s'"
    "s' = s\<lparr>dg_queue := dg_queue s', dg_active := dg_active s', dg_requests := drop (length pre) (dg_requests s), dg_world := w\<rparr>"
    "dg_queue s' \<noteq> [] \<longrightarrow> dg_active s' \<noteq> None"
    using show_next_loop_quiet [OF assms(1,2) assms(3) [unfolded line] assms(4)] by blast
  have f: "dg_requests s' = drop (length pre) (dg_requests s)" "dg_next s' = dg_next s" "kb_next s' = kb_next s"
    "kb_requests s' = kb_requests s"
    by (subst s'(3), simp)+
  have m: "map fst (dg_requests s') = drop (length pre) (map fst (dg_requests s))" unfolding f by (rule drop_map [symmetric])
  have "map fst (dg_requests s') = line s'" unfolding m assms(3) line s'(2) by simp
  moreover have "smap_ok (dg_requests s')"
    using assms(2) unfolding smap_ok_def m by (rule sorted_wrt_drop)
  moreover have "set (dg_requests s') \<subseteq> set (dg_requests s)" by (simp add: f set_drop_subset)
  then have "ids_below s'" using assms(5) by (fastforce simp: ids_below_def f)
  ultimately show ?thesis using s'(1,4) f assms(6) by (simp add: dialogs_inv_def placed_def)
qed

lemma enqueue_inv:
  assumes "dialogs_inv s" "dg_next s + 1 \<noteq> 0"
  shows "dialogs_inv (snd (enqueue_message_dialog env app req options h s))"
proof -
  let ?n = "dg_next s"
  let ?m = "smap_emplace ?n \<lparr>dq_app_id = app, dq_options = options, dq_handler = h\<rparr> (dg_requests s)"
  have i: "smap_ok (dg_requests s)" "map fst (dg_requests s) = line s" "ids_below s" "smap_ok (kb_requests s)"
    "dg_queue s \<noteq> [] \<longrightarrow> dg_active s \<noteq> None"
    using assms(1) by (auto simp: dialogs_inv_def placed_def)
  have less: "?n < ?n + 1" using u64_next [OF assms(2)] .
  have n: "take_id ?n = (?n, ?n + 1)" using i(3) by (auto simp: take_id_def ids_below_def)
  have new: "\<forall>x \<in> fst ` set (dg_requests s). x < ?n" using i(3) by (simp add: ids_below_def)
  then have "map_of (dg_requests s) ?n = None" by (auto simp: map_of_eq_None_iff)
  then have m: "?m = smap_put ?n \<lparr>dq_app_id = app, dq_options = options, dq_handler = h\<rparr> (dg_requests s)"
    and del: "smap_del ?n ?m = dg_requests s"
    using i(1) by (auto simp: smap_emplace_def smap_del_put_fresh)
  have keys: "map fst ?m = map fst (dg_requests s) @ [?n]" unfolding m using keys_put_last [OF new] .
  have below: "\<forall>x \<in> fst ` set ?m. x < ?n + 1"
    using new less unfolding set_map [symmetric] keys by (auto intro: order.strict_trans)
  have below': "\<forall>x \<in> fst ` set (dg_requests s). x < ?n + 1"
    using new less by (auto intro: order.strict_trans)
  have pos: "0 < ?n + 1" using less by (meson order.strict_trans word_gt_0_no word_gt_0 i(3) ids_below_def)
  show ?thesis
    using i keys below below' pos
    by (auto simp: enqueue_message_dialog_def n Let_def del dialogs_inv_def placed_def line_def ids_below_def
        split: prod.split sum.split option.split)
qed

text \<open>Taking a request away and telling its handler.\<close>

lemma ids_below_del: "ids_below s \<Longrightarrow> ids_below (s\<lparr>dg_active := a, dg_queue := q, dg_requests := smap_del r (dg_requests s)\<rparr>)"
  by (auto simp: ids_below_def smap_del_def)

lemma placed_active:
  assumes "placed s" "dg_active s = Some r"
  shows "map fst (smap_del r (dg_requests s)) = dg_queue s"
proof -
  have k: "map fst (dg_requests s) = r # dg_queue s" "smap_ok (dg_requests s)" using assms by (simp_all add: placed_def line_def)
  then have "distinct (r # dg_queue s)" by (metis smap_ok_distinct)
  then show ?thesis unfolding keys_del_list k(1) by (auto intro!: filter_True)
qed

lemma placed_queued:
  assumes "placed s" "dg_active s \<noteq> Some r"
  shows "placed (s\<lparr>dg_queue := filter (\<lambda>x. x \<noteq> r) (dg_queue s), dg_requests := smap_del r (dg_requests s)\<rparr>)"
  using assms by (auto simp: placed_def line_def keys_del_list split: option.splits)

lemma close_inv:
  assumes "quiet env" "dialogs_inv s"
  shows "\<exists>x s'. close_message_dialog env app r i reason vo ns s = Some (x, s') \<and> dialogs_inv s' \<and>
    dg_next s' = dg_next s \<and> kb_next s' = kb_next s"
proof (cases "map_of (dg_requests s) r")
  case None
  then show ?thesis using assms(2) by (simp add: close_message_dialog_def)
next
  case (Some d)
  have i: "placed s" "ids_below s" "smap_ok (kb_requests s)" "dg_queue s \<noteq> [] \<longrightarrow> dg_active s \<noteq> None"
    using assms(2) by (auto simp: dialogs_inv_def)
  show ?thesis
  proof (cases "(vo \<and> dq_app_id d \<noteq> app) \<or> (reason = ReasonButton \<and> (i < 0 \<or> int (length (do_buttons (dq_options d))) \<le> i))")
    case True
    then show ?thesis using assms(2) Some by (auto simp: close_message_dialog_def)
  next
    case False
    let ?result = "\<lparr>dr_request_id = r, dr_app_id = dq_app_id d, dr_button_index = (if reason \<noteq> ReasonButton then -1 else i),
      dr_button_role = (if reason = ReasonButton then bt_role (do_buttons (dq_options d) ! nat i) else RoleInvalid), dr_reason = reason\<rparr>"
    show ?thesis
    proof (cases "dg_active s = Some r")
      case True
      let ?w = "if ns then de_hide env (dq_app_id d) r (dg_world s) else dg_world s"
      let ?s = "s\<lparr>dg_active := None, dg_world := ?w, dg_requests := smap_del r (dg_requests s)\<rparr>"
      obtain v where v: "publish_message_dialog_closed env ?result (dq_handler d) ?s = ?s\<lparr>dg_world := v\<rparr>"
        using quiet_publish [OF assms(1)] by blast
      have eq: "close_message_dialog env app r i reason vo ns s =
          map_option (Pair (Inr ())) (show_next_message_dialog env (?s\<lparr>dg_world := v\<rparr>))"
        using Some False True v by (auto simp: close_message_dialog_def Let_def)
      have "\<exists>s'. show_next_loop env (?s\<lparr>dg_world := v\<rparr>) = Some s' \<and> dialogs_inv s' \<and> dg_next s' = dg_next s \<and> kb_next s' = kb_next s"
        using show_next_inv [OF assms(1), of "?s\<lparr>dg_world := v\<rparr>"] placed_active [OF i(1) True] i ids_below_del [OF i(2), where a = None and q = "dg_queue s" and r = r]
        by (simp add: placed_def line_def)
      then show ?thesis by (auto simp: eq show_next_message_dialog_def)
    next
      case notactive: False
      let ?s = "s\<lparr>dg_queue := filter (\<lambda>x. x \<noteq> r) (dg_queue s), dg_requests := smap_del r (dg_requests s)\<rparr>"
      obtain v where v: "publish_message_dialog_closed env ?result (dq_handler d) ?s = ?s\<lparr>dg_world := v\<rparr>"
        using quiet_publish [OF assms(1)] by blast
      have eq: "close_message_dialog env app r i reason vo ns s = Some (Inr (), ?s\<lparr>dg_world := v\<rparr>)"
        using Some False notactive v by (auto simp: close_message_dialog_def remove_queued_message_dialog_def Let_def)
      have "placed ?s" using placed_queued [OF i(1) notactive] .
      moreover have "ids_below ?s" using ids_below_del [OF i(2), where a = "dg_active s"] by simp
      ultimately have "dialogs_inv ?s" using i by (auto simp: dialogs_inv_def)
      then show ?thesis by (simp add: eq)
    qed
  qed
qed

lemma update_inv:
  assumes "dialogs_inv s"
  shows "dialogs_inv (snd (update_message_dialog env app r options vo s))"
proof (cases "map_of (dg_requests s) r")
  case None
  then show ?thesis using assms by (simp add: update_message_dialog_def)
next
  case (Some d)
  let ?s = "s\<lparr>dg_requests := smap_put r (d\<lparr>dq_options := options\<rparr>) (dg_requests s)\<rparr>"
  have known: "r \<in> fst ` set (dg_requests s)" using Some by (simp add: smap_key_iff)
  have i: "smap_ok (dg_requests s)" using assms by (simp add: dialogs_inv_def placed_def)
  have "dialogs_inv ?s"
    using assms keys_put_known [OF i known] known by (auto simp: dialogs_inv_def placed_def line_def ids_below_def)
  then show ?thesis using assms Some
    by (auto simp: update_message_dialog_def Let_def split: prod.split)
qed

definition closing :: "bool \<Rightarrow> 'w dialogs \<Rightarrow> bool" where
  "closing closed s \<longleftrightarrow> placed s \<and> ids_below s \<and> smap_ok (kb_requests s) \<and>
     (if closed then dg_active s = None else dg_queue s \<noteq> [] \<longrightarrow> dg_active s \<noteq> None)"

lemma closing_world: "closing c (s\<lparr>dg_world := w\<rparr>) = closing c s"
  by (simp add: closing_def)

lemma close_each_inv:
  assumes "quiet env" "closing closed s" "close_each env rs closed s = (closed', s')"
  shows "closing closed' s' \<and> dg_next s' = dg_next s \<and> kb_next s' = kb_next s \<and> kb_requests s' = kb_requests s \<and>
    dg_requests s' = filter (\<lambda>(r, d). r \<notin> set rs) (dg_requests s)"
  using assms(2,3)
proof (induction rs arbitrary: closed s)
  case (Cons r rs)
  show ?case
  proof (cases "map_of (dg_requests s) r")
    case None
    then have "filter (\<lambda>(x, d). x \<notin> set (r # rs)) (dg_requests s) = filter (\<lambda>(x, d). x \<notin> set rs) (dg_requests s)"
      by (intro filter_cong) (force simp: map_of_eq_None_iff)+
    then show ?thesis using Cons None by simp
  next
    case (Some d)
    let ?act = "dg_active s = Some r"
    let ?s = "(if ?act then s\<lparr>dg_active := None, dg_world := de_hide env (dq_app_id d) r (dg_world s)\<rparr>
      else remove_queued_message_dialog r s)\<lparr>dg_requests := smap_del r (dg_requests s)\<rparr>"
    obtain v where v: "publish_message_dialog_closed env (closed_result r d) (dq_handler d) ?s = ?s\<lparr>dg_world := v\<rparr>"
      using quiet_publish [OF assms(1)] by blast
    have eq: "close_each env (r # rs) closed s = close_each env rs (closed \<or> ?act) (?s\<lparr>dg_world := v\<rparr>)"
      using v by (simp add: Some Let_def remove_queued_message_dialog_def split: if_splits)
    have i: "placed s" "ids_below s" "smap_ok (kb_requests s)" using Cons.prems(1) by (auto simp: closing_def)
    have "closing (closed \<or> ?act) ?s"
    proof (cases ?act)
      case True
      then show ?thesis using placed_active [OF i(1) True] i Cons.prems(1) ids_below_del [OF i(2), where a = None and q = "dg_queue s" and r = r]
        by (auto simp: closing_def placed_def line_def ids_below_def)
    next
      case False
      then show ?thesis
        using placed_queued [OF i(1) False] i Cons.prems(1) ids_below_del [OF i(2), where a = "dg_active s" and r = r]
        by (auto simp: closing_def remove_queued_message_dialog_def)
    qed
    then have c: "closing (closed \<or> ?act) (?s\<lparr>dg_world := v\<rparr>)" unfolding closing_world .
    have fields: "dg_next ?s = dg_next s" "kb_next ?s = kb_next s" "kb_requests ?s = kb_requests s"
      by (auto simp: remove_queued_message_dialog_def)
    have "filter (\<lambda>(x, d). x \<notin> set rs) (smap_del r (dg_requests s)) = filter (\<lambda>(x, d). x \<notin> set (r # rs)) (dg_requests s)"
      by (auto simp: smap_del_def intro!: filter_cong)
    then show ?thesis using Cons.IH [OF c Cons.prems(2) [unfolded eq]] fields by simp
  qed
qed (simp add: filter_True)

lemma close_app_inv:
  assumes "quiet env" "dialogs_inv s"
  shows "\<exists>s'. close_message_dialogs_for_app env app s = Some s' \<and> dialogs_inv s' \<and> dg_next s' = dg_next s \<and> kb_next s' = kb_next s"
proof -
  obtain closed s1 where c: "close_each env (map fst (filter (\<lambda>(r, d). dq_app_id d = app) (dg_requests s))) False s = (closed, s1)"
    by force
  have "closing False s" using assms(2) by (simp add: closing_def dialogs_inv_def)
  from close_each_inv [OF assms(1) this c] have s1: "closing closed s1" "dg_next s1 = dg_next s" "kb_next s1 = kb_next s" by auto
  show ?thesis
  proof (cases closed)
    case True
    then have "\<exists>s'. show_next_loop env s1 = Some s' \<and> dialogs_inv s' \<and> dg_next s' = dg_next s1 \<and> kb_next s' = kb_next s1"
      using s1(1) by (intro show_next_inv [OF assms(1)]) (auto simp: closing_def placed_def)
    then show ?thesis using True s1 by (auto simp: close_message_dialogs_for_app_def c show_next_message_dialog_def closing_def)
  next
    case False
    then show ?thesis using s1 by (auto simp: close_message_dialogs_for_app_def c closing_def dialogs_inv_def)
  qed
qed

lemma keyboard_closed_inv:
  assumes "quiet env" "dialogs_inv s"
  shows "dialogs_inv (keyboard_closed env k res (s\<lparr>kb_requests := smap_del r (kb_requests s)\<rparr>))"
proof -
  have "dialogs_inv (s\<lparr>kb_requests := smap_del r (kb_requests s)\<rparr>)"
    using assms(2) by (auto simp: dialogs_inv_def placed_def line_def ids_below_def)
  moreover obtain w where "keyboard_closed env k res (s\<lparr>kb_requests := smap_del r (kb_requests s)\<rparr>) = s\<lparr>kb_requests := smap_del r (kb_requests s), dg_world := w\<rparr>"
    using quiet_keyboard [OF assms(1)] by blast
  ultimately show ?thesis by simp
qed

lemma show_keyboard_inv:
  assumes "dialogs_inv s" "kb_next s + 1 \<noteq> 0"
  shows "dialogs_inv (snd (show_app_keyboard env app options h s))"
proof -
  let ?n = "kb_next s" and ?k = "\<lparr>kq_app_id = app, kq_handler = h\<rparr>"
  have i: "smap_ok (kb_requests s)" "0 < ?n" and new: "\<forall>x \<in> fst ` set (kb_requests s). x < ?n"
    using assms(1) by (auto simp: dialogs_inv_def ids_below_def)
  have less: "?n < ?n + 1" using u64_next [OF assms(2)] .
  then have pos: "0 < ?n + 1" using i(2) by (rule order.strict_trans [rotated])
  have n: "take_id ?n = (?n, ?n + 1)" using i(2) by (auto simp: take_id_def)
  have "map_of (kb_requests s) ?n = None" using new by (auto simp: map_of_eq_None_iff)
  then have m: "smap_emplace ?n ?k (kb_requests s) = smap_put ?n ?k (kb_requests s)"
    "smap_del ?n (smap_put ?n ?k (kb_requests s)) = kb_requests s"
    using i(1) by (auto simp: smap_emplace_def smap_del_put_fresh)
  have all: "\<forall>x \<in> insert ?n (fst ` set (kb_requests s)). x < ?n + 1" using new less by (auto intro: order.strict_trans)
  have below: "a < ?n + 1" if "(a, b) \<in> set (smap_put ?n ?k (kb_requests s)) \<or> (a, b) \<in> set (kb_requests s)" for a b
  proof -
    have "a \<in> insert ?n (fst ` set (kb_requests s))"
      using that keys_put [of ?n ?k "kb_requests s"] by (metis fst_conv image_eqI insertCI)
    then show ?thesis using all by (rule bspec [rotated])
  qed
  show ?thesis
    using assms(1) less pos i(1)
    by (auto simp: show_app_keyboard_def n m Let_def dialogs_inv_def placed_def line_def ids_below_def
        split: prod.split sum.split intro: below [OF disjI1] below [OF disjI2])
qed

lemma hide_keyboard_inv: "quiet env \<Longrightarrow> dialogs_inv s \<Longrightarrow> dialogs_inv (snd (hide_app_keyboard env app r s))"
  using keyboard_closed_inv [of env "s\<lparr>dg_world := de_hide_keyboard env app r (dg_world s)\<rparr>"]
  by (auto simp: hide_app_keyboard_def split: option.split)

lemma complete_keyboard_inv: "quiet env \<Longrightarrow> dialogs_inv s \<Longrightarrow> dialogs_inv (snd (complete_app_keyboard env app r c t s))"
  using keyboard_closed_inv [of env s] by (auto simp: complete_app_keyboard_def split: option.split)

lemma hide_keyboards_inv: "quiet env \<Longrightarrow> dialogs_inv s \<Longrightarrow> dialogs_inv (hide_app_keyboards env app s)"
proof -
  have "quiet env \<Longrightarrow> dialogs_inv s \<Longrightarrow> dialogs_inv (fold (\<lambda>r s. snd (hide_app_keyboard env app r s)) rs s)" for rs
    by (induction rs arbitrary: s) (simp_all add: hide_keyboard_inv)
  then show "quiet env \<Longrightarrow> dialogs_inv s \<Longrightarrow> dialogs_inv (hide_app_keyboards env app s)"
    by (simp add: hide_app_keyboards_def)
qed

definition ids_left :: "'w dialogs \<Rightarrow> bool" where
  "ids_left s \<longleftrightarrow> dg_next s + 1 \<noteq> 0 \<and> kb_next s + 1 \<noteq> 0"

lemma on_app_task_some: "on_app_task env m f s = Some (x, s') \<Longrightarrow> s' = s \<or> f s = Some (x, s')"
  by (auto simp: on_app_task_def split: if_splits)

lemma got_some: "got y = Some (x, s') \<Longrightarrow> s' = snd y"
  by (auto simp: got_def split: prod.splits sum.splits)

lemma did_some: "did y = Some (x, s') \<Longrightarrow> s' = snd y"
  by (auto simp: did_def split: prod.splits sum.splits)

lemma close_step_inv:
  assumes "quiet env" "dialogs_inv s" "Option.bind (close_message_dialog env app r i reason vo ns s) did = Some (x, s')"
  shows "dialogs_inv s'"
proof -
  obtain y s1 where "close_message_dialog env app r i reason vo ns s = Some (y, s1)" "dialogs_inv s1"
    using close_inv [OF assms(1,2)] by blast
  then show ?thesis using did_some [of "(y, s1)"] assms(3) by simp
qed

lemma dialog_step_inv:
  assumes "quiet env" "dialogs_inv s" "ids_left s" "dialog_step env c s = Some (x, s')"
  shows "dialogs_inv s'"
proof (cases c)
  case (CloseAppDialogs app)
  then show ?thesis using close_app_inv [OF assms(1,2), of app] assms(4) by auto
next
  case (HideAppKeyboards app)
  then show ?thesis using hide_keyboards_inv [OF assms(1,2), of app] assms(4) by simp
next
  case (HideAppDialog app r)
  then show ?thesis using assms close_step_inv [OF assms(1,2)] by (auto dest: on_app_task_some)
next
  case (CompleteAppDialog app r i reason)
  then show ?thesis using assms close_step_inv [OF assms(1,2)] by (auto dest: on_app_task_some)
next
  case (HideSystemDialog r)
  then show ?thesis using assms close_step_inv [OF assms(1,2)] by (auto dest: on_app_task_some)
next
  case (HideKeyboard app r)
  then show ?thesis using assms hide_keyboard_inv [OF assms(1,2)] by (auto dest!: on_app_task_some did_some)
next
  case (CompleteKeyboard app r ok t)
  then show ?thesis using assms complete_keyboard_inv [OF assms(1,2)] by (auto dest!: on_app_task_some did_some)
qed (use assms in \<open>auto dest!: on_app_task_some got_some did_some simp: ids_left_def
      intro: enqueue_inv update_inv show_keyboard_inv\<close>)

definition no_dialogs :: "u32 list \<Rightarrow> 'w \<Rightarrow> 'w dialogs" where
  "no_dialogs apps w = \<lparr>dg_apps = apps, dg_requests = [], dg_queue = [], dg_active = None, dg_next = 1,
     kb_requests = [], kb_next = 1, dg_world = w\<rparr>"

inductive dialogs_reach :: "'w dialog_env \<Rightarrow> 'w dialogs \<Rightarrow> bool" for env where
  start: "dialogs_reach env (no_dialogs apps w)"
| call: "dialogs_reach env s \<Longrightarrow> ids_left s \<Longrightarrow> dialog_step env c s = Some (x, s') \<Longrightarrow> dialogs_reach env s'"
| apps: "dialogs_reach env s \<Longrightarrow> dialogs_reach env (s\<lparr>dg_apps := a\<rparr>)"

lemma dialogs_reach_inv: "dialogs_reach env s \<Longrightarrow> quiet env \<Longrightarrow> dialogs_inv s"
proof (induction rule: dialogs_reach.induct)
  case (start apps w)
  then show ?case by (simp add: no_dialogs_def dialogs_inv_def placed_def line_def ids_below_def)
next
  case (call s c x s')
  then show ?case using dialog_step_inv by blast
next
  case (apps s a)
  then show ?case by (simp add: dialogs_inv_def placed_def line_def ids_below_def)
qed

section \<open>Properties\<close>

text \<open>C20: With handlers that do not call back, the open requests are at every moment the shown dialog and
  then the queue, in the order they were made, and no request waits while nothing is shown: none is lost.\<close>

theorem dialogs_all_in_line:
  assumes "dialogs_reach env s" "quiet env"
  shows "map fst (dg_requests s) = (case dg_active s of None \<Rightarrow> [] | Some r \<Rightarrow> [r]) @ dg_queue s \<and>
    sorted_wrt (<) (map fst (dg_requests s)) \<and> (dg_queue s \<noteq> [] \<longrightarrow> dg_active s \<noteq> None)"
  using dialogs_reach_inv [OF assms] by (auto simp: dialogs_inv_def placed_def line_def smap_ok_def)

text \<open>A shell that records the identifiers it shows and refuses dialogs with the text \<open>bad\<close>.\<close>

definition sample_dialog_env :: "(nat \<Rightarrow> dialog_result \<Rightarrow> u64 list dialogs \<Rightarrow> u64 list dialogs) \<Rightarrow> u64 list dialog_env" where
  "sample_dialog_env h = \<lparr>de_show = (\<lambda>app r options w. if do_text options = ''bad'' then (Inl ''refused'', w) else (Inr (), w @ [r])),
     de_update = (\<lambda>app r options w. (Inr (), w)), de_hide = (\<lambda>app r w. w), de_idle = (\<lambda>w. w), de_handler = h,
     de_publish = (\<lambda>res w. w), de_show_keyboard = (\<lambda>app r options w. (Inr (), w)), de_hide_keyboard = (\<lambda>app r w. w),
     de_keyboard_handler = (\<lambda>k res s. s), de_publish_keyboard = (\<lambda>res w. w), de_post = None\<rparr>"

definition sample_dialog :: "string \<Rightarrow> dialog_options" where
  "sample_dialog t = \<lparr>do_text = t, do_informative_text = [], do_icon = IconNone, do_buttons = [], do_auto_close_ms = 0\<rparr>"

fun dialog_steps :: "'w dialog_env \<Rightarrow> dialog_call list \<Rightarrow> 'w dialogs \<Rightarrow> 'w dialogs option" where
  "dialog_steps env [] s = Some s"
| "dialog_steps env (c # cs) s = Option.bind (dialog_step env c s) (\<lambda>(x, s'). dialog_steps env cs s')"

abbreviation "quiet_env \<equiv> sample_dialog_env (\<lambda>k res s. s)"

lemma sample_quiet: "quiet quiet_env"
proof -
  have "\<exists>w. s = s\<lparr>dg_world := w\<rparr>" for s :: "u64 list dialogs" by (rule exI [of _ "dg_world s"]) simp
  then show ?thesis by (auto simp: quiet_def sample_dialog_env_def)
qed

lemma sample_two_dialogs:
  "dialog_step quiet_env (ShowSystemDialog (sample_dialog ''a'') None) (no_dialogs [] []) =
     Some (Inr (Some 1), (no_dialogs [] [])\<lparr>dg_requests := [(1, \<lparr>dq_app_id = 0, dq_options = sample_dialog ''a'', dq_handler = None\<rparr>)],
       dg_active := Some 1, dg_next := 2, dg_world := [1]\<rparr>)"
  "dialog_step quiet_env (ShowSystemDialog (sample_dialog ''b'') None)
     ((no_dialogs [] [])\<lparr>dg_requests := [(1, \<lparr>dq_app_id = 0, dq_options = sample_dialog ''a'', dq_handler = None\<rparr>)],
       dg_active := Some 1, dg_next := 2, dg_world := [1]\<rparr>) =
     Some (Inr (Some 2), (no_dialogs [] [])\<lparr>dg_requests := [(1, \<lparr>dq_app_id = 0, dq_options = sample_dialog ''a'', dq_handler = None\<rparr>),
         (2, \<lparr>dq_app_id = 0, dq_options = sample_dialog ''b'', dq_handler = None\<rparr>)],
       dg_active := Some 1, dg_queue := [2], dg_next := 3, dg_world := [1]\<rparr>)"
  by (simp_all add: no_dialogs_def on_app_task_def got_def enqueue_message_dialog_def sample_dialog_def sample_dialog_env_def
      take_id_def smap_emplace_def)

lemma sample_reached:
  "dialogs_reach quiet_env ((no_dialogs [] [])\<lparr>dg_requests := [(1, \<lparr>dq_app_id = 0, dq_options = sample_dialog ''a'', dq_handler = None\<rparr>),
         (2, \<lparr>dq_app_id = 0, dq_options = sample_dialog ''b'', dq_handler = None\<rparr>)],
       dg_active := Some 1, dg_queue := [2], dg_next := 3, dg_world := [1]\<rparr>)"
  by (rule dialogs_reach.call [OF dialogs_reach.call [OF dialogs_reach.start _ sample_two_dialogs(1)] _ sample_two_dialogs(2)])
    (simp_all add: ids_left_def no_dialogs_def)

theorem dialogs_all_in_line_witness:
  "\<exists>s. dialogs_reach quiet_env s \<and> map fst (dg_requests s) = [1, 2] \<and> dg_active s = Some 1 \<and> dg_queue s = [2]"
  using dialogs_all_in_line [OF sample_reached sample_quiet] sample_reached by force

text \<open>Closing the shown dialog by its owner shows the first of the waiting dialogs that the shell accepts;
  the ones before it, which it refuses, are closed.\<close>

theorem close_shows_next:
  assumes "dialogs_reach env s" "quiet env" "dg_active s = Some r" "de_post env \<noteq> Some False"
    and "map_of (dg_requests s) r = Some d" "dq_app_id d = app"
  shows "\<exists>s' pre. dialog_step env (HideAppDialog app r) s = Some (Inr None, s') \<and>
    dg_queue s = pre @ (case dg_active s' of None \<Rightarrow> [] | Some x \<Rightarrow> [x]) @ dg_queue s' \<and>
    map fst (dg_requests s') = (case dg_active s' of None \<Rightarrow> [] | Some x \<Rightarrow> [x]) @ dg_queue s' \<and>
    list_all (\<lambda>x. \<exists>d w e w'. map_of (dg_requests s) x = Some d \<and> de_show env (dq_app_id d) x (dq_options d) w = (Inl e, w')) pre"
proof -
  have i: "placed s" "ids_below s" using dialogs_reach_inv [OF assms(1,2)] by (auto simp: dialogs_inv_def)
  let ?w = "de_hide env (dq_app_id d) r (dg_world s)"
  let ?s = "s\<lparr>dg_active := None, dg_world := ?w, dg_requests := smap_del r (dg_requests s)\<rparr>"
  obtain v where v: "publish_message_dialog_closed env (closed_result r d) (dq_handler d) ?s = ?s\<lparr>dg_world := v\<rparr>"
    using quiet_publish [OF assms(2)] by blast
  have ok: "smap_ok (smap_del r (dg_requests s))" using i(1) by (simp add: placed_def)
  have "\<exists>s' w pre. show_next_loop env (?s\<lparr>dg_world := v\<rparr>) = Some s' \<and> dg_queue s = pre @ line s' \<and>
    s' = s\<lparr>dg_queue := dg_queue s', dg_active := dg_active s', dg_requests := drop (length pre) (smap_del r (dg_requests s)), dg_world := w\<rparr> \<and>
    (dg_queue s' \<noteq> [] \<longrightarrow> dg_active s' \<noteq> None) \<and>
    (\<forall>(x, d) \<in> set (take (length pre) (smap_del r (dg_requests s))).
       \<exists>w e w'. de_show env (dq_app_id d) x (dq_options d) w = (Inl e, w'))"
    using show_next_loop_quiet [OF assms(2), of "?s\<lparr>dg_world := v\<rparr>"] ok placed_active [OF i(1) assms(3)] by simp
  then obtain s' w pre where s': "show_next_loop env (?s\<lparr>dg_world := v\<rparr>) = Some s'" "dg_queue s = pre @ line s'"
    "s' = s\<lparr>dg_queue := dg_queue s', dg_active := dg_active s', dg_requests := drop (length pre) (smap_del r (dg_requests s)), dg_world := w\<rparr>"
    "\<forall>(x, d) \<in> set (take (length pre) (smap_del r (dg_requests s))). \<exists>w e w'. de_show env (dq_app_id d) x (dq_options d) w = (Inl e, w')"
    by blast
  have step: "dialog_step env (HideAppDialog app r) s = Some (Inr None, s')"
    using assms s'(1) v by (simp add: on_app_task_def close_message_dialog_def closed_result_def show_next_message_dialog_def did_def)
  have keys: "map fst (smap_del r (dg_requests s)) = pre @ line s'" using placed_active [OF i(1) assms(3)] s'(2) by simp
  have "dg_requests s' = drop (length pre) (smap_del r (dg_requests s))" by (subst s'(3)) simp
  then have "map fst (dg_requests s') = line s'" using keys by (metis append_eq_conv_conj drop_map)
  moreover have "\<exists>d w e w'. map_of (dg_requests s) x = Some d \<and> de_show env (dq_app_id d) x (dq_options d) w = (Inl e, w')"
    if "x \<in> set pre" for x
  proof -
    let ?t = "take (length pre) (smap_del r (dg_requests s))"
    have t: "map fst ?t = pre" using keys by (metis append_eq_conv_conj take_map)
    have "x \<in> set (map fst ?t)" unfolding t by (rule that)
    then obtain d' where d': "(x, d') \<in> set ?t" by auto
    then have "(x, d') \<in> set (dg_requests s)" by (auto simp: smap_del_def dest: in_set_takeD)
    then have "map_of (dg_requests s) x = Some d'" using i(1) smap_mem_iff [of "dg_requests s"] by (simp add: placed_def)
    then show ?thesis using s'(4) d' by auto
  qed
  ultimately show ?thesis using step s'(2) by (auto simp: line_def list_all_iff)
qed

theorem close_shows_next_witness:
  "\<exists>s' pre. [2 :: u64] = pre @ (case dg_active s' of None \<Rightarrow> [] | Some x \<Rightarrow> [x]) @ dg_queue s' \<and>
    dialog_step quiet_env (HideAppDialog 0 1)
      ((no_dialogs [] [])\<lparr>dg_requests := [(1, \<lparr>dq_app_id = 0, dq_options = sample_dialog ''a'', dq_handler = None\<rparr>),
         (2, \<lparr>dq_app_id = 0, dq_options = sample_dialog ''b'', dq_handler = None\<rparr>)],
       dg_active := Some 1, dg_queue := [2], dg_next := 3, dg_world := [1]\<rparr>) = Some (Inr None, s')"
proof -
  have post: "de_post quiet_env \<noteq> Some False" by (simp add: sample_dialog_env_def)
  show ?thesis
    using close_shows_next [OF sample_reached sample_quiet _ post, where r = 1 and app = 0] by fastforce
qed

text \<open>A handler that makes a new request can lose a dialog: when the shell refuses a waiting dialog, the
  loop over the queue tells its handler and then goes on to the next one, without looking whether the
  handler's own request is shown by now. That request stays open, is no longer the shown one and waits nowhere.\<close>

theorem reentrant_request_is_lost:
  "\<exists>s. dialog_steps (sample_dialog_env (\<lambda>k res s. snd (enqueue_message_dialog quiet_env 0 False (sample_dialog ''c'') None s)))
      [ShowSystemDialog (sample_dialog ''a'') None, ShowSystemDialog (sample_dialog ''bad'') (Some 0),
       ShowSystemDialog (sample_dialog ''b'') None, HideSystemDialog 1] (no_dialogs [] []) = Some s \<and>
    dg_world s = [1, 4, 3] \<and> dg_active s = Some 3 \<and> dg_queue s = [] \<and> map fst (dg_requests s) = [3, 4]"
proof -
  let ?e = "sample_dialog_env (\<lambda>k res s. snd (enqueue_message_dialog quiet_env 0 False (sample_dialog ''c'') None s))"
  let ?d = "\<lambda>t h. \<lparr>dq_app_id = 0, dq_options = sample_dialog t, dq_handler = h\<rparr>"
  let ?s = "(no_dialogs [] [])\<lparr>dg_requests := [(1, ?d ''a'' None), (2, ?d ''bad'' (Some 0)), (3, ?d ''b'' None)],
    dg_active := Some 1, dg_queue := [2, 3], dg_next := 4, dg_world := [1]\<rparr>"
  let ?t = "(no_dialogs [] [])\<lparr>dg_requests := [(3, ?d ''b'' None), (4, ?d ''c'' None)],
    dg_active := Some 3, dg_queue := [], dg_next := 5, dg_world := [1, 4, 3]\<rparr>"
  note defs = no_dialogs_def on_app_task_def got_def did_def enqueue_message_dialog_def sample_dialog_def
    sample_dialog_env_def take_id_def smap_emplace_def
  have open3: "dialog_steps ?e [ShowSystemDialog (sample_dialog ''a'') None, ShowSystemDialog (sample_dialog ''bad'') (Some 0),
       ShowSystemDialog (sample_dialog ''b'') None] (no_dialogs [] []) = Some ?s"
    by (simp add: defs)
  let ?u = "?s\<lparr>dg_active := None, dg_requests := [(2, ?d ''bad'' (Some 0)), (3, ?d ''b'' None)]\<rparr>"
  let ?v = "?u\<lparr>dg_requests := [(3, ?d ''b'' None), (4, ?d ''c'' None)], dg_active := Some 4, dg_queue := [3], dg_next := 5, dg_world := [1, 4]\<rparr>"
  have "show_next_loop ?e ?u = show_next_loop ?e ?v"
    by (subst show_next_loop.simps) (simp add: defs publish_message_dialog_closed_def smap_del_def)
  also have "\<dots> = Some ?t" by (subst show_next_loop.simps) (simp add: defs)
  finally have "dialog_steps ?e [HideSystemDialog 1] ?s = Some ?t"
    by (simp add: close_message_dialog_def publish_message_dialog_closed_def show_next_message_dialog_def smap_del_def defs)
  then have "dialog_steps ?e [ShowSystemDialog (sample_dialog ''a'') None, ShowSystemDialog (sample_dialog ''bad'') (Some 0),
       ShowSystemDialog (sample_dialog ''b'') None, HideSystemDialog 1] (no_dialogs [] []) = Some ?t"
    using open3 by (simp add: bind_eq_Some_conv split: prod.splits) blast
  then show ?thesis by (intro exI [of _ ?t]) (simp add: no_dialogs_def)
qed

section \<open>Every call returns\<close>

lemma show_next_loop_returns:
  assumes "\<And>h res s. length (dg_queue (de_handler env h res s)) \<le> length (dg_queue s)"
  shows "\<exists>s'. show_next_loop env s = Some s'"
proof (induction "length (dg_queue s)" arbitrary: s rule: less_induct)
  case less
  show ?case
  proof (cases "dg_queue s")
    case Nil
    then show ?thesis by (subst show_next_loop.simps) simp
  next
    case (Cons r q)
    show ?thesis
    proof (cases "map_of (dg_requests s) r")
      case None
      then show ?thesis using less [of "s\<lparr>dg_queue := q\<rparr>"] Cons by (subst show_next_loop.simps) simp
    next
      case (Some d)
      obtain x w where x: "de_show env (dq_app_id d) r (dq_options d) (dg_world s) = (x, w)" by force
      let ?s = "publish_message_dialog_closed env (closed_result r d) (dq_handler d)
        (s\<lparr>dg_queue := q, dg_active := None, dg_requests := smap_del r (dg_requests s), dg_world := w\<rparr>)"
      have "length (dg_queue ?s) \<le> length q"
        using assms [of _ _ "s\<lparr>dg_queue := q, dg_active := None, dg_requests := smap_del r (dg_requests s), dg_world := w\<rparr>"]
        by (simp add: publish_message_dialog_closed_def Let_def split: option.split)
      then have "\<exists>s'. show_next_loop env ?s = Some s'" using less [of ?s] Cons by simp
      then show ?thesis using Cons Some x by (subst show_next_loop.simps) (auto split: sum.split)
    qed
  qed
qed

text \<open>Every dialog and keyboard call returns when no handler makes the queue longer.\<close>

theorem dialog_calls_return:
  assumes "\<And>h res s. length (dg_queue (de_handler env h res s)) \<le> length (dg_queue s)"
  shows "\<exists>x s'. dialog_step env c s = Some (x, s')"
proof -
  have next_some: "\<exists>s'. show_next_message_dialog env s = Some s'" for s
    using show_next_loop_returns [OF assms] by (simp add: show_next_message_dialog_def)
  then obtain g where g: "\<And>s. show_next_message_dialog env s = Some (g s)" by metis
  have close: "\<exists>y. close_message_dialog env app r i reason vo ns s = Some y" for app r i reason vo ns s
    by (simp add: close_message_dialog_def g Let_def split: option.split)
  have post: "\<exists>y. on_app_task env m f s = Some y" if "\<And>s. \<exists>y. f s = Some y" for m and f :: "'a dialogs \<Rightarrow> (u64 option expected \<times> 'a dialogs) option" and s
    using that [of s] by (auto simp: on_app_task_def)
  have got: "\<exists>y. got x = Some y" and did: "\<exists>y. did z = Some y" for x :: "u64 expected \<times> 'a dialogs" and z :: "unit expected \<times> 'a dialogs"
    by (simp_all add: got_def did_def)
  have closed: "\<exists>y. Option.bind (close_message_dialog env app r i reason vo ns s) did = Some y" for app r i reason vo ns s
    using close [of app r i reason vo ns s] did by auto
  have "\<exists>y. dialog_step env c s = Some y"
  proof (cases c)
    case (CloseAppDialogs app)
    then show ?thesis by (simp add: close_message_dialogs_for_app_def g split: prod.split)
  next
    case (HideAppKeyboards app)
    then show ?thesis by simp
  qed (simp only: dialog_step.simps, rule post, rule got did closed)+
  then show ?thesis by auto
qed

lemma filter_del: "filter P (smap_del r m) = filter (\<lambda>e. fst e \<noteq> r \<and> P e) m"
  by (simp add: smap_del_def conj_commute)

lemma hide_each_keyboard:
  assumes "quiet env"
  shows "\<exists>w. fold (\<lambda>r s. snd (hide_app_keyboard env app r s)) rs s =
    s\<lparr>kb_requests := filter (\<lambda>(r, k). \<not> (r \<in> set rs \<and> map_of (kb_requests s) r \<noteq> None \<and> kq_app_id (the (map_of (kb_requests s) r)) = app))
        (kb_requests s), dg_world := w\<rparr>"
proof (induction rs arbitrary: s)
  case Nil
  show ?case by (intro exI [of _ "dg_world s"]) simp
next
  case (Cons r rs)
  let ?mine = "\<lambda>s r. map_of (kb_requests s) r \<noteq> None \<and> kq_app_id (the (map_of (kb_requests s) r)) = app"
  show ?case
  proof (cases "?mine s r")
    case False
    then have "snd (hide_app_keyboard env app r s) = s" by (auto simp: hide_app_keyboard_def split: option.split)
    moreover have "filter (\<lambda>(x, k). \<not> (x \<in> set rs \<and> ?mine s x)) (kb_requests s) =
        filter (\<lambda>(x, k). \<not> (x \<in> set (r # rs) \<and> ?mine s x)) (kb_requests s)"
      using False by (intro filter_cong) auto
    ultimately show ?thesis using Cons.IH [of s] by simp
  next
    case True
    then obtain k where k: "map_of (kb_requests s) r = Some k" "kq_app_id k = app" by auto
    let ?s = "s\<lparr>dg_world := de_hide_keyboard env app r (dg_world s), kb_requests := smap_del r (kb_requests s)\<rparr>"
    obtain w where w: "keyboard_closed env k \<lparr>kr_request_id = r, kr_app_id = app, kr_confirmed = False, kr_text = []\<rparr> ?s = ?s\<lparr>dg_world := w\<rparr>"
      using quiet_keyboard [OF assms] by blast
    have s1: "snd (hide_app_keyboard env app r s) = s\<lparr>kb_requests := smap_del r (kb_requests s), dg_world := w\<rparr>"
      using k w by (simp add: hide_app_keyboard_def)
    have "filter (\<lambda>(x, k). \<not> (x \<in> set rs \<and> ?mine (s\<lparr>kb_requests := smap_del r (kb_requests s), dg_world := w\<rparr>) x)) (smap_del r (kb_requests s)) =
        filter (\<lambda>(x, k). \<not> (x \<in> set (r # rs) \<and> ?mine s x)) (kb_requests s)"
      using True unfolding filter_del by (intro filter_cong) (auto split: if_splits)
    then show ?thesis using Cons.IH [of "s\<lparr>kb_requests := smap_del r (kb_requests s), dg_world := w\<rparr>"] by (simp add: s1)
  qed
qed

theorem dialog_calls_return_witness:
  "\<exists>x s'. dialog_step quiet_env (ShowSystemDialog (sample_dialog ''a'') None) (no_dialogs [] []) = Some (x, s')"
  by (rule dialog_calls_return) (simp add: sample_dialog_env_def)



end
