(* ===== verification/Runtime_Bridge.thy ===== *)
theory Runtime_Bridge
  imports Complex_Main Prelude
begin

text \<open>
  The bridge between app code and native functions of the runtime manager
  (\<open>runtime_manager/src/function_bridge.cpp\<close>, \<open>host_bridge.cpp\<close>): native modules, the app the
  calling thread acts for, context tokens and finish requests.

  A native function is named by a \<open>native_handler\<close>: the five built-in ones, those of a provider,
  whose effect is a parameter, and one bound to an app as \<open>get_modules_for_app\<close> makes it. The state
  is seen from one thread: \<open>fb_current\<close> is its \<open>thread_local\<close>. Tokens count up from one and are
  taken as integers, \<open>int64_t\<close> does not overflow in any run.
\<close>

section \<open>Native values, functions and modules\<close>

datatype native_value = NvNone | NvBool bool | NvInt int | NvDouble real | NvString string

text \<open>The conversion of a double cuts its fraction off.\<close>

definition native_value_to_handle :: "native_value \<Rightarrow> int" where
  "native_value_to_handle v =
     (case v of
        NvInt i \<Rightarrow> i
      | NvDouble x \<Rightarrow> if 0 \<le> x then \<lfloor>x\<rfloor> else \<lceil>x\<rceil>
      | NvBool b \<Rightarrow> if b then 1 else 0
      | _ \<Rightarrow> 0)"

datatype native_handler =
    CurrentAppContext
  | FinishApp
  | AttachAppContext
  | DetachAppContext
  | PrintArgs
  | Provided nat
  | Bound u32 native_handler

record native_function =
  nf_name :: string
  nf_function :: "native_handler option"
  nf_async_function :: "native_handler option"

record native_module =
  nm_name :: string
  nm_functions :: "native_function list"

record bridge =
  fb_modules :: "native_module list"
  fb_discovered :: "string list"
  fb_token_to_app :: "(int, u32) smap"
  fb_app_to_token :: "(u32, int) smap"
  fb_next_token :: int
  fb_current :: "u32 option"
  hb_finish :: "u32 list"

section \<open>Modules\<close>

fun check_functions :: "string \<Rightarrow> string list \<Rightarrow> native_function list \<Rightarrow> unit expected" where
  "check_functions owner names [] = Inr ()"
| "check_functions owner names (f # fs) =
     (if nf_name f = [] then Inl ''Runtime native function name is empty''
      else if nf_function f = None \<and> nf_async_function f = None
      then Inl (''Runtime native function handler is null: '' @ owner @ ''.'' @ nf_name f)
      else if nf_function f \<noteq> None \<and> nf_async_function f \<noteq> None
      then Inl (''Runtime native function cannot be both sync and async: '' @ owner @ ''.'' @ nf_name f)
      else if nf_name f \<in> set names then Inl (''Runtime native function is duplicated: '' @ owner @ ''.'' @ nf_name f)
      else check_functions owner (nf_name f # names) fs)"

definition add_module :: "native_module \<Rightarrow> bridge \<Rightarrow> unit expected \<times> bridge" where
  "add_module m b =
     (if nm_name m = [] then (Inl ''Runtime native module name is empty'', b)
      else case check_functions (nm_name m) [] (nm_functions m) of
        Inl e \<Rightarrow> (Inl e, b)
      | Inr _ \<Rightarrow>
          if nm_name m \<in> set (map nm_name (fb_modules b))
          then (Inl (''Runtime native module is duplicated: '' @ nm_name m), b)
          else (Inr (), b\<lparr>fb_modules := fb_modules b @ [m]\<rparr>))"

fun add_modules :: "native_module list \<Rightarrow> bridge \<Rightarrow> unit expected \<times> bridge" where
  "add_modules [] b = (Inr (), b)"
| "add_modules (m # ms) b =
     (case add_module m b of (Inl e, b') \<Rightarrow> (Inl e, b') | (Inr _, b') \<Rightarrow> add_modules ms b')"

text \<open>The registered providers with their modules; \<open>None\<close> is a plugin without an instance.\<close>

fun discover_registered_providers :: "(string \<times> native_module list option) list \<Rightarrow> bridge \<Rightarrow> unit expected \<times> bridge" where
  "discover_registered_providers [] b = (Inr (), b)"
| "discover_registered_providers ((name, provider) # ps) b =
     (case provider of
        None \<Rightarrow> discover_registered_providers ps b
      | Some modules \<Rightarrow>
          if name \<in> set (fb_discovered b) then discover_registered_providers ps b
          else (case add_modules modules (b\<lparr>fb_discovered := name # fb_discovered b\<rparr>) of
              (Inl e, b') \<Rightarrow> (Inl e, b')
            | (Inr _, b') \<Rightarrow> discover_registered_providers ps b'))"

definition bind_function :: "u32 \<Rightarrow> native_function \<Rightarrow> native_function" where
  "bind_function app f = \<lparr>nf_name = nf_name f, nf_function = map_option (Bound app) (nf_function f),
     nf_async_function = map_option (Bound app) (nf_async_function f)\<rparr>"

definition get_modules_for_app :: "u32 \<Rightarrow> bridge \<Rightarrow> native_module list" where
  "get_modules_for_app app b =
     map (\<lambda>m. \<lparr>nm_name = nm_name m, nm_functions = map (bind_function app) (nm_functions m)\<rparr>) (fb_modules b)"

section \<open>The app a thread acts for\<close>

definition get_current_app_id :: "bridge \<Rightarrow> u32 expected" where
  "get_current_app_id b =
     (case fb_current b of
        None \<Rightarrow> Inl ''No active runtime app context''
      | Some app \<Rightarrow> if app = 0 then Inl ''No active runtime app context'' else Inr app)"

definition get_or_create_context_token :: "u32 \<Rightarrow> bridge \<Rightarrow> int \<times> bridge" where
  "get_or_create_context_token app b =
     (case map_of (fb_app_to_token b) app of
        Some t \<Rightarrow> (t, b)
      | None \<Rightarrow>
          (let t = fb_next_token b in
           (t, b\<lparr>fb_next_token := t + 1, fb_app_to_token := smap_put app t (fb_app_to_token b),
               fb_token_to_app := smap_emplace t app (fb_token_to_app b)\<rparr>)))"

definition attach_context :: "int \<Rightarrow> bridge \<Rightarrow> unit expected \<times> bridge" where
  "attach_context t b =
     (case map_of (fb_token_to_app b) t of
        None \<Rightarrow> (Inl ''Invalid runtime app context token'', b)
      | Some app \<Rightarrow> (Inr (), b\<lparr>fb_current := Some app\<rparr>))"

definition release_app_context :: "u32 \<Rightarrow> bridge \<Rightarrow> bridge" where
  "release_app_context app b =
     (case map_of (fb_app_to_token b) app of
        None \<Rightarrow> b
      | Some t \<Rightarrow> b\<lparr>fb_token_to_app := smap_del t (fb_token_to_app b), fb_app_to_token := smap_del app (fb_app_to_token b)\<rparr>)"

definition release_all_app_contexts :: "bridge \<Rightarrow> bridge" where
  "release_all_app_contexts b = b\<lparr>fb_token_to_app := [], fb_app_to_token := []\<rparr>"

text \<open>\<open>AppContextGuard\<close>: the thread acts for the app in its scope.\<close>

definition with_app_context :: "u32 \<Rightarrow> (bridge \<Rightarrow> 'r \<times> bridge) \<Rightarrow> bridge \<Rightarrow> 'r \<times> bridge" where
  "with_app_context app f b =
     (case f (b\<lparr>fb_current := Some app\<rparr>) of (r, b') \<Rightarrow> (r, b'\<lparr>fb_current := fb_current b\<rparr>))"

section \<open>The host bridge\<close>

definition consume_app_finish_request :: "u32 \<Rightarrow> bridge \<Rightarrow> bool \<times> bridge" where
  "consume_app_finish_request app b = (app \<in> set (hb_finish b), b\<lparr>hb_finish := removeAll app (hb_finish b)\<rparr>)"

definition release_app_resources :: "u32 \<Rightarrow> bridge \<Rightarrow> bridge" where
  "release_app_resources app b = release_app_context app (b\<lparr>hb_finish := removeAll app (hb_finish b)\<rparr>)"

definition release_all_app_resources :: "bridge \<Rightarrow> bridge" where
  "release_all_app_resources b = release_all_app_contexts (b\<lparr>hb_finish := []\<rparr>)"

text \<open>Running a native function; \<open>provided\<close> gives the effect of the functions of the providers.\<close>

fun run_native :: "(nat \<Rightarrow> native_value list \<Rightarrow> bridge \<Rightarrow> native_value expected \<times> bridge) \<Rightarrow>
    native_handler \<Rightarrow> native_value list \<Rightarrow> bridge \<Rightarrow> native_value expected \<times> bridge" where
  "run_native provided CurrentAppContext args b =
     (case get_current_app_id b of
        Inl e \<Rightarrow> (Inl e, b)
      | Inr app \<Rightarrow> (case get_or_create_context_token app b of (t, b') \<Rightarrow> (Inr (NvInt t), b')))"
| "run_native provided FinishApp args b =
     (case get_current_app_id b of
        Inl e \<Rightarrow> (Inl e, b)
      | Inr app \<Rightarrow> (Inr (NvBool True), b\<lparr>hb_finish := List.insert app (hb_finish b)\<rparr>))"
| "run_native provided AttachAppContext args b =
     (case args of
        [] \<Rightarrow> (Inl ''brookesia.attach_app_context(token) requires a context token'', b)
      | v # _ \<Rightarrow> (case attach_context (native_value_to_handle v) b of
            (Inl e, b') \<Rightarrow> (Inl e, b') | (Inr _, b') \<Rightarrow> (Inr (NvBool True), b')))"
| "run_native provided DetachAppContext args b = (Inr (NvBool True), b\<lparr>fb_current := None\<rparr>)"
| "run_native provided PrintArgs args b = (Inr NvNone, b)"
| "run_native provided (Provided k) args b = provided k args b"
| "run_native provided (Bound app h) args b = with_app_context app (run_native provided h args) b"

definition sync_function :: "string \<Rightarrow> native_handler \<Rightarrow> native_function" where
  "sync_function name h = \<lparr>nf_name = name, nf_function = Some h, nf_async_function = None\<rparr>"

definition make_brookesia_module :: native_module where
  "make_brookesia_module = \<lparr>nm_name = ''brookesia'', nm_functions =
     [sync_function ''current_app_context'' CurrentAppContext, sync_function ''finish_app'' FinishApp,
      sync_function ''attach_app_context'' AttachAppContext, sync_function ''detach_app_context'' DetachAppContext,
      sync_function ''print'' PrintArgs]\<rparr>"

definition new_bridge :: bridge where
  "new_bridge = snd (add_module make_brookesia_module \<lparr>fb_modules = [], fb_discovered = [], fb_token_to_app = [],
     fb_app_to_token = [], fb_next_token = 1, fb_current = None, hb_finish = []\<rparr>)"

section \<open>Context tokens\<close>

text \<open>Tokens and apps are in one-to-one correspondence, and every token was handed out before.\<close>

definition tokens_ok :: "bridge \<Rightarrow> bool" where
  "tokens_ok b \<longleftrightarrow> smap_ok (fb_token_to_app b) \<and> smap_ok (fb_app_to_token b) \<and>
     (\<forall>t app. map_of (fb_token_to_app b) t = Some app \<longleftrightarrow> map_of (fb_app_to_token b) app = Some t) \<and>
     (\<forall>t app. map_of (fb_token_to_app b) t = Some app \<longrightarrow> t < fb_next_token b)"

lemma tokens_ok_new: "tokens_ok (b\<lparr>fb_current := c\<rparr>) = tokens_ok b" "tokens_ok (b\<lparr>hb_finish := f\<rparr>) = tokens_ok b"
  "tokens_ok (b\<lparr>fb_modules := m\<rparr>) = tokens_ok b" "tokens_ok (b\<lparr>fb_discovered := d\<rparr>) = tokens_ok b"
  by (simp_all add: tokens_ok_def)

declare tokens_ok_new [simp]

lemma tokens_inj:
  assumes "tokens_ok b" "map_of (fb_app_to_token b) x = Some t" "map_of (fb_app_to_token b) y = Some t"
  shows "x = y"
proof -
  have "map_of (fb_token_to_app b) t = Some x" "map_of (fb_token_to_app b) t = Some y" using assms unfolding tokens_ok_def by blast+
  then show ?thesis by simp
qed

lemma token_created:
  assumes "tokens_ok b" "get_or_create_context_token app b = (t, b')"
  shows "tokens_ok b' \<and> map_of (fb_token_to_app b') t = Some app \<and> map_of (fb_app_to_token b') app = Some t"
proof (cases "map_of (fb_app_to_token b) app")
  case None
  have ok: "smap_ok (fb_token_to_app b)" "smap_ok (fb_app_to_token b)"
    "\<And>t app. map_of (fb_token_to_app b) t = Some app \<longleftrightarrow> map_of (fb_app_to_token b) app = Some t"
    "\<And>t app. map_of (fb_token_to_app b) t = Some app \<Longrightarrow> t < fb_next_token b"
    using assms(1) unfolding tokens_ok_def by blast+
  have fresh: "map_of (fb_token_to_app b) (fb_next_token b) = None"
    using ok(4) by (cases "map_of (fb_token_to_app b) (fb_next_token b)") auto
  then have fresh': "map_of (fb_app_to_token b) x \<noteq> Some (fb_next_token b)" for x using ok(3) [of "fb_next_token b" x] by simp
  have t: "t = fb_next_token b" and b': "b' = b\<lparr>fb_next_token := t + 1, fb_app_to_token := smap_put app t (fb_app_to_token b),
      fb_token_to_app := smap_emplace t app (fb_token_to_app b)\<rparr>"
    using assms(2) None by (auto simp: get_or_create_context_token_def Let_def)
  have maps: "map_of (fb_token_to_app b') = (map_of (fb_token_to_app b))(t \<mapsto> app)"
    "map_of (fb_app_to_token b') = (map_of (fb_app_to_token b))(app \<mapsto> t)"
    using fresh by (simp_all add: b' t map_of_emplace)
  have "t' < fb_next_token b'" if "map_of (fb_token_to_app b') t' = Some app'" for t' app'
    using that ok(4) [of t' app'] unfolding maps(1) by (auto simp: t b' split: if_splits)
  moreover have "map_of (fb_token_to_app b') t' = Some app' \<longleftrightarrow> map_of (fb_app_to_token b') app' = Some t'" for t' app'
    using ok(3) [of t' app'] fresh fresh' None unfolding maps by (auto simp: t)
  moreover have "smap_ok (fb_token_to_app b')" "smap_ok (fb_app_to_token b')" using ok(1,2) by (simp_all add: b')
  ultimately show ?thesis using maps unfolding tokens_ok_def by simp
qed (use assms in \<open>auto simp: get_or_create_context_token_def tokens_ok_def\<close>)

lemma token_released: "tokens_ok b \<Longrightarrow> tokens_ok (release_app_context app b)"
  using tokens_inj [of b]
  by (cases "map_of (fb_app_to_token b) app") (auto simp: release_app_context_def tokens_ok_def split: if_splits)

lemma tokens_all_released: "tokens_ok (release_all_app_contexts b)"
  by (auto simp: release_all_app_contexts_def tokens_ok_def)

lemma attach_tokens [simp]: "tokens_ok (snd (attach_context t b)) = tokens_ok b"
  by (simp add: attach_context_def split: option.split)

lemma released_app_has_no_token:
  "tokens_ok b \<Longrightarrow> map_of (fb_app_to_token (release_app_context app b)) app = None \<and>
     app \<notin> ran (map_of (fb_token_to_app (release_app_context app b)))"
  by (cases "map_of (fb_app_to_token b) app") (auto simp: release_app_context_def tokens_ok_def ran_def)

lemma add_module_tokens: "tokens_ok (snd (add_module m b)) = tokens_ok b"
  by (simp add: add_module_def split: sum.split)

text \<open>What the native functions of the providers may do to the tokens.\<close>

definition provided_tokens :: "(nat \<Rightarrow> native_value list \<Rightarrow> bridge \<Rightarrow> native_value expected \<times> bridge) \<Rightarrow> bool" where
  "provided_tokens provided \<longleftrightarrow> (\<forall>k args b. tokens_ok b \<longrightarrow> tokens_ok (snd (provided k args b)))"

lemma run_native_tokens:
  "provided_tokens provided \<Longrightarrow> tokens_ok b \<Longrightarrow> tokens_ok (snd (run_native provided h args b))"
proof (induction h arbitrary: b)
  case CurrentAppContext
  then show ?case using token_created by (auto split: sum.split prod.split)
next
  case AttachAppContext
  then show ?case
  proof (cases args)
    case (Cons v vs)
    obtain x b2 where x: "attach_context (native_value_to_handle v) b = (x, b2)" by force
    then have "tokens_ok b2" using attach_tokens [of "native_value_to_handle v" b] AttachAppContext by simp
    then show ?thesis using Cons x by (auto split: sum.split)
  qed simp
next
  case (Bound app h)
  obtain r b2 where r: "run_native provided h args (b\<lparr>fb_current := Some app\<rparr>) = (r, b2)" by force
  then have "tokens_ok b2" using Bound.IH [of "b\<lparr>fb_current := Some app\<rparr>"] Bound.prems by simp
  then show ?case using r by (simp add: with_app_context_def)
qed (auto simp: provided_tokens_def split: sum.split)

section \<open>Properties\<close>

text \<open>A native function called through the modules made for an app leaves the app its thread acts for as
  it was, whatever the function does. Attaching or detaching an app context through those modules therefore
  has no effect after the call.\<close>

theorem app_modules_keep_context:
  assumes "m \<in> set (get_modules_for_app app b)" "f \<in> set (nm_functions m)"
    and "nf_function f = Some h \<or> nf_async_function f = Some h"
  shows "fb_current (snd (run_native provided h args b')) = fb_current b'"
proof -
  obtain h' where "h = Bound app h'" using assms by (auto simp: get_modules_for_app_def bind_function_def)
  then show ?thesis by (simp add: with_app_context_def split: prod.split)
qed

theorem app_modules_keep_context_witness:
  "\<exists>m \<in> set (get_modules_for_app 7 new_bridge). \<exists>f \<in> set (nm_functions m). nf_name f = ''attach_app_context'' \<and>
     fb_current (snd (run_native (\<lambda>k a b. (Inr NvNone, b)) (Bound 7 AttachAppContext) [NvInt 1]
       (new_bridge\<lparr>fb_token_to_app := [(1, 9)], fb_current := Some 7\<rparr>))) = Some 7"
proof -
  let ?m = "\<lparr>nm_name = ''brookesia'', nm_functions = map (bind_function 7) (nm_functions make_brookesia_module)\<rparr>"
  let ?f = "bind_function 7 (sync_function ''attach_app_context'' AttachAppContext)"
  have m: "?m \<in> set (get_modules_for_app 7 new_bridge)"
    by (simp add: get_modules_for_app_def new_bridge_def add_module_def make_brookesia_module_def sync_function_def)
  moreover have f: "?f \<in> set (nm_functions ?m)" by (simp add: make_brookesia_module_def)
  moreover have h: "nf_function ?f = Some (Bound 7 AttachAppContext)" by (simp add: bind_function_def sync_function_def)
  ultimately show ?thesis
    using app_modules_keep_context [OF m f disjI1, OF h, of "\<lambda>k a b. (Inr NvNone, b)" "[NvInt 1]"
        "new_bridge\<lparr>fb_token_to_app := [(1, 9)], fb_current := Some 7\<rparr>"]
    by (intro bexI [of _ ?m] bexI [of _ ?f]) (simp_all add: bind_function_def sync_function_def)
qed

text \<open>A provider whose registration failed counts as discovered: discovering again succeeds without it.\<close>

lemma add_modules_discovered: "fb_discovered (snd (add_modules ms b)) = fb_discovered b"
proof (induction ms arbitrary: b)
  case (Cons m ms)
  have "fb_discovered (snd (add_module m b)) = fb_discovered b" by (simp add: add_module_def split: sum.split)
  then show ?case using Cons by (auto split: prod.split sum.split)
qed simp

lemma failed_provider_skipped:
  assumes "discover_registered_providers [(n, Some ms)] b = (Inl e, b')"
  shows "discover_registered_providers [(n, Some ms)] b' = (Inr (), b')"
proof -
  have "add_modules ms (b\<lparr>fb_discovered := n # fb_discovered b\<rparr>) = (Inl e, b')"
    using assms by (auto split: if_splits prod.splits sum.splits)
  then have "fb_discovered b' = n # fb_discovered b"
    using add_modules_discovered [of ms "b\<lparr>fb_discovered := n # fb_discovered b\<rparr>"] by simp
  then show ?thesis by simp
qed

end
