(* ===== verification/Runtime_Manager.thy ===== *)
theory Runtime_Manager
  imports Runtime_Bridge App_Package
begin

text \<open>
  The runtime manager (\<open>runtime_manager/src/runtime.cpp\<close>): backends by type, the apps loaded into
  them and their life cycle.

  A backend is a record of functions on the pair of the world \<open>'w\<close> (interpreters and their apps) and
  the bridge, which app code changes by calling native functions. A backend's operation does not call
  the runtime itself.
\<close>

section \<open>Backends and apps\<close>

instantiation backend_type :: linorder
begin

fun backend_index :: "backend_type \<Rightarrow> nat" where
  "backend_index UnknownBackend = 0"
| "backend_index Lua = 1"
| "backend_index JavaScript = 2"
| "backend_index Wasm = 3"
| "backend_index Elf = 4"

definition less_eq_backend_type :: "backend_type \<Rightarrow> backend_type \<Rightarrow> bool" where
  "less_eq_backend_type a b \<longleftrightarrow> backend_index a \<le> backend_index b"

definition less_backend_type :: "backend_type \<Rightarrow> backend_type \<Rightarrow> bool" where
  "less_backend_type a b \<longleftrightarrow> backend_index a < backend_index b"

instance
proof
  fix x y :: backend_type
  show "x \<le> y \<Longrightarrow> y \<le> x \<Longrightarrow> x = y" by (cases x; cases y) (simp_all add: less_eq_backend_type_def)
qed (auto simp: less_eq_backend_type_def less_backend_type_def)

end

datatype app_run_state = AppUnloaded | AppLoaded | AppRunning | AppStopped | AppError

record runtime_app =
  ra_id :: u32
  ra_config :: runtime_app_config
  ra_state :: app_run_state
  ra_last_error :: string

record 'w backend =
  bk_ptr :: ptr
  bk_type :: backend_type
  bk_set_native_modules :: "native_module list \<Rightarrow> 'w \<Rightarrow> 'w"
  bk_init :: "'w \<times> bridge \<Rightarrow> unit expected \<times> 'w \<times> bridge"
  bk_deinit :: "'w \<times> bridge \<Rightarrow> 'w \<times> bridge"
  bk_load_app :: "u32 \<Rightarrow> runtime_app_config \<Rightarrow> 'w \<times> bridge \<Rightarrow> unit expected \<times> 'w \<times> bridge"
  bk_unload_app :: "u32 \<Rightarrow> 'w \<times> bridge \<Rightarrow> unit expected \<times> 'w \<times> bridge"
  bk_start_app :: "u32 \<Rightarrow> 'w \<times> bridge \<Rightarrow> unit expected \<times> 'w \<times> bridge"
  bk_stop_app :: "u32 \<Rightarrow> 'w \<times> bridge \<Rightarrow> unit expected \<times> 'w \<times> bridge"
  bk_call_function :: "u32 \<Rightarrow> string \<Rightarrow> string \<Rightarrow> native_value list \<Rightarrow> 'w \<times> bridge \<Rightarrow> native_value expected \<times> 'w \<times> bridge"
  bk_app_state :: "u32 \<Rightarrow> 'w \<Rightarrow> app_run_state"

record 'w runtime =
  rt_backends :: "(backend_type, 'w backend) smap"
  rt_apps :: "(u32, runtime_app) smap"
  rt_app_types :: "(u32, backend_type) smap"
  rt_next_app_id :: u32
  rt_initialized :: bool
  rt_bridge :: bridge
  rt_world :: 'w

abbreviation "rt_both r \<equiv> (rt_world r, rt_bridge r)"

text \<open>Run an operation of a backend, or of the bridge.\<close>

definition on_backend :: "('w \<times> bridge \<Rightarrow> 'r \<times> 'w \<times> bridge) \<Rightarrow> 'w runtime \<Rightarrow> 'r \<times> 'w runtime" where
  "on_backend f r = (case f (rt_both r) of (x, w, b) \<Rightarrow> (x, r\<lparr>rt_world := w, rt_bridge := b\<rparr>))"

definition on_bridge :: "(bridge \<Rightarrow> bridge) \<Rightarrow> 'w runtime \<Rightarrow> 'w runtime" where
  "on_bridge f r = r\<lparr>rt_bridge := f (rt_bridge r)\<rparr>"

definition set_app :: "u32 \<Rightarrow> app_run_state \<Rightarrow> string \<Rightarrow> 'w runtime \<Rightarrow> 'w runtime" where
  "set_app i st err r =
     (case map_of (rt_apps r) i of
        None \<Rightarrow> r
      | Some a \<Rightarrow> r\<lparr>rt_apps := smap_put i (a\<lparr>ra_state := st, ra_last_error := err\<rparr>) (rt_apps r)\<rparr>)"

section \<open>Looking up\<close>

definition get_backend :: "backend_type \<Rightarrow> 'w runtime \<Rightarrow> 'w backend expected" where
  "get_backend t r =
     (if t = UnknownBackend then
        (case rt_backends r of
           [] \<Rightarrow> Inl ''Runtime backend is null''
         | [(_, b)] \<Rightarrow> Inr b
         | _ \<Rightarrow> Inl ''Runtime app type is required when multiple backends are registered'')
      else case map_of (rt_backends r) t of
        None \<Rightarrow> Inl ''Runtime backend for app type is not registered''
      | Some b \<Rightarrow> Inr b)"

definition get_app_backend :: "u32 \<Rightarrow> 'w runtime \<Rightarrow> 'w backend expected" where
  "get_app_backend i r =
     (case map_of (rt_app_types r) i of
        None \<Rightarrow> Inl ''Runtime app backend not found''
      | Some t \<Rightarrow> get_backend t r)"

definition get_app_and_backend :: "u32 \<Rightarrow> 'w runtime \<Rightarrow> (runtime_app \<times> 'w backend) expected" where
  "get_app_and_backend i r =
     (case map_of (rt_apps r) i of
        None \<Rightarrow> Inl ''Runtime app not found''
      | Some a \<Rightarrow> (case get_app_backend i r of Inl e \<Rightarrow> Inl e | Inr b \<Rightarrow> Inr (a, b)))"

definition make_app_snapshot :: "u32 \<Rightarrow> runtime_app \<Rightarrow> 'w runtime \<Rightarrow> runtime_app" where
  "make_app_snapshot i a r =
     (case get_app_backend i r of Inl _ \<Rightarrow> a | Inr b \<Rightarrow> a\<lparr>ra_state := bk_app_state b i (rt_world r)\<rparr>)"

definition rt_get_app :: "u32 \<Rightarrow> 'w runtime \<Rightarrow> runtime_app option" where
  "rt_get_app i r = map_option (\<lambda>a. make_app_snapshot i a r) (map_of (rt_apps r) i)"

definition rt_list_apps :: "'w runtime \<Rightarrow> runtime_app list" where
  "rt_list_apps r = map (\<lambda>(i, a). make_app_snapshot i a r) (rt_apps r)"

definition rt_get_type :: "'w runtime \<Rightarrow> backend_type" where
  "rt_get_type r = (case rt_backends r of [(t, _)] \<Rightarrow> t | _ \<Rightarrow> UnknownBackend)"

section \<open>Initialisation\<close>

text \<open>The backend plugins; \<open>None\<close> is a plugin without an instance.\<close>

fun discover_registered_backends :: "(string \<times> 'w backend option) list \<Rightarrow> 'w runtime \<Rightarrow> unit expected \<times> 'w runtime" where
  "discover_registered_backends [] r = (Inr (), r)"
| "discover_registered_backends ((name, p) # ps) r =
     (case p of
        None \<Rightarrow> discover_registered_backends ps r
      | Some b \<Rightarrow>
          if bk_type b = UnknownBackend then (Inl ''Runtime backend plugin type is unknown'', r)
          else (case map_of (rt_backends r) (bk_type b) of
              Some b' \<Rightarrow>
                if bk_ptr b' \<noteq> bk_ptr b then (Inl ''Runtime backend type is already registered'', r)
                else discover_registered_backends ps r
            | None \<Rightarrow> discover_registered_backends ps (r\<lparr>rt_backends := smap_put (bk_type b) b (rt_backends r)\<rparr>)))"

definition configure_and_init_backend :: "'w backend \<Rightarrow> 'w runtime \<Rightarrow> unit expected \<times> 'w runtime" where
  "configure_and_init_backend b r =
     on_backend (bk_init b) (r\<lparr>rt_world := bk_set_native_modules b (fb_modules (rt_bridge r)) (rt_world r)\<rparr>)"

fun init_backends :: "'w backend list \<Rightarrow> 'w runtime \<Rightarrow> unit expected \<times> 'w runtime" where
  "init_backends [] r = (Inr (), r\<lparr>rt_initialized := True\<rparr>)"
| "init_backends (b # bs) r =
     (case configure_and_init_backend b r of (Inl e, r') \<Rightarrow> (Inl e, r') | (Inr _, r') \<Rightarrow> init_backends bs r')"

definition rt_init :: "(string \<times> 'w backend option) list \<Rightarrow> (string \<times> native_module list option) list \<Rightarrow>
    'w runtime \<Rightarrow> unit expected \<times> 'w runtime" where
  "rt_init plugins providers r =
     (case discover_registered_backends plugins r of
        (Inl e, r1) \<Rightarrow> (Inl e, r1)
      | (Inr _, r1) \<Rightarrow>
        (case discover_registered_providers providers (rt_bridge r1) of
           (Inl e, b) \<Rightarrow> (Inl e, r1\<lparr>rt_bridge := b\<rparr>)
         | (Inr _, b) \<Rightarrow>
             (let r2 = r1\<lparr>rt_bridge := b\<rparr> in
              if rt_backends r2 = [] then (Inl ''Runtime backend is null'', r2)
              else if rt_initialized r2 then (Inr (), r2)
              else init_backends (map snd (rt_backends r2)) r2)))"

definition rt_deinit :: "'w runtime \<Rightarrow> 'w runtime" where
  "rt_deinit r =
     (if \<not> rt_initialized r then r
      else
        (let r1 = on_bridge release_all_app_resources r;
             r2 = fold (\<lambda>b r. snd (on_backend (\<lambda>s. ((), bk_deinit b s)) r)) (map snd (rt_backends r1)) r1
         in r2\<lparr>rt_apps := [], rt_app_types := [], rt_initialized := False\<rparr>))"

section \<open>The life of an app\<close>

definition rt_load_app :: "runtime_app_config \<Rightarrow> 'w runtime \<Rightarrow> u32 expected \<times> 'w runtime" where
  "rt_load_app config r =
     (if \<not> rt_initialized r then (Inl ''Runtime must be initialized before loading apps'', r)
      else case get_backend (rc_type config) r of
        Inl e \<Rightarrow> (Inl e, r)
      | Inr b \<Rightarrow>
          (let i = rt_next_app_id r;
               r1 = r\<lparr>rt_next_app_id := i + 1,
                      rt_world := bk_set_native_modules b (get_modules_for_app i (rt_bridge r)) (rt_world r)\<rparr>
           in case on_backend (bk_load_app b i config) r1 of
                (Inl e, r2) \<Rightarrow> (Inl e, r2)
              | (Inr _, r2) \<Rightarrow>
                  (Inr i, r2\<lparr>rt_apps := smap_emplace i \<lparr>ra_id = i, ra_config = config, ra_state = AppLoaded,
                            ra_last_error = []\<rparr> (rt_apps r2),
                          rt_app_types := smap_emplace i (bk_type b) (rt_app_types r2)\<rparr>)))"

definition rt_unload_app :: "u32 \<Rightarrow> 'w runtime \<Rightarrow> unit expected \<times> 'w runtime" where
  "rt_unload_app i r =
     (case map_of (rt_apps r) i of
        None \<Rightarrow> (Inl ''Runtime app not found'', r)
      | Some a \<Rightarrow>
        (case get_app_backend i r of
           Inl e \<Rightarrow> (Inl e, r)
         | Inr b \<Rightarrow>
           (case on_backend (bk_unload_app b i) (on_bridge (release_app_resources i) r) of
              (Inl e, r1) \<Rightarrow> (Inl e, set_app i AppError e r1)
            | (Inr _, r1) \<Rightarrow> (Inr (), r1\<lparr>rt_apps := smap_del i (rt_apps r1), rt_app_types := smap_del i (rt_app_types r1)\<rparr>))))"

definition stop_app_if_finish_requested :: "u32 \<Rightarrow> 'w backend \<Rightarrow> 'w runtime \<Rightarrow> unit expected \<times> 'w runtime" where
  "stop_app_if_finish_requested i b r =
     (case consume_app_finish_request i (rt_bridge r) of
        (requested, br) \<Rightarrow>
          if \<not> requested then (Inr (), r\<lparr>rt_bridge := br\<rparr>)
          else (case on_backend (bk_stop_app b i) (r\<lparr>rt_bridge := br\<rparr>) of
              (x, r1) \<Rightarrow>
                (let r2 = on_bridge (release_app_resources i) r1 in
                 case x of
                   Inl e \<Rightarrow> (Inl e, set_app i AppError e r2)
                 | Inr _ \<Rightarrow> (Inr (), set_app i AppStopped [] r2))))"

text \<open>The scope of the app context guard in a call of the runtime.\<close>

definition in_app_context :: "u32 \<Rightarrow> ('w runtime \<Rightarrow> 'r \<times> 'w runtime) \<Rightarrow> 'w runtime \<Rightarrow> 'r \<times> 'w runtime" where
  "in_app_context i f r =
     (case f (on_bridge (\<lambda>b. b\<lparr>fb_current := Some i\<rparr>) r) of
        (x, r') \<Rightarrow> (x, on_bridge (\<lambda>b. b\<lparr>fb_current := fb_current (rt_bridge r)\<rparr>) r'))"

definition start_in_context :: "u32 \<Rightarrow> 'w backend \<Rightarrow> 'w runtime \<Rightarrow> unit expected \<times> 'w runtime" where
  "start_in_context i b r =
     (case on_backend (bk_start_app b i) r of
        (Inl e, r1) \<Rightarrow> (Inl e, set_app i AppError e (on_bridge (release_app_resources i) r1))
      | (Inr _, r1) \<Rightarrow>
          (case stop_app_if_finish_requested i b r1 of
             (Inl e, r2) \<Rightarrow> (Inl e, r2)
           | (Inr _, r2) \<Rightarrow>
               if map_option ra_state (map_of (rt_apps r2) i) = Some AppStopped then (Inr (), r2)
               else (Inr (), set_app i AppRunning [] r2)))"

definition rt_start_app :: "u32 \<Rightarrow> 'w runtime \<Rightarrow> unit expected \<times> 'w runtime" where
  "rt_start_app i r =
     (case get_app_and_backend i r of
        Inl e \<Rightarrow> (Inl e, r)
      | Inr (a, b) \<Rightarrow> in_app_context i (start_in_context i b) r)"

definition rt_stop_app :: "u32 \<Rightarrow> 'w runtime \<Rightarrow> unit expected \<times> 'w runtime" where
  "rt_stop_app i r =
     (case get_app_and_backend i r of
        Inl e \<Rightarrow> (Inl e, r)
      | Inr (a, b) \<Rightarrow>
        (case on_backend (bk_stop_app b i) (on_bridge (\<lambda>b. snd (consume_app_finish_request i b)) r) of
           (x, r1) \<Rightarrow>
             (let r2 = on_bridge (release_app_resources i) r1 in
              case x of
                Inl e \<Rightarrow> (Inl e, set_app i AppError e r2)
              | Inr _ \<Rightarrow> (Inr (), set_app i AppStopped [] r2))))"

definition rt_call_in_context :: "u32 \<Rightarrow> 'w backend \<Rightarrow> string \<Rightarrow> string \<Rightarrow> native_value list \<Rightarrow> 'w runtime \<Rightarrow>
    native_value expected \<times> 'w runtime" where
  "rt_call_in_context i b module_name function_name args r =
     (case on_backend (bk_call_function b i module_name function_name args) r of
        (Inl e, r1) \<Rightarrow> (Inl e, r1)
      | (Inr v, r1) \<Rightarrow>
          (case stop_app_if_finish_requested i b r1 of
             (Inl e, r2) \<Rightarrow> (Inl e, r2) | (Inr _, r2) \<Rightarrow> (Inr v, r2)))"

definition rt_call_function :: "u32 \<Rightarrow> string \<Rightarrow> string \<Rightarrow> native_value list \<Rightarrow> 'w runtime \<Rightarrow> native_value expected \<times> 'w runtime" where
  "rt_call_function i module_name function_name args r =
     (case get_app_and_backend i r of
        Inl e \<Rightarrow> (Inl e, r)
      | Inr (a, b) \<Rightarrow> in_app_context i (rt_call_in_context i b module_name function_name args) r)"

section \<open>What every operation keeps\<close>

definition rt_inv :: "'w runtime \<Rightarrow> bool" where
  "rt_inv r \<longleftrightarrow>
     (\<forall>t b. map_of (rt_backends r) t = Some b \<longrightarrow> bk_type b = t \<and> t \<noteq> UnknownBackend) \<and>
     dom (map_of (rt_apps r)) = dom (map_of (rt_app_types r)) \<and>
     ran (map_of (rt_app_types r)) \<subseteq> dom (map_of (rt_backends r))"

lemma on_backend_fields:
  assumes "on_backend f r = (x, r')"
  shows "rt_backends r' = rt_backends r \<and> rt_apps r' = rt_apps r \<and> rt_app_types r' = rt_app_types r \<and>
    rt_initialized r' = rt_initialized r \<and> rt_next_app_id r' = rt_next_app_id r"
  using assms by (auto simp: on_backend_def split: prod.splits)

lemma on_bridge_fields [simp]:
  "rt_backends (on_bridge f r) = rt_backends r" "rt_apps (on_bridge f r) = rt_apps r"
  "rt_app_types (on_bridge f r) = rt_app_types r" "rt_initialized (on_bridge f r) = rt_initialized r"
  "rt_next_app_id (on_bridge f r) = rt_next_app_id r" "rt_bridge (on_bridge f r) = f (rt_bridge r)" "rt_world (on_bridge f r) = rt_world r"
  by (simp_all add: on_bridge_def)

lemma set_app_fields [simp]:
  "rt_backends (set_app i st e r) = rt_backends r" "rt_app_types (set_app i st e r) = rt_app_types r"
  "dom (map_of (rt_apps (set_app i st e r))) = dom (map_of (rt_apps r))" "rt_bridge (set_app i st e r) = rt_bridge r"
  "rt_world (set_app i st e r) = rt_world r"
  by (auto simp: set_app_def split: option.splits)

lemma set_app_lookup:
  "map_of (rt_apps (set_app i st e r)) j =
     (if i = j then map_option (\<lambda>a. a\<lparr>ra_state := st, ra_last_error := e\<rparr>) (map_of (rt_apps r) i) else map_of (rt_apps r) j)"
  by (auto simp: set_app_def split: option.splits)

lemma rt_inv_cong:
  "rt_backends r' = rt_backends r \<Longrightarrow> dom (map_of (rt_apps r')) = dom (map_of (rt_apps r)) \<Longrightarrow> rt_app_types r' = rt_app_types r \<Longrightarrow>
   rt_inv r' = rt_inv r"
  by (simp add: rt_inv_def)

lemma on_backend_inv: "on_backend f r = (x, r') \<Longrightarrow> rt_inv r' = rt_inv r"
  by (rule rt_inv_cong) (simp_all add: on_backend_fields)

lemma set_app_inv [simp]: "rt_inv (set_app i st e r) = rt_inv r"
  by (rule rt_inv_cong) simp_all

lemma on_bridge_inv [simp]: "rt_inv (on_bridge f r) = rt_inv r" "rt_inv (r\<lparr>rt_bridge := b\<rparr>) = rt_inv r"
  "rt_inv (r\<lparr>rt_world := w\<rparr>) = rt_inv r" "rt_inv (r\<lparr>rt_initialized := i\<rparr>) = rt_inv r"
  "rt_inv (r\<lparr>rt_next_app_id := n\<rparr>) = rt_inv r"
  by (simp_all add: rt_inv_def)

lemma discover_inv: "discover_registered_backends ps r = (x, r') \<Longrightarrow> rt_inv r \<Longrightarrow> rt_inv r'"
proof (induction ps arbitrary: r)
  case (Cons p ps)
  obtain name b where p: "p = (name, b)" by (cases p)
  show ?case
  proof (cases b)
    case (Some bk)
    have "rt_inv (r\<lparr>rt_backends := smap_put (bk_type bk) bk (rt_backends r)\<rparr>)"
      if "bk_type bk \<noteq> UnknownBackend" "map_of (rt_backends r) (bk_type bk) = None"
      using Cons.prems(2) that by (auto simp: rt_inv_def)
    then show ?thesis using Cons Some by (auto simp: p split: if_splits option.splits)
  qed (use Cons in \<open>simp add: p\<close>)
qed simp

lemma init_backends_inv: "init_backends bs r = (x, r') \<Longrightarrow> rt_inv r' = rt_inv r"
proof (induction bs arbitrary: r)
  case (Cons b bs)
  obtain y r1 where y: "configure_and_init_backend b r = (y, r1)" by force
  have "rt_inv r1 = rt_inv r" using on_backend_inv [OF y [unfolded configure_and_init_backend_def]] by simp
  then show ?case using Cons y by (cases y) auto
qed auto

lemma rt_init_inv: "rt_init plugins providers r = (x, r') \<Longrightarrow> rt_inv r \<Longrightarrow> rt_inv r'"
proof -
  assume a: "rt_init plugins providers r = (x, r')" "rt_inv r"
  obtain y r1 where y: "discover_registered_backends plugins r = (y, r1)" by force
  obtain z b where z: "discover_registered_providers providers (rt_bridge r1) = (z, b)" by force
  have "rt_inv (r1\<lparr>rt_bridge := b\<rparr>)" using discover_inv [OF y a(2)] by simp
  then show ?thesis
    using a(1) y z discover_inv [OF y a(2)] init_backends_inv [of _ "r1\<lparr>rt_bridge := b\<rparr>" x r']
    by (auto simp: rt_init_def Let_def split: sum.splits if_splits)
qed

lemma rt_deinit_inv:
  fixes r :: "'a runtime"
  shows "rt_inv r \<Longrightarrow> rt_inv (rt_deinit r)"
proof -
  have keep: "rt_backends (fold (\<lambda>b r. snd (on_backend (\<lambda>s. ((), bk_deinit b s)) r)) bs r') = rt_backends r'"
    for bs and r' :: "'a runtime"
  proof (induction bs arbitrary: r')
    case (Cons b bs)
    have "rt_backends (snd (on_backend (\<lambda>s. ((), bk_deinit b s)) r')) = rt_backends r'"
      using on_backend_fields [of "\<lambda>s. ((), bk_deinit b s)" r'] by (metis surjective_pairing)
    then show ?case using Cons by simp
  qed simp
  assume "rt_inv r"
  then show "rt_inv (rt_deinit r)" by (simp add: rt_deinit_def rt_inv_def Let_def keep)
qed

lemma rt_inv_emplace:
  assumes "rt_inv r" "map_of (rt_backends r) t = Some b"
  shows "rt_inv (r\<lparr>rt_apps := smap_emplace i a (rt_apps r), rt_app_types := smap_emplace i t (rt_app_types r)\<rparr>)"
proof -
  have d: "dom (map_of (rt_apps r)) = dom (map_of (rt_app_types r))" using assms(1) by (simp add: rt_inv_def)
  show ?thesis
  proof (cases "map_of (rt_apps r) i")
    case None
    then have "map_of (rt_app_types r) i = None" using d by (metis domIff)
    moreover have "ran ((map_of (rt_app_types r))(i \<mapsto> t)) \<subseteq> insert t (ran (map_of (rt_app_types r)))" by (auto simp: ran_def)
    ultimately show ?thesis using None assms by (auto simp: rt_inv_def map_of_emplace)
  next
    case (Some x)
    then have "map_of (rt_app_types r) i \<noteq> None" using d by (metis domIff option.distinct(1))
    then show ?thesis using Some assms(1) by (auto simp: rt_inv_def map_of_emplace)
  qed
qed

lemma rt_load_inv:
  assumes "rt_load_app config r = (x, r')" "rt_inv r"
  shows "rt_inv r'"
proof (cases "rt_initialized r \<and> (\<exists>b. get_backend (rc_type config) r = Inr b)")
  case True
  then obtain b where b: "rt_initialized r" "get_backend (rc_type config) r = Inr b" by blast
  let ?i = "rt_next_app_id r"
  let ?r1 = "r\<lparr>rt_next_app_id := ?i + 1, rt_world := bk_set_native_modules b (get_modules_for_app ?i (rt_bridge r)) (rt_world r)\<rparr>"
  obtain y r2 where y: "on_backend (bk_load_app b ?i config) ?r1 = (y, r2)" by force
  have inv2: "rt_inv r2" using on_backend_inv [OF y] assms(2) by simp
  have "\<exists>t. map_of (rt_backends r) t = Some b"
    using b(2) by (auto simp: get_backend_def split: if_splits list.splits option.splits)
  then have "map_of (rt_backends r2) (bk_type b) = Some b"
    using assms(2) on_backend_fields [OF y] by (auto simp: rt_inv_def)
  then have new: "rt_inv (r2\<lparr>rt_apps := smap_emplace ?i a (rt_apps r2), rt_app_types := smap_emplace ?i (bk_type b) (rt_app_types r2)\<rparr>)" for a
    using rt_inv_emplace [OF inv2] by blast
  have "r' = (case y of Inl _ \<Rightarrow> r2 | Inr _ \<Rightarrow> r2\<lparr>rt_apps := smap_emplace ?i \<lparr>ra_id = ?i, ra_config = config, ra_state = AppLoaded,
      ra_last_error = []\<rparr> (rt_apps r2), rt_app_types := smap_emplace ?i (bk_type b) (rt_app_types r2)\<rparr>)"
    using assms(1) b y by (auto simp: rt_load_app_def Let_def split: sum.splits)
  then show ?thesis using new inv2 by (cases y) simp_all
qed (use assms in \<open>auto simp: rt_load_app_def split: sum.splits if_splits\<close>)

lemma rt_inv_delete:
  assumes "rt_inv r"
  shows "rt_inv (r\<lparr>rt_apps := smap_del i (rt_apps r), rt_app_types := smap_del i (rt_app_types r)\<rparr>)"
proof -
  have "ran ((map_of (rt_app_types r))(i := None)) \<subseteq> ran (map_of (rt_app_types r))" by (auto simp: ran_def)
  then have "ran ((map_of (rt_app_types r))(i := None)) \<subseteq> dom (map_of (rt_backends r))"
    using assms unfolding rt_inv_def by blast
  then show ?thesis using assms by (simp add: rt_inv_def)
qed

lemma rt_unload_inv:
  assumes "rt_unload_app i r = (x, r')" "rt_inv r"
  shows "rt_inv r'"
proof (cases "\<exists>b. map_of (rt_apps r) i \<noteq> None \<and> get_app_backend i r = Inr b")
  case True
  then obtain a b where b: "map_of (rt_apps r) i = Some a" "get_app_backend i r = Inr b" by auto
  obtain y r1 where y: "on_backend (bk_unload_app b i) (on_bridge (release_app_resources i) r) = (y, r1)" by force
  have "rt_inv r1" using on_backend_inv [OF y] assms(2) by simp
  then have "rt_inv (r1\<lparr>rt_apps := smap_del i (rt_apps r1), rt_app_types := smap_del i (rt_app_types r1)\<rparr>)"
    by (rule rt_inv_delete)
  then show ?thesis using \<open>rt_inv r1\<close> assms(1) b y by (cases y) (auto simp: rt_unload_app_def)
qed (use assms in \<open>auto simp: rt_unload_app_def split: option.splits sum.splits\<close>)

lemma stop_if_requested_inv:
  assumes "stop_app_if_finish_requested i b r = (x, r')"
  shows "rt_inv r' = rt_inv r"
proof -
  obtain q br where q: "consume_app_finish_request i (rt_bridge r) = (q, br)" by force
  obtain y r1 where y: "on_backend (bk_stop_app b i) (r\<lparr>rt_bridge := br\<rparr>) = (y, r1)" by force
  have "rt_inv r1 = rt_inv r" using on_backend_inv [OF y] by simp
  then show ?thesis using assms q y by (auto simp: stop_app_if_finish_requested_def Let_def split: if_splits sum.splits)
qed

lemma in_context_inv:
  assumes "\<And>r x r'. f r = (x, r') \<Longrightarrow> rt_inv r' = rt_inv r" "in_app_context i f r = (x, r')"
  shows "rt_inv r' = rt_inv r"
  using assms by (auto simp: in_app_context_def split: prod.splits)

lemma rt_start_inv:
  assumes "rt_start_app i r = (x, r')"
  shows "rt_inv r' = rt_inv r"
proof (cases "get_app_and_backend i r")
  case (Inr ab)
  obtain a b where ab: "ab = (a, b)" by (cases ab)
  have body: "rt_inv r' = rt_inv r" if "start_in_context i b r = (x, r')" for r x r'
  proof -
    obtain y r1 where y: "on_backend (bk_start_app b i) r = (y, r1)" by force
    obtain z r2 where z: "stop_app_if_finish_requested i b r1 = (z, r2)" by force
    have "rt_inv r1 = rt_inv r" "rt_inv r2 = rt_inv r1" using on_backend_inv [OF y] stop_if_requested_inv [OF z] by simp_all
    then show ?thesis using that y z by (auto simp: start_in_context_def split: sum.splits if_splits)
  qed
  show ?thesis
    using assms Inr ab in_context_inv [where f = "start_in_context i b", OF body] by (simp add: rt_start_app_def)
qed (use assms in \<open>simp add: rt_start_app_def\<close>)

lemma rt_call_inv:
  assumes "rt_call_function i m f args r = (x, r')"
  shows "rt_inv r' = rt_inv r"
proof (cases "get_app_and_backend i r")
  case (Inr ab)
  obtain a b where ab: "ab = (a, b)" by (cases ab)
  have body: "rt_inv r' = rt_inv r" if "rt_call_in_context i b m f args r = (x, r')" for r x r'
  proof -
    obtain y r1 where y: "on_backend (bk_call_function b i m f args) r = (y, r1)" by force
    obtain z r2 where z: "stop_app_if_finish_requested i b r1 = (z, r2)" by force
    have "rt_inv r1 = rt_inv r" "rt_inv r2 = rt_inv r1" using on_backend_inv [OF y] stop_if_requested_inv [OF z] by simp_all
    then show ?thesis using that y z by (auto simp: rt_call_in_context_def split: sum.splits if_splits)
  qed
  show ?thesis
    using assms Inr ab in_context_inv [where f = "rt_call_in_context i b m f args", OF body] by (simp add: rt_call_function_def)
qed (use assms in \<open>simp add: rt_call_function_def\<close>)

lemma rt_stop_inv:
  assumes "rt_stop_app i r = (x, r')"
  shows "rt_inv r' = rt_inv r"
proof (cases "get_app_and_backend i r")
  case (Inr ab)
  obtain a b where ab: "ab = (a, b)" by (cases ab)
  obtain y r1 where y: "on_backend (bk_stop_app b i) (on_bridge (\<lambda>b. snd (consume_app_finish_request i b)) r) = (y, r1)" by force
  have "rt_inv r1 = rt_inv r" using on_backend_inv [OF y] by simp
  then show ?thesis using assms Inr ab y by (auto simp: rt_stop_app_def Let_def split: sum.splits)
qed (use assms in \<open>simp add: rt_stop_app_def\<close>)

section \<open>Reachable states\<close>

definition new_runtime :: "'w \<Rightarrow> 'w runtime" where
  "new_runtime w = \<lparr>rt_backends = [], rt_apps = [], rt_app_types = [], rt_next_app_id = 1, rt_initialized = False,
     rt_bridge = new_bridge, rt_world = w\<rparr>"

inductive runtime_reach :: "'w runtime \<Rightarrow> bool" where
  new: "runtime_reach (new_runtime w)"
| init: "runtime_reach r \<Longrightarrow> rt_init plugins providers r = (x, r') \<Longrightarrow> runtime_reach r'"
| deinit: "runtime_reach r \<Longrightarrow> runtime_reach (rt_deinit r)"
| load: "runtime_reach r \<Longrightarrow> rt_load_app config r = (y, r') \<Longrightarrow> runtime_reach r'"
| unload: "runtime_reach r \<Longrightarrow> rt_unload_app i r = (x, r') \<Longrightarrow> runtime_reach r'"
| start: "runtime_reach r \<Longrightarrow> rt_start_app i r = (x, r') \<Longrightarrow> runtime_reach r'"
| stop: "runtime_reach r \<Longrightarrow> rt_stop_app i r = (x, r') \<Longrightarrow> runtime_reach r'"
| call: "runtime_reach r \<Longrightarrow> rt_call_function i m f args r = (v, r') \<Longrightarrow> runtime_reach r'"

lemma runtime_reach_inv: "runtime_reach r \<Longrightarrow> rt_inv r"
proof (induction rule: runtime_reach.induct)
  case (new w)
  then show ?case by (simp add: new_runtime_def rt_inv_def)
next
  case (init r plugins providers x r')
  then show ?case using rt_init_inv by blast
next
  case (load r config y r')
  then show ?case using rt_load_inv by blast
next
  case (unload r i x r')
  then show ?case using rt_unload_inv by blast
qed (simp_all add: rt_deinit_inv rt_start_inv rt_stop_inv rt_call_inv)

section \<open>Properties\<close>

text \<open>In every reachable state a loaded app has its backend: looking an app up fails only for an
  identifier that is not loaded.\<close>

theorem loaded_app_has_backend:
  assumes "runtime_reach r"
  shows "(\<exists>a b. get_app_and_backend i r = Inr (a, b)) \<longleftrightarrow> i \<in> dom (map_of (rt_apps r))"
proof (cases "map_of (rt_apps r) i")
  case (Some a)
  have inv: "rt_inv r" using runtime_reach_inv [OF assms] .
  then have "map_of (rt_app_types r) i \<noteq> None" using Some by (metis rt_inv_def domIff option.distinct(1))
  then obtain t where t: "map_of (rt_app_types r) i = Some t" by auto
  then have "t \<in> ran (map_of (rt_app_types r))" by (rule ranI)
  then obtain b where b: "map_of (rt_backends r) t = Some b" using inv by (auto simp: rt_inv_def)
  then have "t \<noteq> UnknownBackend" using inv by (auto simp: rt_inv_def)
  then show ?thesis using Some t b by (auto simp: get_app_and_backend_def get_app_backend_def get_backend_def)
qed (auto simp: get_app_and_backend_def)

text \<open>A backend whose apps keep the token tables in order, as the native functions of the bridge do.\<close>

definition keeps_tokens :: "'w backend \<Rightarrow> bool" where
  "keeps_tokens b \<longleftrightarrow> (\<forall>i w br. tokens_ok br \<longrightarrow> tokens_ok (snd (snd (bk_stop_app b i (w, br)))) \<and>
     tokens_ok (snd (snd (bk_start_app b i (w, br)))))"

lemma released_resources:
  assumes "tokens_ok br"
  shows "i \<notin> ran (map_of (fb_token_to_app (release_app_resources i br))) \<and> i \<notin> set (hb_finish (release_app_resources i br))"
  using released_app_has_no_token [of "br\<lparr>hb_finish := removeAll i (hb_finish br)\<rparr>" i] assms
  by (auto simp: release_app_resources_def release_app_context_def split: option.split)


text \<open>An app that was stopped and is started again runs, but its recorded state stays \<open>Stopped\<close>: the start
  takes the old state for a finish request made during the start.\<close>

theorem restart_stays_stopped:
  assumes "get_app_and_backend i r = Inr (a, b)" "ra_state a = AppStopped"
    and "bk_start_app b i (rt_world r, (rt_bridge r)\<lparr>fb_current := Some i\<rparr>) = (Inr (), w, br)" "i \<notin> set (hb_finish br)"
  shows "\<exists>r'. rt_start_app i r = (Inr (), r') \<and> map_option ra_state (map_of (rt_apps r') i) = Some AppStopped \<and> rt_world r' = w"
proof -
  have a: "map_of (rt_apps r) i = Some a" using assms(1) by (auto simp: get_app_and_backend_def split: option.splits sum.splits)
  have "on_backend (bk_start_app b i) (on_bridge (\<lambda>b. b\<lparr>fb_current := Some i\<rparr>) r) = (Inr (), r\<lparr>rt_world := w, rt_bridge := br\<rparr>)"
    using assms(3) by (simp add: on_backend_def on_bridge_def)
  moreover have "stop_app_if_finish_requested i b (r\<lparr>rt_world := w, rt_bridge := br\<rparr>) =
      (Inr (), r\<lparr>rt_world := w, rt_bridge := snd (consume_app_finish_request i br)\<rparr>)"
    using assms(4) by (simp add: stop_app_if_finish_requested_def consume_app_finish_request_def)
  ultimately show ?thesis
    using assms(1,2) a by (simp add: rt_start_app_def in_app_context_def start_in_context_def)
qed

text \<open>An app that asks to finish while it starts is stopped within the start: the call succeeds, the app is
  recorded as stopped, its context tokens are gone and the thread acts for whom it acted before.\<close>

theorem finish_while_starting:
  assumes "get_app_and_backend i r = Inr (a, b)" "keeps_tokens b" "tokens_ok (rt_bridge r)"
    and "bk_start_app b i (rt_world r, (rt_bridge r)\<lparr>fb_current := Some i\<rparr>) = (Inr (), w, br)" "i \<in> set (hb_finish br)"
    and "bk_stop_app b i (w, br\<lparr>hb_finish := removeAll i (hb_finish br)\<rparr>) = (Inr (), w', br')"
  shows "\<exists>r'. rt_start_app i r = (Inr (), r') \<and> map_option ra_state (map_of (rt_apps r') i) = Some AppStopped \<and>
    i \<notin> ran (map_of (fb_token_to_app (rt_bridge r'))) \<and> fb_current (rt_bridge r') = fb_current (rt_bridge r)"
proof -
  have a: "map_of (rt_apps r) i = Some a" using assms(1) by (auto simp: get_app_and_backend_def split: option.splits sum.splits)
  have "tokens_ok br" using assms(2-4) unfolding keeps_tokens_def by (metis snd_conv tokens_ok_new(1))
  then have "tokens_ok br'" using assms(2,6) unfolding keeps_tokens_def by (metis snd_conv tokens_ok_new(2))
  from released_resources [OF this] have free: "i \<notin> ran (map_of (fb_token_to_app (release_app_resources i br')))" by simp
  have start: "on_backend (bk_start_app b i) (on_bridge (\<lambda>b. b\<lparr>fb_current := Some i\<rparr>) r) = (Inr (), r\<lparr>rt_world := w, rt_bridge := br\<rparr>)"
    using assms(4) by (simp add: on_backend_def on_bridge_def)
  let ?r2 = "on_bridge (release_app_resources i) (r\<lparr>rt_world := w', rt_bridge := br'\<rparr>)"
  have "stop_app_if_finish_requested i b (r\<lparr>rt_world := w, rt_bridge := br\<rparr>) = (Inr (), set_app i AppStopped [] ?r2)"
    using assms(5,6) by (simp add: stop_app_if_finish_requested_def consume_app_finish_request_def on_backend_def)
  then have "rt_start_app i r = (Inr (), on_bridge (\<lambda>b. b\<lparr>fb_current := fb_current (rt_bridge r)\<rparr>) (set_app i AppStopped [] ?r2))"
    using assms(1) a start by (simp add: rt_start_app_def in_app_context_def start_in_context_def set_app_lookup)
  then show ?thesis using free a by (simp add: set_app_lookup)
qed

text \<open>A backend of the witnesses: everything succeeds, and an app may ask to finish in its start.\<close>

definition sample_backend :: "bool \<Rightarrow> nat backend" where
  "sample_backend finishing = \<lparr>bk_ptr = 1, bk_type = Lua, bk_set_native_modules = (\<lambda>m w. w), bk_init = (\<lambda>s. (Inr (), s)),
     bk_deinit = (\<lambda>s. s), bk_load_app = (\<lambda>i c s. (Inr (), s)), bk_unload_app = (\<lambda>i s. (Inr (), s)),
     bk_start_app = (\<lambda>i (w, b). (Inr (), w + 1, if finishing then snd (run_native (\<lambda>k a b. (Inr NvNone, b)) (Bound i FinishApp) [] b) else b)),
     bk_stop_app = (\<lambda>i s. (Inr (), s)), bk_call_function = (\<lambda>i m f a s. (Inr NvNone, s)), bk_app_state = (\<lambda>i w. AppRunning)\<rparr>"

definition sample_config :: runtime_app_config where
  "sample_config = \<lparr>rc_type = Lua, rc_app_path = ''/apps/x'', rc_entry = ''app.lua'', rc_resource_dir = [], rc_arguments = []\<rparr>"

definition sample_runtime :: "bool \<Rightarrow> app_run_state \<Rightarrow> nat runtime" where
  "sample_runtime finishing st = (new_runtime 0)\<lparr>rt_backends := [(Lua, sample_backend finishing)],
     rt_apps := [(1, \<lparr>ra_id = 1, ra_config = sample_config, ra_state = st, ra_last_error = []\<rparr>)], rt_app_types := [(1, Lua)],
     rt_next_app_id := 2, rt_initialized := True\<rparr>"

lemma sample_app:
  "get_app_and_backend 1 (sample_runtime f st) = Inr (\<lparr>ra_id = 1, ra_config = sample_config, ra_state = st, ra_last_error = []\<rparr>, sample_backend f)"
  by (simp add: get_app_and_backend_def get_app_backend_def get_backend_def sample_runtime_def)

lemma sample_tokens: "tokens_ok (rt_bridge (sample_runtime f st))" "keeps_tokens (sample_backend f)"
proof -
  have "tokens_ok new_bridge" by (simp add: new_bridge_def add_module_tokens) (simp add: tokens_ok_def)
  then show "tokens_ok (rt_bridge (sample_runtime f st))" by (simp add: sample_runtime_def new_runtime_def)
  have "tokens_ok (snd (run_native (\<lambda>k a b. (Inr NvNone, b)) (Bound i FinishApp) [] b))" if "tokens_ok b" for i b
    using that by (intro run_native_tokens) (auto simp: provided_tokens_def)
  then show "keeps_tokens (sample_backend f)" by (auto simp: keeps_tokens_def sample_backend_def)
qed

lemma sample_bridge: "hb_finish (rt_bridge (sample_runtime f st)) = []"
  by (simp add: sample_runtime_def new_runtime_def new_bridge_def add_module_def make_brookesia_module_def sync_function_def)


theorem restart_stays_stopped_witness:
  "\<exists>r'. rt_start_app 1 (sample_runtime False AppStopped) = (Inr (), r') \<and>
     map_option ra_state (map_of (rt_apps r') 1) = Some AppStopped \<and> rt_world r' = 1"
proof -
  have "bk_start_app (sample_backend False) 1 (rt_world (sample_runtime False AppStopped), (rt_bridge (sample_runtime False AppStopped))\<lparr>fb_current := Some 1\<rparr>) =
      (Inr (), 1, (rt_bridge (sample_runtime False AppStopped))\<lparr>fb_current := Some 1\<rparr>)"
    by (simp add: sample_backend_def sample_runtime_def new_runtime_def)
  from restart_stays_stopped [OF sample_app _ this] show ?thesis by (simp add: sample_bridge)
qed

theorem finish_while_starting_witness:
  "\<exists>r'. rt_start_app 1 (sample_runtime True AppLoaded) = (Inr (), r') \<and>
     map_option ra_state (map_of (rt_apps r') 1) = Some AppStopped \<and> fb_current (rt_bridge r') = None"
proof -
  let ?b = "(rt_bridge (sample_runtime True AppLoaded))\<lparr>fb_current := Some 1\<rparr>"
  have start: "bk_start_app (sample_backend True) 1 (rt_world (sample_runtime True AppLoaded), ?b) = (Inr (), 1, ?b\<lparr>hb_finish := [1]\<rparr>)"
    by (simp add: sample_backend_def with_app_context_def get_current_app_id_def sample_bridge)
      (simp add: sample_runtime_def new_runtime_def)
  have stop: "bk_stop_app (sample_backend True) 1 (1, ?b\<lparr>hb_finish := removeAll 1 (hb_finish (?b\<lparr>hb_finish := [1]\<rparr>))\<rparr>) = (Inr (), 1, ?b\<lparr>hb_finish := []\<rparr>)"
    by (simp add: sample_backend_def)
  have cur: "fb_current (rt_bridge (sample_runtime True AppLoaded)) = None"
    by (simp add: sample_runtime_def new_runtime_def new_bridge_def add_module_def make_brookesia_module_def sync_function_def)
  show ?thesis
    using finish_while_starting [OF sample_app sample_tokens(2,1) start] stop cur by auto
qed

theorem loaded_app_has_backend_witness:
  "\<exists>(r :: nat runtime) a b. runtime_reach r \<and> get_app_and_backend 1 r = Inr (a, b)"
proof -
  obtain x r1 where r1: "rt_init [(''lua'', Some (sample_backend False))] [] (new_runtime 0) = (x, r1)" by force
  obtain y r2 where r2: "rt_load_app sample_config r1 = (y, r2)" by force
  have reach: "runtime_reach r2" using runtime_reach.load [OF runtime_reach.init [OF runtime_reach.new r1] r2] .
  have "rt_backends r1 = [(Lua, sample_backend False)]" "rt_initialized r1" "rt_next_app_id r1 = 1" "rt_apps r1 = []"
    using r1 by (auto simp: rt_init_def new_runtime_def sample_backend_def configure_and_init_backend_def on_backend_def)
  then have "1 \<in> dom (map_of (rt_apps r2))"
    using r2 by (auto simp: rt_load_app_def Let_def get_backend_def sample_config_def on_backend_def sample_backend_def smap_emplace_def)
  then show ?thesis using loaded_app_has_backend [OF reach, of 1] reach by blast
qed

end
