(* ===== verification/App_Manager.thy ===== *)
theory App_Manager
  imports Acts App_Gui System_Dialogs Runtime_Manager
begin

text \<open>
  The app manager of the system (\<open>system_core/src/app/manager.cpp\<close>, lines 133 to 1136 and 1652 to 1677,
  \<open>system_core/src/runtime/runtime.cpp\<close> and \<open>system_core/src/system/timer.cpp\<close>): installing, starting,
  stopping, pausing and uninstalling apps, their scripts and their timers.

  The whole state is the runtime manager's with the manager's own data as its world, so that a script
  that calls the system changes both. The code of native apps (\<open>se_native\<close>), of the shell (\<open>se_shell\<close>) and
  the backends is a function on that state, since it may call the system again; the properties say what
  they assume of it. Where such code removes the app it is called for, the source goes on with a dangling
  reference; the model's updates of that app are then void. The storage service, the overlays and the
  dataflow registry are functions of \<open>sys_env\<close>. Heap traces, profiling and logs are left out, and of
  the shut-down the services and overlays it stops.
\<close>

section \<open>State\<close>

record pending_timer =
  pt_app_id :: u32
  pt_timer_id :: u64
  pt_name :: string

record timer_task =
  tk_id :: u64
  tk_app_id :: u32
  tk_name :: string
  tk_periodic :: bool

text \<open>\<open>co_tasks\<close> are the tasks the scheduler holds in the timer group, \<open>co_jobs\<close> the dispatches posted to the
  app group, marked when the timer repeats, \<open>co_manifests\<close> the manifests the host
  bridge was given, \<open>co_removed\<close> the directories removed.\<close>

record 'w core =
  co_apps :: "(u32, app_record) smap"
  co_ids :: "(string, u32) smap"
  co_next :: u32
  co_active :: u32
  co_owner_of :: "(u32, u32) smap"
  co_runtime_ready :: bool
  co_manifests :: "(u32, app_manifest) smap"
  co_gui :: gui_state
  co_dialogs :: "'w dialogs"
  co_tasks :: "timer_task list"
  co_pending :: "pending_timer list"
  co_jobs :: "(bool \<times> pending_timer) list"
  co_removed :: "string list"

type_synonym 'w sys = "'w core runtime"

record native_app =
  na_ptr :: ptr
  na_manifest :: app_manifest
  na_gui :: gui_descriptor
  na_images :: "image_resource list"
  na_fonts :: "font_resource list"

datatype native_hook =
    OnInstall | OnUninstall | OnStart | OnStop | OnPause | OnResume | OnAction string | OnTimer u64 string

datatype shell_hook =
    AppInstalled | AppUninstalled | AppStarted | AppStoppedHook | AppStartFailed string | AppStopFailed string

record 'w sys_env =
  se_gui :: gui_env
  se_dialogs :: "'w dialog_env"
  se_files :: pkg_env
  se_services :: "string \<Rightarrow> string option"
  se_native :: "ptr \<Rightarrow> native_hook \<Rightarrow> u32 \<Rightarrow> 'w sys \<Rightarrow> unit expected \<times> 'w sys"
  se_shell :: "shell_hook \<Rightarrow> app_info \<Rightarrow> 'w sys \<Rightarrow> unit expected \<times> 'w sys"
  se_hide_loading :: "u32 \<Rightarrow> 'w sys \<Rightarrow> 'w sys"
  se_storage_paths :: "string \<Rightarrow> unit expected"
  se_managed :: "string \<Rightarrow> bool"
  se_remove_tree :: "string \<Rightarrow> unit expected"
  se_show_transition :: "u32 \<Rightarrow> 'w sys \<Rightarrow> nat option expected \<times> 'w sys"
  se_hide_transition :: "nat option \<Rightarrow> 'w sys \<Rightarrow> 'w sys"
  se_release_dataflow :: "u32 \<Rightarrow> 'w sys \<Rightarrow> 'w sys"
  se_backends :: "(string \<times> 'w core backend option) list"
  se_providers :: "(string \<times> native_module list option) list"
  se_app_post :: "bool option"
  se_gui_post :: "gui_call list \<Rightarrow> bool"
  se_scheduler :: bool
  se_timer_post :: "timer_task list \<Rightarrow> u64 option"

section \<open>Access\<close>

definition on_core :: "('w core \<Rightarrow> 'w core) \<Rightarrow> 'w sys \<Rightarrow> 'w sys" where
  "on_core f s = s\<lparr>rt_world := f (rt_world s)\<rparr>"

definition app_of :: "u32 \<Rightarrow> 'w sys \<Rightarrow> app_record option" where
  "app_of i s = map_of (co_apps (rt_world s)) i"

definition get_record :: "u32 \<Rightarrow> 'w sys \<Rightarrow> app_record expected" where
  "get_record i s = (case app_of i s of None \<Rightarrow> Inl ''App not found'' | Some r \<Rightarrow> Inr r)"

definition upd_app :: "u32 \<Rightarrow> (app_record \<Rightarrow> app_record) \<Rightarrow> 'w sys \<Rightarrow> 'w sys" where
  "upd_app i f s =
     (case app_of i s of
        None \<Rightarrow> s
      | Some r \<Rightarrow> on_core (\<lambda>c. c\<lparr>co_apps := smap_put i (f r) (co_apps c)\<rparr>) s)"

definition set_active :: "u32 \<Rightarrow> 'w sys \<Rightarrow> 'w sys" where
  "set_active i = on_core (\<lambda>c. c\<lparr>co_active := i\<rparr>)"

definition clear_active :: "u32 \<Rightarrow> 'w sys \<Rightarrow> 'w sys" where
  "clear_active i = on_core (\<lambda>c. if co_active c = i then c\<lparr>co_active := 0\<rparr> else c)"

text \<open>Calls that are posted to the app group when the caller is not in it.\<close>

definition on_app_group :: "'w sys_env \<Rightarrow> string \<Rightarrow> ('w sys, 'r expected) act \<Rightarrow> ('w sys, 'r expected) act" where
  "on_app_group env message m = (if se_app_post env = Some False then ret (Inl message) else m)"

text \<open>A task of the GUI group on the record of app \<open>i\<close>, waited for.\<close>

definition gui_task :: "'w sys_env \<Rightarrow> string \<Rightarrow> (app_record \<Rightarrow> gui_state \<Rightarrow> unit expected \<times> app_record \<times> gui_state) \<Rightarrow>
    u32 \<Rightarrow> 'w sys \<Rightarrow> unit expected \<times> 'w sys" where
  "gui_task env message f i s =
     (if \<not> se_gui_post env (gs_calls (co_gui (rt_world s))) then (Inl message, s)
      else case app_of i s of
        None \<Rightarrow> (Inr (), s)
      | Some r \<Rightarrow>
          (case f r (co_gui (rt_world s)) of
             (x, r', g') \<Rightarrow> (x, on_core (\<lambda>c. c\<lparr>co_apps := smap_put i r' (co_apps c), co_gui := g'\<rparr>) s)))"

text \<open>A GUI task without a result of its own.\<close>

definition quietly :: "(app_record \<Rightarrow> gui_state \<Rightarrow> app_record \<times> gui_state) \<Rightarrow> app_record \<Rightarrow> gui_state \<Rightarrow> unit expected \<times> app_record \<times> gui_state" where
  "quietly f r g = (Inr (), f r g)"

section \<open>Dialogs about failures\<close>

definition get_lifecycle_app_name :: "app_info \<Rightarrow> string" where
  "get_lifecycle_app_name info =
     (let n = resolve_app_display_name (ai_manifest info) ''en'' in
      if n \<noteq> [] then n else if am_id (ai_manifest info) \<noteq> [] then am_id (ai_manifest info) else ''App'')"

definition warning_dialog :: "string \<Rightarrow> string \<Rightarrow> int \<Rightarrow> dialog_options" where
  "warning_dialog text info ms = \<lparr>do_text = text, do_informative_text = info, do_icon = IconWarning,
     do_buttons = [\<lparr>bt_text = ''Close'', bt_role = RoleAccept\<rparr>], do_auto_close_ms = ms\<rparr>"

definition with_dialogs :: "('w dialogs \<Rightarrow> 'r \<times> 'w dialogs) \<Rightarrow> 'w sys \<Rightarrow> 'r \<times> 'w sys" where
  "with_dialogs f s =
     (case f ((co_dialogs (rt_world s))\<lparr>dg_apps := map fst (co_apps (rt_world s))\<rparr>) of
        (x, d) \<Rightarrow> (x, on_core (\<lambda>c. c\<lparr>co_dialogs := d\<rparr>) s))"

definition show_system_dialog :: "'w sys_env \<Rightarrow> dialog_options \<Rightarrow> 'w sys \<Rightarrow> 'w sys" where
  "show_system_dialog env options s = snd (with_dialogs (enqueue_message_dialog (se_dialogs env) 0 False options None) s)"

definition show_lifecycle_error_dialog :: "'w sys_env \<Rightarrow> app_info \<Rightarrow> string \<Rightarrow> string \<Rightarrow> string \<Rightarrow> 'w sys \<Rightarrow> 'w sys" where
  "show_lifecycle_error_dialog env info what lifecycle e =
     show_system_dialog env (warning_dialog (''Failed to '' @ what @ '' '' @ get_lifecycle_app_name info) (lifecycle @ '': '' @ e) 3000)"

definition show_service_requirement_error_dialog :: "'w sys_env \<Rightarrow> app_info \<Rightarrow> string \<Rightarrow> 'w sys \<Rightarrow> 'w sys" where
  "show_service_requirement_error_dialog env info e =
     show_system_dialog env (warning_dialog (''Unable to start '' @ get_lifecycle_app_name info) e 0)"

section \<open>Timers\<close>

definition cancel_app_timers :: "'w sys_env \<Rightarrow> u32 \<Rightarrow> 'w sys \<Rightarrow> 'w sys" where
  "cancel_app_timers env i s =
     (case app_of i s of
        None \<Rightarrow> s
      | Some r \<Rightarrow>
          (let s1 = upd_app i (\<lambda>r. r\<lparr>ar_timers := []\<rparr>) s in
           if \<not> se_scheduler env then s1
           else on_core (\<lambda>c. c\<lparr>co_tasks := filter (\<lambda>t. tk_id t \<notin> fst ` set (ar_timers r)) (co_tasks c),
                               co_pending := filter (\<lambda>p. pt_app_id p \<noteq> i) (co_pending c)\<rparr>) s1))"

definition timer_start :: "'w sys_env \<Rightarrow> bool \<Rightarrow> u32 \<Rightarrow> string \<Rightarrow> int \<Rightarrow> 'w sys \<Rightarrow> u64 expected \<times> 'w sys" where
  "timer_start env periodic i name ms s =
     (case get_record i s of
        Inl e \<Rightarrow> (Inl e, s)
      | Inr r \<Rightarrow>
          if \<not> se_scheduler env then (Inl ''System timer scheduler is not available'', s)
          else if ms \<le> 0
          then (Inl (if periodic then ''Timer interval must be positive'' else ''Timer delay must be positive''), s)
          else case se_timer_post env (co_tasks (rt_world s)) of
            None \<Rightarrow> (Inl (if periodic then ''Failed to start periodic timer'' else ''Failed to start delayed timer''), s)
          | Some t \<Rightarrow>
              (Inr t, upd_app i (\<lambda>r. r\<lparr>ar_timers := smap_emplace t \<lparr>tm_name = name, tm_periodic = periodic\<rparr> (ar_timers r)\<rparr>)
                (on_core (\<lambda>c. c\<lparr>co_tasks := co_tasks c @ [\<lparr>tk_id = t, tk_app_id = i, tk_name = name, tk_periodic = periodic\<rparr>]\<rparr>) s)))"

definition timer_start_periodic :: "'w sys_env \<Rightarrow> u32 \<Rightarrow> string \<Rightarrow> int \<Rightarrow> 'w sys \<Rightarrow> u64 expected \<times> 'w sys" where
  "timer_start_periodic env = timer_start env True"

definition timer_start_delayed :: "'w sys_env \<Rightarrow> u32 \<Rightarrow> string \<Rightarrow> int \<Rightarrow> 'w sys \<Rightarrow> u64 expected \<times> 'w sys" where
  "timer_start_delayed env = timer_start env False"

definition timer_stop :: "'w sys_env \<Rightarrow> u32 \<Rightarrow> u64 \<Rightarrow> 'w sys \<Rightarrow> bool \<times> 'w sys" where
  "timer_stop env i t s =
     (case app_of i s of
        None \<Rightarrow> (False, s)
      | Some r \<Rightarrow>
          if \<not> se_scheduler env \<or> map_of (ar_timers r) t = None then (False, s)
          else (True, on_core (\<lambda>c. c\<lparr>co_tasks := filter (\<lambda>k. tk_id k \<noteq> t) (co_tasks c),
                      co_pending := filter (\<lambda>p. \<not> (pt_app_id p = i \<and> pt_timer_id p = t)) (co_pending c)\<rparr>)
                  (upd_app i (\<lambda>r. r\<lparr>ar_timers := smap_del t (ar_timers r)\<rparr>) s)))"

section \<open>Scripts\<close>

definition app_module_name :: string where
  "app_module_name = ''brookesia_app''"

definition contains_text :: "string \<Rightarrow> string \<Rightarrow> bool" where
  "contains_text sub t \<longleftrightarrow> list_ex (\<lambda>n. take (length sub) (drop n t) = sub) [0..<Suc (length t)]"

definition is_missing_runtime_function_error :: "string \<Rightarrow> bool" where
  "is_missing_runtime_function_error e \<longleftrightarrow> contains_text ''not found'' e \<or> contains_text ''nil value'' e"

definition call_runtime_lifecycle :: "u32 \<Rightarrow> string \<Rightarrow> native_value list \<Rightarrow> 'w sys \<Rightarrow> unit expected \<times> 'w sys" where
  "call_runtime_lifecycle i function_name args s =
     (case Option.bind (app_of i s) ar_runtime of
        None \<Rightarrow> (Inr (), s)
      | Some k \<Rightarrow>
          (case rt_call_function k app_module_name function_name args s of
             (Inl e, s') \<Rightarrow> (if is_missing_runtime_function_error e then Inr () else Inl e, s')
           | (Inr v, s') \<Rightarrow> (if v = NvBool False then Inl ''Runtime lifecycle function returned false'' else Inr (), s')))"

definition ensure_runtime_initialized :: "'w sys_env \<Rightarrow> 'w sys \<Rightarrow> unit expected \<times> 'w sys" where
  "ensure_runtime_initialized env s =
     (if co_runtime_ready (rt_world s) then (Inr (), s)
      else case rt_init (se_backends env) (se_providers env) s of
        (Inl e, s') \<Rightarrow> (Inl e, s')
      | (Inr _, s') \<Rightarrow> (Inr (), on_core (\<lambda>c. c\<lparr>co_runtime_ready := True\<rparr>) s'))"

text \<open>What is recorded of a loaded app.\<close>

definition register_runtime :: "u32 \<Rightarrow> u32 \<Rightarrow> app_record \<Rightarrow> 'w sys \<Rightarrow> 'w sys" where
  "register_runtime i k r s =
     upd_app i (\<lambda>r. r\<lparr>ar_runtime := Some k, ar_runtime_loaded := True\<rparr>)
       (on_core (\<lambda>c. c\<lparr>co_manifests := smap_put k (ar_manifest r) (co_manifests c),
                       co_owner_of := smap_emplace k i (co_owner_of c)\<rparr>) s)"

definition load_runtime :: "u32 \<Rightarrow> app_record \<Rightarrow> 'w sys \<Rightarrow> unit expected \<times> 'w sys" where
  "load_runtime i r s =
     (if ar_runtime_loaded r then (Inr (), s)
      else case make_runtime_app_config (ar_manifest r) of
        Inl e \<Rightarrow> (Inl e, s)
      | Inr config \<Rightarrow>
          (case rt_load_app config s of
             (Inl e, s') \<Rightarrow> (Inl e, s')
           | (Inr k, s') \<Rightarrow> (Inr (), register_runtime i k r s')))"

definition ensure_runtime_loaded :: "'w sys_env \<Rightarrow> u32 \<Rightarrow> 'w sys \<Rightarrow> unit expected \<times> 'w sys" where
  "ensure_runtime_loaded env i s =
     (case app_of i s of
        None \<Rightarrow> (Inr (), s)
      | Some r \<Rightarrow>
          if ar_kind r \<noteq> Runtime then (Inr (), s)
          else (case ensure_runtime_initialized env s of
              (Inl e, s') \<Rightarrow> (Inl e, s')
            | (Inr _, s') \<Rightarrow> (case app_of i s' of None \<Rightarrow> (Inr (), s') | Some r' \<Rightarrow> load_runtime i r' s')))"

definition unload_runtime :: "u32 \<Rightarrow> 'w sys \<Rightarrow> 'w sys" where
  "unload_runtime i s =
     (case Option.bind (app_of i s) ar_runtime of
        None \<Rightarrow> s
      | Some k \<Rightarrow>
          upd_app i (\<lambda>r. r\<lparr>ar_runtime := None, ar_runtime_loaded := False, ar_runtime_started := False\<rparr>)
            (on_core (\<lambda>c. c\<lparr>co_manifests := smap_del k (co_manifests c), co_owner_of := smap_del k (co_owner_of c)\<rparr>)
              (snd (rt_unload_app k s))))"

text \<open>The app a script acts for: the bridge's, or the one the call context names.\<close>

definition get_runtime_app_id_from_call_context :: "string option \<Rightarrow> u32 expected" where
  "get_runtime_app_id_from_call_context v =
     (case v of
        None \<Rightarrow> Inl ''No active runtime app context''
      | Some t \<Rightarrow>
          if t = [] then Inl ''No active runtime app context''
          else if \<not> list_all is_digit t \<or> 2 ^ 32 \<le> digits_value t \<or> digits_value t = 0
          then Inl ''Invalid runtime app id call context''
          else Inr (of_nat (digits_value t)))"

definition get_current_runtime_app_owner :: "string option \<Rightarrow> 'w sys \<Rightarrow> u32 expected" where
  "get_current_runtime_app_owner call_context s =
     (case (case get_current_app_id (rt_bridge s) of
              Inr k \<Rightarrow> Inr k | Inl _ \<Rightarrow> get_runtime_app_id_from_call_context call_context) of
        Inl e \<Rightarrow> Inl e
      | Inr k \<Rightarrow>
          (case map_of (co_owner_of (rt_world s)) k of
             None \<Rightarrow> Inl ''Runtime app owner not found'' | Some i \<Rightarrow> Inr i))"

section \<open>Clean-up\<close>

definition hide_keyboards :: "'w sys_env \<Rightarrow> u32 \<Rightarrow> 'w sys \<Rightarrow> 'w sys" where
  "hide_keyboards env i s = snd (with_dialogs (\<lambda>d. ((), hide_app_keyboards (se_dialogs env) i d)) s)"

definition close_dialogs :: "'w sys_env \<Rightarrow> u32 \<Rightarrow> ('w sys, unit) act" where
  "close_dialogs env i s =
     (case close_message_dialogs_for_app (se_dialogs env) i ((co_dialogs (rt_world s))\<lparr>dg_apps := map fst (co_apps (rt_world s))\<rparr>) of
        None \<Rightarrow> None
      | Some d \<Rightarrow> Some ((), on_core (\<lambda>c. c\<lparr>co_dialogs := d\<rparr>) s))"

definition cleanup_app_transient_resources :: "'w sys_env \<Rightarrow> u32 \<Rightarrow> ('w sys, unit) act" where
  "cleanup_app_transient_resources env i =
     seq (modify (se_hide_loading env i)) (\<lambda>_.
     seq (modify (hide_keyboards env i)) (\<lambda>_.
     seq (close_dialogs env i) (\<lambda>_.
     modify (cancel_app_timers env i))))"

definition release_runtime_dataflow_operations :: "'w sys_env \<Rightarrow> u32 \<Rightarrow> 'w sys \<Rightarrow> 'w sys" where
  "release_runtime_dataflow_operations env i s = (case Option.bind (app_of i s) ar_runtime of None \<Rightarrow> s | Some k \<Rightarrow> se_release_dataflow env k s)"

text \<open>A hook of a native app, and one of the shell.\<close>

definition run_native_hook :: "'w sys_env \<Rightarrow> native_hook \<Rightarrow> u32 \<Rightarrow> app_record \<Rightarrow> 'w sys \<Rightarrow> unit expected \<times> 'w sys" where
  "run_native_hook env h i r s = (case ar_native r of None \<Rightarrow> (Inr (), s) | Some p \<Rightarrow> se_native env p h i s)"

definition run_shell :: "'w sys_env \<Rightarrow> shell_hook \<Rightarrow> u32 \<Rightarrow> 'w sys \<Rightarrow> unit expected \<times> 'w sys" where
  "run_shell env h i s = (case app_of i s of None \<Rightarrow> (Inr (), s) | Some r \<Rightarrow> se_shell env h (ar_info r) s)"

definition tell_shell :: "'w sys_env \<Rightarrow> shell_hook \<Rightarrow> u32 \<Rightarrow> 'w sys \<Rightarrow> 'w sys" where
  "tell_shell env h i s = snd (run_shell env h i s)"

definition lifecycle_dialog :: "'w sys_env \<Rightarrow> u32 \<Rightarrow> string \<Rightarrow> string \<Rightarrow> string \<Rightarrow> 'w sys \<Rightarrow> 'w sys" where
  "lifecycle_dialog env i what lifecycle e s =
     (case app_of i s of None \<Rightarrow> s | Some r \<Rightarrow> show_lifecycle_error_dialog env (ar_info r) what lifecycle e s)"

section \<open>Stopping\<close>

text \<open>The app's own part of a stop.\<close>

definition stop_app_code :: "'w sys_env \<Rightarrow> u32 \<Rightarrow> app_record \<Rightarrow> ('w sys, unit expected) act" where
  "stop_app_code env i r =
     (if ar_kind r = Native then perform (run_native_hook env OnStop i r)
      else
        seq (perform (call_runtime_lifecycle i ''on_stop'' [])) (\<lambda>x.
        seq (case x of
               Inl e \<Rightarrow> ret (Inl e)
             | Inr _ \<Rightarrow> perform (\<lambda>s. case Option.bind (app_of i s) ar_runtime of None \<Rightarrow> (Inr (), s) | Some k \<Rightarrow> rt_stop_app k s)) (\<lambda>y.
        seq (modify (upd_app i (\<lambda>r. r\<lparr>ar_runtime_started := False\<rparr>))) (\<lambda>_.
        ret y))))"

definition stop_failed :: "'w sys_env \<Rightarrow> u32 \<Rightarrow> string \<Rightarrow> ('w sys, unit expected) act" where
  "stop_failed env i e =
     seq (modify (upd_app i (\<lambda>r. set_error e (set_state AppFailed r)))) (\<lambda>_.
     seq (modify (clear_active i)) (\<lambda>_.
     seq (modify (tell_shell env (AppStopFailed e) i)) (\<lambda>_.
     seq (modify (lifecycle_dialog env i ''stop'' ''on_stop'' e)) (\<lambda>_.
     ret (Inl e)))))"

definition stop_running_app :: "'w sys_env \<Rightarrow> u32 \<Rightarrow> app_record \<Rightarrow> ('w sys, unit expected) act" where
  "stop_running_app env i r =
     seq (modify (upd_app i (set_state Stopping))) (\<lambda>_.
     seq (cleanup_app_transient_resources env i) (\<lambda>_.
     seq (modify (release_runtime_dataflow_operations env i)) (\<lambda>_.
     seq (stop_app_code env i r) (\<lambda>x.
     seq (perform (gui_task env ''Failed to post app GUI cleanup task'' (quietly (cleanup_stopped_app_gui (se_gui env))) i)) (\<lambda>_.
     case x of
       Inl e \<Rightarrow> stop_failed env i e
     | Inr _ \<Rightarrow>
         seq (modify (upd_app i (set_state Stopped))) (\<lambda>_.
         seq (modify (clear_active i)) (\<lambda>_.
         seq (modify (tell_shell env AppStoppedHook i)) (\<lambda>_.
         ret (Inr ())))))))))"

definition stop_app_now :: "'w sys_env \<Rightarrow> u32 \<Rightarrow> ('w sys, unit expected) act" where
  "stop_app_now env i =
     seq (gets (get_record i)) (\<lambda>x.
     case x of
       Inl e \<Rightarrow> ret (Inl e)
     | Inr r \<Rightarrow>
         if ar_state r = Stopped \<or> ar_state r = Installed
         then seq (cleanup_app_transient_resources env i) (\<lambda>_. ret (Inr ()))
         else stop_running_app env i r)"

definition stop_app :: "'w sys_env \<Rightarrow> u32 \<Rightarrow> ('w sys, unit expected) act" where
  "stop_app env i = on_app_group env ''Failed to post app stop task'' (stop_app_now env i)"

definition request_close_app :: "'w sys_env \<Rightarrow> u32 \<Rightarrow> ('w sys, unit expected) act" where
  "request_close_app env i = stop_app env i"

section \<open>Starting\<close>

text \<open>A start that is refused: the app is in the error state, and the shell and a dialog tell it.\<close>

definition start_failed :: "'w sys_env \<Rightarrow> u32 \<Rightarrow> string \<Rightarrow> ('w sys, unit expected) act" where
  "start_failed env i e =
     seq (modify (upd_app i (\<lambda>r. set_error e (set_state AppFailed r)))) (\<lambda>_.
     seq (modify (tell_shell env (AppStartFailed e) i)) (\<lambda>_.
     seq (modify (lifecycle_dialog env i ''start'' ''on_start'' e)) (\<lambda>_.
     ret (Inl e))))"

text \<open>Run the app's own code: a native app's hook, or its script.\<close>

definition start_runtime_app :: "u32 \<Rightarrow> 'w sys \<Rightarrow> unit expected \<times> 'w sys" where
  "start_runtime_app i s =
     (case app_of i s of
        None \<Rightarrow> (Inr (), s)
      | Some r \<Rightarrow>
          if ar_runtime_started r then (Inr (), s)
          else (case ar_runtime r of
              None \<Rightarrow> (Inl ''Runtime app not found'', s)
            | Some k \<Rightarrow>
                (case rt_start_app k s of
                   (x, s') \<Rightarrow> (x, upd_app i (\<lambda>r. r\<lparr>ar_runtime_started := (x = Inr ())\<rparr>) s'))))"

definition start_app_code :: "'w sys_env \<Rightarrow> u32 \<Rightarrow> app_record \<Rightarrow> ('w sys, unit expected) act" where
  "start_app_code env i r =
     (if ar_kind r = Native
      then (if ar_native r = None then ret (Inl ''Native app is not available'') else perform (run_native_hook env OnStart i r))
      else
        seq (perform (ensure_runtime_loaded env i)) (\<lambda>x.
        case x of
          Inl e \<Rightarrow> ret (Inl e)
        | Inr _ \<Rightarrow>
            seq (perform (start_runtime_app i)) (\<lambda>y.
            case y of
              Inl e \<Rightarrow> ret (Inl e)
            | Inr _ \<Rightarrow> perform (call_runtime_lifecycle i ''on_start'' []))))"

definition rollback_start :: "'w sys_env \<Rightarrow> u32 \<Rightarrow> app_record \<Rightarrow> ('w sys, unit) act" where
  "rollback_start env i r =
     seq (cleanup_app_transient_resources env i) (\<lambda>_.
     seq (modify (release_runtime_dataflow_operations env i)) (\<lambda>_.
     seq (modify (if ar_kind r = Runtime then unload_runtime i else id)) (\<lambda>_.
     seq (perform (gui_task env ''Failed to post app GUI rollback task''
       (quietly (\<lambda>r g. unload_app_gui (se_gui env) r (clear_gui_bindings (ar_id r) g))) i)) (\<lambda>_.
     ret ()))))"

text \<open>The shell refuses a started app: it is stopped again.\<close>

definition started_hook_failed :: "'w sys_env \<Rightarrow> u32 \<Rightarrow> string \<Rightarrow> ('w sys, unit expected) act" where
  "started_hook_failed env i e =
     seq (stop_app_now env i) (\<lambda>x.
     seq (case x of
            Inr _ \<Rightarrow> ret ()
          | Inl _ \<Rightarrow>
              seq (modify (upd_app i (\<lambda>r. set_error e (set_state AppFailed r)))) (\<lambda>_.
              seq (modify (clear_active i)) (\<lambda>_.
              modify (tell_shell env (AppStartFailed e) i)))) (\<lambda>_.
     seq (modify (lifecycle_dialog env i ''start'' ''on_start'' e)) (\<lambda>_.
     ret (Inl e))))"

definition start_prepared_app :: "'w sys_env \<Rightarrow> u32 \<Rightarrow> app_record \<Rightarrow> ('w sys, unit expected) act" where
  "start_prepared_app env i r =
     seq (start_app_code env i r) (\<lambda>x.
     case x of
       Inl e \<Rightarrow> seq (rollback_start env i r) (\<lambda>_. start_failed env i e)
     | Inr _ \<Rightarrow>
         seq (modify (upd_app i (set_state Running))) (\<lambda>_.
         seq (modify (set_active i)) (\<lambda>_.
         seq (perform (run_shell env AppStarted i)) (\<lambda>y.
         case y of
           Inl e \<Rightarrow> started_hook_failed env i e
         | Inr _ \<Rightarrow> ret (Inr ())))))"

text \<open>The launch transition is hidden on every way out.\<close>

definition start_checked_app :: "'w sys_env \<Rightarrow> u32 \<Rightarrow> app_record \<Rightarrow> ('w sys, unit expected) act" where
  "start_checked_app env i r =
     seq (modify (upd_app i (\<lambda>r. set_error [] (set_state Starting r)))) (\<lambda>_.
     seq (perform (se_show_transition env i)) (\<lambda>overlay.
     seq (perform (gui_task env ''Failed to post app GUI prepare task'' (prepare_app_gui (se_gui env)) i)) (\<lambda>x.
     seq (case x of Inl e \<Rightarrow> start_failed env i e | Inr _ \<Rightarrow> start_prepared_app env i r) (\<lambda>y.
     seq (modify (se_hide_transition env (case overlay of Inl _ \<Rightarrow> None | Inr v \<Rightarrow> v))) (\<lambda>_.
     ret y)))))"

definition requirements_failed :: "'w sys_env \<Rightarrow> u32 \<Rightarrow> string \<Rightarrow> ('w sys, unit expected) act" where
  "requirements_failed env i e =
     seq (modify (upd_app i (set_error e))) (\<lambda>_.
     seq (modify (tell_shell env (AppStartFailed e) i)) (\<lambda>_.
     seq (modify (\<lambda>s. case app_of i s of None \<Rightarrow> s | Some r \<Rightarrow> show_service_requirement_error_dialog env (ar_info r) e s)) (\<lambda>_.
     ret (Inl e))))"

definition missing_services :: "'w sys_env \<Rightarrow> app_record \<Rightarrow> requirement_failure list" where
  "missing_services env r =
     (if ar_kind r = Runtime then evaluate_service_requirements (se_services env) (am_services (ar_manifest r)) else [])"

definition start_app_now :: "'w sys_env \<Rightarrow> u32 \<Rightarrow> ('w sys, unit expected) act" where
  "start_app_now env i =
     seq (gets (get_record i)) (\<lambda>x.
     case x of
       Inl e \<Rightarrow> ret (Inl e)
     | Inr r \<Rightarrow>
         if ar_state r = Running then ret (Inr ())
         else if missing_services env r \<noteq> []
         then requirements_failed env i (format_service_requirement_failures (missing_services env r))
         else start_checked_app env i r)"

definition start_app :: "'w sys_env \<Rightarrow> u32 \<Rightarrow> ('w sys, unit expected) act" where
  "start_app env i = on_app_group env ''Failed to post app start task'' (start_app_now env i)"

section \<open>Pausing and resuming\<close>

definition pause_code :: "'w sys_env \<Rightarrow> native_hook \<Rightarrow> string \<Rightarrow> u32 \<Rightarrow> app_record \<Rightarrow> 'w sys \<Rightarrow> unit expected \<times> 'w sys" where
  "pause_code env h function_name i r s =
     (if ar_kind r = Native then run_native_hook env h i r s else call_runtime_lifecycle i function_name [] s)"

definition change_pause :: "'w sys_env \<Rightarrow> native_hook \<Rightarrow> string \<Rightarrow> string \<Rightarrow> ('w sys, unit) act \<Rightarrow> u32 \<Rightarrow> ('w sys, unit expected) act" where
  "change_pause env h what function_name finish i =
     seq (gets (get_record i)) (\<lambda>x.
     case x of
       Inl e \<Rightarrow> ret (Inl e)
     | Inr r \<Rightarrow>
         seq (perform (pause_code env h function_name i r)) (\<lambda>y.
         case y of
           Inl e \<Rightarrow> seq (modify (lifecycle_dialog env i what function_name e)) (\<lambda>_. ret (Inl e))
         | Inr _ \<Rightarrow> seq finish (\<lambda>_. ret (Inr ()))))"

definition pause_app :: "'w sys_env \<Rightarrow> u32 \<Rightarrow> ('w sys, unit expected) act" where
  "pause_app env i = on_app_group env ''Failed to post app pause task''
     (change_pause env OnPause ''pause'' ''on_pause'' (modify (upd_app i (set_state Paused))) i)"

definition resume_app :: "'w sys_env \<Rightarrow> u32 \<Rightarrow> ('w sys, unit expected) act" where
  "resume_app env i = on_app_group env ''Failed to post app resume task''
     (change_pause env OnResume ''resume'' ''on_resume''
       (seq (modify (upd_app i (set_state Running))) (\<lambda>_. modify (set_active i))) i)"

section \<open>Installing\<close>

definition normalize_app_manifest :: "app_manifest \<Rightarrow> app_manifest" where
  "normalize_app_manifest m = (if am_name m = [] then m\<lparr>am_name := resolve_app_display_name m ''en''\<rparr> else m)"

definition forget_app :: "u32 \<Rightarrow> string \<Rightarrow> 'w sys \<Rightarrow> 'w sys" where
  "forget_app i m = on_core (\<lambda>c. c\<lparr>co_ids := smap_del m (co_ids c), co_apps := smap_del i (co_apps c)\<rparr>)"

definition undo_install :: "'w sys_env \<Rightarrow> u32 \<Rightarrow> string \<Rightarrow> string \<Rightarrow> ('w sys, u32 expected) act" where
  "undo_install env i m e =
     seq (perform (gui_task env ''Failed to post app GUI install rollback task'' (quietly (rollback_installed_app_gui (se_gui env))) i)) (\<lambda>_.
     seq (modify (forget_app i m)) (\<lambda>_.
     ret (Inl e)))"

text \<open>From the entry in the maps on.\<close>

definition enter_app :: "'w sys_env \<Rightarrow> u32 \<Rightarrow> app_record \<Rightarrow> ('w sys, u32 expected) act" where
  "enter_app env i r =
     (let m = am_id (ar_manifest r) in
     seq (modify (on_core (\<lambda>c. c\<lparr>co_ids := smap_emplace m i (co_ids c), co_apps := smap_emplace i r (co_apps c)\<rparr>))) (\<lambda>_.
     seq (perform (gui_task env ''Failed to post app GUI install preparation task'' (prepare_installed_app_gui (se_gui env)) i)) (\<lambda>x.
     case x of
       Inl e \<Rightarrow> undo_install env i m e
     | Inr _ \<Rightarrow>
         seq (perform (run_shell env AppInstalled i)) (\<lambda>y.
         case y of
           Inl e \<Rightarrow> undo_install env i m e
         | Inr _ \<Rightarrow> ret (Inr i)))))"

definition new_record :: "u32 \<Rightarrow> app_manifest \<Rightarrow> gui_descriptor \<Rightarrow> app_record" where
  "new_record i m d = \<lparr>ar_info = \<lparr>ai_app_id = i, ai_manifest = m, ai_state = Installed, ai_last_error = []\<rparr>,
     ar_gui = d, ar_images = [], ar_fonts = [], ar_native = None, ar_document = None, ar_runtime = None, ar_actions = [],
     ar_registered_images = [], ar_registered_fonts = [], ar_registered_icon = [], ar_timers = [],
     ar_runtime_loaded = False, ar_runtime_started = False, ar_preload_dom = am_preload_dom m\<rparr>"

definition take_app_id :: "'w sys \<Rightarrow> u32 \<times> 'w sys" where
  "take_app_id s = (co_next (rt_world s), on_core (\<lambda>c. c\<lparr>co_next := co_next c + 1\<rparr>) s)"

definition id_taken :: "string \<Rightarrow> 'w sys \<Rightarrow> bool" where
  "id_taken m s \<longleftrightarrow> map_of (co_ids (rt_world s)) m \<noteq> None"

text \<open>\<open>None\<close> is a null pointer.\<close>

definition install_app :: "'w sys_env \<Rightarrow> native_app option \<Rightarrow> ('w sys, u32 expected) act" where
  "install_app env app =
     (case app of
        None \<Rightarrow> ret (Inl ''App is null'')
      | Some a \<Rightarrow>
          (let m = normalize_app_manifest ((na_manifest a)\<lparr>am_kind := Native\<rparr>) in
           if am_id m = [] then ret (Inl ''App manifest id is empty'')
           else
             seq (gets (id_taken (am_id m))) (\<lambda>taken.
             if taken then ret (Inl ''App manifest id already installed'')
             else case validate_gui_descriptor Native (na_gui a) of
               Inl e \<Rightarrow> ret (Inl e)
             | Inr _ \<Rightarrow>
               (case se_storage_paths env (am_id m) of
                  Inl e \<Rightarrow> ret (Inl e)
                | Inr _ \<Rightarrow>
                    seq (perform take_app_id) (\<lambda>i.
                    seq (perform (se_native env (na_ptr a) OnInstall i)) (\<lambda>x.
                    case x of
                      Inl e \<Rightarrow> ret (Inl e)
                    | Inr _ \<Rightarrow>
                        enter_app env i ((new_record i m (na_gui a))
                          \<lparr>ar_native := Some (na_ptr a), ar_images := na_images a, ar_fonts := na_fonts a\<rparr>)))))))"

definition install_runtime_app :: "'w sys_env \<Rightarrow> app_manifest \<Rightarrow> ('w sys, u32 expected) act" where
  "install_runtime_app env m =
     (if am_id m = [] then ret (Inl ''Runtime app manifest id is empty'')
      else
        seq (gets (id_taken (am_id m))) (\<lambda>taken.
        if taken then ret (Inl ''App manifest id already installed'')
        else case read_runtime_app_resource_descriptor (se_files env) m of
          Inl e \<Rightarrow> ret (Inl e)
        | Inr d \<Rightarrow>
          (case validate_gui_descriptor Runtime (rd_gui d) of
             Inl e \<Rightarrow> ret (Inl e)
           | Inr _ \<Rightarrow>
             (case se_storage_paths env (am_id m) of
                Inl e \<Rightarrow> ret (Inl e)
              | Inr _ \<Rightarrow>
                  seq (perform take_app_id) (\<lambda>i.
                  enter_app env i (new_record i
                    ((normalize_app_manifest (m\<lparr>am_icon_id := rd_icon_id d, am_preload_dom := rd_preload_dom d\<rparr>))\<lparr>am_kind := Runtime\<rparr>)
                    (rd_gui d)))))))"

text \<open>The providers that registered themselves: an app object, or a manifest.\<close>

fun install_registered_apps :: "'w sys_env \<Rightarrow> (native_app option \<times> app_manifest) option list \<Rightarrow> ('w sys, unit expected) act" where
  "install_registered_apps env [] = ret (Inr ())"
| "install_registered_apps env (None # ps) = install_registered_apps env ps"
| "install_registered_apps env (Some (app, m) # ps) =
     seq (case app of Some a \<Rightarrow> install_app env (Some a) | None \<Rightarrow> install_runtime_app env m) (\<lambda>x.
     case x of Inl e \<Rightarrow> ret (Inl e) | Inr _ \<Rightarrow> install_registered_apps env ps)"

section \<open>Uninstalling\<close>

definition remove_app_files :: "'w sys_env \<Rightarrow> app_record \<Rightarrow> 'w sys \<Rightarrow> unit expected \<times> 'w sys" where
  "remove_app_files env r s =
     (if ar_kind r \<noteq> Runtime then (Inr (), s)
      else if am_app_path (ar_manifest r) = [] then (Inl ''Runtime app manifest app_path is empty'', s)
      else
        (let p = normal_text (am_app_path (ar_manifest r)) in
         if \<not> se_managed env p
         then (Inl (''Refuse to remove runtime app directory outside managed app roots: '' @ p), s)
         else case se_remove_tree env p of
           Inl e \<Rightarrow> (Inl e, s)
         | Inr _ \<Rightarrow> (Inr (), on_core (\<lambda>c. c\<lparr>co_removed := co_removed c @ [p]\<rparr>) s)))"

definition uninstall_code :: "'w sys_env \<Rightarrow> u32 \<Rightarrow> app_record \<Rightarrow> 'w sys \<Rightarrow> unit \<times> 'w sys" where
  "uninstall_code env i r s =
     ((), if ar_native r \<noteq> None then snd (run_native_hook env OnUninstall i r s)
          else if ar_kind r = Runtime then snd (call_runtime_lifecycle i ''on_uninstall'' [] s)
          else s)"

definition drop_app :: "'w sys_env \<Rightarrow> u32 \<Rightarrow> app_record \<Rightarrow> ('w sys, unit expected) act" where
  "drop_app env i r =
     seq (modify (release_runtime_dataflow_operations env i)) (\<lambda>_.
     seq (perform (uninstall_code env i r)) (\<lambda>_.
     seq (cleanup_app_transient_resources env i) (\<lambda>_.
     seq (modify (unload_runtime i)) (\<lambda>_.
     seq (perform (gui_task env ''Failed to post GUI cleanup task''
       (quietly (\<lambda>r g. rollback_installed_app_gui (se_gui env) r (clear_gui_bindings (ar_id r) g))) i)) (\<lambda>_.
     seq (perform (remove_app_files env r)) (\<lambda>x.
     case x of
       Inl e \<Rightarrow> ret (Inl e)
     | Inr _ \<Rightarrow>
         seq (modify (forget_app i (am_id (ar_manifest r)))) (\<lambda>_.
         seq (modify (clear_active i)) (\<lambda>_.
         seq (perform (se_shell env AppUninstalled (ar_info r))) (\<lambda>_.
         ret (Inr ()))))))))))"

definition uninstall_app_now :: "'w sys_env \<Rightarrow> u32 \<Rightarrow> ('w sys, unit expected) act" where
  "uninstall_app_now env i =
     seq (gets (get_record i)) (\<lambda>x.
     case x of
       Inl e \<Rightarrow> ret (Inl e)
     | Inr r \<Rightarrow>
         seq (if ar_state r = Running \<or> ar_state r = Paused then stop_app_now env i else ret (Inr ())) (\<lambda>y.
         case y of
           Inl e \<Rightarrow> ret (Inl e)
         | Inr _ \<Rightarrow> seq (gets (\<lambda>s. case app_of i s of None \<Rightarrow> r | Some r' \<Rightarrow> r')) (drop_app env i)))"

definition uninstall_app :: "'w sys_env \<Rightarrow> u32 \<Rightarrow> ('w sys, unit expected) act" where
  "uninstall_app env i = on_app_group env ''Failed to post app uninstall task'' (uninstall_app_now env i)"

section \<open>Actions, events and timers\<close>

definition native_or_script :: "'w sys_env \<Rightarrow> native_hook \<Rightarrow> string \<Rightarrow> native_value list \<Rightarrow> u32 \<Rightarrow> app_record \<Rightarrow> 'w sys \<Rightarrow> unit expected \<times> 'w sys" where
  "native_or_script env h function_name args i r s =
     (if ar_kind r = Native
      then (if ar_native r = None then (Inl ''Native app is not available'', s) else run_native_hook env h i r s)
      else call_runtime_lifecycle i function_name args s)"

definition dispatch_action :: "'w sys_env \<Rightarrow> u32 \<Rightarrow> string \<Rightarrow> string \<Rightarrow> string \<Rightarrow> 'w sys \<Rightarrow> unit expected \<times> 'w sys" where
  "dispatch_action env i a p payload s =
     (case get_record i s of
        Inl e \<Rightarrow> (Inl e, s)
      | Inr r \<Rightarrow> native_or_script env (OnAction a) ''on_action'' [NvString a, NvString p, NvString payload] i r s)"

definition dispatch_event :: "u32 \<Rightarrow> string \<Rightarrow> string \<Rightarrow> string \<Rightarrow> 'w sys \<Rightarrow> unit expected \<times> 'w sys" where
  "dispatch_event i service event items s =
     (case get_record i s of
        Inl e \<Rightarrow> (Inl e, s)
      | Inr r \<Rightarrow>
          if ar_kind r = Native then (Inr (), s)
          else call_runtime_lifecycle i ''on_event'' [NvString service, NvString event, NvString items] s)"

text \<open>A timer that does not repeat is forgotten after its hook ran.\<close>

definition forget_timer :: "u32 \<Rightarrow> u64 \<Rightarrow> 'w sys \<Rightarrow> 'w sys" where
  "forget_timer i t = upd_app i (\<lambda>r.
     case map_of (ar_timers r) t of
       None \<Rightarrow> r
     | Some m \<Rightarrow> if tm_periodic m then r else r\<lparr>ar_timers := smap_del t (ar_timers r)\<rparr>)"

definition dispatch_timer :: "'w sys_env \<Rightarrow> u32 \<Rightarrow> u64 \<Rightarrow> string \<Rightarrow> 'w sys \<Rightarrow> unit expected \<times> 'w sys" where
  "dispatch_timer env i t name s =
     (case get_record i s of
        Inl e \<Rightarrow> (Inl e, s)
      | Inr r \<Rightarrow>
          if map_of (ar_timers r) t = None then (Inr (), s)
          else if ar_state r \<noteq> Running then (Inr (), s)
          else if ar_kind r = Native \<and> ar_native r = None then (Inl ''Native app is not available'', s)
          else (case native_or_script env (OnTimer t name) ''on_timer'' [NvDouble (real (unat t)), NvString name] i r s of
              (x, s') \<Rightarrow> (x, forget_timer i t s')))"

text \<open>A dispatch in the app group; a repeating timer is then no longer pending.\<close>

definition forget_pending :: "u32 \<Rightarrow> u64 \<Rightarrow> 'w sys \<Rightarrow> 'w sys" where
  "forget_pending i t = on_core (\<lambda>c. c\<lparr>co_pending := filter (\<lambda>p. \<not> (pt_app_id p = i \<and> pt_timer_id p = t)) (co_pending c)\<rparr>)"

definition run_timer_job :: "'w sys_env \<Rightarrow> bool \<times> pending_timer \<Rightarrow> 'w sys \<Rightarrow> 'w sys" where
  "run_timer_job env job s =
     (case job of (periodic, p) \<Rightarrow>
        (let s1 = snd (dispatch_timer env (pt_app_id p) (pt_timer_id p) (pt_name p) s) in
         if periodic then forget_pending (pt_app_id p) (pt_timer_id p) s1 else s1))"

definition run_next_timer_job :: "'w sys_env \<Rightarrow> 'w sys \<Rightarrow> 'w sys" where
  "run_next_timer_job env s =
     (case co_jobs (rt_world s) of [] \<Rightarrow> s | j # js \<Rightarrow> run_timer_job env j (on_core (\<lambda>c. c\<lparr>co_jobs := js\<rparr>) s))"

text \<open>The scheduler runs a timer's task.\<close>

definition fire_timer :: "'w sys_env \<Rightarrow> timer_task \<Rightarrow> post_outcome \<Rightarrow> 'w sys \<Rightarrow> 'w sys" where
  "fire_timer env k outcome s =
     (let p = \<lparr>pt_app_id = tk_app_id k, pt_timer_id = tk_id k, pt_name = tk_name k\<rparr>;
          drop_task = on_core (\<lambda>c. c\<lparr>co_tasks := filter (\<lambda>t. tk_id t \<noteq> tk_id k) (co_tasks c)\<rparr>);
          queue = (\<lambda>b. on_core (\<lambda>c. c\<lparr>co_jobs := co_jobs c @ [(b, p)]\<rparr>)) in
      if tk_periodic k then
        (if list_ex (\<lambda>q. pt_app_id q = tk_app_id k \<and> pt_timer_id q = tk_id k) (co_pending (rt_world s)) then s
         else
           (let s1 = on_core (\<lambda>c. c\<lparr>co_pending := co_pending c @ [p]\<rparr>) s in
            case outcome of
              PostInline \<Rightarrow> run_timer_job env (True, p) s1
            | PostQueued \<Rightarrow> queue True s1
            | PostRefused \<Rightarrow> drop_task (forget_pending (tk_app_id k) (tk_id k) s1)))
      else
        (let s1 = drop_task s in
         case outcome of
           PostInline \<Rightarrow> run_timer_job env (False, p) s1
         | PostQueued \<Rightarrow> queue False s1
         | PostRefused \<Rightarrow> s1))"

section \<open>Shutting down\<close>

text \<open>The loop over the apps of \<open>System::deinit\<close>; the records it visits are those of the map at its start.\<close>

fun shut_apps :: "'w sys_env \<Rightarrow> u32 list \<Rightarrow> ('w sys, unit) act" where
  "shut_apps env [] = ret ()"
| "shut_apps env (i # is) =
     seq (gets (get_record i)) (\<lambda>x.
     seq (case x of
            Inl _ \<Rightarrow> ret ()
          | Inr r \<Rightarrow>
              seq (if ar_state r = Running \<or> ar_state r = Paused then seq (stop_app env i) (\<lambda>_. ret ()) else ret ()) (\<lambda>_.
              seq (perform (\<lambda>s. ((), if ar_native r = None then s else snd (run_native_hook env OnUninstall i r s)))) (\<lambda>_.
              seq (modify (cancel_app_timers env i)) (\<lambda>_.
              seq (modify (unload_runtime i)) (\<lambda>_.
              seq (perform (gui_task env ''Failed to post app GUI cleanup task''
                (quietly (\<lambda>r g. rollback_installed_app_gui (se_gui env) r (clear_gui_bindings (ar_id r) g))) i)) (\<lambda>_.
              ret ())))))) (\<lambda>_.
     shut_apps env is))"

definition shut_down :: "'w sys_env \<Rightarrow> ('w sys, unit) act" where
  "shut_down env =
     seq (gets (\<lambda>s. map fst (co_apps (rt_world s)))) (\<lambda>is.
     seq (shut_apps env is) (\<lambda>_.
     seq (modify (on_core (\<lambda>c. c\<lparr>co_apps := [], co_ids := [],
       co_gui := (co_gui c)\<lparr>gs_image_owners := [], gs_font_owners := []\<rparr>\<rparr>))) (\<lambda>_.
     seq (modify rt_deinit) (\<lambda>_.
     seq (modify (on_core (\<lambda>c. c\<lparr>co_gui := stop_live_preview_poll (co_gui c), co_runtime_ready := False, co_tasks := []\<rparr>))) (\<lambda>_.
     ret ())))))"

section \<open>Queries\<close>

definition list_apps :: "'w sys \<Rightarrow> app_info list" where
  "list_apps s = map (\<lambda>(i, r). ar_info r) (co_apps (rt_world s))"

definition get_app :: "u32 \<Rightarrow> 'w sys \<Rightarrow> app_info option" where
  "get_app i s = map_option ar_info (app_of i s)"

definition get_active_app :: "'w sys \<Rightarrow> app_info option" where
  "get_active_app s = (if co_active (rt_world s) = 0 then None else get_app (co_active (rt_world s)) s)"

end
