(* ===== verification/Runtime_Laws.thy ===== *)
theory Runtime_Laws
  imports Runtime_Manager
begin

text \<open>
  What the runtime manager keeps of its world: a property of the world that every operation of the good
  backends keeps is kept by the manager's operations. Loading and unloading need less than running.
\<close>

definition kept :: "('w \<Rightarrow> bool) \<Rightarrow> ('w backend \<Rightarrow> bool) \<Rightarrow> 'w runtime \<Rightarrow> bool" where
  "kept P good r \<longleftrightarrow> P (rt_world r) \<and> (\<forall>t b. (t, b) \<in> set (rt_backends r) \<longrightarrow> good b)"

lemma kept_same: "kept P good r \<Longrightarrow> rt_backends r' = rt_backends r \<Longrightarrow> P (rt_world r') \<Longrightarrow> kept P good r'"
  by (simp add: kept_def)

lemma kept_bridge [simp]:
  "kept P good (on_bridge f r) = kept P good r" "kept P good (set_app k st e r) = kept P good r"
  "kept P good (r\<lparr>rt_bridge := b\<rparr>) = kept P good r" "kept P good (r\<lparr>rt_apps := as\<rparr>) = kept P good r"
  "kept P good (r\<lparr>rt_app_types := ts\<rparr>) = kept P good r" "kept P good (r\<lparr>rt_initialized := i\<rparr>) = kept P good r"
  by (simp_all add: kept_def on_bridge_def set_app_def split: option.split)

lemma kept_backend:
  assumes "kept P good r" "P (rt_world r) \<Longrightarrow> P (fst (snd (f (rt_both r))))" "on_backend f r = (x, r')"
  shows "kept P good r'"
  using assms by (auto simp: kept_def on_backend_def split: prod.splits)

lemma get_backend_good: "kept P good r \<Longrightarrow> get_backend t r = Inr b \<Longrightarrow> good b"
  by (auto simp: kept_def get_backend_def split: if_splits list.splits option.splits dest: map_of_SomeD)

lemma get_app_backend_good: "kept P good r \<Longrightarrow> get_app_backend k r = Inr b \<Longrightarrow> good b"
  using get_backend_good by (auto simp: get_app_backend_def split: option.splits)

lemma get_app_and_backend_good: "kept P good r \<Longrightarrow> get_app_and_backend k r = Inr (a, b) \<Longrightarrow> good b"
  using get_app_backend_good by (auto simp: get_app_and_backend_def split: option.splits sum.splits)

locale load_law =
  fixes P :: "'w \<Rightarrow> bool" and good :: "'w backend \<Rightarrow> bool"
  assumes modules_keep: "good b \<Longrightarrow> P w \<Longrightarrow> P (bk_set_native_modules b ms w)"
    and load_keeps: "good b \<Longrightarrow> P w \<Longrightarrow> P (fst (snd (bk_load_app b k config (w, br))))"
    and unload_keeps: "good b \<Longrightarrow> P w \<Longrightarrow> P (fst (snd (bk_unload_app b k (w, br))))"
begin

lemma rt_load_kept:
  assumes "kept P good r" "rt_load_app config r = (x, r')"
  shows "kept P good r'"
proof (cases "rt_initialized r \<and> (\<exists>b. get_backend (rc_type config) r = Inr b)")
  case True
  then obtain b where b: "rt_initialized r" "get_backend (rc_type config) r = Inr b" by blast
  have g: "good b" using get_backend_good [OF assms(1) b(2)] .
  let ?k = "rt_next_app_id r"
  let ?r1 = "r\<lparr>rt_next_app_id := ?k + 1, rt_world := bk_set_native_modules b (get_modules_for_app ?k (rt_bridge r)) (rt_world r)\<rparr>"
  obtain y r2 where y: "on_backend (bk_load_app b ?k config) ?r1 = (y, r2)" by force
  have "kept P good ?r1" using kept_same [OF assms(1), of ?r1] modules_keep [OF g] assms(1) by (simp add: kept_def)
  then have k: "kept P good r2" using kept_backend [OF _ _ y] load_keeps [OF g] by blast
  have "rt_backends r' = rt_backends r2" "rt_world r' = rt_world r2"
    using assms(2) b y by (auto simp: rt_load_app_def Let_def split: sum.splits)
  then show ?thesis using kept_same [OF k] k by (simp add: kept_def)
qed (use assms in \<open>auto simp: rt_load_app_def split: sum.splits if_splits\<close>)

lemma rt_unload_kept:
  assumes "kept P good r" "rt_unload_app k r = (x, r')"
  shows "kept P good r'"
proof (cases "\<exists>b. map_of (rt_apps r) k \<noteq> None \<and> get_app_backend k r = Inr b")
  case True
  then obtain a b where b: "map_of (rt_apps r) k = Some a" "get_app_backend k r = Inr b" by auto
  have g: "good b" using get_app_backend_good [OF assms(1) b(2)] .
  obtain y r1 where y: "on_backend (bk_unload_app b k) (on_bridge (release_app_resources k) r) = (y, r1)" by force
  have k: "kept P good r1" using kept_backend [OF _ _ y] unload_keeps [OF g] assms(1) by simp
  have "rt_backends r' = rt_backends r1" "rt_world r' = rt_world r1"
    using assms(2) b y by (auto simp: rt_unload_app_def split: sum.splits)
  then show ?thesis using kept_same [OF k] k by (simp add: kept_def)
qed (use assms in \<open>auto simp: rt_unload_app_def split: sum.splits option.splits\<close>)

end

locale script_law = load_law P good for P :: "'w \<Rightarrow> bool" and good :: "'w backend \<Rightarrow> bool" +
  assumes init_keeps: "good b \<Longrightarrow> P w \<Longrightarrow> P (fst (snd (bk_init b (w, br))))"
    and start_keeps: "good b \<Longrightarrow> P w \<Longrightarrow> P (fst (snd (bk_start_app b k (w, br))))"
    and stop_keeps: "good b \<Longrightarrow> P w \<Longrightarrow> P (fst (snd (bk_stop_app b k (w, br))))"
    and call_keeps: "good b \<Longrightarrow> P w \<Longrightarrow> P (fst (snd (bk_call_function b k m f args (w, br))))"
begin

lemma stop_if_requested_kept:
  assumes "kept P good r" "good b" "stop_app_if_finish_requested k b r = (x, r')"
  shows "kept P good r'"
proof -
  obtain q br where q: "consume_app_finish_request k (rt_bridge r) = (q, br)" by force
  obtain y r1 where y: "on_backend (bk_stop_app b k) (r\<lparr>rt_bridge := br\<rparr>) = (y, r1)" by force
  have "kept P good r1" using kept_backend [OF _ _ y] stop_keeps [OF assms(2)] assms(1) by simp
  then show ?thesis using assms(1,3) q y
    by (auto simp: stop_app_if_finish_requested_def Let_def split: if_splits sum.splits)
qed

lemma in_context_kept:
  assumes "kept P good r" "\<And>r x r'. kept P good r \<Longrightarrow> f r = (x, r') \<Longrightarrow> kept P good r'" "in_app_context k f r = (x, r')"
  shows "kept P good r'"
  using assms(1,3) assms(2) [of "on_bridge (\<lambda>b. b\<lparr>fb_current := Some k\<rparr>) r"]
  by (auto simp: in_app_context_def split: prod.splits)

lemma start_in_context_kept:
  assumes "good b" "kept P good r" "start_in_context k b r = (y, r')"
  shows "kept P good r'"
proof -
  obtain z r1 where z: "on_backend (bk_start_app b k) r = (z, r1)" by force
  obtain w r2 where w: "stop_app_if_finish_requested k b r1 = (w, r2)" by force
  have 1: "kept P good r1" using kept_backend [OF assms(2) _ z] start_keeps [OF assms(1)] by blast
  have "kept P good r2" using stop_if_requested_kept [OF 1 assms(1) w] .
  then show ?thesis using assms(3) z w 1 by (auto simp: start_in_context_def split: sum.splits if_splits)
qed

lemma rt_call_in_context_kept:
  assumes "good b" "kept P good r" "rt_call_in_context k b md f args r = (y, r')"
  shows "kept P good r'"
proof -
  obtain z r1 where z: "on_backend (bk_call_function b k md f args) r = (z, r1)" by force
  obtain w r2 where w: "stop_app_if_finish_requested k b r1 = (w, r2)" by force
  have 1: "kept P good r1" using kept_backend [OF assms(2) _ z] call_keeps [OF assms(1)] by blast
  have "kept P good r2" using stop_if_requested_kept [OF 1 assms(1) w] .
  then show ?thesis using assms(3) z w 1 by (auto simp: rt_call_in_context_def split: sum.splits if_splits)
qed

lemma rt_start_kept:
  assumes "kept P good r" "rt_start_app k r = (x, r')"
  shows "kept P good r'"
proof (cases "get_app_and_backend k r")
  case (Inr y)
  obtain ap b where y: "y = (ap, b)" by force
  have g: "good b" using get_app_and_backend_good [OF assms(1)] Inr y by blast
  have "in_app_context k (start_in_context k b) r = (x, r')" using assms(2) Inr y by (simp add: rt_start_app_def)
  from in_context_kept [OF assms(1) start_in_context_kept [OF g] this] show ?thesis .
qed (use assms in \<open>simp add: rt_start_app_def\<close>)

lemma rt_call_kept:
  assumes "kept P good r" "rt_call_function k md f args r = (x, r')"
  shows "kept P good r'"
proof (cases "get_app_and_backend k r")
  case (Inr y)
  obtain ap b where y: "y = (ap, b)" by force
  have g: "good b" using get_app_and_backend_good [OF assms(1)] Inr y by blast
  have "in_app_context k (rt_call_in_context k b md f args) r = (x, r')" using assms(2) Inr y by (simp add: rt_call_function_def)
  from in_context_kept [OF assms(1) rt_call_in_context_kept [OF g] this] show ?thesis .
qed (use assms in \<open>simp add: rt_call_function_def\<close>)

lemma rt_stop_kept:
  assumes "kept P good r" "rt_stop_app k r = (x, r')"
  shows "kept P good r'"
proof (cases "get_app_and_backend k r")
  case (Inr y)
  obtain ap b where y: "y = (ap, b)" by force
  have g: "good b" using get_app_and_backend_good [OF assms(1)] Inr y by blast
  obtain z r1 where z: "on_backend (bk_stop_app b k) (on_bridge (\<lambda>b. snd (consume_app_finish_request k b)) r) = (z, r1)" by force
  have "kept P good r1" using kept_backend [OF _ _ z] stop_keeps [OF g] assms(1) by simp
  then show ?thesis using assms Inr y z by (auto simp: rt_stop_app_def Let_def split: sum.splits)
qed (use assms in \<open>simp add: rt_stop_app_def\<close>)

lemma discover_kept:
  "discover_registered_backends ps r = (x, r') \<Longrightarrow> kept P good r \<Longrightarrow> \<forall>n b. (n, Some b) \<in> set ps \<longrightarrow> good b \<Longrightarrow> kept P good r'"
proof (induction ps arbitrary: r)
  case (Cons p ps)
  obtain name b where p: "p = (name, b)" by (cases p)
  show ?case
  proof (cases b)
    case (Some bk)
    have "set (smap_put k v mm) \<subseteq> insert (k, v) (set mm)" for k :: backend_type and v :: "'w backend" and mm
      by (induction mm) auto
    moreover have "good bk" using Cons.prems(3) Some p by auto
    ultimately have "kept P good (r\<lparr>rt_backends := smap_put (bk_type bk) bk (rt_backends r)\<rparr>)"
      using Cons.prems(2) unfolding kept_def by auto blast
    then show ?thesis using Cons Some by (auto simp: p split: if_splits option.splits)
  qed (use Cons in \<open>simp add: p\<close>)
qed simp

lemma init_backends_kept:
  "init_backends bs r = (x, r') \<Longrightarrow> kept P good r \<Longrightarrow> \<forall>b \<in> set bs. good b \<Longrightarrow> kept P good r'"
proof (induction bs arbitrary: r)
  case (Cons b bs)
  obtain y r1 where y: "configure_and_init_backend b r = (y, r1)" by force
  have g: "good b" using Cons.prems(3) by simp
  let ?r0 = "r\<lparr>rt_world := bk_set_native_modules b (fb_modules (rt_bridge r)) (rt_world r)\<rparr>"
  have "kept P good ?r0" using modules_keep [OF g] Cons.prems(2) by (simp add: kept_def)
  then have "kept P good r1" using kept_backend [OF _ _ y [unfolded configure_and_init_backend_def]] init_keeps [OF g] by blast
  then show ?case using Cons y by (cases y) auto
qed auto

lemma rt_init_kept:
  assumes "rt_init plugins providers r = (x, r')" "kept P good r" "\<forall>n b. (n, Some b) \<in> set plugins \<longrightarrow> good b"
  shows "kept P good r'"
proof -
  obtain y r1 where y: "discover_registered_backends plugins r = (y, r1)" by force
  obtain z b where z: "discover_registered_providers providers (rt_bridge r1) = (z, b)" by force
  let ?r2 = "r1\<lparr>rt_bridge := b\<rparr>"
  have 1: "kept P good r1" using discover_kept [OF y assms(2,3)] .
  then have "\<forall>b \<in> set (map snd (rt_backends ?r2)). good b" by (auto simp: kept_def)
  then have "init_backends (map snd (rt_backends ?r2)) ?r2 = (x, r') \<Longrightarrow> kept P good r'"
    using init_backends_kept 1 by (metis kept_bridge(3))
  then show ?thesis using assms(1) y z 1 by (auto simp: rt_init_def Let_def split: sum.splits if_splits)
qed

end

end
