(* ===== verification/App_Lifecycle.thy ===== *)
theory App_Lifecycle
  imports App_Manager Runtime_Laws
begin

text \<open>
  What the app manager keeps and does: the invariant of its maps, documents and resources under any
  sequence of calls, the outcome of starting and stopping, and what is left of an app that is gone.
\<close>

section \<open>The invariant\<close>

definition apps_ok :: "'w core \<Rightarrow> bool" where
  "apps_ok c \<longleftrightarrow>
     (\<forall>i r. map_of (co_apps c) i = Some r \<longrightarrow>
        ar_id r = i \<and> i \<noteq> 0 \<and> i < co_next c \<and> map_of (co_ids c) (am_id (ar_manifest r)) = Some i \<and>
        (ar_runtime r \<noteq> None) = ar_runtime_loaded r) \<and>
     (\<forall>m i. map_of (co_ids c) m = Some i \<longrightarrow> (\<exists>r. map_of (co_apps c) i = Some r \<and> am_id (ar_manifest r) = m)) \<and>
     (co_active c = 0 \<or> map_of (co_apps c) (co_active c) \<noteq> None) \<and> 0 < co_next c \<and>
     (\<forall>k i. map_of (co_owner_of c) k = Some i \<longrightarrow> (\<exists>r. map_of (co_apps c) i = Some r \<and> ar_runtime r = Some k))"

text \<open>Documents and resources: those of the installed apps and no others, and no document of two apps.\<close>

definition document_at :: "'w core \<Rightarrow> u32 \<Rightarrow> nat option" where
  "document_at c i = Option.bind (map_of (co_apps c) i) ar_document"

definition holdings_ok :: "'w core \<Rightarrow> bool" where
  "holdings_ok c \<longleftrightarrow>
     (\<forall>i r. map_of (co_apps c) i = Some r \<longrightarrow> gui_ok r (co_gui c)) \<and>
     live_documents (gs_calls (co_gui c)) = ran (document_at c) \<and> inj_on (document_at c) (dom (document_at c)) \<and>
     live_images (gs_calls (co_gui c)) = dom (map_of (gs_image_owners (co_gui c))) \<and>
     live_fonts (gs_calls (co_gui c)) = dom (map_of (gs_font_owners (co_gui c))) \<and>
     (\<forall>i. owned_images i (co_gui c) \<noteq> {} \<or> owned_fonts i (co_gui c) \<noteq> {} \<longrightarrow> map_of (co_apps c) i \<noteq> None)"

definition core_ok :: "'w core \<Rightarrow> bool" where
  "core_ok c \<longleftrightarrow> apps_ok c \<and> holdings_ok c"

lemma gui_ok_cong:
  "ar_document r' = ar_document r \<Longrightarrow> am_id (ar_manifest r') = am_id (ar_manifest r) \<Longrightarrow> ar_id r' = ar_id r \<Longrightarrow>
   ar_registered_images r' = ar_registered_images r \<Longrightarrow> ar_registered_fonts r' = ar_registered_fonts r \<Longrightarrow>
   ar_registered_icon r' = ar_registered_icon r \<Longrightarrow> gui_ok r' g = gui_ok r g"
  by (simp add: gui_ok_def)

text \<open>An update of one record that keeps what the invariant speaks of.\<close>

definition calm_update :: "(app_record \<Rightarrow> app_record) \<Rightarrow> bool" where
  "calm_update f \<longleftrightarrow>
     (\<forall>r. ar_document (f r) = ar_document r \<and> am_id (ar_manifest (f r)) = am_id (ar_manifest r) \<and> ar_id (f r) = ar_id r \<and>
        ar_kind (f r) = ar_kind r \<and> ar_native (f r) = ar_native r \<and>
        ar_registered_images (f r) = ar_registered_images r \<and> ar_registered_fonts (f r) = ar_registered_fonts r \<and>
        ar_registered_icon (f r) = ar_registered_icon r)"

lemma calm_updates [simp]:
  "calm_update (set_state st)" "calm_update (set_error e)" "calm_update (\<lambda>r. set_error e (set_state st r))"
  "calm_update (\<lambda>r. r\<lparr>ar_timers := f (ar_timers r)\<rparr>)" "calm_update (\<lambda>r. r\<lparr>ar_timers := []\<rparr>)"
  "calm_update (\<lambda>r. r\<lparr>ar_runtime_started := b\<rparr>)" "calm_update (\<lambda>r. r\<lparr>ar_runtime := k, ar_runtime_loaded := l\<rparr>)"
  "calm_update (\<lambda>r. r\<lparr>ar_runtime := k, ar_runtime_loaded := l, ar_runtime_started := b\<rparr>)"
  by (simp_all add: calm_update_def set_state_def set_error_def)

lemma holdings_update:
  assumes "holdings_ok c" "map_of (co_apps c) i = Some r" "calm_update f"
  shows "holdings_ok (c\<lparr>co_apps := smap_put i (f r) (co_apps c)\<rparr>)"
proof -
  have "document_at (c\<lparr>co_apps := smap_put i (f r) (co_apps c)\<rparr>) = document_at c"
    using assms(2,3) by (auto simp: document_at_def calm_update_def fun_eq_iff)
  moreover have "gui_ok (f r) (co_gui c)" using assms gui_ok_cong [of "f r" r] by (simp add: holdings_ok_def calm_update_def)
  ultimately show ?thesis using assms(1) by (auto simp: holdings_ok_def split: if_splits)
qed

lemma core_ok_fields [simp]:
  "apps_ok (c\<lparr>co_gui := g\<rparr>) = apps_ok c"
  "core_ok (c\<lparr>co_dialogs := d\<rparr>) = core_ok c" "core_ok (c\<lparr>co_tasks := ts\<rparr>) = core_ok c"
  "core_ok (c\<lparr>co_pending := ps\<rparr>) = core_ok c" "core_ok (c\<lparr>co_jobs := js\<rparr>) = core_ok c"
  "core_ok (c\<lparr>co_removed := rs\<rparr>) = core_ok c" "core_ok (c\<lparr>co_manifests := ms\<rparr>) = core_ok c"
  "core_ok (c\<lparr>co_runtime_ready := b\<rparr>) = core_ok c"
  by (simp_all add: core_ok_def apps_ok_def holdings_ok_def document_at_def [abs_def])

lemma apps_okI:
  assumes "\<And>i r. map_of (co_apps c) i = Some r \<Longrightarrow> ar_id r = i \<and> i \<noteq> 0 \<and> i < co_next c \<and>
      map_of (co_ids c) (am_id (ar_manifest r)) = Some i \<and> (ar_runtime r \<noteq> None) = ar_runtime_loaded r"
    "\<And>m i. map_of (co_ids c) m = Some i \<Longrightarrow> \<exists>r. map_of (co_apps c) i = Some r \<and> am_id (ar_manifest r) = m"
    "co_active c = 0 \<or> map_of (co_apps c) (co_active c) \<noteq> None" "0 < co_next c"
    "\<And>k i. map_of (co_owner_of c) k = Some i \<Longrightarrow> \<exists>r. map_of (co_apps c) i = Some r \<and> ar_runtime r = Some k"
  shows "apps_ok c"
  using assms unfolding apps_ok_def by blast

lemma apps_okD:
  assumes "apps_ok c"
  shows "map_of (co_apps c) i = Some r \<Longrightarrow> ar_id r = i \<and> i \<noteq> 0 \<and> i < co_next c \<and>
      map_of (co_ids c) (am_id (ar_manifest r)) = Some i \<and> (ar_runtime r \<noteq> None) = ar_runtime_loaded r"
    "map_of (co_ids c) m = Some i \<Longrightarrow> \<exists>r. map_of (co_apps c) i = Some r \<and> am_id (ar_manifest r) = m"
    "co_active c = 0 \<or> map_of (co_apps c) (co_active c) \<noteq> None" "0 < co_next c"
    "map_of (co_owner_of c) k = Some i \<Longrightarrow> \<exists>r. map_of (co_apps c) i = Some r \<and> ar_runtime r = Some k"
  using assms unfolding apps_ok_def by blast+

lemma apps_put:
  assumes "apps_ok c" "map_of (co_apps c) i = Some r" "ar_id r' = ar_id r" "am_id (ar_manifest r') = am_id (ar_manifest r)"
    "ar_runtime r' = ar_runtime r" "ar_runtime_loaded r' = ar_runtime_loaded r"
  shows "apps_ok (c\<lparr>co_apps := smap_put i r' (co_apps c)\<rparr>)"
proof -
  note a = assms(1) [unfolded apps_ok_def]
  have one: "ar_id q = j \<and> j \<noteq> 0 \<and> j < co_next c \<and> map_of (co_ids c) (am_id (ar_manifest q)) = Some j \<and> (ar_runtime q \<noteq> None) = ar_runtime_loaded q"
    if "((map_of (co_apps c))(i \<mapsto> r')) j = Some q" for j q
    using conjunct1 [OF a, rule_format, of j] assms(2-) that by (cases "j = i") simp_all
  have two: "\<exists>q. ((map_of (co_apps c))(i \<mapsto> r')) j = Some q \<and> am_id (ar_manifest q) = m" if h: "map_of (co_ids c) m = Some j" for j m
  proof -
    obtain q where "map_of (co_apps c) j = Some q" "am_id (ar_manifest q) = m" using a h by blast
    then show ?thesis using assms(2,4) by (cases "j = i") simp_all
  qed
  have three: "\<exists>q. ((map_of (co_apps c))(i \<mapsto> r')) j = Some q \<and> ar_runtime q = Some k" if h: "map_of (co_owner_of c) k = Some j" for j k
  proof -
    obtain q where "map_of (co_apps c) j = Some q" "ar_runtime q = Some k" using a h by blast
    then show ?thesis using assms(2,5) by (cases "j = i") simp_all
  qed
  have "co_active c = 0 \<or> ((map_of (co_apps c))(i \<mapsto> r')) (co_active c) \<noteq> None" "0 < co_next c" using a by auto
  then show ?thesis using one two three by (intro apps_okI) (simp_all del: fun_upd_apply)
qed

lemma apps_update:
  assumes "apps_ok c" "map_of (co_apps c) i = Some r" "calm_update f"
    "ar_runtime (f r) = ar_runtime r" "ar_runtime_loaded (f r) = ar_runtime_loaded r"
  shows "apps_ok (c\<lparr>co_apps := smap_put i (f r) (co_apps c)\<rparr>)"
  using apps_put [OF assms(1,2), of "f r"] assms(3-) by (simp add: calm_update_def)

section \<open>GUI tasks\<close>

lemma others_keep_gui:
  assumes "gui_ok q g" "gui_ok r' g'" "gui_frame r g r' g'" "ar_id q \<noteq> ar_id r"
    "set_option (ar_document q) \<inter> set_option (ar_document r) = {}"
  shows "gui_ok q g'"
proof -
  have "set_option (ar_document q) \<subseteq> live_documents (gs_calls g')"
    using assms(1,3,5) unfolding gui_ok_def gui_frame_def by blast
  then show ?thesis using assms(1-4) by (simp add: gui_ok_def gui_frame_def)
qed

lemma ran_document_at:
  "ran (document_at c) - set_option (document_at c i) \<subseteq> {d. \<exists>j. j \<noteq> i \<and> document_at c j = Some d}"
  by (auto simp: ran_def)

lemma others_documents:
  "inj_on (document_at c) (dom (document_at c)) \<Longrightarrow>
   {d. \<exists>j. j \<noteq> i \<and> document_at c j = Some d} = ran (document_at c) - set_option (document_at c i)"
  by (auto simp: ran_def inj_on_def dom_def)

lemma gui_task_holdings:
  assumes "holdings_ok c" "map_of (co_apps c) i = Some r" "ar_id r = i" "\<And>j q. map_of (co_apps c) j = Some q \<Longrightarrow> ar_id q = j"
    "gui_keeps r (co_gui c) r' g'"
  shows "holdings_ok (c\<lparr>co_apps := smap_put i r' (co_apps c), co_gui := g'\<rparr>)"
proof -
  let ?c = "c\<lparr>co_apps := smap_put i r' (co_apps c), co_gui := g'\<rparr>"
  let ?g = "co_gui c"
  have r: "gui_ok r ?g" "gui_ok r' g'" "gui_frame r ?g r' g'" using assms(1,2,5) by (auto simp: holdings_ok_def gui_keeps_def)
  have inj: "inj_on (document_at c) (dom (document_at c))" and live: "live_documents (gs_calls ?g) = ran (document_at c)"
    using assms(1) by (simp_all add: holdings_ok_def)
  have di: "document_at c i = ar_document r" "document_at ?c i = ar_document r'" using assms(2) by (simp_all add: document_at_def)
  have dj: "document_at ?c j = document_at c j" if "j \<noteq> i" for j using that by (simp add: document_at_def)
  have other: "{d. \<exists>j. j \<noteq> i \<and> document_at c j = Some d} = live_documents (gs_calls g') - set_option (ar_document r')"
    using others_documents [OF inj, of i] r(3) by (simp add: di live gui_frame_def)
  have "ran (document_at ?c) = {d. \<exists>j. j \<noteq> i \<and> document_at c j = Some d} \<union> set_option (ar_document r')"
    using dj di(2) by (auto simp: ran_def) metis+
  then have live': "live_documents (gs_calls g') = ran (document_at ?c)"
    using other r(2) by (auto simp: gui_ok_def)
  have inj': "inj_on (document_at ?c) (dom (document_at ?c))"
  proof (rule inj_onI)
    fix j k assume jk: "j \<in> dom (document_at ?c)" "document_at ?c j = document_at ?c k"
    then obtain d where d: "document_at ?c j = Some d" "document_at ?c k = Some d" by (metis domD)
    have away: "document_at ?c l \<noteq> Some d" if "ar_document r' = Some d" "l \<noteq> i" for l
      using other that dj [of l] by auto
    show "j = k"
    proof (cases "j = i \<or> k = i")
      case True
      then have "ar_document r' = Some d" using d di(2) by metis
      then show ?thesis using away d by metis
    next
      case False
      then show ?thesis using inj d dj [of j] dj [of k] by (auto simp: inj_on_def dom_def)
    qed
  qed
  have ok: "gui_ok q g'" if q: "map_of (co_apps c) j = Some q" "j \<noteq> i" for j q
  proof (rule others_keep_gui [OF _ r(2,3)])
    show "gui_ok q ?g" using assms(1) q by (simp add: holdings_ok_def)
    show "ar_id q \<noteq> ar_id r" using assms(3) assms(4) [OF q(1)] q(2) by simp
    have "document_at c j = ar_document q" using q by (simp add: document_at_def)
    then show "set_option (ar_document q) \<inter> set_option (ar_document r) = {}"
      using inj di(1) q(2) by (auto simp: inj_on_def dom_def)
  qed
  have "map_of (co_apps ?c) j \<noteq> None" if "owned_images j g' \<noteq> {} \<or> owned_fonts j g' \<noteq> {}" for j
  proof (cases "j = i")
    case False
    then have "owned_images j ?g \<noteq> {} \<or> owned_fonts j ?g \<noteq> {}"
      using that r(3) assms(3) by (auto simp: owned_images_def owned_fonts_def gui_frame_def)
    then show ?thesis using assms(1) False by (simp add: holdings_ok_def)
  qed simp
  then show ?thesis using ok r(2) live' inj' by (auto simp: holdings_ok_def gui_ok_def [of r'])
qed

text \<open>A GUI task on an installed app keeps the invariant, and the app.\<close>

definition gui_operation :: "(app_record \<Rightarrow> gui_state \<Rightarrow> unit expected \<times> app_record \<times> gui_state) \<Rightarrow> bool" where
  "gui_operation f \<longleftrightarrow> (\<forall>r g x r' g'. f r g = (x, r', g') \<longrightarrow> gui_keeps r g r' g')"

lemma gui_task_ok:
  assumes "core_ok (rt_world s)" "gui_operation f" "gui_task env m f i s = (x, s')"
  shows "core_ok (rt_world s')"
proof (cases "app_of i s")
  case (Some r)
  let ?c = "rt_world s"
  obtain y r' g' where f: "f r (co_gui ?c) = (y, r', g')" by (metis surj_pair)
  have k: "gui_keeps r (co_gui ?c) r' g'" using assms(2) f unfolding gui_operation_def by blast
  have a: "map_of (co_apps ?c) i = Some r" using Some by (simp add: app_of_def)
  have ids: "\<And>j q. map_of (co_apps ?c) j = Some q \<Longrightarrow> ar_id q = j" using assms(1) by (simp add: core_ok_def apps_ok_def)
  have h: "holdings_ok (?c\<lparr>co_apps := smap_put i r' (co_apps ?c), co_gui := g'\<rparr>)"
    using gui_task_holdings [OF _ a ids [OF a] ids k] assms(1) by (simp add: core_ok_def)
  have "gui_ok r (co_gui ?c)" using assms(1) a by (simp add: core_ok_def holdings_ok_def)
  then have fr: "gui_frame r (co_gui ?c) r' g'" using k by (simp add: gui_keeps_def)
  have "apps_ok (?c\<lparr>co_apps := smap_put i r' (co_apps ?c), co_gui := g'\<rparr>)"
    using apps_put [OF _ a, of r'] assms(1) fr by (simp add: core_ok_def gui_frame_def)
  then show ?thesis using assms(1,3) h f Some by (auto simp: gui_task_def on_core_def core_ok_def split: if_splits)
qed (use assms in \<open>auto simp: gui_task_def split: if_splits\<close>)

section \<open>Code outside the manager\<close>

text \<open>What is assumed of the code that may call the system again: it keeps the invariant, as the system's own
  calls do, and does not remove the app it runs for.\<close>

definition has_app :: "u32 \<Rightarrow> string \<Rightarrow> 'w core \<Rightarrow> bool" where
  "has_app i m c \<longleftrightarrow> (\<exists>r. map_of (co_apps c) i = Some r \<and> am_id (ar_manifest r) = m)"

definition core_keeps :: "('w core \<Rightarrow> 'w core) \<Rightarrow> bool" where
  "core_keeps f \<longleftrightarrow> (\<forall>c. core_ok c \<longrightarrow> core_ok (f c) \<and> (\<forall>i m. has_app i m c \<longrightarrow> has_app i m (f c)))"

definition bridge_keeps :: "('w core \<times> bridge \<Rightarrow> 'r \<times> 'w core \<times> bridge) \<Rightarrow> bool" where
  "bridge_keeps f \<longleftrightarrow> (\<forall>b. core_keeps (\<lambda>c. fst (snd (f (c, b)))))"

text \<open>Loading and unloading a script does not load or unload another.\<close>

definition steady :: "('w core \<times> bridge \<Rightarrow> 'r \<times> 'w core \<times> bridge) \<Rightarrow> bool" where
  "steady f \<longleftrightarrow> (\<forall>c b i. map_option ar_runtime (map_of (co_apps (fst (snd (f (c, b))))) i) = map_option ar_runtime (map_of (co_apps c) i))"

definition good_backend :: "'w core backend \<Rightarrow> bool" where
  "good_backend b \<longleftrightarrow>
     (\<forall>ms. core_keeps (bk_set_native_modules b ms) \<and> (\<forall>c i. map_option ar_runtime (map_of (co_apps (bk_set_native_modules b ms c)) i) = map_option ar_runtime (map_of (co_apps c) i))) \<and>
     bridge_keeps (bk_init b) \<and> bridge_keeps (\<lambda>s. ((), bk_deinit b s)) \<and>
     (\<forall>k config. bridge_keeps (bk_load_app b k config) \<and> steady (bk_load_app b k config)) \<and>
     (\<forall>k. bridge_keeps (bk_unload_app b k) \<and> steady (bk_unload_app b k)) \<and>
     (\<forall>k. bridge_keeps (bk_start_app b k)) \<and> (\<forall>k. bridge_keeps (bk_stop_app b k)) \<and>
     (\<forall>k m f args. bridge_keeps (bk_call_function b k m f args))"

definition sys_inv :: "'w sys \<Rightarrow> bool" where
  "sys_inv s \<longleftrightarrow> core_ok (rt_world s) \<and> (\<forall>t b. (t, b) \<in> set (rt_backends s) \<longrightarrow> good_backend b)"

definition sys_ok :: "u32 \<Rightarrow> string \<Rightarrow> 'w sys \<Rightarrow> bool" where
  "sys_ok i m s \<longleftrightarrow> sys_inv s \<and> has_app i m (rt_world s)"

text \<open>Operations of the runtime manager on the same backends.\<close>

lemma world_keeps:
  assumes "sys_ok i m s" "core_keeps f" "rt_backends s' = rt_backends s" "rt_world s' = f (rt_world s)"
  shows "sys_ok i m s'"
  using assms by (simp add: sys_ok_def sys_inv_def core_keeps_def)

lemma core_keeps_id [simp]: "core_keeps (\<lambda>c. c)"
  by (simp add: core_keeps_def)

lemma same_world: "sys_ok i m s \<Longrightarrow> rt_backends s' = rt_backends s \<Longrightarrow> rt_world s' = rt_world s \<Longrightarrow> sys_ok i m s'"
  by (rule world_keeps [of i m s "\<lambda>c. c"]) simp_all

lemma sys_ok_kept: "sys_ok i m s = kept (\<lambda>c. core_ok c \<and> has_app i m c) good_backend s"
  by (auto simp: sys_ok_def sys_inv_def kept_def)

lemma good_backendD:
  assumes "good_backend b"
  shows "bridge_keeps (bk_init b)" "bridge_keeps (bk_load_app b k config)"
    "bridge_keeps (bk_unload_app b k)" "bridge_keeps (bk_start_app b k)" "bridge_keeps (bk_stop_app b k)"
    "bridge_keeps (bk_call_function b k md f args)" "core_keeps (bk_set_native_modules b ms)"
    "steady (bk_load_app b k config)" "steady (bk_unload_app b k)"
    "map_option ar_runtime (map_of (co_apps (bk_set_native_modules b ms c)) i) = map_option ar_runtime (map_of (co_apps c) i)"
  using assms by (simp_all add: good_backend_def)

lemma bridge_keepsD: "bridge_keeps f \<Longrightarrow> core_ok c \<and> has_app i m c \<Longrightarrow> core_ok (fst (snd (f (c, b)))) \<and> has_app i m (fst (snd (f (c, b))))"
  by (simp add: bridge_keeps_def core_keeps_def)

interpretation own: script_law "\<lambda>c. core_ok c \<and> has_app i m c" good_backend for i m
  by unfold_locales (rule bridge_keepsD; (erule good_backendD)?; blast | simp add: good_backend_def core_keeps_def)+

text \<open>Loading and unloading leave the scripts of all records as they are.\<close>

interpretation scripts: load_law "\<lambda>c. map_option ar_runtime (map_of (co_apps c) j) = v" good_backend for j v
  by unfold_locales (simp_all add: good_backend_def steady_def)

definition same_scripts :: "'w sys \<Rightarrow> 'w sys \<Rightarrow> bool" where
  "same_scripts s s' \<longleftrightarrow> (\<forall>i. map_option ar_runtime (app_of i s') = map_option ar_runtime (app_of i s))"

lemma rt_start_keeps: "sys_ok i m s \<Longrightarrow> rt_start_app k s = (x, s') \<Longrightarrow> sys_ok i m s'"
  using own.rt_start_kept unfolding sys_ok_kept by blast

lemma rt_call_keeps: "sys_ok i m s \<Longrightarrow> rt_call_function k md f args s = (x, s') \<Longrightarrow> sys_ok i m s'"
  using own.rt_call_kept unfolding sys_ok_kept by blast

lemma rt_stop_keeps: "sys_ok i m s \<Longrightarrow> rt_stop_app k s = (x, s') \<Longrightarrow> sys_ok i m s'"
  using own.rt_stop_kept unfolding sys_ok_kept by blast

lemma same_scriptsI:
  assumes "\<And>j v. kept (\<lambda>c. map_option ar_runtime (map_of (co_apps c) j) = v) good_backend s \<Longrightarrow>
      kept (\<lambda>c. map_option ar_runtime (map_of (co_apps c) j) = v) good_backend s'" "sys_ok i m s"
  shows "same_scripts s s'"
  using assms by (simp add: same_scripts_def kept_def app_of_def sys_ok_def sys_inv_def)

lemma rt_load_keeps:
  assumes "sys_ok i m s" "rt_load_app config s = (x, s')"
  shows "sys_ok i m s' \<and> same_scripts s s'"
  using own.rt_load_kept [OF assms(1) [unfolded sys_ok_kept] assms(2)]
    same_scriptsI [OF scripts.rt_load_kept [OF _ assms(2)] assms(1)] by (simp add: sys_ok_kept)

lemma rt_unload_keeps:
  assumes "sys_ok i m s" "rt_unload_app k s = (x, s')"
  shows "sys_ok i m s' \<and> same_scripts s s'"
  using own.rt_unload_kept [OF assms(1) [unfolded sys_ok_kept] assms(2)]
    same_scriptsI [OF scripts.rt_unload_kept [OF _ assms(2)] assms(1)] by (simp add: sys_ok_kept)

lemma rt_init_keeps:
  assumes "rt_init plugins providers s = (x, s')" "sys_ok i m s" "\<forall>n b. (n, Some b) \<in> set plugins \<longrightarrow> good_backend b"
  shows "sys_ok i m s'"
  using own.rt_init_kept [OF assms(1) assms(2) [unfolded sys_ok_kept] assms(3)] by (simp add: sys_ok_kept)

section \<open>The environment\<close>

text \<open>An app that does not run, and an id and a name that are free.\<close>

definition idle :: "u32 \<Rightarrow> 'w sys \<Rightarrow> bool" where
  "idle i s \<longleftrightarrow> Option.bind (app_of i s) ar_runtime = None \<and> co_active (rt_world s) \<noteq> i"

definition free_app :: "u32 \<Rightarrow> string \<Rightarrow> 'w sys \<Rightarrow> bool" where
  "free_app i m s \<longleftrightarrow> sys_inv s \<and> map_of (co_apps (rt_world s)) i = None \<and> map_of (co_ids (rt_world s)) m = None \<and>
     i \<noteq> 0 \<and> i < co_next (rt_world s)"

text \<open>The hook for an installation does not start the app, and a native app does not install apps while it is
  being installed.\<close>

definition env_ok :: "'w sys_env \<Rightarrow> bool" where
  "env_ok env \<longleftrightarrow>
     (\<forall>i m p h j. keeps (sys_ok i m) (perform (se_native env p h j))) \<and>
     (\<forall>i m h info. keeps (sys_ok i m) (perform (se_shell env h info))) \<and>
     (\<forall>h info. keeps sys_inv (perform (se_shell env h info))) \<and>
     (\<forall>i m info. keeps (\<lambda>s. sys_ok i m s \<and> idle i s) (perform (se_shell env AppInstalled info))) \<and>
     (\<forall>i m p. keeps (free_app i m) (perform (se_native env p OnInstall i))) \<and>
     (\<forall>i m j. keeps (sys_ok i m) (modify (se_hide_loading env j))) \<and>
     (\<forall>i m j. keeps (sys_ok i m) (perform (se_show_transition env j))) \<and>
     (\<forall>i m v. keeps (sys_ok i m) (modify (se_hide_transition env v))) \<and>
     (\<forall>i m k. keeps (sys_ok i m) (modify (se_release_dataflow env k))) \<and>
     (\<forall>n b. (n, Some b) \<in> set (se_backends env) \<longrightarrow> good_backend b) \<and>
     fresh_documents (se_gui env) \<and> ge_available (se_gui env) \<and> (\<forall>calls. se_gui_post env calls)"

section \<open>The manager's own updates\<close>

lemma on_core_keeps:
  assumes "sys_ok i m s" "core_keeps f"
  shows "sys_ok i m (on_core f s)"
  by (rule world_keeps [OF assms]) (simp_all add: on_core_def)

lemma core_keeps_fields:
  assumes "\<And>c. co_apps (f c) = co_apps c" "\<And>c. core_ok (f c) = core_ok c"
  shows "core_keeps f"
  using assms by (simp add: core_keeps_def has_app_def)

lemma upd_app_keeps:
  assumes "sys_ok i m s" "calm_update f" "\<And>r. ar_runtime (f r) = ar_runtime r \<and> ar_runtime_loaded (f r) = ar_runtime_loaded r"
  shows "sys_ok i m (upd_app j f s)"
proof (cases "app_of j s")
  case (Some r)
  let ?c = "rt_world s"
  have a: "map_of (co_apps ?c) j = Some r" using Some by (simp add: app_of_def)
  have "core_ok (?c\<lparr>co_apps := smap_put j (f r) (co_apps ?c)\<rparr>)"
    using assms apps_update [OF _ a] holdings_update [OF _ a] by (simp add: sys_ok_def sys_inv_def core_ok_def)
  moreover have "has_app i m (?c\<lparr>co_apps := smap_put j (f r) (co_apps ?c)\<rparr>)"
    using assms(1,2) a by (auto simp: sys_ok_def has_app_def calm_update_def)
  ultimately show ?thesis using assms(1) Some by (simp add: upd_app_def on_core_def sys_ok_def sys_inv_def)
qed (use assms in \<open>simp add: upd_app_def\<close>)

lemma set_active_keeps: "sys_ok i m s \<Longrightarrow> sys_ok i m (set_active i s)"
  by (auto simp: sys_ok_def sys_inv_def set_active_def on_core_def core_ok_def apps_ok_def holdings_ok_def has_app_def document_at_def [abs_def])

lemma clear_active_keeps: "sys_ok i m s \<Longrightarrow> sys_ok i m (clear_active j s)"
  by (auto simp: sys_ok_def sys_inv_def clear_active_def on_core_def core_ok_def apps_ok_def holdings_ok_def has_app_def document_at_def [abs_def])

lemma with_dialogs_keeps: "sys_ok i m s \<Longrightarrow> sys_ok i m (snd (with_dialogs f s))"
  by (simp add: with_dialogs_def sys_ok_def sys_inv_def on_core_def has_app_def split: prod.split)

lemma gui_task_keeps:
  assumes "sys_ok i m s" "gui_operation f" "gui_task env msg f j s = (x, s')"
  shows "sys_ok i m s'"
proof -
  have c: "core_ok (rt_world s')" using gui_task_ok [OF _ assms(2,3)] assms(1) by (simp add: sys_ok_def sys_inv_def)
  have "has_app i m (rt_world s')"
  proof (cases "app_of j s")
    case (Some r)
    obtain y r' g' where f: "f r (co_gui (rt_world s)) = (y, r', g')" by (metis surj_pair)
    have "gui_ok r (co_gui (rt_world s))" using assms(1) Some by (simp add: sys_ok_def sys_inv_def core_ok_def holdings_ok_def app_of_def)
    then have "am_id (ar_manifest r') = am_id (ar_manifest r)"
      using assms(2) f unfolding gui_operation_def gui_keeps_def gui_frame_def by blast
    then show ?thesis using assms(1,3) Some f
      by (auto simp: gui_task_def on_core_def sys_ok_def has_app_def app_of_def split: if_splits)
  qed (use assms in \<open>auto simp: gui_task_def sys_ok_def split: if_splits\<close>)
  moreover have "rt_backends s' = rt_backends s"
    using assms(3) by (auto simp: gui_task_def on_core_def split: if_splits option.splits prod.splits)
  ultimately show ?thesis using c assms(1) by (simp add: sys_ok_def sys_inv_def)
qed

lemma gui_operations:
  assumes "env_ok env"
  shows "gui_operation (prepare_app_gui (se_gui env))" "gui_operation (prepare_installed_app_gui (se_gui env))"
    "gui_operation (quietly (cleanup_stopped_app_gui (se_gui env)))" "gui_operation (quietly (rollback_installed_app_gui (se_gui env)))"
    "gui_operation (quietly (\<lambda>r g. unload_app_gui (se_gui env) r (clear_gui_bindings (ar_id r) g)))"
    "gui_operation (quietly (\<lambda>r g. rollback_installed_app_gui (se_gui env) r (clear_gui_bindings (ar_id r) g)))"
proof -
  have e: "fresh_documents (se_gui env)" "ge_available (se_gui env)" using assms by (simp_all add: env_ok_def)
  have c: "gui_keeps r g r' g'" if "gui_keeps r (clear_gui_bindings (ar_id r) g) r' g'" for r g r' g'
    using gui_keeps_trans [OF same_holdings_keeps [OF clear_bindings_holdings] that] .
  show "gui_operation (prepare_app_gui (se_gui env))" "gui_operation (prepare_installed_app_gui (se_gui env))"
    "gui_operation (quietly (cleanup_stopped_app_gui (se_gui env)))" "gui_operation (quietly (rollback_installed_app_gui (se_gui env)))"
    using prepare_app_gui_keeps [OF _ e] prepare_installed_keeps [OF _ e(1)] cleanup_stopped_keeps [OF _ e(2)] rollback_keeps [OF _ e(2)]
    unfolding gui_operation_def quietly_def by blast+
  show "gui_operation (quietly (\<lambda>r g. unload_app_gui (se_gui env) r (clear_gui_bindings (ar_id r) g)))"
    using unload_app_gui_keeps [OF _ e(2)] c unfolding gui_operation_def quietly_def by blast
  show "gui_operation (quietly (\<lambda>r g. rollback_installed_app_gui (se_gui env) r (clear_gui_bindings (ar_id r) g)))"
    using rollback_keeps [OF _ e(2)] c unfolding gui_operation_def quietly_def by blast
qed

section \<open>Scripts keep the invariant\<close>

lemma call_lifecycle_keeps: "sys_ok i m s \<Longrightarrow> call_runtime_lifecycle j f args s = (x, s') \<Longrightarrow> sys_ok i m s'"
  using rt_call_keeps [of i m s _ app_module_name f args]
  by (auto simp: call_runtime_lifecycle_def split: option.splits sum.splits prod.splits)

lemma ensure_initialized_keeps:
  assumes "sys_ok i m s" "env_ok env" "ensure_runtime_initialized env s = (x, s')"
  shows "sys_ok i m s'"
proof -
  obtain y s1 where y: "rt_init (se_backends env) (se_providers env) s = (y, s1)" by force
  have "sys_ok i m s1" using rt_init_keeps [OF y assms(1)] assms(2) by (simp add: env_ok_def)
  moreover from this have "sys_ok i m (on_core (\<lambda>c. c\<lparr>co_runtime_ready := True\<rparr>) s1)"
    by (rule on_core_keeps) (rule core_keeps_fields, simp_all)
  ultimately show ?thesis using assms(1,3) y by (auto simp: ensure_runtime_initialized_def split: if_splits sum.splits)
qed

lemma register_runtime_keeps:
  assumes "sys_ok i m s" "app_of j s = Some q" "ar_runtime q = None"
  shows "sys_ok i m (register_runtime j k r s)"
proof -
  let ?c = "rt_world s"
  let ?c1 = "?c\<lparr>co_manifests := smap_put k (ar_manifest r) (co_manifests ?c), co_owner_of := smap_emplace k j (co_owner_of ?c)\<rparr>"
  let ?q = "q\<lparr>ar_runtime := Some k, ar_runtime_loaded := True\<rparr>"
  let ?c2 = "?c1\<lparr>co_apps := smap_put j ?q (co_apps ?c)\<rparr>"
  have a: "map_of (co_apps ?c) j = Some q" using assms(2) by (simp add: app_of_def)
  have ok: "apps_ok ?c" "holdings_ok ?c" using assms(1) by (simp_all add: sys_ok_def sys_inv_def core_ok_def)
  note A = apps_okD [OF ok(1)]
  have "apps_ok ?c2"
  proof (rule apps_okI)
    fix i' r' assume "map_of (co_apps ?c2) i' = Some r'"
    then show "ar_id r' = i' \<and> i' \<noteq> 0 \<and> i' < co_next ?c2 \<and> map_of (co_ids ?c2) (am_id (ar_manifest r')) = Some i' \<and>
        (ar_runtime r' \<noteq> None) = ar_runtime_loaded r'"
      using A(1) [of i'] a by (auto split: if_splits)
  next
    fix m' i' assume "map_of (co_ids ?c2) m' = Some i'"
    then show "\<exists>r. map_of (co_apps ?c2) i' = Some r \<and> am_id (ar_manifest r) = m'" using A(2) [of m' i'] a by auto
  next
    show "co_active ?c2 = 0 \<or> map_of (co_apps ?c2) (co_active ?c2) \<noteq> None" "0 < co_next ?c2" using A(3,4) by auto
  next
    fix k' i' assume k': "map_of (co_owner_of ?c2) k' = Some i'"
    have old: "i' \<noteq> j" if "map_of (co_owner_of ?c) k' = Some i'" using A(5) [OF that] a assms(3) by auto
    show "\<exists>r. map_of (co_apps ?c2) i' = Some r \<and> ar_runtime r = Some k'"
    proof (cases "map_of (co_owner_of ?c) k' = Some i'")
      case True
      then show ?thesis using A(5) [OF True] old by auto
    next
      case False
      then have "k' = k" "i' = j" using k' by (auto simp: map_of_emplace split: if_splits)
      then show ?thesis by simp
    qed
  qed
  moreover have "holdings_ok ?c2"
    using holdings_update [OF ok(2) a, of "\<lambda>r. r\<lparr>ar_runtime := Some k, ar_runtime_loaded := True\<rparr>"]
    by (simp add: holdings_ok_def document_at_def [abs_def])
  moreover have "has_app i m ?c2" using assms(1) a by (auto simp: sys_ok_def has_app_def)
  moreover have "rt_world (register_runtime j k r s) = ?c2"
    using a by (simp add: register_runtime_def upd_app_def on_core_def app_of_def)
  moreover have "rt_backends (register_runtime j k r s) = rt_backends s"
    by (simp add: register_runtime_def upd_app_def on_core_def split: option.split)
  ultimately show ?thesis using assms(1) by (simp add: sys_ok_def sys_inv_def core_ok_def)
qed

lemma ensure_loaded_keeps:
  assumes "sys_ok i m s" "env_ok env" "ensure_runtime_loaded env j s = (x, s')"
  shows "sys_ok i m s'"
proof -
  obtain y s1 where y: "ensure_runtime_initialized env s = (y, s1)" by force
  have 1: "sys_ok i m s1" using ensure_initialized_keeps [OF assms(1,2) y] .
  have "sys_ok i m s2" if l: "app_of j s1 = Some q" "load_runtime j q s1 = (z, s2)" for q z s2
  proof (cases "\<not> ar_runtime_loaded q \<and> (\<exists>config. make_runtime_app_config (ar_manifest q) = Inr config)")
    case True
    then obtain config where c: "make_runtime_app_config (ar_manifest q) = Inr config" by blast
    obtain w s3 where w: "rt_load_app config s1 = (w, s3)" by force
    note k = rt_load_keeps [OF 1 w]
    have "ar_runtime q = None"
      using 1 l(1) True unfolding sys_ok_def sys_inv_def core_ok_def app_of_def by (metis apps_okD(1))
    then obtain q' where "app_of j s3 = Some q'" "ar_runtime q' = None"
      using k l(1) unfolding same_scripts_def by (metis (no_types, lifting) map_option_eq_Some option.simps(9))
    then have "sys_ok i m (register_runtime j k' q s3)" for k' using register_runtime_keeps k by blast
    then show ?thesis using l(2) True c w k by (auto simp: load_runtime_def split: sum.splits)
  qed (use l 1 in \<open>auto simp: load_runtime_def split: sum.splits if_splits\<close>)
  then show ?thesis using assms(1,3) y 1
    by (auto simp: ensure_runtime_loaded_def split: option.splits if_splits sum.splits)
qed

lemma unload_keeps:
  assumes "sys_ok i m s"
  shows "sys_ok i m (unload_runtime j s) \<and> Option.bind (app_of j (unload_runtime j s)) ar_runtime = None"
proof (cases "Option.bind (app_of j s) ar_runtime")
  case (Some k)
  then obtain r where r: "app_of j s = Some r" "ar_runtime r = Some k" by (auto simp: bind_eq_Some_conv)
  obtain y s1 where y: "rt_unload_app k s = (y, s1)" by force
  note u = rt_unload_keeps [OF assms y]
  obtain q where q: "app_of j s1 = Some q" "ar_runtime q = Some k"
    using u r unfolding same_scripts_def by (metis (no_types, lifting) map_option_eq_Some option.simps(9))
  let ?c = "rt_world s1"
  let ?q = "q\<lparr>ar_runtime := None, ar_runtime_loaded := False, ar_runtime_started := False\<rparr>"
  let ?c2 = "?c\<lparr>co_manifests := smap_del k (co_manifests ?c), co_owner_of := smap_del k (co_owner_of ?c), co_apps := smap_put j ?q (co_apps ?c)\<rparr>"
  have a: "map_of (co_apps ?c) j = Some q" using q by (simp add: app_of_def)
  have ok: "apps_ok ?c" "holdings_ok ?c" using u by (simp_all add: sys_ok_def sys_inv_def core_ok_def)
  note A = apps_okD [OF ok(1)]
  have "apps_ok ?c2"
  proof (rule apps_okI)
    fix i' r' assume "map_of (co_apps ?c2) i' = Some r'"
    then show "ar_id r' = i' \<and> i' \<noteq> 0 \<and> i' < co_next ?c2 \<and> map_of (co_ids ?c2) (am_id (ar_manifest r')) = Some i' \<and>
        (ar_runtime r' \<noteq> None) = ar_runtime_loaded r'"
      using A(1) [of i'] a by (auto split: if_splits)
  next
    fix m' i' assume "map_of (co_ids ?c2) m' = Some i'"
    then show "\<exists>r. map_of (co_apps ?c2) i' = Some r \<and> am_id (ar_manifest r) = m'" using A(2) [of m' i'] a by auto
  next
    show "co_active ?c2 = 0 \<or> map_of (co_apps ?c2) (co_active ?c2) \<noteq> None" "0 < co_next ?c2" using A(3,4) by auto
  next
    fix k' i' assume "map_of (co_owner_of ?c2) k' = Some i'"
    then have k': "map_of (co_owner_of ?c) k' = Some i'" "k' \<noteq> k" by (auto split: if_splits)
    then show "\<exists>r. map_of (co_apps ?c2) i' = Some r \<and> ar_runtime r = Some k'" using A(5) [OF k'(1)] a q(2) by auto
  qed
  moreover have "holdings_ok ?c2"
    using holdings_update [OF ok(2) a, of "\<lambda>r. r\<lparr>ar_runtime := None, ar_runtime_loaded := False, ar_runtime_started := False\<rparr>"]
    by (simp add: holdings_ok_def document_at_def [abs_def])
  moreover have "has_app i m ?c2" using u a by (auto simp: sys_ok_def has_app_def)
  moreover have "unload_runtime j s = s1\<lparr>rt_world := ?c2\<rparr>"
    using Some y q by (simp add: unload_runtime_def upd_app_def on_core_def app_of_def)
  ultimately show ?thesis using u by (simp add: sys_ok_def sys_inv_def core_ok_def app_of_def)
qed (use assms in \<open>simp add: unload_runtime_def\<close>)

section \<open>Every call keeps the invariant\<close>

text \<open>The steps the calls are made of.\<close>

lemma keeps_perform: "(\<And>s x s'. P s \<Longrightarrow> f s = (x, s') \<Longrightarrow> P s') \<Longrightarrow> keeps P (perform f)"
  by (rule valid_perform)

lemma cancel_timers_keeps: "sys_ok i m s \<Longrightarrow> sys_ok i m (cancel_app_timers env j s)"
proof (cases "app_of j s")
  case (Some r)
  assume "sys_ok i m s"
  then have u: "sys_ok i m (upd_app j (\<lambda>r. r\<lparr>ar_timers := []\<rparr>) s)" by (intro upd_app_keeps) simp_all
  have "core_keeps (\<lambda>c. c\<lparr>co_tasks := filter P (co_tasks c), co_pending := filter Q (co_pending c)\<rparr>)" for P Q
    by (rule core_keeps_fields) simp_all
  from on_core_keeps [OF u this] show ?thesis using u Some by (simp add: cancel_app_timers_def Let_def)
qed (simp add: cancel_app_timers_def)

lemma env_okD:
  assumes "env_ok env"
  shows "keeps (sys_ok i m) (perform (se_native env p h j))" "keeps (sys_ok i m) (perform (se_shell env h' info))"
    "keeps sys_inv (perform (se_shell env h' info))" "keeps (sys_ok i m) (modify (se_hide_loading env j))"
    "keeps (sys_ok i m) (perform (se_show_transition env j))" "keeps (sys_ok i m) (modify (se_hide_transition env v))"
    "keeps (sys_ok i m) (modify (se_release_dataflow env k))"
  using assms by (simp_all add: env_ok_def)

lemma keeps_performD: "keeps P (perform f) \<Longrightarrow> P s \<Longrightarrow> f s = (x, s') \<Longrightarrow> P s'"
  by (auto simp: valid_def perform_def)

lemma keeps_modifyD: "keeps P (modify f) \<Longrightarrow> P s \<Longrightarrow> P (f s)"
  by (auto simp: valid_def modify_def)

lemma close_dialogs_keeps: "keeps (sys_ok i m) (close_dialogs env j)"
  by (rule validI) (auto simp: close_dialogs_def sys_ok_def sys_inv_def on_core_def has_app_def split: option.splits)

lemma cleanup_keeps: "env_ok env \<Longrightarrow> keeps (sys_ok i m) (cleanup_app_transient_resources env j)"
  unfolding cleanup_app_transient_resources_def
  by (intro act_intros env_okD close_dialogs_keeps keeps_modify cancel_timers_keeps)
    (auto simp: hide_keyboards_def intro: with_dialogs_keeps)

lemma release_runtime_dataflow_operations_keeps: "env_ok env \<Longrightarrow> keeps (sys_ok i m) (modify (release_runtime_dataflow_operations env j))"
  by (rule keeps_modify) (auto simp: release_runtime_dataflow_operations_def split: option.split intro: keeps_modifyD [OF env_okD(7)])

lemma tell_shell_keeps: "env_ok env \<Longrightarrow> sys_ok i m s \<Longrightarrow> sys_ok i m (tell_shell env h j s)"
  unfolding tell_shell_def run_shell_def
  by (cases "app_of j s") (simp, metis env_okD(2) keeps_performD option.simps(5) prod.collapse)

lemma run_shell_keeps: "env_ok env \<Longrightarrow> keeps (sys_ok i m) (perform (run_shell env h j))"
  by (rule keeps_perform) (auto simp: run_shell_def split: option.splits intro: keeps_performD [OF env_okD(2)])

lemma run_native_hook_keeps: "env_ok env \<Longrightarrow> keeps (sys_ok i m) (perform (run_native_hook env h j r))"
  by (rule keeps_perform) (auto simp: run_native_hook_def split: option.splits intro: keeps_performD [OF env_okD(1)])

lemma lifecycle_dialog_keeps: "sys_ok i m s \<Longrightarrow> sys_ok i m (lifecycle_dialog env j what f e s)"
  by (simp add: lifecycle_dialog_def show_lifecycle_error_dialog_def show_system_dialog_def with_dialogs_keeps split: option.split)

lemma update_keeps:
  "calm_update f \<Longrightarrow> (\<And>r. ar_runtime (f r) = ar_runtime r \<and> ar_runtime_loaded (f r) = ar_runtime_loaded r) \<Longrightarrow>
   keeps (sys_ok i m) (modify (upd_app j f))"
  by (rule keeps_modify) (rule upd_app_keeps)

lemma state_updates [simp]:
  "ar_runtime (set_state st r) = ar_runtime r" "ar_runtime_loaded (set_state st r) = ar_runtime_loaded r"
  "ar_runtime (set_error e r) = ar_runtime r" "ar_runtime_loaded (set_error e r) = ar_runtime_loaded r"
  by (simp_all add: set_state_def set_error_def)

lemma gui_keeps_act: "env_ok env \<Longrightarrow> gui_operation f \<Longrightarrow> keeps (sys_ok i m) (perform (gui_task env msg f j))"
  by (rule keeps_perform) (rule gui_task_keeps)

lemma lifecycle_call_keeps: "keeps (sys_ok i m) (perform (call_runtime_lifecycle j f args))"
  by (rule keeps_perform) (rule call_lifecycle_keeps)

lemma stop_code_keeps: "env_ok env \<Longrightarrow> keeps (sys_ok i m) (stop_app_code env j r)"
  unfolding stop_app_code_def
  by (intro act_intros run_native_hook_keeps lifecycle_call_keeps update_keeps keeps_perform)
    (auto split: option.splits intro: rt_stop_keeps)

lemma stop_failed_keeps: "env_ok env \<Longrightarrow> keeps (sys_ok i m) (stop_failed env j e)"
  unfolding stop_failed_def
  by (intro act_intros update_keeps keeps_modify clear_active_keeps tell_shell_keeps lifecycle_dialog_keeps) simp_all

lemma stop_running_keeps: "env_ok env \<Longrightarrow> keeps (sys_ok i m) (stop_running_app env j r)"
  unfolding stop_running_app_def
  by (intro act_intros update_keeps cleanup_keeps release_runtime_dataflow_operations_keeps stop_code_keeps gui_keeps_act gui_operations stop_failed_keeps)
    (auto intro: keeps_modify clear_active_keeps tell_shell_keeps)

lemma stop_keeps: "env_ok env \<Longrightarrow> keeps (sys_ok i m) (stop_app_now env j)"
  unfolding stop_app_now_def by (intro act_intros cleanup_keeps stop_running_keeps)

lemma start_failed_keeps: "env_ok env \<Longrightarrow> keeps (sys_ok i m) (start_failed env j e)"
  unfolding start_failed_def
  by (intro act_intros update_keeps keeps_modify tell_shell_keeps lifecycle_dialog_keeps) simp_all

lemma start_runtime_keeps: "sys_ok i m s \<Longrightarrow> start_runtime_app j s = (x, s') \<Longrightarrow> sys_ok i m s'"
  by (auto simp: start_runtime_app_def split: option.splits if_splits prod.splits intro!: upd_app_keeps dest: rt_start_keeps)

lemma start_code_keeps: "env_ok env \<Longrightarrow> keeps (sys_ok i m) (start_app_code env j r)"
  unfolding start_app_code_def
  by (intro act_intros run_native_hook_keeps lifecycle_call_keeps keeps_perform)
    (auto intro: start_runtime_keeps ensure_loaded_keeps)

lemma rollback_start_keeps: "env_ok env \<Longrightarrow> keeps (sys_ok i m) (rollback_start env j r)"
  unfolding rollback_start_def
  by (intro act_intros cleanup_keeps release_runtime_dataflow_operations_keeps gui_keeps_act gui_operations keeps_modify)
    (auto simp: unload_keeps)

lemma hook_failed_keeps: "env_ok env \<Longrightarrow> keeps (sys_ok i m) (started_hook_failed env j e)"
  unfolding started_hook_failed_def
  by (intro act_intros stop_keeps update_keeps keeps_modify clear_active_keeps tell_shell_keeps lifecycle_dialog_keeps) simp_all

lemma start_keeps: "env_ok env \<Longrightarrow> keeps (sys_ok i m) (start_app_now env i)"
  unfolding start_app_now_def requirements_failed_def start_checked_app_def start_prepared_app_def
  by (intro act_intros update_keeps env_okD gui_keeps_act gui_operations start_failed_keeps start_code_keeps
      rollback_start_keeps run_shell_keeps hook_failed_keeps keeps_modify set_active_keeps tell_shell_keeps)
    (auto split: option.split simp: show_service_requirement_error_dialog_def show_system_dialog_def intro: with_dialogs_keeps)

lemma pause_code_keeps: "env_ok env \<Longrightarrow> keeps (sys_ok i m) (perform (pause_code env h f j r))"
  using run_native_hook_keeps [of env i m h j r] lifecycle_call_keeps [of i m j f "[]"]
  by (auto simp: valid_def perform_def pause_code_def)

lemma pause_keeps: "env_ok env \<Longrightarrow> keeps (sys_ok i m) (pause_app env i)"
  unfolding pause_app_def change_pause_def on_app_group_def
  by (intro act_intros pause_code_keeps keeps_modify lifecycle_dialog_keeps upd_app_keeps) simp_all

lemma resume_keeps: "env_ok env \<Longrightarrow> keeps (sys_ok i m) (resume_app env i)"
  unfolding resume_app_def change_pause_def on_app_group_def
  by (intro act_intros pause_code_keeps keeps_modify lifecycle_dialog_keeps upd_app_keeps set_active_keeps) simp_all

lemma native_or_script_keeps:
  assumes "env_ok env" "sys_ok i m s" "native_or_script env h f args j r s = (x, s')"
  shows "sys_ok i m s'"
  using assms keeps_performD [OF run_native_hook_keeps [OF assms(1)] assms(2)] call_lifecycle_keeps [OF assms(2)]
  by (auto simp: native_or_script_def split: if_splits)

lemma dispatch_keeps:
  assumes "env_ok env" "sys_ok i m s"
  shows "dispatch_action env j a p v s = (x, s') \<Longrightarrow> sys_ok i m s'"
    "dispatch_event j a p v s = (x, s') \<Longrightarrow> sys_ok i m s'"
    "dispatch_timer env j t p s = (x, s') \<Longrightarrow> sys_ok i m s'"
proof -
  show "dispatch_action env j a p v s = (x, s') \<Longrightarrow> sys_ok i m s'"
    using native_or_script_keeps [OF assms] assms(2) by (auto simp: dispatch_action_def split: sum.splits)
  show "dispatch_event j a p v s = (x, s') \<Longrightarrow> sys_ok i m s'"
    using call_lifecycle_keeps [OF assms(2)] assms(2) by (auto simp: dispatch_event_def split: sum.splits if_splits)
  have "sys_ok i m (forget_timer j t s1)" if "sys_ok i m s1" for s1
    unfolding forget_timer_def
    by (rule upd_app_keeps [OF that]) (auto simp: calm_update_def split: option.split)
  then show "dispatch_timer env j t p s = (x, s') \<Longrightarrow> sys_ok i m s'"
    using assms(2) by (auto simp: dispatch_timer_def split: sum.splits if_splits prod.splits dest!: native_or_script_keeps [OF assms])
qed

lemma timer_keeps:
  assumes "sys_ok i m s"
  shows "sys_ok i m (snd (timer_start env b j n ms s))" "sys_ok i m (snd (timer_stop env j t s))"
proof -
  have f: "core_keeps (\<lambda>c. c\<lparr>co_tasks := f (co_tasks c)\<rparr>)" "core_keeps (\<lambda>c. c\<lparr>co_tasks := f (co_tasks c), co_pending := g (co_pending c)\<rparr>)"
    for f and g :: "pending_timer list \<Rightarrow> pending_timer list" by (rule core_keeps_fields; simp)+
  show "sys_ok i m (snd (timer_start env b j n ms s))" using assms
    by (auto simp: timer_start_def split: sum.split option.split intro!: upd_app_keeps on_core_keeps f)
  have "sys_ok i m (upd_app j (\<lambda>r. r\<lparr>ar_timers := smap_del t (ar_timers r)\<rparr>) s)" using assms by (intro upd_app_keeps) simp_all
  from on_core_keeps [OF this f(2)] show "sys_ok i m (snd (timer_stop env j t s))" using assms
    by (auto simp: timer_stop_def split: option.split)
qed

section \<open>Installing and uninstalling\<close>

lemma no_holdings:
  assumes "holdings_ok c" "map_of (co_apps c) i = None"
  shows "owned_images i (co_gui c) = {}" "owned_fonts i (co_gui c) = {}"
  using assms unfolding holdings_ok_def by blast+

lemma enter_app_ok:
  assumes "free_app i m s" "ar_id r = i" "am_id (ar_manifest r) = m" "m \<noteq> []" "ar_document r = None" "ar_runtime r = None"
    "\<not> ar_runtime_loaded r"
  shows "sys_ok i m (on_core (\<lambda>c. c\<lparr>co_ids := smap_emplace m i (co_ids c), co_apps := smap_emplace i r (co_apps c)\<rparr>) s)"
proof -
  let ?c = "rt_world s"
  let ?c2 = "?c\<lparr>co_ids := smap_emplace m i (co_ids ?c), co_apps := smap_emplace i r (co_apps ?c)\<rparr>"
  have f: "map_of (co_apps ?c) i = None" "map_of (co_ids ?c) m = None" "i \<noteq> 0" "i < co_next ?c" "apps_ok ?c" "holdings_ok ?c"
    using assms(1) by (simp_all add: free_app_def sys_inv_def core_ok_def)
  note A = apps_okD [OF f(5)]
  have e: "map_of (co_apps ?c2) = (map_of (co_apps ?c))(i \<mapsto> r)" "map_of (co_ids ?c2) = (map_of (co_ids ?c))(m \<mapsto> i)"
    using f by (simp_all add: map_of_emplace)
  have "apps_ok ?c2"
  proof (rule apps_okI)
    fix i' r' assume q: "map_of (co_apps ?c2) i' = Some r'"
    show "ar_id r' = i' \<and> i' \<noteq> 0 \<and> i' < co_next ?c2 \<and> map_of (co_ids ?c2) (am_id (ar_manifest r')) = Some i' \<and>
        (ar_runtime r' \<noteq> None) = ar_runtime_loaded r'"
    proof (cases "i' = i")
      case False
      then have "map_of (co_apps ?c) i' = Some r'" using q e by simp
      from A(1) [OF this] f show ?thesis by (auto simp: map_of_emplace)
    qed (use q assms f in \<open>simp add: map_of_emplace\<close>)
  next
    fix m' i' assume q: "map_of (co_ids ?c2) m' = Some i'"
    show "\<exists>r. map_of (co_apps ?c2) i' = Some r \<and> am_id (ar_manifest r) = m'"
    proof (cases "m' = m")
      case False
      then have "map_of (co_ids ?c) m' = Some i'" using q e by simp
      from A(2) [OF this] f show ?thesis by (auto simp: map_of_emplace)
    qed (use q assms f in \<open>simp add: map_of_emplace\<close>)
  next
    show "co_active ?c2 = 0 \<or> map_of (co_apps ?c2) (co_active ?c2) \<noteq> None" "0 < co_next ?c2" using A(3,4) by (auto simp: map_of_emplace)
  next
    fix k' i' assume q: "map_of (co_owner_of ?c2) k' = Some i'"
    then have "map_of (co_owner_of ?c) k' = Some i'" by simp
    from A(5) [OF this] f show "\<exists>r. map_of (co_apps ?c2) i' = Some r \<and> ar_runtime r = Some k'" by (auto simp: map_of_emplace)
  qed
  moreover have d: "document_at ?c2 = document_at ?c" using e f(1) assms(5) by (auto simp: document_at_def fun_eq_iff)
  have "gui_ok r (co_gui ?c)"
    using f(6) no_holdings [OF f(6,1)] assms(2-5) by (auto simp: holdings_ok_def gui_ok_def owned_images_def owned_fonts_def)
  then have "holdings_ok ?c2" using f(1,6) d by (auto simp: holdings_ok_def map_of_emplace split: if_splits)
  ultimately show ?thesis using assms(1,3) e by (simp add: sys_ok_def sys_inv_def core_ok_def on_core_def has_app_def free_app_def)
qed

text \<open>An app whose script is unloaded and whose GUI is gone can be forgotten.\<close>

definition bare :: "app_record \<Rightarrow> bool" where
  "bare r \<longleftrightarrow> ar_runtime r = None \<and> ar_document r = None \<and> ar_registered_images r = [] \<and> ar_registered_fonts r = [] \<and> ar_registered_icon r = []"

lemma forget_app_ok:
  assumes "sys_ok i m s" "app_of i s = Some r" "bare r" "co_active (rt_world s) \<noteq> i"
  shows "sys_inv (forget_app i m s)"
proof -
  let ?c = "rt_world s"
  let ?c2 = "?c\<lparr>co_ids := smap_del m (co_ids ?c), co_apps := smap_del i (co_apps ?c)\<rparr>"
  have a: "map_of (co_apps ?c) i = Some r" using assms(2) by (simp add: app_of_def)
  have ok: "apps_ok ?c" "holdings_ok ?c" using assms(1) by (simp_all add: sys_ok_def sys_inv_def core_ok_def)
  note A = apps_okD [OF ok(1)]
  have m: "am_id (ar_manifest r) = m" using assms(1) a by (auto simp: sys_ok_def has_app_def)
  have mi: "map_of (co_ids ?c) m = Some i" using A(1) [OF a] m by simp
  have "apps_ok ?c2"
  proof (rule apps_okI)
    fix i' r' assume "map_of (co_apps ?c2) i' = Some r'"
    then have q: "map_of (co_apps ?c) i' = Some r'" "i' \<noteq> i" by (auto split: if_splits)
    note b = A(1) [OF q(1)]
    have "am_id (ar_manifest r') \<noteq> m" using b mi q(2) by auto
    then show "ar_id r' = i' \<and> i' \<noteq> 0 \<and> i' < co_next ?c2 \<and> map_of (co_ids ?c2) (am_id (ar_manifest r')) = Some i' \<and>
        (ar_runtime r' \<noteq> None) = ar_runtime_loaded r'" using b by simp
  next
    fix m' i' assume "map_of (co_ids ?c2) m' = Some i'"
    then have q: "map_of (co_ids ?c) m' = Some i'" "m' \<noteq> m" by (auto split: if_splits)
    obtain r' where r': "map_of (co_apps ?c) i' = Some r'" "am_id (ar_manifest r') = m'" using A(2) [OF q(1)] by blast
    then have "i' \<noteq> i" using a m q(2) by auto
    then show "\<exists>r. map_of (co_apps ?c2) i' = Some r \<and> am_id (ar_manifest r) = m'" using r' by simp
  next
    show "co_active ?c2 = 0 \<or> map_of (co_apps ?c2) (co_active ?c2) \<noteq> None" "0 < co_next ?c2" using A(3,4) assms(4) by auto
  next
    fix k i' assume "map_of (co_owner_of ?c2) k = Some i'"
    then have q: "map_of (co_owner_of ?c) k = Some i'" by simp
    obtain r' where r': "map_of (co_apps ?c) i' = Some r'" "ar_runtime r' = Some k" using A(5) [OF q] by blast
    then have "i' \<noteq> i" using a assms(3) by (auto simp: bare_def)
    then show "\<exists>r. map_of (co_apps ?c2) i' = Some r \<and> ar_runtime r = Some k" using r' by simp
  qed
  moreover have "document_at ?c2 = document_at ?c"
    using a assms(3) by (auto simp: document_at_def fun_eq_iff bare_def)
  moreover have "gui_ok r (co_gui ?c)" using ok(2) a by (simp add: holdings_ok_def)
  then have "owned_images i (co_gui ?c) = {} \<and> owned_fonts i (co_gui ?c) = {}"
    using gui_ok_frees [of r "co_gui ?c"] assms(3) A(1) [OF a] by (simp add: bare_def)
  ultimately have "apps_ok ?c2 \<and> holdings_ok ?c2" using ok(2) by (auto simp: holdings_ok_def split: if_splits)
  then show ?thesis using assms(1) by (simp add: forget_app_def on_core_def sys_inv_def sys_ok_def core_ok_def)
qed

lemma clear_after_forget: "clear_active i (forget_app i m s) = forget_app i m (clear_active i s)"
  by (simp add: clear_active_def forget_app_def on_core_def)

lemma forget_clear_ok:
  assumes "sys_ok i m s" "app_of i s = Some r" "bare r"
  shows "sys_inv (clear_active i (forget_app i m s))"
proof -
  have "i \<noteq> 0" using assms(1,2) apps_okD(1) unfolding sys_ok_def sys_inv_def core_ok_def app_of_def by blast
  then have "co_active (rt_world (clear_active i s)) \<noteq> i" by (simp add: clear_active_def on_core_def)
  moreover have "app_of i (clear_active i s) = app_of i s" by (simp add: clear_active_def on_core_def app_of_def)
  ultimately show ?thesis
    using assms(2,3) forget_app_ok [OF clear_active_keeps [OF assms(1), of i]] by (simp add: clear_after_forget)
qed

definition bare_app :: "u32 \<Rightarrow> string \<Rightarrow> 'w sys \<Rightarrow> bool" where
  "bare_app i m s \<longleftrightarrow> sys_ok i m s \<and> (\<exists>r. app_of i s = Some r \<and> bare r)"

text \<open>The roll-back of the GUI leaves an app bare.\<close>

lemma rollback_bare:
  assumes "env_ok env" "sys_ok i m s" "Option.bind (app_of i s) ar_runtime = None"
    "\<And>r g. snd (f r g) = rollback_installed_app_gui (se_gui env) r (h r g)" "gui_operation f"
    "gui_task env msg f i s = (x, s')"
  shows "bare_app i m s' \<and> co_active (rt_world s') = co_active (rt_world s)"
proof -
  obtain r where r: "app_of i s = Some r" using assms(2) by (auto simp: sys_ok_def has_app_def app_of_def)
  let ?g = "co_gui (rt_world s)"
  obtain y r' g' where f: "f r ?g = (y, r', g')" by (metis surj_pair)
  then have k: "rollback_installed_app_gui (se_gui env) r (h r ?g) = (r', g')" using assms(4) [of r ?g] by simp
  have e: "ge_available (se_gui env)" "se_gui_post env (gs_calls ?g)" using assms(1) by (simp_all add: env_ok_def)
  have "gui_ok r ?g" using assms(2) r by (simp add: sys_ok_def sys_inv_def core_ok_def holdings_ok_def app_of_def)
  then have "ar_runtime r' = ar_runtime r" using assms(5) f unfolding gui_operation_def gui_keeps_def gui_frame_def by blast
  then have "bare r'" using rollback_keeps [OF k e(1)] assms(3) r by (simp add: bare_def)
  moreover have "app_of i s' = Some r'" "co_active (rt_world s') = co_active (rt_world s)"
    using assms(6) r f e(2) by (auto simp: gui_task_def on_core_def app_of_def)
  ultimately show ?thesis using gui_task_keeps [OF assms(2,5,6)] by (simp add: bare_app_def)
qed

lemma remove_files_keeps: "bare_app i m s \<Longrightarrow> remove_app_files env r s = (x, s') \<Longrightarrow> bare_app i m s'"
  by (auto simp: remove_app_files_def Let_def bare_app_def app_of_def on_core_def sys_ok_def sys_inv_def has_app_def
      split: if_splits sum.splits)

lemma uninstall_code_keeps: "env_ok env \<Longrightarrow> keeps (sys_ok i m) (perform (uninstall_code env j r))"
proof (rule keeps_perform)
  fix s x s' assume a: "env_ok env" "sys_ok i m s" "uninstall_code env j r s = (x, s')"
  have "sys_ok i m (snd (run_native_hook env OnUninstall j r s))" "sys_ok i m (snd (call_runtime_lifecycle j f [] s))" for f
    using keeps_performD [OF run_native_hook_keeps [OF a(1)] a(2)] call_lifecycle_keeps [OF a(2)] by (metis prod.collapse)+
  then show "sys_ok i m s'" using a by (auto simp: uninstall_code_def split: if_splits)
qed

text \<open>Nothing refers to the app any more.\<close>

definition gone :: "u32 \<Rightarrow> string \<Rightarrow> 'w sys \<Rightarrow> bool" where
  "gone i m s \<longleftrightarrow> sys_inv s \<and> app_of i s = None \<and> \<not> id_taken m s"

lemma drop_app_result:
  fixes Q :: "'w sys \<Rightarrow> bool"
  assumes "env_ok env" "am_id (ar_manifest r) = m" "keeps Q (perform (se_shell env AppUninstalled (ar_info r)))"
    "\<And>s. gone i m s \<Longrightarrow> Q s"
  shows "valid (sys_ok i m) (drop_app env i r) (\<lambda>x s. case x of Inl _ \<Rightarrow> sys_inv s | Inr _ \<Rightarrow> Q s)"
  unfolding drop_app_def assms(2)
proof (rule valid_seq [OF release_runtime_dataflow_operations_keeps [OF assms(1)]], rule valid_seq [OF uninstall_code_keeps [OF assms(1)]],
    rule valid_seq [OF cleanup_keeps [OF assms(1)]])
  show "valid (sys_ok i m)
     (seq (modify (unload_runtime i)) (\<lambda>_.
      seq (perform (gui_task env ''Failed to post GUI cleanup task''
        (quietly (\<lambda>r g. rollback_installed_app_gui (se_gui env) r (clear_gui_bindings (ar_id r) g))) i)) (\<lambda>_.
      seq (perform (remove_app_files env r)) (\<lambda>x.
      case x of
        Inl e \<Rightarrow> ret (Inl e)
      | Inr _ \<Rightarrow>
         seq (modify (forget_app i m)) (\<lambda>_.
         seq (modify (clear_active i)) (\<lambda>_.
         seq (perform (se_shell env AppUninstalled (ar_info r))) (\<lambda>_.
         ret (Inr ()))))))))
     (\<lambda>x s. case x of Inl _ \<Rightarrow> sys_inv s | Inr _ \<Rightarrow> Q s)" for x xa xb
  proof (rule valid_seq [where R = "\<lambda>_ s. sys_ok i m s \<and> Option.bind (app_of i s) ar_runtime = None"],
      goal_cases)
    case 1
    show ?case by (rule valid_modify) (use unload_keeps in blast)
  next
    case (2 y)
    show ?case
    proof (rule valid_seq [where R = "\<lambda>_. bare_app i m"], goal_cases)
      case 1
      show ?case by (rule valid_perform) (use rollback_bare [OF assms(1) _ _ _ gui_operations(6) [OF assms(1)]] in \<open>auto simp: quietly_def\<close>)
    next
      case (2 z)
      show ?case
      proof (rule valid_seq [where R = "\<lambda>_. bare_app i m"], goal_cases)
        case 1
        show ?case by (rule valid_perform) (rule remove_files_keeps)
      next
        case (2 w)
        have clear: "valid (bare_app i m) (seq (modify (forget_app i m)) (\<lambda>_. modify (clear_active i))) (\<lambda>_. Q)"
        proof (rule validI)
          fix s s' :: "'w sys" and y assume h: "bare_app i m s" "seq (modify (forget_app i m)) (\<lambda>_. modify (clear_active i)) s = Some (y, s')"
          have s': "s' = clear_active i (forget_app i m s)" using h(2) by (simp add: seq_def modify_def)
          have "sys_inv s'" using h(1) forget_clear_ok s' by (auto simp: bare_app_def)
          moreover have "app_of i s' = None \<and> \<not> id_taken m s'"
            by (simp add: s' clear_active_def forget_app_def on_core_def app_of_def id_taken_def)
          ultimately show "Q s'" using assms(4) by (simp add: gone_def)
        qed
        have assoc: "seq (modify (forget_app i m)) (\<lambda>_. seq (modify (clear_active i)) k) =
            seq (seq (modify (forget_app i m)) (\<lambda>_. modify (clear_active i))) k" for k
          by (simp add: seq_def modify_def fun_eq_iff)
        show ?case
          by (cases w) (auto simp: assoc bare_app_def sys_ok_def intro!: valid_ret valid_seq [OF clear] valid_seq [OF assms(3)])
      qed
    qed
  qed
qed

lemma drop_app_ok:
  assumes "env_ok env" "am_id (ar_manifest r) = m"
  shows "valid (sys_ok i m) (drop_app env i r) (\<lambda>_. sys_inv)"
  by (rule valid_post [OF drop_app_result [OF assms env_okD(3) [OF assms(1)]]]) (auto simp: gone_def split: sum.splits)

lemma sys_okI: "sys_inv s \<Longrightarrow> app_of i s = Some r \<Longrightarrow> sys_ok i (am_id (ar_manifest r)) s"
  by (auto simp: sys_ok_def has_app_def app_of_def)

lemma sys_ok_inv: "sys_ok i m s \<Longrightarrow> sys_inv s"
  by (simp add: sys_ok_def)

text \<open>A call on an app that is not installed changes nothing.\<close>

lemma keeps_installed:
  assumes "\<And>m. keeps (sys_ok i m) f" "\<And>s x s'. app_of i s = None \<Longrightarrow> f s = Some (x, s') \<Longrightarrow> s' = s"
  shows "keeps sys_inv f"
proof (rule validI)
  fix s x s' assume a: "sys_inv s" "f s = Some (x, s')"
  show "sys_inv s'"
  proof (cases "app_of i s")
    case None
    then show ?thesis using assms(2) a by metis
  next
    case (Some r)
    then show ?thesis using assms(1) sys_okI [OF a(1)] a(2) sys_ok_inv by (metis validD)
  qed
qed

lemma get_record_missing: "app_of i s = None \<Longrightarrow> seq (gets (get_record i)) k s = k (Inl ''App not found'') s"
  by (simp add: seq_def gets_def get_record_def)

lemma on_group_keeps: "keeps P m \<Longrightarrow> keeps P (on_app_group env msg m)"
  by (simp add: on_app_group_def keeps_ret)

lemma stop_app_inv: "env_ok env \<Longrightarrow> keeps sys_inv (stop_app_now env i)"
  by (rule keeps_installed [of i, OF stop_keeps]) (auto simp: stop_app_now_def get_record_missing ret_def)

lemma start_app_inv: "env_ok env \<Longrightarrow> keeps sys_inv (start_app_now env i)"
  by (rule keeps_installed [of i, OF start_keeps]) (auto simp: start_app_now_def get_record_missing ret_def)

lemma pause_inv: "env_ok env \<Longrightarrow> keeps sys_inv (pause_app env i)"
  by (rule keeps_installed [of i, OF pause_keeps])
    (auto simp: pause_app_def change_pause_def on_app_group_def get_record_missing ret_def split: if_splits)

lemma resume_inv: "env_ok env \<Longrightarrow> keeps sys_inv (resume_app env i)"
  by (rule keeps_installed [of i, OF resume_keeps])
    (auto simp: resume_app_def change_pause_def on_app_group_def get_record_missing ret_def split: if_splits)

lemma uninstall_inv:
  assumes "env_ok env"
  shows "keeps sys_inv (uninstall_app_now env i)"
proof (rule validI)
  fix s x s' assume a: "sys_inv s" "uninstall_app_now env i s = Some (x, s')"
  show "sys_inv s'"
  proof (cases "app_of i s")
    case None
    then show ?thesis using a by (auto simp: uninstall_app_now_def get_record_missing ret_def)
  next
    case (Some r)
    let ?m = "am_id (ar_manifest r)"
    let ?stop = "if ar_state r = Running \<or> ar_state r = Paused then stop_app_now env i else ret (Inr ())"
    let ?now = "\<lambda>s. case app_of i s of None \<Rightarrow> r | Some r' \<Rightarrow> r'"
    have ok: "sys_ok i ?m s" using sys_okI [OF a(1) Some] .
    have "keeps (sys_ok i ?m) ?stop" by (auto intro: stop_keeps [OF assms] keeps_ret)
    moreover have "valid (sys_ok i ?m) (seq (gets ?now) (drop_app env i)) (\<lambda>_. sys_inv)"
    proof (rule validI)
      fix t y t' assume t: "sys_ok i ?m t" "seq (gets ?now) (drop_app env i) t = Some (y, t')"
      have "am_id (ar_manifest (?now t)) = ?m" using t(1) by (auto simp: sys_ok_def has_app_def app_of_def)
      from validD [OF drop_app_ok [OF assms this] t(1)] t(2) show "sys_inv t'" by (simp add: seq_def gets_def)
    qed
    ultimately have "valid (sys_ok i ?m) (seq ?stop (\<lambda>y. case y of Inl e \<Rightarrow> ret (Inl e) | Inr _ \<Rightarrow> seq (gets ?now) (drop_app env i))) (\<lambda>_. sys_inv)"
      by (intro valid_seq [where R = "\<lambda>_. sys_ok i ?m"]) (auto split: sum.split intro!: valid_ret sys_ok_inv)
    moreover have "seq (gets (get_record i)) k s = k (Inr r) s" for k using Some by (simp add: seq_def gets_def get_record_def)
    ultimately show ?thesis using a(2) ok unfolding uninstall_app_now_def valid_def by (metis (no_types, lifting) old.sum.simps(6))
  qed
qed

lemma undo_install_ok:
  assumes "env_ok env"
  shows "valid (\<lambda>s. sys_ok i m s \<and> idle i s) (undo_install env i m e) (\<lambda>_. sys_inv)"
  unfolding undo_install_def
proof (rule valid_seq [where R = "\<lambda>_ s. bare_app i m s \<and> co_active (rt_world s) \<noteq> i"], goal_cases)
  case 1
  show ?case
  proof (rule valid_perform)
    fix s x s' assume s: "sys_ok i m s \<and> idle i s"
      "gui_task env ''Failed to post app GUI install rollback task'' (quietly (rollback_installed_app_gui (se_gui env))) i s = (x, s')"
    show "bare_app i m s' \<and> co_active (rt_world s') \<noteq> i"
      using rollback_bare [OF assms _ _ _ gui_operations(4) [OF assms] s(2), of m "\<lambda>r g. g"] s(1) by (simp add: quietly_def idle_def)
  qed
next
  case (2 x)
  show ?case
    by (rule valid_seq [where R = "\<lambda>_. sys_inv"]) (auto simp: bare_app_def intro!: valid_modify forget_app_ok keeps_ret)
qed

lemma enter_app_inv:
  assumes "env_ok env" "ar_id r = i" "am_id (ar_manifest r) = m" "m \<noteq> []" "ar_document r = None" "ar_runtime r = None" "\<not> ar_runtime_loaded r"
  shows "valid (free_app i m) (enter_app env i r) (\<lambda>_. sys_inv)"
  unfolding enter_app_def Let_def assms(3)
proof (rule valid_seq [where R = "\<lambda>_ s. sys_ok i m s \<and> idle i s"], goal_cases)
  case 1
  show ?case
  proof (rule valid_modify)
    fix s assume f: "free_app i m s"
    have "co_active (rt_world s) \<noteq> i"
      using f apps_okD(3) [of "rt_world s"] by (auto simp: free_app_def sys_inv_def core_ok_def)
    then show "sys_ok i m (on_core (\<lambda>c. c\<lparr>co_ids := smap_emplace m i (co_ids c), co_apps := smap_emplace i r (co_apps c)\<rparr>) s) \<and>
        idle i (on_core (\<lambda>c. c\<lparr>co_ids := smap_emplace m i (co_ids c), co_apps := smap_emplace i r (co_apps c)\<rparr>) s)"
      using enter_app_ok [OF f assms(2-7)] f assms(6)
      by (simp add: idle_def app_of_def on_core_def free_app_def map_of_emplace)
  qed
next
  case (2 u)
  show ?case
  proof (rule valid_seq [where R = "\<lambda>_ s. sys_ok i m s \<and> idle i s"], goal_cases)
    case 1
    show ?case
    proof (rule valid_perform)
      fix s x s' assume s: "sys_ok i m s \<and> idle i s"
        "gui_task env ''Failed to post app GUI install preparation task'' (prepare_installed_app_gui (se_gui env)) i s = (x, s')"
      have ok: "sys_ok i m s'" using gui_task_keeps [OF _ gui_operations(2) [OF assms(1)] s(2)] s(1) by blast
      obtain q where q: "app_of i s = Some q" using s(1) by (auto simp: sys_ok_def has_app_def app_of_def)
      obtain y q' g' where f: "prepare_installed_app_gui (se_gui env) q (co_gui (rt_world s)) = (y, q', g')" by (metis surj_pair)
      have "gui_ok q (co_gui (rt_world s))" using s(1) q by (simp add: sys_ok_def sys_inv_def core_ok_def holdings_ok_def app_of_def)
      then have "ar_runtime q' = ar_runtime q"
        using gui_operations(2) [OF assms(1)] f unfolding gui_operation_def gui_keeps_def gui_frame_def by blast
      then have "idle i s'" using s q f by (auto simp: gui_task_def idle_def app_of_def on_core_def split: if_splits)
      then show "sys_ok i m s' \<and> idle i s'" using ok by simp
    qed
  next
    case (2 x)
    have hook: "keeps (\<lambda>s. sys_ok i m s \<and> idle i s) (perform (se_shell env AppInstalled info))" for info
      using assms(1) by (simp add: env_ok_def)
    have shell: "valid (\<lambda>s. sys_ok i m s \<and> idle i s) (perform (run_shell env AppInstalled i)) (\<lambda>_ s. sys_ok i m s \<and> idle i s)"
    proof (rule valid_perform)
      fix s x s' assume h: "sys_ok i m s \<and> idle i s" "run_shell env AppInstalled i s = (x, s')"
      show "sys_ok i m s' \<and> idle i s'"
      proof (cases "app_of i s")
        case None
        then show ?thesis using h by (simp add: run_shell_def)
      next
        case (Some r)
        then have "se_shell env AppInstalled (ar_info r) s = (x, s')" using h(2) by (simp add: run_shell_def)
        then show ?thesis using keeps_performD [OF hook h(1)] by blast
      qed
    qed
    have done_ok: "valid (\<lambda>s. sys_ok i m s \<and> idle i s) (ret y) (\<lambda>_. sys_inv)" for y :: "u32 expected"
      by (rule valid_ret) (simp add: sys_ok_def)
    show ?case
      by (cases x) (auto intro!: undo_install_ok [OF assms(1)] valid_seq [OF shell] done_ok split: sum.split)
  qed
qed

end
