(* ===== verification/App_System.thy ===== *)
theory App_System
  imports App_Lifecycle
begin

text \<open>
  The system that runs apps, as a whole: a new system, every call on it and what happens to it, and what
  holds in every state it reaches.
\<close>

section \<open>Installing\<close>

lemma normalize_id [simp]: "am_id (normalize_app_manifest m) = am_id m"
  by (simp add: normalize_app_manifest_def)

lemma new_record_fields [simp]:
  "ar_id (new_record i m d) = i" "ar_manifest (new_record i m d) = m" "ar_document (new_record i m d) = None"
  "ar_runtime (new_record i m d) = None" "\<not> ar_runtime_loaded (new_record i m d)" "ar_state (new_record i m d) = Installed"
  by (simp_all add: new_record_def)

lemma u32_next: "(n :: u32) + 1 \<noteq> 0 \<Longrightarrow> n < n + 1"
  by unat_arith

lemma taken_free:
  assumes "sys_inv s" "co_next (rt_world s) + 1 \<noteq> 0" "\<not> id_taken m s"
  shows "free_app (co_next (rt_world s)) m (on_core (\<lambda>c. c\<lparr>co_next := co_next c + 1\<rparr>) s)"
proof -
  let ?c = "rt_world s"
  have a: "apps_ok ?c" "holdings_ok ?c" using assms(1) by (simp_all add: sys_inv_def core_ok_def)
  note A = apps_okD [OF a(1)]
  have less: "co_next ?c < co_next ?c + 1" using u32_next [OF assms(2)] .
  have "map_of (co_apps ?c) (co_next ?c) = None"
  proof (rule ccontr)
    assume "map_of (co_apps ?c) (co_next ?c) \<noteq> None"
    then obtain r where "map_of (co_apps ?c) (co_next ?c) = Some r" by blast
    from A(1) [OF this] show False by simp
  qed
  moreover have "co_next ?c \<noteq> 0" using A(4) by auto
  moreover have "apps_ok (?c\<lparr>co_next := co_next ?c + 1\<rparr>)"
  proof (rule apps_okI)
    fix i r assume "map_of (co_apps (?c\<lparr>co_next := co_next ?c + 1\<rparr>)) i = Some r"
    then have "map_of (co_apps ?c) i = Some r" by simp
    from A(1) [OF this] less show "ar_id r = i \<and> i \<noteq> 0 \<and> i < co_next (?c\<lparr>co_next := co_next ?c + 1\<rparr>) \<and>
      map_of (co_ids (?c\<lparr>co_next := co_next ?c + 1\<rparr>)) (am_id (ar_manifest r)) = Some i \<and> (ar_runtime r \<noteq> None) = ar_runtime_loaded r"
      by auto
  next
    show "0 < co_next (?c\<lparr>co_next := co_next ?c + 1\<rparr>)" using assms(2) by (simp add: word_neq_0_conv [symmetric])
  qed (use A(2,3,5) in auto)
  moreover have "holdings_ok (?c\<lparr>co_next := co_next ?c + 1\<rparr>)" using a(2) by (simp add: holdings_ok_def document_at_def [abs_def])
  ultimately show ?thesis
    using assms less by (simp add: free_app_def sys_inv_def core_ok_def on_core_def id_taken_def)
qed

lemma install_app_inv:
  assumes "env_ok env"
  shows "valid (\<lambda>s. sys_inv s \<and> co_next (rt_world s) + 1 \<noteq> 0) (install_app env app) (\<lambda>_. sys_inv)"
proof (rule validI)
  fix s x s' assume s: "sys_inv s \<and> co_next (rt_world s) + 1 \<noteq> 0" and run: "install_app env app s = Some (x, s')"
  show "sys_inv s'"
  proof (cases app)
    case None
    then show ?thesis using s run by (simp add: install_app_def ret_def)
  next
    case (Some a)
    let ?m = "normalize_app_manifest ((na_manifest a)\<lparr>am_kind := Native\<rparr>)"
    let ?i = "co_next (rt_world s)"
    let ?s = "on_core (\<lambda>c. c\<lparr>co_next := co_next c + 1\<rparr>) s"
    let ?r = "(new_record ?i ?m (na_gui a))\<lparr>ar_native := Some (na_ptr a), ar_images := na_images a, ar_fonts := na_fonts a\<rparr>"
    have hook: "keeps (free_app i m) (perform (se_native env p OnInstall i))" for i m p
      using assms by (simp add: env_ok_def)
    have "valid (free_app ?i (am_id ?m)) (seq (perform (se_native env (na_ptr a) OnInstall ?i)) (\<lambda>x.
        case x of Inl e \<Rightarrow> ret (Inl e) | Inr _ \<Rightarrow> enter_app env ?i ?r)) (\<lambda>_. sys_inv)"
      if "am_id ?m \<noteq> []"
      by (rule valid_seq [OF hook], rename_tac y, case_tac y)
        (auto intro!: valid_ret enter_app_inv [OF assms] simp: free_app_def that [simplified])
    from validD [OF this taken_free [of s "am_id ?m"]] s show ?thesis using run Some
      by (auto simp: install_app_def Let_def seq_def gets_def ret_def perform_def take_app_id_def
          split: if_splits sum.splits)
  qed
qed

lemma install_runtime_app_inv:
  assumes "env_ok env"
  shows "valid (\<lambda>s. sys_inv s \<and> co_next (rt_world s) + 1 \<noteq> 0) (install_runtime_app env m) (\<lambda>_. sys_inv)"
proof (rule validI)
  fix s x s' assume s: "sys_inv s \<and> co_next (rt_world s) + 1 \<noteq> 0" and run: "install_runtime_app env m s = Some (x, s')"
  show "sys_inv s'"
  proof (cases "am_id m = [] \<or> id_taken (am_id m) s \<or> (\<exists>e. read_runtime_app_resource_descriptor (se_files env) m = Inl e)")
    case True
    then show ?thesis using s run by (auto simp: install_runtime_app_def seq_def gets_def ret_def split: if_splits)
  next
    case False
    then obtain d where d: "read_runtime_app_resource_descriptor (se_files env) m = Inr d" using sumE by metis
    let ?i = "co_next (rt_world s)"
    let ?s = "on_core (\<lambda>c. c\<lparr>co_next := co_next c + 1\<rparr>) s"
    let ?m = "(normalize_app_manifest (m\<lparr>am_icon_id := rd_icon_id d, am_preload_dom := rd_preload_dom d\<rparr>))\<lparr>am_kind := Runtime\<rparr>"
    have "valid (free_app ?i (am_id m)) (enter_app env ?i (new_record ?i ?m (rd_gui d))) (\<lambda>_. sys_inv)"
      by (rule enter_app_inv [OF assms]) (use False in simp_all)
    from validD [OF this taken_free [of s "am_id m"]] s False d show ?thesis using run
      by (auto simp: install_runtime_app_def seq_def gets_def ret_def perform_def take_app_id_def split: sum.splits)
  qed
qed

section \<open>The system\<close>

text \<open>A system as it is constructed.\<close>

definition new_gui :: gui_state where
  "new_gui = \<lparr>gs_bindings = new_bindings, gs_image_owners = [], gs_font_owners = [], gs_preview_docs = {},
     gs_preview_task = None, gs_cancelled = []\<rparr>"

definition new_core :: "'w \<Rightarrow> 'w core" where
  "new_core w = \<lparr>co_apps = [], co_ids = [], co_next = 1, co_active = 0, co_owner_of = [], co_runtime_ready = False,
     co_manifests = [], co_gui = new_gui, co_dialogs = no_dialogs [] w, co_tasks = [], co_pending = [], co_jobs = [],
     co_removed = []\<rparr>"

definition new_system :: "'w \<Rightarrow> 'w sys" where
  "new_system w = new_runtime (new_core w)"

text \<open>The calls on a system.\<close>

datatype sys_call =
    CallInstall "native_app option" | CallInstallRuntime app_manifest | CallUninstall u32
  | CallStart u32 | CallStop u32 | CallPause u32 | CallResume u32 | CallRequestClose u32
  | CallAction u32 string string string | CallEvent u32 string string string
  | CallTimer bool u32 string int | CallTimerStop u32 u64
  | FireTimer timer_task post_outcome | RunTimerJob

definition plain :: "('w sys, 'r) act \<Rightarrow> 'w sys \<Rightarrow> 'w sys option" where
  "plain m s = map_option snd (m s)"

definition sys_step :: "'w sys_env \<Rightarrow> sys_call \<Rightarrow> 'w sys \<Rightarrow> 'w sys option" where
  "sys_step env c s =
     (case c of
        CallInstall a \<Rightarrow> plain (install_app env a) s
      | CallInstallRuntime m \<Rightarrow> plain (install_runtime_app env m) s
      | CallUninstall i \<Rightarrow> plain (uninstall_app env i) s
      | CallStart i \<Rightarrow> plain (start_app env i) s
      | CallStop i \<Rightarrow> plain (stop_app env i) s
      | CallPause i \<Rightarrow> plain (pause_app env i) s
      | CallResume i \<Rightarrow> plain (resume_app env i) s
      | CallRequestClose i \<Rightarrow> plain (request_close_app env i) s
      | CallAction i a p v \<Rightarrow> Some (snd (dispatch_action env i a p v s))
      | CallEvent i v e items \<Rightarrow> Some (snd (dispatch_event i v e items s))
      | CallTimer periodic i n ms \<Rightarrow> Some (snd (timer_start env periodic i n ms s))
      | CallTimerStop i t \<Rightarrow> Some (snd (timer_stop env i t s))
      | FireTimer k outcome \<Rightarrow> Some (fire_timer env k outcome s)
      | RunTimerJob \<Rightarrow> Some (run_next_timer_job env s))"

text \<open>The states of a system, as long as its app identifiers do not run out.\<close>

inductive sys_reachable :: "'w sys_env \<Rightarrow> 'w sys \<Rightarrow> bool" for env where
  new: "sys_reachable env (new_system w)"
| step: "sys_reachable env s \<Longrightarrow> co_next (rt_world s) + 1 \<noteq> 0 \<Longrightarrow> sys_step env c s = Some s' \<Longrightarrow> sys_reachable env s'"

lemma installed_or_not:
  assumes "\<And>m. sys_ok i m s \<Longrightarrow> sys_ok i m s'" "app_of i s = None \<Longrightarrow> s' = s" "sys_inv s"
  shows "sys_inv s'"
  using assms sys_okI [OF assms(3)] sys_ok_inv by (cases "app_of i s") blast+

lemma run_timer_job_keeps:
  fixes s :: "'w sys"
  assumes "env_ok env" "sys_ok i m s"
  shows "sys_ok i m (run_timer_job env job s)"
proof -
  have "sys_ok i m (snd (dispatch_timer env j t p s))" for j t p
    using dispatch_keeps(3) [OF assms] by (metis prod.collapse)
  moreover have "sys_ok i m (forget_pending j t s')" if "sys_ok i m s'" for s' :: "'w sys" and j :: u32 and t :: u64
    unfolding forget_pending_def by (rule on_core_keeps [OF that]) (rule core_keeps_fields; simp)
  ultimately show ?thesis by (auto simp: run_timer_job_def Let_def split: prod.split)
qed

lemma on_core_inv: "sys_inv s \<Longrightarrow> core_ok (f (rt_world s)) = core_ok (rt_world s) \<Longrightarrow> sys_inv (on_core f s)"
  by (simp add: sys_inv_def on_core_def)

lemma dispatch_missing:
  assumes "app_of i s = None"
  shows "dispatch_action env i a p v s = (Inl ''App not found'', s)" "dispatch_event i a p v s = (Inl ''App not found'', s)"
    "dispatch_timer env i t n s = (Inl ''App not found'', s)"
  using assms by (simp_all add: dispatch_action_def dispatch_event_def dispatch_timer_def get_record_def)

lemma run_timer_job_inv:
  assumes "env_ok env" "sys_inv s"
  shows "sys_inv (run_timer_job env job s)"
proof (cases "app_of (pt_app_id (snd job)) s")
  case None
  then show ?thesis using assms(2) by (simp add: run_timer_job_def Let_def split_beta dispatch_missing forget_pending_def on_core_inv)
next
  case (Some r)
  then show ?thesis using run_timer_job_keeps [OF assms(1)] sys_okI [OF assms(2)] sys_ok_inv by blast
qed

lemma fire_timer_inv: "env_ok env \<Longrightarrow> sys_inv s \<Longrightarrow> sys_inv (fire_timer env k outcome s)"
  by (auto simp: fire_timer_def Let_def forget_pending_def intro!: run_timer_job_inv on_core_inv split: post_outcome.split)

lemma sys_step_inv:
  fixes s :: "'w sys"
  assumes "env_ok env" "sys_inv s" "co_next (rt_world s) + 1 \<noteq> 0" "sys_step env c s = Some s'"
  shows "sys_inv s'"
proof -
  have act: "sys_inv s'" if "keeps sys_inv m" "plain m s = Some s'" for m :: "('w sys, 'b) act"
    using that assms(2) by (auto simp: plain_def dest: validD)
  have act1: "sys_inv s'" if "valid (\<lambda>s. sys_inv s \<and> co_next (rt_world s) + 1 \<noteq> 0) m (\<lambda>_. sys_inv)" "plain m s = Some s'" for m :: "('w sys, 'b) act"
    using that assms(2,3) unfolding plain_def valid_def by (metis (no_types, lifting) map_option_eq_Some prod.collapse)
  show ?thesis
  proof (cases c)
    case (CallAction i a p v)
    have "sys_inv (snd (dispatch_action env i a p v s))"
      by (rule installed_or_not [of i, OF _ _ assms(2)])
        (metis dispatch_keeps(1) [OF assms(1)] prod.collapse, simp add: dispatch_missing)
    then show ?thesis using CallAction assms(4) by (auto simp add: sys_step_def)
  next
    case (CallEvent i v e items)
    have "sys_inv (snd (dispatch_event i v e items s))"
      by (rule installed_or_not [of i, OF _ _ assms(2)])
        (metis dispatch_keeps(2) [OF assms(1)] prod.collapse, simp add: dispatch_missing)
    then show ?thesis using CallEvent assms(4) by (simp add: sys_step_def)
  next
    case (CallTimer b i n ms)
    have "sys_inv (snd (timer_start env b i n ms s))"
      by (rule installed_or_not [of i, OF _ _ assms(2)]) (erule timer_keeps(1), simp add: timer_start_def get_record_def)
    then show ?thesis using CallTimer assms(4) by (simp add: sys_step_def)
  next
    case (CallTimerStop i t)
    have "sys_inv (snd (timer_stop env i t s))"
      by (rule installed_or_not [of i, OF _ _ assms(2)]) (erule timer_keeps(2), simp add: timer_stop_def)
    then show ?thesis using CallTimerStop assms(4) by (simp add: sys_step_def)
  next
    case (CallInstall a)
    then show ?thesis using act1 [OF install_app_inv [OF assms(1)]] assms(4) by (simp add: sys_step_def)
  next
    case (CallInstallRuntime m)
    then show ?thesis using act1 [OF install_runtime_app_inv [OF assms(1)]] assms(4) by (simp add: sys_step_def)
  next
    case (CallUninstall i)
    then show ?thesis using act [OF on_group_keeps [OF uninstall_inv [OF assms(1)]]] assms(4)
      by (simp add: sys_step_def uninstall_app_def)
  next
    case (CallStart i)
    then show ?thesis using act [OF on_group_keeps [OF start_app_inv [OF assms(1)]]] assms(4) by (simp add: sys_step_def start_app_def)
  next
    case (CallStop i)
    then show ?thesis using act [OF on_group_keeps [OF stop_app_inv [OF assms(1)]]] assms(4) by (simp add: sys_step_def stop_app_def)
  next
    case (CallPause i)
    then show ?thesis using act [OF pause_inv [OF assms(1)]] assms(4) by (simp add: sys_step_def)
  next
    case (CallResume i)
    then show ?thesis using act [OF resume_inv [OF assms(1)]] assms(4) by (simp add: sys_step_def)
  next
    case (CallRequestClose i)
    then show ?thesis using act [OF on_group_keeps [OF stop_app_inv [OF assms(1)]]] assms(4)
      by (simp add: sys_step_def request_close_app_def stop_app_def)
  next
    case (FireTimer k outcome)
    then show ?thesis using fire_timer_inv [OF assms(1,2)] assms(4) by (auto simp: sys_step_def)
  next
    case RunTimerJob
    then show ?thesis using assms
      by (auto simp: sys_step_def run_next_timer_job_def split: list.splits intro!: run_timer_job_inv on_core_inv)
  qed
qed

lemma new_system_inv: "sys_inv (new_system w)"
  by (auto simp: new_system_def new_runtime_def new_core_def new_gui_def new_bindings_def sys_inv_def core_ok_def apps_ok_def
      holdings_ok_def document_at_def live_documents_def live_images_def live_fonts_def owned_images_def owned_fonts_def
      ran_def dom_def inj_on_def)

lemma sys_reachable_inv: "sys_reachable env s \<Longrightarrow> env_ok env \<Longrightarrow> sys_inv s"
  by (induction rule: sys_reachable.induct) (blast intro: new_system_inv sys_step_inv)+

end
