(* ===== verification/App_Outcome.thy ===== *)
theory App_Outcome
  imports App_System
begin

text \<open>
  What a call on an app achieves when the code it runs does not itself change the app's state: the outcome
  of starting, stopping and uninstalling, and that the calls return.
\<close>

section \<open>What is seen of an app\<close>

record app_view =
  vw_state :: app_state
  vw_error :: string
  vw_document :: "nat option"
  vw_root :: gui_root_kind
  vw_preload :: bool

definition view_of :: "app_record \<Rightarrow> app_view" where
  "view_of r = \<lparr>vw_state = ar_state r, vw_error = ai_last_error (ar_info r), vw_document = ar_document r,
     vw_root = gd_root_kind (ar_gui r), vw_preload = ar_preload_dom r\<rparr>"

text \<open>App \<open>i\<close> looks like \<open>v\<close>, and app \<open>a\<close> is the active one.\<close>

definition view_at :: "u32 \<Rightarrow> app_view \<Rightarrow> u32 \<Rightarrow> 'w core \<Rightarrow> bool" where
  "view_at i v a c \<longleftrightarrow> map_option view_of (map_of (co_apps c) i) = Some v \<and> co_active c = a"

definition calm_backend :: "'w core backend \<Rightarrow> bool" where
  "calm_backend b \<longleftrightarrow>
     (\<forall>ms i v a c. view_at i v a c \<longrightarrow> view_at i v a (bk_set_native_modules b ms c)) \<and>
     (\<forall>i v a c br. view_at i v a c \<longrightarrow> view_at i v a (fst (snd (bk_init b (c, br))))) \<and>
     (\<forall>k config i v a c br. view_at i v a c \<longrightarrow> view_at i v a (fst (snd (bk_load_app b k config (c, br))))) \<and>
     (\<forall>k i v a c br. view_at i v a c \<longrightarrow> view_at i v a (fst (snd (bk_unload_app b k (c, br))))) \<and>
     (\<forall>k i v a c br. view_at i v a c \<longrightarrow> view_at i v a (fst (snd (bk_start_app b k (c, br))))) \<and>
     (\<forall>k i v a c br. view_at i v a c \<longrightarrow> view_at i v a (fst (snd (bk_stop_app b k (c, br))))) \<and>
     (\<forall>k m f args i v a c br. view_at i v a c \<longrightarrow> view_at i v a (fst (snd (bk_call_function b k m f args (c, br)))))"

interpretation calm: script_law "view_at i v a" calm_backend for i v a
  by unfold_locales (simp_all add: calm_backend_def)

definition looks :: "u32 \<Rightarrow> app_view \<Rightarrow> u32 \<Rightarrow> 'w sys \<Rightarrow> bool" where
  "looks i v a = kept (view_at i v a) calm_backend"

text \<open>Code that leaves all apps as they look.\<close>

definition calm_env :: "'w sys_env \<Rightarrow> bool" where
  "calm_env env \<longleftrightarrow>
     (\<forall>i v a p h j. keeps (looks i v a) (perform (se_native env p h j))) \<and>
     (\<forall>i v a h info. keeps (looks i v a) (perform (se_shell env h info))) \<and>
     (\<forall>i v a j. keeps (looks i v a) (modify (se_hide_loading env j))) \<and>
     (\<forall>i v a j. keeps (looks i v a) (perform (se_show_transition env j))) \<and>
     (\<forall>i v a t. keeps (looks i v a) (modify (se_hide_transition env t))) \<and>
     (\<forall>i v a k. keeps (looks i v a) (modify (se_release_dataflow env k))) \<and>
     (\<forall>n b. (n, Some b) \<in> set (se_backends env) \<longrightarrow> calm_backend b)"

lemma calm_envD:
  assumes "calm_env env"
  shows "keeps (looks i v a) (perform (se_native env p h j))" "keeps (looks i v a) (perform (se_shell env sh info))"
    "keeps (looks i v a) (modify (se_hide_loading env j))" "keeps (looks i v a) (perform (se_show_transition env j))"
    "keeps (looks i v a) (modify (se_hide_transition env t))" "keeps (looks i v a) (modify (se_release_dataflow env k))"
  using assms by (simp_all add: calm_env_def)

section \<open>What is left as it looks\<close>

lemma looks_core:
  "looks i v a s \<Longrightarrow> view_at i v a (f (rt_world s)) \<Longrightarrow> looks i v a (on_core f s)"
  by (simp add: looks_def kept_def on_core_def)

lemma looks_fields [simp]:
  "looks i v a (on_core (\<lambda>c. c\<lparr>co_dialogs := d\<rparr>) s) = looks i v a s"
  "looks i v a (on_core (\<lambda>c. c\<lparr>co_tasks := f c, co_pending := g c\<rparr>) s) = looks i v a s"
  "looks i v a (on_core (\<lambda>c. c\<lparr>co_runtime_ready := True\<rparr>) s) = looks i v a s"
  "looks i v a (on_core (\<lambda>c. c\<lparr>co_manifests := h c, co_owner_of := e c\<rparr>) s) = looks i v a s"
  by (simp_all add: looks_def kept_def on_core_def view_at_def)

lemma looks_upd:
  assumes "looks i v a s" "\<And>r. view_of (f r) = view_of r"
  shows "looks i v a (upd_app j f s)"
  using assms by (auto simp: looks_def kept_def upd_app_def on_core_def view_at_def app_of_def split: option.split)

lemma view_updates [simp]:
  "view_of (r\<lparr>ar_timers := ts\<rparr>) = view_of r" "view_of (r\<lparr>ar_runtime_started := b\<rparr>) = view_of r"
  "view_of (r\<lparr>ar_runtime := k, ar_runtime_loaded := l\<rparr>) = view_of r"
  "view_of (r\<lparr>ar_runtime := k, ar_runtime_loaded := l, ar_runtime_started := b\<rparr>) = view_of r"
  by (simp_all add: view_of_def)

lemma looks_dialogs: "looks i v a s \<Longrightarrow> looks i v a (snd (with_dialogs f s))"
  by (simp add: with_dialogs_def split: prod.split)

lemma looks_lifecycle_dialog: "looks i v a s \<Longrightarrow> looks i v a (lifecycle_dialog env j what f e s)"
  by (simp add: lifecycle_dialog_def show_lifecycle_error_dialog_def show_system_dialog_def looks_dialogs split: option.split)

lemma looks_cancel_timers: "looks i v a s \<Longrightarrow> looks i v a (cancel_app_timers env j s)"
  by (simp add: cancel_app_timers_def Let_def looks_upd split: option.split)

lemma looks_close_dialogs: "keeps (looks i v a) (close_dialogs env j)"
  by (rule validI) (auto simp: close_dialogs_def split: option.splits)

lemma looks_cleanup: "calm_env env \<Longrightarrow> keeps (looks i v a) (cleanup_app_transient_resources env j)"
  unfolding cleanup_app_transient_resources_def hide_keyboards_def
  by (intro act_intros calm_envD looks_close_dialogs keeps_modify looks_dialogs looks_cancel_timers)

lemma looks_dataflow: "calm_env env \<Longrightarrow> keeps (looks i v a) (modify (release_runtime_dataflow_operations env j))"
  by (rule keeps_modify) (auto simp: release_runtime_dataflow_operations_def split: option.split intro: keeps_modifyD calm_envD)

lemma looks_run_shell: "calm_env env \<Longrightarrow> keeps (looks i v a) (perform (run_shell env h j))"
  by (rule keeps_perform) (auto simp: run_shell_def split: option.splits intro: keeps_performD calm_envD)

lemma looks_tell_shell: "calm_env env \<Longrightarrow> looks i v a s \<Longrightarrow> looks i v a (tell_shell env h j s)"
  unfolding tell_shell_def using keeps_performD [OF looks_run_shell] by (metis prod.collapse)

lemma looks_native: "calm_env env \<Longrightarrow> keeps (looks i v a) (perform (run_native_hook env h j r))"
  by (rule keeps_perform) (auto simp: run_native_hook_def split: option.splits intro: keeps_performD calm_envD)

lemma looks_call: "keeps (looks i v a) (perform (call_runtime_lifecycle j f args))"
  by (rule keeps_perform)
    (auto simp: call_runtime_lifecycle_def looks_def split: option.splits sum.splits prod.splits dest: calm.rt_call_kept)

lemma looks_initialized:
  assumes "calm_env env" "looks i v a s" "ensure_runtime_initialized env s = (x, s')"
  shows "looks i v a s'"
proof -
  obtain y s1 where y: "rt_init (se_backends env) (se_providers env) s = (y, s1)" by force
  have "looks i v a s1"
    using calm.rt_init_kept [OF y, of i v a] assms(1,2) by (simp add: looks_def calm_env_def)
  then show ?thesis using assms(2,3) y by (auto simp: ensure_runtime_initialized_def split: if_splits sum.splits)
qed

lemma looks_load:
  assumes "looks i v a s" "load_runtime j r s = (x, s')"
  shows "looks i v a s'"
proof -
  have "looks i v a s1" if "rt_load_app config s = (y, s1)" for config y s1
    using calm.rt_load_kept [OF _ that] assms(1) unfolding looks_def by blast
  then have "looks i v a (register_runtime j k r s1)" if "rt_load_app config s = (y, s1)" for config y s1 k
    using that by (auto simp: register_runtime_def intro!: looks_upd)
  then show ?thesis using assms \<open>\<And>y s1 config. rt_load_app config s = (y, s1) \<Longrightarrow> looks i v a s1\<close>
    by (auto simp: load_runtime_def split: if_splits sum.splits prod.splits)
qed

lemma looks_loaded: "calm_env env \<Longrightarrow> keeps (looks i v a) (perform (ensure_runtime_loaded env j))"
  by (rule keeps_perform)
    (auto simp: ensure_runtime_loaded_def split: option.splits if_splits sum.splits prod.splits dest: looks_initialized looks_load)

lemma looks_start_runtime: "keeps (looks i v a) (perform (start_runtime_app j))"
proof (rule keeps_perform)
  fix s x s' assume a: "looks i v a s" "start_runtime_app j s = (x, s')"
  have "looks i v a s1" if "rt_start_app k s = (y, s1)" for k y s1
    using calm.rt_start_kept [OF _ that] a(1) unfolding looks_def by blast
  then show "looks i v a s'" using a
    by (auto simp: start_runtime_app_def split: option.splits if_splits prod.splits intro!: looks_upd)
qed

lemma looks_unload: "looks i v a s \<Longrightarrow> looks i v a (unload_runtime j s)"
proof -
  assume a: "looks i v a s"
  have "looks i v a (snd (rt_unload_app k s))" for k
    using calm.rt_unload_kept [of i v a s k] a unfolding looks_def by (metis prod.collapse)
  then show ?thesis using a by (auto simp: unload_runtime_def split: option.split intro!: looks_upd)
qed

lemma looks_stop_code: "calm_env env \<Longrightarrow> keeps (looks i v a) (stop_app_code env j r)"
proof -
  assume c: "calm_env env"
  have "keeps (looks i v a) (perform (\<lambda>s. case Option.bind (app_of j s) ar_runtime of None \<Rightarrow> (Inr (), s) | Some k \<Rightarrow> rt_stop_app k s))"
    by (rule keeps_perform) (auto simp: looks_def split: option.splits dest: calm.rt_stop_kept)
  then show ?thesis unfolding stop_app_code_def
    by (intro act_intros looks_native [OF c] looks_call keeps_modify looks_upd) simp_all
qed

lemma looks_start_code: "calm_env env \<Longrightarrow> keeps (looks i v a) (start_app_code env j r)"
  unfolding start_app_code_def by (intro act_intros looks_native looks_loaded looks_start_runtime looks_call)

section \<open>What changes\<close>

text \<open>The invariant and the looks of an app, together.\<close>

definition sees :: "u32 \<Rightarrow> string \<Rightarrow> app_view \<Rightarrow> u32 \<Rightarrow> 'w sys \<Rightarrow> bool" where
  "sees i m v a s \<longleftrightarrow> sys_ok i m s \<and> looks i v a s"

lemma sees_keeps: "keeps (sys_ok i m) f \<Longrightarrow> keeps (looks i v a) f \<Longrightarrow> keeps (sees i m v a) f"
  unfolding sees_def by (rule valid_conj)

lemma sees_upd:
  assumes "sees i m v a s" "calm_update f" "\<And>r. ar_runtime (f r) = ar_runtime r \<and> ar_runtime_loaded (f r) = ar_runtime_loaded r"
    "\<And>r. view_of r = v \<Longrightarrow> view_of (f r) = w"
  shows "sees i m w a (upd_app i f s)"
proof -
  have "sys_ok i m (upd_app i f s)" by (rule upd_app_keeps [OF _ assms(2,3)]) (use assms(1) in \<open>simp add: sees_def\<close>)
  moreover have "looks i w a (upd_app i f s)" using assms(1,4)
    by (auto simp: sees_def looks_def kept_def view_at_def upd_app_def app_of_def on_core_def split: option.splits)
  ultimately show ?thesis by (simp add: sees_def)
qed

lemma sees_set_active: "sees i m v a s \<Longrightarrow> sees i m v i (set_active i s)"
  using set_active_keeps [of i m s] by (simp add: sees_def looks_def kept_def view_at_def) (simp add: set_active_def on_core_def)

lemma sees_clear_active: "sees i m v a s \<Longrightarrow> sees i m v (if a = j then 0 else a) (clear_active j s)"
  using clear_active_keeps [of i m s j] by (simp add: sees_def looks_def kept_def view_at_def) (auto simp: clear_active_def on_core_def)

text \<open>A GUI task on the app changes the document at most.\<close>

lemma sees_gui_task:
  assumes "env_ok env" "gui_operation f" "sees i m v a s" "gui_task env msg f i s = (x, s')"
    and "\<And>r g r' g'. gui_ok r g \<Longrightarrow> view_of r = v \<Longrightarrow> f r g = (x, r', g') \<Longrightarrow> ok (ar_document r')"
  shows "\<exists>d. ok d \<and> sees i m (v\<lparr>vw_document := d\<rparr>) a s'"
proof -
  let ?c = "rt_world s"
  obtain r where r: "map_of (co_apps ?c) i = Some r" "view_of r = v" "co_active ?c = a"
    using assms(3) by (auto simp: sees_def looks_def kept_def view_at_def)
  obtain y r' g' where f: "f r (co_gui ?c) = (y, r', g')" by (metis surj_pair)
  have s': "x = y" "s' = on_core (\<lambda>c. c\<lparr>co_apps := smap_put i r' (co_apps c), co_gui := g'\<rparr>) s"
    using assms(1,4) r f by (auto simp: gui_task_def app_of_def env_ok_def)
  have ok: "gui_ok r (co_gui ?c)" using assms(3) r(1) by (auto simp: sees_def sys_ok_def sys_inv_def core_ok_def holdings_ok_def)
  then have "gui_frame r (co_gui ?c) r' g'" using assms(2) f unfolding gui_operation_def gui_keeps_def by blast
  then have "view_of r' = v\<lparr>vw_document := ar_document r'\<rparr>" using r(2) by (auto simp: view_of_def gui_frame_def)
  moreover have "sys_ok i m s'" using gui_task_keeps [OF _ assms(2,4)] assms(3) by (simp add: sees_def)
  ultimately have "sees i m (v\<lparr>vw_document := ar_document r'\<rparr>) a s'"
    using assms(3) r(3) s'(2) by (simp add: sees_def looks_def kept_def view_at_def on_core_def)
  then show ?thesis using assms(5) [OF ok r(2)] f s'(1) by blast
qed

section \<open>Stopping\<close>

lemma valid_ex: "(\<And>d. ok d \<Longrightarrow> valid (P d) m Q) \<Longrightarrow> valid (\<lambda>s. \<exists>d. ok d \<and> P d s) m Q"
  unfolding valid_def by blast

lemma sees_steps:
  assumes "env_ok env" "calm_env env"
  shows "keeps (sees i m v a) (cleanup_app_transient_resources env j)" "keeps (sees i m v a) (modify (release_runtime_dataflow_operations env j))"
    "keeps (sees i m v a) (stop_app_code env j r)" "keeps (sees i m v a) (start_app_code env j r)"
    "keeps (sees i m v a) (modify (tell_shell env h j))" "keeps (sees i m v a) (perform (run_shell env h j))"
    "keeps (sees i m v a) (modify (lifecycle_dialog env j what f e))" "keeps (sees i m v a) (perform (se_show_transition env j))"
    "keeps (sees i m v a) (modify (se_hide_transition env t))" "keeps (sees i m v a) (modify (unload_runtime j))"
proof -
  note c = assms(2) and e = assms(1)
  show "keeps (sees i m v a) (cleanup_app_transient_resources env j)" by (rule sees_keeps [OF cleanup_keeps [OF e] looks_cleanup [OF c]])
  show "keeps (sees i m v a) (modify (release_runtime_dataflow_operations env j))" by (rule sees_keeps [OF release_runtime_dataflow_operations_keeps [OF e] looks_dataflow [OF c]])
  show "keeps (sees i m v a) (stop_app_code env j r)" by (rule sees_keeps [OF stop_code_keeps [OF e] looks_stop_code [OF c]])
  show "keeps (sees i m v a) (start_app_code env j r)" by (rule sees_keeps [OF start_code_keeps [OF e] looks_start_code [OF c]])
  show "keeps (sees i m v a) (perform (run_shell env h j))" by (rule sees_keeps [OF run_shell_keeps [OF e] looks_run_shell [OF c]])
  show "keeps (sees i m v a) (modify (tell_shell env h j))"
    by (rule sees_keeps) (auto intro: keeps_modify tell_shell_keeps [OF e] looks_tell_shell [OF c])
  show "keeps (sees i m v a) (modify (lifecycle_dialog env j what f e'))" for e'
    by (rule sees_keeps) (auto intro: keeps_modify lifecycle_dialog_keeps looks_lifecycle_dialog)
  show "keeps (sees i m v a) (modify (unload_runtime j))"
    by (rule sees_keeps) (auto intro!: keeps_modify looks_unload dest: unload_keeps)
  show "keeps (sees i m v a) (perform (se_show_transition env j))" "keeps (sees i m v a) (modify (se_hide_transition env t))"
    by (rule sees_keeps; use assms in \<open>simp add: env_ok_def calm_env_def\<close>)+
qed

text \<open>How an app looks after a failure, and after a stop.\<close>

definition failed_view :: "string \<Rightarrow> app_view \<Rightarrow> app_view" where
  "failed_view e v = v\<lparr>vw_state := AppFailed, vw_error := e\<rparr>"

definition stopped_view :: "unit expected \<Rightarrow> app_view \<Rightarrow> app_view" where
  "stopped_view x v = (case x of Inl e \<Rightarrow> failed_view e v | Inr _ \<Rightarrow> v\<lparr>vw_state := Stopped\<rparr>)"

lemma sees_set_state: "sees i m v a s \<Longrightarrow> sees i m (v\<lparr>vw_state := st\<rparr>) a (upd_app i (set_state st) s)"
  by (erule sees_upd) (auto simp: set_state_def view_of_def)

lemma sees_failed: "sees i m v a s \<Longrightarrow> sees i m (failed_view e v) a (upd_app i (\<lambda>r. set_error e (set_state AppFailed r)) s)"
  by (erule sees_upd, rule calm_updates) (auto simp: set_state_def set_error_def view_of_def failed_view_def)

lemma stop_failed_outcome:
  assumes "env_ok env" "calm_env env"
  shows "valid (sees i m v a) (stop_failed env i e) (\<lambda>x s. x = Inl e \<and> sees i m (failed_view e v) (if a = i then 0 else a) s)"
  unfolding stop_failed_def
  by (rule valid_seq [where R = "\<lambda>_. sees i m (failed_view e v) a"], rule valid_modify, erule sees_failed,
      rule valid_seq [where R = "\<lambda>_. sees i m (failed_view e v) (if a = i then 0 else a)"], rule valid_modify, erule sees_clear_active,
      rule valid_seq [OF sees_steps(5) [OF assms]], rule valid_seq [OF sees_steps(7) [OF assms]], rule valid_ret, simp)

lemma stop_done_outcome:
  assumes "env_ok env" "calm_env env"
  shows "valid (sees i m v a) (seq (modify (upd_app i (set_state Stopped))) (\<lambda>_. seq (modify (clear_active i)) (\<lambda>_.
      seq (modify (tell_shell env AppStoppedHook i)) (\<lambda>_. ret (Inr ())))))
    (\<lambda>x s. x = Inr () \<and> sees i m (v\<lparr>vw_state := Stopped\<rparr>) (if a = i then 0 else a) s)"
  by (rule valid_seq [where R = "\<lambda>_. sees i m (v\<lparr>vw_state := Stopped\<rparr>) a"], rule valid_modify, erule sees_set_state,
      rule valid_seq [where R = "\<lambda>_. sees i m (v\<lparr>vw_state := Stopped\<rparr>) (if a = i then 0 else a)"], rule valid_modify,
      erule sees_clear_active, rule valid_seq [OF sees_steps(5) [OF assms]], rule valid_ret, simp)

lemma stop_running_outcome:
  assumes "env_ok env" "calm_env env"
  shows "valid (sees i m v a) (stop_running_app env i r)
     (\<lambda>x s. \<exists>d. (vw_preload v \<or> d = None) \<and> sees i m (stopped_view x (v\<lparr>vw_document := d\<rparr>)) (if a = i then 0 else a) s)"
  unfolding stop_running_app_def
proof (rule valid_seq [where R = "\<lambda>_. sees i m (v\<lparr>vw_state := Stopping\<rparr>) a"], rule valid_modify, erule sees_set_state,
    rule valid_seq [OF sees_steps(1) [OF assms]], rule valid_seq [OF sees_steps(2) [OF assms]],
    rule valid_seq [OF sees_steps(3) [OF assms]], goal_cases)
  case (1 _ _ _ x)
  let ?v = "\<lambda>d. v\<lparr>vw_state := Stopping, vw_document := d\<rparr>"
  show ?case
  proof (rule valid_seq [where R = "\<lambda>_ s. \<exists>d. (vw_preload v \<or> d = None) \<and> sees i m (?v d) a s"], goal_cases)
    case 1
    have g: "gui_operation (quietly (cleanup_stopped_app_gui (se_gui env)))" using gui_operations [OF assms(1)] by blast
    have d: "vw_preload v \<or> ar_document r' = None"
      if h: "view_of r = v\<lparr>vw_state := Stopping\<rparr>" "quietly (cleanup_stopped_app_gui (se_gui env)) r g = (y, r', g')" for r g y r' g'
    proof -
      have "ar_preload_dom r = vw_preload v" using arg_cong [OF h(1), of vw_preload] by (simp add: view_of_def)
      moreover have "ge_available (se_gui env)" using assms(1) by (simp add: env_ok_def)
      ultimately show ?thesis using cleanup_stopped_keeps [of "se_gui env" r g r' g'] h(2) by (auto simp: quietly_def)
    qed
    show ?case
      by (rule valid_perform) (use sees_gui_task [OF assms(1) g, where ok = "\<lambda>d. vw_preload v \<or> d = None"] d in fastforce)
  next
    case (2 y)
    show ?case
      by (rule valid_ex, cases x)
        (auto simp: stopped_view_def failed_view_def
          intro!: valid_post [OF stop_failed_outcome [OF assms]] valid_post [OF stop_done_outcome [OF assms]])
  qed
qed

section \<open>Starting\<close>

text \<open>The app \<open>i\<close> that looked like \<open>v\<close> when \<open>a\<close> was active looks like \<open>w\<close> and \<open>b\<close> is active after a start
  with result \<open>x\<close>.\<close>

definition start_outcome :: "u32 \<Rightarrow> app_view \<Rightarrow> u32 \<Rightarrow> unit expected \<Rightarrow> app_view \<Rightarrow> u32 \<Rightarrow> bool" where
  "start_outcome i v a x w b \<longleftrightarrow>
     (case x of
        Inr _ \<Rightarrow> b = i \<and> vw_state w = Running \<and> vw_error w = [] \<and> (vw_root v \<noteq> RootNone \<longrightarrow> vw_document w \<noteq> None)
      | Inl e \<Rightarrow> b \<in> {a, 0} \<and> (vw_state w = AppFailed \<and> vw_error w = e \<or> vw_state w = Stopped \<and> vw_error w = []) \<and>
          (vw_preload v \<or> vw_document v \<noteq> None \<or> vw_document w = None))"

lemma start_failed_outcome:
  assumes "env_ok env" "calm_env env"
  shows "valid (sees i m v a) (start_failed env i e) (\<lambda>x s. x = Inl e \<and> sees i m (failed_view e v) a s)"
  unfolding start_failed_def
  by (rule valid_seq [where R = "\<lambda>_. sees i m (failed_view e v) a"], rule valid_modify, erule sees_failed,
      rule valid_seq [OF sees_steps(5) [OF assms]], rule valid_seq [OF sees_steps(7) [OF assms]], rule valid_ret, simp)

lemma rollback_start_outcome:
  assumes "env_ok env" "calm_env env"
  shows "valid (sees i m v a) (rollback_start env i r) (\<lambda>_. sees i m (v\<lparr>vw_document := None\<rparr>) a)"
  unfolding rollback_start_def
proof (rule valid_seq [OF sees_steps(1) [OF assms]], rule valid_seq [OF sees_steps(2) [OF assms]], goal_cases)
  case (1 _ _)
  let ?f = "quietly (\<lambda>r g. unload_app_gui (se_gui env) r (clear_gui_bindings (ar_id r) g))"
  have g: "gui_operation ?f" using gui_operations [OF assms(1)] by blast
  have e: "ge_available (se_gui env)" using assms(1) by (simp add: env_ok_def)
  have d: "ar_document r' = None" if "?f r g = (y, r', g')" for r g y r' g'
    using unload_app_gui_keeps [OF _ e, of r "clear_gui_bindings (ar_id r) g" r' g'] that by (simp add: quietly_def)
  have unload: "keeps (sees i m v a) (modify (if ar_kind r = Runtime then unload_runtime i else id))"
    using sees_steps(10) [OF assms, of i m v a i] by (cases "ar_kind r = Runtime") (simp_all add: keeps_modify)
  show ?case
  proof (rule valid_seq [OF unload], rule valid_seq [where R = "\<lambda>_. sees i m (v\<lparr>vw_document := None\<rparr>) a"], goal_cases)
    case (1 _)
    show ?case by (rule valid_perform) (use sees_gui_task [OF assms(1) g, where ok = "\<lambda>d. d = None"] d in fastforce)
  qed (rule keeps_ret)
qed

lemma stop_now_running:
  assumes "sees i m v a s" "vw_state v = Running"
  shows "\<exists>r. stop_app_now env i s = stop_running_app env i r s"
  using assms by (auto simp: sees_def looks_def kept_def view_at_def stop_app_now_def seq_def gets_def get_record_def app_of_def view_of_def)

lemma hook_failed_outcome:
  assumes "env_ok env" "calm_env env" "vw_state v = Running" "vw_error v = []"
  shows "valid (sees i m v i) (started_hook_failed env i e)
    (\<lambda>x s. x = Inl e \<and> (\<exists>d st. (vw_preload v \<or> d = None) \<and> sees i m ((if st then failed_view e v else v\<lparr>vw_state := Stopped\<rparr>)\<lparr>vw_document := d\<rparr>) 0 s))"
  unfolding started_hook_failed_def
proof (rule valid_seq [where R = "\<lambda>x s. \<exists>d. (vw_preload v \<or> d = None) \<and> sees i m (stopped_view x (v\<lparr>vw_document := d\<rparr>)) 0 s"], goal_cases)
  case 1
  show ?case
  proof (rule validI)
    fix s x s' assume h: "sees i m v i s" "stop_app_now env i s = Some (x, s')"
    obtain r where "stop_running_app env i r s = Some (x, s')" using stop_now_running [OF h(1) assms(3)] h(2) by metis
    from validD [OF stop_running_outcome [OF assms(1,2)] h(1) this]
    show "\<exists>d. (vw_preload v \<or> d = None) \<and> sees i m (stopped_view x (v\<lparr>vw_document := d\<rparr>)) 0 s'" by simp
  qed
next
  case (2 x)
  show ?case
  proof (rule valid_ex)
    fix d :: "nat option" assume d: "vw_preload v \<or> d = None"
    let ?w = "(if isl x then failed_view e v else v\<lparr>vw_state := Stopped\<rparr>)\<lparr>vw_document := d\<rparr>"
    have r: "valid (sees i m (stopped_view x (v\<lparr>vw_document := d\<rparr>)) 0) (case x of Inr _ \<Rightarrow> ret () | Inl _ \<Rightarrow>
          seq (modify (upd_app i (\<lambda>r. set_error e (set_state AppFailed r)))) (\<lambda>_.
          seq (modify (clear_active i)) (\<lambda>_. modify (tell_shell env (AppStartFailed e) i)))) (\<lambda>_. sees i m ?w 0)"
    proof (cases x)
      case (Inl e')
      have w: "failed_view e (failed_view e' (v\<lparr>vw_document := d\<rparr>)) = failed_view e v\<lparr>vw_document := d\<rparr>" by (simp add: failed_view_def)
      show ?thesis unfolding Inl
        by (simp add: stopped_view_def, rule valid_seq, rule valid_modify, erule sees_failed, simp only: w)
          (rule valid_seq [OF _ sees_steps(5) [OF assms(1,2)]], rule valid_modify, drule sees_clear_active [where j = i], simp split: if_splits)
    next
      case (Inr u)
      have "v\<lparr>vw_document := d, vw_state := Stopped\<rparr> = v\<lparr>vw_state := Stopped, vw_document := d\<rparr>" by simp
      then show ?thesis unfolding Inr by (simp only: stopped_view_def sum.case isl_def sum.simps) (simp add: keeps_ret)
    qed
    show "valid (sees i m (stopped_view x (v\<lparr>vw_document := d\<rparr>)) 0) (seq (case x of Inl b \<Rightarrow>
          seq (modify (upd_app i (\<lambda>r. set_error e (set_state AppFailed r)))) (\<lambda>_.
          seq (modify (clear_active i)) (\<lambda>_. modify (tell_shell env (AppStartFailed e) i))) | Inr b \<Rightarrow> ret ()) (\<lambda>_.
        seq (modify (lifecycle_dialog env i ''start'' ''on_start'' e)) (\<lambda>_. ret (Inl e))))
      (\<lambda>x s. x = Inl e \<and> (\<exists>d st. (vw_preload v \<or> d = None) \<and> sees i m ((if st then failed_view e v else v\<lparr>vw_state := Stopped\<rparr>)\<lparr>vw_document := d\<rparr>) 0 s))"
      by (rule valid_seq [OF r], rule valid_seq [OF sees_steps(7) [OF assms(1,2)]], rule valid_ret) (use d in blast)
  qed
qed

text \<open>The steps of a start, for an app without an error that is starting.\<close>

definition fresh_start :: "app_view \<Rightarrow> bool" where
  "fresh_start v \<longleftrightarrow> vw_state v = Starting \<and> vw_error v = []"

lemma start_prepared_outcome:
  assumes "env_ok env" "calm_env env" "fresh_start v" "vw_root v \<noteq> RootNone \<longrightarrow> vw_document v \<noteq> None"
  shows "valid (sees i m v a) (start_prepared_app env i r)
    (\<lambda>x s. \<exists>w b. start_outcome i (v\<lparr>vw_document := None\<rparr>) a x w b \<and> sees i m w b s)" (is "valid _ _ ?Q")
  unfolding start_prepared_app_def
proof (rule valid_seq [OF sees_steps(4) [OF assms(1,2)]])
  fix x
  show "valid (sees i m v a) (case x of Inl e \<Rightarrow> seq (rollback_start env i r) (\<lambda>_. start_failed env i e)
      | Inr _ \<Rightarrow> seq (modify (upd_app i (set_state Running))) (\<lambda>_. seq (modify (set_active i)) (\<lambda>_.
          seq (perform (run_shell env AppStarted i)) (\<lambda>y. case y of Inl e \<Rightarrow> started_hook_failed env i e | Inr _ \<Rightarrow> ret (Inr ()))))) ?Q"
  proof (cases x)
    case (Inl e)
    have o: "start_outcome i (v\<lparr>vw_document := None\<rparr>) a (Inl e) (failed_view e (v\<lparr>vw_document := None\<rparr>)) a"
      by (simp add: start_outcome_def failed_view_def)
    have "valid (sees i m v a) (seq (rollback_start env i r) (\<lambda>_. start_failed env i e))
        (\<lambda>x s. x = Inl e \<and> sees i m (failed_view e (v\<lparr>vw_document := None\<rparr>)) a s)"
      by (rule valid_seq [OF rollback_start_outcome [OF assms(1,2)]], rule start_failed_outcome [OF assms(1,2)])
    then show ?thesis unfolding Inl sum.case by (rule valid_post) (use o in blast)
  next
    case (Inr u)
    let ?v = "v\<lparr>vw_state := Running\<rparr>"
    have "valid (sees i m ?v i) (case y of Inl e \<Rightarrow> started_hook_failed env i e | Inr _ \<Rightarrow> ret (Inr ())) ?Q" for y
    proof (cases y)
      case (Inl e)
      have f: "vw_state ?v = Running" "vw_error ?v = []" using assms(3) by (simp_all add: fresh_start_def)
      have o: "start_outcome i (v\<lparr>vw_document := None\<rparr>) a (Inl e) ((if st then failed_view e ?v else ?v\<lparr>vw_state := Stopped\<rparr>)\<lparr>vw_document := d\<rparr>) 0"
        if "vw_preload v \<or> d = None" for d st
        using that f by (auto simp: start_outcome_def failed_view_def)
      show ?thesis unfolding Inl sum.case
      proof (rule valid_post [OF hook_failed_outcome [OF assms(1,2) f]], goal_cases)
        case (1 z s)
        then obtain d st where d: "z = Inl e" "vw_preload ?v \<or> d = None"
          "sees i m ((if st then failed_view e ?v else ?v\<lparr>vw_state := Stopped\<rparr>)\<lparr>vw_document := d\<rparr>) 0 s" by blast
        have "vw_preload v \<or> d = None" using d(2) by simp
        from o [OF this, of st] d(1,3) show ?case by blast
      qed
    next
      case (Inr u)
      have "start_outcome i (v\<lparr>vw_document := None\<rparr>) a (Inr ()) ?v i" using assms(3,4) by (simp add: start_outcome_def fresh_start_def)
      then show ?thesis unfolding Inr sum.case by (intro valid_ret) blast
    qed
    then show ?thesis unfolding Inr sum.case
      by (intro valid_seq [where R = "\<lambda>_. sees i m ?v a"] valid_seq [where R = "\<lambda>_. sees i m ?v i"] sees_steps(6) [OF assms(1,2)])
        (auto intro!: valid_modify sees_set_state elim: sees_set_active)
  qed
qed

lemma start_checked_outcome:
  assumes "env_ok env" "calm_env env"
  shows "valid (sees i m v a) (start_checked_app env i r) (\<lambda>x s. \<exists>w b. start_outcome i v a x w b \<and> sees i m w b s)" (is "valid _ _ ?Q")
proof -
  let ?v = "v\<lparr>vw_state := Starting, vw_error := []\<rparr>"
  let ?w = "\<lambda>d. ?v\<lparr>vw_document := d\<rparr>"
  let ?ok = "\<lambda>x d. if isl x then vw_document v = None \<longrightarrow> d = None else vw_root v \<noteq> RootNone \<longrightarrow> d \<noteq> None"
  have upd: "sees i m ?v a (upd_app i (\<lambda>r. set_error [] (set_state Starting r)) s)" if "sees i m v a s" for s
    using that by (rule sees_upd [OF _ calm_updates(3)]) (auto simp: set_state_def set_error_def view_of_def)
  have g: "gui_operation (prepare_app_gui (se_gui env))" using gui_operations [OF assms(1)] by blast
  have e: "fresh_documents (se_gui env)" "ge_available (se_gui env)" using assms(1) by (simp_all add: env_ok_def)
  have prep: "?ok x (ar_document r')" if "gui_ok r g" "view_of r = ?v" "prepare_app_gui (se_gui env) r g = (x, r', g')" for r g x r' g'
  proof -
    have "ar_document r = vw_document v" "gd_root_kind (ar_gui r) = vw_root v"
      using arg_cong [OF that(2), of vw_document] arg_cong [OF that(2), of vw_root] by (simp_all add: view_of_def)
    then show ?thesis using prepare_app_gui_keeps [OF that(3) e] that(1) by (cases x) auto
  qed
  have gui: "valid (sees i m ?v a) (perform (gui_task env msg (prepare_app_gui (se_gui env)) i)) (\<lambda>x s. \<exists>d. ?ok x d \<and> sees i m (?w d) a s)" for msg
  proof (rule valid_perform)
    fix s x s' assume h: "sees i m ?v a s" "gui_task env msg (prepare_app_gui (se_gui env)) i s = (x, s')"
    show "\<exists>d. ?ok x d \<and> sees i m (?w d) a s'" by (rule sees_gui_task [OF assms(1) g h]) (rule prep)
  qed
  have next_step: "valid (sees i m (?w d) a) (case x of Inl e \<Rightarrow> start_failed env i e | Inr _ \<Rightarrow> start_prepared_app env i r) ?Q"
    if d: "?ok x d" for x d
  proof (cases x)
    case (Inl e)
    have "start_outcome i v a (Inl e) (failed_view e (?w d)) a" using d Inl by (auto simp: start_outcome_def failed_view_def)
    then show ?thesis unfolding Inl sum.case by (intro valid_post [OF start_failed_outcome [OF assms]]) blast
  next
    case (Inr u)
    have f: "fresh_start (?w d)" "vw_root (?w d) \<noteq> RootNone \<longrightarrow> vw_document (?w d) \<noteq> None" using d Inr by (simp_all add: fresh_start_def)
    have "start_outcome i v a y w b" if "start_outcome i ((?w d)\<lparr>vw_document := None\<rparr>) a y w b" for y w b
      using that by (auto simp: start_outcome_def split: sum.splits)
    then show ?thesis unfolding Inr sum.case by (intro valid_post [OF start_prepared_outcome [OF assms f]]) blast
  qed
  have hide: "valid (\<lambda>s. \<exists>w b. start_outcome i v a y w b \<and> sees i m w b s) (seq (modify (se_hide_transition env t)) (\<lambda>_. ret y)) ?Q" for y t
  proof (rule validI)
    fix s z s' assume h: "\<exists>w b. start_outcome i v a y w b \<and> sees i m w b s" "seq (modify (se_hide_transition env t)) (\<lambda>_. ret y) s = Some (z, s')"
    then obtain w b where w: "start_outcome i v a y w b" "sees i m w b s" by blast
    have "s' = se_hide_transition env t s" "z = y" using h(2) by (simp_all add: seq_def modify_def ret_def)
    then show "\<exists>w b. start_outcome i v a z w b \<and> sees i m w b s'" using keeps_modifyD [OF sees_steps(9) [OF assms] w(2)] w(1) by blast
  qed
  show ?thesis unfolding start_checked_app_def
    by (rule valid_seq [where R = "\<lambda>_. sees i m ?v a"], rule valid_modify, erule upd, rule valid_seq [OF sees_steps(8) [OF assms]],
        rule valid_seq [OF gui], rule valid_seq [where R = ?Q], rule valid_ex, erule next_step, rule hide)
qed

end
