(* ===== verification/App_Calls.thy ===== *)
theory App_Calls
  imports App_Outcome
begin

text \<open>
  The properties of the app manager, each with a system on which it is run: the invariant, the outcome of
  starting, stopping and uninstalling, that the calls return, and what is lost.
\<close>

section \<open>A sample system\<close>

text \<open>Documents numbered from 0, hooks that do nothing, no script backends.\<close>

definition next_document :: "gui_call list \<Rightarrow> nat" where
  "next_document calls = fold (\<lambda>c n. case c of LoadDocument d \<Rightarrow> max n (Suc d) | _ \<Rightarrow> n) calls 0"

definition sample_gui :: gui_env where
  "sample_gui = \<lparr>ge_available = True, ge_load_file = (\<lambda>calls p. Inr (next_document calls)),
     ge_load_json = (\<lambda>calls m p q. Inr (next_document calls)), ge_register_font = (\<lambda>calls f. Inr ()),
     ge_register_image = (\<lambda>calls f. Inr ()), ge_has_flow = (\<lambda>calls d f. True), ge_start_flow = (\<lambda>calls d f t. Inr ()),
     ge_subscribe = (\<lambda>calls d a. True), ge_enable_preview = (\<lambda>calls d. Inr ()), ge_post_poll = (\<lambda>calls. Some 1),
     ge_live_preview = False, ge_internal_root = None, ge_icon = (\<lambda>m p. (Inr None, p))\<rparr>"

definition sample_dialogs_env :: "unit dialog_env" where
  "sample_dialogs_env = \<lparr>de_show = (\<lambda>app r options w. (Inr (), w)), de_update = (\<lambda>app r options w. (Inr (), w)),
     de_hide = (\<lambda>app r w. w), de_idle = (\<lambda>w. w), de_handler = (\<lambda>h res s. s), de_publish = (\<lambda>res w. w),
     de_show_keyboard = (\<lambda>app r options w. (Inr (), w)), de_hide_keyboard = (\<lambda>app r w. w),
     de_keyboard_handler = (\<lambda>k res s. s), de_publish_keyboard = (\<lambda>res w. w), de_post = None\<rparr>"

definition no_files :: pkg_env where
  "no_files = \<lparr>k_stat = (\<lambda>p. Inl ''no file''), k_read = (\<lambda>p n. Inl ''no file''), k_read_text = (\<lambda>p. Inl ''no file''),
     k_mkdir = (\<lambda>p. Inr ()), k_write = (\<lambda>p b. Inr ()), k_parse = (\<lambda>t. None), k_inflate = (\<lambda>b. None),
     k_sha256 = (\<lambda>b. Inl ''no digest''), k_public_key = (\<lambda>b. Inr ()), k_verify = (\<lambda>k b s. Inr ())\<rparr>"

definition sample_env :: "unit sys_env" where
  "sample_env = \<lparr>se_gui = sample_gui, se_dialogs = sample_dialogs_env, se_files = no_files, se_services = (\<lambda>v. None),
     se_native = (\<lambda>p h i s. (Inr (), s)), se_shell = (\<lambda>h info s. (Inr (), s)), se_hide_loading = (\<lambda>i s. s),
     se_storage_paths = (\<lambda>m. Inr ()), se_managed = (\<lambda>p. True), se_remove_tree = (\<lambda>p. Inr ()),
     se_show_transition = (\<lambda>i s. (Inr None, s)), se_hide_transition = (\<lambda>t s. s), se_release_dataflow = (\<lambda>k s. s),
     se_backends = [], se_providers = [], se_app_post = None, se_gui_post = (\<lambda>calls. True), se_scheduler = True,
     se_timer_post = (\<lambda>ts. Some (of_nat (Suc (length ts))))\<rparr>"

lemma next_document_grows: "n \<le> fold (\<lambda>c n. case c of LoadDocument d \<Rightarrow> max n (Suc d) | _ \<Rightarrow> n) calls n"
  by (induction calls arbitrary: n) (auto split: gui_call.split intro: order_trans [OF max.cobounded1] order_trans)

lemma live_documents_below:
  "d \<in> fold document_step calls ds \<Longrightarrow> \<forall>x \<in> ds. x < n \<Longrightarrow>
   d < fold (\<lambda>c n. case c of LoadDocument d \<Rightarrow> max n (Suc d) | _ \<Rightarrow> n) calls n"
proof (induction calls arbitrary: ds n)
  case (Cons c cs)
  let ?n = "case c of LoadDocument d \<Rightarrow> max n (Suc d) | _ \<Rightarrow> n"
  have "\<forall>x \<in> document_step c ds. x < ?n" using Cons.prems(2) by (cases c) auto
  then show ?case using Cons.IH [of "document_step c ds" ?n] Cons.prems(1) by simp
qed simp

lemma sample_env_ok: "env_ok sample_env"
proof -
  have "next_document calls \<notin> live_documents calls" for calls
    using live_documents_below [of "next_document calls" calls "{}" 0] by (auto simp: live_documents_def next_document_def)
  then have "fresh_documents sample_gui" by (auto simp: fresh_documents_def sample_gui_def)
  then show ?thesis by (simp add: env_ok_def sample_env_def valid_def perform_def modify_def sample_gui_def)
qed

lemma sample_env_calm: "calm_env sample_env"
  by (simp add: calm_env_def sample_env_def valid_def perform_def modify_def)

definition sample_manifest :: app_manifest where
  "sample_manifest = \<lparr>am_id = ''clock'', am_name = ''Clock'', am_localized_names = [], am_version = ''1'', am_kind = Native,
     am_visible = True, am_preload_dom = False, am_icon_id = [], am_supported_systems = [], am_icon_path = [],
     am_runtime_type = UnknownBackend, am_app_path = [], am_entry = [], am_resource_dir = [], am_arguments = [], am_services = []\<rparr>"

definition sample_app :: native_app where
  "sample_app = \<lparr>na_ptr = 7, na_manifest = sample_manifest,
     na_gui = \<lparr>gd_root_kind = RootFile, gd_root = ''main.json'', gd_screen_flows = [\<lparr>sf_screen_flow = ''main'', sf_layer = AppDefault,
       sf_mount_mode = MountReplace, sf_z_order = 0\<rparr>]\<rparr>, na_images = [], na_fonts = []\<rparr>"

text \<open>The state after an act.\<close>

definition after :: "('w sys, 'r) act \<Rightarrow> 'w sys \<Rightarrow> 'w sys" where
  "after m s = (case m s of None \<Rightarrow> s | Some (x, s') \<Rightarrow> s')"

lemma act_result: "map_option fst (m s) = Some x \<Longrightarrow> m s = Some (x, after m s)"
  by (cases "m s") (auto simp: after_def)

definition sample_installed :: "unit sys" where
  "sample_installed = after (install_app sample_env (Some sample_app)) (new_system ())"

definition sample_running :: "unit sys" where
  "sample_running = after (start_app sample_env 1) sample_installed"

lemma sample_install: "install_app sample_env (Some sample_app) (new_system ()) = Some (Inr 1, sample_installed)"
  unfolding sample_installed_def by (rule act_result) code_simp

lemma sample_start: "start_app sample_env 1 sample_installed = Some (Inr (), sample_running)"
  unfolding sample_running_def by (rule act_result) code_simp

lemma sample_system_reachable: "sys_reachable sample_env sample_installed" "sys_reachable sample_env sample_running"
proof -
  show 1: "sys_reachable sample_env sample_installed"
    by (rule sys_reachable.step [OF sys_reachable.new, where c = "CallInstall (Some sample_app)"])
      (code_simp, simp add: sys_step_def plain_def sample_install)
  show "sys_reachable sample_env sample_running"
    by (rule sys_reachable.step [OF 1, where c = "CallStart 1"]) (code_simp, simp add: sys_step_def plain_def sample_start)
qed

lemma sample_states: "sys_inv sample_installed" "sys_inv sample_running"
  "rt_backends sample_installed = []" "rt_backends sample_running = []"
  "map_option view_of (app_of 1 sample_installed) = Some \<lparr>vw_state = Installed, vw_error = [], vw_document = None, vw_root = RootFile, vw_preload = False\<rparr>"
  "map_option view_of (app_of 1 sample_running) = Some \<lparr>vw_state = Running, vw_error = [], vw_document = Some 0, vw_root = RootFile, vw_preload = False\<rparr>"
proof -
  show "sys_inv sample_installed" "sys_inv sample_running" using sys_reachable_inv [OF _ sample_env_ok] sample_system_reachable by blast+
  have "length (rt_backends sample_installed) = 0" "length (rt_backends sample_running) = 0" by code_simp+
  then show "rt_backends sample_installed = []" "rt_backends sample_running = []" by simp_all
qed (code_simp+)

section \<open>The properties\<close>







lemma seq_gets: "seq (gets f) k s = k (f s) s"
  by (simp add: seq_def gets_def)

lemma gone_clean:
  assumes "gone i m s" "i \<noteq> 0"
  shows "co_active (rt_world s) \<noteq> i \<and> owned_images i (co_gui (rt_world s)) = {} \<and> owned_fonts i (co_gui (rt_world s)) = {} \<and>
    live_documents (gs_calls (co_gui (rt_world s))) = ran (document_at (rt_world s)) \<and>
    (\<forall>k. map_of (co_owner_of (rt_world s)) k \<noteq> Some i)"
proof -
  have ok: "apps_ok (rt_world s)" "holdings_ok (rt_world s)" and none: "map_of (co_apps (rt_world s)) i = None"
    using assms(1) by (simp_all add: gone_def sys_inv_def core_ok_def app_of_def)
  have "co_active (rt_world s) \<noteq> i" using apps_okD(3) [OF ok(1)] none assms(2) by auto
  moreover have "map_of (co_owner_of (rt_world s)) k \<noteq> Some i" for k using apps_okD(5) [OF ok(1), of k i] none by auto
  ultimately show ?thesis using no_holdings [OF ok(2) none] ok(2) by (simp add: holdings_ok_def)
qed



lemma close_dialogs_returns:
  assumes "\<And>h res d. length (dg_queue (de_handler (se_dialogs env) h res d)) \<le> length (dg_queue d)"
  shows "returns (close_dialogs env i)"
proof -
  have "\<exists>d'. show_next_message_dialog (se_dialogs env) d = Some d'" for d
    using show_next_loop_returns [OF assms] by (simp add: show_next_message_dialog_def)
  then have "\<exists>d'. close_message_dialogs_for_app (se_dialogs env) i d = Some d'" for d
    by (simp add: close_message_dialogs_for_app_def split: prod.split)
  then show ?thesis unfolding returns_def close_dialogs_def by (auto split: option.split)
qed

lemma stop_returns:
  assumes "\<And>i. returns (close_dialogs env i)"
  shows "returns (cleanup_app_transient_resources env i)" "returns (stop_app_now env i)"
proof -
  show 1: "returns (cleanup_app_transient_resources env i)" for i
    unfolding cleanup_app_transient_resources_def by (intro act_intros assms)
  show "returns (stop_app_now env i)"
    unfolding stop_app_now_def stop_running_app_def stop_app_code_def stop_failed_def by (intro act_intros 1)
qed

lemma start_returns:
  assumes "\<And>i. returns (close_dialogs env i)"
  shows "returns (start_app_now env i)"
  unfolding start_app_now_def start_checked_app_def start_prepared_app_def start_app_code_def rollback_start_def
    started_hook_failed_def start_failed_def requirements_failed_def
  by (intro act_intros stop_returns [OF assms])

lemma install_returns: "returns (enter_app env i r)"
  unfolding enter_app_def undo_install_def Let_def by (intro act_intros)



section \<open>What is lost\<close>

text \<open>Resuming an app that was never started: nothing looks at the state it is in, so a script app that is only
  installed, whose script is not loaded, is recorded as running and active, and a later start of it reports success
  without loading or running anything.\<close>

theorem resume_marks_running:
  assumes "app_of i s = Some r" "ar_kind r = Runtime" "ar_state r = Installed" "ar_runtime r = None" "se_app_post env \<noteq> Some False"
  shows "\<exists>s' r'. resume_app env i s = Some (Inr (), s') \<and> app_of i s' = Some r' \<and> ar_state r' = Running \<and> ar_runtime r' = None \<and>
    ar_document r' = ar_document r \<and> co_active (rt_world s') = i \<and> start_app env i s' = Some (Inr (), s')"
proof -
  let ?s = "set_active i (upd_app i (set_state Running) s)"
  have code: "pause_code env OnResume ''on_resume'' i r s = (Inr (), s)"
    using assms by (simp add: pause_code_def call_runtime_lifecycle_def)
  have "resume_app env i s = Some (Inr (), ?s)"
    using assms(1,5) code by (simp add: resume_app_def on_app_group_def change_pause_def seq_gets get_record_def)
      (simp add: seq_def perform_def modify_def ret_def)
  moreover have r': "app_of i ?s = Some (set_state Running r)"
    using assms(1) by (simp add: set_active_def upd_app_def on_core_def app_of_def)
  moreover have "start_app env i ?s = Some (Inr (), ?s)"
    using assms(5) r' by (simp add: start_app_def on_app_group_def start_app_now_def seq_gets get_record_def set_state_def ret_def)
  ultimately show ?thesis using assms(4) by (auto simp: set_state_def set_active_def on_core_def)
qed

definition sample_script :: app_record where
  "sample_script = new_record 1 (sample_manifest\<lparr>am_kind := Runtime\<rparr>) (na_gui sample_app)"

theorem resume_marks_running_witness:
  "\<exists>s' r'. resume_app sample_env 1 (on_core (\<lambda>c. c\<lparr>co_apps := [(1, sample_script)]\<rparr>) (new_system ())) = Some (Inr (), s') \<and>
     app_of 1 s' = Some r' \<and> ar_state r' = Running \<and> ar_runtime r' = None \<and> ar_document r' = ar_document sample_script \<and>
     co_active (rt_world s') = 1 \<and> start_app sample_env 1 s' = Some (Inr (), s')"
proof (rule resume_marks_running)
  show "app_of 1 (on_core (\<lambda>c. c\<lparr>co_apps := [(1, sample_script)]\<rparr>) (new_system ())) = Some sample_script"
    by (simp add: app_of_def on_core_def)
  show "ar_kind sample_script = Runtime" "ar_state sample_script = Installed" "ar_runtime sample_script = None"
    by (simp_all add: sample_script_def)
  show "se_app_post sample_env \<noteq> Some False" by (simp add: sample_env_def)
qed

text \<open>A timer that fires once while its app is paused is lost: its task leaves the scheduler and the hook does not
  run, then or when the app is resumed, but the app's record keeps the timer.\<close>

theorem paused_timer_lost:
  assumes "app_of i s = Some r" "ar_state r = Paused" "map_of (ar_timers r) t = Some \<lparr>tm_name = n, tm_periodic = False\<rparr>"
    "k = \<lparr>tk_id = t, tk_app_id = i, tk_name = n, tk_periodic = False\<rparr>"
  shows "fire_timer env k PostInline s = on_core (\<lambda>c. c\<lparr>co_tasks := filter (\<lambda>u. tk_id u \<noteq> t) (co_tasks c)\<rparr>) s \<and>
    app_of i (fire_timer env k PostInline s) = Some r"
proof -
  let ?s = "on_core (\<lambda>c. c\<lparr>co_tasks := filter (\<lambda>u. tk_id u \<noteq> t) (co_tasks c)\<rparr>) s"
  have a: "app_of i ?s = Some r" using assms(1) by (simp add: app_of_def on_core_def)
  then have "dispatch_timer env i t n ?s = (Inr (), ?s)" using assms(2,3) by (simp add: dispatch_timer_def get_record_def)
  then have "fire_timer env k PostInline s = ?s" using assms(4) by (simp add: fire_timer_def run_timer_job_def Let_def)
  then show ?thesis using a by simp
qed

definition sample_sleeper :: app_record where
  "sample_sleeper = (set_state Paused sample_script)\<lparr>ar_timers := [(5, \<lparr>tm_name = ''tick'', tm_periodic = False\<rparr>)]\<rparr>"

theorem paused_timer_lost_witness:
  "app_of 1 (fire_timer sample_env \<lparr>tk_id = 5, tk_app_id = 1, tk_name = ''tick'', tk_periodic = False\<rparr> PostInline
     (on_core (\<lambda>c. c\<lparr>co_apps := [(1, sample_sleeper)]\<rparr>) (new_system ()))) = Some sample_sleeper"
  by (rule paused_timer_lost [THEN conjunct2]) (simp_all add: app_of_def on_core_def sample_sleeper_def set_state_def)

section \<open>Screen flows\<close>

definition flow_targets :: "gui_state \<Rightarrow> mount_target set" where
  "flow_targets g = {t. \<exists>d f. StartFlow d f t \<in> set (gs_calls g)}"

lemma flows_do [simp]:
  "flow_targets (gs_do c g) = (case c of StartFlow d f t \<Rightarrow> insert t (flow_targets g) | _ \<Rightarrow> flow_targets g)"
  by (auto simp: flow_targets_def split: gui_call.split)

lemma flows_fields [simp]:
  "flow_targets (g\<lparr>gs_font_owners := f\<rparr>) = flow_targets g" "flow_targets (g\<lparr>gs_image_owners := m\<rparr>) = flow_targets g"
  "flow_targets (g\<lparr>gs_preview_docs := ds\<rparr>) = flow_targets g" "flow_targets (g\<lparr>gs_preview_task := t\<rparr>) = flow_targets g"
  "flow_targets (g\<lparr>gs_cancelled := cs\<rparr>) = flow_targets g"
  by (simp_all add: flow_targets_def)

lemma flows_unregister [simp]:
  "flow_targets (unregister_fonts i xs g) = flow_targets g" "flow_targets (unregister_images i xs g) = flow_targets g"
  by (induction xs arbitrary: g) simp_all

lemma flows_preview [simp]: "flow_targets (remove_live_preview_document d g) = flow_targets g"
  by (simp add: remove_live_preview_document_def stop_live_preview_poll_if_idle_def)

lemma flows_unload: "unload_app_gui env r g = (r', g') \<Longrightarrow> flow_targets g' = flow_targets g"
  by (auto simp: unload_app_gui_def unload_gui_def unregister_app_gui_resources_def split: option.splits if_splits)

lemma flows_resources: "unregister_app_gui_resources env r g = (r', g') \<Longrightarrow> flow_targets g' = flow_targets g"
  by (auto simp: unregister_app_gui_resources_def split: if_splits)

lemma flows_fonts: "register_fonts env dir fs r g = (x, r', g') \<Longrightarrow> flow_targets g' = flow_targets g"
  by (induction fs arbitrary: r g) (fastforce split: sum.splits prod.splits dest: flows_resources)+

lemma flows_images: "register_images env dir fs r g = (x, r', g') \<Longrightarrow> flow_targets g' = flow_targets g"
  by (induction fs arbitrary: r g) (fastforce split: sum.splits prod.splits dest: flows_resources)+

lemma flows_register: "register_app_gui_resources env r g = (x, r', g') \<Longrightarrow> flow_targets g' = flow_targets g"
  by (auto simp: register_app_gui_resources_def Let_def split: if_splits sum.splits prod.splits dest: flows_fonts flows_images)

lemma flows_load: "ensure_gui_loaded env r g = (x, r', g') \<Longrightarrow> flow_targets g' = flow_targets g"
  by (auto simp: ensure_gui_loaded_def enable_live_preview_for_document_def ensure_live_preview_poll_started_def Let_def
      split: if_splits sum.splits prod.splits option.splits)

text \<open>Where a script app may put its screens.\<close>

definition confined :: "mount_target \<Rightarrow> bool" where
  "confined t \<longleftrightarrow> mt_layer t \<in> {LayerDefault, LayerTop} \<and> mt_mount_mode t = MountReplace \<and> 0 \<le> mt_z_order t \<and> mt_z_order t \<le> 100"

lemma flows_start:
  "start_screen_flows env d es r g = (x, r', g') \<Longrightarrow> ar_kind r = Runtime \<Longrightarrow> t \<in> flow_targets g' \<Longrightarrow> t \<in> flow_targets g \<or> confined t"
proof (induction es arbitrary: g)
  case (Cons e es)
  show ?case
  proof (cases "map_manifest_target (ar_kind r) e")
    case (Inl err)
    then show ?thesis using Cons.prems by (auto split: prod.splits dest: flows_unload)
  next
    case (Inr u)
    then have "confined u" using Cons.prems(2)
      by (cases "sf_layer e") (auto simp: map_manifest_target_def confined_def runtime_app_max_z_order_def split: if_splits)
    then show ?thesis using Cons.prems Inr Cons.IH [of "gs_do (StartFlow d (sf_screen_flow e) u) g", OF _ Cons.prems(2,3)]
      by (auto split: prod.splits if_splits sum.splits dest: flows_unload)
  qed
qed simp

text \<open>Whatever the manifest of a script app declares, starting its GUI mounts screens only in the default and the
  top layer for apps, in replace mode and with an order between 0 and 100; the layers of the system stay out of its reach.\<close>

theorem runtime_flows_confined:
  assumes "prepare_app_gui env r g = (x, r', g')" "ar_kind r = Runtime" "t \<in> flow_targets g'" "t \<notin> flow_targets g"
  shows "confined t"
proof -
  obtain y r1 g1 where y: "register_app_gui_resources env r g = (y, r1, g1)" by (metis surj_pair)
  obtain z r2 g2 where z: "ensure_gui_loaded env r1 g1 = (z, r2, g2)" by (metis surj_pair)
  have f: "flow_targets g2 = flow_targets g" "flow_targets g1 = flow_targets g" using flows_register [OF y] flows_load [OF z] by simp_all
  have "r1 = r" using y assms(2) by (simp add: register_app_gui_resources_def)
  then have k: "ar_kind r2 = Runtime" using z assms(2)
    by (auto simp: ensure_gui_loaded_def Let_def split: if_splits sum.splits prod.splits)
  show ?thesis
  proof (cases "start_screen_flows env (the (ar_document r2)) (gd_screen_flows (ar_gui r2)) r2 g2 = (x, r', g')")
    case True
    from flows_start [OF this k assms(3)] show ?thesis using f assms(4) by blast
  next
    case False
    then have "flow_targets g' = flow_targets g" using assms(1) y z f
      by (auto simp: prepare_app_gui_def split: sum.splits option.splits prod.splits dest: flows_resources)
    then show ?thesis using assms(3,4) by blast
  qed
qed

theorem runtime_flows_confined_witness:
  "\<exists>x r' g'. prepare_app_gui sample_gui sample_script new_gui = (x, r', g') \<and> confined \<lparr>mt_display_id = [], mt_layer = LayerDefault, mt_mount_mode = MountReplace, mt_z_order = 0\<rparr>"
proof -
  let ?t = "\<lparr>mt_display_id = [], mt_layer = LayerDefault, mt_mount_mode = MountReplace, mt_z_order = 0\<rparr>"
  obtain x r' g' where p: "prepare_app_gui sample_gui sample_script new_gui = (x, r', g')" by (metis surj_pair)
  have "gs_calls (snd (snd (prepare_app_gui sample_gui sample_script new_gui))) = [LoadDocument 0, StartFlow 0 ''main'' ?t]" by code_simp
  then have "?t \<in> flow_targets g'" using p by (auto simp: flow_targets_def)
  moreover have "?t \<notin> flow_targets new_gui" by (simp add: flow_targets_def new_gui_def new_bindings_def)
  moreover have "ar_kind sample_script = Runtime" by (simp add: sample_script_def)
  ultimately show ?thesis using runtime_flows_confined [OF p] p by blast
qed

end
