(* ===== verification/Task_Scheduler.thy ===== *)
theory Task_Scheduler
  imports Prelude
begin

text \<open>
  The task scheduler of \<open>brookesia_lib_utils\<close> (\<open>task_scheduler.cpp\<close>, \<open>task_scheduler_impl.hpp\<close>,
  \<open>task_scheduler_types.hpp\<close>).

  A task handle is shared between the map \<open>tasks_\<close> and the closures that wait in Boost's \<open>io_context\<close>,
  so it stays in \<open>sc_handle\<close> under its id when the map forgets it. What is handed to the \<open>io_context\<close> is
  the list \<open>sc_waits\<close>; of Boost it is only used that a handler is called at most once for each time
  it was handed over, with an error code that tells whether its timer was cancelled. When and with which
  code is left open.

  Operations that hold the mutex are one function each. What runs without it, the handlers and the
  posting of a task, is an activity that advances from one stage to the next, and the activities of all
  threads interleave with everything else; the code of a task and the callbacks is what happens in between.
  An undefined access (a timer or an \<open>io_context\<close> that is gone) is \<open>None\<close>. Time is in nanoseconds. Task
  ids count up in 64 bits and are natural numbers here, as no run uses them up; the statistics keep their
  width. The variant of the class for single-threaded web builds is not modelled.
\<close>

section \<open>Handles\<close>

datatype task_type = Task_Immediate | Task_Delayed | Task_Periodic

datatype task_state = Task_Running | Task_Suspended | Task_Canceled | Task_Finished

datatype task_future = Future_None | Future_Pending | Future_Value bool

type_synonym TaskId = nat
type_synonym strand = nat

record task_handle =
  th_timer :: "int option"
  th_strand :: "strand option"
  th_state :: task_state
  th_type :: task_type
  th_repeat :: bool
  th_interval :: int
  th_group :: string
  th_promise :: bool
  th_future :: task_future
  th_executing :: bool
  th_suspend_time :: int
  th_remaining :: int
  th_saved :: bool

text \<open>\<open>th_timer\<close> is the expiry of the timer if there is one, \<open>th_saved\<close> whether the closure saved for
  suspending is not empty.\<close>

definition new_handle :: task_handle where
  "new_handle = \<lparr>th_timer = None, th_strand = None, th_state = Task_Running, th_type = Task_Immediate,
     th_repeat = False, th_interval = 0, th_group = [], th_promise = False, th_future = Future_None,
     th_executing = False, th_suspend_time = 0, th_remaining = 0, th_saved = False\<rparr>"

section \<open>State\<close>

text \<open>The closures given to Boost, by the function that makes them; the last one holds the interval.\<close>

datatype wait_job = Run_Posted | Fire_Once | Fire_Periodic | Fire_Resumed int

type_synonym async_wait = "TaskId \<times> wait_job \<times> strand option"

datatype error_code = Ec_None | Ec_Aborted | Ec_Other

text \<open>How far a thread is: the first four in posting a task, the others in a handler.\<close>

datatype stage =
    Registered bool
  | Equipped bool
  | Saved
  | Enqueueing "strand option"
  | Removing
  | Checked wait_job
  | Starting wait_job
  | Skipping wait_job
  | Executing wait_job
  | Rearming bool
  | Finishing wait_job bool
  | Closing wait_job bool
  | Leaving bool

type_synonym activity = "TaskId \<times> stage"

datatype user_call =
    Call_Pre nat string TaskId task_type
  | Call_Task TaskId
  | Call_Post nat string TaskId task_type bool

record scheduler =
  sc_running :: bool
  sc_io :: bool
  sc_stopping :: bool
  sc_workers :: nat
  sc_tasks :: "TaskId list"
  sc_groups :: "(string, TaskId list) smap"
  sc_strands :: "(string, strand) smap"
  sc_next_strand :: nat
  sc_next_id :: nat
  sc_total :: u64
  sc_completed :: u64
  sc_failed :: u64
  sc_canceled :: u64
  sc_suspended :: u64
  sc_pre_callbacks :: "(string, nat) smap"
  sc_post_callbacks :: "(string, nat) smap"
  sc_handle :: "TaskId \<Rightarrow> task_handle"
  sc_waits :: "async_wait list"
  sc_active :: "activity list"
  sc_calls :: "user_call list"

text \<open>\<open>sc_tasks\<close> are the keys of \<open>tasks_\<close>; \<open>sc_stopping\<close> holds from the stop of the \<open>io_context\<close> on;
  \<open>sc_calls\<close> lists the calls of tasks and callbacks.\<close>

definition new_scheduler :: scheduler where
  "new_scheduler = \<lparr>sc_running = False, sc_io = False, sc_stopping = False, sc_workers = 0, sc_tasks = [],
     sc_groups = [], sc_strands = [], sc_next_strand = 0, sc_next_id = 1, sc_total = 0, sc_completed = 0,
     sc_failed = 0, sc_canceled = 0, sc_suspended = 0, sc_pre_callbacks = [], sc_post_callbacks = [],
     sc_handle = (\<lambda>_. new_handle), sc_waits = [], sc_active = [], sc_calls = []\<rparr>"

definition on_handle :: "TaskId \<Rightarrow> (task_handle \<Rightarrow> task_handle) \<Rightarrow> scheduler \<Rightarrow> scheduler" where
  "on_handle i f s = s\<lparr>sc_handle := (sc_handle s)(i := f (sc_handle s i))\<rparr>"

definition members :: "scheduler \<Rightarrow> string \<Rightarrow> TaskId list" where
  "members s g = (case map_of (sc_groups s) g of None \<Rightarrow> [] | Some ids \<Rightarrow> ids)"

definition task_runs :: "TaskId \<Rightarrow> scheduler \<Rightarrow> nat" where
  "task_runs i s = length (filter (\<lambda>c. c = Call_Task i) (sc_calls s))"

section \<open>Removing a task\<close>

text \<open>A task leaves its group and the map; its timer is released.\<close>

definition leave_group :: "TaskId \<Rightarrow> string \<Rightarrow> scheduler \<Rightarrow> scheduler" where
  "leave_group i g s =
     (if g = [] then s
      else case map_of (sc_groups s) g of
        None \<Rightarrow> s
      | Some ids \<Rightarrow>
          (let ids' = filter (\<lambda>j. j \<noteq> i) ids
           in s\<lparr>sc_groups := (if ids' = [] then smap_del g (sc_groups s) else smap_put g ids' (sc_groups s))\<rparr>))"

definition remove_task_internal :: "TaskId \<Rightarrow> string \<Rightarrow> scheduler \<Rightarrow> scheduler" where
  "remove_task_internal i g s =
     (let s = leave_group i g s
      in if i \<in> set (sc_tasks s)
         then (on_handle i (\<lambda>h. h\<lparr>th_timer := None\<rparr>) s)\<lparr>sc_tasks := filter (\<lambda>j. j \<noteq> i) (sc_tasks s)\<rparr>
         else s)"

definition resolve_promise :: "bool \<Rightarrow> task_handle \<Rightarrow> task_handle" where
  "resolve_promise v h = (if th_promise h then h\<lparr>th_promise := False, th_future := Future_Value v\<rparr> else h)"

section \<open>Timers\<close>

text \<open>\<open>expires_after\<close> and \<open>async_wait\<close>. The waits that were pending on the timer complete with an error.\<close>

definition ns_per_ms :: int where "ns_per_ms = 1000000"

definition arm_timer :: "TaskId \<Rightarrow> int \<Rightarrow> wait_job \<Rightarrow> int \<Rightarrow> scheduler \<Rightarrow> scheduler option" where
  "arm_timer i ms job now s =
     (if sc_io s \<and> th_timer (sc_handle s i) \<noteq> None
      then Some ((on_handle i (\<lambda>h. h\<lparr>th_timer := Some (now + ms * ns_per_ms)\<rparr>) s)
        \<lparr>sc_waits := sc_waits s @ [(i, job, th_strand (sc_handle s i))]\<rparr>)
      else None)"

definition schedule_once :: "TaskId \<Rightarrow> int \<Rightarrow> scheduler \<Rightarrow> scheduler option" where
  "schedule_once i now s = arm_timer i (th_interval (sc_handle s i)) Fire_Once now s"

definition schedule_periodic :: "TaskId \<Rightarrow> int \<Rightarrow> scheduler \<Rightarrow> scheduler option" where
  "schedule_periodic i now s = arm_timer i (th_interval (sc_handle s i)) Fire_Periodic now s"

text \<open>\<open>duration_cast\<close> to milliseconds rounds toward zero.\<close>

definition to_ms :: "int \<Rightarrow> int" where
  "to_ms d = (if 0 \<le> d then d div ns_per_ms else - ((- d) div ns_per_ms))"

section \<open>Posting\<close>

text \<open>\<open>create_handle\<close> up to the end of its locked part. The closure of the task is empty unless \<open>full\<close>.\<close>

definition register_handle :: "task_type \<Rightarrow> bool \<Rightarrow> int \<Rightarrow> string \<Rightarrow> scheduler \<Rightarrow> TaskId \<times> scheduler" where
  "register_handle ty rep ms g s =
     (let i = sc_next_id s;
          h = new_handle\<lparr>th_type := ty, th_repeat := rep, th_interval := ms, th_group := g,
            th_strand := (if g = [] then None else map_of (sc_strands s) g)\<rparr>
      in (i, s\<lparr>sc_next_id := i + 1, sc_handle := (sc_handle s)(i := h), sc_tasks := sc_tasks s @ [i],
            sc_groups := (if g = [] then sc_groups s else smap_put g (members s g @ [i]) (sc_groups s)),
            sc_total := sc_total s + 1\<rparr>))"

text \<open>The rest of it.\<close>

definition equip_handle :: "TaskId \<Rightarrow> scheduler \<Rightarrow> scheduler option" where
  "equip_handle i s =
     (if sc_io s
      then Some (on_handle i (\<lambda>h. h\<lparr>th_timer := Some 0, th_promise := True, th_future := Future_Pending\<rparr>) s)
      else None)"

definition begin_post :: "task_type \<Rightarrow> int \<Rightarrow> string \<Rightarrow> bool \<Rightarrow> scheduler \<Rightarrow> TaskId option \<times> scheduler" where
  "begin_post ty ms g full s =
     (if \<not> sc_running s then (None, s)
      else let (i, s) = register_handle ty (ty = Task_Periodic) (if ty = Task_Immediate then 0 else ms) g s
           in (Some i, s\<lparr>sc_active := (i, Registered full) # sc_active s\<rparr>))"

definition post_to_io :: "TaskId \<Rightarrow> strand option \<Rightarrow> scheduler \<Rightarrow> scheduler option" where
  "post_to_io i st s = (if sc_io s then Some (s\<lparr>sc_waits := sc_waits s @ [(i, Run_Posted, st)]\<rparr>) else None)"

section \<open>Handlers\<close>

definition callbacks_for :: "(string, nat) smap \<Rightarrow> string \<Rightarrow> nat list" where
  "callbacks_for cbs g =
     (case map_of cbs [] of None \<Rightarrow> [] | Some c \<Rightarrow> [c])
     @ (if g = [] then [] else case map_of cbs g of None \<Rightarrow> [] | Some c \<Rightarrow> [c])"

definition invoke_pre_execute_callback :: "TaskId \<Rightarrow> scheduler \<Rightarrow> scheduler" where
  "invoke_pre_execute_callback i s =
     (let h = sc_handle s i
      in s\<lparr>sc_calls := sc_calls s
             @ map (\<lambda>c. Call_Pre c (th_group h) i (th_type h)) (callbacks_for (sc_pre_callbacks s) (th_group h))\<rparr>)"

definition invoke_post_execute_callback :: "TaskId \<Rightarrow> bool \<Rightarrow> scheduler \<Rightarrow> scheduler" where
  "invoke_post_execute_callback i ok s =
     (let h = sc_handle s i
      in s\<lparr>sc_calls := sc_calls s
             @ map (\<lambda>c. Call_Post c (th_group h) i (th_type h) ok) (callbacks_for (sc_post_callbacks s) (th_group h))\<rparr>)"

text \<open>What a task does: it returns (a periodic one whether to go on), throws a \<open>std::exception\<close>, or is
  interrupted with its worker thread, which is not such an exception.\<close>

datatype task_result = Task_Returned bool | Task_Threw | Task_Interrupted

definition returned :: "task_result \<Rightarrow> bool" where
  "returned r = (case r of Task_Returned _ \<Rightarrow> True | _ \<Rightarrow> False)"

definition is_periodic_job :: "wait_job \<Rightarrow> bool" where
  "is_periodic_job job = (case job of Fire_Periodic \<Rightarrow> True | Fire_Resumed _ \<Rightarrow> True | _ \<Rightarrow> False)"

definition is_resumed_job :: "wait_job \<Rightarrow> bool" where
  "is_resumed_job job = (case job of Fire_Resumed _ \<Rightarrow> True | _ \<Rightarrow> False)"

text \<open>The tests at the start of a handler.\<close>

definition begin_handler :: "TaskId \<Rightarrow> wait_job \<Rightarrow> error_code \<Rightarrow> scheduler \<Rightarrow> stage option" where
  "begin_handler i job ec s =
     (let st = th_state (sc_handle s i)
      in case job of
        Run_Posted \<Rightarrow> Some (if st = Task_Canceled then Removing else Checked job)
      | _ \<Rightarrow>
          if st = Task_Suspended then None
          else if ec \<noteq> Ec_None \<or> st = Task_Canceled
          then (if ec = Ec_Aborted \<and> st = Task_Running \<and> \<not> is_resumed_job job then None else Some Removing)
          else Some (Checked job))"

definition restore_interval :: "wait_job \<Rightarrow> task_handle \<Rightarrow> task_handle" where
  "restore_interval job h = (case job of Fire_Resumed n \<Rightarrow> h\<lparr>th_interval := n\<rparr> | _ \<Rightarrow> h)"

definition goes_on :: "task_handle \<Rightarrow> bool" where
  "goes_on h \<longleftrightarrow> th_repeat h \<and> th_state h = Task_Running"

text \<open>The two parts of \<open>mark_finished\<close>.\<close>

definition mark_state :: "TaskId \<Rightarrow> bool \<Rightarrow> scheduler \<Rightarrow> scheduler" where
  "mark_state i ok s =
     (let s = on_handle i (\<lambda>h. h\<lparr>th_state := Task_Finished\<rparr>) s
      in if ok then s\<lparr>sc_completed := sc_completed s + 1\<rparr> else s\<lparr>sc_failed := sc_failed s + 1\<rparr>)"

definition close_task :: "TaskId \<Rightarrow> bool \<Rightarrow> scheduler \<Rightarrow> scheduler" where
  "close_task i ok s = remove_task_internal i (th_group (sc_handle s i)) (on_handle i (resolve_promise ok) s)"

text \<open>The end of a task's code: the guard of a once task, the continuation of a periodic one.\<close>

definition end_of_task :: "TaskId \<Rightarrow> wait_job \<Rightarrow> task_result \<Rightarrow> scheduler \<Rightarrow> stage \<times> scheduler" where
  "end_of_task i job r s =
     (if \<not> is_periodic_job job
      then (let ok = returned r in (Finishing job ok, invoke_post_execute_callback i ok s))
      else case r of
        Task_Returned c \<Rightarrow>
          if c \<and> goes_on (sc_handle s i) then (Rearming True, on_handle i (restore_interval job) s)
          else (Finishing job True, s)
      | Task_Threw \<Rightarrow> (Finishing job False, on_handle i (\<lambda>h. h\<lparr>th_executing := False\<rparr>) s)
      | Task_Interrupted \<Rightarrow> (Leaving False, s))"

text \<open>One step of an activity: the stage that follows, if any.\<close>

fun advance :: "int \<Rightarrow> task_result \<Rightarrow> TaskId \<Rightarrow> stage \<Rightarrow> scheduler \<Rightarrow> (stage option \<times> scheduler) option" where
  "advance now r i (Registered full) s = map_option (\<lambda>s. (Some (Equipped full), s)) (equip_handle i s)"
| "advance now r i (Equipped full) s =
     (let h = sc_handle s i
      in if th_type h = Task_Immediate then Some (Some (Enqueueing (map_of (sc_strands s) (th_group h))), s)
         else Some (Some Saved, on_handle i (\<lambda>h. h\<lparr>th_saved := full\<rparr>) s))"
| "advance now r i Saved s =
     map_option (\<lambda>s. (None, s))
       (if th_type (sc_handle s i) = Task_Delayed then schedule_once i now s else schedule_periodic i now s)"
| "advance now r i (Enqueueing st) s = map_option (\<lambda>s. (None, s)) (post_to_io i st s)"
| "advance now r i Removing s = Some (None, remove_task_internal i (th_group (sc_handle s i)) s)"
| "advance now r i (Checked job) s =
     (if is_periodic_job job
      then (if th_executing (sc_handle s i) then Some (Some (Skipping job), s)
            else Some (Some (Starting job), on_handle i (\<lambda>h. h\<lparr>th_executing := True\<rparr>) s))
      else Some (Some (Starting job), s))"
| "advance now r i (Starting job) s =
     (let s = invoke_pre_execute_callback i s
      in Some (Some (Executing job), s\<lparr>sc_calls := sc_calls s @ [Call_Task i]\<rparr>))"
| "advance now r i (Skipping job) s =
     (if goes_on (sc_handle s i) then Some (Some (Rearming False), on_handle i (restore_interval job) s)
      else Some (None, s))"
| "advance now r i (Executing job) s = (let (st, s) = end_of_task i job r s in Some (Some st, s))"
| "advance now r i (Rearming executed) s =
     map_option (\<lambda>s. (if executed then Some (Leaving True) else None, s)) (schedule_periodic i now s)"
| "advance now r i (Finishing job ok) s = Some (Some (Closing job ok), mark_state i ok s)"
| "advance now r i (Closing job ok) s =
     Some (if is_periodic_job job then Some (Leaving ok) else None, close_task i ok s)"
| "advance now r i (Leaving ok) s =
     Some (None, invoke_post_execute_callback i ok (on_handle i (\<lambda>h. h\<lparr>th_executing := False\<rparr>) s))"

text \<open>An activity goes on; a handler that Boost calls becomes one.\<close>

definition step_activity :: "int \<Rightarrow> task_result \<Rightarrow> activity \<Rightarrow> scheduler \<Rightarrow> scheduler option" where
  "step_activity now r a s =
     (case advance now r (fst a) (snd a) (s\<lparr>sc_active := remove1 a (sc_active s)\<rparr>) of
        None \<Rightarrow> None
      | Some (None, s) \<Rightarrow> Some s
      | Some (Some st, s) \<Rightarrow> Some (s\<lparr>sc_active := (fst a, st) # sc_active s\<rparr>))"

definition call_handler :: "async_wait \<Rightarrow> error_code \<Rightarrow> scheduler \<Rightarrow> scheduler" where
  "call_handler w ec s =
     (let s = s\<lparr>sc_waits := remove1 w (sc_waits s)\<rparr>
      in case begin_handler (fst w) (fst (snd w)) ec s of
        None \<Rightarrow> s
      | Some st \<Rightarrow> s\<lparr>sc_active := (fst w, st) # sc_active s\<rparr>)"

section \<open>Cancelling, suspending and resuming\<close>

definition cancel_internal :: "TaskId \<Rightarrow> scheduler \<Rightarrow> scheduler" where
  "cancel_internal i s =
     (if i \<in> set (sc_tasks s)
      then remove_task_internal i (th_group (sc_handle s i))
        (on_handle i (\<lambda>h. resolve_promise False (h\<lparr>th_state := Task_Canceled\<rparr>)) s)
          \<lparr>sc_canceled := sc_canceled s + 1\<rparr>
      else s)"

definition suspend_handle :: "int \<Rightarrow> task_handle \<Rightarrow> task_handle" where
  "suspend_handle now h =
     (case th_timer h of
        None \<Rightarrow> h\<lparr>th_state := Task_Suspended\<rparr>
      | Some x \<Rightarrow> h\<lparr>th_remaining := to_ms (x - now), th_suspend_time := now, th_state := Task_Suspended\<rparr>)"

definition can_suspend :: "task_handle \<Rightarrow> bool" where
  "can_suspend h \<longleftrightarrow> th_type h = Task_Delayed \<or> th_type h = Task_Periodic"

definition suspend_internal :: "int \<Rightarrow> TaskId \<Rightarrow> scheduler \<Rightarrow> bool \<times> scheduler" where
  "suspend_internal now i s =
     (if i \<in> set (sc_tasks s) \<and> can_suspend (sc_handle s i) \<and> th_state (sc_handle s i) = Task_Running
      then (True, (on_handle i (suspend_handle now) s)\<lparr>sc_suspended := sc_suspended s + 1\<rparr>)
      else (False, s))"

text \<open>A resumed task fires after what remained; a delayed one keeps its interval for later.\<close>

definition resume_internal :: "int \<Rightarrow> TaskId \<Rightarrow> scheduler \<Rightarrow> (bool \<times> scheduler) option" where
  "resume_internal now i s =
     (if i \<in> set (sc_tasks s) \<and> can_suspend (sc_handle s i) \<and> th_state (sc_handle s i) = Task_Suspended
      then (let h = sc_handle s i;
                delay = max 0 (th_remaining h);
                s = (on_handle i (\<lambda>h. h\<lparr>th_state := Task_Running\<rparr>) s)\<lparr>sc_suspended := sc_suspended s - 1\<rparr>
            in if \<not> th_saved h then Some (False, s)
               else if th_type h = Task_Delayed
               then map_option (\<lambda>s. (True, on_handle i (\<lambda>h'. h'\<lparr>th_interval := th_interval h\<rparr>) s))
                 (schedule_once i now (on_handle i (\<lambda>h. h\<lparr>th_interval := delay\<rparr>) s))
               else map_option (\<lambda>s. (True, s)) (arm_timer i delay (Fire_Resumed (th_interval h)) now s))
      else Some (False, s))"

definition restart_timer :: "int \<Rightarrow> TaskId \<Rightarrow> scheduler \<Rightarrow> (bool \<times> scheduler) option" where
  "restart_timer now i s =
     (let h = sc_handle s i
      in if \<not> sc_running s \<or> i \<notin> set (sc_tasks s) \<or> \<not> can_suspend h \<or> th_state h \<noteq> Task_Running then Some (False, s)
         else if th_timer h = None then Some (True, s)
         else if \<not> th_saved h then Some (False, s)
         else map_option (\<lambda>s. (True, s))
           (if th_type h = Task_Delayed then schedule_once i now s else schedule_periodic i now s))"

section \<open>Operations on one task, a group or all\<close>

text \<open>The ids of a group come in the order of the unordered set, \<open>ids\<close>; a loop counts its successes.\<close>

fun cancel_each :: "TaskId list \<Rightarrow> scheduler \<Rightarrow> scheduler" where
  "cancel_each [] s = s"
| "cancel_each (i # ids) s = cancel_each ids (cancel_internal i s)"

fun suspend_each :: "int \<Rightarrow> TaskId list \<Rightarrow> scheduler \<Rightarrow> nat \<times> scheduler" where
  "suspend_each now [] s = (0, s)"
| "suspend_each now (i # ids) s =
     (let (ok, s) = suspend_internal now i s; (n, s) = suspend_each now ids s in (n + (if ok then 1 else 0), s))"

fun resume_each :: "int \<Rightarrow> TaskId list \<Rightarrow> scheduler \<Rightarrow> (nat \<times> scheduler) option" where
  "resume_each now [] s = Some (0, s)"
| "resume_each now (i # ids) s =
     (case resume_internal now i s of
        None \<Rightarrow> None
      | Some (ok, s) \<Rightarrow> map_option (\<lambda>(n, s). (n + (if ok then 1 else 0), s)) (resume_each now ids s))"

definition cancel :: "TaskId \<Rightarrow> scheduler \<Rightarrow> scheduler" where
  "cancel i s = (if sc_running s then cancel_internal i s else s)"

definition cancel_group :: "TaskId list \<Rightarrow> string \<Rightarrow> scheduler \<Rightarrow> scheduler" where
  "cancel_group ids g s = (if sc_running s \<and> map_of (sc_groups s) g \<noteq> None then cancel_each ids s else s)"

definition cancel_all :: "scheduler \<Rightarrow> scheduler" where
  "cancel_all s = (if sc_running s then cancel_each (sc_tasks s) s else s)"

definition suspend :: "int \<Rightarrow> TaskId \<Rightarrow> scheduler \<Rightarrow> bool \<times> scheduler" where
  "suspend now i s = (if sc_running s then suspend_internal now i s else (False, s))"

definition suspend_group :: "int \<Rightarrow> TaskId list \<Rightarrow> string \<Rightarrow> scheduler \<Rightarrow> nat \<times> scheduler" where
  "suspend_group now ids g s =
     (if sc_running s \<and> map_of (sc_groups s) g \<noteq> None then suspend_each now ids s else (0, s))"

definition suspend_all :: "int \<Rightarrow> scheduler \<Rightarrow> nat \<times> scheduler" where
  "suspend_all now s = (if sc_running s then suspend_each now (sc_tasks s) s else (0, s))"

definition resume :: "int \<Rightarrow> TaskId \<Rightarrow> scheduler \<Rightarrow> (bool \<times> scheduler) option" where
  "resume now i s = (if sc_running s then resume_internal now i s else Some (False, s))"

definition resume_group :: "int \<Rightarrow> TaskId list \<Rightarrow> string \<Rightarrow> scheduler \<Rightarrow> (nat \<times> scheduler) option" where
  "resume_group now ids g s =
     (if sc_running s \<and> map_of (sc_groups s) g \<noteq> None then resume_each now ids s else Some (0, s))"

definition resume_all :: "int \<Rightarrow> scheduler \<Rightarrow> (nat \<times> scheduler) option" where
  "resume_all now s = (if sc_running s then resume_each now (sc_tasks s) s else Some (0, s))"

section \<open>Groups, statistics and queries\<close>

record group_config =
  gc_serial :: bool
  gc_parent :: string
  gc_pre :: "nat option"
  gc_post :: "nat option"

definition set_callback :: "string \<Rightarrow> nat option \<Rightarrow> (string, nat) smap \<Rightarrow> (string, nat) smap" where
  "set_callback g c cbs = (case c of Some c \<Rightarrow> smap_put g c cbs | None \<Rightarrow> smap_del g cbs)"

definition configure_group :: "string \<Rightarrow> group_config \<Rightarrow> scheduler \<Rightarrow> bool \<times> scheduler" where
  "configure_group g cfg s =
     (let callbacks = (\<lambda>s. s\<lparr>sc_pre_callbacks := set_callback g (gc_pre cfg) (sc_pre_callbacks s),
            sc_post_callbacks := set_callback g (gc_post cfg) (sc_post_callbacks s)\<rparr>)
      in if \<not> sc_running s \<or> g = [] then (False, s)
         else if gc_parent cfg \<noteq> []
         then (case map_of (sc_strands s) (gc_parent cfg) of
             None \<Rightarrow> (False, s)
           | Some st \<Rightarrow> (True, callbacks (s\<lparr>sc_strands := smap_put g st (sc_strands s)\<rparr>)))
         else if gc_serial cfg \<and> map_of (sc_strands s) g = None
         then (True, callbacks (s\<lparr>sc_strands := smap_put g (sc_next_strand s) (sc_strands s),
             sc_next_strand := sc_next_strand s + 1\<rparr>))
         else (True, callbacks s))"

definition reset_statistics :: "scheduler \<Rightarrow> scheduler" where
  "reset_statistics s = s\<lparr>sc_total := 0, sc_completed := 0, sc_failed := 0, sc_canceled := 0, sc_suspended := 0\<rparr>"

definition get_type :: "TaskId \<Rightarrow> scheduler \<Rightarrow> task_type" where
  "get_type i s = (if i \<in> set (sc_tasks s) then th_type (sc_handle s i) else Task_Immediate)"

definition get_state :: "TaskId \<Rightarrow> scheduler \<Rightarrow> task_state" where
  "get_state i s = (if i \<in> set (sc_tasks s) then th_state (sc_handle s i) else Task_Finished)"

definition get_group :: "TaskId \<Rightarrow> scheduler \<Rightarrow> string" where
  "get_group i s = (if i \<in> set (sc_tasks s) then th_group (sc_handle s i) else [])"

definition get_group_task_count :: "string \<Rightarrow> scheduler \<Rightarrow> nat" where
  "get_group_task_count g s = length (members s g)"

definition get_active_groups :: "scheduler \<Rightarrow> string list" where
  "get_active_groups s = map fst (sc_groups s)"

definition get_worker_count :: "scheduler \<Rightarrow> nat" where
  "get_worker_count s = sc_workers s"

text \<open>\<open>inside\<close> tells of a strand whether the calling thread runs in it.\<close>

definition is_current_thread_in_group :: "(strand \<Rightarrow> bool) \<Rightarrow> string \<Rightarrow> scheduler \<Rightarrow> bool" where
  "is_current_thread_in_group inside g s = (case map_of (sc_strands s) g of None \<Rightarrow> False | Some st \<Rightarrow> inside st)"

section \<open>Starting and stopping\<close>

record start_config =
  cf_workers :: nat
  cf_pre :: "nat option"
  cf_post :: "nat option"

text \<open>\<open>stop\<close> cancels all tasks and stops the \<open>io_context\<close>; when its threads have ended, it clears the
  maps and then marks itself stopped. \<open>thread_group\<close> keeps the threads that have ended: \<open>join_all\<close>
  does not remove them, and nothing else does.\<close>

fun stop_each :: "TaskId list \<Rightarrow> scheduler \<Rightarrow> scheduler" where
  "stop_each [] s = s"
| "stop_each (i # ids) s =
     stop_each ids ((on_handle i (\<lambda>h. resolve_promise False (h\<lparr>th_state := Task_Canceled, th_timer := None\<rparr>)) s)
       \<lparr>sc_canceled := sc_canceled s + 1\<rparr>)"

definition stop_cancel :: "scheduler \<Rightarrow> scheduler" where
  "stop_cancel s = (stop_each (sc_tasks s) s)\<lparr>sc_stopping := True\<rparr>"

definition stop_clear :: "scheduler \<Rightarrow> scheduler" where
  "stop_clear s = s\<lparr>sc_tasks := [], sc_groups := [], sc_strands := [], sc_pre_callbacks := [],
     sc_post_callbacks := [], sc_io := False, sc_waits := []\<rparr>"

definition stop_done :: "scheduler \<Rightarrow> scheduler" where
  "stop_done s = s\<lparr>sc_running := False, sc_stopping := False\<rparr>"

definition stop :: "scheduler \<Rightarrow> scheduler" where
  "stop s = (if sc_running s then stop_done (stop_clear (stop_cancel s)) else s)"

text \<open>\<open>created\<close> of the worker threads could be made; when one could not, the scheduler is stopped again.\<close>

definition start :: "start_config \<Rightarrow> nat \<Rightarrow> scheduler \<Rightarrow> bool \<times> scheduler" where
  "start cfg created s =
     (if sc_running s then (True, s)
      else let s = (reset_statistics s)\<lparr>sc_io := True, sc_running := True,
                 sc_pre_callbacks := set_callback [] (cf_pre cfg) [],
                 sc_post_callbacks := set_callback [] (cf_post cfg) [],
                 sc_workers := sc_workers s + min created (cf_workers cfg)\<rparr>
           in if created < cf_workers cfg then (False, stop s) else (True, s))"

section \<open>Posting without interruption\<close>

fun run_post :: "int \<Rightarrow> nat \<Rightarrow> TaskId \<Rightarrow> stage \<Rightarrow> scheduler \<Rightarrow> scheduler option" where
  "run_post now 0 i st s = Some (s\<lparr>sc_active := (i, st) # sc_active s\<rparr>)"
| "run_post now (Suc n) i st s =
     (case advance now (Task_Returned False) i st s of
        None \<Rightarrow> None
      | Some (None, s) \<Rightarrow> Some s
      | Some (Some st, s) \<Rightarrow> run_post now n i st s)"

text \<open>A post takes three steps from the registered handle on.\<close>

definition post_task_of :: "task_type \<Rightarrow> int \<Rightarrow> string \<Rightarrow> bool \<Rightarrow> int \<Rightarrow> scheduler \<Rightarrow> (TaskId option \<times> scheduler) option" where
  "post_task_of ty ms g full now s =
     (if \<not> sc_running s then Some (None, s)
      else let (i, s) = register_handle ty (ty = Task_Periodic) (if ty = Task_Immediate then 0 else ms) g s
           in map_option (\<lambda>s. (Some i, s)) (run_post now 3 i (Registered full) s))"

definition post :: "string \<Rightarrow> bool \<Rightarrow> int \<Rightarrow> scheduler \<Rightarrow> (TaskId option \<times> scheduler) option" where
  "post g full now s = post_task_of Task_Immediate 0 g full now s"

definition post_delayed :: "int \<Rightarrow> string \<Rightarrow> bool \<Rightarrow> int \<Rightarrow> scheduler \<Rightarrow> (TaskId option \<times> scheduler) option" where
  "post_delayed ms g full now s = post_task_of Task_Delayed ms g full now s"

definition post_periodic :: "int \<Rightarrow> string \<Rightarrow> bool \<Rightarrow> int \<Rightarrow> scheduler \<Rightarrow> (TaskId option \<times> scheduler) option" where
  "post_periodic ms g full now s = post_task_of Task_Periodic ms g full now s"

text \<open>The ids of a batch, also those posted before a failure.\<close>

fun post_each :: "bool list \<Rightarrow> string \<Rightarrow> int \<Rightarrow> scheduler \<Rightarrow> (bool \<times> TaskId list \<times> scheduler) option" where
  "post_each [] g now s = Some (True, [], s)"
| "post_each (full # ts) g now s =
     (case post g full now s of
        None \<Rightarrow> None
      | Some (None, s) \<Rightarrow> Some (False, [], s)
      | Some (Some i, s) \<Rightarrow> map_option (\<lambda>(ok, ids, s). (ok, i # ids, s)) (post_each ts g now s))"

definition post_batch :: "bool list \<Rightarrow> string \<Rightarrow> int \<Rightarrow> scheduler \<Rightarrow> (bool \<times> TaskId list \<times> scheduler) option" where
  "post_batch ts g now s = (if sc_running s then post_each ts g now s else Some (False, [], s))"

section \<open>Waiting\<close>

text \<open>\<open>ready i\<close> is the time since the start of the wait at which task \<open>i\<close> is finished or cancelled, if it
  ever is, \<open>up e\<close> whether the scheduler runs at time \<open>e\<close>; the result has the time of the return. A negative
  timeout is none. A task that is no longer in the map was finished before.\<close>

definition wait_one :: "(int \<Rightarrow> bool) \<Rightarrow> (TaskId \<Rightarrow> int option) \<Rightarrow> TaskId \<Rightarrow> int \<Rightarrow> int \<Rightarrow> (bool \<times> int) option" where
  "wait_one up ready i timeout e =
     (if \<not> up e then Some (False, e)
      else case ready i of
        None \<Rightarrow> if timeout < 0 then None else Some (False, e + timeout)
      | Some t \<Rightarrow>
          if t \<le> e then Some (True, e)
          else if timeout < 0 \<or> t \<le> e + timeout then Some (True, t)
          else Some (False, e + timeout))"

fun wait_tasks_internal ::
  "(int \<Rightarrow> bool) \<Rightarrow> (TaskId \<Rightarrow> int option) \<Rightarrow> TaskId list \<Rightarrow> int \<Rightarrow> int \<Rightarrow> (bool \<times> int) option" where
  "wait_tasks_internal up ready [] timeout e = Some (True, e)"
| "wait_tasks_internal up ready (i # ids) timeout e =
     (let remaining = (if 0 \<le> timeout then timeout - e else timeout)
      in if 0 \<le> timeout \<and> remaining \<le> 0 then Some (False, e)
         else case wait_one up ready i remaining e of
           None \<Rightarrow> None
         | Some (ok, e) \<Rightarrow> if ok then wait_tasks_internal up ready ids timeout e else Some (False, e))"

definition wait :: "(int \<Rightarrow> bool) \<Rightarrow> (TaskId \<Rightarrow> int option) \<Rightarrow> TaskId \<Rightarrow> int \<Rightarrow> scheduler \<Rightarrow> bool option" where
  "wait up ready i timeout s =
     (if \<not> sc_running s then Some False
      else if i \<notin> set (sc_tasks s) then Some True
      else map_option fst (wait_one up ready i timeout 0))"

definition wait_group ::
  "(int \<Rightarrow> bool) \<Rightarrow> (TaskId \<Rightarrow> int option) \<Rightarrow> TaskId list \<Rightarrow> string \<Rightarrow> int \<Rightarrow> scheduler \<Rightarrow> bool option" where
  "wait_group up ready ids g timeout s =
     (if \<not> sc_running s then Some False
      else if map_of (sc_groups s) g = None then Some True
      else map_option fst (wait_tasks_internal up ready ids timeout 0))"

definition wait_all :: "(int \<Rightarrow> bool) \<Rightarrow> (TaskId \<Rightarrow> int option) \<Rightarrow> int \<Rightarrow> scheduler \<Rightarrow> bool option" where
  "wait_all up ready timeout s =
     (if \<not> sc_running s then Some False
      else if sc_tasks s = [] then Some True
      else map_option fst (wait_tasks_internal up ready (sc_tasks s) timeout 0))"

section \<open>The slots of waiting workers\<close>

text \<open>A worker thread that waits takes a slot, so that one worker is left to run tasks. \<open>tls\<close> holds what a
  thread keeps for itself: the scheduler it works for, the one whose slots it holds, and how many.
  \<open>workers\<close> is \<open>get_worker_count\<close>, \<open>n\<close> the slots taken of scheduler \<open>this\<close>.\<close>

record worker_tls =
  wt_worker :: "ptr option"
  wt_scheduler :: "ptr option"
  wt_count :: nat

definition new_tls :: "ptr option \<Rightarrow> worker_tls" where
  "new_tls p = \<lparr>wt_worker = p, wt_scheduler = None, wt_count = 0\<rparr>"

definition try_acquire_worker_wait_slot :: "ptr \<Rightarrow> nat \<Rightarrow> worker_tls \<Rightarrow> nat \<Rightarrow> bool \<times> worker_tls \<times> nat" where
  "try_acquire_worker_wait_slot this workers t n =
     (if wt_worker t \<noteq> Some this then (True, t, n)
      else if wt_scheduler t \<noteq> None \<and> wt_scheduler t \<noteq> Some this then (False, t, n)
      else if workers \<le> 1 then (False, t, n)
      else if n < workers - 1 then (True, t\<lparr>wt_scheduler := Some this, wt_count := wt_count t + 1\<rparr>, n + 1)
      else (False, t, n))"

definition release_worker_wait_slot :: "ptr \<Rightarrow> worker_tls \<Rightarrow> nat \<Rightarrow> worker_tls \<times> nat" where
  "release_worker_wait_slot this t n =
     (if wt_worker t \<noteq> Some this then (t, n)
      else if wt_scheduler t \<noteq> Some this \<or> wt_count t = 0 then (t, n)
      else if n = 0 then (t, n)
      else (t\<lparr>wt_count := wt_count t - 1, wt_scheduler := (if wt_count t - 1 = 0 then None else wt_scheduler t)\<rparr>, n - 1))"

section \<open>All steps\<close>

text \<open>What the threads of a program can do to the scheduler. A handler is only called while the
  \<open>io_context\<close> is not stopped, and \<open>stop\<close>, which one thread calls, waits for the handlers.\<close>

datatype sched_op =
    Op_Post task_type int string bool
  | Op_Advance int task_result activity
  | Op_Call async_wait error_code
  | Op_Cancel TaskId
  | Op_Cancel_Group "TaskId list" string
  | Op_Cancel_All
  | Op_Suspend int TaskId
  | Op_Suspend_Group int "TaskId list" string
  | Op_Suspend_All int
  | Op_Resume int TaskId
  | Op_Resume_Group int "TaskId list" string
  | Op_Resume_All int
  | Op_Restart int TaskId
  | Op_Configure string group_config
  | Op_Reset
  | Op_Start start_config nat
  | Op_Stop_Cancel
  | Op_Stop_Clear
  | Op_Stop_Done

fun is_posting :: "stage \<Rightarrow> bool" where
  "is_posting (Registered full) = True"
| "is_posting (Equipped full) = True"
| "is_posting Saved = True"
| "is_posting (Enqueueing st) = True"
| "is_posting _ = False"

definition group_order :: "TaskId list \<Rightarrow> string \<Rightarrow> scheduler \<Rightarrow> bool" where
  "group_order ids g s \<longleftrightarrow> distinct ids \<and> set ids = set (members s g)"

fun do_op :: "sched_op \<Rightarrow> scheduler \<Rightarrow> scheduler option" where
  "do_op (Op_Post ty ms g full) s = Some (snd (begin_post ty ms g full s))"
| "do_op (Op_Advance now r a) s = (if a \<in> set (sc_active s) then step_activity now r a s else None)"
| "do_op (Op_Call w ec) s =
     (if sc_io s \<and> \<not> sc_stopping s \<and> w \<in> set (sc_waits s) then Some (call_handler w ec s) else None)"
| "do_op (Op_Cancel i) s = Some (cancel i s)"
| "do_op (Op_Cancel_Group ids g) s = (if group_order ids g s then Some (cancel_group ids g s) else None)"
| "do_op Op_Cancel_All s = Some (cancel_all s)"
| "do_op (Op_Suspend now i) s = Some (snd (suspend now i s))"
| "do_op (Op_Suspend_Group now ids g) s = (if group_order ids g s then Some (snd (suspend_group now ids g s)) else None)"
| "do_op (Op_Suspend_All now) s = Some (snd (suspend_all now s))"
| "do_op (Op_Resume now i) s = map_option snd (resume now i s)"
| "do_op (Op_Resume_Group now ids g) s = (if group_order ids g s then map_option snd (resume_group now ids g s) else None)"
| "do_op (Op_Resume_All now) s = map_option snd (resume_all now s)"
| "do_op (Op_Restart now i) s = map_option snd (restart_timer now i s)"
| "do_op (Op_Configure g cfg) s = Some (snd (configure_group g cfg s))"
| "do_op Op_Reset s = Some (reset_statistics s)"
| "do_op (Op_Start cfg created) s = Some (snd (start cfg created s))"
| "do_op Op_Stop_Cancel s = (if sc_running s \<and> \<not> sc_stopping s then Some (stop_cancel s) else None)"
| "do_op Op_Stop_Clear s =
     (if sc_stopping s \<and> sc_io s \<and> (\<forall>a \<in> set (sc_active s). is_posting (snd a)) then Some (stop_clear s) else None)"
| "do_op Op_Stop_Done s = (if sc_stopping s \<and> \<not> sc_io s then Some (stop_done s) else None)"

fun run_ops :: "sched_op list \<Rightarrow> scheduler \<Rightarrow> scheduler option" where
  "run_ops [] s = Some s"
| "run_ops (x # ops) s = (case do_op x s of None \<Rightarrow> None | Some s \<Rightarrow> run_ops ops s)"

text \<open>Every state of a scheduler.\<close>

inductive sched_reachable :: "scheduler \<Rightarrow> bool" where
  new: "sched_reachable new_scheduler"
| step: "sched_reachable s \<Longrightarrow> do_op x s = Some s' \<Longrightarrow> sched_reachable s'"

end
