(* ===== verification/Task_Laws.thy ===== *)
theory Task_Laws
  imports Task_Scheduler
begin

text \<open>
  What holds of the task scheduler in every state, whatever its threads do: the maps of tasks and groups
  agree, promises are kept once, no missing timer is touched by a resumption. How often a task runs,
  what cancelling and suspending achieve, and what the slots of waiting workers guarantee.
\<close>

section \<open>The invariant\<close>

definition handle_ok :: "task_handle \<Rightarrow> bool" where
  "handle_ok h \<longleftrightarrow> (th_promise h \<longleftrightarrow> th_future h = Future_Pending)"

definition tracked_ok :: "bool \<Rightarrow> bool \<Rightarrow> task_handle \<Rightarrow> bool" where
  "tracked_ok io stopping h \<longleftrightarrow>
     (th_future h \<noteq> Future_None \<longrightarrow> io \<and> (th_timer h = None \<longrightarrow> th_state h \<in> {Task_Canceled, Task_Finished})) \<and>
     (th_saved h \<longrightarrow> th_future h \<noteq> Future_None) \<and>
     ((\<exists>v. th_future h = Future_Value v) \<or> th_state h = Task_Canceled \<longrightarrow> stopping \<and> io)"

text \<open>A thread that has equipped its handle.\<close>

fun past_equip :: "stage \<Rightarrow> bool" where
  "past_equip (Equipped full) = True"
| "past_equip Saved = True"
| "past_equip (Enqueueing st) = True"
| "past_equip _ = False"

definition groups_ok :: "scheduler \<Rightarrow> bool" where
  "groups_ok s \<longleftrightarrow>
     smap_ok (sc_groups s) \<and>
     (\<forall>g ids. map_of (sc_groups s) g = Some ids \<longrightarrow> g \<noteq> [] \<and> ids \<noteq> [] \<and> distinct ids) \<and>
     (\<forall>g. g \<noteq> [] \<longrightarrow> set (members s g) = {i \<in> set (sc_tasks s). th_group (sc_handle s i) = g})"

definition sched_inv :: "scheduler \<Rightarrow> bool" where
  "sched_inv s \<longleftrightarrow>
     sorted_wrt (<) (sc_tasks s) \<and> (\<forall>i \<in> set (sc_tasks s). i < sc_next_id s) \<and>
     (\<forall>a \<in> set (sc_active s). fst a < sc_next_id s) \<and> (\<forall>w \<in> set (sc_waits s). fst w < sc_next_id s) \<and>
     groups_ok s \<and>
     (\<forall>i. handle_ok (sc_handle s i)) \<and>
     (\<forall>i \<in> set (sc_tasks s). tracked_ok (sc_io s) (sc_stopping s) (sc_handle s i)) \<and>
     (\<forall>a \<in> set (sc_active s). past_equip (snd a) \<longrightarrow> th_future (sc_handle s (fst a)) \<noteq> Future_None) \<and>
     (sc_running s \<longrightarrow> sc_io s \<or> sc_stopping s) \<and> (sc_stopping s \<longrightarrow> sc_running s)"

lemma on_handle_simps [simp]:
  "sc_handle (on_handle i f s) = (sc_handle s)(i := f (sc_handle s i))"
  "sc_tasks (on_handle i f s) = sc_tasks s" "sc_groups (on_handle i f s) = sc_groups s"
  "sc_io (on_handle i f s) = sc_io s" "sc_stopping (on_handle i f s) = sc_stopping s"
  "sc_running (on_handle i f s) = sc_running s" "sc_next_id (on_handle i f s) = sc_next_id s"
  "sc_active (on_handle i f s) = sc_active s" "sc_waits (on_handle i f s) = sc_waits s"
  "sc_calls (on_handle i f s) = sc_calls s" "sc_suspended (on_handle i f s) = sc_suspended s"
  "sc_strands (on_handle i f s) = sc_strands s" "sc_workers (on_handle i f s) = sc_workers s"
  by (simp_all add: on_handle_def)

lemma on_handle_same [simp]: "on_handle i (\<lambda>h. h) s = s"
  by (simp add: on_handle_def)

lemma members_same: "sc_groups s = sc_groups t \<Longrightarrow> members s g = members t g"
  by (simp add: members_def)

text \<open>The invariant only looks at some fields.\<close>

lemma sched_inv_same:
  assumes "sched_inv s" "sc_tasks t = sc_tasks s" "sc_next_id t = sc_next_id s" "sc_groups t = sc_groups s"
    "sc_handle t = sc_handle s" "sc_io t = sc_io s" "sc_stopping t = sc_stopping s" "sc_running t = sc_running s"
    "set (sc_active t) \<subseteq> set (sc_active s)" "set (sc_waits t) \<subseteq> set (sc_waits s)"
  shows "sched_inv t"
  using assms by (auto simp: sched_inv_def groups_ok_def members_def)

lemma groups_ok_handle:
  assumes "groups_ok s" "th_group (f (sc_handle s i)) = th_group (sc_handle s i)"
  shows "groups_ok (on_handle i f s)"
proof -
  have "th_group (sc_handle (on_handle i f s) j) = th_group (sc_handle s j)" for j
    using assms by simp
  then show ?thesis
    using assms(1) by (simp add: groups_ok_def members_def del: on_handle_simps(1))
qed

lemma on_handle_inv:
  assumes inv: "sched_inv s" and g: "th_group (f (sc_handle s i)) = th_group (sc_handle s i)"
    and h: "handle_ok (sc_handle s i) \<Longrightarrow> handle_ok (f (sc_handle s i))"
    and t: "i \<in> set (sc_tasks s) \<Longrightarrow> tracked_ok (sc_io s) (sc_stopping s) (sc_handle s i)
      \<Longrightarrow> tracked_ok (sc_io s) (sc_stopping s) (f (sc_handle s i))"
    and e: "th_future (sc_handle s i) \<noteq> Future_None \<Longrightarrow> th_future (f (sc_handle s i)) \<noteq> Future_None"
  shows "sched_inv (on_handle i f s)"
  using inv h t e groups_ok_handle [of s f i] g unfolding sched_inv_def by auto

lemma members_leave:
  assumes "groups_ok s"
  shows "members (leave_group i g s) k = (if k = g then filter (\<lambda>j. j \<noteq> i) (members s k) else members s k)"
  using assms by (auto simp: leave_group_def members_def groups_ok_def Let_def filter_empty_conv split: option.split)

lemma leave_group_simps [simp]:
  "sc_handle (leave_group i g s) = sc_handle s" "sc_tasks (leave_group i g s) = sc_tasks s"
  "sc_io (leave_group i g s) = sc_io s" "sc_stopping (leave_group i g s) = sc_stopping s"
  "sc_running (leave_group i g s) = sc_running s" "sc_next_id (leave_group i g s) = sc_next_id s"
  "sc_active (leave_group i g s) = sc_active s" "sc_waits (leave_group i g s) = sc_waits s"
  "sc_calls (leave_group i g s) = sc_calls s" "sc_workers (leave_group i g s) = sc_workers s"
  "sc_strands (leave_group i g s) = sc_strands s" "sc_suspended (leave_group i g s) = sc_suspended s"
  by (simp_all add: leave_group_def Let_def split: option.split)

lemma remove_simps [simp]:
  "sc_tasks (remove_task_internal i g s) = filter (\<lambda>j. j \<noteq> i) (sc_tasks s)"
  "sc_io (remove_task_internal i g s) = sc_io s" "sc_stopping (remove_task_internal i g s) = sc_stopping s"
  "sc_running (remove_task_internal i g s) = sc_running s" "sc_next_id (remove_task_internal i g s) = sc_next_id s"
  "sc_active (remove_task_internal i g s) = sc_active s" "sc_waits (remove_task_internal i g s) = sc_waits s"
  "sc_calls (remove_task_internal i g s) = sc_calls s" "sc_workers (remove_task_internal i g s) = sc_workers s"
  "sc_strands (remove_task_internal i g s) = sc_strands s" "sc_suspended (remove_task_internal i g s) = sc_suspended s"
  by (auto simp: remove_task_internal_def Let_def intro: filter_True [symmetric])

lemma remove_handle:
  "sc_handle (remove_task_internal i g s) j =
     (if j = i \<and> i \<in> set (sc_tasks s) then (sc_handle s i)\<lparr>th_timer := None\<rparr> else sc_handle s j)"
  by (simp add: remove_task_internal_def Let_def)

lemma groups_ok_remove:
  assumes ok: "groups_ok s"
  shows "groups_ok (remove_task_internal i (th_group (sc_handle s i)) s)" (is "groups_ok ?t")
proof -
  let ?g = "th_group (sc_handle s i)"
  have grps: "sc_groups ?t = sc_groups (leave_group i ?g s)"
    by (simp add: remove_task_internal_def Let_def)
  have mem: "members ?t k = (if k = ?g then filter (\<lambda>j. j \<noteq> i) (members s k) else members s k)" for k
    using members_leave [OF ok] grps by (simp add: members_def)
  have "smap_ok (sc_groups ?t)"
    using ok by (auto simp: grps leave_group_def groups_ok_def Let_def split: option.split)
  moreover have "\<forall>g ids. map_of (sc_groups ?t) g = Some ids \<longrightarrow> g \<noteq> [] \<and> ids \<noteq> [] \<and> distinct ids"
    using ok by (auto simp: grps leave_group_def groups_ok_def Let_def split: option.splits if_splits)
  moreover have "set (members ?t k) = {j \<in> set (sc_tasks ?t). th_group (sc_handle ?t j) = k}" if "k \<noteq> []" for k
    using ok that by (auto simp: mem groups_ok_def remove_handle)
  ultimately show ?thesis
    by (simp add: groups_ok_def)
qed

text \<open>Whatever is done to a handle before its task is removed.\<close>

lemma drop_inv:
  assumes inv: "sched_inv s" and g: "\<And>h. th_group (f h) = th_group h"
    and h: "\<And>h. handle_ok h \<Longrightarrow> handle_ok (f h)"
    and e: "\<And>h. th_future h \<noteq> Future_None \<Longrightarrow> th_future (f h) \<noteq> Future_None"
  shows "sched_inv (remove_task_internal i (th_group (sc_handle s i)) (on_handle i f s))"
proof -
  have "groups_ok (remove_task_internal i (th_group (sc_handle (on_handle i f s) i)) (on_handle i f s))"
    using inv g by (intro groups_ok_remove groups_ok_handle) (simp_all add: sched_inv_def)
  then show ?thesis
    using inv e h by (auto simp: sched_inv_def remove_handle g sorted_wrt_filter handle_ok_def)
qed

section \<open>Every step keeps it\<close>

lemma sched_invD:
  assumes "sched_inv s"
  shows "sorted_wrt (<) (sc_tasks s)" "i \<in> set (sc_tasks s) \<Longrightarrow> i < sc_next_id s"
    "a \<in> set (sc_active s) \<Longrightarrow> fst a < sc_next_id s" "w \<in> set (sc_waits s) \<Longrightarrow> fst w < sc_next_id s"
    "groups_ok s" "handle_ok (sc_handle s j)"
    "i \<in> set (sc_tasks s) \<Longrightarrow> tracked_ok (sc_io s) (sc_stopping s) (sc_handle s i)"
    "(j, st) \<in> set (sc_active s) \<Longrightarrow> past_equip st \<Longrightarrow> th_future (sc_handle s j) \<noteq> Future_None"
    "sc_running s \<Longrightarrow> sc_io s \<or> sc_stopping s" "sc_stopping s \<Longrightarrow> sc_running s"
  using assms by (auto simp: sched_inv_def)

lemma resolve_promise_simps [simp]:
  "th_group (resolve_promise v h) = th_group h" "th_timer (resolve_promise v h) = th_timer h"
  "th_state (resolve_promise v h) = th_state h" "th_saved (resolve_promise v h) = th_saved h"
  "handle_ok h \<Longrightarrow> handle_ok (resolve_promise v h)"
  "th_future h \<noteq> Future_None \<Longrightarrow> th_future (resolve_promise v h) \<noteq> Future_None"
  "th_promise (resolve_promise v h) \<longleftrightarrow> False"
  by (auto simp: resolve_promise_def handle_ok_def)

lemma handle_ok_update [simp]:
  "handle_ok (h\<lparr>th_state := st\<rparr>) = handle_ok h" "handle_ok (h\<lparr>th_timer := x\<rparr>) = handle_ok h"
  "handle_ok (h\<lparr>th_executing := b\<rparr>) = handle_ok h" "handle_ok (h\<lparr>th_interval := n\<rparr>) = handle_ok h"
  "handle_ok (h\<lparr>th_saved := b\<rparr>) = handle_ok h" "handle_ok (h\<lparr>th_remaining := n\<rparr>) = handle_ok h"
  "handle_ok (h\<lparr>th_suspend_time := n\<rparr>) = handle_ok h"
  by (simp_all add: handle_ok_def)

lemma register_inv:
  assumes inv: "sched_inv s" and reg: "register_handle ty rep ms g s = (i, t)"
  shows "sched_inv t"
proof -
  have fresh: "i = sc_next_id s" "i \<notin> set (sc_tasks s)"
    using inv reg by (auto simp: register_handle_def Let_def sched_inv_def)
  have t: "sc_tasks t = sc_tasks s @ [i]" "sc_next_id t = i + 1" "sc_active t = sc_active s" "sc_waits t = sc_waits s"
    "sc_io t = sc_io s" "sc_stopping t = sc_stopping s" "sc_running t = sc_running s"
    "sc_groups t = (if g = [] then sc_groups s else smap_put g (members s g @ [i]) (sc_groups s))"
    "th_group (sc_handle t i) = g" "th_future (sc_handle t i) = Future_None" "th_saved (sc_handle t i) = False"
    "th_state (sc_handle t i) = Task_Running" "th_promise (sc_handle t i) = False"
    and old: "\<And>j. j \<noteq> i \<Longrightarrow> sc_handle t j = sc_handle s j"
    using reg fresh(1) by (auto simp: register_handle_def Let_def new_handle_def)
  have ok: "groups_ok s"
    using inv by (simp add: sched_invD)
  have mem: "members t k = (if k = g \<and> g \<noteq> [] then members s k @ [i] else members s k)" for k
    by (simp add: members_def t(8))
  have "groups_ok t"
    unfolding groups_ok_def
  proof (intro conjI allI impI)
    show "smap_ok (sc_groups t)"
      using ok by (simp add: t(8) groups_ok_def)
  next
    fix k ids
    assume "map_of (sc_groups t) k = Some ids"
    moreover have "i \<notin> set (members s g)" "distinct (members s g)" if "g \<noteq> []"
      using ok fresh(2) that by (auto simp: groups_ok_def members_def split: option.splits)
    ultimately show "k \<noteq> []" "ids \<noteq> []" "distinct ids"
      using ok by (auto simp: t(8) groups_ok_def split: if_splits)
  next
    fix k :: string
    assume k: "k \<noteq> []"
    have "th_group (sc_handle t j) = (if j = i then g else th_group (sc_handle s j))" for j
      using t(9) old by simp
    then show "set (members t k) = {j \<in> set (sc_tasks t). th_group (sc_handle t j) = k}"
      using ok fresh(2) k by (auto simp: mem t(1) groups_ok_def)
  qed
  moreover have "handle_ok (sc_handle t j)" for j
    using sched_invD(6) [OF inv, of j] t(10,13) old by (cases "j = i") (simp_all add: handle_ok_def)
  moreover have "tracked_ok (sc_io t) (sc_stopping t) (sc_handle t j)" if "j \<in> set (sc_tasks t)" for j
    using sched_invD(7) [OF inv, of j] t old that by (cases "j = i") (simp_all add: tracked_ok_def)
  moreover have "past_equip (snd a) \<longrightarrow> th_future (sc_handle t (fst a)) \<noteq> Future_None" if "a \<in> set (sc_active t)" for a
  proof -
    have "fst a < i"
      using inv that t(3) fresh(1) by (simp add: sched_invD)
    then show ?thesis
      using inv that t(3) old by (simp add: sched_inv_def)
  qed
  ultimately show ?thesis
    using inv fresh(1) by (auto simp: sched_inv_def t sorted_wrt_append less_Suc_eq)
qed

text \<open>One more activity.\<close>

lemma add_active_inv:
  assumes "sched_inv s" "fst a < sc_next_id s" "past_equip (snd a) \<Longrightarrow> th_future (sc_handle s (fst a)) \<noteq> Future_None"
  shows "sched_inv (s\<lparr>sc_active := a # sc_active s\<rparr>)"
  using assms by (auto simp: sched_inv_def groups_ok_def members_def)

lemma add_wait_inv:
  "sched_inv s \<Longrightarrow> fst w < sc_next_id s \<Longrightarrow> sched_inv (s\<lparr>sc_waits := sc_waits s @ [w]\<rparr>)"
  by (simp add: sched_inv_def groups_ok_def members_def)

lemma begin_post_inv:
  assumes inv: "sched_inv s"
  shows "sched_inv (snd (begin_post ty ms g full s))"
proof -
  obtain i t where reg: "register_handle ty (ty = Task_Periodic) (if ty = Task_Immediate then 0 else ms) g s = (i, t)"
    by fastforce
  moreover from reg have "i < sc_next_id t"
    by (auto simp: register_handle_def Let_def)
  ultimately show ?thesis
    using inv register_inv [OF inv reg] add_active_inv [of t "(i, Registered full)"] by (simp add: begin_post_def)
qed

lemma arm_timer_inv:
  assumes inv: "sched_inv s" and i: "i < sc_next_id s" and arm: "arm_timer i ms job now s = Some t"
  shows "sched_inv t"
proof -
  have "sched_inv (on_handle i (\<lambda>h. h\<lparr>th_timer := Some (now + ms * ns_per_ms)\<rparr>) s)"
    using inv by (rule on_handle_inv) (auto simp: tracked_ok_def)
  from add_wait_inv [OF this, of "(i, job, th_strand (sc_handle s i))"] show ?thesis
    using i arm by (simp add: arm_timer_def split: if_splits)
qed

lemma arm_timer_keeps:
  assumes "arm_timer i ms job now s = Some t"
  shows "sc_next_id t = sc_next_id s" "sc_active t = sc_active s" "sc_tasks t = sc_tasks s" "sc_calls t = sc_calls s"
    "sc_waits t = sc_waits s @ [(i, job, th_strand (sc_handle s i))]"
    "sc_handle t = (sc_handle s)(i := (sc_handle s i)\<lparr>th_timer := Some (now + ms * ns_per_ms)\<rparr>)"
  using assms by (auto simp: arm_timer_def split: if_splits)

lemmas schedule_defs = schedule_once_def schedule_periodic_def

lemma equip_inv:
  assumes "sched_inv s" "equip_handle i s = Some t"
  shows "sched_inv t" "sc_next_id t = sc_next_id s" "sc_active t = sc_active s"
    "th_future (sc_handle t i) = Future_Pending"
  using assms by (auto simp: equip_handle_def handle_ok_def tracked_ok_def split: if_splits intro!: on_handle_inv)

lemma callback_inv [simp]:
  "sched_inv s \<Longrightarrow> sched_inv (invoke_pre_execute_callback i s)"
  "sched_inv s \<Longrightarrow> sched_inv (invoke_post_execute_callback i ok s)"
  by (auto simp: invoke_pre_execute_callback_def invoke_post_execute_callback_def Let_def intro: sched_inv_same)

lemma callback_simps [simp]:
  "sc_next_id (invoke_pre_execute_callback i s) = sc_next_id s"
  "sc_next_id (invoke_post_execute_callback i ok s) = sc_next_id s"
  "sc_active (invoke_pre_execute_callback i s) = sc_active s"
  "sc_active (invoke_post_execute_callback i ok s) = sc_active s"
  "sc_handle (invoke_pre_execute_callback i s) = sc_handle s"
  "sc_handle (invoke_post_execute_callback i ok s) = sc_handle s"
  "sc_waits (invoke_pre_execute_callback i s) = sc_waits s"
  "sc_waits (invoke_post_execute_callback i ok s) = sc_waits s"
  by (simp_all add: invoke_pre_execute_callback_def invoke_post_execute_callback_def Let_def)

lemma restore_interval_simps [simp]:
  "th_group (restore_interval job h) = th_group h" "th_future (restore_interval job h) = th_future h"
  "handle_ok (restore_interval job h) = handle_ok h"
  "tracked_ok io st (restore_interval job h) = tracked_ok io st h"
  "th_state (restore_interval job h) = th_state h"
  by (simp_all add: restore_interval_def handle_ok_def tracked_ok_def split: wait_job.split)

lemma remove_inv:
  "sched_inv s \<Longrightarrow> sched_inv (remove_task_internal i (th_group (sc_handle s i)) s)"
  using drop_inv [of s "\<lambda>h. h" i] by simp

lemma close_task_inv: "sched_inv s \<Longrightarrow> sched_inv (close_task i ok s)"
  unfolding close_task_def by (rule drop_inv) simp_all

lemma mark_state_inv: "sched_inv s \<Longrightarrow> sched_inv (mark_state i ok s)"
  unfolding mark_state_def Let_def
  by (rule sched_inv_same [of "on_handle i (\<lambda>h. h\<lparr>th_state := Task_Finished\<rparr>) s"])
    (auto simp: tracked_ok_def intro!: on_handle_inv)

lemma executing_inv [simp]: "sched_inv s \<Longrightarrow> sched_inv (on_handle i (\<lambda>h. h\<lparr>th_executing := b\<rparr>) s)"
  by (rule on_handle_inv) (simp_all add: tracked_ok_def)

lemma restore_inv [simp]: "sched_inv s \<Longrightarrow> sched_inv (on_handle i (restore_interval job) s)"
  by (rule on_handle_inv) simp_all

lemma calls_inv [simp]: "sched_inv (s\<lparr>sc_calls := cs\<rparr>) = sched_inv s"
  by (simp add: sched_inv_def groups_ok_def members_def)

lemma mark_state_simps [simp]:
  "sc_next_id (mark_state i ok s) = sc_next_id s" "sc_active (mark_state i ok s) = sc_active s"
  "sc_waits (mark_state i ok s) = sc_waits s" "sc_calls (mark_state i ok s) = sc_calls s"
  "sc_handle (mark_state i ok s) = (sc_handle s)(i := (sc_handle s i)\<lparr>th_state := Task_Finished\<rparr>)"
  by (simp_all add: mark_state_def Let_def)

lemma close_task_simps [simp]:
  "sc_next_id (close_task i ok s) = sc_next_id s" "sc_active (close_task i ok s) = sc_active s"
  "sc_waits (close_task i ok s) = sc_waits s" "sc_calls (close_task i ok s) = sc_calls s"
  by (simp_all add: close_task_def)

text \<open>A step of an activity, seen from the state without it.\<close>

lemma advance_inv:
  assumes inv: "sched_inv s" and i: "i < sc_next_id s"
    and past: "past_equip st \<Longrightarrow> th_future (sc_handle s i) \<noteq> Future_None"
    and adv: "advance now r i st s = Some (nx, t)"
  shows "sched_inv t \<and> sc_next_id t = sc_next_id s \<and>
    (\<forall>st'. nx = Some st' \<longrightarrow> past_equip st' \<longrightarrow> th_future (sc_handle t i) \<noteq> Future_None)"
proof (cases st)
  case (Registered full)
  then show ?thesis
    using adv equip_inv [OF inv] by auto
next
  case (Equipped full)
  have "sched_inv (on_handle i (\<lambda>h. h\<lparr>th_saved := full\<rparr>) s)"
    using inv by (rule on_handle_inv) (use Equipped past in \<open>auto simp: tracked_ok_def\<close>)
  then show ?thesis
    using Equipped adv inv past by (auto simp: Let_def split: if_splits)
next
  case Saved
  then show ?thesis
    using adv arm_timer_inv [OF inv i] by (auto simp: schedule_defs dest: arm_timer_keeps split: if_splits)
next
  case (Enqueueing x)
  then show ?thesis
    using adv add_wait_inv [OF inv, of "(i, Run_Posted, x)"] i by (auto simp: post_to_io_def split: if_splits)
next
  case (Rearming x)
  then show ?thesis
    using adv arm_timer_inv [OF inv i] by (auto simp: schedule_defs dest: arm_timer_keeps split: if_splits)
next
  case (Executing job)
  then show ?thesis
    using adv inv
    by (auto simp: end_of_task_def Let_def split: if_splits task_result.splits prod.splits)
next
  case (Closing job ok)
  then show ?thesis
    using adv close_task_inv [OF inv] by (auto split: if_splits)
next
  case (Finishing job ok)
  then show ?thesis
    using adv mark_state_inv [OF inv] by auto
next
  case Removing
  then show ?thesis
    using adv remove_inv [OF inv] by auto
next
  case (Leaving ok)
  then show ?thesis
    using adv inv by auto
qed (use adv inv in \<open>auto simp: Let_def split: if_splits\<close>)

lemma step_activity_inv:
  assumes inv: "sched_inv s" and a: "a \<in> set (sc_active s)" and step: "step_activity now r a s = Some t"
  shows "sched_inv t"
proof -
  obtain i st where ist: "a = (i, st)" by (cases a)
  let ?s = "s\<lparr>sc_active := remove1 a (sc_active s)\<rparr>"
  have inv': "sched_inv ?s"
    using inv by (rule sched_inv_same) (auto dest: set_remove1_subset [THEN subsetD])
  obtain nx u where adv: "advance now r i st ?s = Some (nx, u)"
    and t: "t = (case nx of None \<Rightarrow> u | Some st \<Rightarrow> u\<lparr>sc_active := (i, st) # sc_active u\<rparr>)"
    using step by (auto simp: step_activity_def ist split: option.splits)
  have "i < sc_next_id ?s" "past_equip st \<Longrightarrow> th_future (sc_handle ?s i) \<noteq> Future_None"
    using inv a ist sched_invD(3) [OF inv a] sched_invD(8) [OF inv] by auto
  from advance_inv [OF inv' this adv] \<open>i < sc_next_id ?s\<close> show ?thesis
    by (auto simp: t split: option.split intro!: add_active_inv)
qed

lemma call_handler_inv:
  assumes inv: "sched_inv s" and w: "w \<in> set (sc_waits s)"
  shows "sched_inv (call_handler w ec s)"
proof -
  have inv': "sched_inv (s\<lparr>sc_waits := remove1 w (sc_waits s)\<rparr>)"
    using inv by (rule sched_inv_same) (auto dest: set_remove1_subset [THEN subsetD])
  have np: "\<not> past_equip st" if "begin_handler (fst w) (fst (snd w)) ec t = Some st" for st t
    using that by (auto simp: begin_handler_def Let_def split: wait_job.splits if_splits)
  show ?thesis
    using inv' np sched_invD(4) [OF inv w] add_active_inv [OF inv', of "(fst w, _)"]
    by (auto simp: call_handler_def Let_def split: option.split)
qed

lemma counters_inv [simp]:
  "sched_inv (s\<lparr>sc_canceled := c\<rparr>) = sched_inv s" "sched_inv (s\<lparr>sc_suspended := c\<rparr>) = sched_inv s"
  "sched_inv (s\<lparr>sc_pre_callbacks := p\<rparr>) = sched_inv s" "sched_inv (s\<lparr>sc_post_callbacks := p\<rparr>) = sched_inv s"
  "sched_inv (s\<lparr>sc_strands := x\<rparr>) = sched_inv s" "sched_inv (s\<lparr>sc_next_strand := n\<rparr>) = sched_inv s"
  "sched_inv (reset_statistics s) = sched_inv s" "sched_inv (s\<lparr>sc_workers := n\<rparr>) = sched_inv s"
  by (simp_all add: sched_inv_def groups_ok_def members_def reset_statistics_def)

lemma cancel_internal_inv: "sched_inv s \<Longrightarrow> sched_inv (cancel_internal i s)"
  using drop_inv [of s "\<lambda>h. resolve_promise False (h\<lparr>th_state := Task_Canceled\<rparr>)" i]
  by (simp add: cancel_internal_def)

lemma cancel_each_inv: "sched_inv s \<Longrightarrow> sched_inv (cancel_each ids s)"
  by (induction ids arbitrary: s) (simp_all add: cancel_internal_inv)

lemma suspend_handle_simps [simp]:
  "th_group (suspend_handle now h) = th_group h" "th_future (suspend_handle now h) = th_future h"
  "th_timer (suspend_handle now h) = th_timer h" "th_saved (suspend_handle now h) = th_saved h"
  "th_type (suspend_handle now h) = th_type h" "th_interval (suspend_handle now h) = th_interval h"
  "th_state (suspend_handle now h) = Task_Suspended" "handle_ok (suspend_handle now h) = handle_ok h"
  by (simp_all add: suspend_handle_def handle_ok_def split: option.split)

lemma suspend_internal_inv: "sched_inv s \<Longrightarrow> sched_inv (snd (suspend_internal now i s))"
  by (auto simp: suspend_internal_def tracked_ok_def intro!: on_handle_inv)

lemma suspend_each_inv: "sched_inv s \<Longrightarrow> sched_inv (snd (suspend_each now ids s))"
proof (induction ids arbitrary: s)
  case (Cons i ids)
  obtain ok t where t: "suspend_internal now i s = (ok, t)"
    by fastforce
  then have "sched_inv t"
    using suspend_internal_inv [OF Cons.prems, of now i] by simp
  from Cons.IH [OF this] show ?case
    by (auto simp: t split: prod.split)
qed simp

text \<open>A suspended task has its timer.\<close>

lemma arm_timer_defined:
  assumes "sched_inv s" "i \<in> set (sc_tasks s)" "th_saved (sc_handle s i)"
    "th_state (sc_handle s i) = Task_Running \<or> th_state (sc_handle s i) = Task_Suspended"
  shows "sc_io s" "th_timer (sc_handle s i) \<noteq> None"
  using sched_invD(7) [OF assms(1,2)] assms(3,4) by (auto simp: tracked_ok_def)

lemma set_interval_inv: "sched_inv s \<Longrightarrow> sched_inv (on_handle i (\<lambda>h. h\<lparr>th_interval := n\<rparr>) s)"
  by (rule on_handle_inv) (simp_all add: tracked_ok_def)

lemma set_running_inv:
  "sched_inv s \<Longrightarrow> th_state (sc_handle s i) = Task_Suspended \<Longrightarrow> sched_inv (on_handle i (\<lambda>h. h\<lparr>th_state := Task_Running\<rparr>) s)"
  by (rule on_handle_inv) (auto simp: tracked_ok_def)

lemma resume_internal_inv:
  assumes inv: "sched_inv s"
  shows "\<exists>ok t. resume_internal now i s = Some (ok, t) \<and> sched_inv t"
proof (cases "i \<in> set (sc_tasks s) \<and> can_suspend (sc_handle s i) \<and> th_state (sc_handle s i) = Task_Suspended")
  case c: True
  define h where "h = sc_handle s i"
  define delay where "delay = max 0 (th_remaining h)"
  define u where "u = (on_handle i (\<lambda>h. h\<lparr>th_state := Task_Running\<rparr>) s)\<lparr>sc_suspended := sc_suspended s - 1\<rparr>"
  have u: "sched_inv u" "i < sc_next_id u" "sc_io u = sc_io s" "th_timer (sc_handle u i) = th_timer h"
    using inv c set_running_inv [OF inv] sched_invD(2) [OF inv] by (auto simp: u_def h_def)
  show ?thesis
  proof (cases "th_saved h")
    case False
    then show ?thesis
      using c u(1) by (intro exI [of _ False] exI [of _ u]) (simp add: resume_internal_def h_def u_def Let_def)
  next
    case True
    then have defined: "sc_io u" "th_timer (sc_handle u i) \<noteq> None"
      using arm_timer_defined [OF inv, of i] c u(3,4) by (simp_all add: h_def)
    define v where "v = on_handle i (\<lambda>h. h\<lparr>th_interval := delay\<rparr>) u"
    have v: "sched_inv v" "i < sc_next_id v" "sc_io v" "th_timer (sc_handle v i) \<noteq> None"
      using set_interval_inv [OF u(1)] u(2) defined by (simp_all add: v_def)
    obtain t where t: "schedule_once i now v = Some t"
      using v(3,4) by (auto simp: schedule_once_def arm_timer_def)
    obtain t' where t': "arm_timer i delay (Fire_Resumed (th_interval h)) now u = Some t'"
      using defined by (auto simp: arm_timer_def)
    have "sched_inv t" "sched_inv t'"
      using t t' v(1,2) u(1,2) by (auto simp: schedule_once_def intro: arm_timer_inv)
    moreover have "resume_internal now i s = (if th_type h = Task_Delayed
        then Some (True, on_handle i (\<lambda>h'. h'\<lparr>th_interval := th_interval h\<rparr>) t) else Some (True, t'))"
      using c True t t' by (simp add: resume_internal_def h_def u_def v_def delay_def Let_def)
    ultimately show ?thesis
      by (auto simp: set_interval_inv)
  qed
qed (use inv in \<open>auto simp: resume_internal_def\<close>)

lemma resume_each_inv:
  assumes "sched_inv s"
  shows "\<exists>n t. resume_each now ids s = Some (n, t) \<and> sched_inv t"
  using assms
proof (induction ids arbitrary: s)
  case (Cons i ids)
  obtain ok u where "resume_internal now i s = Some (ok, u)" "sched_inv u"
    using resume_internal_inv [OF Cons.prems] by blast
  with Cons.IH [of u] show ?case
    by auto
qed simp

lemma restart_timer_inv:
  assumes inv: "sched_inv s"
  shows "\<exists>ok t. restart_timer now i s = Some (ok, t) \<and> sched_inv t"
proof (cases "restart_timer now i s = Some (True, s) \<or> restart_timer now i s = Some (False, s)")
  case False
  then have c: "i \<in> set (sc_tasks s)" "th_saved (sc_handle s i)" "th_state (sc_handle s i) = Task_Running"
    and r: "restart_timer now i s = map_option (\<lambda>s. (True, s))
      (if th_type (sc_handle s i) = Task_Delayed then schedule_once i now s else schedule_periodic i now s)"
    by (auto simp: restart_timer_def Let_def split: if_splits)
  have "sc_io s" "th_timer (sc_handle s i) \<noteq> None" "i < sc_next_id s"
    using arm_timer_defined [OF inv c(1,2)] c sched_invD(2) [OF inv] by auto
  then show ?thesis
    using arm_timer_inv [OF inv, of i] by (auto simp: r schedule_defs arm_timer_def)
qed (use inv in auto)

lemma stop_each_eq:
  "stop_each ids s = s\<lparr>sc_handle := (\<lambda>j. if j \<in> set ids
     then resolve_promise False ((sc_handle s j)\<lparr>th_state := Task_Canceled, th_timer := None\<rparr>) else sc_handle s j),
     sc_canceled := sc_canceled s + of_nat (length ids)\<rparr>"
proof (induction ids arbitrary: s)
  case (Cons i ids)
  show ?case
    by (auto simp: Cons.IH on_handle_def fun_eq_iff resolve_promise_def)
qed simp

lemma stop_cancel_inv:
  assumes inv: "sched_inv s" and run: "sc_running s" "\<not> sc_stopping s"
  shows "sched_inv (stop_cancel s)"
proof -
  let ?h = "\<lambda>j. if j \<in> set (sc_tasks s)
     then resolve_promise False ((sc_handle s j)\<lparr>th_state := Task_Canceled, th_timer := None\<rparr>) else sc_handle s j"
  have "th_group (?h j) = th_group (sc_handle s j)" for j
    by simp
  moreover have "handle_ok (?h j)" for j
    using inv by (simp add: sched_invD)
  moreover have "tracked_ok True True (?h j)" if "j \<in> set (sc_tasks s)" for j
    using sched_invD(7) [OF inv that] that by (auto simp: tracked_ok_def resolve_promise_def)
  moreover have "th_future (?h j) \<noteq> Future_None" if "th_future (sc_handle s j) \<noteq> Future_None" for j
    using that by simp
  moreover have "sc_io s"
    using inv run by (auto simp: sched_inv_def)
  ultimately show ?thesis
    using inv run by (simp add: stop_cancel_def stop_each_eq sched_inv_def groups_ok_def members_def)
qed

lemma stop_clear_inv: "sched_inv s \<Longrightarrow> sc_stopping s \<Longrightarrow> sched_inv (stop_clear s)"
  by (auto simp: stop_clear_def sched_inv_def groups_ok_def members_def)

lemma stop_done_inv:
  assumes "sched_inv s" "\<not> sc_io s"
  shows "sched_inv (stop_done s)"
  using assms by (auto simp: stop_done_def sched_inv_def groups_ok_def members_def tracked_ok_def)

lemma sched_stop_inv: "sched_inv s \<Longrightarrow> \<not> sc_stopping s \<Longrightarrow> sched_inv (stop s)"
  using stop_cancel_inv [of s] stop_clear_inv [of "stop_cancel s"] stop_done_inv [of "stop_clear (stop_cancel s)"]
  by (simp add: stop_def stop_clear_def stop_cancel_def stop_each_eq)

lemma sched_start_inv:
  assumes inv: "sched_inv s"
  shows "sched_inv (snd (start cfg created s))"
proof (cases "sc_running s")
  case False
  define u where "u = (reset_statistics s)\<lparr>sc_io := True, sc_running := True,
    sc_pre_callbacks := set_callback [] (cf_pre cfg) [], sc_post_callbacks := set_callback [] (cf_post cfg) [],
    sc_workers := sc_workers s + min created (cf_workers cfg)\<rparr>"
  have ns: "\<not> sc_stopping s"
    using inv False by (auto simp: sched_inv_def)
  have "sched_inv u"
    using inv ns by (auto simp: u_def sched_inv_def groups_ok_def members_def tracked_ok_def reset_statistics_def)
  moreover have "\<not> sc_stopping u"
    using ns by (simp add: u_def reset_statistics_def)
  moreover have "start cfg created s = (if created < cf_workers cfg then (False, stop u) else (True, u))"
    using False unfolding start_def u_def Let_def by (simp only: if_False)
  ultimately show ?thesis
    using sched_stop_inv [of u] by simp
qed (use inv in \<open>simp add: start_def\<close>)

lemma configure_group_inv: "sched_inv s \<Longrightarrow> sched_inv (snd (configure_group g cfg s))"
  by (simp add: configure_group_def Let_def split: option.split)

lemma do_op_inv:
  assumes inv: "sched_inv s" and op: "do_op x s = Some t"
  shows "sched_inv t"
proof (cases x)
  case (Op_Advance now r a)
  then show ?thesis
    using op inv step_activity_inv by (auto split: if_splits)
next
  case (Op_Call w ec)
  then show ?thesis
    using op call_handler_inv [OF inv, of w ec] by (auto split: if_splits)
next
  case (Op_Resume now i)
  then show ?thesis
    using op inv resume_internal_inv [OF inv, of now i] by (auto simp: resume_def split: if_splits)
next
  case (Op_Resume_Group now ids g)
  then show ?thesis
    using op inv resume_each_inv [OF inv, of now ids] by (auto simp: resume_group_def split: if_splits)
next
  case (Op_Resume_All now)
  then show ?thesis
    using op inv resume_each_inv [OF inv, of now "sc_tasks s"] by (auto simp: resume_all_def split: if_splits)
next
  case (Op_Restart now i)
  then show ?thesis
    using op restart_timer_inv [OF inv, of now i] by auto
qed (use op inv in \<open>auto simp: cancel_def cancel_group_def cancel_all_def suspend_def suspend_group_def suspend_all_def
    begin_post_inv cancel_internal_inv cancel_each_inv suspend_internal_inv suspend_each_inv configure_group_inv
    sched_start_inv stop_cancel_inv stop_clear_inv stop_done_inv split: if_splits\<close>)

lemma new_scheduler_inv: "sched_inv new_scheduler"
  by (simp add: sched_inv_def new_scheduler_def groups_ok_def members_def handle_ok_def new_handle_def)

lemma sched_reachable_inv: "sched_reachable s \<Longrightarrow> sched_inv s"
  by (induction rule: sched_reachable.induct) (auto intro: new_scheduler_inv do_op_inv)

lemma run_ops_append: "run_ops (xs @ ys) s = (case run_ops xs s of None \<Rightarrow> None | Some t \<Rightarrow> run_ops ys t)"
  by (induction xs arbitrary: s) (auto split: option.split)

lemma run_ops_reachable: "sched_reachable s \<Longrightarrow> run_ops ops s = Some t \<Longrightarrow> sched_reachable t"
  by (induction ops arbitrary: s) (auto split: option.splits intro: sched_reachable.step)

lemma run_ops_inv: "sched_inv s \<Longrightarrow> run_ops ops s = Some t \<Longrightarrow> sched_inv t"
  by (induction ops arbitrary: s) (auto split: option.splits intro: do_op_inv)

end
