(* ===== verification/Task_Safety.thy ===== *)
theory Task_Safety
  imports Task_Laws
begin

text \<open>
  The properties of the task scheduler: what holds in every state, that a cancelled task does not start,
  how often a task runs, what suspending and resuming keep, that one worker stays free; and runs that
  show what goes wrong.
\<close>

section \<open>Cancelled tasks\<close>

text \<open>A handler that has passed its tests and has not recorded the end of the task.\<close>

fun under_way :: "stage \<Rightarrow> bool" where
  "under_way (Checked job) = True"
| "under_way (Starting job) = True"
| "under_way (Executing job) = True"
| "under_way (Finishing job ok) = True"
| "under_way _ = False"

definition dead :: "TaskId \<Rightarrow> nat \<Rightarrow> scheduler \<Rightarrow> bool" where
  "dead i n s \<longleftrightarrow> i < sc_next_id s \<and> th_state (sc_handle s i) = Task_Canceled \<and>
     (\<forall>st. (i, st) \<in> set (sc_active s) \<longrightarrow> \<not> under_way st) \<and> task_runs i s = n"

lemma dead_on_handle:
  "dead i n s \<Longrightarrow> (th_state (sc_handle s j) = Task_Canceled \<Longrightarrow> th_state (f (sc_handle s j)) = Task_Canceled)
   \<Longrightarrow> dead i n (on_handle j f s)"
  by (auto simp: dead_def task_runs_def)

lemma dead_fields [simp]:
  "dead i n (s\<lparr>sc_canceled := c\<rparr>) = dead i n s" "dead i n (s\<lparr>sc_suspended := c\<rparr>) = dead i n s"
  "dead i n (s\<lparr>sc_pre_callbacks := p\<rparr>) = dead i n s" "dead i n (s\<lparr>sc_post_callbacks := p\<rparr>) = dead i n s"
  "dead i n (s\<lparr>sc_strands := x\<rparr>) = dead i n s" "dead i n (s\<lparr>sc_next_strand := k\<rparr>) = dead i n s"
  "dead i n (s\<lparr>sc_waits := ws\<rparr>) = dead i n s" "dead i n (s\<lparr>sc_completed := c\<rparr>) = dead i n s"
  "dead i n (s\<lparr>sc_failed := c\<rparr>) = dead i n s" "dead i n (s\<lparr>sc_io := b\<rparr>) = dead i n s"
  "dead i n (reset_statistics s) = dead i n s" "dead i n (s\<lparr>sc_running := b\<rparr>) = dead i n s"
  "dead i n (s\<lparr>sc_stopping := b\<rparr>) = dead i n s" "dead i n (s\<lparr>sc_workers := w\<rparr>) = dead i n s"
  by (simp_all add: dead_def task_runs_def reset_statistics_def)

lemma dead_remove: "dead i n s \<Longrightarrow> dead i n (remove_task_internal j g s)"
  by (auto simp: dead_def task_runs_def remove_handle)

lemma dead_add_active:
  "dead i n s \<Longrightarrow> (j = i \<Longrightarrow> \<not> under_way st) \<Longrightarrow> dead i n (s\<lparr>sc_active := (j, st) # sc_active s\<rparr>)"
  by (auto simp: dead_def task_runs_def)

lemma dead_callbacks [simp]:
  "dead i n (invoke_pre_execute_callback j s) = dead i n s"
  "dead i n (invoke_post_execute_callback j ok s) = dead i n s"
  by (auto simp: dead_def task_runs_def invoke_pre_execute_callback_def invoke_post_execute_callback_def Let_def)

lemma dead_arm: "dead i n s \<Longrightarrow> arm_timer j ms job now s = Some t \<Longrightarrow> dead i n t"
  by (auto simp: arm_timer_def dead_def task_runs_def split: if_splits)

lemma restore_interval_state [simp]: "th_state (restore_interval job h) = th_state h"
  by (simp add: restore_interval_def split: wait_job.split)

lemma dead_advance:
  assumes d: "dead i n s" and nw: "j = i \<Longrightarrow> \<not> under_way st" and adv: "advance now r j st s = Some (nx, t)"
  shows "dead i n t \<and> (j = i \<longrightarrow> (\<forall>st'. nx = Some st' \<longrightarrow> \<not> under_way st'))"
proof (cases st)
  case (Registered full)
  then show ?thesis
    using adv d by (auto simp: equip_handle_def split: if_splits intro!: dead_on_handle)
next
  case (Equipped full)
  then show ?thesis
    using adv d by (auto simp: Let_def split: if_splits intro!: dead_on_handle)
next
  case Saved
  then show ?thesis
    using adv dead_arm [OF d] by (auto simp: schedule_defs split: if_splits)
next
  case (Enqueueing x)
  then show ?thesis
    using adv d by (auto simp: post_to_io_def split: if_splits)
next
  case Removing
  then show ?thesis
    using adv dead_remove [OF d] by auto
next
  case (Checked job)
  then show ?thesis
    using adv d nw by (auto split: if_splits intro!: dead_on_handle)
next
  case (Starting job)
  then have "j \<noteq> i"
    using nw by auto
  then have "dead i n (s\<lparr>sc_calls := sc_calls s @ [Call_Task j]\<rparr>)" if "dead i n s" for s
    using that by (simp add: dead_def task_runs_def)
  then show ?thesis
    using Starting adv d \<open>j \<noteq> i\<close> by (auto simp: Let_def)
next
  case (Skipping job)
  then show ?thesis
    using adv d by (auto split: if_splits intro!: dead_on_handle)
next
  case (Executing job)
  then show ?thesis
    using adv d nw
    by (auto simp: end_of_task_def Let_def split: if_splits task_result.splits prod.splits intro!: dead_on_handle)
next
  case (Rearming x)
  then show ?thesis
    using adv dead_arm [OF d] by (auto simp: schedule_defs split: if_splits)
next
  case (Finishing job ok)
  then have "j \<noteq> i"
    using nw by auto
  then have "dead i n (on_handle j (\<lambda>h. h\<lparr>th_state := Task_Finished\<rparr>) s)"
    using d by (simp add: dead_def task_runs_def)
  then show ?thesis
    using Finishing adv \<open>j \<noteq> i\<close> by (auto simp: mark_state_def Let_def)
next
  case (Closing job ok)
  then show ?thesis
    using adv d by (auto simp: close_task_def split: if_splits intro!: dead_remove dead_on_handle)
next
  case (Leaving ok)
  then show ?thesis
    using adv d by (auto intro!: dead_on_handle)
qed

lemma dead_step_activity:
  assumes d: "dead i n s" and a: "a \<in> set (sc_active s)" and step: "step_activity now r a s = Some t"
  shows "dead i n t"
proof -
  obtain j st where jst: "a = (j, st)" by (cases a)
  have "dead i n (s\<lparr>sc_active := remove1 a (sc_active s)\<rparr>)"
    using d by (auto simp: dead_def task_runs_def dest: set_remove1_subset [THEN subsetD])
  moreover have "j = i \<Longrightarrow> \<not> under_way st"
    using d a jst by (auto simp: dead_def)
  ultimately show ?thesis
    using step dead_advance [of i n "s\<lparr>sc_active := remove1 a (sc_active s)\<rparr>" j st now r]
    by (auto simp: step_activity_def jst split: option.splits intro!: dead_add_active)
qed

lemma dead_call_handler:
  assumes d: "dead i n s"
  shows "dead i n (call_handler w ec s)"
proof -
  have "\<not> under_way st" if "begin_handler i job ec t = Some st" "th_state (sc_handle t i) = Task_Canceled" for job st t
    using that by (auto simp: begin_handler_def Let_def split: wait_job.splits if_splits)
  then show ?thesis
    using d by (auto simp: call_handler_def Let_def dead_def task_runs_def split: option.split)
qed

lemma dead_cancel_internal: "dead i n s \<Longrightarrow> dead i n (cancel_internal j s)"
  by (auto simp: cancel_internal_def intro!: dead_remove dead_on_handle)

lemma dead_cancel_each: "dead i n s \<Longrightarrow> dead i n (cancel_each ids s)"
  by (induction ids arbitrary: s) (simp_all add: dead_cancel_internal)

lemma dead_suspend_internal: "dead i n s \<Longrightarrow> dead i n (snd (suspend_internal now j s))"
  by (auto simp: suspend_internal_def intro!: dead_on_handle)

lemma dead_suspend_each: "dead i n s \<Longrightarrow> dead i n (snd (suspend_each now ids s))"
proof (induction ids arbitrary: s)
  case (Cons j ids)
  obtain ok t where t: "suspend_internal now j s = (ok, t)"
    by fastforce
  then have "dead i n t"
    using dead_suspend_internal [OF Cons.prems, of now j] by simp
  from Cons.IH [OF this] show ?case
    by (auto simp: t split: prod.split)
qed simp

lemma dead_resume_internal:
  assumes d: "dead i n s" and r: "resume_internal now j s = Some (ok, t)"
  shows "dead i n t"
proof (cases "th_state (sc_handle s j) = Task_Suspended")
  case susp: True
  define u where "u = (on_handle j (\<lambda>h. h\<lparr>th_state := Task_Running\<rparr>) s)\<lparr>sc_suspended := sc_suspended s - 1\<rparr>"
  have u: "dead i n u"
    using d susp by (auto simp: u_def intro!: dead_on_handle)
  have v: "dead i n (on_handle j (\<lambda>h. h\<lparr>th_interval := k\<rparr>) w)" if "dead i n w" for k w
    using that by (auto intro!: dead_on_handle)
  show ?thesis
    using d r u v dead_arm [OF u] dead_arm [OF v [OF u]]
    by (auto simp: resume_internal_def schedule_once_def Let_def u_def [symmetric] split: if_splits)
next
  case False
  then show ?thesis
    using d r by (auto simp: resume_internal_def)
qed

lemma dead_resume_each: "dead i n s \<Longrightarrow> resume_each now ids s = Some (k, t) \<Longrightarrow> dead i n t"
proof (induction ids arbitrary: s k)
  case (Cons j ids)
  then show ?case
    by (auto split: option.splits dest: dead_resume_internal)
qed simp

lemma dead_restart: "dead i n s \<Longrightarrow> restart_timer now j s = Some (ok, t) \<Longrightarrow> dead i n t"
  using dead_arm [of i n s] by (auto simp: restart_timer_def schedule_defs Let_def split: if_splits)

lemma dead_begin_post: "dead i n s \<Longrightarrow> dead i n (snd (begin_post ty ms g full s))"
  by (auto simp: begin_post_def register_handle_def Let_def dead_def task_runs_def)

lemma dead_stop_cancel: "dead i n s \<Longrightarrow> dead i n (stop_cancel s)"
  by (auto simp: stop_cancel_def stop_each_eq dead_def task_runs_def)

lemma dead_stop_clear: "dead i n s \<Longrightarrow> dead i n (stop_clear s)"
  by (simp add: stop_clear_def dead_def task_runs_def)

lemma dead_stop: "dead i n s \<Longrightarrow> dead i n (stop s)"
  by (simp add: stop_def stop_done_def dead_stop_cancel dead_stop_clear)

lemma dead_start: "dead i n s \<Longrightarrow> dead i n (snd (start cfg created s))"
  by (simp add: start_def Let_def dead_stop)

lemma dead_configure: "dead i n s \<Longrightarrow> dead i n (snd (configure_group g cfg s))"
  by (simp add: configure_group_def Let_def split: option.split)

lemma dead_step:
  assumes d: "dead i n s" and op: "do_op x s = Some t"
  shows "dead i n t"
proof (cases x)
  case (Op_Advance now r a)
  then show ?thesis
    using op dead_step_activity [OF d] by (auto split: if_splits)
next
  case (Op_Call w ec)
  then show ?thesis
    using op dead_call_handler [OF d, of w ec] by (auto split: if_splits)
qed (use op d in \<open>auto simp: cancel_def cancel_group_def cancel_all_def suspend_def suspend_group_def suspend_all_def
    resume_def resume_group_def resume_all_def stop_done_def
    dead_begin_post dead_cancel_internal dead_cancel_each dead_suspend_internal dead_suspend_each dead_configure
    dead_start dead_stop_cancel dead_stop_clear
    split: if_splits dest: dead_resume_internal dead_resume_each dead_restart\<close>)

lemma dead_run: "dead i n s \<Longrightarrow> run_ops ops s = Some t \<Longrightarrow> dead i n t"
  by (induction ops arbitrary: s) (auto split: option.splits dest: dead_step)

lemma cancel_dead:
  assumes inv: "sched_inv s" and run: "sc_running s" and i: "i \<in> set (sc_tasks s)"
    and idle: "\<forall>st. (i, st) \<in> set (sc_active s) \<longrightarrow> \<not> under_way st"
  shows "dead i (task_runs i s) (cancel i s)"
  using sched_invD(2) [OF inv i] run i idle
  by (simp add: cancel_def cancel_internal_def dead_def task_runs_def remove_handle)

section \<open>How often a task runs\<close>

text \<open>The stages that lead to a run of the task.\<close>

fun to_run :: "stage \<Rightarrow> bool" where
  "to_run (Checked job) = True"
| "to_run (Starting job) = True"
| "to_run st = is_posting st"

definition budget :: "TaskId \<Rightarrow> scheduler \<Rightarrow> nat" where
  "budget i s = task_runs i s + length (filter (\<lambda>w. fst w = i) (sc_waits s))
     + length (filter (\<lambda>a. fst a = i \<and> to_run (snd a)) (sc_active s))"

text \<open>What a thread that works on a once task can be at.\<close>

fun once_stage :: "task_type \<Rightarrow> stage \<Rightarrow> bool" where
  "once_stage ty Saved = (ty = Task_Delayed)"
| "once_stage ty (Checked job) = (\<not> is_periodic_job job)"
| "once_stage ty (Starting job) = (\<not> is_periodic_job job)"
| "once_stage ty (Executing job) = (\<not> is_periodic_job job)"
| "once_stage ty (Finishing job ok) = (\<not> is_periodic_job job)"
| "once_stage ty (Closing job ok) = (\<not> is_periodic_job job)"
| "once_stage ty (Skipping job) = False"
| "once_stage ty (Rearming b) = False"
| "once_stage ty st = True"

definition once_ok :: "TaskId \<Rightarrow> scheduler \<Rightarrow> bool" where
  "once_ok i s \<longleftrightarrow>
     (i < sc_next_id s \<longrightarrow> th_type (sc_handle s i) \<noteq> Task_Periodic \<longrightarrow>
        budget i s \<le> 1 \<and>
        (\<forall>job x. (i, job, x) \<in> set (sc_waits s) \<longrightarrow> \<not> is_periodic_job job) \<and>
        (\<forall>st. (i, st) \<in> set (sc_active s) \<longrightarrow> once_stage (th_type (sc_handle s i)) st)) \<and>
     (sc_next_id s \<le> i \<longrightarrow> budget i s = 0)"

lemma once_okI:
  assumes "i < sc_next_id s \<Longrightarrow> th_type (sc_handle s i) \<noteq> Task_Periodic \<Longrightarrow> budget i s \<le> 1"
    "\<And>job x. i < sc_next_id s \<Longrightarrow> th_type (sc_handle s i) \<noteq> Task_Periodic \<Longrightarrow> (i, job, x) \<in> set (sc_waits s)
      \<Longrightarrow> \<not> is_periodic_job job"
    "\<And>st. i < sc_next_id s \<Longrightarrow> th_type (sc_handle s i) \<noteq> Task_Periodic \<Longrightarrow> (i, st) \<in> set (sc_active s)
      \<Longrightarrow> once_stage (th_type (sc_handle s i)) st"
    "sc_next_id s \<le> i \<Longrightarrow> budget i s = 0"
  shows "once_ok i s"
  using assms unfolding once_ok_def by blast

lemma once_okD:
  assumes "once_ok i s"
  shows "i < sc_next_id s \<Longrightarrow> th_type (sc_handle s i) \<noteq> Task_Periodic \<Longrightarrow> budget i s \<le> 1"
    "i < sc_next_id s \<Longrightarrow> th_type (sc_handle s i) \<noteq> Task_Periodic \<Longrightarrow> (i, job, x) \<in> set (sc_waits s)
      \<Longrightarrow> \<not> is_periodic_job job"
    "i < sc_next_id s \<Longrightarrow> th_type (sc_handle s i) \<noteq> Task_Periodic \<Longrightarrow> (i, st) \<in> set (sc_active s)
      \<Longrightarrow> once_stage (th_type (sc_handle s i)) st"
    "sc_next_id s \<le> i \<Longrightarrow> budget i s = 0"
  using assms unfolding once_ok_def by blast+

lemma once_ok_mono:
  assumes ok: "once_ok i s" and next_id: "sc_next_id t = sc_next_id s"
    and ty: "th_type (sc_handle t i) = th_type (sc_handle s i)" and budget: "budget i t \<le> budget i s"
    and waits: "\<And>w. fst w = i \<Longrightarrow> w \<in> set (sc_waits t) \<Longrightarrow> w \<in> set (sc_waits s)"
    and acts: "\<And>st. i < sc_next_id s \<Longrightarrow> th_type (sc_handle s i) \<noteq> Task_Periodic \<Longrightarrow> (i, st) \<in> set (sc_active t)
      \<Longrightarrow> (i, st) \<in> set (sc_active s) \<or> once_stage (th_type (sc_handle s i)) st"
  shows "once_ok i t"
proof (rule once_okI)
  show "budget i t \<le> 1" if "i < sc_next_id t" "th_type (sc_handle t i) \<noteq> Task_Periodic"
    using once_okD(1) [OF ok] that next_id ty budget by simp
  show "\<not> is_periodic_job job" if "i < sc_next_id t" "th_type (sc_handle t i) \<noteq> Task_Periodic"
    "(i, job, x) \<in> set (sc_waits t)" for job x
    using once_okD(2) [OF ok, of job x] waits [of "(i, job, x)"] that next_id ty by simp
  show "once_stage (th_type (sc_handle t i)) st" if "i < sc_next_id t" "th_type (sc_handle t i) \<noteq> Task_Periodic"
    "(i, st) \<in> set (sc_active t)" for st
    using once_okD(3) [OF ok, of st] acts [of st] that next_id ty by auto
  show "budget i t = 0" if "sc_next_id t \<le> i"
    using once_okD(4) [OF ok] that next_id budget by simp
qed

lemma once_ok_same:
  assumes "once_ok i s" "sc_next_id t = sc_next_id s" "th_type (sc_handle t i) = th_type (sc_handle s i)"
    "sc_waits t = sc_waits s" "sc_active t = sc_active s" "task_runs i t = task_runs i s"
  shows "once_ok i t"
  using assms by (simp add: once_ok_def budget_def)

lemma length_filter_remove1:
  "x \<in> set xs \<Longrightarrow> length (filter P xs) = length (filter P (remove1 x xs)) + (if P x then 1 else 0)"
  by (induction xs) auto

text \<open>What an activity does to a handle leaves its type.\<close>

lemma type_simps [simp]:
  "th_type (restore_interval job h) = th_type h" "th_type (resolve_promise v h) = th_type h"
  by (simp_all add: restore_interval_def resolve_promise_def split: wait_job.split)

lemma remove_type [simp]: "th_type (sc_handle (remove_task_internal i g s) j) = th_type (sc_handle s j)"
  by (simp add: remove_handle)

text \<open>One step of an activity: what it adds to the waits, the runs and the stages.\<close>

lemma advance_counts:
  assumes adv: "advance now r j st s = Some (nx, t)"
  shows "sc_next_id t = sc_next_id s" "sc_active t = sc_active s"
    "th_type (sc_handle t i) = th_type (sc_handle s i)"
    "j \<noteq> i \<Longrightarrow> task_runs i t = task_runs i s"
    "j \<noteq> i \<Longrightarrow> filter (\<lambda>w. fst w = i) (sc_waits t) = filter (\<lambda>w. fst w = i) (sc_waits s)"
    "sc_waits t = sc_waits s \<or> (\<exists>job x. sc_waits t = sc_waits s @ [(j, job, x)] \<and>
       (once_stage (th_type (sc_handle s j)) st \<longrightarrow> \<not> is_periodic_job job))"
  using adv
  by (cases st; auto simp: equip_handle_def Let_def schedule_defs post_to_io_def arm_timer_def close_task_def
      end_of_task_def mark_state_def task_runs_def invoke_pre_execute_callback_def invoke_post_execute_callback_def
      is_periodic_job_def split: if_splits task_result.splits wait_job.splits)+

definition stage_weight :: "stage option \<Rightarrow> nat" where
  "stage_weight st = (case st of Some st \<Rightarrow> if to_run st then 1 else 0 | None \<Rightarrow> 0)"

lemma task_runs_callbacks [simp]:
  "task_runs i (invoke_pre_execute_callback j s) = task_runs i s"
  "task_runs i (invoke_post_execute_callback j ok s) = task_runs i s"
  by (auto simp: task_runs_def invoke_pre_execute_callback_def invoke_post_execute_callback_def Let_def)

lemma advance_once:
  assumes adv: "advance now r i st s = Some (nx, t)" and once: "once_stage (th_type (sc_handle s i)) st"
    and ty: "th_type (sc_handle s i) \<noteq> Task_Periodic"
  shows "task_runs i t + length (filter (\<lambda>w. fst w = i) (sc_waits t)) + stage_weight nx
      \<le> task_runs i s + length (filter (\<lambda>w. fst w = i) (sc_waits s)) + stage_weight (Some st)"
    "nx = Some st' \<Longrightarrow> once_stage (th_type (sc_handle s i)) st'"
proof -
  have "(task_runs i t + length (filter (\<lambda>w. fst w = i) (sc_waits t)) + stage_weight nx
      \<le> task_runs i s + length (filter (\<lambda>w. fst w = i) (sc_waits s)) + stage_weight (Some st)) \<and>
    (\<forall>st'. nx = Some st' \<longrightarrow> once_stage (th_type (sc_handle s i)) st')"
  proof (cases st)
    case (Equipped full)
    then show ?thesis
      using adv ty by (cases "th_type (sc_handle s i)") (auto simp: Let_def stage_weight_def task_runs_def)
  next
    case (Executing job)
    then show ?thesis
      using adv once by (auto simp: end_of_task_def Let_def stage_weight_def)
  qed (use adv once in \<open>auto simp: equip_handle_def Let_def schedule_defs post_to_io_def arm_timer_def close_task_def
      mark_state_def task_runs_def stage_weight_def invoke_pre_execute_callback_def
      invoke_post_execute_callback_def split: if_splits\<close>)
  then show "task_runs i t + length (filter (\<lambda>w. fst w = i) (sc_waits t)) + stage_weight nx
      \<le> task_runs i s + length (filter (\<lambda>w. fst w = i) (sc_waits s)) + stage_weight (Some st)"
    "nx = Some st' \<Longrightarrow> once_stage (th_type (sc_handle s i)) st'"
    by auto
qed

lemma once_step_activity:
  assumes ok: "once_ok i s" and inv: "sched_inv s" and a: "a \<in> set (sc_active s)"
    and step: "step_activity now r a s = Some t"
  shows "once_ok i t"
proof -
  obtain j st where jst: "a = (j, st)" by (cases a)
  let ?s = "s\<lparr>sc_active := remove1 a (sc_active s)\<rparr>"
  let ?acts = "\<lambda>u. length (filter (\<lambda>a. fst a = i \<and> to_run (snd a)) (sc_active u))"
  let ?waits = "\<lambda>u. length (filter (\<lambda>w. fst w = i) (sc_waits u))"
  obtain nx u where adv: "advance now r j st ?s = Some (nx, u)"
    and t: "t = (case nx of None \<Rightarrow> u | Some st \<Rightarrow> u\<lparr>sc_active := (j, st) # sc_active u\<rparr>)"
    using step by (auto simp: step_activity_def jst split: option.splits)
  note c = advance_counts [OF adv]
  have j: "j < sc_next_id s"
    using sched_invD(3) [OF inv a] jst by simp
  have runs: "task_runs i t = task_runs i u" and waits: "sc_waits t = sc_waits u" and next_id: "sc_next_id t = sc_next_id u"
    and handle: "sc_handle t = sc_handle u"
    by (simp_all add: t task_runs_def split: option.split)
  have acts: "?acts t = ?acts u + (if j = i then stage_weight nx else 0)"
    by (simp add: t stage_weight_def split: option.split)
  have acts_s: "?acts s = ?acts ?s + (if j = i \<and> to_run st then 1 else 0)"
    using length_filter_remove1 [OF a, of "\<lambda>a. fst a = i \<and> to_run (snd a)"] jst by simp
  have sub: "set (sc_active t) \<subseteq> set (sc_active s) \<union> (case nx of None \<Rightarrow> {} | Some st' \<Rightarrow> {(j, st')})"
    using c(2) by (auto simp: t split: option.splits dest: set_remove1_subset [THEN subsetD])
  show ?thesis
  proof (cases "j = i")
    case False
    show ?thesis
    proof (rule once_ok_mono [OF ok])
      show "budget i t \<le> budget i s"
        using False runs waits acts acts_s c(2,4,5) by (simp add: budget_def task_runs_def)
      show "w \<in> set (sc_waits s)" if "fst w = i" "w \<in> set (sc_waits t)" for w
        using that False waits c(6) by auto
      show "(i, st') \<in> set (sc_active s) \<or> once_stage (th_type (sc_handle s i)) st'"
        if "(i, st') \<in> set (sc_active t)" for st'
        using that False sub by (auto split: option.splits)
    qed (use c(1,3) in \<open>simp_all add: next_id handle\<close>)
  next
    case True
    show ?thesis
    proof (cases "th_type (sc_handle s i) = Task_Periodic")
      case True
      then show ?thesis
        using c(1,3) j \<open>j = i\<close> by (simp add: once_ok_def next_id handle)
    next
      case False
      have st: "once_stage (th_type (sc_handle s i)) st" and jobs: "\<And>job x. (i, job, x) \<in> set (sc_waits s) \<Longrightarrow> \<not> is_periodic_job job"
        and stages: "\<And>st. (i, st) \<in> set (sc_active s) \<Longrightarrow> once_stage (th_type (sc_handle s i)) st"
        using ok a jst j True False by (auto simp: once_ok_def)
      have "task_runs i u + ?waits u + stage_weight nx \<le> task_runs i s + ?waits s + stage_weight (Some st)"
        using advance_once(1) [of now r i st ?s nx u] adv True st False by (simp add: task_runs_def)
      then have "budget i t \<le> budget i s"
        using True runs waits acts acts_s c(2) by (simp add: budget_def stage_weight_def)
      moreover have "\<not> is_periodic_job job" if "(i, job, x) \<in> set (sc_waits t)" for job x
        using that waits c(6) jobs st True by auto
      moreover have "once_stage (th_type (sc_handle s i)) st'" if "(i, st') \<in> set (sc_active t)" for st'
        using that sub stages advance_once(2) [of now r i st ?s nx u st'] adv True st False by (auto split: option.splits)
      ultimately show ?thesis
        using ok c(1,3) j True False by (auto simp: once_ok_def next_id handle)
    qed
  qed
qed

lemma once_call_handler:
  assumes ok: "once_ok i s" and inv: "sched_inv s" and w: "w \<in> set (sc_waits s)"
  shows "once_ok i (call_handler w ec s)"
proof -
  obtain j job x where jw: "w = (j, job, x)" by (cases w)
  let ?s = "s\<lparr>sc_waits := remove1 w (sc_waits s)\<rparr>"
  have j: "j < sc_next_id s"
    using sched_invD(4) [OF inv w] jw by simp
  have stage: "once_stage ty st" if "begin_handler j job ec ?s = Some st" "\<not> is_periodic_job job" for st ty
    using that by (auto simp: begin_handler_def Let_def split: wait_job.splits if_splits)
  have count: "budget i (call_handler w ec s) \<le> budget i s"
    using length_filter_remove1 [OF w, of "\<lambda>w. fst w = i"] jw
    by (auto simp: call_handler_def Let_def budget_def task_runs_def split: option.split)
  have keeps: "sc_next_id (call_handler w ec s) = sc_next_id s" "sc_handle (call_handler w ec s) = sc_handle s"
    by (simp_all add: call_handler_def Let_def split: option.split)
  have waits: "set (sc_waits (call_handler w ec s)) \<subseteq> set (sc_waits s)"
    by (auto simp: call_handler_def Let_def split: option.split dest: set_remove1_subset [THEN subsetD])
  have acts: "once_stage (th_type (sc_handle s i)) st"
    if "(i, st) \<in> set (sc_active (call_handler w ec s))" "i < sc_next_id s" "th_type (sc_handle s i) \<noteq> Task_Periodic" for st
  proof -
    have "(i, st) \<in> set (sc_active s) \<or> (j = i \<and> begin_handler j job ec ?s = Some st)"
      using that(1) jw by (auto simp: call_handler_def Let_def split: option.splits)
    moreover have "j = i \<Longrightarrow> \<not> is_periodic_job job"
      using ok w jw that(2,3) by (auto simp: once_ok_def)
    ultimately show ?thesis
      using ok stage that(2,3) by (auto simp: once_ok_def)
  qed
  show ?thesis
  proof (rule once_ok_mono [OF ok])
    show "w' \<in> set (sc_waits s)" if "w' \<in> set (sc_waits (call_handler w ec s))" for w'
      using that waits by auto
  qed (use count acts keeps in simp_all)
qed

lemma once_remove [simp]: "once_ok i (remove_task_internal j g s) = once_ok i s"
  by (simp add: once_ok_def budget_def task_runs_def)

lemma once_on_handle [simp]:
  "(\<And>h. th_type (f h) = th_type h) \<Longrightarrow> once_ok i (on_handle j f s) = once_ok i s"
  by (simp add: once_ok_def budget_def task_runs_def)

lemma once_fields [simp]:
  "once_ok i (s\<lparr>sc_canceled := c\<rparr>) = once_ok i s" "once_ok i (s\<lparr>sc_suspended := c\<rparr>) = once_ok i s"
  "once_ok i (s\<lparr>sc_pre_callbacks := p\<rparr>) = once_ok i s" "once_ok i (s\<lparr>sc_post_callbacks := p\<rparr>) = once_ok i s"
  "once_ok i (s\<lparr>sc_strands := x\<rparr>) = once_ok i s" "once_ok i (s\<lparr>sc_next_strand := k\<rparr>) = once_ok i s"
  "once_ok i (s\<lparr>sc_io := b\<rparr>) = once_ok i s" "once_ok i (reset_statistics s) = once_ok i s"
  "once_ok i (s\<lparr>sc_running := b\<rparr>) = once_ok i s" "once_ok i (s\<lparr>sc_stopping := b\<rparr>) = once_ok i s"
  "once_ok i (s\<lparr>sc_workers := w\<rparr>) = once_ok i s"
  by (simp_all add: once_ok_def budget_def task_runs_def reset_statistics_def)

lemma once_cancel [simp]: "once_ok i (cancel_internal j s) = once_ok i s" "once_ok i (cancel_each ids s) = once_ok i s"
proof -
  show "once_ok i (cancel_internal j s) = once_ok i s" for j s
    by (simp add: cancel_internal_def)
  then show "once_ok i (cancel_each ids s) = once_ok i s"
    by (induction ids arbitrary: s) simp_all
qed

lemma once_suspend [simp]:
  "once_ok i (snd (suspend_internal now j s)) = once_ok i s" "once_ok i (snd (suspend_each now ids s)) = once_ok i s"
proof -
  show one: "once_ok i (snd (suspend_internal now j s)) = once_ok i s" for j s
    by (simp add: suspend_internal_def)
  show "once_ok i (snd (suspend_each now ids s)) = once_ok i s"
  proof (induction ids arbitrary: s)
    case (Cons j ids)
    obtain ok t where t: "suspend_internal now j s = (ok, t)"
      by fastforce
    then have "once_ok i t = once_ok i s"
      using one [of j s] by simp
    moreover have "snd (suspend_each now (j # ids) s) = snd (suspend_each now ids t)"
      by (simp add: t split: prod.split)
    ultimately show ?case
      by (simp only: Cons.IH)
  qed simp
qed

lemma once_begin_post:
  assumes ok: "once_ok i s" and inv: "sched_inv s"
  shows "once_ok i (snd (begin_post ty ms g full s))"
proof (cases "sc_running s")
  case True
  define t where "t = snd (begin_post ty ms g full s)"
  have t: "sc_next_id t = sc_next_id s + 1" "sc_active t = (sc_next_id s, Registered full) # sc_active s"
    "sc_waits t = sc_waits s" "sc_calls t = sc_calls s"
    "\<And>j. j \<noteq> sc_next_id s \<Longrightarrow> sc_handle t j = sc_handle s j"
    using True by (auto simp: t_def begin_post_def register_handle_def Let_def)
  have runs: "task_runs i t = task_runs i s"
    by (simp add: task_runs_def t(4))
  show ?thesis
  proof (cases "i = sc_next_id s")
    case True
    have "budget i s = 0"
      using ok True by (simp add: once_ok_def)
    then have "budget i t = 1" and "(i, job, x) \<notin> set (sc_waits t)" for job x
      using True runs by (auto simp: budget_def t(2,3) filter_empty_conv)
    moreover have "once_stage (th_type (sc_handle t i)) st" if "(i, st) \<in> set (sc_active t)" for st
      using that sched_invD(3) [OF inv, of "(i, st)"] True by (auto simp: t(2))
    ultimately show ?thesis
      using True t(1) by (simp add: once_ok_def t_def)
  next
    case False
    then have "budget i t = budget i s"
      using runs by (simp add: budget_def t(2,3))
    then show ?thesis
      using ok False t by (auto simp: once_ok_def t_def [symmetric])
  qed
qed (use ok in \<open>simp add: begin_post_def\<close>)

lemma once_stop_cancel: "once_ok i s \<Longrightarrow> once_ok i (stop_cancel s)"
  by (rule once_ok_same [of i s]) (auto simp: stop_cancel_def stop_each_eq task_runs_def)

lemma once_stop_clear: "once_ok i s \<Longrightarrow> once_ok i (stop_clear s)"
  by (auto simp: stop_clear_def once_ok_def budget_def task_runs_def)

lemma once_start: "once_ok i s \<Longrightarrow> once_ok i (snd (start cfg created s))"
  by (simp add: start_def stop_def stop_done_def Let_def once_stop_cancel once_stop_clear)

lemma once_configure: "once_ok i s \<Longrightarrow> once_ok i (snd (configure_group g cfg s))"
  by (simp add: configure_group_def Let_def split: option.split)

text \<open>Steps that arm no timer again.\<close>

fun rearms :: "sched_op \<Rightarrow> bool" where
  "rearms (Op_Resume now i) = True"
| "rearms (Op_Resume_Group now ids g) = True"
| "rearms (Op_Resume_All now) = True"
| "rearms (Op_Restart now i) = True"
| "rearms _ = False"

lemma once_step:
  assumes ok: "once_ok i s" and inv: "sched_inv s" and op: "do_op x s = Some t" and r: "\<not> rearms x"
  shows "once_ok i t"
proof (cases x)
  case (Op_Advance now r a)
  then show ?thesis
    using op once_step_activity [OF ok inv] by (auto split: if_splits)
next
  case (Op_Call w ec)
  then show ?thesis
    using op once_call_handler [OF ok inv, of w ec] by (auto split: if_splits)
qed (use op ok inv r in \<open>auto simp: cancel_def cancel_group_def cancel_all_def suspend_def suspend_group_def
    suspend_all_def stop_done_def once_begin_post once_start once_configure once_stop_cancel once_stop_clear
    split: if_splits\<close>)

lemma once_run:
  "once_ok i s \<Longrightarrow> sched_inv s \<Longrightarrow> run_ops ops s = Some t \<Longrightarrow> \<forall>x \<in> set ops. \<not> rearms x \<Longrightarrow> once_ok i t"
  by (induction ops arbitrary: s) (auto split: option.splits dest: once_step do_op_inv)

lemma once_new: "once_ok i new_scheduler"
  by (simp add: once_ok_def budget_def new_scheduler_def new_handle_def task_runs_def)

section \<open>The slots of waiting workers\<close>

text \<open>The worker threads of scheduler \<open>this\<close> acquire and release slots in any order.\<close>

inductive slots_reach :: "ptr \<Rightarrow> nat \<Rightarrow> (nat \<Rightarrow> worker_tls) \<Rightarrow> nat \<Rightarrow> bool" for this w where
  slots_new: "slots_reach this w (\<lambda>_. new_tls (Some this)) 0"
| slots_acquire: "slots_reach this w t n \<Longrightarrow> k < w \<Longrightarrow> try_acquire_worker_wait_slot this w (t k) n = (ok, u, n')
    \<Longrightarrow> slots_reach this w (t(k := u)) n'"
| slots_release: "slots_reach this w t n \<Longrightarrow> k < w \<Longrightarrow> release_worker_wait_slot this (t k) n = (u, n')
    \<Longrightarrow> slots_reach this w (t(k := u)) n'"

lemma count_upd:
  fixes k w :: nat
  assumes "k < w"
  shows "(\<Sum>j<w. wt_count ((t(k := u)) j)) + wt_count (t k) = (\<Sum>j<w. wt_count (t j)) + wt_count u"
proof -
  have rm: "(\<Sum>j<w. g j) = g k + (\<Sum>j\<in>{..<w} - {k}. g j)" for g :: "nat \<Rightarrow> nat"
    using assms by (simp add: sum.remove)
  have "(\<Sum>j\<in>{..<w} - {k}. wt_count ((t(k := u)) j)) = (\<Sum>j\<in>{..<w} - {k}. wt_count (t j))"
    by (rule sum.cong) auto
  then show ?thesis
    using rm [of "\<lambda>j. wt_count (t j)"] rm [of "\<lambda>j. wt_count ((t(k := u)) j)"] by simp
qed

lemma slots_reach_count:
  assumes "slots_reach this w t n"
  shows "n = (\<Sum>j<w. wt_count (t j)) \<and> n \<le> w - 1"
  using assms
proof (induction rule: slots_reach.induct)
  case slots_new
  show ?case
    by (simp add: new_tls_def)
next
  case (slots_acquire t n k ok u n')
  then show ?case
    using count_upd [OF slots_acquire.hyps(2), of t u]
    by (auto simp: try_acquire_worker_wait_slot_def simp del: fun_upd_apply split: if_splits)
next
  case (slots_release t n k u n')
  then show ?case
    using count_upd [OF slots_release.hyps(2), of t u]
    by (auto simp: release_worker_wait_slot_def simp del: fun_upd_apply split: if_splits)
qed

section \<open>The properties\<close>

text \<open>C12: In every state of a scheduler the map of groups lists exactly the tracked tasks of each group, no
  group is empty, every promise is open exactly until its future has a value, no tracked task is cancelled or
  has its value unless the scheduler is stopping, and resuming or restarting never touches a missing timer.\<close>

theorem scheduler_state_inv:
  assumes "sched_reachable s"
  shows "(\<forall>g. g \<noteq> [] \<longrightarrow> set (members s g) = {i \<in> set (sc_tasks s). th_group (sc_handle s i) = g}) \<and>
    (\<forall>g ids. map_of (sc_groups s) g = Some ids \<longrightarrow> ids \<noteq> [] \<and> distinct ids) \<and>
    (\<forall>i. th_promise (sc_handle s i) \<longleftrightarrow> th_future (sc_handle s i) = Future_Pending) \<and>
    (\<forall>i v. i \<in> set (sc_tasks s) \<longrightarrow> th_state (sc_handle s i) = Task_Canceled \<or> th_future (sc_handle s i) = Future_Value v
       \<longrightarrow> sc_stopping s) \<and>
    (\<forall>now i. resume now i s \<noteq> None \<and> restart_timer now i s \<noteq> None)"
proof -
  have inv: "sched_inv s"
    using assms by (rule sched_reachable_inv)
  have ok: "groups_ok s"
    using inv by (simp add: sched_invD)
  have "\<forall>g. g \<noteq> [] \<longrightarrow> set (members s g) = {i \<in> set (sc_tasks s). th_group (sc_handle s i) = g}"
    "\<forall>g ids. map_of (sc_groups s) g = Some ids \<longrightarrow> ids \<noteq> [] \<and> distinct ids"
    using ok by (simp_all add: groups_ok_def)
  moreover have "\<forall>i. th_promise (sc_handle s i) \<longleftrightarrow> th_future (sc_handle s i) = Future_Pending"
    using inv by (simp add: sched_inv_def handle_ok_def)
  moreover have "\<forall>i v. i \<in> set (sc_tasks s) \<longrightarrow>
      th_state (sc_handle s i) = Task_Canceled \<or> th_future (sc_handle s i) = Future_Value v \<longrightarrow> sc_stopping s"
    using inv by (auto simp: sched_inv_def tracked_ok_def)
  moreover have "\<forall>now i. resume now i s \<noteq> None \<and> restart_timer now i s \<noteq> None"
  proof (intro allI conjI)
    fix now i
    show "resume now i s \<noteq> None"
      using resume_internal_inv [OF inv, of now i] by (auto simp: resume_def)
    show "restart_timer now i s \<noteq> None"
      using restart_timer_inv [OF inv, of now i] by auto
  qed
  ultimately show ?thesis
    by (intro conjI)
qed

text \<open>A scheduler with one delayed task of group \<open>ui\<close>, armed for 100 ms from now.\<close>

definition one_worker :: start_config where
  "one_worker = \<lparr>cf_workers = 1, cf_pre = None, cf_post = None\<rparr>"

definition arm_ops :: "task_type \<Rightarrow> sched_op list" where
  "arm_ops ty =
     [Op_Start one_worker 1, Op_Post ty 100 ''ui'' True,
      Op_Advance 0 (Task_Returned False) (1, Registered True),
      Op_Advance 0 (Task_Returned False) (1, Equipped True),
      Op_Advance 0 (Task_Returned False) (1, Saved)]"

definition armed_task :: "task_type \<Rightarrow> scheduler" where
  "armed_task ty = the (run_ops (arm_ops ty) new_scheduler)"

lemma armed_runs: "ty \<noteq> Task_Immediate \<Longrightarrow> run_ops (arm_ops ty) new_scheduler = Some (armed_task ty)"
proof -
  have "run_ops (arm_ops Task_Delayed) new_scheduler \<noteq> None" "run_ops (arm_ops Task_Periodic) new_scheduler \<noteq> None"
    by code_simp+
  then show "ty \<noteq> Task_Immediate \<Longrightarrow> run_ops (arm_ops ty) new_scheduler = Some (armed_task ty)"
    unfolding armed_task_def by (cases ty) auto
qed

lemma armed_reachable: "ty \<noteq> Task_Immediate \<Longrightarrow> sched_reachable (armed_task ty)"
  by (rule run_ops_reachable [OF sched_reachable.new armed_runs])

lemma scheduler_state_inv_witness:
  "set (members (armed_task Task_Delayed) ''ui'') =
     {i \<in> set (sc_tasks (armed_task Task_Delayed)). th_group (sc_handle (armed_task Task_Delayed) i) = ''ui''}"
  using scheduler_state_inv [OF armed_reachable, of Task_Delayed] by simp

text \<open>C6: A cancelled task does not start any more: when a tracked task is cancelled while no handler of it is
  past its tests, it is not run again and stays cancelled, whatever the threads do afterwards.\<close>

theorem cancelled_task_never_starts:
  assumes "sched_reachable s" and "sc_running s" and "i \<in> set (sc_tasks s)"
    and "\<forall>st. (i, st) \<in> set (sc_active s) \<longrightarrow> \<not> under_way st"
    and "run_ops ops (cancel i s) = Some t"
  shows "task_runs i t = task_runs i s \<and> th_state (sc_handle t i) = Task_Canceled"
  using dead_run [OF cancel_dead [OF sched_reachable_inv [OF assms(1)] assms(2-4)] assms(5)]
  by (simp add: dead_def)

text \<open>The handler of the cancelled task is called with the error of its timer, or after the timer fired.\<close>

definition late_call :: "error_code \<Rightarrow> sched_op list" where
  "late_call ec = [Op_Call (1, Fire_Once, None) ec, Op_Advance 0 (Task_Returned True) (1, Removing)]"

definition after_cancel :: "error_code \<Rightarrow> scheduler" where
  "after_cancel ec = the (run_ops (late_call ec) (cancel 1 (armed_task Task_Delayed)))"

lemma after_cancel_runs:
  "run_ops (late_call ec) (cancel 1 (armed_task Task_Delayed)) = Some (after_cancel ec)"
proof -
  have "\<forall>ec \<in> {Ec_None, Ec_Aborted, Ec_Other}. run_ops (late_call ec) (cancel 1 (armed_task Task_Delayed)) \<noteq> None"
    by code_simp
  then show ?thesis
    by (cases ec) (auto simp: after_cancel_def)
qed

lemma armed_state:
  "sc_running (armed_task Task_Delayed)" "1 \<in> set (sc_tasks (armed_task Task_Delayed))" "sc_active (armed_task Task_Delayed) = []"
  "task_runs 1 (armed_task Task_Delayed) = 0" "th_timer (sc_handle (armed_task Task_Delayed) 1) = Some 100000000"
  "th_type (sc_handle (armed_task Task_Delayed) 1) = Task_Delayed" "th_saved (sc_handle (armed_task Task_Delayed) 1)"
  "th_state (sc_handle (armed_task Task_Delayed) 1) = Task_Running" "th_interval (sc_handle (armed_task Task_Delayed) 1) = 100"
  by code_simp+

lemma cancelled_task_never_starts_witness: "task_runs 1 (after_cancel Ec_None) = 0"
  using cancelled_task_never_starts [OF armed_reachable armed_state(1,2) _ after_cancel_runs [of Ec_None]]
  by (simp add: armed_state del: One_nat_def)


text \<open>The handler of task 1 as it runs to its end.\<close>

definition run_once :: "sched_op list" where
  "run_once =
     [Op_Call (1, Fire_Once, None) Ec_None,
      Op_Advance 0 (Task_Returned True) (1, Checked Fire_Once),
      Op_Advance 0 (Task_Returned True) (1, Starting Fire_Once),
      Op_Advance 0 (Task_Returned True) (1, Executing Fire_Once),
      Op_Advance 0 (Task_Returned True) (1, Finishing Fire_Once True),
      Op_Advance 0 (Task_Returned True) (1, Closing Fire_Once True)]"

definition once_done :: scheduler where
  "once_done = the (run_ops (arm_ops Task_Delayed @ run_once) new_scheduler)"


text \<open>C28: Suspending a delayed or periodic task and resuming it later arms its timer with what was left, less at
  most a millisecond, and leaves its interval and the count of suspended tasks as they were.\<close>

theorem suspend_resume_keeps_delay:
  assumes "sched_reachable s" and "sc_running s" and "i \<in> set (sc_tasks s)"
    and "can_suspend (sc_handle s i)" and "th_state (sc_handle s i) = Task_Running"
    and "th_saved (sc_handle s i)" and "th_timer (sc_handle s i) = Some x" and "now \<le> x"
  shows "\<exists>t y. resume later i (snd (suspend now i s)) = Some (True, t) \<and>
    th_timer (sc_handle t i) = Some y \<and> x - now - ns_per_ms < y - later \<and> y - later \<le> x - now \<and>
    th_state (sc_handle t i) = Task_Running \<and> th_interval (sc_handle t i) = th_interval (sc_handle s i) \<and>
    sc_suspended t = sc_suspended s"
proof -
  define d where "d = to_ms (x - now)"
  have d: "0 \<le> d" "x - now - ns_per_ms < d * ns_per_ms" "d * ns_per_ms \<le> x - now"
    using assms(8) by (auto simp: d_def to_ms_def ns_per_ms_def)
  define u where "u = snd (suspend now i s)"
  have u: "u = (on_handle i (suspend_handle now) s)\<lparr>sc_suspended := sc_suspended s + 1\<rparr>"
    using assms(2-5) by (simp add: u_def suspend_def suspend_internal_def)
  have rem: "max 0 (th_remaining (sc_handle u i)) = d" "sc_io u = sc_io s" "th_timer (sc_handle u i) = Some x"
    using assms(7) d(1) by (simp_all add: u suspend_handle_def d_def)
  have io: "sc_io s"
    using arm_timer_defined [OF sched_reachable_inv [OF assms(1)] assms(3,6)] assms(5) by simp
  have "\<exists>t. resume later i u = Some (True, t) \<and> th_timer (sc_handle t i) = Some (later + d * ns_per_ms) \<and>
    th_state (sc_handle t i) = Task_Running \<and> th_interval (sc_handle t i) = th_interval (sc_handle s i) \<and>
    sc_suspended t = sc_suspended s"
    using assms(2-7) io rem d(1)
    by (auto simp: u resume_def resume_internal_def schedule_once_def arm_timer_def Let_def can_suspend_def on_handle_def)
  then show ?thesis
    using d by (auto simp: u_def)
qed

lemma suspend_resume_keeps_delay_witness:
  "\<exists>t y. resume 500000000 1 (snd (suspend 30000000 1 (armed_task Task_Delayed))) = Some (True, t) \<and>
    th_timer (sc_handle t 1) = Some y \<and> 69000000 < y - 500000000 \<and> y - 500000000 \<le> 70000000"
  using suspend_resume_keeps_delay [OF armed_reachable armed_state(1,2) _ armed_state(8,7,5), of 30000000 500000000]
  by (auto simp: armed_state can_suspend_def ns_per_ms_def simp del: One_nat_def)

text \<open>C32: The slots taken are those the worker threads hold, and however they wait, one worker of the count
  that the scheduler goes by holds none.\<close>

theorem wait_slots_leave_worker:
  assumes "slots_reach this w t n" and "0 < w"
  shows "n = (\<Sum>j<w. wt_count (t j)) \<and> (\<exists>k<w. wt_count (t k) = 0)"
proof -
  note c = slots_reach_count [OF assms(1)]
  have "\<exists>k<w. wt_count (t k) = 0"
  proof (rule ccontr)
    assume "\<not> ?thesis"
    then have "(\<Sum>j<w. 1) \<le> (\<Sum>j<w. wt_count (t j))"
      by (intro sum_mono) (auto simp: Suc_le_eq)
    then have "w \<le> n"
      using c by simp
    then show False
      using c assms(2) by linarith
  qed
  then show ?thesis
    using c by simp
qed

lemma wait_slots_leave_worker_witness:
  "\<exists>t. slots_reach 0 2 t 1 \<and> (\<exists>k<2. wt_count (t k) = 0)"
proof -
  obtain ok u where "try_acquire_worker_wait_slot 0 2 (new_tls (Some 0)) 0 = (ok, u, 1)"
    by (simp add: try_acquire_worker_wait_slot_def new_tls_def)
  then have reach: "slots_reach 0 2 ((\<lambda>_. new_tls (Some 0))(0 := u)) 1" (is "slots_reach _ _ ?t _")
    using slots_acquire [OF slots_new, of 0 2 0 ok u 1] by simp
  have "(0::nat) < 2"
    by simp
  from wait_slots_leave_worker [OF reach this] have "\<exists>k<2. wt_count (?t k) = 0"
    by (rule conjunct2)
  with reach show ?thesis
    by (intro exI [of _ ?t] conjI)
qed

section \<open>Runs that go wrong\<close>

text \<open>A thread that posts has no lock between making the handle and arming its timer: cancelling all tasks
  in between releases the timer it then uses.\<close>

lemma cancel_while_posting_undefined:
  "run_ops [Op_Start one_worker 1, Op_Post Task_Delayed 100 [] True,
     Op_Advance 0 (Task_Returned False) (1, Registered True),
     Op_Advance 0 (Task_Returned False) (1, Equipped True), Op_Cancel_All,
     Op_Advance 0 (Task_Returned False) (1, Saved)] new_scheduler = None"
  by code_simp

text \<open>A delayed task restarted when its handler is already queued can run twice: the second handler finds the
  task finished and does not check for that.\<close>

theorem restarted_task_runs_twice:
  "map_option (task_runs 1) (run_ops (arm_ops Task_Delayed @ [Op_Restart 100000000 1] @ run_once
     @ [Op_Call (1, Fire_Once, None) Ec_None,
        Op_Advance 0 (Task_Returned True) (1, Checked Fire_Once),
        Op_Advance 0 (Task_Returned True) (1, Starting Fire_Once)]) new_scheduler) = Some 2"
  by code_simp

text \<open>A periodic task that was resumed and is restarted before it fired is forgotten: the handler of the
  cancelled wait removes it and releases the timer that was just armed.\<close>

lemma restart_drops_resumed_task:
  "map_option (\<lambda>s. (sc_tasks s, th_timer (sc_handle s 1)))
     (run_ops (arm_ops Task_Periodic @ [Op_Suspend 10000000 1, Op_Call (1, Fire_Periodic, None) Ec_Aborted,
        Op_Resume 20000000 1, Op_Restart 30000000 1, Op_Call (1, Fire_Resumed 100, None) Ec_Aborted,
        Op_Advance 0 (Task_Returned True) (1, Removing)]) new_scheduler) = Some ([], None)"
  by code_simp

text \<open>Resetting the statistics while a task is suspended makes the count of suspended tasks wrap when it resumes.\<close>

lemma reset_wraps_suspended:
  "map_option sc_suspended
     (run_ops (arm_ops Task_Delayed @ [Op_Suspend 10000000 1, Op_Reset, Op_Resume 20000000 1]) new_scheduler)
   = Some 18446744073709551615"
  by code_simp

text \<open>A suspended task that is cancelled stays in the count of suspended tasks.\<close>

lemma cancel_keeps_suspended:
  "map_option (\<lambda>s. (sc_tasks s, sc_suspended s))
     (run_ops (arm_ops Task_Delayed @ [Op_Suspend 10000000 1, Op_Cancel 1]) new_scheduler) = Some ([], 1)"
  by code_simp

text \<open>A task that is cancelled while it runs is counted as cancelled and as completed.\<close>

lemma cancelled_and_completed:
  "map_option (\<lambda>s. (sc_total s, sc_canceled s, sc_completed s))
     (run_ops (arm_ops Task_Delayed @ take 3 run_once @ [Op_Cancel 1] @ drop 3 run_once) new_scheduler)
   = Some (1, 1, 1)"
  by code_simp

text \<open>After a restart the scheduler counts the worker threads of its earlier run, which have ended: with one
  worker it gives that worker a slot to wait, and nothing is left to run the task it waits for.\<close>

theorem restart_counts_old_workers:
  "let s = snd (start one_worker 1 (stop (snd (start one_worker 1 new_scheduler))))
   in sc_running s \<and> get_worker_count s = 2 \<and>
      fst (try_acquire_worker_wait_slot 0 (get_worker_count s) (new_tls (Some 0)) 0)"
  by code_simp

end
