(* ===== verification/Agent_State.thy ===== *)
theory Agent_State
  imports Table_Machine
begin

text \<open>
  The actions and events of an agent (\<open>agent_manager/src/base.cpp\<close>, lines 285 to 347, 610 to 684 and 1067 to
  1315, and \<open>base.hpp\<close>): the flags that say what an agent is doing and what it has reached.

  What an agent does for an action is a hook; it may raise events before it returns. An unexpected event
  makes the agent do the action that leads to it, during which events are ignored, so the recursion between
  actions and events is two deep and is written out. The agent manager's callback for an unexpected event
  is recorded in \<open>ag_forced\<close>, what is published in \<open>ag_log\<close>. The queue of actions belongs to the
  state machine (\<open>Agent_Machine\<close>), which shares this record as its environment.
\<close>

section \<open>Actions, events and flags\<close>

datatype general_action =
  Act_TimeSync | Act_Activate | Act_Start | Act_Sleep | Act_WakeUp | Act_Stop | Act_Max

datatype general_event =
  Ev_TimeSynced | Ev_Activated | Ev_Started | Ev_Slept | Ev_Awake | Ev_Stopped | Ev_Max

datatype state_flag =
  Flag_TimeSyncing | Flag_Ready | Flag_Activating | Flag_Activated | Flag_Starting | Flag_Stopping |
  Flag_Started | Flag_Sleeping | Flag_WakingUp | Flag_Slept | Flag_Error | Flag_Max

fun get_general_action_target_event :: "general_action \<Rightarrow> general_event" where
  "get_general_action_target_event Act_TimeSync = Ev_TimeSynced"
| "get_general_action_target_event Act_Activate = Ev_Activated"
| "get_general_action_target_event Act_Start = Ev_Started"
| "get_general_action_target_event Act_Stop = Ev_Stopped"
| "get_general_action_target_event Act_Sleep = Ev_Slept"
| "get_general_action_target_event Act_WakeUp = Ev_Awake"
| "get_general_action_target_event Act_Max = Ev_Max"

fun get_general_action_from_target_event :: "general_event \<Rightarrow> general_action" where
  "get_general_action_from_target_event Ev_TimeSynced = Act_TimeSync"
| "get_general_action_from_target_event Ev_Activated = Act_Activate"
| "get_general_action_from_target_event Ev_Started = Act_Start"
| "get_general_action_from_target_event Ev_Stopped = Act_Stop"
| "get_general_action_from_target_event Ev_Slept = Act_Sleep"
| "get_general_action_from_target_event Ev_Awake = Act_WakeUp"
| "get_general_action_from_target_event Ev_Max = Act_Max"

fun get_general_action_state_flag_bit :: "general_action \<Rightarrow> state_flag" where
  "get_general_action_state_flag_bit Act_TimeSync = Flag_TimeSyncing"
| "get_general_action_state_flag_bit Act_Activate = Flag_Activating"
| "get_general_action_state_flag_bit Act_Start = Flag_Starting"
| "get_general_action_state_flag_bit Act_Stop = Flag_Stopping"
| "get_general_action_state_flag_bit Act_Sleep = Flag_Sleeping"
| "get_general_action_state_flag_bit Act_WakeUp = Flag_WakingUp"
| "get_general_action_state_flag_bit Act_Max = Flag_Max"

fun get_general_event_state_flag_bit :: "general_event \<Rightarrow> state_flag \<times> bool" where
  "get_general_event_state_flag_bit Ev_TimeSynced = (Flag_TimeSyncing, True)"
| "get_general_event_state_flag_bit Ev_Activated = (Flag_Activated, True)"
| "get_general_event_state_flag_bit Ev_Started = (Flag_Started, True)"
| "get_general_event_state_flag_bit Ev_Stopped = (Flag_Activated, False)"
| "get_general_event_state_flag_bit Ev_Slept = (Flag_Slept, True)"
| "get_general_event_state_flag_bit Ev_Awake = (Flag_Slept, False)"
| "get_general_event_state_flag_bit Ev_Max = (Flag_Max, True)"

section \<open>State\<close>

datatype agent_publication = Pub_Action general_action | Pub_Event general_event bool

record 'w agent =
  ag_flags :: "state_flag \<Rightarrow> bool"
  ag_processing :: bool
  ag_queue :: "general_action list"
  ag_queue_task :: nat
  ag_forced :: "general_event list"
  ag_log :: "agent_publication list"
  ag_world :: 'w

text \<open>A hook tells whether it succeeded and which events it raised.\<close>

record 'w agent_env =
  ae_do :: "general_action \<Rightarrow> 'w \<Rightarrow> bool \<times> general_event list \<times> 'w"

definition no_flags :: "state_flag \<Rightarrow> bool" where
  "no_flags = (\<lambda>_. False)"

definition new_agent :: "'w \<Rightarrow> 'w agent" where
  "new_agent w = \<lparr>ag_flags = no_flags, ag_processing = False, ag_queue = [], ag_queue_task = 0, ag_forced = [],
     ag_log = [], ag_world = w\<rparr>"

definition set_flag :: "state_flag \<Rightarrow> bool \<Rightarrow> 'w agent \<Rightarrow> 'w agent" where
  "set_flag f b a = a\<lparr>ag_flags := (ag_flags a)(f := b)\<rparr>"

section \<open>Reading and writing the flags\<close>

definition action_order :: "general_action list" where
  "action_order = [Act_TimeSync, Act_Activate, Act_Start, Act_Sleep, Act_WakeUp, Act_Stop]"

text \<open>The first action in the order of the enumeration whose flag is set.\<close>

definition get_running_general_action :: "'w agent \<Rightarrow> general_action" where
  "get_running_general_action a =
     (case find (\<lambda>x. ag_flags a (get_general_action_state_flag_bit x)) action_order of
        Some x \<Rightarrow> x | None \<Rightarrow> Act_Max)"

definition is_general_action_running :: "general_action \<Rightarrow> 'w agent \<Rightarrow> bool" where
  "is_general_action_running x a =
     (if x = Act_Max then get_running_general_action a \<noteq> Act_Max else x = get_running_general_action a)"

definition is_general_event_ready :: "general_event \<Rightarrow> 'w agent \<Rightarrow> bool" where
  "is_general_event_ready ev a =
     (let (f, v) = get_general_event_state_flag_bit ev
      in f \<noteq> Flag_Max \<and> \<not> (ev = Ev_Stopped \<and> is_general_action_running Act_Activate a) \<and> ag_flags a f = v)"

definition is_general_event_unexpected :: "general_event \<Rightarrow> 'w agent \<Rightarrow> bool" where
  "is_general_event_unexpected ev a =
     (if get_running_general_action a = get_general_action_from_target_event ev then False
      else case ev of
        Ev_Stopped \<Rightarrow> is_general_action_running Act_Activate a \<or> is_general_event_ready Ev_Activated a
      | Ev_Slept \<Rightarrow> is_general_action_running Act_WakeUp a \<or> is_general_event_ready Ev_Awake a
      | _ \<Rightarrow> False)"

definition update_general_action_state_bit :: "general_action \<Rightarrow> bool \<Rightarrow> 'w agent \<Rightarrow> 'w agent" where
  "update_general_action_state_bit x b a = (if x = Act_Max then a else set_flag (get_general_action_state_flag_bit x) b a)"

definition update_general_event_state_bit :: "general_event \<Rightarrow> bool \<Rightarrow> 'w agent \<Rightarrow> 'w agent" where
  "update_general_event_state_bit ev b a =
     (if ev = Ev_Max then a
      else let (f, v) = get_general_event_state_flag_bit ev in set_flag f (if b then v else \<not> v) a)"

definition reset_general_state_flag_bits :: "'w agent \<Rightarrow> 'w agent" where
  "reset_general_state_flag_bits a = a\<lparr>ag_flags := no_flags(Flag_Ready := True)\<rparr>"

definition clear_general_state_flag_bits :: "'w agent \<Rightarrow> 'w agent" where
  "clear_general_state_flag_bits a = a\<lparr>ag_flags := no_flags\<rparr>"

definition update_general_state_error :: "bool \<Rightarrow> 'w agent \<Rightarrow> 'w agent" where
  "update_general_state_error b a = set_flag Flag_Error b a"

definition is_general_state_error :: "'w agent \<Rightarrow> bool" where
  "is_general_state_error a = ag_flags a Flag_Error"

section \<open>Doing an action, raising an event\<close>

text \<open>Time synchronisation is no action of an agent: its hook is the default branch, which fails. The result
  of stopping is not looked at.\<close>

definition do_hook ::
  "(general_event \<Rightarrow> 'w agent \<Rightarrow> 'w agent) \<Rightarrow> 'w agent_env \<Rightarrow> general_action \<Rightarrow> 'w agent \<Rightarrow> bool \<times> 'w agent" where
  "do_hook raise env x a =
     (if x = Act_TimeSync \<or> x = Act_Max then (False, a)
      else let (ok, evs, w) = ae_do env x (ag_world a)
           in (ok \<or> x = Act_Stop, fold raise evs (a\<lparr>ag_world := w\<rparr>)))"

definition do_general_action_with ::
  "(general_event \<Rightarrow> 'w agent \<Rightarrow> 'w agent) \<Rightarrow> 'w agent_env \<Rightarrow> general_action \<Rightarrow> bool \<Rightarrow> 'w agent \<Rightarrow> bool \<times> 'w agent" where
  "do_general_action_with raise env x force a =
     (if is_general_action_running x a then (True, a)
      else if \<not> force \<and> is_general_event_ready (get_general_action_target_event x) a then (True, a)
      else
        let a = update_general_action_state_bit x True (a\<lparr>ag_log := ag_log a @ [Pub_Action x]\<rparr>);
            (ok, a) = do_hook raise env x a
        in if ok then (True, a) else (False, update_general_state_error True a))"

definition trigger_general_event :: "'w agent_env \<Rightarrow> general_event \<Rightarrow> 'w agent \<Rightarrow> 'w agent" where
  "trigger_general_event env ev a =
     (let x = get_general_action_from_target_event ev
      in if ag_processing a \<or> is_general_event_ready ev a \<or> x = Act_Max then a
         else
           let unexpected = is_general_event_unexpected ev a;
               a = (if unexpected
                    then (snd (do_general_action_with (\<lambda>_ a. a) env x True
                           (update_general_action_state_bit (get_running_general_action a) False a
                             \<lparr>ag_processing := True\<rparr>)))\<lparr>ag_processing := False\<rparr>
                    else a);
               a = (if ev = Ev_Stopped then reset_general_state_flag_bits a
                    else update_general_action_state_bit x False a);
               a = update_general_event_state_bit ev True a;
               a = (if unexpected then a\<lparr>ag_forced := ag_forced a @ [ev]\<rparr> else a)
           in a\<lparr>ag_log := ag_log a @ [Pub_Event ev unexpected]\<rparr>)"

definition do_general_action :: "'w agent_env \<Rightarrow> general_action \<Rightarrow> bool \<Rightarrow> 'w agent \<Rightarrow> bool \<times> 'w agent" where
  "do_general_action env = do_general_action_with (trigger_general_event env) env"

text \<open>The part of \<open>on_stop\<close> on the flags.\<close>

definition agent_on_stop :: "'w agent_env \<Rightarrow> 'w agent \<Rightarrow> 'w agent" where
  "agent_on_stop env a =
     (clear_general_state_flag_bits (trigger_general_event env Ev_Stopped (snd (do_general_action env Act_Stop False a))))
       \<lparr>ag_processing := False\<rparr>"

section \<open>What the flags say\<close>

lemma set_flag_simps [simp]:
  "ag_flags (set_flag f b a) = (ag_flags a)(f := b)" "ag_processing (set_flag f b a) = ag_processing a"
  "ag_queue (set_flag f b a) = ag_queue a" "ag_forced (set_flag f b a) = ag_forced a" "ag_log (set_flag f b a) = ag_log a"
  "ag_queue_task (set_flag f b a) = ag_queue_task a" "ag_world (set_flag f b a) = ag_world a"
  by (simp_all add: set_flag_def)

named_theorems agent_defs

declare trigger_general_event_def [agent_defs] do_general_action_with_def [agent_defs] do_hook_def [agent_defs]
  do_general_action_def [agent_defs] is_general_event_ready_def [agent_defs]
  is_general_event_unexpected_def [agent_defs] is_general_action_running_def [agent_defs]
  update_general_action_state_bit_def [agent_defs] update_general_event_state_bit_def [agent_defs]
  reset_general_state_flag_bits_def [agent_defs] clear_general_state_flag_bits_def [agent_defs]
  update_general_state_error_def [agent_defs] is_general_state_error_def [agent_defs]

lemma running_simps [simp]:
  "get_running_general_action a =
     (if ag_flags a Flag_TimeSyncing then Act_TimeSync else if ag_flags a Flag_Activating then Act_Activate
      else if ag_flags a Flag_Starting then Act_Start else if ag_flags a Flag_Sleeping then Act_Sleep
      else if ag_flags a Flag_WakingUp then Act_WakeUp else if ag_flags a Flag_Stopping then Act_Stop else Act_Max)"
  by (simp add: get_running_general_action_def action_order_def)

text \<open>After an event that was not skipped the agent has reached it; a stop clears everything else.\<close>

lemma event_reached:
  assumes "\<not> ag_processing a" "ev \<noteq> Ev_Max" "ev \<noteq> Ev_Stopped" "ev \<noteq> Ev_TimeSynced"
  shows "is_general_event_ready ev (trigger_general_event env ev a)"
  using assms by (cases ev) (auto simp: agent_defs Let_def)

lemma stopped_flags:
  assumes "\<not> ag_processing a" "\<not> is_general_event_ready Ev_Stopped a"
  shows "ag_flags (trigger_general_event env Ev_Stopped a) = no_flags(Flag_Ready := True)"
    "\<not> ag_processing (trigger_general_event env Ev_Stopped a)"
proof -
  show "ag_flags (trigger_general_event env Ev_Stopped a) = no_flags(Flag_Ready := True)"
    using assms unfolding trigger_general_event_def Let_def
    by (auto simp: reset_general_state_flag_bits_def update_general_event_state_bit_def no_flags_def fun_eq_iff)
  show "\<not> ag_processing (trigger_general_event env Ev_Stopped a)"
    using assms unfolding trigger_general_event_def Let_def
    by (auto simp: reset_general_state_flag_bits_def update_general_event_state_bit_def)
qed

section \<open>Stopping in the middle of an action\<close>

text \<open>An agent whose stop was asked for while another action of it runs takes the event that it has stopped for
  unexpected, and tells the manager so.\<close>

lemma interrupted_stop_unexpected:
  assumes "\<not> ag_processing a" "ag_flags a Flag_Activated" "\<not> ag_flags a Flag_TimeSyncing"
    "ag_flags a Flag_Starting \<or> ag_flags a Flag_Sleeping \<or> ag_flags a Flag_WakingUp"
  shows "ag_forced (trigger_general_event env Ev_Stopped a) = ag_forced (snd (do_general_action_with (\<lambda>_ a. a) env Act_Stop True
      (update_general_action_state_bit (get_running_general_action a) False a\<lparr>ag_processing := True\<rparr>))) @ [Ev_Stopped]"
    "\<exists>xs. ag_log (trigger_general_event env Ev_Stopped a) = xs @ [Pub_Event Ev_Stopped True]"
  using assms unfolding trigger_general_event_def Let_def
  by (auto simp: is_general_event_ready_def is_general_event_unexpected_def is_general_action_running_def
      reset_general_state_flag_bits_def update_general_event_state_bit_def)

section \<open>Frames\<close>

lemma fold_ignore [simp]: "fold (\<lambda>_ a. a) xs b = b"
  by (induction xs) simp_all

lemma do_hook_ignoring [simp]:
  "ag_queue (snd (do_hook (\<lambda>_ a. a) env x a)) = ag_queue a"
  "ag_queue_task (snd (do_hook (\<lambda>_ a. a) env x a)) = ag_queue_task a"
  by (simp_all add: do_hook_def split: prod.split)

lemma do_general_action_ignoring [simp]:
  "ag_queue (snd (do_general_action_with (\<lambda>_ a. a) env x force a)) = ag_queue a"
  "ag_queue_task (snd (do_general_action_with (\<lambda>_ a. a) env x force a)) = ag_queue_task a"
proof -
  define b where "b = update_general_action_state_bit x True (a\<lparr>ag_log := ag_log a @ [Pub_Action x]\<rparr>)"
  obtain ok c where c: "do_hook (\<lambda>_ a. a) env x b = (ok, c)"
    by fastforce
  have "ag_queue b = ag_queue a" "ag_queue_task b = ag_queue_task a"
    by (simp_all add: b_def update_general_action_state_bit_def)
  then have "ag_queue c = ag_queue a" "ag_queue_task c = ag_queue_task a"
    using do_hook_ignoring [of env x b] c by simp_all
  then show "ag_queue (snd (do_general_action_with (\<lambda>_ a. a) env x force a)) = ag_queue a"
    "ag_queue_task (snd (do_general_action_with (\<lambda>_ a. a) env x force a)) = ag_queue_task a"
    using c by (simp_all add: do_general_action_with_def b_def [symmetric] update_general_state_error_def)
qed

lemma trigger_keeps_queue:
  "ag_queue (trigger_general_event env ev a) = ag_queue a"
  "ag_queue_task (trigger_general_event env ev a) = ag_queue_task a"
  by (simp_all add: trigger_general_event_def Let_def reset_general_state_flag_bits_def
      update_general_action_state_bit_def update_general_event_state_bit_def split: prod.split)

end
