(* ===== verification/Agent_Machine.thy ===== *)
theory Agent_Machine
  imports Agent_State
begin

text \<open>
  The state machine of the agent manager (\<open>agent_manager/src/state_machine.cpp\<close> and its header): a generic
  machine over the states of an agent, and the queue of actions that wait while another one runs.

  The environment of the generic machine is the active agent. The hooks of a transient state make the
  agent do the action and tell it of a failure. An unexpected event raised inside a hook also forces the
  machine to a state there; the transition that called the hook sets the state it goes to afterwards, so
  this has no effect and is only recorded. \<open>None\<close> is undefined behaviour: a call through the null machine
  or agent, or the front of an empty queue. \<open>state_classes_\<close> keeps the state objects of earlier
  initialisations in front, \<open>am_stale\<close> is their number.
\<close>

section \<open>States and their names\<close>

datatype general_state =
  TimeSyncing | Ready | Activating | Activated | Starting | Started | Sleeping | Slept | WakingUp | Stopping | Max_State

datatype extra_action = Extra_Success | Extra_Failed | Extra_Timeout | Extra_Max

fun gstate_str :: "general_state \<Rightarrow> string" where
  "gstate_str TimeSyncing = ''TimeSyncing''"
| "gstate_str Ready = ''Ready''"
| "gstate_str Activating = ''Activating''"
| "gstate_str Activated = ''Activated''"
| "gstate_str Starting = ''Starting''"
| "gstate_str Started = ''Started''"
| "gstate_str Sleeping = ''Sleeping''"
| "gstate_str Slept = ''Slept''"
| "gstate_str WakingUp = ''WakingUp''"
| "gstate_str Stopping = ''Stopping''"
| "gstate_str Max_State = ''Max''"

fun gaction_str :: "general_action \<Rightarrow> string" where
  "gaction_str Act_TimeSync = ''TimeSync''"
| "gaction_str Act_Activate = ''Activate''"
| "gaction_str Act_Start = ''Start''"
| "gaction_str Act_Sleep = ''Sleep''"
| "gaction_str Act_WakeUp = ''WakeUp''"
| "gaction_str Act_Stop = ''Stop''"
| "gaction_str Act_Max = ''Max''"

fun extra_str :: "extra_action \<Rightarrow> string" where
  "extra_str Extra_Success = ''Success''"
| "extra_str Extra_Failed = ''Failed''"
| "extra_str Extra_Timeout = ''Timeout''"
| "extra_str Extra_Max = ''Max''"

definition general_states :: "general_state list" where
  "general_states = [TimeSyncing, Ready, Activating, Activated, Starting, Started, Sleeping, Slept, WakingUp, Stopping]"

definition gstate_of :: "string \<Rightarrow> general_state option" where
  "gstate_of n = find (\<lambda>s. gstate_str s = n) (general_states @ [Max_State])"

definition gaction_of :: "string \<Rightarrow> general_action option" where
  "gaction_of n = find (\<lambda>x. gaction_str x = n) (action_order @ [Act_Max])"

definition extra_of :: "string \<Rightarrow> extra_action option" where
  "extra_of n = find (\<lambda>x. extra_str x = n) [Extra_Success, Extra_Failed, Extra_Timeout, Extra_Max]"

definition is_transient_class :: "general_state \<Rightarrow> bool" where
  "is_transient_class s \<longleftrightarrow> s \<in> set [TimeSyncing, Activating, Starting, Sleeping, WakingUp, Stopping]"

fun get_transient_state_target_event :: "general_state \<Rightarrow> general_event" where
  "get_transient_state_target_event Activating = Ev_Activated"
| "get_transient_state_target_event Starting = Ev_Started"
| "get_transient_state_target_event Sleeping = Ev_Slept"
| "get_transient_state_target_event WakingUp = Ev_Awake"
| "get_transient_state_target_event Stopping = Ev_Stopped"
| "get_transient_state_target_event _ = Ev_Max"

fun get_general_action_target_transient_state :: "general_action \<Rightarrow> general_state" where
  "get_general_action_target_transient_state Act_Activate = Activating"
| "get_general_action_target_transient_state Act_Start = Starting"
| "get_general_action_target_transient_state Act_Stop = Stopping"
| "get_general_action_target_transient_state Act_Sleep = Sleeping"
| "get_general_action_target_transient_state Act_WakeUp = WakingUp"
| "get_general_action_target_transient_state _ = Max_State"

fun get_general_action_target_stable_state :: "general_action \<Rightarrow> general_state" where
  "get_general_action_target_stable_state Act_Activate = Activated"
| "get_general_action_target_stable_state Act_Start = Started"
| "get_general_action_target_stable_state Act_Stop = Ready"
| "get_general_action_target_stable_state Act_Sleep = Slept"
| "get_general_action_target_stable_state Act_WakeUp = Started"
| "get_general_action_target_stable_state _ = Max_State"

fun get_general_event_target_state :: "general_event \<Rightarrow> general_state" where
  "get_general_event_target_state Ev_Activated = Activated"
| "get_general_event_target_state Ev_Started = Started"
| "get_general_event_target_state Ev_Stopped = Ready"
| "get_general_event_target_state Ev_Slept = Slept"
| "get_general_event_target_state Ev_Awake = Started"
| "get_general_event_target_state _ = Max_State"

section \<open>Hooks\<close>

text \<open>\<open>qt_cancel\<close> cancels a queue task, \<open>qt_active\<close> tells whether it is running; there is no scheduler
  unless \<open>qt_scheduler\<close>.\<close>

record 'w queue_env =
  qt_scheduler :: bool
  qt_active :: "nat \<Rightarrow> 'w \<Rightarrow> bool"
  qt_post :: "'w \<Rightarrow> nat option \<times> 'w"
  qt_cancel :: "nat \<Rightarrow> 'w \<Rightarrow> 'w"

definition stop_general_action_queue_task :: "'w queue_env \<Rightarrow> 'w agent \<Rightarrow> 'w agent" where
  "stop_general_action_queue_task q a =
     a\<lparr>ag_world := (if ag_queue_task a \<noteq> 0 \<and> qt_scheduler q then qt_cancel q (ag_queue_task a) (ag_world a) else ag_world a),
       ag_queue_task := 0, ag_queue := []\<rparr>"

definition process_error_state :: "'w agent_env \<Rightarrow> 'w queue_env \<Rightarrow> 'w agent \<Rightarrow> 'w agent" where
  "process_error_state env q a = trigger_general_event env Ev_Stopped (stop_general_action_queue_task q a)"

definition agent_on_enter :: "'w agent_env \<Rightarrow> general_state \<Rightarrow> string \<Rightarrow> string \<Rightarrow> 'w agent \<Rightarrow> bool \<times> 'w agent" where
  "agent_on_enter env s from_state action a =
     (if from_state = gstate_str s \<or> from_state = [] \<or> action = [] then (True, a)
      else if \<not> is_transient_class s then (True, a)
      else case gaction_of action of
        None \<Rightarrow> (True, a)
      | Some x \<Rightarrow> (True, snd (do_general_action env x False a)))"

definition agent_on_exit ::
  "'w agent_env \<Rightarrow> 'w queue_env \<Rightarrow> general_state \<Rightarrow> string \<Rightarrow> string \<Rightarrow> 'w agent \<Rightarrow> bool \<times> 'w agent" where
  "agent_on_exit env q s to_state action a =
     (if \<not> is_transient_class s then (True, a)
      else case extra_of action of
        None \<Rightarrow> (True, a)
      | Some x \<Rightarrow> (True, if x = Extra_Timeout \<or> x = Extra_Failed then process_error_state env q a else a))"

definition agent_hooks :: "'w agent_env \<Rightarrow> 'w queue_env \<Rightarrow> 'w agent sm_env \<Rightarrow> 'w agent sm_env" where
  "agent_hooks env q sch = sch
     \<lparr>on_enter := (\<lambda>n p x a. case gstate_of n of Some s \<Rightarrow> agent_on_enter env s p x a | None \<Rightarrow> (True, a)),
      on_exit := (\<lambda>n t x a. case gstate_of n of Some s \<Rightarrow> agent_on_exit env q s t x a | None \<Rightarrow> (True, a))\<rparr>"

section \<open>Building\<close>

definition time_sync_interval :: u32 where "time_sync_interval = 1000"

definition state_interval :: u32 where "state_interval = 100"

definition agent_interval :: "general_state \<Rightarrow> u32" where
  "agent_interval s =
     (if s = TimeSyncing then time_sync_interval else if is_transient_class s then state_interval else 0)"

definition agent_state_object :: "bool \<Rightarrow> general_state \<Rightarrow> state_base" where
  "agent_state_object poll s =
     (if poll \<and> is_transient_class s then set_update_interval (agent_interval s) (mk_state (gstate_str s))
      else mk_state (gstate_str s))"

abbreviation aedge :: "general_state \<Rightarrow> general_action \<Rightarrow> general_state \<Rightarrow> edge" where
  "aedge s x t \<equiv> (gstate_str s, gaction_str x, gstate_str t)"

abbreviation xedge :: "general_state \<Rightarrow> extra_action \<Rightarrow> general_state \<Rightarrow> edge" where
  "xedge s x t \<equiv> (gstate_str s, extra_str x, gstate_str t)"

definition agent_edges_start :: "edge list" where
  "agent_edges_start =
    [aedge Ready Act_Activate Activating, aedge Activated Act_Start Starting, aedge Started Act_Sleep Sleeping,
     aedge Slept Act_WakeUp WakingUp, aedge Activated Act_Stop Stopping, aedge Started Act_Stop Stopping,
     aedge Slept Act_Stop Stopping]"

definition agent_edges_success :: "edge list" where
  "agent_edges_success =
    [xedge TimeSyncing Extra_Success Ready, xedge Activating Extra_Success Activated,
     xedge Starting Extra_Success Started, xedge Sleeping Extra_Success Slept, xedge WakingUp Extra_Success Started,
     xedge Stopping Extra_Success Ready]"

definition agent_edges_stop :: "edge list" where
  "agent_edges_stop =
    [aedge Activating Act_Stop Stopping, aedge Starting Act_Stop Stopping, aedge Sleeping Act_Stop Stopping,
     aedge WakingUp Act_Stop Stopping]"

definition agent_edges_error :: "edge list" where
  "agent_edges_error =
    [xedge Activating Extra_Timeout Ready, xedge Activating Extra_Failed Ready,
     xedge Starting Extra_Timeout Ready, xedge Starting Extra_Failed Ready,
     xedge Sleeping Extra_Timeout Ready, xedge Sleeping Extra_Failed Ready,
     xedge WakingUp Extra_Timeout Ready, xedge WakingUp Extra_Failed Ready]"

definition agent_edges_self :: "edge list" where
  "agent_edges_self =
    [aedge Activating Act_Activate Activating, aedge Activated Act_Activate Activated,
     aedge Starting Act_Start Starting, aedge Starting Act_WakeUp Starting,
     aedge Started Act_Start Started, aedge Started Act_WakeUp Started,
     aedge Sleeping Act_Sleep Sleeping, aedge Slept Act_Sleep Slept, aedge Slept Act_Start Slept,
     aedge WakingUp Act_WakeUp WakingUp, aedge WakingUp Act_Start WakingUp, aedge Stopping Act_Stop Stopping]"

definition agent_edges :: "edge list" where
  "agent_edges = agent_edges_start @ agent_edges_success @ agent_edges_stop @ agent_edges_error @ agent_edges_self"

record agent_sm =
  am_initialized :: bool
  am_running :: bool
  am_machine :: "machine option"
  am_agent :: bool
  am_stale :: nat

definition new_agent_sm :: agent_sm where
  "new_agent_sm = \<lparr>am_initialized = False, am_running = False, am_machine = None, am_agent = False, am_stale = 0\<rparr>"

definition agent_init :: "agent_sm \<Rightarrow> bool \<times> agent_sm" where
  "agent_init s =
     (if am_initialized s then (True, s)
      else
        let (ok1, m1) = add_states (map (agent_state_object (am_stale s = 0)) general_states) new_machine;
            (ok2, m2) = add_edges agent_edges m1
        in if ok1 \<and> ok2 then (True, s\<lparr>am_initialized := True, am_machine := Some m2\<rparr>)
           else (False, s\<lparr>am_machine := None, am_stale := am_stale s + length general_states\<rparr>))"

section \<open>Starting and stopping\<close>

definition agent_force_transition :: "'w agent sm_env \<Rightarrow> string \<Rightarrow> agent_sm \<times> 'w agent \<Rightarrow> (agent_sm \<times> 'w agent) option" where
  "agent_force_transition sch target = (\<lambda>(s, a).
     case am_machine s of
       None \<Rightarrow> None
     | Some m \<Rightarrow> (case force_transition_to sch target (m, a) of (_, m, a) \<Rightarrow> Some (s\<lparr>am_machine := Some m\<rparr>, a)))"

text \<open>The method of this name gives the last enumerator as the empty state.\<close>

definition force_general_state :: "'w agent sm_env \<Rightarrow> general_state \<Rightarrow> agent_sm \<times> 'w agent \<Rightarrow> (agent_sm \<times> 'w agent) option" where
  "force_general_state sch t = agent_force_transition sch (if t = Max_State then [] else gstate_str t)"

definition agent_stop :: "'w queue_env \<Rightarrow> 'w agent sm_env \<Rightarrow> agent_sm \<times> 'w agent \<Rightarrow> (agent_sm \<times> 'w agent) option" where
  "agent_stop q sch = (\<lambda>(s, a).
     if \<not> am_running s then Some (s, a)
     else case agent_force_transition sch (gstate_str Max_State) (s, stop_general_action_queue_task q a) of
       None \<Rightarrow> None
     | Some (s, a) \<Rightarrow>
         (case am_machine s of
            None \<Rightarrow> None
          | Some m \<Rightarrow> (case sm_stop sch (m, a) of (m, a) \<Rightarrow> Some (s\<lparr>am_machine := Some m, am_running := False\<rparr>, a))))"

definition agent_deinit :: "'w queue_env \<Rightarrow> 'w agent sm_env \<Rightarrow> agent_sm \<times> 'w agent \<Rightarrow> (agent_sm \<times> 'w agent) option" where
  "agent_deinit q sch = (\<lambda>(s, a).
     if \<not> am_initialized s then Some (s, a)
     else map_option (\<lambda>(s, a). (s\<lparr>am_machine := None, am_initialized := False, am_stale := am_stale s + length general_states\<rparr>, a))
       (agent_stop q sch (s, a)))"

record operation_timeout =
  ot_activate :: u32
  ot_start :: u32
  ot_sleep :: u32
  ot_wake_up :: u32
  ot_stop :: u32

definition set_agent_timeout :: "general_state \<Rightarrow> u32 \<Rightarrow> machine \<Rightarrow> machine" where
  "set_agent_timeout s ms m =
     m\<lparr>sm_states := map (\<lambda>x. if st_name x = gstate_str s then set_timeout ms (extra_str Extra_Timeout) x else x) (sm_states m)\<rparr>"

definition set_agent_timeouts :: "operation_timeout \<Rightarrow> machine \<Rightarrow> machine" where
  "set_agent_timeouts t m =
     set_agent_timeout WakingUp (ot_wake_up t) (set_agent_timeout Sleeping (ot_sleep t)
       (set_agent_timeout Stopping (ot_stop t) (set_agent_timeout Starting (ot_start t)
         (set_agent_timeout Activating (ot_activate t) m))))"

text \<open>\<open>active\<close> tells whether there is an active agent, \<open>require_sync\<close> and \<open>t\<close> are its attributes.\<close>

definition agent_start ::
  "'w queue_env \<Rightarrow> 'w agent sm_env \<Rightarrow> bool \<Rightarrow> bool \<Rightarrow> operation_timeout \<Rightarrow> sched option \<Rightarrow> string
    \<Rightarrow> agent_sm \<times> 'w agent \<Rightarrow> (bool \<times> agent_sm \<times> 'w agent) option" where
  "agent_start q sch active require_sync t sched grp = (\<lambda>(s, a).
     if am_running s then Some (True, s, a)
     else
       let s = s\<lparr>am_running := True, am_agent := active\<rparr>
       in if \<not> active then map_option (\<lambda>sa. (False, sa)) (agent_stop q sch (s, a))
          else case am_machine s of
            None \<Rightarrow> None
          | Some m \<Rightarrow>
              (case sm_start sch \<lparr>cfg_scheduler = sched, cfg_group = grp,
                       cfg_initial = gstate_str (if require_sync then TimeSyncing else Ready)\<rparr>
                     (if am_stale s = 0 then set_agent_timeouts t m else m, a) of
                 (ok, m, a) \<Rightarrow>
                   let s = s\<lparr>am_machine := Some m\<rparr>
                   in if ok then Some (True, s, a) else map_option (\<lambda>sa. (False, sa)) (agent_stop q sch (s, a))))"

section \<open>Triggers and the queue\<close>

definition agent_trigger :: "'w agent sm_env \<Rightarrow> string \<Rightarrow> bool \<Rightarrow> agent_sm \<times> 'w agent \<Rightarrow> (bool \<times> agent_sm \<times> 'w agent) option" where
  "agent_trigger sch x use_dispatch = (\<lambda>(s, a).
     case am_machine s of
       None \<Rightarrow> None
     | Some m \<Rightarrow> (case trigger_action sch x use_dispatch (m, a) of (ok, m, a) \<Rightarrow> Some (ok, s\<lparr>am_machine := Some m\<rparr>, a)))"

definition trigger_extra_action :: "'w agent sm_env \<Rightarrow> extra_action \<Rightarrow> agent_sm \<times> 'w agent \<Rightarrow> (bool \<times> agent_sm \<times> 'w agent) option" where
  "trigger_extra_action sch x = agent_trigger sch (extra_str x) False"

definition is_action_running :: "machine \<Rightarrow> 'w agent \<Rightarrow> bool" where
  "is_action_running m a \<longleftrightarrow>
     get_running_general_action a \<noteq> Act_Max \<or> has_transition_running m \<or> has_state_updating m"

definition is_general_action_queue_task_running :: "'w queue_env \<Rightarrow> 'w agent \<Rightarrow> bool" where
  "is_general_action_queue_task_running q a \<longleftrightarrow>
     ag_queue_task a \<noteq> 0 \<and> qt_scheduler q \<and> qt_active q (ag_queue_task a) (ag_world a)"

definition start_general_action_queue_task :: "'w queue_env \<Rightarrow> 'w agent \<Rightarrow> bool \<times> 'w agent" where
  "start_general_action_queue_task q a =
     (if is_general_action_queue_task_running q a then (True, a)
      else if \<not> qt_scheduler q then (False, a)
      else case qt_post q (ag_world a) of
        (None, w) \<Rightarrow> (False, a\<lparr>ag_world := w\<rparr>)
      | (Some i, w) \<Rightarrow> (True, a\<lparr>ag_queue_task := i, ag_world := w\<rparr>))"

definition pop_general_action_queue_front :: "'w agent \<Rightarrow> general_action \<times> 'w agent" where
  "pop_general_action_queue_front a = (case ag_queue a of [] \<Rightarrow> (Act_Max, a) | x # xs \<Rightarrow> (x, a\<lparr>ag_queue := xs\<rparr>))"

text \<open>The periodic task of the queue; the result is whether it goes on.\<close>

definition run_queue_task :: "'w agent sm_env \<Rightarrow> agent_sm \<times> 'w agent \<Rightarrow> (bool \<times> agent_sm \<times> 'w agent) option" where
  "run_queue_task sch = (\<lambda>(s, a).
     case am_machine s of
       None \<Rightarrow> None
     | Some m \<Rightarrow>
         if is_action_running m a then Some (True, s, a)
         else let (x, a) = pop_general_action_queue_front a
              in if x = Act_Max then Some (False, s, a)
                 else case agent_trigger sch (gaction_str x) False (s, a) of
                   None \<Rightarrow> None
                 | Some (ok, s, a) \<Rightarrow>
                     if \<not> ok then Some (True, s, a)
                     else if ag_queue a = [] then Some (False, s, a\<lparr>ag_queue_task := 0\<rparr>)
                     else Some (True, s, a))"

text \<open>An action that has no action to be done first.\<close>

definition trigger_one ::
  "'w queue_env \<Rightarrow> 'w agent sm_env \<Rightarrow> general_action \<Rightarrow> bool \<Rightarrow> agent_sm \<times> 'w agent \<Rightarrow> (bool \<times> agent_sm \<times> 'w agent) option" where
  "trigger_one q sch x use_dispatch = (\<lambda>(s, a).
     case am_machine s of
       None \<Rightarrow> None
     | Some m \<Rightarrow>
         if is_action_running m a \<or> is_general_action_queue_task_running q a \<or> ag_queue a \<noteq> []
         then (case ag_queue a of
             [] \<Rightarrow> None
           | front # _ \<Rightarrow>
               if x = front \<or> x = get_running_general_action a then Some (True, s, a)
               else case start_general_action_queue_task q (a\<lparr>ag_queue := ag_queue a @ [x]\<rparr>) of
                 (ok, a) \<Rightarrow> Some (ok, s, a))
         else agent_trigger sch (gaction_str x) use_dispatch (s, a))"

text \<open>Starting an agent that is not activated triggers its activation first.\<close>

definition trigger_general_action ::
  "'w queue_env \<Rightarrow> 'w agent sm_env \<Rightarrow> general_action \<Rightarrow> bool \<Rightarrow> agent_sm \<times> 'w agent \<Rightarrow> (bool \<times> agent_sm \<times> 'w agent) option" where
  "trigger_general_action q sch x use_dispatch = (\<lambda>(s, a).
     if \<not> am_running s then Some (False, s, a)
     else if x = Act_Start \<and> \<not> is_general_event_ready Ev_Activated a
     then (case trigger_one q sch Act_Activate use_dispatch (s, a) of
         None \<Rightarrow> None
       | Some (ok, s, a) \<Rightarrow> if \<not> ok then Some (False, s, a) else trigger_one q sch x use_dispatch (s, a))
     else trigger_one q sch x use_dispatch (s, a))"

section \<open>Polling\<close>

text \<open>\<open>on_update\<close>; \<open>synced\<close> is the answer of the time service.\<close>

definition agent_on_update ::
  "'w agent sm_env \<Rightarrow> ('w \<Rightarrow> bool \<times> 'w) \<Rightarrow> general_state \<Rightarrow> agent_sm \<times> 'w agent \<Rightarrow> (agent_sm \<times> 'w agent) option" where
  "agent_on_update sch synced t = (\<lambda>(s, a).
     if \<not> am_agent s then Some (s, a)
     else if t = TimeSyncing
     then (case synced (ag_world a) of
         (ok, w) \<Rightarrow>
           if ok then map_option snd (trigger_extra_action sch Extra_Success (s, a\<lparr>ag_world := w\<rparr>))
           else Some (s, a\<lparr>ag_world := w\<rparr>))
     else
       let ev = get_transient_state_target_event t
       in if ev = Ev_Max then Some (s, a)
          else if is_general_event_ready ev a then map_option snd (trigger_extra_action sch Extra_Success (s, a))
          else if is_general_state_error a then map_option snd (trigger_extra_action sch Extra_Failed (s, a))
          else Some (s, a))"

definition get_current_general_state :: "machine \<Rightarrow> general_state" where
  "get_current_general_state m = (case gstate_of (current_state m) of Some s \<Rightarrow> s | None \<Rightarrow> Max_State)"

definition is_transient_state :: "machine \<Rightarrow> bool" where
  "is_transient_state m \<longleftrightarrow>
     get_current_general_state m \<in> set [TimeSyncing, Starting, Sleeping, WakingUp, Stopping]"

text \<open>An event raised outside a hook. The manager's callback for an unexpected one forces the machine to the state
  of the event if there is an active agent.\<close>

definition raise_event ::
  "'w agent_env \<Rightarrow> 'w agent sm_env \<Rightarrow> bool \<Rightarrow> general_event \<Rightarrow> agent_sm \<times> 'w agent \<Rightarrow> (agent_sm \<times> 'w agent) option" where
  "raise_event env sch active ev = (\<lambda>(s, a).
     let a' = trigger_general_event env ev a
     in if length (ag_forced a') = length (ag_forced a) \<or> \<not> active then Some (s, a')
        else if get_general_event_target_state ev = Max_State then Some (s, a')
        else force_general_state sch (get_general_event_target_state ev) (s, a'))"

section \<open>The table\<close>

abbreviation agent_objects :: "bool \<Rightarrow> state_base list" where
  "agent_objects poll \<equiv> map (agent_state_object poll) general_states"

lemma st_name_agent [simp]: "st_name (agent_state_object poll s) = gstate_str s"
  by (simp add: agent_state_object_def mk_state_def set_update_interval_def)

lemmas agent_edges_defs =
  agent_edges_def agent_edges_start_def agent_edges_success_def agent_edges_stop_def agent_edges_error_def
  agent_edges_self_def

interpretation agent_table: table_machine "agent_objects poll" agent_edges for poll
proof unfold_locales
  show "distinct (map st_name (agent_objects poll))"
    by (simp add: general_states_def)
  show "distinct (map (\<lambda>(s, a, t). (s, a)) agent_edges)"
    unfolding agent_edges_defs by code_simp
  show "\<forall>(s, a, t) \<in> set agent_edges. s \<in> st_name ` set (agent_objects poll) \<and>
      t \<in> st_name ` set (agent_objects poll)"
    by (simp add: agent_edges_defs general_states_def)
qed

lemma agent_init_built:
  "\<not> am_initialized s \<Longrightarrow> agent_init s =
     (True, s\<lparr>am_initialized := True, am_machine := Some (agent_table.built (am_stale s = 0))\<rparr>)"
  by (simp add: agent_init_def Let_def agent_table.states_ok agent_table.edges_ok)

text \<open>Where an action and an extra action lead.\<close>

fun action_next :: "general_state \<Rightarrow> general_action \<Rightarrow> general_state option" where
  "action_next Ready Act_Activate = Some Activating"
| "action_next Activated Act_Start = Some Starting"
| "action_next Started Act_Sleep = Some Sleeping"
| "action_next Slept Act_WakeUp = Some WakingUp"
| "action_next Activating Act_Activate = Some Activating"
| "action_next Activated Act_Activate = Some Activated"
| "action_next Starting Act_Start = Some Starting"
| "action_next Starting Act_WakeUp = Some Starting"
| "action_next Started Act_Start = Some Started"
| "action_next Started Act_WakeUp = Some Started"
| "action_next Sleeping Act_Sleep = Some Sleeping"
| "action_next Slept Act_Sleep = Some Slept"
| "action_next Slept Act_Start = Some Slept"
| "action_next WakingUp Act_WakeUp = Some WakingUp"
| "action_next WakingUp Act_Start = Some WakingUp"
| "action_next s Act_Stop = (if s \<in> set [TimeSyncing, Ready, Max_State] then None else Some Stopping)"
| "action_next _ _ = None"

fun extra_next :: "general_state \<Rightarrow> extra_action \<Rightarrow> general_state option" where
  "extra_next TimeSyncing Extra_Success = Some Ready"
| "extra_next Activating Extra_Success = Some Activated"
| "extra_next Starting Extra_Success = Some Started"
| "extra_next Sleeping Extra_Success = Some Slept"
| "extra_next WakingUp Extra_Success = Some Started"
| "extra_next Stopping Extra_Success = Some Ready"
| "extra_next s Extra_Failed = (if s \<in> set [Activating, Starting, Sleeping, WakingUp] then Some Ready else None)"
| "extra_next s Extra_Timeout = (if s \<in> set [Activating, Starting, Sleeping, WakingUp] then Some Ready else None)"
| "extra_next _ _ = None"

lemma agent_edges_next:
  "edge_map agent_edges (gstate_str s, gaction_str x) = map_option gstate_str (action_next s x)"
  "edge_map agent_edges (gstate_str s, extra_str y) = map_option gstate_str (extra_next s y)"
proof -
  have "\<forall>s \<in> set (Max_State # general_states). \<forall>x \<in> set (Act_Max # action_order).
      edge_map agent_edges (gstate_str s, gaction_str x) = map_option gstate_str (action_next s x)"
    by code_simp
  moreover have "\<forall>s \<in> set (Max_State # general_states). \<forall>y \<in> set [Extra_Success, Extra_Failed, Extra_Timeout, Extra_Max].
      edge_map agent_edges (gstate_str s, extra_str y) = map_option gstate_str (extra_next s y)"
    by code_simp
  moreover have "s \<in> set (Max_State # general_states)"
    by (cases s) (simp_all add: general_states_def)
  moreover have "x \<in> set (Act_Max # action_order)"
    by (cases x) (simp_all add: action_order_def)
  moreover have "y \<in> set [Extra_Success, Extra_Failed, Extra_Timeout, Extra_Max]"
    by (cases y) simp_all
  ultimately show "edge_map agent_edges (gstate_str s, gaction_str x) = map_option gstate_str (action_next s x)"
    "edge_map agent_edges (gstate_str s, extra_str y) = map_option gstate_str (extra_next s y)"
    by blast+
qed

text \<open>An action leads to the transient state of the action and from there to the state of the event it aims at;
  every transient state but two is left on a timeout. Nothing but success leaves the stopping state, whose
  timeout is set all the same.\<close>

lemma agent_targets_agree:
  assumes "get_general_action_target_transient_state x = t" "t \<noteq> Max_State"
  shows "\<exists>s. action_next s x = Some t" "s \<noteq> t \<Longrightarrow> action_next s x = Some u \<Longrightarrow> u \<in> {s, t}"
    "extra_next t Extra_Success = Some (get_general_action_target_stable_state x)"
    "get_general_event_target_state (get_transient_state_target_event t) = get_general_action_target_stable_state x"
    "get_general_action_target_event x = get_transient_state_target_event t"
proof -
  show "\<exists>s. action_next s x = Some t"
    using assms by (cases x) (auto intro: exI [of _ Ready] exI [of _ Activated] exI [of _ Started] exI [of _ Slept])
  show "s \<noteq> t \<Longrightarrow> action_next s x = Some u \<Longrightarrow> u \<in> {s, t}"
    using assms by (cases x; cases s) (auto split: if_splits)
qed (use assms in \<open>cases x; auto\<close>)+

lemma activating_not_transient:
  "current_state m = gstate_str Activating \<Longrightarrow> \<not> is_transient_state m \<and> is_transient_class Activating"
  by (simp add: is_transient_state_def get_current_general_state_def is_transient_class_def gstate_of_def
      general_states_def)

lemma stopping_ignores_timeout:
  assumes "extra_next Stopping y = Some u"
  shows "y = Extra_Success"
  using assms by (cases y) auto

lemma stopping_stays:
  assumes "transitions m = transitions (agent_table.built poll)" "sm_is_running m" "current_state m = gstate_str Stopping"
  shows "current_state (fst (run_trigger env (extra_str Extra_Timeout) (m, e))) = gstate_str Stopping"
proof -
  have "sm_delta m (gstate_str Stopping) (extra_str Extra_Timeout) = None"
    using agent_table.built_delta [of poll] agent_edges_next(2) [of Stopping Extra_Timeout] assms(1)
    by (simp add: sm_delta_def)
  then show ?thesis
    using assms(2,3) by (auto simp: run_trigger_def sm_delta_def finish_one_fields split: option.splits)
qed

text \<open>A second initialisation of the same object makes states that are neither polled nor timed out: the
  settings go to the state objects of the first one.\<close>

lemma reinit_polls_nothing:
  assumes "0 < am_stale s" "\<not> am_initialized s"
  shows "\<exists>m. snd (agent_init s) = s\<lparr>am_initialized := True, am_machine := Some m\<rparr> \<and>
    (\<forall>x \<in> set (sm_states m). update_interval_ms x = 0 \<and> timeout_ms x = 0)"
proof -
  have "sm_states (agent_table.built (am_stale s = 0)) = agent_objects False"
    using assms(1) by (simp add: agent_table.built_states)
  then show ?thesis
    using agent_init_built [OF assms(2)]
    by (intro exI [of _ "agent_table.built (am_stale s = 0)"]) (simp add: agent_state_object_def mk_state_def)
qed

section \<open>Errors\<close>

lemma agent_on_exit_error:
  assumes "is_transient_class s" "x = Extra_Timeout \<or> x = Extra_Failed"
  shows "agent_on_exit env q s t (extra_str x) a = (True, process_error_state env q a)"
  using assms(2)
proof
  assume "x = Extra_Timeout"
  then show ?thesis
    using assms(1) by (simp add: agent_on_exit_def extra_of_def)
next
  assume "x = Extra_Failed"
  then show ?thesis
    using assms(1) by (simp add: agent_on_exit_def extra_of_def)
qed

text \<open>When a transient state is left because of a timeout or a failure of an agent that was activating or
  activated, the agent has stopped: of all flags only the ready one is left.\<close>

lemma error_exit_resets_agent:
  assumes "is_transient_class s" and "x = Extra_Timeout \<or> x = Extra_Failed" and "\<not> ag_processing a"
    and "ag_flags a Flag_Activated \<or> get_running_general_action a = Act_Activate"
  shows "\<exists>b. agent_on_exit env q s t (extra_str x) a = (True, b) \<and>
    ag_flags b = no_flags(Flag_Ready := True) \<and> get_running_general_action b = Act_Max \<and>
    \<not> is_general_state_error b \<and> ag_queue b = [] \<and> ag_queue_task b = 0"
proof -
  let ?c = "stop_general_action_queue_task q a"
  define b where "b = process_error_state env q a"
  have c: "ag_flags ?c = ag_flags a" "ag_processing ?c = ag_processing a" "ag_queue ?c = []" "ag_queue_task ?c = 0"
    by (simp_all add: stop_general_action_queue_task_def)
  have r: "\<not> is_general_event_ready Ev_Stopped ?c"
    using assms(4) by (auto simp: is_general_event_ready_def is_general_action_running_def c split: if_splits)
  have f: "ag_flags b = no_flags(Flag_Ready := True)"
    using stopped_flags(1) [of ?c env] assms(3) r by (simp add: b_def process_error_state_def c)
  have "ag_queue b = []" "ag_queue_task b = 0"
    using c(3,4) unfolding b_def process_error_state_def by (simp_all add: trigger_keeps_queue)
  with f show ?thesis
    using agent_on_exit_error [OF assms(1,2), of env q t a]
    by (intro exI [of _ b]) (simp add: b_def [symmetric] is_general_state_error_def no_flags_def)
qed

section \<open>Following the table\<close>

text \<open>What the scheduler and the callback of the generic machine leave alone.\<close>

definition same_agent :: "'w agent \<Rightarrow> 'w agent \<Rightarrow> bool" where
  "same_agent a b \<longleftrightarrow> ag_flags a = ag_flags b \<and> ag_queue a = ag_queue b \<and> ag_queue_task a = ag_queue_task b"

definition keeps_agent :: "'w agent sm_env \<Rightarrow> bool" where
  "keeps_agent sch \<longleftrightarrow> (\<forall>p i a. same_agent (sch_cancel sch p i a) a) \<and>
     (\<forall>p t i g a. same_agent (snd (sch_post_periodic sch p t i g a)) a) \<and>
     (\<forall>p t i g a. same_agent (snd (sch_post_delayed sch p t i g a)) a) \<and>
     (\<forall>f x t a. same_agent (finish_callback sch f x t a) a)"

lemma same_agent_refl [simp]: "same_agent a a"
  by (simp add: same_agent_def)

lemma same_agent_trans: "same_agent a b \<Longrightarrow> same_agent b c \<Longrightarrow> same_agent a c"
  by (simp add: same_agent_def)

lemma agent_hooks_sel [simp]:
  "keeps_agent (agent_hooks env q sch) = keeps_agent sch"
  "on_enter (agent_hooks env q sch) n p x a = (case gstate_of n of Some s \<Rightarrow> agent_on_enter env s p x a | None \<Rightarrow> (True, a))"
  "on_exit (agent_hooks env q sch) n p x a = (case gstate_of n of Some s \<Rightarrow> agent_on_exit env q s p x a | None \<Rightarrow> (True, a))"
  by (simp_all add: agent_hooks_def keeps_agent_def)

lemma gstate_of_str [simp]: "gstate_of (gstate_str s) = Some s"
  by (cases s) (simp_all add: gstate_of_def general_states_def)

lemma agent_hooks_agree:
  "fst (on_enter (agent_hooks env q sch) n p x a)" "fst (on_exit (agent_hooks env q sch) n p x a)"
  by (simp_all add: agent_on_enter_def agent_on_exit_def split: option.splits)

lemma keeps_cancel: "keeps_agent sch \<Longrightarrow> same_agent (snd (cancel_current_tasks sch p)) (snd p)"
  by (cases p) (auto simp: cancel_current_tasks_def Let_def keeps_agent_def intro: same_agent_trans split: option.splits)

lemma keeps_setup:
  assumes "keeps_agent sch"
  shows "same_agent (snd (snd (setup_state_tasks sch n p))) (snd p)"
  using assms
  by (cases p, auto simp: setup_state_tasks_def keeps_agent_def Let_def split_def split: option.splits)
    (meson same_agent_trans)

lemma keeps_run:
  assumes "keeps_agent sch" "sm_is_running m" "current_state m \<noteq> []" "sm_delta m (current_state m) x = Some t"
  shows "same_agent (snd (run_trigger sch x (m, a))) (snd (snd (transition_to sch t x (m, a))))"
  using assms by (auto simp: run_trigger_def sm_delta_def split_def Let_def keeps_agent_def split: option.splits)

text \<open>A machine that \<open>agent_init\<close> made, whatever it did since.\<close>

definition agent_machine :: "machine \<Rightarrow> bool" where
  "agent_machine m \<longleftrightarrow> map st_name (sm_states m) = map gstate_str general_states \<and>
     transitions m = transitions (snd (add_edges agent_edges (snd (add_states (map (agent_state_object True) general_states) new_machine))))"

lemma built_transitions: "transitions (agent_table.built p) = transitions (agent_table.built True)"
proof -
  have "transitions (snd (add_edges es m)) = transitions (snd (add_edges es m'))"
    if "transitions m = transitions m'" "fst (add_edges es m)" "fst (add_edges es m')" for es and m m' :: machine
    using that
  proof (induction es arbitrary: m m')
    case (Cons e es)
    obtain s a t where e: "e = (s, a, t)" by (cases e)
    obtain b n where n: "add_transition s a t m = (b, n)" by fastforce
    obtain b' n' where n': "add_transition s a t m' = (b', n')" by fastforce
    have "b = b'" "transitions n = transitions n'"
      using n n' Cons.prems(1) by (auto simp: add_transition_def Let_def split: if_splits)
    then show ?case
      using Cons.IH [of n n'] Cons.prems n n' by (auto simp: e split: if_splits)
  qed simp
  from this [of "new_machine\<lparr>sm_states := agent_objects p\<rparr>" "new_machine\<lparr>sm_states := agent_objects True\<rparr>" agent_edges]
  show ?thesis
    using agent_table.edges_ok [of p] agent_table.edges_ok [of True] by simp
qed

lemma agent_machine_alt:
  "agent_machine m \<longleftrightarrow> map st_name (sm_states m) = map st_name (agent_objects True) \<and>
     transitions m = transitions (agent_table.built True)"
  using agent_table.states_ok [of True] agent_table.edges_ok [of True]
  by (simp add: agent_machine_def comp_def)

lemma agent_init_machine: "\<not> am_initialized s \<Longrightarrow> am_machine (snd (agent_init s)) = Some m \<Longrightarrow> agent_machine m"
  using agent_init_built [of s] agent_table.built_states [of "am_stale s = 0"] built_transitions [of "am_stale s = 0"]
  by (auto simp: agent_machine_alt)

lemma agent_run_follows:
  assumes "agent_machine m" "sm_is_running m" "current_state m = gstate_str s" "s \<noteq> Max_State"
  shows "current_state (fst (run_trigger (agent_hooks env q sch) x (m, a))) =
    (case edge_map agent_edges (gstate_str s, x) of None \<Rightarrow> gstate_str s | Some t \<Rightarrow> t)"
proof -
  have "gstate_str s \<in> st_name ` set (agent_objects True)" "gstate_str s \<noteq> []"
    using assms(4) by (cases s; simp add: general_states_def)+
  then have "current_state (fst (run_trigger (agent_hooks env q sch) x (m, a))) =
      (case edge_map agent_edges (current_state m, x) of None \<Rightarrow> current_state m | Some t \<Rightarrow> t)"
    using assms(1,2,3) agent_hooks_agree
    by (intro agent_table.run_follows [where poll = True]) (simp_all only: agent_machine_alt simp_thms)
  then show ?thesis by (simp only: assms(3))
qed

text \<open>C35: The agent's machine refines the table of its states: whatever the hooks of the agent, its events and the
  scheduler do, a queued action or extra action of a running machine leads exactly to the state the
  table gives for it, and leaves the machine where it is when the table gives none. No hook vetoes a step.\<close>

theorem agent_follows_table:
  assumes "agent_machine m" and "sm_is_running m" and "current_state m = gstate_str s" and "s \<noteq> Max_State"
  shows "current_state (fst (run_trigger (agent_hooks env q sch) (gaction_str x) (m, a))) =
      gstate_str (case action_next s x of None \<Rightarrow> s | Some t \<Rightarrow> t) \<and>
    current_state (fst (run_trigger (agent_hooks env q sch) (extra_str y) (m, a))) =
      gstate_str (case extra_next s y of None \<Rightarrow> s | Some t \<Rightarrow> t)"
  using agent_run_follows [OF assms, of env q sch] agent_edges_next(1) [of s x] agent_edges_next(2) [of s y]
  by (simp split: option.splits)


section \<open>The queue of actions\<close>

text \<open>An action asked for while another one runs and none waits reads the front of the empty queue.\<close>

lemma busy_trigger_undefined:
  assumes "am_machine s = Some m" "is_action_running m a" "ag_queue a = []"
  shows "trigger_one q sch x d (s, a) = None"
  using assms by (simp add: trigger_one_def)

text \<open>C39: Starting an agent that is not activated is undefined behaviour: its activation is triggered first, and
  then, as that transition is under way, the front of the empty queue of actions is read.\<close>

theorem agent_start_undefined:
  assumes "am_running s" and "am_machine s = Some m" and "sm_is_running m"
    and "\<not> is_general_event_ready Ev_Activated a" and "\<not> is_action_running m a"
    and "ag_queue a = []" and "ag_queue_task a = 0"
    and "\<And>p g. sch_post sch p (Trigger ''Activate'') g a = (True, a)"
  shows "trigger_general_action q sch Act_Start False (s, a) = None"
proof -
  obtain p where p: "task_scheduler m = Some p"
    using assms(3) by (auto simp: sm_is_running_def)
  have "transition_count m = 0"
    using assms(5) by (auto simp: is_action_running_def has_transition_running_def word_gt_0 simp del: running_simps)
  then have t: "trigger_action sch ''Activate'' False (m, a) = (True, m\<lparr>transition_count := 1\<rparr>, a)"
    using p assms(8) by (simp add: trigger_action_def)
  have "trigger_one q sch Act_Activate False (s, a) = Some (True, s\<lparr>am_machine := Some (m\<lparr>transition_count := 1\<rparr>)\<rparr>, a)"
    using assms(2,5,6,7) t by (simp add: trigger_one_def is_general_action_queue_task_running_def agent_trigger_def)
  moreover have "trigger_one q sch Act_Start False (s\<lparr>am_machine := Some (m\<lparr>transition_count := 1\<rparr>)\<rparr>, a) = None"
    using assms(6) by (intro busy_trigger_undefined [where m = "m\<lparr>transition_count := 1\<rparr>"])
      (simp_all add: is_action_running_def has_transition_running_def)
  ultimately show ?thesis
    using assms(1,4) by (simp add: trigger_general_action_def)
qed

section \<open>Closed examples\<close>

text \<open>An agent whose hooks succeed at once without an event, on a scheduler that takes every task.\<close>

definition quiet_agent_env :: "unit agent_env" where
  "quiet_agent_env = \<lparr>ae_do = (\<lambda>_ w. (True, [], w))\<rparr>"

definition quiet_queue_env :: "unit queue_env" where
  "quiet_queue_env = \<lparr>qt_scheduler = True, qt_active = (\<lambda>_ _. True), qt_post = (\<lambda>w. (Some 1, w)), qt_cancel = (\<lambda>_ w. w)\<rparr>"

definition quiet_sched :: "unit agent sm_env" where
  "quiet_sched =
    \<lparr>on_enter = (\<lambda>_ _ _ w. (True, w)), on_exit = (\<lambda>_ _ _ w. (True, w)), finish_callback = (\<lambda>_ _ _ w. w),
     sch_is_running = (\<lambda>_ _. True), sch_start = (\<lambda>_ w. (True, w)), sch_configure_group = (\<lambda>_ _ w. (True, w)),
     sch_post = (\<lambda>_ _ _ w. (True, w)), sch_dispatch = (\<lambda>_ _ _ w. (True, w)),
     sch_post_periodic = (\<lambda>_ _ _ _ w. (1, w)), sch_post_delayed = (\<lambda>_ _ _ _ w. (2, w)), sch_cancel = (\<lambda>_ _ w. w)\<rparr>"

definition demo_agent_machine :: "general_state \<Rightarrow> machine" where
  "demo_agent_machine s = (the (am_machine (snd (agent_init new_agent_sm))))
     \<lparr>task_scheduler := Some 1, current_state := gstate_str s\<rparr>"

definition starting_agent :: "unit agent" where
  "starting_agent = (new_agent ())\<lparr>ag_flags := no_flags(Flag_Ready := True, Flag_Activated := True, Flag_Starting := True)\<rparr>"

lemma demo_agent_machine [simp]:
  "agent_machine (demo_agent_machine s)" "sm_is_running (demo_agent_machine s)"
  "current_state (demo_agent_machine s) = gstate_str s" "keeps_agent quiet_sched"
proof -
  have "agent_machine (the (am_machine (snd (agent_init new_agent_sm))))"
    using agent_init_machine [of new_agent_sm] agent_init_built [of new_agent_sm] by (simp add: new_agent_sm_def)
  then show "agent_machine (demo_agent_machine s)"
    by (simp add: demo_agent_machine_def agent_machine_def)
qed (simp_all add: demo_agent_machine_def sm_is_running_def keeps_agent_def quiet_sched_def)

theorem agent_follows_table_witness:
  "current_state (fst (run_trigger (agent_hooks quiet_agent_env quiet_queue_env quiet_sched) ''Stop''
      (demo_agent_machine Starting, starting_agent))) = ''Stopping'' \<and>
   current_state (fst (run_trigger (agent_hooks quiet_agent_env quiet_queue_env quiet_sched) ''Success''
      (demo_agent_machine Starting, starting_agent))) = ''Started''"
  using agent_follows_table [of "demo_agent_machine Starting" Starting quiet_agent_env quiet_queue_env quiet_sched
    Act_Stop starting_agent Extra_Success] by simp


theorem agent_start_undefined_witness:
  "trigger_general_action quiet_queue_env quiet_sched Act_Start False
     (new_agent_sm\<lparr>am_initialized := True, am_running := True, am_agent := True, am_machine := Some (demo_agent_machine Ready)\<rparr>,
      new_agent ()) = None"
proof -
  have "transition_count (demo_agent_machine Ready) = 0" "update_task_id (demo_agent_machine Ready) = 0"
    unfolding demo_agent_machine_def new_agent_sm_def by code_simp+
  then show ?thesis
    by (intro agent_start_undefined [where m = "demo_agent_machine Ready"])
      (simp_all add: is_action_running_def has_transition_running_def has_state_updating_def new_agent_def
        is_general_event_ready_def no_flags_def quiet_sched_def)
qed

end
